(* ===== verification/Prelude.thy ===== *)
theory Prelude
  imports Main "HOL-Library.Multiset" "HOL-Library.AList"
begin

text \<open>
  Shared vocabulary of the development: the JavaScript built-ins the client relies on, written
  once, and the lemma collections the component theories add to.

  \<^item> strings are \<open>string\<close>, one \<open>char\<close> per code unit (Latin-1); ids, ISO timestamps and event
    names are compared for equality or by code unit, so nothing depends on the wider range;
  \<^item> \<open>Array.prototype.sort\<close> is stable (ECMAScript 2019): \<open>js_sort\<close> with a comparator that returns
    a number, and the locale \<open>js_comparator\<close> for the laws a comparator has to obey;
  \<^item> \<open>Map\<close> iterates in insertion order and \<open>set\<close> keeps the position of a known key, which is
    \<^const>\<open>AList.update\<close>; \<open>delete\<close> is \<^const>\<open>AList.delete\<close>;
  \<^item> \<open>null\<close> and \<open>undefined\<close> are both \<open>None\<close>, and \<open>truthy\<close> is the test on a nullable string;
  \<^item> a store or hook is a step function over events, and \<open>event_machine\<close> lifts a property of one
    step to a whole run.
\<close>

named_theorems model_defs \<open>definitions a component proof unfolds\<close>
named_theorems sort_facts \<open>content and order of sorted lists\<close>

section \<open>Strings and nullable values\<close>

definition truthy :: "string option \<Rightarrow> bool" where
  "truthy v = (case v of None \<Rightarrow> False | Some s \<Rightarrow> s \<noteq> [])"

lemma truthy_simps [simp]: "\<not> truthy None" "truthy (Some s) \<longleftrightarrow> s \<noteq> []"
  by (simp_all add: truthy_def)

text \<open>\<open>a < b\<close> on strings compares code units from the left; a proper prefix is smaller.\<close>

fun str_cmp :: "string \<Rightarrow> string \<Rightarrow> int" where
  "str_cmp [] [] = 0"
| "str_cmp [] (y # ys) = -1"
| "str_cmp (x # xs) [] = 1"
| "str_cmp (x # xs) (y # ys) =
     (if (of_char x :: nat) < of_char y then -1
      else if (of_char y :: nat) < of_char x then 1
      else str_cmp xs ys)"

abbreviation str_less :: "string \<Rightarrow> string \<Rightarrow> bool" where
  "str_less a b \<equiv> str_cmp a b < 0"

definition starts_with :: "string \<Rightarrow> string \<Rightarrow> bool" where
  "starts_with p s \<longleftrightarrow> take (length p) s = p"

text \<open>White space of \<open>String.prototype.trim\<close> within Latin-1: tab, the line breaks, space, nbsp.\<close>

definition js_space :: "char \<Rightarrow> bool" where
  "js_space c \<longleftrightarrow> (let n = (of_char c :: nat) in n \<in> {9, 10, 11, 12, 13, 32, 160})"

definition js_trim :: "string \<Rightarrow> string" where
  "js_trim s = rev (dropWhile js_space (rev (dropWhile js_space s)))"

definition js_upper_char :: "char \<Rightarrow> char" where
  "js_upper_char c =
     (let n = (of_char c :: nat) in if 97 \<le> n \<and> n \<le> 122 then char_of (n - 32) else c)"

definition js_lower_char :: "char \<Rightarrow> char" where
  "js_lower_char c =
     (let n = (of_char c :: nat) in if 65 \<le> n \<and> n \<le> 90 then char_of (n + 32) else c)"

section \<open>Stable sort with a numeric comparator\<close>

fun cmp_insert :: "('a \<Rightarrow> 'a \<Rightarrow> int) \<Rightarrow> 'a \<Rightarrow> 'a list \<Rightarrow> 'a list" where
  "cmp_insert c x [] = [x]"
| "cmp_insert c x (y # ys) = (if c x y \<le> 0 then x # y # ys else y # cmp_insert c x ys)"

definition js_sort :: "('a \<Rightarrow> 'a \<Rightarrow> int) \<Rightarrow> 'a list \<Rightarrow> 'a list" where
  "js_sort c xs = foldr (cmp_insert c) xs []"

lemma js_sort_simps [simp]:
  "js_sort c [] = []" "js_sort c (x # xs) = cmp_insert c x (js_sort c xs)"
  by (simp_all add: js_sort_def)

lemma mset_cmp_insert [simp]: "mset (cmp_insert c x xs) = add_mset x (mset xs)"
  by (induction xs) auto

lemma mset_js_sort [simp, sort_facts]: "mset (js_sort c xs) = mset xs"
  by (induction xs) auto

lemma set_js_sort [simp, sort_facts]: "set (js_sort c xs) = set xs"
  by (metis mset_js_sort set_mset_mset)

lemma length_js_sort [simp, sort_facts]: "length (js_sort c xs) = length xs"
  by (metis mset_js_sort size_mset)

lemma set_cmp_insert [simp]: "set (cmp_insert c x xs) = insert x (set xs)"
  by (induction xs) auto

lemma distinct_map_js_sort [sort_facts]: "distinct (map f (js_sort c xs)) = distinct (map f xs)"
proof -
  have "mset (map f (js_sort c xs)) = mset (map f xs)" by simp
  then show ?thesis by (rule mset_eq_imp_distinct_iff)
qed

text \<open>
  What a comparator owes: opposite signs for swapped arguments and transitivity. Under these laws
  the sort is ordered, keeps equal elements in their order, and leaves an ordered list alone.
\<close>

locale js_comparator =
  fixes cmp :: "'a \<Rightarrow> 'a \<Rightarrow> int"
  assumes swap: "cmp a b \<le> 0 \<longleftrightarrow> 0 \<le> cmp b a"
    and trans: "cmp a b \<le> 0 \<Longrightarrow> cmp b c \<le> 0 \<Longrightarrow> cmp a c \<le> 0"
begin

lemma total: "\<not> cmp a b \<le> 0 \<Longrightarrow> cmp b a \<le> 0"
  using swap [of b a] by linarith

lemma insert_sorted:
  "sorted_wrt (\<lambda>a b. cmp a b \<le> 0) xs \<Longrightarrow> sorted_wrt (\<lambda>a b. cmp a b \<le> 0) (cmp_insert cmp x xs)"
  by (induction xs) (auto intro: trans dest: total)

lemma js_sort_sorted: "sorted_wrt (\<lambda>a b. cmp a b \<le> 0) (js_sort cmp xs)"
  by (induction xs) (auto intro: insert_sorted)

lemma insert_stable:
  "filter (\<lambda>b. cmp a b = 0) (cmp_insert cmp x xs) = filter (\<lambda>b. cmp a b = 0) (x # xs)"
proof (induction xs)
  case (Cons y ys)
  have "\<not> (cmp a x = 0 \<and> cmp a y = 0)" if "\<not> cmp x y \<le> 0"
    using that swap [of x a] trans [of x a y] by auto
  with Cons.IH show ?case by auto
qed simp

lemma js_sort_stable: "filter (\<lambda>b. cmp a b = 0) (js_sort cmp xs) = filter (\<lambda>b. cmp a b = 0) xs"
  by (induction xs) (simp_all add: insert_stable del: filter.simps, auto)

lemma js_sort_idle: "sorted_wrt (\<lambda>a b. cmp a b \<le> 0) xs \<Longrightarrow> js_sort cmp xs = xs"
proof (induction xs)
  case (Cons x xs)
  then show ?case by (cases xs) auto
qed simp

end

lemma str_cmp_swap: "str_cmp b a = - str_cmp a b"
  by (induction a b rule: str_cmp.induct) auto

lemma str_cmp_Cons:
  "str_cmp (x # xs) (y # ys) \<le> 0 \<longleftrightarrow>
     (of_char x :: nat) < of_char y \<or> ((of_char x :: nat) = of_char y \<and> str_cmp xs ys \<le> 0)"
  by auto

lemma str_cmp_trans: "str_cmp a b \<le> 0 \<Longrightarrow> str_cmp b c \<le> 0 \<Longrightarrow> str_cmp a c \<le> 0"
proof (induction b arbitrary: a c)
  case Nil
  then show ?case by (cases a; cases c) simp_all
next
  case (Cons y ys)
  show ?case
  proof (cases a)
    case (Cons x xs)
    note a = this
    show ?thesis
    proof (cases c)
      case Nil
      with Cons.prems(2) show ?thesis by simp
    next
      case (Cons z zs)
      have "str_cmp xs zs \<le> 0" if "str_cmp xs ys \<le> 0" "str_cmp ys zs \<le> 0"
        using that by (rule Cons.IH)
      with Cons.prems a Cons show ?thesis
        unfolding a Cons str_cmp_Cons by (metis less_trans)
    qed
  qed (cases c; simp)
qed

lemma str_cmp_eq_0: "str_cmp a b = 0 \<longleftrightarrow> a = b"
proof (induction a b rule: str_cmp.induct)
  case (4 x xs y ys)
  have "(of_char x :: nat) = of_char y \<longleftrightarrow> x = y" by simp
  with 4 show ?case by (auto simp del: of_char_eq_iff)
qed simp_all

interpretation code_units: js_comparator str_cmp
proof
  show "str_cmp a b \<le> 0 \<longleftrightarrow> 0 \<le> str_cmp b a" for a b
    using str_cmp_swap [of b a] by simp
qed (rule str_cmp_trans)

section \<open>Runs of a step function\<close>

text \<open>
  A store reacts to calls, replies and frames; \<open>step\<close> is its reaction and a run folds it over the
  events in the order they arrive. An invariant of one step is one of every run.
\<close>

locale event_machine =
  fixes step :: "'e \<Rightarrow> 's \<Rightarrow> 's"
    and inv :: "'s \<Rightarrow> bool"
  assumes step_inv: "inv s \<Longrightarrow> inv (step e s)"
begin

lemma run_inv: "inv s \<Longrightarrow> inv (fold step es s)"
  by (induction es arbitrary: s) (auto intro: step_inv)

lemma prefix_inv: "inv s \<Longrightarrow> inv (fold step (take n es) s)"
  by (rule run_inv)

end

section \<open>Lists of rows with an id\<close>

definition ids_of :: "('r \<Rightarrow> string) \<Rightarrow> 'r list \<Rightarrow> string set" where
  "ids_of key rows = key ` set rows"

lemma map_if_key [simp]:
  "(\<And>r. key (f r) = key r) \<Longrightarrow> map key (map (\<lambda>r. if P r then f r else r) rows) = map key rows"
  by (induction rows) auto

lemma filter_map_key: "map key (filter (\<lambda>r. key r \<noteq> i) rows) = filter (\<lambda>k. k \<noteq> i) (map key rows)"
  by (induction rows) auto

lemma map_of_map_key_Some:
  "map_of (map (\<lambda>r. (key r, r)) rows) k = Some r \<Longrightarrow> r \<in> set rows \<and> key r = k"
  by (induction rows) (auto split: if_splits)

lemma map_of_map_key_None:
  "map_of (map (\<lambda>r. (key r, r)) rows) k = None \<longleftrightarrow> k \<notin> key ` set rows"
  by (induction rows) auto

end
