(* ===== verification/Contract.thy ===== *)
theory Contract
  imports Prelude
begin

text \<open>
  The wire data (\<open>frontend/src/api/generated/contract.ts\<close>): the shapes the client parses at its
  boundary and every store, cache and handler works on. A zod object is a record, an enum a
  datatype, \<open>.nullable()\<close> and \<open>.partial()\<close> an option. A validated integer is an \<open>int\<close>; ids and ISO
  timestamps are strings. Field names carry a short prefix per record (\<open>d_\<close> dashboard, \<open>s_\<close>
  summary, \<open>li_\<close> layout item, and so on), since record selectors share one name space.
\<close>

section \<open>Open JSON values\<close>

text \<open>\<open>z.unknown()\<close>: what an open record's extra keys, a widget's config or a patch may carry.\<close>

datatype json =
    JNull
  | JBool bool
  | JNum int
  | JStr string
  | JArr "json list"
  | JObj "(string \<times> json) list"

type_synonym json_obj = "(string \<times> json) list"

section \<open>Dashboards\<close>

record layout_item =
  li_i :: string
  li_x :: int
  li_y :: int
  li_w :: int
  li_h :: int

datatype gesture_action = Moved | Resized

record layout_gesture =
  g_action :: gesture_action
  g_widget_id :: string

datatype widget_type = AgendaW | CalendarW | ClockW | ListW

record dashboard_widget =
  w_id :: string
  w_dashboard_id :: string
  w_widget_type :: widget_type
  w_resource_type :: "string option"
  w_resource_id :: "string option"
  w_config :: json_obj
  w_widget_version :: int
  w_created_at :: string
  w_updated_at :: string

record dashboard =
  d_id :: string
  d_name :: string
  d_user_id :: string
  d_version :: int
  d_layout :: "layout_item list"
  d_widgets :: "dashboard_widget list"
  d_is_favorite :: bool
  d_is_shared :: bool
  d_can_edit :: bool
  d_can_manage_shares :: bool

record dashboard_summary =
  s_id :: string
  s_name :: string
  s_user_id :: string
  s_version :: int
  s_is_favorite :: bool
  s_is_shared :: bool
  s_can_edit :: bool
  s_can_manage_shares :: bool
  s_access_description :: "string option"
  s_created_at :: string
  s_updated_at :: string

text \<open>The answer to a create is the board plus the summary fields the board lacks.\<close>

record dashboard_created = dashboard +
  dc_access_description :: "string option"
  dc_created_at :: string
  dc_updated_at :: string

record trashed_dashboard =
  td_id :: string
  td_name :: string
  td_deleted_at :: string
  td_purge_at :: string

section \<open>Lists\<close>

datatype list_type = Checklist | Grocery | Todo

datatype item_priority = Low | Medium | High

record list_item =
  it_id :: string
  it_list_id :: string
  it_text :: string
  it_checked :: bool
  it_due_date :: "string option"
  it_priority :: "item_priority option"
  it_category :: "string option"
  it_assigned_to :: "string option"
  it_sort_order :: int
  it_created_at :: string
  it_created_by :: string
  it_updated_at :: string

record list_summary =
  l_id :: string
  l_dashboard_id :: string
  l_name :: string
  l_list_type :: list_type
  l_item_count :: int
  l_sort_order :: int
  l_created_at :: string
  l_created_by :: string
  l_updated_at :: string

record list_detail = list_summary +
  l_items :: "list_item list"

section \<open>Calendar\<close>

record participant =
  pt_user_id :: string
  pt_display_name :: string

record occurrence =
  o_event_id :: string
  o_original_start :: string
  o_title :: string
  o_occurrence_start :: string
  o_occurrence_end :: string
  o_all_day :: bool
  o_recurring :: bool
  o_is_exception :: bool
  o_participants :: "participant list"

section \<open>Users and notifications\<close>

record user_preferences =
  up_favorite_dashboard_ids :: "string list option"
  up_home_dashboard_id :: "string option"

record user =
  u_id :: string
  u_email :: string
  u_display_name :: string
  u_email_verified_at :: "string option"
  u_preferences :: "user_preferences option"

record notification =
  n_id :: string
  n_type :: string
  n_title :: string
  n_body :: string
  n_created_at :: string
  n_read_at :: "string option"
  n_reference_type :: "string option"
  n_reference_id :: "string option"

record notification_page =
  np_items :: "notification list"
  np_next_cursor :: "string option"

text \<open>A row of the activity feed: the type is an open string and the payload an open record.\<close>

record activity_event =
  a_event_id :: int
  a_event_type :: string
  a_entity_type :: string
  a_entity_id :: string
  a_actor_id :: string
  a_actor_display_name :: string
  a_created_at :: string
  a_payload :: json_obj

section \<open>Server-sent events\<close>

datatype event_type =
    ListCreated | ListUpdated | ListDeleted | ListReordered
  | ListItemCreated | ListItemUpdated | ListItemChecked | ListItemDeleted | ListItemReordered
  | DashboardCreated | DashboardUpdated | DashboardDeleted
  | DashboardShareAdded | DashboardShareUpdated | DashboardShareRemoved
  | CalendarEventCreated | CalendarEventUpdated | CalendarEventDeleted
  | CalendarOccurrenceUpdated | CalendarOccurrenceCancelled

fun event_type_str :: "event_type \<Rightarrow> string" where
  "event_type_str ListCreated = ''list.created''"
| "event_type_str ListUpdated = ''list.updated''"
| "event_type_str ListDeleted = ''list.deleted''"
| "event_type_str ListReordered = ''list.reordered''"
| "event_type_str ListItemCreated = ''list.item.created''"
| "event_type_str ListItemUpdated = ''list.item.updated''"
| "event_type_str ListItemChecked = ''list.item.checked''"
| "event_type_str ListItemDeleted = ''list.item.deleted''"
| "event_type_str ListItemReordered = ''list.item.reordered''"
| "event_type_str DashboardCreated = ''dashboard.created''"
| "event_type_str DashboardUpdated = ''dashboard.updated''"
| "event_type_str DashboardDeleted = ''dashboard.deleted''"
| "event_type_str DashboardShareAdded = ''dashboard.share_added''"
| "event_type_str DashboardShareUpdated = ''dashboard.share_updated''"
| "event_type_str DashboardShareRemoved = ''dashboard.share_removed''"
| "event_type_str CalendarEventCreated = ''calendar.event.created''"
| "event_type_str CalendarEventUpdated = ''calendar.event.updated''"
| "event_type_str CalendarEventDeleted = ''calendar.event.deleted''"
| "event_type_str CalendarOccurrenceUpdated = ''calendar.event.occurrence.updated''"
| "event_type_str CalendarOccurrenceCancelled = ''calendar.event.occurrence.cancelled''"

text \<open>
  The payload's cross-cutting keys; the remaining ones, which the schema keeps as they are, are in
  \<open>p_extra\<close>. A \<open>changed_fields\<close> entry is a plain string, as the predicates that read it take it.
\<close>

record sse_payload =
  p_changed_fields :: "string list option"
  p_config :: "json_obj option"
  p_dashboard_id :: "string option"
  p_item_ids :: "string list option"
  p_list_id :: "string option"
  p_list_ids :: "string list option"
  p_origin_client_id :: "string option"
  p_values :: "json_obj option"
  p_widget_id :: "string option"
  p_extra :: json_obj

record sse_event =
  e_event_id :: int
  e_event_type :: event_type
  e_entity_type :: string
  e_entity_id :: string
  e_entity_version :: int
  e_actor_id :: string
  e_actor_display_name :: string
  e_created_at :: string
  e_payload :: sse_payload

text \<open>
  \<open>ResourceEvent\<close>: a server frame, or the local signal that frames may have been missed
  (\<open>frontend/src/hooks/useSSE.ts\<close>).
\<close>

datatype resource_event = Frame sse_event | Resync

definition empty_payload :: sse_payload where
  "empty_payload = \<lparr>p_changed_fields = None, p_config = None, p_dashboard_id = None,
     p_item_ids = None, p_list_id = None, p_list_ids = None, p_origin_client_id = None,
     p_values = None, p_widget_id = None, p_extra = []\<rparr>"

text \<open>The answer to a widget that was added: the board, and the list created with the widget if one was.\<close>

record widget_added = dashboard +
  wa_created_list :: "list_summary option"

text \<open>
  What a call to the server can come back with, as the callers tell them apart: a value, an
  \<open>ApiError\<close> with its status and message, or anything else that was thrown.
\<close>

datatype thrown = ApiErr int string | OtherErr string | NotAnError

text \<open>\<open>err instanceof Error ? err.message : fallback\<close>.\<close>

fun error_message :: "thrown \<Rightarrow> string \<Rightarrow> string" where
  "error_message (ApiErr _ m) _ = m"
| "error_message (OtherErr m) _ = m"
| "error_message NotAnError fallback = fallback"

fun error_status :: "thrown \<Rightarrow> int option" where
  "error_status (ApiErr st _) = Some st"
| "error_status _ = None"

type_synonym 'a reply = "thrown + 'a"

text \<open>Small concrete values for the examples.\<close>

definition box :: "string \<Rightarrow> int \<Rightarrow> int \<Rightarrow> int \<Rightarrow> int \<Rightarrow> layout_item" where
  "box i x y w h = \<lparr>li_i = i, li_x = x, li_y = y, li_w = w, li_h = h\<rparr>"

definition board :: "string \<Rightarrow> int \<Rightarrow> layout_item list \<Rightarrow> dashboard" where
  "board i ver layout = \<lparr>d_id = i, d_name = ''b'', d_user_id = ''u1'', d_version = ver,
     d_layout = layout, d_widgets = [], d_is_favorite = False, d_is_shared = False,
     d_can_edit = True, d_can_manage_shares = True\<rparr>"

end
