(* ===== verification/ChangedFields.thy ===== *)
theory ChangedFields
  imports Contract
begin

text \<open>
  The \<open>changed_fields\<close> vocabulary (\<open>frontend/src/utils/dashboard/changedFields.ts\<close>): one table from
  a field to what a client owes it, and the five predicates every consumer asks of it. The lemmas
  say the predicates depend on the set of fs only, that a field this build does not know turns
  every shortcut off, and that the summary line's field is the one of greatest precedence.
\<close>

datatype changed_field = Layout | Widgets | Name | Restored | Shares

record effect =
  appliedLocally :: bool
  touchesDashboardRow :: bool
  feedPrecedence :: int
  echoSuppressible :: bool

definition EFFECTS :: "changed_field \<Rightarrow> effect" where
  "EFFECTS f = (case f of
     Layout \<Rightarrow> \<lparr>appliedLocally = True, touchesDashboardRow = True, feedPrecedence = 1,
                echoSuppressible = True\<rparr>
   | Widgets \<Rightarrow> \<lparr>appliedLocally = True, touchesDashboardRow = False, feedPrecedence = 2,
                 echoSuppressible = True\<rparr>
   | Name \<Rightarrow> \<lparr>appliedLocally = False, touchesDashboardRow = True, feedPrecedence = 3,
              echoSuppressible = True\<rparr>
   | Restored \<Rightarrow> \<lparr>appliedLocally = False, touchesDashboardRow = True, feedPrecedence = 4,
                  echoSuppressible = True\<rparr>
   | Shares \<Rightarrow> \<lparr>appliedLocally = False, touchesDashboardRow = False, feedPrecedence = 0,
                echoSuppressible = False\<rparr>)"

definition field_of :: "string \<Rightarrow> changed_field option" where
  "field_of s =
     (if s = ''layout'' then Some Layout
      else if s = ''widgets'' then Some Widgets
      else if s = ''name'' then Some Name
      else if s = ''restored'' then Some Restored
      else if s = ''shares'' then Some Shares
      else None)"

definition field_str :: "changed_field \<Rightarrow> string" where
  "field_str f = (case f of Layout \<Rightarrow> ''layout'' | Widgets \<Rightarrow> ''widgets'' | Name \<Rightarrow> ''name''
     | Restored \<Rightarrow> ''restored'' | Shares \<Rightarrow> ''shares'')"

definition isKnown :: "string \<Rightarrow> bool" where
  "isKnown s \<longleftrightarrow> field_of s \<noteq> None"

definition UNKNOWN_EFFECT :: effect where
  "UNKNOWN_EFFECT = \<lparr>appliedLocally = False, touchesDashboardRow = False, feedPrecedence = 0,
     echoSuppressible = False\<rparr>"

definition effectOf :: "string \<Rightarrow> effect" where
  "effectOf s = (case field_of s of Some f \<Rightarrow> EFFECTS f | None \<Rightarrow> UNKNOWN_EFFECT)"

definition isFullyAppliedLocally :: "string list \<Rightarrow> bool" where
  "isFullyAppliedLocally fs \<longleftrightarrow>
     fs \<noteq> [] \<and> list_all (\<lambda>f. appliedLocally (effectOf f)) fs"

definition movesDashboardRow :: "string list \<Rightarrow> bool" where
  "movesDashboardRow fs \<longleftrightarrow> list_ex (\<lambda>f. touchesDashboardRow (effectOf f)) fs"

definition isEchoSuppressible :: "string list \<Rightarrow> bool" where
  "isEchoSuppressible fs \<longleftrightarrow>
     fs \<noteq> [] \<and> list_all (\<lambda>f. echoSuppressible (effectOf f)) fs"

definition isOnly :: "string list \<Rightarrow> changed_field \<Rightarrow> bool" where
  "isOnly fs f \<longleftrightarrow> fs = [field_str f]"

text \<open>The loop of \<open>primaryChangedField\<close>: best field so far and its precedence.\<close>

fun primary_loop :: "string list \<Rightarrow> changed_field option \<Rightarrow> int \<Rightarrow> changed_field option" where
  "primary_loop [] best bestPrecedence = best"
| "primary_loop (field # rest) best bestPrecedence =
     (case field_of field of
        None \<Rightarrow> primary_loop rest best bestPrecedence
      | Some f \<Rightarrow>
          (if bestPrecedence < feedPrecedence (EFFECTS f)
           then primary_loop rest (Some f) (feedPrecedence (EFFECTS f))
           else primary_loop rest best bestPrecedence))"

definition primaryChangedField :: "string list \<Rightarrow> changed_field option" where
  "primaryChangedField fs = primary_loop fs None 0"

declare field_of_def [model_defs] EFFECTS_def [model_defs] effectOf_def [model_defs]
  UNKNOWN_EFFECT_def [model_defs] field_str_def [model_defs]

lemma field_of_str [simp]: "field_of (field_str f) = Some f"
  by (cases f) (simp_all add: field_of_def field_str_def)

lemma field_str_of: "field_of s = Some f \<Longrightarrow> s = field_str f"
  by (auto simp: field_of_def field_str_def split: if_splits)

lemma EFFECTS_precedence: "0 \<le> feedPrecedence (EFFECTS f) \<and> (feedPrecedence (EFFECTS f) = 0 \<longleftrightarrow> f = Shares)"
  by (cases f) (simp_all add: EFFECTS_def)

text \<open>Precedence orders the vocabulary, so the best of several fs is unique.\<close>

lemma precedence_inj: "feedPrecedence (EFFECTS f) = feedPrecedence (EFFECTS g) \<Longrightarrow> f = g"
  by (cases f; cases g) (simp_all add: EFFECTS_def)

instantiation changed_field :: linorder
begin

definition less_eq_changed_field :: "changed_field \<Rightarrow> changed_field \<Rightarrow> bool" where
  "less_eq_changed_field f g \<longleftrightarrow> feedPrecedence (EFFECTS f) \<le> feedPrecedence (EFFECTS g)"

definition less_changed_field :: "changed_field \<Rightarrow> changed_field \<Rightarrow> bool" where
  "less_changed_field f g \<longleftrightarrow> feedPrecedence (EFFECTS f) < feedPrecedence (EFFECTS g)"

instance
  by standard
    (auto simp: less_eq_changed_field_def less_changed_field_def intro: precedence_inj)

end

text \<open>The known fs a frame names that can head a feed line; \<open>shares\<close> never does.\<close>

definition headlines :: "string list \<Rightarrow> changed_field set" where
  "headlines fs = {f. field_str f \<in> set fs \<and> f \<noteq> Shares}"

lemma headlines_simps:
  "headlines [] = {}"
  "headlines (s # rest) =
     (case field_of s of Some f \<Rightarrow> (if f = Shares then {} else {f}) | None \<Rightarrow> {}) \<union> headlines rest"
  using field_str_of by (auto simp: headlines_def split: option.splits)

definition greatest_of :: "changed_field set \<Rightarrow> changed_field option \<Rightarrow> bool" where
  "greatest_of S r = (case r of None \<Rightarrow> S = {} | Some m \<Rightarrow> m \<in> S \<and> (\<forall>x \<in> S. x \<le> m))"

definition precedence_of :: "changed_field option \<Rightarrow> int" where
  "precedence_of best = (case best of None \<Rightarrow> 0 | Some b \<Rightarrow> feedPrecedence (EFFECTS b))"

lemma greatest_of_absorb: "f \<le> b \<Longrightarrow> greatest_of (insert b S) r \<Longrightarrow> greatest_of (insert f (insert b S)) r"
  by (auto simp: greatest_of_def split: option.splits)

lemma primary_loop_greatest:
  assumes "best \<noteq> Some Shares"
  shows "greatest_of (headlines fs \<union> set_option best) (primary_loop fs best (precedence_of best))"
  using assms
proof (induction fs arbitrary: best)
  case Nil
  then show ?case by (cases best) (simp_all add: headlines_simps greatest_of_def)
next
  case (Cons s rest)
  show ?case
  proof (cases "field_of s")
    case None
    with Cons show ?thesis by (simp add: headlines_simps)
  next
    case (Some f)
    show ?thesis
    proof (cases "precedence_of best < feedPrecedence (EFFECTS f)")
      case True
      have "0 \<le> precedence_of best"
        using EFFECTS_precedence by (cases best) (simp_all add: precedence_of_def)
      with True have "f \<noteq> Shares" by (auto simp: EFFECTS_def)
      have below: "b \<le> f" if "best = Some b" for b
        using True that by (simp add: precedence_of_def less_eq_changed_field_def)
      from Cons.IH [of "Some f"] \<open>f \<noteq> Shares\<close>
      have ih: "greatest_of (insert f (headlines rest)) (primary_loop rest (Some f) (feedPrecedence (EFFECTS f)))"
        by (simp add: precedence_of_def)
      from below ih have "greatest_of (insert f (headlines rest) \<union> set_option best)
          (primary_loop rest (Some f) (feedPrecedence (EFFECTS f)))"
        by (cases best) (auto intro: greatest_of_absorb)
      with True Some \<open>f \<noteq> Shares\<close> show ?thesis by (simp add: headlines_simps)
    next
      case False
      show ?thesis
      proof (cases "f = Shares")
        case True
        with False Some Cons show ?thesis by (simp add: headlines_simps)
      next
        case f: False
        with False EFFECTS_precedence [of f] obtain b where b: "best = Some b" "f \<le> b"
          by (cases best) (auto simp: precedence_of_def less_eq_changed_field_def)
        have "greatest_of (insert b (headlines rest)) (primary_loop rest best (precedence_of best))"
          using Cons b by (metis Un_insert_right elem_set option.set(2) sup_bot.right_neutral)
        with b have "greatest_of (insert f (insert b (headlines rest)))
            (primary_loop rest best (precedence_of best))"
          by (blast intro: greatest_of_absorb)
        with False Some f b show ?thesis by (simp add: headlines_simps insert_commute)
      qed
    qed
  qed
qed

lemma finite_headlines [simp]: "finite (headlines fs)"
proof (rule finite_subset)
  show "headlines fs \<subseteq> {Layout, Widgets, Name, Restored, Shares}"
    using changed_field.exhaust by auto
qed simp

lemma primary_greatest: "greatest_of (headlines fs) (primaryChangedField fs)"
  using primary_loop_greatest [of None fs] by (simp add: primaryChangedField_def precedence_of_def)

lemma primary_Max:
  "primaryChangedField fs = (if headlines fs = {} then None else Some (Max (headlines fs)))"
  using primary_greatest [of fs]
  by (auto simp: greatest_of_def split: option.splits intro: Max_eqI [symmetric])

text \<open>The field a frame's feed line describes is the greatest one it names, by precedence and
  whatever their order; a frame that names nothing but \<open>shares\<close> or unknown fs has none.\<close>

theorem primaryChangedField_greatest:
  "primaryChangedField fs =
     (if headlines fs = {} then None else Some (Max (headlines fs)))"
  by (rule primary_Max)

lemma effectOf_unknown: "field_of s = None \<Longrightarrow> effectOf s = UNKNOWN_EFFECT"
  by (simp add: effectOf_def)

lemma unknown_turns_off:
  assumes "field_of s = None" "s \<in> set fs"
  shows "\<not> isFullyAppliedLocally fs \<and> \<not> isEchoSuppressible fs"
proof -
  have "\<not> appliedLocally (effectOf s)" "\<not> echoSuppressible (effectOf s)"
    using assms(1) by (simp_all add: effectOf_unknown UNKNOWN_EFFECT_def)
  with assms(2) show ?thesis
    by (auto simp: isFullyAppliedLocally_def isEchoSuppressible_def list_all_iff)
qed

lemma predicates_of_set:
  assumes "set xs = set ys"
  shows "isFullyAppliedLocally xs = isFullyAppliedLocally ys"
    and "movesDashboardRow xs = movesDashboardRow ys"
    and "isEchoSuppressible xs = isEchoSuppressible ys"
    and "primaryChangedField xs = primaryChangedField ys"
  using assms by (auto simp: isFullyAppliedLocally_def movesDashboardRow_def isEchoSuppressible_def
      list_all_iff list_ex_iff primary_Max headlines_def)

lemma isOnly_applied [simp]: "isOnly fs Widgets \<Longrightarrow> isFullyAppliedLocally fs \<and> \<not> movesDashboardRow fs"
  by (auto simp: isOnly_def isFullyAppliedLocally_def movesDashboardRow_def effectOf_def EFFECTS_def)

end
