(* ===== verification/DashboardEvents.thy ===== *)
theory DashboardEvents
  imports ChangedFields
begin

text \<open>
  Reading a dashboard frame (\<open>frontend/src/utils/dashboard/dashboardEvents.ts\<close>, and \<open>isOwnFrame\<close> of
  \<open>utils/shared/clientInstance.ts\<close>): what it refers to and what the client owes it. The tab's
  \<open>CLIENT_INSTANCE_ID\<close> and the signed-in user id are arguments; so is \<open>localeCompare\<close>, whose
  collation belongs to the host (\<open>lc\<close>), with the laws of a comparator as the hypothesis where the
  order matters.
\<close>

definition getEventDashboardId :: "sse_event \<Rightarrow> string option" where
  "getEventDashboardId event =
     (if e_entity_type event = ''dashboard'' then Some (e_entity_id event)
      else p_dashboard_id (e_payload event))"

definition getDashboardEventChangedFields :: "sse_event \<Rightarrow> string list" where
  "getDashboardEventChangedFields event =
     (case p_changed_fields (e_payload event) of None \<Rightarrow> [] | Some fs \<Rightarrow> fs)"

definition isDashboardShareEvent :: "sse_event \<Rightarrow> bool" where
  "isDashboardShareEvent event \<longleftrightarrow>
     e_event_type event = DashboardShareAdded \<or>
     e_event_type event = DashboardShareUpdated \<or>
     e_event_type event = DashboardShareRemoved"

definition isLayoutOnlyDashboardEvent :: "sse_event \<Rightarrow> bool" where
  "isLayoutOnlyDashboardEvent event \<longleftrightarrow>
     e_event_type event = DashboardUpdated \<and>
     isOnly (getDashboardEventChangedFields event) Layout"

definition canSkipDashboardSummaryReload :: "sse_event \<Rightarrow> bool" where
  "canSkipDashboardSummaryReload event \<longleftrightarrow>
     e_event_type event = DashboardUpdated \<and>
     isFullyAppliedLocally (getDashboardEventChangedFields event)"

definition shouldApplyLocalDashboardSummaryTouch :: "sse_event \<Rightarrow> bool" where
  "shouldApplyLocalDashboardSummaryTouch event \<longleftrightarrow>
     (let changedFields = getDashboardEventChangedFields event in
      e_event_type event = DashboardUpdated \<and>
      isFullyAppliedLocally changedFields \<and>
      movesDashboardRow changedFields)"

definition summary_cmp ::
    "(string \<Rightarrow> string \<Rightarrow> int) \<Rightarrow> dashboard_summary \<Rightarrow> dashboard_summary \<Rightarrow> int" where
  "summary_cmp lc a b =
     (if s_is_favorite a \<noteq> s_is_favorite b
      then of_bool (s_is_favorite b) - of_bool (s_is_favorite a)
      else lc (s_updated_at b) (s_updated_at a))"

definition sortDashboardSummaries ::
    "(string \<Rightarrow> string \<Rightarrow> int) \<Rightarrow> dashboard_summary list \<Rightarrow> dashboard_summary list" where
  "sortDashboardSummaries lc summaries = js_sort (summary_cmp lc) summaries"

definition touch_summary :: "sse_event \<Rightarrow> string \<Rightarrow> dashboard_summary \<Rightarrow> dashboard_summary" where
  "touch_summary event dashboardId summary =
     (if s_id summary \<noteq> dashboardId then summary
      else let nextVersion = max (e_entity_version event) (s_version summary) in
        if s_version summary = nextVersion \<and> s_updated_at summary = e_created_at event
        then summary
        else summary\<lparr>s_version := nextVersion, s_updated_at := e_created_at event\<rparr>)"

text \<open>\<open>didChange\<close>: the map above took its last branch for some row.\<close>

definition touch_changes :: "sse_event \<Rightarrow> string \<Rightarrow> dashboard_summary \<Rightarrow> bool" where
  "touch_changes event dashboardId summary \<longleftrightarrow>
     s_id summary = dashboardId \<and>
     \<not> (s_version summary = max (e_entity_version event) (s_version summary) \<and>
        s_updated_at summary = e_created_at event)"

definition applyLocalDashboardSummaryUpdate ::
    "(string \<Rightarrow> string \<Rightarrow> int) \<Rightarrow> dashboard_summary list \<Rightarrow> sse_event \<Rightarrow> dashboard_summary list" where
  "applyLocalDashboardSummaryUpdate lc summaries event =
     (if \<not> shouldApplyLocalDashboardSummaryTouch event then summaries
      else case getEventDashboardId event of
        None \<Rightarrow> summaries
      | Some dashboardId \<Rightarrow>
          if dashboardId = [] then summaries
          else let nextSummaries = map (touch_summary event dashboardId) summaries;
                   didChange = list_ex (touch_changes event dashboardId) summaries
               in if didChange then sortDashboardSummaries lc nextSummaries else summaries)"

text \<open>\<open>!userId\<close> also refuses an empty id; an absent origin reads as \<open>null\<close>, never this tab's id.\<close>

definition isOwnFrame :: "string \<Rightarrow> sse_event \<Rightarrow> string option \<Rightarrow> bool" where
  "isOwnFrame client event userId \<longleftrightarrow>
     (if \<not> truthy userId \<or> userId \<noteq> Some (e_actor_id event) then False
      else p_origin_client_id (e_payload event) = Some client)"

definition isOwnDashboardEcho :: "string \<Rightarrow> sse_event \<Rightarrow> user option \<Rightarrow> bool" where
  "isOwnDashboardEcho client event usr = isOwnFrame client event (map_option u_id usr)"

definition canSuppressLocalDashboardEcho :: "sse_event \<Rightarrow> bool" where
  "canSuppressLocalDashboardEcho event \<longleftrightarrow>
     (if e_event_type event = DashboardCreated \<or> e_event_type event = DashboardDeleted then True
      else if e_event_type event = DashboardShareUpdated then True
      else if e_event_type event = DashboardShareRemoved
           then map_of (p_extra (e_payload event)) ''share_action'' = Some (JStr ''left'')
      else if e_event_type event \<noteq> DashboardUpdated then False
      else isEchoSuppressible (getDashboardEventChangedFields event))"

definition affectsTrash :: "sse_event \<Rightarrow> bool" where
  "affectsTrash event \<longleftrightarrow>
     e_event_type event = DashboardDeleted \<or>
     (e_event_type event = DashboardUpdated \<and>
      ''restored'' \<in> set (getDashboardEventChangedFields event))"

definition patchWidgetConfig :: "dashboard option \<Rightarrow> sse_event \<Rightarrow> dashboard option" where
  "patchWidgetConfig dash event =
     (if \<not> isOnly (getDashboardEventChangedFields event) Widgets then None
      else case dash of
        None \<Rightarrow> None
      | Some d \<Rightarrow>
          (case (p_widget_id (e_payload event), p_config (e_payload event)) of
             (Some widgetId, Some config) \<Rightarrow>
               if widgetId = [] then None
               else if \<not> list_ex (\<lambda>w. w_id w = widgetId) (d_widgets d) then None
               else Some (d\<lparr>d_widgets := map (\<lambda>w. if w_id w = widgetId then w\<lparr>w_config := config\<rparr> else w)
                              (d_widgets d)\<rparr>)
           | _ \<Rightarrow> None))"

section \<open>The listing's order\<close>

text \<open>The collation of timestamps the host provides, and the listing's order built on it.\<close>

locale timestamp_collation = js_comparator lc for lc :: "string \<Rightarrow> string \<Rightarrow> int"
begin

lemma summary_swap: "summary_cmp lc a b \<le> 0 \<longleftrightarrow> 0 \<le> summary_cmp lc b a"
  using swap [of "s_updated_at b" "s_updated_at a"]
  by (auto simp: summary_cmp_def of_bool_def)

lemma summary_trans:
  "summary_cmp lc a b \<le> 0 \<Longrightarrow> summary_cmp lc b c \<le> 0 \<Longrightarrow> summary_cmp lc a c \<le> 0"
  using trans [of "s_updated_at c" "s_updated_at b" "s_updated_at a"]
  by (auto simp: summary_cmp_def of_bool_def split: if_splits)

end

sublocale timestamp_collation \<subseteq> listing: js_comparator "summary_cmp lc"
  by unfold_locales (use summary_swap summary_trans in blast)+

interpretation code_unit_listing: timestamp_collation str_cmp
  by unfold_locales

text \<open>The order the listing is kept in: favourites first, then the most recently updated.\<close>

definition listing_sorted :: "(string \<Rightarrow> string \<Rightarrow> int) \<Rightarrow> dashboard_summary list \<Rightarrow> bool" where
  "listing_sorted lc summaries \<longleftrightarrow> sorted_wrt (\<lambda>a b. summary_cmp lc a b \<le> 0) summaries"

context timestamp_collation
begin

lemma sort_listing_sorted: "listing_sorted lc (sortDashboardSummaries lc xs)"
  unfolding listing_sorted_def sortDashboardSummaries_def by (rule listing.js_sort_sorted)

lemma apply_update_sorted:
  "listing_sorted lc xs \<Longrightarrow> listing_sorted lc (applyLocalDashboardSummaryUpdate lc xs event)"
  by (auto simp: applyLocalDashboardSummaryUpdate_def sort_listing_sorted Let_def split: option.splits)

end

lemma sortDashboardSummaries_mset [simp]: "mset (sortDashboardSummaries lc xs) = mset xs"
  by (simp add: sortDashboardSummaries_def)

lemma set_sortDashboardSummaries [simp]: "set (sortDashboardSummaries lc xs) = set xs"
  by (simp add: sortDashboardSummaries_def)

lemma touch_summary_id [simp]: "s_id (touch_summary event i s) = s_id s"
  by (simp add: touch_summary_def Let_def)

lemma touch_summary_idle: "\<not> touch_changes event i s \<Longrightarrow> touch_summary event i s = s"
  by (auto simp: touch_summary_def touch_changes_def Let_def)

text \<open>
  What a frame does to the listing, as a set of rows: every row is passed through the touch, whether
  or not the shortcut for an unchanged listing was taken.
\<close>

definition touched_id :: "sse_event \<Rightarrow> string option" where
  "touched_id event =
     (if shouldApplyLocalDashboardSummaryTouch event \<and> truthy (getEventDashboardId event)
      then getEventDashboardId event else None)"

lemma apply_update_mset:
  "mset (applyLocalDashboardSummaryUpdate lc xs event) =
     (case touched_id event of
        None \<Rightarrow> mset xs
      | Some i \<Rightarrow> mset (map (touch_summary event i) xs))"
proof -
  have idle: "map (touch_summary event i) xs = xs" if "\<not> list_ex (touch_changes event i) xs" for i
    using that by (intro map_idI) (auto simp: list_ex_iff intro: touch_summary_idle)
  show ?thesis
    by (auto simp: applyLocalDashboardSummaryUpdate_def touched_id_def Let_def idle
        simp del: mset_map split: option.splits)
qed

text \<open>A frame settled without a reload keeps the listing sorted, keeps exactly its rows, and
  changes only the row of the frame's dashboard: that row's version is the greater of the two and
  never goes down, its timestamp is the frame's.\<close>

theorem listing_update_correct:
  assumes "js_comparator lc" and "listing_sorted lc xs"
  shows "listing_sorted lc (applyLocalDashboardSummaryUpdate lc xs event) \<and>
     mset (applyLocalDashboardSummaryUpdate lc xs event) =
       mset (map (\<lambda>s. if touched_id event = Some (s_id s)
                      then s\<lparr>s_version := max (e_entity_version event) (s_version s),
                             s_updated_at := e_created_at event\<rparr>
                      else s) xs)"
proof
  show "listing_sorted lc (applyLocalDashboardSummaryUpdate lc xs event)"
    using assms by (intro timestamp_collation.apply_update_sorted) (simp add: timestamp_collation_def)
  have touch: "touch_summary event i s =
      (if i = s_id s then s\<lparr>s_version := max (e_entity_version event) (s_version s),
                            s_updated_at := e_created_at event\<rparr> else s)" for i s
    by (cases s) (auto simp: touch_summary_def Let_def)
  show "mset (applyLocalDashboardSummaryUpdate lc xs event) =
       mset (map (\<lambda>s. if touched_id event = Some (s_id s)
                      then s\<lparr>s_version := max (e_entity_version event) (s_version s),
                             s_updated_at := e_created_at event\<rparr>
                      else s) xs)"
    unfolding apply_update_mset touch
    by (cases "touched_id event") (auto simp del: mset_map intro: arg_cong [where f = mset])
qed

section \<open>Failing safe\<close>

text \<open>A \<open>dashboard.updated\<close> frame naming a field this build does not know is never settled from
  the client's own state: neither the listing's reload nor the own-echo reload may be skipped.\<close>

theorem unknown_field_forces_reload:
  assumes "e_event_type event = DashboardUpdated"
    and "s \<in> set (getDashboardEventChangedFields event)" and "\<not> isKnown s"
  shows "\<not> canSkipDashboardSummaryReload event \<and> \<not> canSuppressLocalDashboardEcho event"
  using assms unknown_turns_off [of s "getDashboardEventChangedFields event"]
  by (auto simp: canSkipDashboardSummaryReload_def canSuppressLocalDashboardEcho_def isKnown_def)

definition sample_event :: sse_event where
  "sample_event = \<lparr>e_event_id = 7, e_event_type = DashboardUpdated, e_entity_type = ''dashboard'',
     e_entity_id = ''d1'', e_entity_version = 4, e_actor_id = ''u1'', e_actor_display_name = ''A'',
     e_created_at = ''2026-01-02'', e_payload = empty_payload\<rparr>"

definition sample_summary :: "string \<Rightarrow> dashboard_summary" where
  "sample_summary i = \<lparr>s_id = i, s_name = ''n'', s_user_id = ''u1'', s_version = 3,
     s_is_favorite = False, s_is_shared = False, s_can_edit = True, s_can_manage_shares = True,
     s_access_description = None, s_created_at = ''2026-01-01'', s_updated_at = ''2026-01-01''\<rparr>"

lemma unknown_field_forces_reload_witness:
  "\<not> canSkipDashboardSummaryReload
       (sample_event\<lparr>e_payload := empty_payload\<lparr>p_changed_fields := Some [''layout'', ''theme'']\<rparr>\<rparr>)"
  using unknown_field_forces_reload [of
      "sample_event\<lparr>e_payload := empty_payload\<lparr>p_changed_fields := Some [''layout'', ''theme'']\<rparr>\<rparr>" "''theme''"]
  by (simp add: sample_event_def getDashboardEventChangedFields_def isKnown_def field_of_def)

lemma listing_update_correct_witness:
  "s_version (hd (applyLocalDashboardSummaryUpdate str_cmp [sample_summary ''d1'']
      (sample_event\<lparr>e_payload := empty_payload\<lparr>p_changed_fields := Some [''layout'']\<rparr>\<rparr>))) = 4"
proof -
  let ?e = "sample_event\<lparr>e_payload := empty_payload\<lparr>p_changed_fields := Some [''layout'']\<rparr>\<rparr>"
  have id: "touched_id ?e = Some ''d1''"
    by (simp add: touched_id_def shouldApplyLocalDashboardSummaryTouch_def sample_event_def
        getDashboardEventChangedFields_def getEventDashboardId_def isFullyAppliedLocally_def
        movesDashboardRow_def effectOf_def field_of_def EFFECTS_def)
  have "js_comparator str_cmp" by unfold_locales
  moreover have "listing_sorted str_cmp [sample_summary ''d1'']" by (simp add: listing_sorted_def)
  ultimately have "mset (applyLocalDashboardSummaryUpdate str_cmp [sample_summary ''d1''] ?e) =
      {#(sample_summary ''d1'')\<lparr>s_version := 4, s_updated_at := ''2026-01-02''\<rparr>#}"
    using listing_update_correct [of str_cmp "[sample_summary ''d1'']" ?e]
    by (simp add: id) (simp add: sample_summary_def sample_event_def)
  then show ?thesis by simp
qed

section \<open>Patching a widget\<close>

lemma patch_keeps:
  "patchWidgetConfig (Some d) event = Some d' \<Longrightarrow>
     d_version d' = d_version d \<and> d_layout d' = d_layout d \<and> d_id d' = d_id d \<and>
     map w_id (d_widgets d') = map w_id (d_widgets d)"
  by (auto simp: patchWidgetConfig_def split: if_splits option.splits)

text \<open>A configuration frame is patched in place exactly when it changes widgets alone and names
  a widget the board holds together with its configuration; the patch replaces that widget's
  configuration and leaves the board's version, layout and other widgets as they were.\<close>

theorem patchWidgetConfig_exact:
  "patchWidgetConfig (Some d) event = Some d' \<longleftrightarrow>
     (\<exists>wid config. getDashboardEventChangedFields event = [''widgets''] \<and>
        p_widget_id (e_payload event) = Some wid \<and> wid \<noteq> [] \<and>
        p_config (e_payload event) = Some config \<and>
        wid \<in> w_id ` set (d_widgets d) \<and>
        d' = d\<lparr>d_widgets := map (\<lambda>w. if w_id w = wid then w\<lparr>w_config := config\<rparr> else w) (d_widgets d)\<rparr>)"
  by (auto simp: patchWidgetConfig_def isOnly_def field_str_def list_ex_iff
      split: option.splits if_splits)

end
