(* ===== verification/LoadOptions.thy ===== *)
theory LoadOptions
  imports Prelude
begin

text \<open>
  Reconciling overlapping \<open>loadDashboard\<close> requests
  (\<open>frontend/src/utils/dashboard/loadOptions.ts\<close>): the options of a load, their merge, the test that
  a load in flight already answers a request, and the serial that names the newest request. The
  lemmas show the merge is the least load that answers both requests, and that of all serials
  handed out only the last one is current.
\<close>

record load_options =
  background :: bool
  surfaceAccessLoss :: bool

text \<open>The caller's options, each key optional.\<close>

record load_options_in =
  in_background :: "bool option"
  in_surfaceAccessLoss :: "bool option"

definition normalizeDashboardLoadOptions :: "load_options_in \<Rightarrow> load_options" where
  "normalizeDashboardLoadOptions opts =
     \<lparr>background = (case in_background opts of None \<Rightarrow> False | Some b \<Rightarrow> b),
      surfaceAccessLoss = (case in_surfaceAccessLoss opts of None \<Rightarrow> False | Some b \<Rightarrow> b)\<rparr>"

definition mergeDashboardLoadOptions ::
    "load_options option \<Rightarrow> load_options \<Rightarrow> load_options" where
  "mergeDashboardLoadOptions current nxt =
     (case current of
        None \<Rightarrow> nxt
      | Some c \<Rightarrow> \<lparr>background = (background c \<and> background nxt),
                   surfaceAccessLoss = (surfaceAccessLoss c \<or> surfaceAccessLoss nxt)\<rparr>)"

definition dashboardLoadSatisfiesRequest :: "load_options \<Rightarrow> load_options \<Rightarrow> bool" where
  "dashboardLoadSatisfiesRequest current requested \<longleftrightarrow>
     (background requested \<or> \<not> background current) \<and>
     (\<not> surfaceAccessLoss requested \<or> surfaceAccessLoss current)"

type_synonym latest_request = "(string \<times> nat) option"

definition beginDashboardRequest :: "string \<Rightarrow> latest_request \<Rightarrow> nat \<times> latest_request" where
  "beginDashboardRequest i latest =
     (let serial = (case latest of None \<Rightarrow> 0 | Some (_, n) \<Rightarrow> n) + 1 in (serial, Some (i, serial)))"

definition isLatestDashboardRequest :: "latest_request \<Rightarrow> string \<Rightarrow> nat \<Rightarrow> bool" where
  "isLatestDashboardRequest latest i serial \<longleftrightarrow> latest = Some (i, serial)"

definition resetDashboardRequests :: "latest_request" where
  "resetDashboardRequests = None"

section \<open>The merge as a join\<close>

lemma satisfies_refl [simp]: "dashboardLoadSatisfiesRequest a a"
  by (simp add: dashboardLoadSatisfiesRequest_def)

lemma satisfies_trans:
  "dashboardLoadSatisfiesRequest a b \<Longrightarrow> dashboardLoadSatisfiesRequest b c \<Longrightarrow>
     dashboardLoadSatisfiesRequest a c"
  by (auto simp: dashboardLoadSatisfiesRequest_def)

lemma satisfies_antisym:
  "dashboardLoadSatisfiesRequest a b \<Longrightarrow> dashboardLoadSatisfiesRequest b a \<Longrightarrow> a = b"
  by (cases a; cases b) (auto simp: dashboardLoadSatisfiesRequest_def)

definition join_options :: "load_options \<Rightarrow> load_options \<Rightarrow> load_options" where
  "join_options a b = mergeDashboardLoadOptions (Some a) b"

interpretation options_join: semilattice join_options
  by standard
    (auto simp: join_options_def mergeDashboardLoadOptions_def)

text \<open>A merged load answers both requests it was merged from, and any load that answers both
  answers the merged one: nothing is asked for beyond what the callers wanted.\<close>

theorem merge_is_least_answer:
  "dashboardLoadSatisfiesRequest x (mergeDashboardLoadOptions (Some a) b) \<longleftrightarrow>
     dashboardLoadSatisfiesRequest x a \<and> dashboardLoadSatisfiesRequest x b"
  by (auto simp: dashboardLoadSatisfiesRequest_def mergeDashboardLoadOptions_def)

section \<open>Serials\<close>

text \<open>The requests of one run, oldest first, each with the serial it was given.\<close>

fun begin_all :: "string list \<Rightarrow> latest_request \<Rightarrow> (string \<times> nat) list \<times> latest_request" where
  "begin_all [] latest = ([], latest)"
| "begin_all (i # rest) latest =
     (case beginDashboardRequest i latest of
        (serial, latest') \<Rightarrow>
          (case begin_all rest latest' of (claims, final) \<Rightarrow> ((i, serial) # claims, final)))"

definition serial_of :: "latest_request \<Rightarrow> nat" where
  "serial_of latest = (case latest of None \<Rightarrow> 0 | Some (_, n) \<Rightarrow> n)"

lemma begin_serial:
  "beginDashboardRequest i latest = (Suc (serial_of latest), Some (i, Suc (serial_of latest)))"
  by (simp add: beginDashboardRequest_def serial_of_def Let_def split: option.splits)

lemma begin_all_serials:
  "begin_all ids latest = (claims, final) \<Longrightarrow>
     map snd claims = [Suc (serial_of latest) ..< Suc (serial_of latest + length ids)] \<and>
     map fst claims = ids \<and>
     final = (if ids = [] then latest else Some (last claims))"
proof (induction ids arbitrary: latest claims final)
  case (Cons i rest)
  obtain claims' final' where rest:
    "begin_all rest (Some (i, Suc (serial_of latest))) = (claims', final')" by force
  with Cons.prems have res: "claims = (i, Suc (serial_of latest)) # claims'" "final = final'"
    by (auto simp: begin_serial)
  have s: "serial_of (Some (i, Suc (serial_of latest))) = Suc (serial_of latest)"
    by (simp add: serial_of_def)
  from Cons.IH [OF rest] res show ?case
    unfolding s by (auto simp: upt_rec)
qed simp

text \<open>However many loads are requested, of the same dashboard or of others, the only claim that
  still counts as the latest is the last one made.\<close>

theorem only_last_claim_is_latest:
  assumes "begin_all ids latest = (claims, final)" and "k < length ids"
  shows "isLatestDashboardRequest final (fst (claims ! k)) (snd (claims ! k)) \<longleftrightarrow> k = length ids - 1"
proof -
  note facts = begin_all_serials [OF assms(1)]
  from facts have len: "length claims = length ids" by (metis length_map)
  with assms(2) have "claims \<noteq> []" by auto
  with len have last: "last claims = claims ! (length ids - 1)"
    by (simp add: last_conv_nth)
  have serial: "snd (claims ! j) = Suc (serial_of latest) + j" if "j < length ids" for j
  proof -
    have "snd (claims ! j) = map snd claims ! j" using that len by simp
    with facts that show ?thesis by (simp del: upt_Suc)
  qed
  have final: "final = Some (claims ! (length ids - 1))"
    using facts assms(2) last by auto
  show ?thesis
  proof
    assume "isLatestDashboardRequest final (fst (claims ! k)) (snd (claims ! k))"
    with final have "claims ! (length ids - 1) = claims ! k"
      by (auto simp: isLatestDashboardRequest_def)
    with serial [of k] serial [of "length ids - 1"] assms(2) show "k = length ids - 1"
      by fastforce
  next
    assume "k = length ids - 1"
    with final show "isLatestDashboardRequest final (fst (claims ! k)) (snd (claims ! k))"
      by (simp add: isLatestDashboardRequest_def)
  qed
qed

lemma only_last_claim_is_latest_witness:
  "isLatestDashboardRequest (Some (''a'', 3)) ''a'' 3 \<and> \<not> isLatestDashboardRequest (Some (''a'', 3)) ''a'' 1"
proof -
  have run: "begin_all [''a'', ''b'', ''a''] None = ([(''a'', 1), (''b'', 2), (''a'', 3)], Some (''a'', 3))"
    by (simp add: beginDashboardRequest_def)
  from only_last_claim_is_latest [OF run, of 2] only_last_claim_is_latest [OF run, of 0]
  show ?thesis by simp
qed

end
