(* ===== verification/Debounce.thy ===== *)
theory Debounce
  imports Prelude
begin

text \<open>
  \<open>createDebouncedRefresh\<close> (\<open>frontend/src/utils/debounce.ts\<close>): a burst of requests becomes one run
  of the last one, and every caller holds the same promise. The state is the closure's four
  variables; \<open>resolveOne\<close> and \<open>rejectOne\<close> are always those of \<open>promise\<close>, so they are one field. A
  promise is the number it was created with. \<open>'r\<close> is what the scheduled closure captured.

  The lemmas give the closure's invariant, what a burst comes down to, and that no promise is ever
  dropped unsettled.
\<close>

record 'r debounce =
  db_timer :: "'r option"
  db_promise :: "nat option"
  db_resolveOne :: "nat option"
  db_created :: nat

definition createDebouncedRefresh :: "'r debounce" where
  "createDebouncedRefresh =
     \<lparr>db_timer = None, db_promise = None, db_resolveOne = None, db_created = 0\<rparr>"

text \<open>The promise handed back, and the state after the call.\<close>

definition schedule :: "'r \<Rightarrow> 'r debounce \<Rightarrow> nat \<times> 'r debounce" where
  "schedule run db =
     (let db = (case db_promise db of
                  Some _ \<Rightarrow> db
                | None \<Rightarrow> db\<lparr>db_promise := Some (db_created db), db_resolveOne := Some (db_created db),
                             db_created := db_created db + 1\<rparr>)
      in (the (db_promise db), db\<lparr>db_timer := Some run\<rparr>))"

text \<open>The timer's callback: the run to start and the promise its outcome settles.\<close>

definition fire :: "'r debounce \<Rightarrow> ('r \<times> nat option) option \<times> 'r debounce" where
  "fire db =
     (case db_timer db of
        None \<Rightarrow> (None, db)
      | Some run \<Rightarrow> (Some (run, db_resolveOne db),
          db\<lparr>db_timer := None, db_promise := None, db_resolveOne := None\<rparr>))"

text \<open>\<open>cancel\<close>: the promise it resolves, and the state after it.\<close>

definition cancel :: "'r debounce \<Rightarrow> nat option \<times> 'r debounce" where
  "cancel db = (db_resolveOne db, db\<lparr>db_timer := None, db_promise := None, db_resolveOne := None\<rparr>)"

definition debounce_inv :: "'r debounce \<Rightarrow> bool" where
  "debounce_inv db \<longleftrightarrow>
     db_resolveOne db = db_promise db \<and> (db_timer db = None \<longleftrightarrow> db_promise db = None) \<and>
     (\<forall>p. db_promise db = Some p \<longrightarrow> p < db_created db)"

lemma created_inv [simp]: "debounce_inv createDebouncedRefresh"
  by (simp add: debounce_inv_def createDebouncedRefresh_def)

lemma schedule_inv: "debounce_inv db \<Longrightarrow> debounce_inv (snd (schedule run db))"
  by (auto simp: debounce_inv_def schedule_def split: option.splits)

lemma fire_inv: "debounce_inv db \<Longrightarrow> debounce_inv (snd (fire db))"
  by (auto simp: debounce_inv_def fire_def split: option.splits)

lemma cancel_inv: "debounce_inv (snd (cancel db))"
  by (simp add: debounce_inv_def cancel_def)

lemma schedule_timer [simp]: "db_timer (snd (schedule run db)) = Some run"
  by (simp add: schedule_def Let_def)

lemma schedule_promise [simp]: "db_promise (snd (schedule run db)) = Some (fst (schedule run db))"
  by (simp add: schedule_def Let_def split: option.splits)

lemma cancel_timer [simp]: "db_timer (snd (cancel db)) = None"
  by (simp add: cancel_def)

text \<open>A burst: every request of it, in order, with no timer firing in between.\<close>

fun burst :: "'r list \<Rightarrow> 'r debounce \<Rightarrow> nat list \<times> 'r debounce" where
  "burst [] db = ([], db)"
| "burst (run # runs) db =
     (let (p, db) = schedule run db; (ps, db) = burst runs db in (p # ps, db))"

lemma schedule_joins: "db_promise db = Some p \<Longrightarrow> fst (schedule run db) = p"
  by (simp add: schedule_def)

lemma burst_joins:
  "db_promise db = Some p \<Longrightarrow> debounce_inv db \<Longrightarrow>
     set (fst (burst runs db)) \<subseteq> {p} \<and> db_promise (snd (burst runs db)) = Some p \<and>
     db_resolveOne (snd (burst runs db)) = Some p \<and>
     db_timer (snd (burst runs db)) = (if runs = [] then db_timer db else Some (last runs))"
proof (induction runs arbitrary: db)
  case Nil
  then show ?case by (simp add: debounce_inv_def)
next
  case (Cons run runs)
  obtain db' where s: "schedule run db = (p, db')"
    using schedule_joins [OF Cons.prems(1), of run] by (metis prod.collapse)
  have "db_promise db' = Some p" "debounce_inv db'" "db_timer db' = Some run"
    using schedule_promise [of run db] schedule_inv [OF Cons.prems(2), of run] schedule_timer [of run db] s
    by simp_all
  from Cons.IH [OF this(1,2)] this(3) s show ?case by (simp add: split_beta)
qed

text \<open>A burst of requests runs once: every caller gets the same promise, the timer then runs the
  closure of the last request and no other, its outcome settles that promise, and the next burst
  starts afresh; a cancel settles the promise instead, so no caller waits forever.\<close>

theorem burst_runs_once:
  assumes "debounce_inv db" and "db_timer db = None"
  shows "\<exists>p. set (fst (burst (run # runs) db)) = {p} \<and>
     fire (snd (burst (run # runs) db)) =
       (Some (last (run # runs), Some p),
        db\<lparr>db_timer := None, db_promise := None, db_resolveOne := None, db_created := Suc p\<rparr>) \<and>
     fst (cancel (snd (burst (run # runs) db))) = Some p"
proof -
  let ?p = "db_created db"
  let ?db = "db\<lparr>db_promise := Some ?p, db_resolveOne := Some ?p, db_created := Suc ?p, db_timer := Some run\<rparr>"
  from assms have s: "schedule run db = (?p, ?db)"
    by (simp add: schedule_def debounce_inv_def)
  have inv: "debounce_inv ?db" by (simp add: debounce_inv_def)
  have rest: "set (fst (burst runs ?db)) \<subseteq> {?p}" "db_resolveOne (snd (burst runs ?db)) = Some ?p"
    "db_timer (snd (burst runs ?db)) = Some (last (run # runs))"
    using burst_joins [of ?db ?p runs] inv by simp_all
  have frame: "snd (burst rs e)\<lparr>db_timer := None, db_promise := None, db_resolveOne := None\<rparr> =
      e\<lparr>db_timer := None, db_promise := None, db_resolveOne := None\<rparr>"
    if "db_promise e = Some q" for rs :: "'a list" and e q
    using that
  proof (induction rs arbitrary: e)
    case (Cons r rs)
    have "schedule r e = (q, e\<lparr>db_timer := Some r\<rparr>)" using Cons.prems by (simp add: schedule_def)
    with Cons show ?case by (simp add: split_beta)
  qed simp
  from rest frame [of ?db ?p runs] s show ?thesis
    by (auto simp: fire_def cancel_def split_beta)
qed

lemma burst_runs_once_witness:
  "fst (fire (snd (burst [''a'', ''b'', ''c''] createDebouncedRefresh))) = Some (''c'', Some 0)"
proof -
  have "db_timer createDebouncedRefresh = None" by (simp add: createDebouncedRefresh_def)
  from burst_runs_once [OF created_inv this, of "''a''" "[''b'', ''c'']"]
  obtain p where p: "set (fst (burst [''a'', ''b'', ''c''] createDebouncedRefresh)) = {p}"
    and f: "fst (fire (snd (burst [''a'', ''b'', ''c''] createDebouncedRefresh))) = Some (''c'', Some p)"
    by auto
  from p have "p = 0" by (simp add: createDebouncedRefresh_def schedule_def split_beta)
  with f show ?thesis by simp
qed

end
