(* ===== verification/DashboardState.thy ===== *)
theory DashboardState
  imports DashboardEvents LoadOptions Debounce
begin

text \<open>
  The state of the dashboard store (\<open>frontend/src/stores/dashboard.ts\<close>): the zustand fields the
  pages render, the module variables that coordinate requests, and, since an \<open>async\<close> action stops
  at each \<open>await\<close>, the continuations parked there. A continuation keeps what its closure captured:
  the session generation of its guard and the object that identifies its load. JavaScript compares
  those objects by identity, so each gets a fresh number (\<open>st_nextObject\<close>).

  \<open>guarded\<close> is the store's \<open>sessionGuard().set\<close>: a write made under an older session generation
  does nothing. The two debounced refreshes hold what their closures captured: nothing for the
  listing, the board's id and the options for the dashboard. \<open>resetDashboardData\<close> moves the generation; the continuations parked before it stay
  parked and run later, which is what the guard is for.
\<close>

datatype connection_status = Connecting | Connected | Reconnecting

text \<open>\<open>InFlightDashboardLoad\<close>; its promise is the parked continuation.\<close>

record load_object =
  lo_id :: string
  lo_options :: load_options
  lo_queuedOptions :: "load_options option"
  lo_latestRequestSerial :: nat

text \<open>A \<open>loadDashboard\<close> continuation waiting for \<open>apiGetDashboard\<close>.\<close>

record load_task =
  lt_object :: nat
  lt_gen :: nat
  lt_id :: string
  lt_currentOptions :: load_options

record pending_save =
  ps_dashboardId :: string
  ps_layout :: "layout_item list"
  ps_gesture :: "layout_gesture option"
  ps_retried :: bool

text \<open>Where a layout drain is parked: at the PUT it sent, or at the re-read after a conflict.\<close>

datatype drain_phase =
    AwaitPut pending_save string int
  | AwaitRebase pending_save string

record drain =
  dr_gen :: nat
  dr_phase :: drain_phase

record dash_store =
  st_generation :: nat
  st_connection :: connection_status
  st_user :: "user option"
  st_toasts :: "string list"
  st_summaries :: "dashboard_summary list"
  st_summariesLoaded :: bool
  st_summariesLoading :: bool
  st_trash :: "trashed_dashboard list"
  st_trashLoaded :: bool
  st_dashboard :: "dashboard option"
  st_loading :: bool
  st_loadError :: bool
  st_conflict :: bool
  st_inFlightDashboardLoad :: "nat option"
  st_inFlightSummariesLoad :: "nat option"
  st_layoutSaveInFlight :: bool
  st_pendingLayoutSave :: "pending_save option"
  st_queuedSummariesForceReload :: bool
  st_inFlightTrashLoad :: "nat option"
  st_queuedTrashForceReload :: bool
  st_latestRequest :: latest_request
  st_nextObject :: nat
  st_loadObjects :: "(nat \<times> load_object) list"
  st_loadTasks :: "load_task list"
  st_summaryTasks :: "(nat \<times> nat) list"
  st_trashTasks :: "(nat \<times> nat) list"
  st_drains :: "drain list"
  st_summariesRefresh :: "unit debounce"
  st_dashboardRefresh :: "(string \<times> load_options_in) debounce"

definition guarded :: "nat \<Rightarrow> (dash_store \<Rightarrow> dash_store) \<Rightarrow> dash_store \<Rightarrow> dash_store" where
  "guarded g f st = (if g = st_generation st then f st else st)"

definition toast_error :: "string \<Rightarrow> dash_store \<Rightarrow> dash_store" where
  "toast_error msg st = st\<lparr>st_toasts := st_toasts st @ [msg]\<rparr>"

text \<open>The store before anything happened; \<open>g\<close> and the siblings' state are whatever they are.\<close>

definition initial_store :: "nat \<Rightarrow> dash_store" where
  "initial_store g = \<lparr>
     st_generation = g, st_connection = Connecting, st_user = None, st_toasts = [],
     st_summaries = [], st_summariesLoaded = False, st_summariesLoading = False,
     st_trash = [], st_trashLoaded = False, st_dashboard = None, st_loading = False,
     st_loadError = False, st_conflict = False,
     st_inFlightDashboardLoad = None, st_inFlightSummariesLoad = None,
     st_layoutSaveInFlight = False, st_pendingLayoutSave = None,
     st_queuedSummariesForceReload = False, st_inFlightTrashLoad = None,
     st_queuedTrashForceReload = False, st_latestRequest = None,
     st_nextObject = 0, st_loadObjects = [], st_loadTasks = [], st_summaryTasks = [],
     st_trashTasks = [], st_drains = [],
     st_summariesRefresh = createDebouncedRefresh, st_dashboardRefresh = createDebouncedRefresh\<rparr>"

text \<open>The load objects live on the heap: a continuation of an older session still holds its own.\<close>

definition resetDashboardData :: "dash_store \<Rightarrow> dash_store" where
  "resetDashboardData st = st\<lparr>
     st_generation := st_generation st + 1,
     st_summariesRefresh := snd (cancel (st_summariesRefresh st)),
     st_dashboardRefresh := snd (cancel (st_dashboardRefresh st)),
     st_inFlightDashboardLoad := None,
     st_inFlightSummariesLoad := None,
     st_inFlightTrashLoad := None,
     st_queuedTrashForceReload := False,
     st_layoutSaveInFlight := False,
     st_pendingLayoutSave := None,
     st_queuedSummariesForceReload := False,
     st_latestRequest := resetDashboardRequests,
     st_summaries := [],
     st_summariesLoaded := False,
     st_summariesLoading := False,
     st_trash := [],
     st_trashLoaded := False,
     st_dashboard := None,
     st_loading := False,
     st_loadError := False,
     st_conflict := False\<rparr>"

text \<open>What a component of the page can see of the store.\<close>

record dash_view =
  dv_summaries :: "dashboard_summary list"
  dv_summariesLoaded :: bool
  dv_summariesLoading :: bool
  dv_trash :: "trashed_dashboard list"
  dv_trashLoaded :: bool
  dv_dashboard :: "dashboard option"
  dv_loading :: bool
  dv_loadError :: bool
  dv_conflict :: bool

definition view_of :: "dash_store \<Rightarrow> dash_view" where
  "view_of st = \<lparr>dv_summaries = st_summaries st, dv_summariesLoaded = st_summariesLoaded st,
     dv_summariesLoading = st_summariesLoading st, dv_trash = st_trash st,
     dv_trashLoaded = st_trashLoaded st, dv_dashboard = st_dashboard st, dv_loading = st_loading st,
     dv_loadError = st_loadError st, dv_conflict = st_conflict st\<rparr>"

lemma guarded_stale [simp]: "g \<noteq> st_generation st \<Longrightarrow> guarded g f st = st"
  by (simp add: guarded_def)

lemma guarded_current [simp]: "g = st_generation st \<Longrightarrow> guarded g f st = f st"
  by (simp add: guarded_def)

lemma toast_error_view [simp]:
  "view_of (toast_error msg st) = view_of st" "st_generation (toast_error msg st) = st_generation st"
  by (simp_all add: toast_error_def view_of_def)

end
