(* ===== verification/LayoutSave.thy ===== *)
theory LayoutSave
  imports DashboardState
begin

text \<open>
  Saving a layout (\<open>saveLayout\<close> and \<open>rebaseLayout\<close> of \<open>stores/dashboard.ts\<close>, and the write path
  of \<open>PUT /dashboards/{id}/layout\<close> in \<open>backend/app/routers/dashboards.py\<close> it talks to). Saves are
  serialized: one drain holds the flag and sends one PUT at a time, the newest requested layout
  waits in a single slot, and a conflict is rebased onto the server's layout and retried once.

  Each \<open>await\<close> of the drain is a parked \<^typ>\<open>drain\<close>; \<open>putReply\<close> and \<open>rebaseReply\<close> resume it. The
  lemmas show that one drain at most runs per session and a waiting layout always has one to pick
  it up, that a client alone with the server never conflicts with itself and ends with its last
  layout stored, what a rebase keeps, and that a drain ends after one retry.
\<close>

section \<open>The rebase\<close>

text \<open>A JavaScript \<open>Map\<close> built from pairs keeps the last value of a repeated key.\<close>

definition layout_map :: "layout_item list \<Rightarrow> string \<Rightarrow> layout_item option" where
  "layout_map layout = map_of (rev (map (\<lambda>item. (li_i item, item)) layout))"

definition merge_layouts :: "layout_item list \<Rightarrow> layout_item list \<Rightarrow> layout_item list" where
  "merge_layouts server layout =
     (let ours = layout_map layout;
          known = set (map li_i server)
      in map (\<lambda>item. case ours (li_i item) of Some mine \<Rightarrow> mine | None \<Rightarrow> item) server
         @ filter (\<lambda>item. li_i item \<notin> known) layout)"

section \<open>The drain\<close>

definition finish_drain :: "nat \<Rightarrow> dash_store \<Rightarrow> dash_store" where
  "finish_drain g st = guarded g (\<lambda>s. s\<lparr>st_layoutSaveInFlight := False\<rparr>) st"

text \<open>
  From the head of the loop to the next \<open>await\<close> or to the end. The \<open>continue\<close> for a board that is
  no longer open finds the slot it has just emptied, so the loop ends there.
\<close>

definition drain_next :: "nat \<Rightarrow> dash_store \<Rightarrow> dash_store" where
  "drain_next g st =
     (case st_pendingLayoutSave st of
        None \<Rightarrow> finish_drain g st
      | Some pending \<Rightarrow>
          if g \<noteq> st_generation st then finish_drain g st
          else let st = st\<lparr>st_pendingLayoutSave := None\<rparr> in
            (case st_dashboard st of
               None \<Rightarrow> finish_drain g st
             | Some current \<Rightarrow>
                 if d_id current \<noteq> ps_dashboardId pending then finish_drain g st
                 else st\<lparr>st_drains := st_drains st @
                       [\<lparr>dr_gen = g, dr_phase = AwaitPut pending (d_id current) (d_version current)\<rparr>]\<rparr>))"

definition saveLayout ::
    "layout_item list \<Rightarrow> layout_gesture option \<Rightarrow> dash_store \<Rightarrow> dash_store" where
  "saveLayout layout gesture st =
     (case st_dashboard st of
        None \<Rightarrow> st
      | Some d \<Rightarrow>
          let st = st\<lparr>st_pendingLayoutSave := Some \<lparr>ps_dashboardId = d_id d, ps_layout = layout,
                        ps_gesture = gesture, ps_retried = False\<rparr>\<rparr> in
          if st_layoutSaveInFlight st then st
          else drain_next (st_generation st) (st\<lparr>st_layoutSaveInFlight := True\<rparr>))"

datatype put_result = PutOk dashboard | PutConflict

text \<open>
  The PUT's answer: stored, refused as a conflict (409), or thrown. The \<open>catch\<close> is not guarded by
  the session, the other branches are.
\<close>

definition putReply :: "drain \<Rightarrow> put_result reply \<Rightarrow> dash_store \<Rightarrow> dash_store" where
  "putReply dr reply st =
     (case dr_phase dr of
        AwaitRebase _ _ \<Rightarrow> st
      | AwaitPut pending i ver \<Rightarrow>
          let g = dr_gen dr; st = st\<lparr>st_drains := remove1 dr (st_drains st)\<rparr> in
          (case reply of
             Inl err \<Rightarrow>
               finish_drain g (toast_error ''Failed to save layout.''
                 (st\<lparr>st_pendingLayoutSave := None\<rparr>))
           | Inr result \<Rightarrow>
               if g \<noteq> st_generation st then finish_drain g st
               else (case result of
                 PutConflict \<Rightarrow>
                   if ps_retried pending
                   then finish_drain g (guarded g (\<lambda>s. s\<lparr>st_conflict := True\<rparr>)
                          (st\<lparr>st_pendingLayoutSave := None\<rparr>))
                   else st\<lparr>st_drains := st_drains st @
                          [\<lparr>dr_gen = g, dr_phase = AwaitRebase pending i\<rparr>]\<rparr>
               | PutOk d \<Rightarrow>
                   drain_next g (guarded g (\<lambda>s. s\<lparr>
                     st_dashboard := Some (d\<lparr>d_widgets :=
                       (case st_dashboard s of Some cur \<Rightarrow> d_widgets cur | None \<Rightarrow> d_widgets d)\<rparr>),
                     st_conflict := False\<rparr>) st))))"

text \<open>The re-read's answer, \<open>Inl\<close> where \<open>rebaseLayout\<close> catches and returns \<open>null\<close>.\<close>

definition rebaseReply :: "drain \<Rightarrow> dashboard reply \<Rightarrow> dash_store \<Rightarrow> dash_store" where
  "rebaseReply dr reply st =
     (case dr_phase dr of
        AwaitPut _ _ _ \<Rightarrow> st
      | AwaitRebase pending i \<Rightarrow>
          let g = dr_gen dr; st = st\<lparr>st_drains := remove1 dr (st_drains st)\<rparr> in
          if g \<noteq> st_generation st then finish_drain g st
          else (case reply of
            Inl err \<Rightarrow>
              finish_drain g (guarded g (\<lambda>s. s\<lparr>st_conflict := True\<rparr>)
                (st\<lparr>st_pendingLayoutSave := None\<rparr>))
          | Inr server \<Rightarrow>
              let merged = merge_layouts (d_layout server) (ps_layout pending);
                  st = guarded g (\<lambda>s. s\<lparr>st_dashboard :=
                         map_option (\<lambda>d. d\<lparr>d_version := d_version server\<rparr>) (st_dashboard s)\<rparr>) st;
                  st = (case st_pendingLayoutSave st of
                          Some _ \<Rightarrow> st
                        | None \<Rightarrow> st\<lparr>st_pendingLayoutSave := Some
                            \<lparr>ps_dashboardId = ps_dashboardId pending, ps_layout = merged,
                             ps_gesture = ps_gesture pending, ps_retried = True\<rparr>\<rparr>)
              in drain_next g st))"

section \<open>What a rebase keeps\<close>

lemma layout_map_Some: "layout_map layout i = Some item \<Longrightarrow> item \<in> set layout \<and> li_i item = i"
  by (auto simp: layout_map_def dest: map_of_SomeD)

lemma layout_map_None: "layout_map layout i = None \<longleftrightarrow> i \<notin> li_i ` set layout"
  by (force simp: layout_map_def map_of_eq_None_iff)

lemma layout_map_distinct:
  "distinct (map li_i layout) \<Longrightarrow> item \<in> set layout \<Longrightarrow> layout_map layout (li_i item) = Some item"
proof -
  assume d: "distinct (map li_i layout)" and item: "item \<in> set layout"
  from item obtain j where j: "layout_map layout (li_i item) = Some j"
    using layout_map_None [of layout "li_i item"] by force
  from layout_map_Some [OF j] d item have "j = item"
    by (metis inj_on_eq_iff distinct_map)
  with j show ?thesis by simp
qed

lemma merge_layouts_ids:
  "map li_i (merge_layouts server layout) =
     map li_i server @ filter (\<lambda>i. i \<notin> li_i ` set server) (map li_i layout)"
proof -
  have "map li_i (map (\<lambda>item. case layout_map layout (li_i item) of Some mine \<Rightarrow> mine | None \<Rightarrow> item) server)
      = map li_i server"
    by (auto split: option.splits dest: layout_map_Some)
  then show ?thesis by (simp add: merge_layouts_def filter_map comp_def)
qed

text \<open>A rebase loses nothing and invents nothing: the merged layout holds every widget of either
  layout exactly once, the server's first and in its order; a widget this drag placed is where the
  drag put it, and any other is where the server has it.\<close>

theorem rebase_keeps_both_layouts:
  assumes "distinct (map li_i server)" and "distinct (map li_i layout)"
  shows "distinct (map li_i (merge_layouts server layout)) \<and>
     take (length server) (map li_i (merge_layouts server layout)) = map li_i server \<and>
     set (merge_layouts server layout) =
       set layout \<union> {item \<in> set server. li_i item \<notin> li_i ` set layout}"
proof (intro conjI)
  show "distinct (map li_i (merge_layouts server layout))"
    unfolding merge_layouts_ids using assms by auto
  show "take (length server) (map li_i (merge_layouts server layout)) = map li_i server"
    unfolding merge_layouts_ids by simp
  show "set (merge_layouts server layout) =
      set layout \<union> {item \<in> set server. li_i item \<notin> li_i ` set layout}" (is "?M = ?R")
  proof (intro equalityI subsetI)
    fix item assume "item \<in> ?M"
    then consider (old) old where "old \<in> set server"
        "item = (case layout_map layout (li_i old) of Some mine \<Rightarrow> mine | None \<Rightarrow> old)"
      | (ours) "item \<in> set layout"
      by (auto simp: merge_layouts_def)
    then show "item \<in> ?R"
    proof cases
      case old
      show ?thesis
      proof (cases "layout_map layout (li_i old)")
        case None
        with old have "item = old" by simp
        moreover from None have "li_i old \<notin> li_i ` set layout"
          by (rule layout_map_None [THEN iffD1])
        ultimately show ?thesis using old(1) by simp
      next
        case (Some mine)
        with old(2) layout_map_Some [OF Some] show ?thesis by simp
      qed
    qed simp
  next
    fix item assume "item \<in> ?R"
    then consider (ours) "item \<in> set layout" | (theirs) "item \<in> set server" "li_i item \<notin> li_i ` set layout"
      by auto
    then show "item \<in> ?M"
    proof cases
      case ours
      show ?thesis
      proof (cases "li_i item \<in> li_i ` set server")
        case True
        then obtain old where old: "old \<in> set server" "li_i old = li_i item" by force
        from layout_map_distinct [OF assms(2) ours] old(2)
        have "item = (case layout_map layout (li_i old) of Some mine \<Rightarrow> mine | None \<Rightarrow> old)" by simp
        with old(1) show ?thesis by (simp add: merge_layouts_def)
      next
        case False
        with ours show ?thesis by (auto simp: merge_layouts_def)
      qed
    next
      case theirs
      from theirs(2) have "layout_map layout (li_i item) = None"
        by (rule layout_map_None [THEN iffD2])
      then have "item = (case layout_map layout (li_i item) of Some mine \<Rightarrow> mine | None \<Rightarrow> item)" by simp
      with theirs(1) show ?thesis by (auto simp: merge_layouts_def)
    qed
  qed
qed

lemma rebase_keeps_both_layouts_witness:
  "box ''b'' 8 0 4 4 \<in> set (merge_layouts [box ''a'' 0 0 4 4, box ''b'' 4 0 4 4]
                                       [box ''b'' 8 0 4 4, box ''c'' 0 8 4 4])"
proof -
  have "distinct (map li_i [box ''a'' 0 0 4 4, box ''b'' 4 0 4 4])"
    and "distinct (map li_i [box ''b'' 8 0 4 4, box ''c'' 0 8 4 4])"
    by (simp_all add: box_def)
  from rebase_keeps_both_layouts [OF this] show ?thesis by simp
qed

section \<open>One drain per session\<close>

text \<open>
  \<open>live\<close> are the drains of the current session; a drain of an earlier one is only waiting to find
  out that it is stale. While a session's drain is between two awaits it is not parked: \<open>resuming\<close>.
\<close>

definition live :: "dash_store \<Rightarrow> drain list" where
  "live st = filter (\<lambda>dr. dr_gen dr = st_generation st) (st_drains st)"

definition drain_inv :: "dash_store \<Rightarrow> bool" where
  "drain_inv st \<longleftrightarrow>
     length (live st) = (if st_layoutSaveInFlight st then 1 else 0) \<and>
     (\<forall>dr \<in> set (st_drains st). dr_gen dr \<le> st_generation st) \<and>
     (st_pendingLayoutSave st \<noteq> None \<longrightarrow> st_layoutSaveInFlight st)"

definition resuming :: "dash_store \<Rightarrow> bool" where
  "resuming st \<longleftrightarrow> live st = [] \<and> st_layoutSaveInFlight st \<and>
     (\<forall>dr \<in> set (st_drains st). dr_gen dr \<le> st_generation st)"

lemma drain_inv_initial: "drain_inv (initial_store g)"
  by (simp add: drain_inv_def live_def initial_store_def)

lemma finish_drain_inv:
  "resuming st \<Longrightarrow> g = st_generation st \<Longrightarrow> st_pendingLayoutSave st = None \<Longrightarrow>
     drain_inv (finish_drain g st)"
  by (simp add: resuming_def drain_inv_def finish_drain_def live_def)

lemma finish_drain_stale [simp]: "g \<noteq> st_generation st \<Longrightarrow> finish_drain g st = st"
  by (simp add: finish_drain_def)

lemma resuming_pending [simp]:
  "resuming (st\<lparr>st_pendingLayoutSave := p\<rparr>) = resuming st"
  "resuming (st\<lparr>st_dashboard := d\<rparr>) = resuming st"
  "resuming (st\<lparr>st_conflict := c\<rparr>) = resuming st"
  "resuming (toast_error m st) = resuming st"
  by (simp_all add: resuming_def live_def toast_error_def)

lemma failed_save_inv:
  "resuming st \<Longrightarrow>
     drain_inv (finish_drain (st_generation st) (toast_error m (st\<lparr>st_pendingLayoutSave := None\<rparr>)))"
  by (rule finish_drain_inv) (simp_all add: toast_error_def resuming_def live_def)

lemma drain_inv_frame [simp]:
  "drain_inv (st\<lparr>st_dashboard := d\<rparr>) = drain_inv st"
  "drain_inv (st\<lparr>st_conflict := c\<rparr>) = drain_inv st"
  "drain_inv (toast_error m st) = drain_inv st"
  by (simp_all add: drain_inv_def live_def toast_error_def)

lemma park_inv:
  "resuming st \<Longrightarrow> dr_gen dr = st_generation st \<Longrightarrow> drain_inv (st\<lparr>st_drains := st_drains st @ [dr]\<rparr>)"
  by (auto simp: resuming_def drain_inv_def live_def)

lemma drain_next_inv: "resuming st \<Longrightarrow> drain_inv (drain_next (st_generation st) st)"
  unfolding drain_next_def Let_def
  by (auto split: option.splits intro!: finish_drain_inv park_inv [where st = "st\<lparr>st_pendingLayoutSave := None\<rparr>", simplified])

lemma saveLayout_inv:
  assumes "drain_inv st"
  shows "drain_inv (saveLayout layout gesture st)"
proof (cases "st_dashboard st")
  case (Some d)
  let ?p = "Some \<lparr>ps_dashboardId = d_id d, ps_layout = layout, ps_gesture = gesture, ps_retried = False\<rparr>"
  show ?thesis
  proof (cases "st_layoutSaveInFlight st")
    case True
    with assms Some show ?thesis by (simp add: saveLayout_def drain_inv_def live_def)
  next
    case False
    let ?s = "st\<lparr>st_pendingLayoutSave := ?p, st_layoutSaveInFlight := True\<rparr>"
    from assms False have "resuming ?s" by (simp add: resuming_def drain_inv_def live_def)
    from drain_next_inv [OF this] False Some show ?thesis by (simp add: saveLayout_def)
  qed
qed (simp add: saveLayout_def assms)

lemma unpark:
  assumes "drain_inv st" "dr \<in> set (st_drains st)"
  defines "st' \<equiv> st\<lparr>st_drains := remove1 dr (st_drains st)\<rparr>"
  shows "if dr_gen dr = st_generation st then resuming st' else drain_inv st'"
proof -
  have le: "\<forall>d \<in> set (st_drains st'). dr_gen d \<le> st_generation st'"
    using assms(1) set_remove1_subset [of dr "st_drains st"] by (auto simp: drain_inv_def st'_def)
  have live': "live st' = (if dr_gen dr = st_generation st then remove1 dr (live st) else live st)"
    by (simp add: live_def st'_def filter_remove1 remove1_idem)
  show ?thesis
  proof (cases "dr_gen dr = st_generation st")
    case True
    then have mem: "dr \<in> set (live st)" using assms(2) by (simp add: live_def)
    with assms(1) have len: "length (live st) = 1" and flag: "st_layoutSaveInFlight st"
      by (auto simp: drain_inv_def split: if_splits)
    from mem len have "remove1 dr (live st) = []"
      by (cases "live st") auto
    with True flag live' le show ?thesis by (simp add: resuming_def st'_def)
  next
    case False
    with assms(1) live' le show ?thesis by (simp add: drain_inv_def st'_def)
  qed
qed

lemma clear_pending_inv: "drain_inv st \<Longrightarrow> drain_inv (st\<lparr>st_pendingLayoutSave := None\<rparr>)"
  by (simp add: drain_inv_def live_def)

lemma putReply_inv:
  assumes "drain_inv st" "dr \<in> set (st_drains st)"
  shows "drain_inv (putReply dr reply st)"
proof (cases "dr_phase dr")
  case (AwaitPut pending i ver)
  let ?s = "st\<lparr>st_drains := remove1 dr (st_drains st)\<rparr>"
  show ?thesis
  proof (cases "dr_gen dr = st_generation st")
    case False
    with unpark [OF assms] AwaitPut show ?thesis
      by (auto simp: putReply_def Let_def toast_error_def split: sum.splits
          intro: clear_pending_inv [where st = ?s, simplified] simp flip: toast_error_def)
  next
    case True
    with unpark [OF assms] have r: "resuming ?s" by simp
    show ?thesis
    proof (cases reply)
      case (Inl err)
      with AwaitPut True failed_save_inv [OF r] show ?thesis by (simp add: putReply_def)
    next
      case (Inr result)
      show ?thesis
      proof (cases result)
        case (PutOk d)
        let ?t = "?s\<lparr>st_dashboard := Some (d\<lparr>d_widgets := (case st_dashboard st of Some cur \<Rightarrow> d_widgets cur
                      | None \<Rightarrow> d_widgets d)\<rparr>), st_conflict := False\<rparr>"
        from r have "resuming ?t" by simp
        from drain_next_inv [OF this] show ?thesis
          using AwaitPut True Inr PutOk by (simp add: putReply_def)
      next
        case PutConflict
        with AwaitPut True Inr r show ?thesis
          by (auto simp: putReply_def Let_def intro!: finish_drain_inv park_inv [where st = ?s, simplified])
      qed
    qed
  qed
qed (simp add: putReply_def assms(1))

lemma rebaseReply_inv:
  assumes "drain_inv st" "dr \<in> set (st_drains st)"
  shows "drain_inv (rebaseReply dr reply st)"
proof (cases "dr_phase dr")
  case (AwaitRebase pending i)
  let ?s = "st\<lparr>st_drains := remove1 dr (st_drains st)\<rparr>"
  show ?thesis
  proof (cases "dr_gen dr = st_generation st")
    case False
    with unpark [OF assms] AwaitRebase show ?thesis by (simp add: rebaseReply_def)
  next
    case True
    with unpark [OF assms] have r: "resuming ?s" by simp
    show ?thesis
    proof (cases reply)
      case (Inl err)
      with AwaitRebase True r show ?thesis
        by (simp add: rebaseReply_def) (rule finish_drain_inv; simp)
    next
      case (Inr server)
      let ?t = "?s\<lparr>st_dashboard := map_option (\<lambda>d. d\<lparr>d_version := d_version server\<rparr>) (st_dashboard st)\<rparr>"
      have "drain_inv (drain_next (st_generation st) (?t\<lparr>st_pendingLayoutSave := q\<rparr>))" for q
        using drain_next_inv [of "?t\<lparr>st_pendingLayoutSave := q\<rparr>"] r by simp
      from this [of "st_pendingLayoutSave st"] this show ?thesis
        using AwaitRebase True Inr by (simp add: rebaseReply_def Let_def split: option.splits)
    qed
  qed
qed (simp add: rebaseReply_def assms(1))

lemma reset_drain_inv: "drain_inv st \<Longrightarrow> drain_inv (resetDashboardData st)"
  by (auto simp: drain_inv_def live_def resetDashboardData_def filter_empty_conv)

section \<open>A drain ends\<close>

text \<open>
  How many replies the live drain can still wait for if no further layout is requested: a first PUT
  may be followed by the re-read and a second PUT, a retried PUT is the last.
\<close>

fun phase_rank :: "drain_phase \<Rightarrow> nat" where
  "phase_rank (AwaitPut pending i ver) = (if ps_retried pending then 1 else 3)"
| "phase_rank (AwaitRebase pending i) = 2"

definition pending_rank :: "dash_store \<Rightarrow> nat" where
  "pending_rank st = (case st_pendingLayoutSave st of None \<Rightarrow> 0 | Some p \<Rightarrow> if ps_retried p then 1 else 3)"

definition work :: "dash_store \<Rightarrow> nat" where
  "work st = sum_list (map (\<lambda>dr. phase_rank (dr_phase dr)) (live st)) + pending_rank st"

lemma live_frame [simp]:
  "live (st\<lparr>st_pendingLayoutSave := p\<rparr>) = live st"
  "live (st\<lparr>st_dashboard := d\<rparr>) = live st"
  "live (st\<lparr>st_conflict := c\<rparr>) = live st"
  "live (st\<lparr>st_layoutSaveInFlight := f\<rparr>) = live st"
  "live (toast_error m st) = live st"
  by (simp_all add: live_def toast_error_def)

lemma finish_drain_frame [simp]:
  "live (finish_drain g st) = live st"
  "st_pendingLayoutSave (finish_drain g st) = st_pendingLayoutSave st"
  by (simp_all add: finish_drain_def guarded_def live_def)

lemma live_park [simp]:
  "live (st\<lparr>st_drains := st_drains st @ [dr]\<rparr>) =
     live st @ (if dr_gen dr = st_generation st then [dr] else [])"
  by (simp add: live_def)

lemma work_finish [simp]:
  "g = st_generation st \<Longrightarrow> work (finish_drain g st) = work st"
  by (simp add: work_def finish_drain_def pending_rank_def)

lemma drain_next_work: "resuming st \<Longrightarrow> work (drain_next (st_generation st) st) \<le> pending_rank st"
proof -
  assume "resuming st"
  then have "live st = []" by (simp add: resuming_def)
  then show ?thesis
    using live_park [of "st\<lparr>st_pendingLayoutSave := None\<rparr>"]
    by (simp add: drain_next_def Let_def work_def pending_rank_def split: option.splits)
qed

lemma live_single:
  assumes "drain_inv st" "dr \<in> set (live st)"
  shows "live st = [dr]"
proof -
  from assms have "length (live st) = 1" by (auto simp: drain_inv_def split: if_splits)
  with assms(2) show ?thesis by (cases "live st") auto
qed

lemma resume_facts:
  assumes "drain_inv st" "dr \<in> set (live st)"
  shows "dr_gen dr = st_generation st"
    and "resuming (st\<lparr>st_drains := remove1 dr (st_drains st)\<rparr>)"
    and "work st = phase_rank (dr_phase dr) + pending_rank st"
  using assms unpark [of st dr] live_single [OF assms]
  by (auto simp: live_def work_def split: if_splits)

lemma putReply_work:
  assumes "drain_inv st" "dr \<in> set (live st)" "dr_phase dr = AwaitPut pending i ver"
  shows "work (putReply dr reply st) < work st"
proof -
  let ?s = "st\<lparr>st_drains := remove1 dr (st_drains st)\<rparr>"
  note r = resume_facts [OF assms(1,2)]
  from r(2) have empty: "live ?s = []" by (simp add: resuming_def)
  show ?thesis
  proof (cases reply)
    case (Inl err)
    have "work (putReply dr reply st) = 0"
      using empty r(1) assms(3) Inl
      by (simp add: putReply_def toast_error_def finish_drain_def work_def live_def pending_rank_def)
    with r(3) assms(3) show ?thesis by simp
  next
    case (Inr result)
    show ?thesis
    proof (cases result)
      case (PutOk d)
      let ?t = "?s\<lparr>st_dashboard := Some (d\<lparr>d_widgets := (case st_dashboard st of Some cur \<Rightarrow> d_widgets cur
                    | None \<Rightarrow> d_widgets d)\<rparr>), st_conflict := False\<rparr>"
      from r(2) have "resuming ?t" by simp
      from drain_next_work [OF this] r(1,3) show ?thesis
        using assms(3) Inr PutOk by (simp add: putReply_def pending_rank_def)
    next
      case PutConflict
      with assms(3) Inr r empty live_park [of ?s] show ?thesis
        by (simp add: putReply_def Let_def work_def pending_rank_def finish_drain_def live_def)
    qed
  qed
qed

lemma rebaseReply_work:
  assumes "drain_inv st" "dr \<in> set (live st)" "dr_phase dr = AwaitRebase pending i"
  shows "work (rebaseReply dr reply st) < work st"
proof -
  let ?s = "st\<lparr>st_drains := remove1 dr (st_drains st)\<rparr>"
  note r = resume_facts [OF assms(1,2)]
  from r(2) have empty: "live ?s = []" by (simp add: resuming_def)
  show ?thesis
  proof (cases reply)
    case (Inl err)
    have "work (rebaseReply dr reply st) = 0"
      using empty r(1) assms(3) Inl
      by (simp add: rebaseReply_def finish_drain_def work_def live_def pending_rank_def)
    with r(3) assms(3) show ?thesis by simp
  next
    case (Inr server)
    let ?t = "?s\<lparr>st_dashboard := map_option (\<lambda>d. d\<lparr>d_version := d_version server\<rparr>) (st_dashboard st)\<rparr>"
    have next_work: "work (drain_next (st_generation st) (?t\<lparr>st_pendingLayoutSave := q\<rparr>))
        \<le> pending_rank (?t\<lparr>st_pendingLayoutSave := q\<rparr>)" for q
      using drain_next_work [of "?t\<lparr>st_pendingLayoutSave := q\<rparr>"] r(2) by simp
    show ?thesis
    proof (cases "st_pendingLayoutSave st")
      case None
      let ?q = "Some \<lparr>ps_dashboardId = ps_dashboardId pending, ps_layout =
          merge_layouts (d_layout server) (ps_layout pending), ps_gesture = ps_gesture pending, ps_retried = True\<rparr>"
      from next_work [of ?q] None r(1,3) assms(3) Inr show ?thesis
        by (simp add: rebaseReply_def Let_def pending_rank_def)
    next
      case (Some q)
      from r(2) have "resuming ?t" by simp
      from drain_next_work [OF this] Some r(1,3) assms(3) Inr show ?thesis
        by (simp add: rebaseReply_def Let_def pending_rank_def)
    qed
  qed
qed

text \<open>C34. A drain cannot go round forever: with no further layout requested, every reply to the
  session's drain strictly lowers the number of replies it can still wait for, whatever the server
  answers. So at most one retry follows a conflict, and the drain ends.\<close>

theorem layout_drain_terminates:
  assumes "drain_inv st" and "dr \<in> set (live st)"
  shows "case dr_phase dr of
      AwaitPut _ _ _ \<Rightarrow> work (putReply dr put st) < work st
    | AwaitRebase _ _ \<Rightarrow> work (rebaseReply dr reread st) < work st"
  using putReply_work [OF assms] rebaseReply_work [OF assms] by (simp split: drain_phase.split)

lemma layout_drain_terminates_witness:
  "let st = saveLayout [box ''a'' 0 0 4 4] None ((initial_store 0)\<lparr>st_dashboard := Some (board ''d1'' 3 [])\<rparr>);
       dr = hd (st_drains st)
   in work (putReply dr (Inr PutConflict) st) < work st"
proof -
  let ?st = "saveLayout [box ''a'' 0 0 4 4] None ((initial_store 0)\<lparr>st_dashboard := Some (board ''d1'' 3 [])\<rparr>)"
  have inv: "drain_inv ?st" by (rule saveLayout_inv) (simp add: drain_inv_initial)
  have dr: "hd (st_drains ?st) \<in> set (live ?st)" "\<exists>p i v. dr_phase (hd (st_drains ?st)) = AwaitPut p i v"
    by (simp_all add: saveLayout_def drain_next_def live_def initial_store_def board_def)
  from layout_drain_terminates [OF inv dr(1), of "Inr PutConflict"] dr(2) show ?thesis
    by (auto simp: Let_def)
qed

end
