(* ===== verification/LayoutServer.thy ===== *)
theory LayoutServer
  imports LayoutSave
begin

text \<open>
  The write path of a layout on the server (\<open>LayoutUpdate\<close> in \<open>backend/app/schemas/dashboards.py\<close> and
  \<open>update_layout\<close> in \<open>backend/app/routers/dashboards.py\<close>): the body is validated against the grid,
  the version is compared, no widget may shrink below its minimum, and the stored version moves.
  Then the client of \<open>LayoutSave\<close> and this server are put together, alone: the system the
  serialization of saves exists for.
\<close>

section \<open>The write path\<close>

datatype server_refusal = Conflict409 | Invalid422

record server_board =
  sb_id :: string
  sb_version :: int
  sb_layout :: "layout_item list"
  sb_widget_types :: "(string \<times> widget_type) list"

definition GRID_COLUMNS :: int where "GRID_COLUMNS = 24"
definition GRID_ROWS :: int where "GRID_ROWS = 24"

definition minimum_widget_size :: "widget_type option \<Rightarrow> int \<times> int" where
  "minimum_widget_size t = (if t = Some CalendarW then (8, 8) else (4, 4))"

definition items_overlap :: "layout_item \<Rightarrow> layout_item \<Rightarrow> bool" where
  "items_overlap a b \<longleftrightarrow>
     li_x a < li_x b + li_w b \<and> li_x b < li_x a + li_w a \<and>
     li_y a < li_y b + li_h b \<and> li_y b < li_y a + li_h a"

text \<open>\<open>_reject_impossible_grids\<close>, false where it raises.\<close>

fun accepted_from :: "layout_item list \<Rightarrow> layout_item list \<Rightarrow> bool" where
  "accepted_from placed [] = True"
| "accepted_from placed (item # rest) =
     (if li_x item < 0 \<or> li_y item < 0 \<or> li_w item < 1 \<or> li_h item < 1 then False
      else if li_x item + li_w item > GRID_COLUMNS \<or> li_y item + li_h item > GRID_ROWS then False
      else if li_i item \<in> li_i ` set placed then False
      else if list_ex (\<lambda>other. items_overlap item other) placed then False
      else accepted_from (placed @ [item]) rest)"

definition reject_impossible_grids :: "layout_item list \<Rightarrow> bool" where
  "reject_impossible_grids layout \<longleftrightarrow> \<not> accepted_from [] layout"

definition below_minimum :: "server_board \<Rightarrow> layout_item \<Rightarrow> bool" where
  "below_minimum sb item =
     (let (min_w, min_h) = minimum_widget_size (map_of (sb_widget_types sb) (li_i item));
          previous = layout_map (sb_layout sb) (li_i item);
          min_w = (case previous of Some p \<Rightarrow> min min_w (li_w p) | None \<Rightarrow> min_w);
          min_h = (case previous of Some p \<Rightarrow> min min_h (li_h p) | None \<Rightarrow> min_h)
      in li_w item < min_w \<or> li_h item < min_h)"

definition update_layout ::
    "server_board \<Rightarrow> layout_item list \<Rightarrow> int \<Rightarrow> server_refusal + server_board" where
  "update_layout sb layout version =
     (if reject_impossible_grids layout then Inl Invalid422
      else if sb_version sb \<noteq> version then Inl Conflict409
      else if list_ex (below_minimum sb) layout then Inl Invalid422
      else Inr (sb\<lparr>sb_layout := layout, sb_version := sb_version sb + 1\<rparr>))"

text \<open>
  A layout the write path takes whatever is stored: it fits the grid and every widget has its full
  minimum size.
\<close>

definition storable :: "(string \<times> widget_type) list \<Rightarrow> layout_item list \<Rightarrow> bool" where
  "storable types layout \<longleftrightarrow> accepted_from [] layout \<and>
     (\<forall>item \<in> set layout. fst (minimum_widget_size (map_of types (li_i item))) \<le> li_w item \<and>
                          snd (minimum_widget_size (map_of types (li_i item))) \<le> li_h item)"

lemma storable_large: "storable (sb_widget_types sb) layout \<Longrightarrow> item \<in> set layout \<Longrightarrow> \<not> below_minimum sb item"
  by (fastforce simp: storable_def below_minimum_def Let_def split: prod.splits option.splits)

lemma update_layout_stores:
  assumes "storable (sb_widget_types sb) layout" "version = sb_version sb"
  shows "update_layout sb layout version = Inr (sb\<lparr>sb_layout := layout, sb_version := sb_version sb + 1\<rparr>)"
proof -
  have "\<not> list_ex (below_minimum sb) layout"
    using storable_large [OF assms(1)] by (auto simp: list_ex_iff)
  with assms show ?thesis
    by (simp add: update_layout_def reject_impossible_grids_def storable_def)
qed

text \<open>What the validator accepts, as one statement over pairs.\<close>

lemma accepted_from_iff:
  "accepted_from placed layout \<longleftrightarrow>
     (\<forall>item \<in> set layout. 0 \<le> li_x item \<and> 0 \<le> li_y item \<and> 1 \<le> li_w item \<and> 1 \<le> li_h item \<and>
        li_x item + li_w item \<le> GRID_COLUMNS \<and> li_y item + li_h item \<le> GRID_ROWS \<and>
        li_i item \<notin> li_i ` set placed \<and> (\<forall>other \<in> set placed. \<not> items_overlap item other)) \<and>
     distinct (map li_i layout) \<and> sorted_wrt (\<lambda>a b. \<not> items_overlap b a) layout"
proof (induction placed layout rule: accepted_from.induct)
  case (2 placed item rest)
  then show ?case by (auto simp: list_ex_iff not_less image_iff)
qed simp

section \<open>The client alone with the server\<close>

datatype solo_event = Drag "layout_item list" | Deliver | Fails bool

record solo =
  so_client :: dash_store
  so_server :: server_board
  so_last :: "layout_item list"

definition response_of :: "dashboard \<Rightarrow> server_board \<Rightarrow> dashboard" where
  "response_of d sb = d\<lparr>d_version := sb_version sb, d_layout := sb_layout sb\<rparr>"

text \<open>
  \<open>Deliver\<close> is the server handling the request the drain waits for and its answer arriving; \<open>Fails\<close> is that
  request failing, before the server handled it or, where its flag is set, after; \<open>Drag\<close> is a gesture that ends.
  \<open>d\<close> supplies the fields of the answer a layout write does not touch. Nothing else writes to the board here,
  neither another client nor this one adding or removing a widget.
\<close>

definition handled :: "drain \<Rightarrow> server_board \<Rightarrow> server_board" where
  "handled dr sb =
     (case dr_phase dr of
        AwaitRebase _ _ \<Rightarrow> sb
      | AwaitPut pending i version \<Rightarrow>
          (case update_layout sb (ps_layout pending) version of Inr sb' \<Rightarrow> sb' | Inl refusal \<Rightarrow> sb))"

definition solo_step :: "dashboard \<Rightarrow> solo_event \<Rightarrow> solo \<Rightarrow> solo" where
  "solo_step d ev s =
     (case ev of
        Drag layout \<Rightarrow> s\<lparr>so_client := saveLayout layout None (so_client s), so_last := layout\<rparr>
      | Deliver \<Rightarrow>
          (case st_drains (so_client s) of
             [] \<Rightarrow> s
           | dr # _ \<Rightarrow>
               (case dr_phase dr of
                  AwaitRebase _ _ \<Rightarrow> s\<lparr>so_client :=
                    rebaseReply dr (Inr (response_of d (so_server s))) (so_client s)\<rparr>
                | AwaitPut pending i version \<Rightarrow>
                    (case update_layout (so_server s) (ps_layout pending) version of
                       Inr sb \<Rightarrow> s\<lparr>so_server := sb, so_client :=
                         putReply dr (Inr (PutOk (response_of d sb))) (so_client s)\<rparr>
                     | Inl Conflict409 \<Rightarrow> s\<lparr>so_client :=
                         putReply dr (Inr PutConflict) (so_client s)\<rparr>
                     | Inl Invalid422 \<Rightarrow> s\<lparr>so_client :=
                         putReply dr (Inl (ApiErr 422 ''Widget too small'')) (so_client s)\<rparr>)))
      | Fails after \<Rightarrow>
          (case st_drains (so_client s) of
             [] \<Rightarrow> s
           | dr # _ \<Rightarrow> s\<lparr>
               so_server := (if after then handled dr (so_server s) else so_server s),
               so_client := (case dr_phase dr of
                  AwaitRebase _ _ \<Rightarrow> rebaseReply dr (Inl NotAnError) (so_client s)
                | AwaitPut _ _ _ \<Rightarrow> putReply dr (Inl NotAnError) (so_client s))\<rparr>))"

definition saves :: "string \<Rightarrow> (string \<times> widget_type) list \<Rightarrow> layout_item list \<Rightarrow> pending_save \<Rightarrow> bool" where
  "saves i types layout p \<longleftrightarrow>
     ps_dashboardId p = i \<and> ps_layout p = layout \<and> \<not> ps_retried p \<and> storable types layout"

definition in_sync :: "dashboard \<Rightarrow> (string \<times> widget_type) list \<Rightarrow> solo \<Rightarrow> bool" where
  "in_sync d types s \<longleftrightarrow>
     sb_id (so_server s) = d_id d \<and> sb_widget_types (so_server s) = types \<and>
     \<not> st_conflict (so_client s) \<and> st_toasts (so_client s) = [] \<and>
     (\<exists>cur. st_dashboard (so_client s) = Some cur \<and> d_id cur = d_id d \<and>
        d_version cur = sb_version (so_server s)) \<and>
     (st_drains (so_client s) = [] \<and> \<not> st_layoutSaveInFlight (so_client s) \<and>
      st_pendingLayoutSave (so_client s) = None \<and> sb_layout (so_server s) = so_last s
      \<or>
      st_layoutSaveInFlight (so_client s) \<and>
      (\<exists>p l. st_drains (so_client s) = [\<lparr>dr_gen = st_generation (so_client s),
               dr_phase = AwaitPut p (d_id d) (sb_version (so_server s))\<rparr>] \<and>
             saves (d_id d) types l p \<and>
             (case st_pendingLayoutSave (so_client s) of
                None \<Rightarrow> l = so_last s
              | Some q \<Rightarrow> saves (d_id d) types (so_last s) q)))"

lemma drag_in_sync:
  assumes "in_sync d types s" "storable types layout"
  shows "in_sync d types (solo_step d (Drag layout) s)"
proof -
  from assms(1) obtain cur where cur: "st_dashboard (so_client s) = Some cur" "d_id cur = d_id d"
    "d_version cur = sb_version (so_server s)"
    by (auto simp: in_sync_def)
  show ?thesis
  proof (cases "st_layoutSaveInFlight (so_client s)")
    case True
    with assms cur show ?thesis
      by (auto simp: in_sync_def solo_step_def saveLayout_def saves_def split: option.splits)
  next
    case False
    with assms cur show ?thesis
      by (auto simp: in_sync_def solo_step_def saveLayout_def drain_next_def saves_def)
  qed
qed

lemma deliver_in_sync:
  assumes "in_sync d types s"
  shows "in_sync d types (solo_step d Deliver s) \<and> so_last (solo_step d Deliver s) = so_last s \<and>
     (st_layoutSaveInFlight (so_client s) \<longrightarrow>
        (st_layoutSaveInFlight (so_client (solo_step d Deliver s)) \<longleftrightarrow>
           st_pendingLayoutSave (so_client s) \<noteq> None) \<and>
        st_pendingLayoutSave (so_client (solo_step d Deliver s)) = None)"
proof (cases "st_layoutSaveInFlight (so_client s)")
  case False
  with assms show ?thesis by (auto simp: in_sync_def solo_step_def)
next
  case True
  let ?c = "so_client s" and ?sb = "so_server s"
  from assms True obtain p l where
    dr: "st_drains ?c = [\<lparr>dr_gen = st_generation ?c, dr_phase = AwaitPut p (d_id d) (sb_version ?sb)\<rparr>]"
    and p: "saves (d_id d) types l p" and types: "sb_widget_types ?sb = types"
    and pend: "case st_pendingLayoutSave ?c of None \<Rightarrow> l = so_last s
                | Some q \<Rightarrow> saves (d_id d) types (so_last s) q"
    by (auto simp: in_sync_def)
  let ?sb' = "?sb\<lparr>sb_layout := l, sb_version := sb_version ?sb + 1\<rparr>"
  have stored: "update_layout ?sb (ps_layout p) (sb_version ?sb) = Inr ?sb'"
    using p types by (simp add: saves_def update_layout_stores)
  show ?thesis
  proof (cases "st_pendingLayoutSave ?c")
    case None
    with True assms dr stored pend show ?thesis
      by (auto simp: in_sync_def solo_step_def putReply_def drain_next_def finish_drain_def response_of_def)
  next
    case (Some q)
    with True assms dr stored pend show ?thesis
      by (auto simp: in_sync_def solo_step_def putReply_def drain_next_def finish_drain_def
          response_of_def saves_def)
  qed
qed

lemma solo_run_in_sync:
  assumes "in_sync d types s" "\<forall>layout. Drag layout \<in> set es \<longrightarrow> storable types layout" "\<forall>after. Fails after \<notin> set es"
  shows "in_sync d types (fold (solo_step d) es s)"
  using assms
proof (induction es arbitrary: s)
  case (Cons e es)
  have "in_sync d types (solo_step d e s)"
    using Cons.prems drag_in_sync deliver_in_sync by (cases e) auto
  with Cons.IH Cons.prems(2,3) show ?case by simp
qed simp

text \<open>
  What holds whatever fails: a save that is tried a second time names the version the server has, for nobody else
  moves it, so the server never refuses it as a conflict. Only the re-read in between can leave a conflict shown.
\<close>

definition sound_drain :: "dashboard \<Rightarrow> solo \<Rightarrow> drain \<Rightarrow> bool" where
  "sound_drain d s dr \<longleftrightarrow> dr_gen dr = st_generation (so_client s) \<and>
     (case dr_phase dr of
        AwaitPut p i version \<Rightarrow> ps_dashboardId p = d_id d \<and> (ps_retried p \<longrightarrow> version = sb_version (so_server s))
      | AwaitRebase p i \<Rightarrow> ps_dashboardId p = d_id d)"

definition alone :: "dashboard \<Rightarrow> solo \<Rightarrow> bool" where
  "alone d s \<longleftrightarrow> \<not> st_conflict (so_client s) \<and>
     (\<exists>cur. st_dashboard (so_client s) = Some cur \<and> d_id cur = d_id d) \<and>
     (case st_pendingLayoutSave (so_client s) of None \<Rightarrow> True | Some q \<Rightarrow> ps_dashboardId q = d_id d \<and> \<not> ps_retried q) \<and>
     (st_drains (so_client s) = [] \<and> \<not> st_layoutSaveInFlight (so_client s) \<or>
      st_layoutSaveInFlight (so_client s) \<and> (\<exists>dr. st_drains (so_client s) = [dr] \<and> sound_drain d s dr))"

definition reread_fails :: "solo_event \<Rightarrow> solo \<Rightarrow> bool" where
  "reread_fails e s \<longleftrightarrow>
     (case e of
        Fails after \<Rightarrow> (case st_drains (so_client s) of dr # _ \<Rightarrow>
          (case dr_phase dr of AwaitRebase p i \<Rightarrow> True | AwaitPut p i version \<Rightarrow> False) | [] \<Rightarrow> False)
      | _ \<Rightarrow> False)"

fun rereads_arrive :: "dashboard \<Rightarrow> solo_event list \<Rightarrow> solo \<Rightarrow> bool" where
  "rereads_arrive d [] s \<longleftrightarrow> True"
| "rereads_arrive d (e # es) s \<longleftrightarrow> \<not> reread_fails e s \<and> rereads_arrive d es (solo_step d e s)"

lemma in_sync_alone: "in_sync d types s \<Longrightarrow> alone d s"
  by (auto simp: in_sync_def alone_def sound_drain_def saves_def split: option.splits)

lemma update_layout_conflict: "update_layout sb layout version = Inl Conflict409 \<Longrightarrow> version \<noteq> sb_version sb"
  by (auto simp: update_layout_def split: if_splits)

text \<open>What the drain goes on with is sound on a server that now stores \<open>sb\<close>.\<close>

lemma drain_next_alone:
  assumes "\<not> st_conflict c" "st_dashboard c = Some cur" "d_id cur = d_id d" "st_layoutSaveInFlight c" "st_drains c = []"
    and "case st_pendingLayoutSave c of None \<Rightarrow> True
      | Some q \<Rightarrow> ps_dashboardId q = d_id d \<and> (ps_retried q \<longrightarrow> d_version cur = sb_version sb)"
  shows "alone d (s\<lparr>so_server := sb, so_client := drain_next (st_generation c) c\<rparr>)"
  using assms
  by (auto simp: alone_def drain_next_def finish_drain_def sound_drain_def split: option.splits)

lemma failed_alone:
  assumes "\<not> st_conflict c" "st_dashboard c = Some cur" "d_id cur = d_id d" "st_drains c = []"
  shows "alone d (s\<lparr>so_server := sb, so_client := finish_drain (st_generation c) (toast_error m (c\<lparr>st_pendingLayoutSave := None\<rparr>))\<rparr>)"
  using assms by (auto simp: alone_def finish_drain_def toast_error_def)


lemma sound_same:
  "st_generation (so_client s') = st_generation (so_client s) \<Longrightarrow> so_server s' = so_server s \<Longrightarrow>
     sound_drain d s' dr = sound_drain d s dr"
  by (cases "dr_phase dr") (simp_all add: sound_drain_def)

lemma drag_alone:
  assumes w: "alone d s"
  shows "alone d (solo_step d (Drag layout) s)"
proof -
  obtain cur where cur: "st_dashboard (so_client s) = Some cur" "d_id cur = d_id d" using w by (auto simp: alone_def)
  let ?c = "(so_client s)\<lparr>st_pendingLayoutSave := Some \<lparr>ps_dashboardId = d_id cur, ps_layout = layout, ps_gesture = None,
    ps_retried = False\<rparr>\<rparr>"
  show ?thesis
  proof (cases "st_layoutSaveInFlight (so_client s)")
    case True
    then have "solo_step d (Drag layout) s = s\<lparr>so_client := ?c, so_last := layout\<rparr>"
      using cur by (simp add: solo_step_def saveLayout_def)
    moreover have "sound_drain d (s\<lparr>so_client := ?c, so_last := layout\<rparr>) dr = sound_drain d s dr" for dr
      by (rule sound_same) simp_all
    ultimately show ?thesis using w cur by (simp add: alone_def)
  next
    case False
    let ?c' = "?c\<lparr>st_layoutSaveInFlight := True\<rparr>" and ?s = "s\<lparr>so_last := layout\<rparr>"
    have step: "solo_step d (Drag layout) s = ?s\<lparr>so_server := so_server s, so_client := drain_next (st_generation ?c') ?c'\<rparr>"
      using False cur by (simp add: solo_step_def saveLayout_def)
    show ?thesis unfolding step
      by (rule drain_next_alone [where cur = cur]) (use w cur False in \<open>auto simp: alone_def\<close>)
  qed
qed

lemma pending_same: "st_pendingLayoutSave c = x \<Longrightarrow> c\<lparr>st_pendingLayoutSave := x\<rparr> = c"
  by auto

lemma put_alone:
  fixes s :: solo
  assumes w: "alone d s" and dr: "st_drains (so_client s) = [dr]" "dr_phase dr = AwaitPut p i version"
  shows "alone d (s\<lparr>so_server := sb, so_client := putReply dr (Inl err) (so_client s)\<rparr>)"
    and "d_id b = d_id d \<Longrightarrow> alone d (s\<lparr>so_server := sb, so_client := putReply dr (Inr (PutOk b)) (so_client s)\<rparr>)"
    and "\<not> ps_retried p \<Longrightarrow> alone d (s\<lparr>so_client := putReply dr (Inr PutConflict) (so_client s)\<rparr>)"
proof -
  let ?c = "(so_client s)\<lparr>st_drains := []\<rparr>"
  obtain cur where cur: "st_dashboard (so_client s) = Some cur" "d_id cur = d_id d" using w by (auto simp: alone_def)
  have c: "\<not> st_conflict (so_client s)" "st_layoutSaveInFlight (so_client s)" "sound_drain d s dr"
    using w dr(1) by (auto simp: alone_def)
  have gen: "dr_gen dr = st_generation (so_client s)" and pid: "ps_dashboardId p = d_id d"
    using c(3) dr(2) by (simp_all add: sound_drain_def)
  have q: "case st_pendingLayoutSave (so_client s) of None \<Rightarrow> True | Some q \<Rightarrow> ps_dashboardId q = d_id d \<and> \<not> ps_retried q"
    using w by (simp add: alone_def)
  show "alone d (s\<lparr>so_server := sb, so_client := putReply dr (Inl err) (so_client s)\<rparr>)"
    using failed_alone [where c = ?c and cur = cur and s = s and sb = sb] c cur dr gen by (simp add: putReply_def)
  show "alone d (s\<lparr>so_server := sb, so_client := putReply dr (Inr (PutOk b)) (so_client s)\<rparr>)" if b: "d_id b = d_id d"
  proof -
    let ?b = "b\<lparr>d_widgets := d_widgets cur\<rparr>"
    let ?c' = "?c\<lparr>st_dashboard := Some ?b, st_conflict := False\<rparr>"
    have "putReply dr (Inr (PutOk b)) (so_client s) = drain_next (st_generation ?c') ?c'"
      using dr gen cur by (simp add: putReply_def)
    moreover have "alone d (s\<lparr>so_server := sb, so_client := drain_next (st_generation ?c') ?c'\<rparr>)"
      by (rule drain_next_alone [where cur = ?b]) (use b c q in \<open>auto split: option.splits\<close>)
    ultimately show ?thesis by simp
  qed
  show "alone d (s\<lparr>so_client := putReply dr (Inr PutConflict) (so_client s)\<rparr>)" if "\<not> ps_retried p"
    using that c cur dr gen pid q by (simp add: putReply_def alone_def sound_drain_def)
qed

lemma rebase_alone:
  assumes w: "alone d s" and dr: "st_drains (so_client s) = [dr]" "dr_phase dr = AwaitRebase p i"
  shows "alone d (s\<lparr>so_client := rebaseReply dr (Inr (response_of b (so_server s))) (so_client s)\<rparr>)"
proof -
  let ?r = "response_of b (so_server s)"
  obtain cur where cur: "st_dashboard (so_client s) = Some cur" "d_id cur = d_id d" using w by (auto simp: alone_def)
  have c: "\<not> st_conflict (so_client s)" "st_layoutSaveInFlight (so_client s)" "sound_drain d s dr"
    using w dr(1) by (auto simp: alone_def)
  have gen: "dr_gen dr = st_generation (so_client s)" and pid: "ps_dashboardId p = d_id d"
    using c(3) dr(2) by (simp_all add: sound_drain_def)
  have q: "case st_pendingLayoutSave (so_client s) of None \<Rightarrow> True | Some q \<Rightarrow> ps_dashboardId q = d_id d \<and> \<not> ps_retried q"
    using w by (simp add: alone_def)
  let ?cur = "cur\<lparr>d_version := d_version ?r\<rparr>"
  define c' where "c' = (so_client s)\<lparr>st_drains := [], st_dashboard := Some ?cur, st_pendingLayoutSave :=
      (case st_pendingLayoutSave (so_client s) of Some q \<Rightarrow> Some q
       | None \<Rightarrow> Some \<lparr>ps_dashboardId = ps_dashboardId p, ps_layout = merge_layouts (d_layout ?r) (ps_layout p),
           ps_gesture = ps_gesture p, ps_retried = True\<rparr>)\<rparr>"
  let ?base = "(so_client s)\<lparr>st_drains := [], st_dashboard := Some ?cur\<rparr>"
  have base: "c' = ?base" if "st_pendingLayoutSave (so_client s) = Some q" for q
    using pending_same [of ?base "Some q"] that by (simp add: c'_def)
  have "rebaseReply dr (Inr ?r) (so_client s) = drain_next (st_generation c') c'"
  proof (cases "st_pendingLayoutSave (so_client s)")
    case None
    then show ?thesis using dr gen cur by (simp add: rebaseReply_def Let_def c'_def)
  next
    case (Some q)
    show ?thesis unfolding base [OF Some] using dr gen cur Some by (simp add: rebaseReply_def Let_def)
  qed
  moreover have "alone d (s\<lparr>so_server := so_server s, so_client := drain_next (st_generation c') c'\<rparr>)"
    by (rule drain_next_alone [where cur = ?cur])
      (use c cur q pid in \<open>auto simp: c'_def response_of_def split: option.splits\<close>)
  ultimately show ?thesis by simp
qed

lemma solo_step_alone:
  assumes w: "alone d s" and r: "\<not> reread_fails e s"
  shows "alone d (solo_step d e s)"
proof (cases e)
  case (Drag layout)
  then show ?thesis using drag_alone [OF w] by simp
next
  case Deliver
  show ?thesis
  proof (cases "st_drains (so_client s)")
    case Nil
    then show ?thesis using w Deliver by (simp add: solo_step_def)
  next
    case (Cons dr rest)
    then have dr: "st_drains (so_client s) = [dr]" "sound_drain d s dr" using w by (auto simp: alone_def)
    show ?thesis
    proof (cases "dr_phase dr")
      case (AwaitRebase p i)
      then show ?thesis using rebase_alone [OF w dr(1)] Deliver dr by (simp add: solo_step_def)
    next
      case (AwaitPut p i version)
      note put = put_alone [OF w dr(1) AwaitPut]
      show ?thesis
      proof (cases "update_layout (so_server s) (ps_layout p) version")
        case (Inl refusal)
        show ?thesis
        proof (cases refusal)
          case Conflict409
          have "\<not> ps_retried p"
            using update_layout_conflict [of "so_server s" "ps_layout p" version] Inl Conflict409 dr(2) AwaitPut
            by (auto simp: sound_drain_def)
          from put(3) [OF this] show ?thesis using Deliver dr AwaitPut Inl Conflict409 by (simp add: solo_step_def)
        next
          case Invalid422
          then show ?thesis using put(1) [where sb = "so_server s"] Deliver dr AwaitPut Inl by (simp add: solo_step_def)
        qed
      next
        case (Inr sb)
        then show ?thesis using put(2) [where b = "response_of d sb" and sb = sb] Deliver dr AwaitPut
          by (simp add: solo_step_def response_of_def)
      qed
    qed
  qed
next
  case (Fails after)
  show ?thesis
  proof (cases "st_drains (so_client s)")
    case Nil
    then show ?thesis using w Fails by (simp add: solo_step_def)
  next
    case (Cons dr rest)
    then have dr: "st_drains (so_client s) = [dr]" using w by (auto simp: alone_def)
    then obtain p i version where "dr_phase dr = AwaitPut p i version"
      using r Fails by (cases "dr_phase dr") (auto simp: reread_fails_def)
    with put_alone(1) [OF w dr this] show ?thesis using Fails dr by (simp add: solo_step_def)
  qed
qed

lemma solo_run_alone: "alone d s \<Longrightarrow> rereads_arrive d es s \<Longrightarrow> alone d (fold (solo_step d) es s)"
  by (induction es arbitrary: s) (auto simp: solo_step_alone)

text \<open>C3. A client whose drags are the only writes to a board never conflicts with itself. From a store in step with
  the server, whatever the order of gestures and answers and whichever saves fail on their way there or back, no
  conflict banner is shown as long as the re-reads that follow a refused version arrive. Where nothing fails and every
  layout dragged is one the server can store, there is no failure toast either, the version the client holds is the
  stored one, and two answers after the last gesture the drain has ended and the server stores the last layout
  dragged.\<close>

theorem own_saves_never_conflict:
  assumes "in_sync d types s" and "rereads_arrive d es s"
  defines "s1 \<equiv> fold (solo_step d) es s"
  shows "\<not> st_conflict (so_client s1) \<and>
    ((\<forall>layout. Drag layout \<in> set es \<longrightarrow> storable types layout) \<and> (\<forall>after. Fails after \<notin> set es) \<longrightarrow>
     st_toasts (so_client s1) = [] \<and>
     map_option d_version (st_dashboard (so_client s1)) = Some (sb_version (so_server s1)) \<and>
     sb_layout (so_server (fold (solo_step d) [Deliver, Deliver] s1)) = so_last s1 \<and>
     st_drains (so_client (fold (solo_step d) [Deliver, Deliver] s1)) = [])"
proof (intro conjI impI; (elim conjE)?)
  show "\<not> st_conflict (so_client s1)"
    using solo_run_alone [OF in_sync_alone [OF assms(1)] assms(2)] by (simp add: s1_def alone_def)
next
  assume "\<forall>layout. Drag layout \<in> set es \<longrightarrow> storable types layout" "\<forall>after. Fails after \<notin> set es"
  then have s1: "in_sync d types s1"
    unfolding s1_def using assms(1) by (intro solo_run_in_sync)
  note d1 = deliver_in_sync [OF s1]
  note d2 = deliver_in_sync [OF conjunct1 [OF d1]]
  let ?s3 = "solo_step d Deliver (solo_step d Deliver s1)"
  have idle: "\<not> st_layoutSaveInFlight (so_client (solo_step d Deliver x))"
    if "\<not> st_layoutSaveInFlight (so_client x)" "in_sync d types x" for x
    using that by (auto simp: in_sync_def solo_step_def)
  have "\<not> st_layoutSaveInFlight (so_client ?s3)" using d1 d2 idle s1 by blast
  with d2 have last: "st_drains (so_client ?s3) = []" "sb_layout (so_server ?s3) = so_last ?s3"
    by (auto simp: in_sync_def)
  show "st_toasts (so_client s1) = []"
    "map_option d_version (st_dashboard (so_client s1)) = Some (sb_version (so_server s1))"
    using s1 by (auto simp: in_sync_def)
  show "sb_layout (so_server (fold (solo_step d) [Deliver, Deliver] s1)) = so_last s1"
    "st_drains (so_client (fold (solo_step d) [Deliver, Deliver] s1)) = []"
    using last d1 d2 by simp_all
qed

definition solo_start :: solo where
  "solo_start = \<lparr>so_client = (initial_store 0)\<lparr>st_dashboard := Some (board ''d1'' 3 [box ''a'' 0 0 4 4])\<rparr>,
     so_server = \<lparr>sb_id = ''d1'', sb_version = 3, sb_layout = [box ''a'' 0 0 4 4], sb_widget_types = []\<rparr>,
     so_last = [box ''a'' 0 0 4 4]\<rparr>"

lemma solo_start_in_sync: "in_sync (board ''d1'' 3 []) [] solo_start"
  by (simp add: in_sync_def solo_start_def board_def initial_store_def)

lemma own_saves_never_conflict_witness:
  "let d = board ''d1'' 3 []; es = [Drag [box ''a'' 4 0 4 4], Drag [box ''a'' 8 0 4 4], Drag [box ''a'' 12 0 4 4]];
       lost = [Drag [box ''a'' 4 0 4 4], Fails True, Drag [box ''a'' 8 0 4 4], Deliver, Deliver, Deliver] in
     so_last (fold (solo_step d) es solo_start) = sb_layout (so_server (fold (solo_step d) (es @ [Deliver, Deliver]) solo_start)) \<and>
     \<not> st_conflict (so_client (fold (solo_step d) lost solo_start))"
proof -
  let ?d = "board ''d1'' 3 []" and ?es = "[Drag [box ''a'' 4 0 4 4], Drag [box ''a'' 8 0 4 4], Drag [box ''a'' 12 0 4 4]]"
  let ?lost = "[Drag [box ''a'' 4 0 4 4], Fails True, Drag [box ''a'' 8 0 4 4], Deliver, Deliver, Deliver]"
  have "\<forall>layout. Drag layout \<in> set ?es \<longrightarrow> storable [] layout" "\<forall>after. Fails after \<notin> set ?es"
    by (auto simp: storable_def box_def minimum_widget_size_def GRID_COLUMNS_def GRID_ROWS_def)
  moreover have "rereads_arrive ?d ?es solo_start" "rereads_arrive ?d ?lost solo_start" by code_simp+
  ultimately have "sb_layout (so_server (fold (solo_step ?d) [Deliver, Deliver] (fold (solo_step ?d) ?es solo_start)))
      = so_last (fold (solo_step ?d) ?es solo_start)"
    "\<not> st_conflict (so_client (fold (solo_step ?d) ?lost solo_start))"
    using own_saves_never_conflict [OF solo_start_in_sync] by blast+
  then show ?thesis unfolding Let_def fold_append comp_def by simp
qed

text \<open>
  The premise on the re-reads is needed: an answer lost after the server stored the layout leaves the client a version
  behind, and if the re-read after the next save's refusal fails, the client shows a conflict with itself.
\<close>

theorem failed_reread_shows_own_conflict:
  "let s = fold (solo_step (board ''d1'' 3 []))
     [Drag [box ''a'' 4 0 4 4], Fails True, Drag [box ''a'' 8 0 4 4], Deliver, Fails False] solo_start in
   st_conflict (so_client s)"
  by code_simp

end
