(* ===== verification/SingleFlight.thy ===== *)
theory SingleFlight
  imports Prelude
begin

text \<open>
  The single-flight pattern of the stores: a module variable holds the load under way, a request
  that finds it set does not send a second read, and the loop clears the variable when it ends and
  still owns it. The interface is what a load does to its four coordinates: the loops parked at
  their read (each with its object and session), the slot, the session and the next object number.
  A component proves its operations move the coordinates in these ways; the locale then gives that
  a session never has two loops reading, and a set slot always has one.
\<close>

record flight =
  fl_tasks :: "(nat \<times> nat) list"
  fl_slot :: "nat option"
  fl_gen :: nat
  fl_next :: nat

definition flight_start :: "flight \<Rightarrow> flight" where
  "flight_start f = \<lparr>fl_tasks = fl_tasks f @ [(fl_next f, fl_gen f)], fl_slot = Some (fl_next f),
     fl_gen = fl_gen f, fl_next = fl_next f + 1\<rparr>"

definition flight_again :: "nat \<times> nat \<Rightarrow> flight \<Rightarrow> flight" where
  "flight_again t f = f\<lparr>fl_tasks := remove1 t (fl_tasks f) @ [t]\<rparr>"

definition flight_finish :: "nat \<times> nat \<Rightarrow> flight \<Rightarrow> flight" where
  "flight_finish t f = f\<lparr>fl_tasks := remove1 t (fl_tasks f),
     fl_slot := (if fl_slot f = Some (fst t) then None else fl_slot f)\<rparr>"

fun reading :: "nat option \<Rightarrow> nat \<Rightarrow> (nat \<times> nat) list" where
  "reading None g = []"
| "reading (Some n) g = [(n, g)]"

definition flight_inv :: "flight \<Rightarrow> bool" where
  "flight_inv f \<longleftrightarrow>
     filter (\<lambda>t. snd t = fl_gen f) (fl_tasks f) = reading (fl_slot f) (fl_gen f) \<and>
     (\<forall>t \<in> set (fl_tasks f). snd t \<le> fl_gen f \<and> fst t < fl_next f) \<and>
     distinct (map fst (fl_tasks f))"

lemma start_inv: "flight_inv f \<Longrightarrow> fl_slot f = None \<Longrightarrow> flight_inv (flight_start f)"
  by (fastforce simp: flight_inv_def flight_start_def)

lemma remove1_reading: "n \<noteq> Some (fst t) \<Longrightarrow> remove1 t (reading n g) = reading n g"
  by (cases n) auto

lemma filter_remove1_append:
  "filter P (remove1 t ts @ [t]) = (if P t then remove1 t (filter P ts) @ [t] else filter P ts)"
  by (simp add: filter_remove1 remove1_idem)

lemma slot_task:
  assumes "flight_inv f" "t \<in> set (fl_tasks f)"
  shows "snd t = fl_gen f \<longleftrightarrow> fl_slot f = Some (fst t)"
proof
  assume "snd t = fl_gen f"
  with assms(2) have "t \<in> set (filter (\<lambda>t. snd t = fl_gen f) (fl_tasks f))" by simp
  with assms(1) show "fl_slot f = Some (fst t)"
    by (cases "fl_slot f") (auto simp: flight_inv_def)
next
  assume slot: "fl_slot f = Some (fst t)"
  with assms(1) have "(fst t, fl_gen f) \<in> set (filter (\<lambda>t. snd t = fl_gen f) (fl_tasks f))"
    by (simp add: flight_inv_def)
  then have "(fst t, fl_gen f) \<in> set (fl_tasks f)" by simp
  moreover from assms(1) have "inj_on fst (set (fl_tasks f))"
    by (simp add: flight_inv_def distinct_map)
  ultimately have "(fst t, fl_gen f) = t" using assms(2) by (metis fst_conv inj_onD)
  then show "snd t = fl_gen f" by (metis snd_conv)
qed

lemma again_inv:
  assumes "flight_inv f" "t \<in> set (fl_tasks f)"
  shows "flight_inv (flight_again t f)"
proof -
  have "distinct (map fst (remove1 t (fl_tasks f) @ [t]))"
  proof -
    have "mset (remove1 t (fl_tasks f) @ [t]) = mset (fl_tasks f)"
      using assms(2) by simp
    then have "mset (map fst (remove1 t (fl_tasks f) @ [t])) = mset (map fst (fl_tasks f))"
      by (metis mset_map)
    then show ?thesis using assms(1) by (metis flight_inv_def mset_eq_imp_distinct_iff)
  qed
  moreover have "filter (\<lambda>t. snd t = fl_gen f) (remove1 t (fl_tasks f) @ [t]) =
      filter (\<lambda>t. snd t = fl_gen f) (fl_tasks f)"
    unfolding filter_remove1_append
    using assms(1) slot_task [OF assms] by (cases t) (simp add: flight_inv_def)
  moreover have "set (remove1 t (fl_tasks f) @ [t]) = set (fl_tasks f)"
    using assms by (auto simp: flight_inv_def distinct_map)
  ultimately show ?thesis
    using assms(1) by (simp add: flight_inv_def flight_again_def del: set_append map_append filter_append)
qed

lemma finish_inv:
  assumes "flight_inv f" "t \<in> set (fl_tasks f)"
  shows "flight_inv (flight_finish t f)"
proof -
  have "distinct (map fst (remove1 t (fl_tasks f)))"
    using assms(1) by (auto simp: flight_inv_def distinct_map intro: inj_on_subset)
  moreover have "filter (\<lambda>t. snd t = fl_gen f) (remove1 t (fl_tasks f)) =
      (if snd t = fl_gen f then [] else filter (\<lambda>t. snd t = fl_gen f) (fl_tasks f))"
    using assms(1) slot_task [OF assms]
    by (cases t) (simp add: flight_inv_def filter_remove1 remove1_reading)
  moreover have "\<forall>u \<in> set (remove1 t (fl_tasks f)). snd u \<le> fl_gen f \<and> fst u < fl_next f"
    using assms(1) set_remove1_subset [of t "fl_tasks f"] by (auto simp: flight_inv_def)
  ultimately show ?thesis
    using assms(1) slot_task [OF assms] by (simp add: flight_inv_def flight_finish_def)
qed

lemma gen_inv: "flight_inv f \<Longrightarrow> flight_inv (f\<lparr>fl_gen := fl_gen f + 1, fl_slot := None\<rparr>)"
  by (auto simp: flight_inv_def filter_empty_conv)

lemma next_inv: "flight_inv f \<Longrightarrow> fl_next f \<le> m \<Longrightarrow> flight_inv (f\<lparr>fl_next := m\<rparr>)"
  by (auto simp: flight_inv_def intro: less_le_trans)

lemma slot_reader:
  "flight_inv f \<Longrightarrow> fl_slot f = Some n \<Longrightarrow> (n, fl_gen f) \<in> set (fl_tasks f)"
proof -
  assume "flight_inv f" "fl_slot f = Some n"
  then have "(n, fl_gen f) \<in> set (filter (\<lambda>t. snd t = fl_gen f) (fl_tasks f))"
    by (simp add: flight_inv_def)
  then show ?thesis by simp
qed

locale single_flight =
  fixes coords :: "'s \<Rightarrow> flight"
    and request :: "bool \<Rightarrow> 's \<Rightarrow> 's"
    and answer :: "nat \<times> nat \<Rightarrow> 'r \<Rightarrow> 's \<Rightarrow> 's"
  assumes request_coords: "coords (request force s) = coords s \<or>
      fl_slot (coords s) = None \<and> coords (request force s) = flight_start (coords s)"
    and answer_coords: "coords (answer t r s) = flight_again t (coords s) \<or>
      coords (answer t r s) = flight_finish t (coords s)"
begin

lemma request_inv: "flight_inv (coords s) \<Longrightarrow> flight_inv (coords (request force s))"
  using request_coords [of force s] start_inv by auto

lemma answer_inv:
  "flight_inv (coords s) \<Longrightarrow> t \<in> set (fl_tasks (coords s)) \<Longrightarrow> flight_inv (coords (answer t r s))"
  using answer_coords [of t r s] again_inv finish_inv by metis

lemma one_reader:
  "flight_inv (coords s) \<Longrightarrow>
     length (filter (\<lambda>t. snd t = fl_gen (coords s)) (fl_tasks (coords s))) =
       (if fl_slot (coords s) = None then 0 else 1)"
  by (cases "fl_slot (coords s)") (simp_all add: flight_inv_def)

end

end
