(* ===== verification/DashboardLoads.thy ===== *)
theory DashboardLoads
  imports DashboardState SingleFlight
begin

text \<open>
  The three loads of the dashboard store: \<open>loadSummaries\<close>, \<open>loadTrash\<close> and \<open>loadDashboard\<close>
  (\<open>frontend/src/stores/dashboard.ts\<close>). Each is single-flighted: one loop holds the in-flight slot,
  a request that arrives meanwhile is noted for the loop's next round. A loop is parked at its GET;
  the \<open>...Reply\<close> definitions resume it with the answer.

  The lemmas show that a request arriving during a load is never answered by the GET already under
  way unless that GET was sent with options that satisfy it, that a board shown is replaced only by
  the answer to the newest request of the current session, and where the module-wide reload flags
  let a loop of an older session take a reload meant for the current one.
\<close>

section \<open>The listing and the trash\<close>

definition park_summaries :: "nat \<Rightarrow> nat \<Rightarrow> dash_store \<Rightarrow> dash_store" where
  "park_summaries n g st =
     st\<lparr>st_queuedSummariesForceReload := False, st_summaryTasks := st_summaryTasks st @ [(n, g)]\<rparr>"

definition loadSummaries :: "bool \<Rightarrow> dash_store \<Rightarrow> dash_store" where
  "loadSummaries force st =
     (if \<not> force \<and> st_summariesLoaded st \<and> \<not> st_summariesLoading st then st
      else case st_inFlightSummariesLoad st of
        Some _ \<Rightarrow> if force then st\<lparr>st_queuedSummariesForceReload := True\<rparr> else st
      | None \<Rightarrow>
          let n = st_nextObject st in
          park_summaries n (st_generation st)
            (st\<lparr>st_summariesLoading := True, st_nextObject := n + 1, st_inFlightSummariesLoad := Some n\<rparr>))"

definition finish_summaries :: "nat \<Rightarrow> nat \<Rightarrow> dash_store \<Rightarrow> dash_store" where
  "finish_summaries n g st =
     (let st = guarded g (\<lambda>s. s\<lparr>st_summariesLoading := False\<rparr>) st in
      if st_inFlightSummariesLoad st = Some n then st\<lparr>st_inFlightSummariesLoad := None\<rparr> else st)"

definition summariesReply ::
    "nat \<times> nat \<Rightarrow> dashboard_summary list reply \<Rightarrow> dash_store \<Rightarrow> dash_store" where
  "summariesReply task reply st =
     (case task of (n, g) \<Rightarrow>
        let st = st\<lparr>st_summaryTasks := remove1 task (st_summaryTasks st)\<rparr> in
        (case reply of
           Inr rows \<Rightarrow>
             let st = guarded g (\<lambda>s. s\<lparr>st_summaries := rows, st_summariesLoaded := True\<rparr>) st in
             if st_queuedSummariesForceReload st then park_summaries n g st
             else finish_summaries n g st
         | Inl err \<Rightarrow>
             if st_queuedSummariesForceReload st then park_summaries n g st
             else finish_summaries n g (toast_error ''Failed to load dashboards.'' st)))"

definition park_trash :: "nat \<Rightarrow> nat \<Rightarrow> dash_store \<Rightarrow> dash_store" where
  "park_trash n g st =
     st\<lparr>st_queuedTrashForceReload := False, st_trashTasks := st_trashTasks st @ [(n, g)]\<rparr>"

definition loadTrash :: "bool \<Rightarrow> dash_store \<Rightarrow> dash_store" where
  "loadTrash force st =
     (if \<not> force \<and> st_trashLoaded st then st
      else case st_inFlightTrashLoad st of
        Some _ \<Rightarrow> if force then st\<lparr>st_queuedTrashForceReload := True\<rparr> else st
      | None \<Rightarrow>
          let n = st_nextObject st in
          park_trash n (st_generation st)
            (st\<lparr>st_nextObject := n + 1, st_inFlightTrashLoad := Some n\<rparr>))"

definition finish_trash :: "nat \<Rightarrow> dash_store \<Rightarrow> dash_store" where
  "finish_trash n st =
     (if st_inFlightTrashLoad st = Some n then st\<lparr>st_inFlightTrashLoad := None\<rparr> else st)"

text \<open>A failed read leaves the loop whatever is queued: \<open>break\<close> skips the \<open>while\<close> test.\<close>

definition trashReply :: "nat \<times> nat \<Rightarrow> trashed_dashboard list reply \<Rightarrow> dash_store \<Rightarrow> dash_store" where
  "trashReply task reply st =
     (case task of (n, g) \<Rightarrow>
        let st = st\<lparr>st_trashTasks := remove1 task (st_trashTasks st)\<rparr> in
        (case reply of
           Inr rows \<Rightarrow>
             let st = guarded g (\<lambda>s. s\<lparr>st_trash := rows, st_trashLoaded := True\<rparr>) st in
             if st_queuedTrashForceReload st then park_trash n g st else finish_trash n st
         | Inl err \<Rightarrow> finish_trash n st))"

section \<open>The board\<close>

definition load_object_of :: "nat \<Rightarrow> dash_store \<Rightarrow> load_object option" where
  "load_object_of n st = map_of (st_loadObjects st) n"

definition set_load_object :: "nat \<Rightarrow> load_object \<Rightarrow> dash_store \<Rightarrow> dash_store" where
  "set_load_object n ob st = st\<lparr>st_loadObjects := AList.update n ob (st_loadObjects st)\<rparr>"

text \<open>The load in flight when it is for this board.\<close>

definition in_flight_for :: "string \<Rightarrow> dash_store \<Rightarrow> (nat \<times> load_object) option" where
  "in_flight_for i st =
     (case st_inFlightDashboardLoad st of
        None \<Rightarrow> None
      | Some n \<Rightarrow>
          (case load_object_of n st of
             None \<Rightarrow> None
           | Some ob \<Rightarrow> if lo_id ob = i then Some (n, ob) else None))"

text \<open>One round of the loop, up to its GET.\<close>

definition load_round :: "nat \<Rightarrow> nat \<Rightarrow> string \<Rightarrow> load_options \<Rightarrow> dash_store \<Rightarrow> dash_store" where
  "load_round n g i opts st =
     (let st = (case load_object_of n st of
                  Some ob \<Rightarrow> set_load_object n (ob\<lparr>lo_options := opts, lo_queuedOptions := None\<rparr>) st
                | None \<Rightarrow> st);
          st = (if \<not> background opts
                then guarded g (\<lambda>s. s\<lparr>st_loading := True, st_loadError := False\<rparr>) st else st)
      in st\<lparr>st_loadTasks := st_loadTasks st @
              [\<lparr>lt_object = n, lt_gen = g, lt_id = i, lt_currentOptions = opts\<rparr>]\<rparr>)"

definition held_is_current :: "string \<Rightarrow> dash_store \<Rightarrow> bool" where
  "held_is_current i st \<longleftrightarrow>
     in_flight_for i st = None \<and> map_option d_id (st_dashboard st) = Some i \<and>
     \<not> st_loadError st \<and> \<not> st_conflict st \<and> st_connection st = Connected"

definition loadDashboard :: "string \<Rightarrow> load_options_in \<Rightarrow> dash_store \<Rightarrow> dash_store" where
  "loadDashboard i options st =
     (let g = st_generation st; requested = normalizeDashboardLoadOptions options in
      if \<not> background requested \<and> held_is_current i st
      then st\<lparr>st_latestRequest := snd (beginDashboardRequest i (st_latestRequest st)),
              st_loading := False\<rparr>
      else
        let (serial, latest) = beginDashboardRequest i (st_latestRequest st);
            st = st\<lparr>st_latestRequest := latest\<rparr>
        in (case in_flight_for i st of
              Some (n, ob) \<Rightarrow>
                let ob = ob\<lparr>lo_latestRequestSerial := serial\<rparr>;
                    shouldQueueFollowUp = (background requested \<or>
                      \<not> dashboardLoadSatisfiesRequest (lo_options ob) requested)
                in set_load_object n
                     (if shouldQueueFollowUp
                      then ob\<lparr>lo_queuedOptions :=
                             Some (mergeDashboardLoadOptions (lo_queuedOptions ob) requested)\<rparr>
                      else ob) st
            | None \<Rightarrow>
                let n = st_nextObject st;
                    ob = \<lparr>lo_id = i, lo_options = requested, lo_queuedOptions = None,
                          lo_latestRequestSerial = serial\<rparr>;
                    st = load_round n g i requested
                           (set_load_object n ob (st\<lparr>st_nextObject := n + 1\<rparr>))
                in st\<lparr>st_inFlightDashboardLoad := Some n\<rparr>))"

definition load_next :: "nat \<Rightarrow> nat \<Rightarrow> string \<Rightarrow> dash_store \<Rightarrow> dash_store" where
  "load_next n g i st =
     (case Option.bind (load_object_of n st) lo_queuedOptions of
        Some opts \<Rightarrow> load_round n g i opts st
      | None \<Rightarrow>
          if st_inFlightDashboardLoad st = Some n then st\<lparr>st_inFlightDashboardLoad := None\<rparr> else st)"

definition task_is_latest :: "load_task \<Rightarrow> dash_store \<Rightarrow> bool" where
  "task_is_latest task st \<longleftrightarrow>
     (case load_object_of (lt_object task) st of
        None \<Rightarrow> False
      | Some ob \<Rightarrow> isLatestDashboardRequest (st_latestRequest st) (lt_id task) (lo_latestRequestSerial ob))"

definition loadReply :: "load_task \<Rightarrow> dashboard reply \<Rightarrow> dash_store \<Rightarrow> dash_store" where
  "loadReply task reply st =
     (let n = lt_object task; g = lt_gen task; i = lt_id task; current = lt_currentOptions task;
          showLoading = (\<not> background current);
          st = st\<lparr>st_loadTasks := remove1 task (st_loadTasks st)\<rparr>;
          isLatest = task_is_latest task st;
          settled = (\<lambda>s. if showLoading \<and> isLatest
                         then guarded g (\<lambda>s. s\<lparr>st_loading := False\<rparr>) s else s)
      in (case reply of
            Inr d \<Rightarrow>
              if \<not> isLatest then load_next n g i st
              else load_next n g i (settled (guarded g (\<lambda>s.
                s\<lparr>st_dashboard := Some d, st_conflict := False, st_loadError := False,
                  st_loading := (if showLoading then False else st_loading s)\<rparr>) st))
          | Inl err \<Rightarrow>
              let status = error_status err;
                  surface = (\<not> showLoading \<and> surfaceAccessLoss current \<and>
                             (status = Some 403 \<or> status = Some 404))
              in load_next n g i (settled
                   (if isLatest \<and> (showLoading \<or> surface)
                    then guarded g (\<lambda>s. s\<lparr>st_dashboard := (if surface then None else st_dashboard s),
                           st_loadError := True, st_loading := False, st_conflict := False\<rparr>) st
                    else st))))"

section \<open>One reader per session\<close>

definition summaries_flight :: "dash_store \<Rightarrow> flight" where
  "summaries_flight st = \<lparr>fl_tasks = st_summaryTasks st, fl_slot = st_inFlightSummariesLoad st,
     fl_gen = st_generation st, fl_next = st_nextObject st\<rparr>"

definition trash_flight :: "dash_store \<Rightarrow> flight" where
  "trash_flight st = \<lparr>fl_tasks = st_trashTasks st, fl_slot = st_inFlightTrashLoad st,
     fl_gen = st_generation st, fl_next = st_nextObject st\<rparr>"

lemmas flight_moves = flight_start_def flight_again_def flight_finish_def

interpretation summaries: single_flight summaries_flight loadSummaries summariesReply
proof
  show "summaries_flight (loadSummaries force s) = summaries_flight s \<or>
      fl_slot (summaries_flight s) = None \<and>
      summaries_flight (loadSummaries force s) = flight_start (summaries_flight s)" for force s
    by (simp add: loadSummaries_def park_summaries_def summaries_flight_def flight_start_def Let_def
        split: option.splits)
  show "summaries_flight (summariesReply t r s) = flight_again t (summaries_flight s) \<or>
      summaries_flight (summariesReply t r s) = flight_finish t (summaries_flight s)" for t r s
    by (cases t; cases r)
      (simp_all add: summariesReply_def park_summaries_def finish_summaries_def summaries_flight_def
        flight_moves guarded_def toast_error_def Let_def)
qed

interpretation trash: single_flight trash_flight loadTrash trashReply
proof
  show "trash_flight (loadTrash force s) = trash_flight s \<or>
      fl_slot (trash_flight s) = None \<and>
      trash_flight (loadTrash force s) = flight_start (trash_flight s)" for force s
    by (simp add: loadTrash_def park_trash_def trash_flight_def flight_start_def Let_def
        split: option.splits)
  show "trash_flight (trashReply t r s) = flight_again t (trash_flight s) \<or>
      trash_flight (trashReply t r s) = flight_finish t (trash_flight s)" for t r s
    by (cases t; cases r)
      (simp_all add: trashReply_def park_trash_def finish_trash_def trash_flight_def
        flight_moves guarded_def Let_def)
qed

lemmas load_defs = loadDashboard_def loadReply_def load_next_def load_round_def in_flight_for_def
  set_load_object_def load_object_of_def task_is_latest_def

lemma load_object_of_set [simp]:
  "load_object_of m (set_load_object n ob st) = (if m = n then Some ob else load_object_of m st)"
  by (simp add: load_object_of_def set_load_object_def update_conv)

lemma set_load_object_frame [simp]:
  "st_generation (set_load_object n ob st) = st_generation st"
  "st_loadTasks (set_load_object n ob st) = st_loadTasks st"
  "st_nextObject (set_load_object n ob st) = st_nextObject st"
  "st_inFlightDashboardLoad (set_load_object n ob st) = st_inFlightDashboardLoad st"
  "st_latestRequest (set_load_object n ob st) = st_latestRequest st"
  "view_of (set_load_object n ob st) = view_of st"
  by (simp_all add: set_load_object_def view_of_def)

lemma load_object_of_frame [simp]:
  "load_object_of m (st\<lparr>st_loadTasks := t\<rparr>) = load_object_of m st"
  "load_object_of m (st\<lparr>st_latestRequest := l\<rparr>) = load_object_of m st"
  "load_object_of m (st\<lparr>st_nextObject := k\<rparr>) = load_object_of m st"
  "load_object_of m (st\<lparr>st_inFlightDashboardLoad := f\<rparr>) = load_object_of m st"
  "load_object_of m (st\<lparr>st_loading := b\<rparr>) = load_object_of m st"
  "load_object_of m (st\<lparr>st_loadError := b\<rparr>) = load_object_of m st"
  "load_object_of m (st\<lparr>st_conflict := b\<rparr>) = load_object_of m st"
  "load_object_of m (st\<lparr>st_dashboard := d\<rparr>) = load_object_of m st"
  by (simp_all add: load_object_of_def)

lemma in_flight_for_frame [simp]:
  "in_flight_for i (st\<lparr>st_latestRequest := l\<rparr>) = in_flight_for i st"
  by (simp add: in_flight_for_def load_object_of_def split: option.splits)

lemma load_round_frame [simp]:
  "st_generation (load_round n g i opts st) = st_generation st"
  "st_inFlightDashboardLoad (load_round n g i opts st) = st_inFlightDashboardLoad st"
  "st_latestRequest (load_round n g i opts st) = st_latestRequest st"
  "st_nextObject (load_round n g i opts st) = st_nextObject st"
  "st_dashboard (load_round n g i opts st) = st_dashboard st"
  "st_conflict (load_round n g i opts st) = st_conflict st"
  "st_loadTasks (load_round n g i opts st) = st_loadTasks st @
     [\<lparr>lt_object = n, lt_gen = g, lt_id = i, lt_currentOptions = opts\<rparr>]"
  by (simp_all add: load_round_def set_load_object_def guarded_def Let_def split: option.splits)

lemma load_round_object [simp]:
  "load_object_of m (load_round n g i opts st) =
     (if m = n then map_option (\<lambda>ob. ob\<lparr>lo_options := opts, lo_queuedOptions := None\<rparr>) (load_object_of n st)
      else load_object_of m st)"
  by (simp add: load_round_def guarded_def Let_def split: option.splits)

section \<open>A set slot has a loop behind it\<close>

definition loads_inv :: "dash_store \<Rightarrow> bool" where
  "loads_inv st \<longleftrightarrow>
     distinct (map lt_object (st_loadTasks st)) \<and>
     (\<forall>t \<in> set (st_loadTasks st). lt_gen t \<le> st_generation st \<and> lt_object t < st_nextObject st \<and>
        map_option lo_id (load_object_of (lt_object t) st) = Some (lt_id t)) \<and>
     (\<forall>n. st_inFlightDashboardLoad st = Some n \<longrightarrow>
        (\<exists>t \<in> set (st_loadTasks st). lt_object t = n \<and> lt_gen t = st_generation st))"

lemma loads_inv_initial: "loads_inv (initial_store g)"
  by (simp add: loads_inv_def initial_store_def)

lemma loads_inv_reset: "loads_inv st \<Longrightarrow> loads_inv (resetDashboardData st)"
  by (auto simp: loads_inv_def resetDashboardData_def load_object_of_def le_SucI)

lemma loads_inv_object:
  assumes "loads_inv st" "load_object_of n st = Some ob" "lo_id ob' = lo_id ob"
  shows "loads_inv (set_load_object n ob' st)"
  using assms by (auto simp: loads_inv_def)

lemma loads_inv_frame [simp]:
  "loads_inv (st\<lparr>st_latestRequest := l\<rparr>) = loads_inv st"
  "loads_inv (st\<lparr>st_loading := b\<rparr>) = loads_inv st"
  "loads_inv (st\<lparr>st_loadError := b\<rparr>) = loads_inv st"
  "loads_inv (st\<lparr>st_conflict := b\<rparr>) = loads_inv st"
  "loads_inv (st\<lparr>st_dashboard := d\<rparr>) = loads_inv st"
  by (simp_all add: loads_inv_def)

lemma loads_inv_begin:
  assumes "loads_inv st" "lo_id ob = i"
  defines "n \<equiv> st_nextObject st"
  shows "loads_inv ((load_round n (st_generation st) i opts
      (set_load_object n ob (st\<lparr>st_nextObject := n + 1\<rparr>)))\<lparr>st_inFlightDashboardLoad := Some n\<rparr>)"
proof -
  have fresh: "lt_object t \<noteq> n" if "t \<in> set (st_loadTasks st)" for t
    using assms(1) that by (auto simp: loads_inv_def n_def)
  then have "n \<notin> lt_object ` set (st_loadTasks st)" by auto
  with assms(1,2) fresh show ?thesis
    by (auto simp: loads_inv_def n_def less_SucI)
qed

lemma loadDashboard_inv:
  assumes "loads_inv st"
  shows "loads_inv (loadDashboard i options st)"
proof (cases "in_flight_for i st")
  case None
  let ?r = "normalizeDashboardLoadOptions options"
  obtain serial latest where b: "beginDashboardRequest i (st_latestRequest st) = (serial, latest)" by force
  have "loads_inv (st\<lparr>st_latestRequest := latest\<rparr>)" using assms by simp
  from loads_inv_begin [OF this, of "\<lparr>lo_id = i, lo_options = ?r, lo_queuedOptions = None,
      lo_latestRequestSerial = serial\<rparr>" i ?r]
  show ?thesis using assms b None by (simp add: loadDashboard_def Let_def)
next
  case (Some p)
  obtain n ob where p: "p = (n, ob)" by force
  with Some have ob: "load_object_of n st = Some ob"
    by (auto simp: in_flight_for_def split: option.splits if_splits)
  obtain serial latest where b: "beginDashboardRequest i (st_latestRequest st) = (serial, latest)" by force
  have "loads_inv (set_load_object n ob' (st\<lparr>st_latestRequest := latest\<rparr>))" if "lo_id ob' = lo_id ob" for ob'
    using assms ob that by (intro loads_inv_object [where ob = ob]) simp_all
  then show ?thesis
    using Some p b by (simp add: loadDashboard_def held_is_current_def Let_def)
qed

lemma loads_unpark:
  assumes "loads_inv st" "task \<in> set (st_loadTasks st)"
  defines "st' \<equiv> st\<lparr>st_loadTasks := remove1 task (st_loadTasks st)\<rparr>"
  shows "lt_object task \<notin> lt_object ` set (st_loadTasks st')"
    and "set (st_loadTasks st') \<subseteq> set (st_loadTasks st)"
    and "loads_inv (st'\<lparr>st_inFlightDashboardLoad :=
           (if st_inFlightDashboardLoad st = Some (lt_object task) then None else st_inFlightDashboardLoad st)\<rparr>)"
proof -
  from assms(1) have d: "distinct (map lt_object (st_loadTasks st))" by (simp add: loads_inv_def)
  then have sets: "set (st_loadTasks st') = set (st_loadTasks st) - {task}"
    by (simp add: st'_def distinct_map)
  show "set (st_loadTasks st') \<subseteq> set (st_loadTasks st)" using sets by auto
  show out: "lt_object task \<notin> lt_object ` set (st_loadTasks st')"
    using d assms(2) unfolding sets distinct_map by (auto simp: inj_on_def)
  have "distinct (map lt_object (st_loadTasks st'))"
    using d sets unfolding distinct_map by (auto simp: st'_def intro: inj_on_subset)
  with assms(1) sets show "loads_inv (st'\<lparr>st_inFlightDashboardLoad :=
           (if st_inFlightDashboardLoad st = Some (lt_object task) then None else st_inFlightDashboardLoad st)\<rparr>)"
    by (auto simp: loads_inv_def st'_def)
qed

lemma load_next_inv:
  assumes "loads_inv st" "task \<in> set (st_loadTasks st)"
  shows "loads_inv (load_next (lt_object task) (lt_gen task) (lt_id task)
           (st\<lparr>st_loadTasks := remove1 task (st_loadTasks st)\<rparr>))"
proof -
  let ?s = "st\<lparr>st_loadTasks := remove1 task (st_loadTasks st)\<rparr>"
  note facts = loads_unpark [OF assms]
  obtain ob where ob: "load_object_of (lt_object task) st = Some ob" "lo_id ob = lt_id task"
    and le: "lt_gen task \<le> st_generation st" "lt_object task < st_nextObject st"
    using assms by (fastforce simp: loads_inv_def)
  show ?thesis
  proof (cases "lo_queuedOptions ob")
    case None
    with ob facts(3) show ?thesis by (simp add: load_next_def split: if_splits)
  next
    case (Some opts)
    have "\<exists>t \<in> set (st_loadTasks ?s) \<union> {task}. lt_object t = n \<and> lt_gen t = st_generation st"
      if "st_inFlightDashboardLoad st = Some n" for n
      using assms that by (auto simp: loads_inv_def distinct_map)
    with ob le facts(1,2) assms(1) Some show ?thesis
      by (auto simp: load_next_def loads_inv_def distinct_map
          intro: inj_on_subset dest: notin_set_remove1)
  qed
qed

lemma load_next_inv_written:
  assumes "loads_inv (s\<lparr>st_loadTasks := ts\<rparr>)" "task \<in> set ts" "st_loadTasks s = remove1 task ts"
    and "g = lt_gen task"
  shows "loads_inv (load_next (lt_object task) g (lt_id task) s)"
proof -
  have "s = (s\<lparr>st_loadTasks := ts\<rparr>)\<lparr>st_loadTasks := remove1 task ts\<rparr>" using assms(3) by simp
  with load_next_inv [OF assms(1), of task] assms(2,4) show ?thesis by simp
qed

lemma loadReply_inv:
  assumes "loads_inv st" "task \<in> set (st_loadTasks st)"
  shows "loads_inv (loadReply task reply st)"
proof -
  note step = load_next_inv_written [where ts = "st_loadTasks st", OF _ assms(2)]
  have self: "st\<lparr>st_loadTasks := st_loadTasks st\<rparr> = st" by simp
  show ?thesis
    by (cases reply) (auto simp: loadReply_def Let_def guarded_def assms(1) self intro!: step)
qed

section \<open>What a reply may do to the board shown\<close>

lemma load_next_shown [simp]:
  "st_dashboard (load_next n g i st) = st_dashboard st"
  "st_conflict (load_next n g i st) = st_conflict st"
  by (simp_all add: load_next_def split: option.splits)

text \<open>C38. A board is replaced only by what the newest request asked for: an answer changes the board
  shown only when its load belongs to the current session and is for the board requested last, and
  then it is either that answer, or no board at all because a background refresh that was told to
  surface it learned that access is gone (403 or 404).\<close>

theorem only_latest_load_replaces_board:
  assumes "st_dashboard (loadReply task reply st) \<noteq> st_dashboard st"
  shows "lt_gen task = st_generation st \<and> map_option fst (st_latestRequest st) = Some (lt_id task) \<and>
     ((\<exists>d. reply = Inr d \<and> st_dashboard (loadReply task reply st) = Some d) \<or>
      (\<exists>code m. reply = Inl (ApiErr code m) \<and> code \<in> {403, 404} \<and>
         background (lt_currentOptions task) \<and> surfaceAccessLoss (lt_currentOptions task) \<and>
         st_dashboard (loadReply task reply st) = None))"
proof -
  let ?s = "st\<lparr>st_loadTasks := remove1 task (st_loadTasks st)\<rparr>"
  have latest: "task_is_latest task ?s" and gen: "lt_gen task = st_generation st"
    using assms by (auto simp: loadReply_def Let_def guarded_def split: sum.splits if_splits)
  then have "map_option fst (st_latestRequest st) = Some (lt_id task)"
    by (auto simp: task_is_latest_def isLatestDashboardRequest_def split: option.splits)
  moreover have "(\<exists>d. reply = Inr d \<and> st_dashboard (loadReply task reply st) = Some d) \<or>
      (\<exists>code m. reply = Inl (ApiErr code m) \<and> code \<in> {403, 404} \<and>
         background (lt_currentOptions task) \<and> surfaceAccessLoss (lt_currentOptions task) \<and>
         st_dashboard (loadReply task reply st) = None)"
  proof (cases reply)
    case (Inr d)
    with latest gen show ?thesis by (simp add: loadReply_def Let_def)
  next
    case (Inl err)
    with assms latest gen show ?thesis
      by (cases err) (auto simp: loadReply_def Let_def guarded_def split: if_splits)
  qed
  ultimately show ?thesis using gen by simp
qed

section \<open>A request that arrives during a load\<close>

lemma loadReply_tasks:
  "st_loadTasks (loadReply task reply st) = remove1 task (st_loadTasks st) @
     (case Option.bind (load_object_of (lt_object task) st) lo_queuedOptions of
        Some opts \<Rightarrow> [task\<lparr>lt_currentOptions := opts\<rparr>] | None \<Rightarrow> [])"
  by (cases task; cases reply)
    (simp_all add: loadReply_def load_next_def guarded_def Let_def split: option.split)

lemma loadDashboard_joins:
  assumes "in_flight_for i st = Some (n, ob)"
    and "background (normalizeDashboardLoadOptions options) \<or>
         \<not> dashboardLoadSatisfiesRequest (lo_options ob) (normalizeDashboardLoadOptions options)"
  shows "st_loadTasks (loadDashboard i options st) = st_loadTasks st \<and>
     Option.bind (load_object_of n (loadDashboard i options st)) lo_queuedOptions =
       Some (mergeDashboardLoadOptions (lo_queuedOptions ob) (normalizeDashboardLoadOptions options))"
  using assms by (auto simp: loadDashboard_def held_is_current_def Let_def split: prod.split)

text \<open>C39. A request that arrives while its board is being read is not answered by that read when it
  wants fresher or different data: whatever the read comes back with, the loop sends another one
  after it, with options that answer this request and every request queued before it.\<close>

theorem request_during_load_is_reread:
  assumes "in_flight_for i st = Some (n, ob)" and "task \<in> set (st_loadTasks st)"
    and "lt_object task = n"
    and "background (normalizeDashboardLoadOptions options) \<or>
         \<not> dashboardLoadSatisfiesRequest (lo_options ob) (normalizeDashboardLoadOptions options)"
  shows "\<exists>opts. st_loadTasks (loadReply task reply (loadDashboard i options st)) =
       remove1 task (st_loadTasks st) @ [task\<lparr>lt_currentOptions := opts\<rparr>] \<and>
     dashboardLoadSatisfiesRequest opts (normalizeDashboardLoadOptions options) \<and>
     (\<forall>q. lo_queuedOptions ob = Some q \<longrightarrow> dashboardLoadSatisfiesRequest opts q)"
  using loadDashboard_joins [OF assms(1,4)] assms(3)
  by (cases "lo_queuedOptions ob")
    (auto simp: loadReply_tasks mergeDashboardLoadOptions_def dashboardLoadSatisfiesRequest_def)

definition foreground :: load_options_in where
  "foreground = \<lparr>in_background = None, in_surfaceAccessLoss = None\<rparr>"

definition in_the_background :: load_options_in where
  "in_the_background = \<lparr>in_background = Some True, in_surfaceAccessLoss = None\<rparr>"

lemmas load_run_simps = loadDashboard_def loadReply_def load_next_def load_round_def in_flight_for_def
  set_load_object_def load_object_of_def task_is_latest_def held_is_current_def guarded_def
  normalizeDashboardLoadOptions_def beginDashboardRequest_def isLatestDashboardRequest_def
  dashboardLoadSatisfiesRequest_def mergeDashboardLoadOptions_def initial_store_def
  foreground_def in_the_background_def Let_def

lemma only_latest_load_replaces_board_witness:
  "map_option fst (st_latestRequest (loadDashboard ''A'' foreground (initial_store 0))) = Some ''A''"
proof -
  let ?s = "loadDashboard ''A'' foreground (initial_store 0)"
  have "st_dashboard (loadReply (hd (st_loadTasks ?s)) (Inr (board ''A'' 1 [])) ?s) \<noteq> st_dashboard ?s"
    by (simp add: load_run_simps)
  from only_latest_load_replaces_board [OF this] have
    "map_option fst (st_latestRequest ?s) = Some (lt_id (hd (st_loadTasks ?s)))" by simp
  then show ?thesis by (simp add: load_run_simps)
qed

lemma request_during_load_is_reread_witness:
  "let st = loadDashboard ''A'' foreground (initial_store 0); task = hd (st_loadTasks st)
   in length (st_loadTasks (loadReply task (Inr (board ''A'' 1 [])) (loadDashboard ''A'' in_the_background st))) = 1"
proof -
  let ?s = "loadDashboard ''A'' foreground (initial_store 0)"
  let ?t = "hd (st_loadTasks ?s)"
  have task: "st_loadTasks ?s = [?t]" and obj: "lt_object ?t = 0"
    by (simp_all add: load_run_simps)
  obtain ob where fl: "in_flight_for ''A'' ?s = Some (0, ob)"
    by (simp add: load_run_simps)
  have mem: "?t \<in> set (st_loadTasks ?s)" by (subst task) simp
  have bg: "background (normalizeDashboardLoadOptions in_the_background) \<or>
      \<not> dashboardLoadSatisfiesRequest (lo_options ob) (normalizeDashboardLoadOptions in_the_background)"
    by (simp add: in_the_background_def normalizeDashboardLoadOptions_def)
  from request_during_load_is_reread [OF fl mem obj bg, of "Inr (board ''A'' 1 [])"]
  obtain opts where "st_loadTasks (loadReply ?t (Inr (board ''A'' 1 [])) (loadDashboard ''A'' in_the_background ?s))
      = remove1 ?t (st_loadTasks ?s) @ [?t\<lparr>lt_currentOptions := opts\<rparr>]" by blast
  then show ?thesis unfolding Let_def by (subst (asm) task) simp
qed

section \<open>Two races the guards leave open\<close>

text \<open>A load the user navigated away from can leave the loading flag set for good. While board A is
  refreshed in the background a foreground load of A is requested, then board B is opened and
  arrives; the loop of A, whose answer is no longer wanted, still starts its queued foreground round,
  and when that is dropped too no request is left, B is shown and \<open>loading\<close> stays true.\<close>

theorem abandoned_load_leaves_loading_set:
  "let a = board ''A'' 3 []; b = board ''B'' 5 [];
       s1 = loadDashboard ''A'' in_the_background ((initial_store 0)\<lparr>st_dashboard := Some a\<rparr>);
       s2 = loadDashboard ''A'' foreground s1;
       s3 = loadDashboard ''B'' foreground s2;
       s4 = loadReply (last (st_loadTasks s3)) (Inr b) s3;
       s5 = loadReply (hd (st_loadTasks s4)) (Inr a) s4;
       s6 = loadReply (hd (st_loadTasks s5)) (Inr a) s5
   in \<not> st_loading s4 \<and> map_option d_id (st_dashboard s6) = Some ''B'' \<and>
      st_loadTasks s6 = [] \<and> st_loading s6"
  by code_simp

text \<open>The reload flag of the listing is one module variable for every session, so a loop left over
  from the session before can take it. A reload forced during the new session's own load is then
  not made: the loop ends with the rows of the read that was already under way, and the extra read
  is the old loop's, whose rows are dropped.\<close>

theorem old_session_takes_forced_reload:
  "let s1 = resetDashboardData (loadSummaries False (initial_store 0));
       s2 = loadSummaries True (loadSummaries False s1);
       s3 = summariesReply (0, 0) (Inr []) s2;
       s4 = summariesReply (1, 1) (Inr [sample_summary ''before'']) s3;
       s5 = summariesReply (0, 0) (Inr [sample_summary ''after'']) s4
   in st_queuedSummariesForceReload s2 \<and> st_inFlightSummariesLoad s4 = None \<and>
      map s_id (st_summaries s5) = [''before''] \<and> st_summariesLoaded s5 \<and> st_summaryTasks s5 = []"
  by code_simp

end
