(* ===== verification/SessionGuard.thy ===== *)
theory SessionGuard
  imports Prelude
begin

text \<open>
  The contract of \<open>sessionGuard\<close> (\<open>frontend/src/stores/sessionGeneration.ts\<close> and its users): a store
  knows its session's generation, an answer belongs to the generation its request was made in
  (\<open>origin\<close>), and an answer of another generation leaves what pages see as it is. A store proves
  this of one step; the locale gives it for any number of late answers in any order.
\<close>

definition bumpSessionGeneration :: "nat \<Rightarrow> nat" where
  "bumpSessionGeneration generation = generation + 1"

primrec stale_run ::
    "('e \<Rightarrow> 's \<Rightarrow> 's) \<Rightarrow> ('s \<Rightarrow> nat) \<Rightarrow> ('e \<Rightarrow> 's \<Rightarrow> nat option) \<Rightarrow> 'e list \<Rightarrow> 's \<Rightarrow> bool" where
  "stale_run step gen origin [] s = True"
| "stale_run step gen origin (e # es) s =
     ((case origin e s of None \<Rightarrow> False | Some g \<Rightarrow> g \<noteq> gen s) \<and>
      stale_run step gen origin es (step e s))"

locale guarded_store =
  fixes step :: "'e \<Rightarrow> 's \<Rightarrow> 's"
    and gen :: "'s \<Rightarrow> nat"
    and origin :: "'e \<Rightarrow> 's \<Rightarrow> nat option"
    and shown :: "'s \<Rightarrow> 'v"
  assumes stale_shown: "origin e s = Some g \<Longrightarrow> g \<noteq> gen s \<Longrightarrow> shown (step e s) = shown s"
    and stale_gen: "origin e s = Some g \<Longrightarrow> g \<noteq> gen s \<Longrightarrow> gen (step e s) = gen s"
begin

lemma late_answers_unseen:
  "stale_run step gen origin es s \<Longrightarrow>
     shown (fold step es s) = shown s \<and> gen (fold step es s) = gen s"
proof (induction es arbitrary: s)
  case (Cons e es)
  from Cons.prems obtain g where "origin e s = Some g" "g \<noteq> gen s"
    by (auto split: option.splits)
  with Cons show ?case by (simp add: stale_shown stale_gen)
qed simp

end

end
