(* ===== verification/DashboardMachine.thy ===== *)
theory DashboardMachine
  imports DashboardFrames SessionGuard
begin

text \<open>
  The dashboard store as one machine: every call a page makes, every answer that arrives, every
  frame, timer and sign-out is a \<open>dash_event\<close>, and \<open>dash_step\<close> is the store's reaction. Answers
  name the parked continuation they resume by its position, so answers may arrive in any order; an
  action's answer carries the session its call was made in.

  Two results hold of every run. The invariant: at most one layout drain and one reader per listing
  and session, a waiting layout always has a drain to take it up, a set in-flight slot always has a
  loop behind it, and the listing's spinner is on exactly while its load is in flight. And session
  isolation: whatever arrives for an older session, no page sees it. The last section has the runs in
  which what the guards do not cover goes wrong.
\<close>

datatype action_answer =
    CreateDone "dashboard_created reply"
  | DeleteDone string "unit reply"
  | LeaveDone string "unit reply"
  | RestoreDone string "dashboard_summary reply"
  | PurgeDone string "unit reply"
  | FavoriteDone string bool "user reply"
  | RenameDone string "dashboard_summary reply"
  | TransferDone string "dashboard_summary reply"
  | AddWidgetDone "widget_added reply"
  | RemoveWidgetDone "dashboard reply"
  | UpdateWidgetDone string "dashboard_widget reply"

fun settle_action ::
    "(string \<Rightarrow> string \<Rightarrow> int) \<Rightarrow> nat \<Rightarrow> action_answer \<Rightarrow> dash_store \<Rightarrow> dash_store" where
  "settle_action lc g (CreateDone r) st = snd (createDashboardReply g r st)"
| "settle_action lc g (DeleteDone i r) st = snd (deleteDashboardReply g i r st)"
| "settle_action lc g (LeaveDone i r) st = snd (leaveDashboardReply g i r st)"
| "settle_action lc g (RestoreDone i r) st = snd (restoreDashboardReply lc g i r st)"
| "settle_action lc g (PurgeDone i r) st = snd (purgeDashboardReply g i r st)"
| "settle_action lc g (FavoriteDone i c r) st = snd (toggleFavoriteReply g i c r st)"
| "settle_action lc g (RenameDone i r) st = snd (renameDashboardReply lc g i r st)"
| "settle_action lc g (TransferDone i r) st = snd (transferDashboardReply lc g i r st)"
| "settle_action lc g (AddWidgetDone r) st = fst (snd (addWidgetReply g r st))"
| "settle_action lc g (RemoveWidgetDone r) st = snd (removeWidgetReply g r st)"
| "settle_action lc g (UpdateWidgetDone w r) st = snd (updateWidgetReply g w r st)"

datatype dash_event =
    LoadSummaries bool
  | LoadTrash bool
  | LoadDashboard string load_options_in
  | SaveLayout "layout_item list" "layout_gesture option"
  | ResolveConflict
  | DashboardFrame resource_event
  | ContentFrame sse_event
  | SummariesTimer
  | DashboardTimer
  | SetUser "user option"
  | SetConnection connection_status
  | Reset
  | SummariesAnswer nat "dashboard_summary list reply"
  | TrashAnswer nat "trashed_dashboard list reply"
  | LoadAnswer nat "dashboard reply"
  | PutAnswer nat "put_result reply"
  | RereadAnswer nat "dashboard reply"
  | ActionAnswer nat action_answer

text \<open>Resume the continuation at a position, if there is one.\<close>

definition resume :: "'t list \<Rightarrow> nat \<Rightarrow> ('t \<Rightarrow> dash_store \<Rightarrow> dash_store) \<Rightarrow> dash_store \<Rightarrow> dash_store" where
  "resume tasks k f st = (if k < length tasks then f (tasks ! k) st else st)"

fun dash_step ::
    "(string \<Rightarrow> string \<Rightarrow> int) \<Rightarrow> string \<Rightarrow> dash_event \<Rightarrow> dash_store \<Rightarrow> dash_store" where
  "dash_step lc client (LoadSummaries force) st = loadSummaries force st"
| "dash_step lc client (LoadTrash force) st = loadTrash force st"
| "dash_step lc client (LoadDashboard i opts) st = loadDashboard i opts st"
| "dash_step lc client (SaveLayout layout gesture) st = saveLayout layout gesture st"
| "dash_step lc client ResolveConflict st = resolveConflict st"
| "dash_step lc client (DashboardFrame ev) st = handleDashboardEvent lc client ev st"
| "dash_step lc client (ContentFrame ev) st = handleContentEvent ev st"
| "dash_step lc client SummariesTimer st = summariesTimer st"
| "dash_step lc client DashboardTimer st = dashboardTimer st"
| "dash_step lc client (SetUser u) st = st\<lparr>st_user := u\<rparr>"
| "dash_step lc client (SetConnection c) st = st\<lparr>st_connection := c\<rparr>"
| "dash_step lc client Reset st = resetDashboardData st"
| "dash_step lc client (SummariesAnswer k r) st = resume (st_summaryTasks st) k (\<lambda>t. summariesReply t r) st"
| "dash_step lc client (TrashAnswer k r) st = resume (st_trashTasks st) k (\<lambda>t. trashReply t r) st"
| "dash_step lc client (LoadAnswer k r) st = resume (st_loadTasks st) k (\<lambda>t. loadReply t r) st"
| "dash_step lc client (PutAnswer k r) st = resume (st_drains st) k (\<lambda>d. putReply d r) st"
| "dash_step lc client (RereadAnswer k r) st = resume (st_drains st) k (\<lambda>d. rebaseReply d r) st"
| "dash_step lc client (ActionAnswer g a) st = settle_action lc g a st"

section \<open>What each operation leaves alone\<close>

definition drain_part :: "dash_store \<Rightarrow> nat \<times> drain list \<times> bool \<times> pending_save option" where
  "drain_part st = (st_generation st, st_drains st, st_layoutSaveInFlight st, st_pendingLayoutSave st)"

definition loads_part :: "dash_store \<Rightarrow> nat \<times> load_task list \<times> (nat \<times> load_object) list \<times> nat option" where
  "loads_part st = (st_generation st, st_loadTasks st, st_loadObjects st, st_inFlightDashboardLoad st)"

definition summaries_part :: "dash_store \<Rightarrow> nat \<times> (nat \<times> nat) list \<times> nat option \<times> bool" where
  "summaries_part st = (st_generation st, st_summaryTasks st, st_inFlightSummariesLoad st, st_summariesLoading st)"

definition trash_part :: "dash_store \<Rightarrow> nat \<times> (nat \<times> nat) list \<times> nat option" where
  "trash_part st = (st_generation st, st_trashTasks st, st_inFlightTrashLoad st)"

definition timers_part :: "dash_store \<Rightarrow> unit debounce \<times> (string \<times> load_options_in) debounce" where
  "timers_part st = (st_summariesRefresh st, st_dashboardRefresh st)"

lemmas parts = drain_part_def loads_part_def summaries_part_def trash_part_def timers_part_def

definition summaries_inv :: "dash_store \<Rightarrow> bool" where
  "summaries_inv st \<longleftrightarrow> flight_inv (summaries_flight st) \<and>
     (st_summariesLoading st \<longleftrightarrow> st_inFlightSummariesLoad st \<noteq> None)"

definition trash_inv :: "dash_store \<Rightarrow> bool" where
  "trash_inv st \<longleftrightarrow> flight_inv (trash_flight st)"

definition timers_inv :: "dash_store \<Rightarrow> bool" where
  "timers_inv st \<longleftrightarrow> debounce_inv (st_summariesRefresh st) \<and> debounce_inv (st_dashboardRefresh st)"

definition store_inv :: "dash_store \<Rightarrow> bool" where
  "store_inv st \<longleftrightarrow> drain_inv st \<and> loads_inv st \<and> summaries_inv st \<and> trash_inv st \<and> timers_inv st"

lemma drain_inv_part: "drain_part s = drain_part t \<Longrightarrow> drain_inv t \<Longrightarrow> drain_inv s"
  by (simp add: drain_part_def drain_inv_def live_def)

lemma loads_inv_part:
  "loads_part s = loads_part t \<Longrightarrow> st_nextObject t \<le> st_nextObject s \<Longrightarrow> loads_inv t \<Longrightarrow> loads_inv s"
  by (auto simp: loads_part_def loads_inv_def load_object_of_def intro: less_le_trans)

lemma summaries_inv_part:
  assumes "summaries_part s = summaries_part t" "st_nextObject t \<le> st_nextObject s" "summaries_inv t"
  shows "summaries_inv s"
proof -
  have "summaries_flight s = (summaries_flight t)\<lparr>fl_next := st_nextObject s\<rparr>"
    using assms(1) by (simp add: summaries_part_def summaries_flight_def)
  with assms next_inv [of "summaries_flight t" "st_nextObject s"] show ?thesis
    by (simp add: summaries_inv_def summaries_part_def) (simp add: summaries_flight_def)
qed

lemma trash_inv_part:
  assumes "trash_part s = trash_part t" "st_nextObject t \<le> st_nextObject s" "trash_inv t"
  shows "trash_inv s"
proof -
  have "trash_flight s = (trash_flight t)\<lparr>fl_next := st_nextObject s\<rparr>"
    using assms(1) by (simp add: trash_part_def trash_flight_def)
  with assms next_inv [of "trash_flight t" "st_nextObject s"] show ?thesis
    by (simp add: trash_inv_def) (simp add: trash_flight_def)
qed

lemma timers_inv_part: "timers_part s = timers_part t \<Longrightarrow> timers_inv t \<Longrightarrow> timers_inv s"
  by (simp add: timers_part_def timers_inv_def)

text \<open>A write to what pages see, and to nothing else.\<close>

definition only_view :: "dash_store \<Rightarrow> dash_store \<Rightarrow> bool" where
  "only_view s t \<longleftrightarrow> drain_part s = drain_part t \<and> loads_part s = loads_part t \<and>
     summaries_part s = summaries_part t \<and> trash_part s = trash_part t \<and> timers_part s = timers_part t \<and>
     st_nextObject s = st_nextObject t"

lemma only_view_inv: "only_view s t \<Longrightarrow> store_inv t \<Longrightarrow> store_inv s"
  unfolding only_view_def store_inv_def
  using drain_inv_part loads_inv_part summaries_inv_part trash_inv_part timers_inv_part by (metis order_refl)

lemma only_view_if [simp]: "only_view s s" "only_view (guarded g f s) s \<longleftrightarrow> g \<noteq> st_generation s \<or> only_view (f s) s"
  by (simp_all add: only_view_def guarded_def)

lemmas summaries_ops = loadSummaries_def summariesReply_def park_summaries_def finish_summaries_def
lemmas trash_ops = loadTrash_def trashReply_def park_trash_def finish_trash_def
lemmas drain_ops = saveLayout_def drain_next_def finish_drain_def putReply_def rebaseReply_def

lemma summaries_ops_frame [simp]:
  "drain_part (loadSummaries force st) = drain_part st"
  "loads_part (loadSummaries force st) = loads_part st"
  "trash_part (loadSummaries force st) = trash_part st"
  "timers_part (loadSummaries force st) = timers_part st"
  "st_nextObject st \<le> st_nextObject (loadSummaries force st)"
  "drain_part (summariesReply t r st) = drain_part st"
  "loads_part (summariesReply t r st) = loads_part st"
  "trash_part (summariesReply t r st) = trash_part st"
  "timers_part (summariesReply t r st) = timers_part st"
  "st_nextObject (summariesReply t r st) = st_nextObject st"
  by (auto simp: summaries_ops parts guarded_def toast_error_def Let_def split: option.split prod.split sum.split)

lemma trash_ops_frame [simp]:
  "drain_part (loadTrash force st) = drain_part st"
  "loads_part (loadTrash force st) = loads_part st"
  "summaries_part (loadTrash force st) = summaries_part st"
  "timers_part (loadTrash force st) = timers_part st"
  "st_nextObject st \<le> st_nextObject (loadTrash force st)"
  "drain_part (trashReply t r st) = drain_part st"
  "loads_part (trashReply t r st) = loads_part st"
  "summaries_part (trashReply t r st) = summaries_part st"
  "timers_part (trashReply t r st) = timers_part st"
  "st_nextObject (trashReply t r st) = st_nextObject st"
  by (auto simp: trash_ops parts guarded_def Let_def split: option.split prod.split sum.split)

lemma load_round_parts [simp]:
  "drain_part (load_round n g i opts st) = drain_part st"
  "summaries_part (load_round n g i opts st) = summaries_part st"
  "trash_part (load_round n g i opts st) = trash_part st"
  "timers_part (load_round n g i opts st) = timers_part st"
  by (simp_all add: load_round_def set_load_object_def parts guarded_def Let_def split: option.split)

lemma load_next_parts [simp]:
  "drain_part (load_next n g i st) = drain_part st"
  "summaries_part (load_next n g i st) = summaries_part st"
  "trash_part (load_next n g i st) = trash_part st"
  "timers_part (load_next n g i st) = timers_part st"
  "st_nextObject (load_next n g i st) = st_nextObject st"
  "st_generation (load_next n g i st) = st_generation st"
  by (simp_all add: load_next_def split: option.split) (simp_all add: parts)

lemma part_writes [simp]:
  "drain_part (st\<lparr>st_latestRequest := l\<rparr>) = drain_part st"
  "summaries_part (st\<lparr>st_latestRequest := l\<rparr>) = summaries_part st"
  "trash_part (st\<lparr>st_latestRequest := l\<rparr>) = trash_part st"
  "timers_part (st\<lparr>st_latestRequest := l\<rparr>) = timers_part st"
  "drain_part (set_load_object n ob st) = drain_part st"
  "summaries_part (set_load_object n ob st) = summaries_part st"
  "trash_part (set_load_object n ob st) = trash_part st"
  "timers_part (set_load_object n ob st) = timers_part st"
  "drain_part (st\<lparr>st_nextObject := k\<rparr>) = drain_part st"
  "summaries_part (st\<lparr>st_nextObject := k\<rparr>) = summaries_part st"
  "trash_part (st\<lparr>st_nextObject := k\<rparr>) = trash_part st"
  "timers_part (st\<lparr>st_nextObject := k\<rparr>) = timers_part st"
  "drain_part (st\<lparr>st_inFlightDashboardLoad := f\<rparr>) = drain_part st"
  "summaries_part (st\<lparr>st_inFlightDashboardLoad := f\<rparr>) = summaries_part st"
  "trash_part (st\<lparr>st_inFlightDashboardLoad := f\<rparr>) = trash_part st"
  "timers_part (st\<lparr>st_inFlightDashboardLoad := f\<rparr>) = timers_part st"
  "drain_part (st\<lparr>st_loading := b\<rparr>) = drain_part st"
  "summaries_part (st\<lparr>st_loading := b\<rparr>) = summaries_part st"
  "trash_part (st\<lparr>st_loading := b\<rparr>) = trash_part st"
  "timers_part (st\<lparr>st_loading := b\<rparr>) = timers_part st"
  by (simp_all add: parts set_load_object_def)

lemma loadDashboard_frame [simp]:
  "drain_part (loadDashboard i opts st) = drain_part st"
  "summaries_part (loadDashboard i opts st) = summaries_part st"
  "trash_part (loadDashboard i opts st) = trash_part st"
  "timers_part (loadDashboard i opts st) = timers_part st"
  "st_nextObject st \<le> st_nextObject (loadDashboard i opts st)"
  by (simp_all add: loadDashboard_def Let_def split: option.split prod.split)

lemma loadReply_frame [simp]:
  "drain_part (loadReply t r st) = drain_part st"
  "summaries_part (loadReply t r st) = summaries_part st"
  "trash_part (loadReply t r st) = trash_part st"
  "timers_part (loadReply t r st) = timers_part st"
  "st_nextObject (loadReply t r st) = st_nextObject st"
  by (simp_all add: loadReply_def guarded_def Let_def split: sum.split) (simp_all add: parts)

lemma drain_next_frame [simp]:
  "loads_part (drain_next g st) = loads_part st"
  "summaries_part (drain_next g st) = summaries_part st"
  "trash_part (drain_next g st) = trash_part st"
  "timers_part (drain_next g st) = timers_part st"
  "st_nextObject (drain_next g st) = st_nextObject st"
  by (simp_all add: drain_next_def finish_drain_def guarded_def parts Let_def split: option.split)

lemma finish_drain_parts [simp]:
  "loads_part (finish_drain g st) = loads_part st"
  "summaries_part (finish_drain g st) = summaries_part st"
  "trash_part (finish_drain g st) = trash_part st"
  "timers_part (finish_drain g st) = timers_part st"
  "st_nextObject (finish_drain g st) = st_nextObject st"
  by (simp_all add: finish_drain_def guarded_def parts)

lemma drain_writes [simp]:
  "loads_part (st\<lparr>st_pendingLayoutSave := p\<rparr>) = loads_part st"
  "summaries_part (st\<lparr>st_pendingLayoutSave := p\<rparr>) = summaries_part st"
  "trash_part (st\<lparr>st_pendingLayoutSave := p\<rparr>) = trash_part st"
  "timers_part (st\<lparr>st_pendingLayoutSave := p\<rparr>) = timers_part st"
  "loads_part (st\<lparr>st_layoutSaveInFlight := b\<rparr>) = loads_part st"
  "summaries_part (st\<lparr>st_layoutSaveInFlight := b\<rparr>) = summaries_part st"
  "trash_part (st\<lparr>st_layoutSaveInFlight := b\<rparr>) = trash_part st"
  "timers_part (st\<lparr>st_layoutSaveInFlight := b\<rparr>) = timers_part st"
  "loads_part (st\<lparr>st_drains := ds\<rparr>) = loads_part st"
  "summaries_part (st\<lparr>st_drains := ds\<rparr>) = summaries_part st"
  "trash_part (st\<lparr>st_drains := ds\<rparr>) = trash_part st"
  "timers_part (st\<lparr>st_drains := ds\<rparr>) = timers_part st"
  by (simp_all add: parts)

lemma view_writes [simp]:
  "drain_part (st\<lparr>st_dashboard := d\<rparr>) = drain_part st"
  "loads_part (st\<lparr>st_dashboard := d\<rparr>) = loads_part st"
  "summaries_part (st\<lparr>st_dashboard := d\<rparr>) = summaries_part st"
  "trash_part (st\<lparr>st_dashboard := d\<rparr>) = trash_part st"
  "timers_part (st\<lparr>st_dashboard := d\<rparr>) = timers_part st"
  "drain_part (st\<lparr>st_conflict := b\<rparr>) = drain_part st"
  "loads_part (st\<lparr>st_conflict := b\<rparr>) = loads_part st"
  "summaries_part (st\<lparr>st_conflict := b\<rparr>) = summaries_part st"
  "trash_part (st\<lparr>st_conflict := b\<rparr>) = trash_part st"
  "timers_part (st\<lparr>st_conflict := b\<rparr>) = timers_part st"
  "drain_part (toast_error m st) = drain_part st"
  "loads_part (toast_error m st) = loads_part st"
  "summaries_part (toast_error m st) = summaries_part st"
  "trash_part (toast_error m st) = trash_part st"
  "timers_part (toast_error m st) = timers_part st"
  "st_nextObject (toast_error m st) = st_nextObject st"
  by (simp_all add: parts toast_error_def)

lemma layout_ops_frame [simp]:
  "loads_part (saveLayout layout gesture st) = loads_part st"
  "summaries_part (saveLayout layout gesture st) = summaries_part st"
  "trash_part (saveLayout layout gesture st) = trash_part st"
  "timers_part (saveLayout layout gesture st) = timers_part st"
  "st_nextObject (saveLayout layout gesture st) = st_nextObject st"
  "loads_part (putReply dr put st) = loads_part st"
  "summaries_part (putReply dr put st) = summaries_part st"
  "trash_part (putReply dr put st) = trash_part st"
  "timers_part (putReply dr put st) = timers_part st"
  "st_nextObject (putReply dr put st) = st_nextObject st"
  "loads_part (rebaseReply dr reread st) = loads_part st"
  "summaries_part (rebaseReply dr reread st) = summaries_part st"
  "trash_part (rebaseReply dr reread st) = trash_part st"
  "timers_part (rebaseReply dr reread st) = timers_part st"
  "st_nextObject (rebaseReply dr reread st) = st_nextObject st"
  by (simp_all add: saveLayout_def putReply_def rebaseReply_def guarded_def Let_def
      split: option.split drain_phase.split sum.split put_result.split)

section \<open>The invariant of every run\<close>

lemma loadSummaries_store: "store_inv st \<Longrightarrow> store_inv (loadSummaries force st)"
  unfolding store_inv_def
  using summaries.request_inv [of st force]
  by (auto simp: summaries_inv_def intro: drain_inv_part loads_inv_part trash_inv_part timers_inv_part)
    (auto simp: loadSummaries_def park_summaries_def Let_def split: option.splits if_splits)

lemma summariesReply_loading:
  assumes "summaries_inv st" "t \<in> set (st_summaryTasks st)"
  shows "st_summariesLoading (summariesReply t r st) \<longleftrightarrow> st_inFlightSummariesLoad (summariesReply t r st) \<noteq> None"
proof -
  have "snd t = st_generation st \<longleftrightarrow> st_inFlightSummariesLoad st = Some (fst t)"
    using slot_task [of "summaries_flight st" t] assms by (simp add: summaries_inv_def summaries_flight_def)
  with assms(1) show ?thesis
    by (cases t; cases r)
      (auto simp: summariesReply_def park_summaries_def finish_summaries_def guarded_def toast_error_def
        Let_def summaries_inv_def)
qed

lemma summariesReply_store:
  assumes "store_inv st" "t \<in> set (st_summaryTasks st)"
  shows "store_inv (summariesReply t r st)"
proof -
  have "flight_inv (summaries_flight (summariesReply t r st))"
    using assms by (intro summaries.answer_inv) (simp_all add: store_inv_def summaries_inv_def summaries_flight_def)
  with assms summariesReply_loading [of st t r] show ?thesis
    unfolding store_inv_def
    by (auto simp: summaries_inv_def intro: drain_inv_part loads_inv_part trash_inv_part timers_inv_part)
qed

lemma loadTrash_store: "store_inv st \<Longrightarrow> store_inv (loadTrash force st)"
  unfolding store_inv_def
  using trash.request_inv [of st force]
  by (auto simp: trash_inv_def intro: drain_inv_part loads_inv_part summaries_inv_part timers_inv_part)

lemma trashReply_store:
  assumes "store_inv st" "t \<in> set (st_trashTasks st)"
  shows "store_inv (trashReply t r st)"
proof -
  have "trash_inv (trashReply t r st)"
    using assms unfolding trash_inv_def
    by (intro trash.answer_inv) (simp_all add: store_inv_def trash_inv_def trash_flight_def)
  with assms show ?thesis
    unfolding store_inv_def
    by (auto intro: drain_inv_part loads_inv_part summaries_inv_part timers_inv_part)
qed

lemma loadDashboard_store: "store_inv st \<Longrightarrow> store_inv (loadDashboard i opts st)"
  unfolding store_inv_def
  by (auto intro: drain_inv_part loadDashboard_inv summaries_inv_part trash_inv_part timers_inv_part)

lemma loadReply_store: "store_inv st \<Longrightarrow> t \<in> set (st_loadTasks st) \<Longrightarrow> store_inv (loadReply t r st)"
  unfolding store_inv_def
  by (auto intro: drain_inv_part loadReply_inv summaries_inv_part trash_inv_part timers_inv_part)

lemma saveLayout_store: "store_inv st \<Longrightarrow> store_inv (saveLayout layout gesture st)"
  unfolding store_inv_def
  by (auto intro: saveLayout_inv loads_inv_part summaries_inv_part trash_inv_part timers_inv_part)

lemma putReply_store: "store_inv st \<Longrightarrow> dr \<in> set (st_drains st) \<Longrightarrow> store_inv (putReply dr r st)"
  unfolding store_inv_def
  by (auto intro: putReply_inv loads_inv_part summaries_inv_part trash_inv_part timers_inv_part)

lemma rebaseReply_store: "store_inv st \<Longrightarrow> dr \<in> set (st_drains st) \<Longrightarrow> store_inv (rebaseReply dr r st)"
  unfolding store_inv_def
  by (auto intro: rebaseReply_inv loads_inv_part summaries_inv_part trash_inv_part timers_inv_part)

lemma reset_flights:
  "summaries_flight (resetDashboardData st) =
     (summaries_flight st)\<lparr>fl_gen := fl_gen (summaries_flight st) + 1, fl_slot := None\<rparr>"
  "trash_flight (resetDashboardData st) =
     (trash_flight st)\<lparr>fl_gen := fl_gen (trash_flight st) + 1, fl_slot := None\<rparr>"
  by (simp_all add: resetDashboardData_def summaries_flight_def trash_flight_def)

lemma reset_store:
  assumes "store_inv st"
  shows "store_inv (resetDashboardData st)"
proof -
  have "summaries_inv (resetDashboardData st)" "trash_inv (resetDashboardData st)"
    using assms gen_inv [of "summaries_flight st"] gen_inv [of "trash_flight st"]
    unfolding summaries_inv_def trash_inv_def store_inv_def reset_flights
    by (simp_all add: resetDashboardData_def)
  moreover have "timers_inv (resetDashboardData st)"
    by (simp add: timers_inv_def resetDashboardData_def cancel_inv)
  ultimately show ?thesis
    using assms by (simp add: store_inv_def reset_drain_inv loads_inv_reset)
qed

lemma initial_store_inv: "store_inv (initial_store g)"
  unfolding store_inv_def
  by (simp add: drain_inv_initial loads_inv_initial)
    (simp add: summaries_inv_def trash_inv_def timers_inv_def flight_inv_def summaries_flight_def
      trash_flight_def initial_store_def)

lemma only_view_toast [simp]: "only_view (toast_error m st) st"
  by (simp add: only_view_def)

lemma only_view_writes [simp]:
  "only_view (st\<lparr>st_dashboard := d\<rparr>) st"
  "only_view (st\<lparr>st_summaries := rows\<rparr>) st"
  "only_view (st\<lparr>st_trash := t\<rparr>) st"
  "only_view (st\<lparr>st_user := u\<rparr>) st"
  "only_view (st\<lparr>st_connection := c\<rparr>) st"
  "only_view (st\<lparr>st_summaries := rows, st_dashboard := d\<rparr>) st"
  "only_view (st\<lparr>st_trash := t, st_summaries := rows\<rparr>) st"
  "only_view (st\<lparr>st_user := u, st_summaries := rows, st_dashboard := d\<rparr>) st"
  "only_view (st\<lparr>st_summaries := rows, st_dashboard := d, st_conflict := b, st_loadError := e\<rparr>) st"
  "only_view (st\<lparr>st_dashboard := d, st_loadError := e, st_loading := l, st_conflict := b\<rparr>) st"
  "only_view (st\<lparr>st_conflict := b\<rparr>) st"
  by (simp_all add: only_view_def parts)

lemmas action_defs = createDashboardReply_def leaveDashboardReply_def restoreDashboardReply_def
  purgeDashboardReply_def toggleFavoriteReply_def renameDashboardReply_def transferDashboardReply_def
  addWidgetReply_def removeWidgetReply_def updateWidgetReply_def

lemma settle_action_view:
  "\<nexists>i r. a = DeleteDone i r \<Longrightarrow> only_view (settle_action lc g a st) st"
  by (cases a) (simp_all add: action_defs Let_def split: sum.split)

lemma deleteDashboardReply_store: "store_inv st \<Longrightarrow> store_inv (snd (deleteDashboardReply g i r st))"
proof -
  assume inv: "store_inv st"
  have "store_inv (guarded g (\<lambda>s. s\<lparr>st_summaries := without_id i (st_summaries s)\<rparr>) st)"
    using inv by (rule only_view_inv [rotated]) simp
  with inv show ?thesis
    by (auto simp: deleteDashboardReply_def Let_def loadTrash_store split: sum.split
        intro: only_view_inv [OF only_view_toast])
qed

lemma settle_action_store: "store_inv st \<Longrightarrow> store_inv (settle_action lc g a st)"
proof (cases "\<exists>i r. a = DeleteDone i r")
  case True
  then show "store_inv st \<Longrightarrow> ?thesis" by (auto intro: deleteDashboardReply_store)
next
  case False
  then show "store_inv st \<Longrightarrow> ?thesis" by (blast intro: only_view_inv settle_action_view)
qed

lemma schedule_store:
  "store_inv st \<Longrightarrow> store_inv (schedule_summaries st)"
  "store_inv st \<Longrightarrow> store_inv (schedule_dashboard i opts st)"
  unfolding store_inv_def
  by (auto simp: timers_inv_def schedule_inv schedule_summaries_def schedule_dashboard_def parts
      intro: drain_inv_part [rotated] loads_inv_part [rotated 2] summaries_inv_part [rotated 2]
        trash_inv_part [rotated 2])

lemma handle_resync_store: "store_inv st \<Longrightarrow> store_inv (handle_resync st)"
  by (simp add: handle_resync_def Let_def loadSummaries_store loadTrash_store loadDashboard_store)

lemma frame_listing_store: "store_inv st \<Longrightarrow> store_inv (frame_listing lc client event st)"
  by (auto simp: frame_listing_def Let_def loadTrash_store schedule_store
      intro: only_view_inv [OF only_view_writes(2)])

lemma frame_board_store: "store_inv st \<Longrightarrow> store_inv (frame_board client event active st)"
  by (auto simp: frame_board_def schedule_store split: option.split
      intro: only_view_inv [OF only_view_writes(1)] only_view_inv [OF only_view_writes(10)])

lemma handleDashboardEvent_store: "store_inv st \<Longrightarrow> store_inv (handleDashboardEvent lc client ev st)"
  by (simp add: handleDashboardEvent_def Let_def handle_resync_store frame_listing_store frame_board_store
      split: resource_event.split option.split)

lemma handleContentEvent_store: "store_inv st \<Longrightarrow> store_inv (handleContentEvent ev st)"
  by (auto simp: handleContentEvent_def split: option.split intro: only_view_inv [OF only_view_writes(1)])

lemma timers_store:
  assumes "store_inv st"
  shows "store_inv (st\<lparr>st_summariesRefresh := snd (fire (st_summariesRefresh st))\<rparr>)"
    and "store_inv (st\<lparr>st_dashboardRefresh := snd (fire (st_dashboardRefresh st))\<rparr>)"
  using assms unfolding store_inv_def
  by (auto simp: timers_inv_def fire_inv parts
      intro: drain_inv_part [rotated] loads_inv_part [rotated 2] summaries_inv_part [rotated 2]
        trash_inv_part [rotated 2])

lemma summariesTimer_store: "store_inv st \<Longrightarrow> store_inv (summariesTimer st)"
  using timers_store(1) [of st]
  by (auto simp: summariesTimer_def split: prod.split option.split intro: loadSummaries_store)

lemma dashboardTimer_store: "store_inv st \<Longrightarrow> store_inv (dashboardTimer st)"
  using timers_store(2) [of st]
  by (auto simp: dashboardTimer_def split: prod.split option.split intro: loadDashboard_store)

lemma resolveConflict_store: "store_inv st \<Longrightarrow> store_inv (resolveConflict st)"
  using only_view_inv [OF only_view_writes(11), of st False]
  by (simp add: resolveConflict_def Let_def loadDashboard_store split: option.split)

lemma resume_store:
  "store_inv st \<Longrightarrow> (\<And>t. t \<in> set tasks \<Longrightarrow> store_inv (f t st)) \<Longrightarrow> store_inv (resume tasks k f st)"
  by (simp add: resume_def)

lemma dash_step_store: "store_inv st \<Longrightarrow> store_inv (dash_step lc client e st)"
  by (cases e)
    (auto intro: loadSummaries_store loadTrash_store loadDashboard_store saveLayout_store
      resolveConflict_store handleDashboardEvent_store handleContentEvent_store summariesTimer_store
      dashboardTimer_store reset_store settle_action_store only_view_inv [OF only_view_writes(4)]
      only_view_inv [OF only_view_writes(5)]
      intro!: resume_store summariesReply_store trashReply_store loadReply_store putReply_store rebaseReply_store)

interpretation dashboard_runs: event_machine "dash_step lc client" store_inv
  by unfold_locales (rule dash_step_store)

text \<open>C1. In every run of the dashboard store, whatever pages do and in whatever order answers, frames,
  timers and sign-outs arrive: the current session has at most one layout drain and at most one
  reader of the listing and of the trash; a layout waiting to be saved always has a drain that will
  take it up; a set in-flight slot always has a parked loop of this session; and the listing's
  spinner is on exactly while its load is in flight.\<close>

theorem dashboard_store_invariant:
  "let st = fold (dash_step lc client) es (initial_store g) in
     length (live st) \<le> 1 \<and>
     (st_pendingLayoutSave st \<noteq> None \<longrightarrow> (\<exists>dr. live st = [dr])) \<and>
     length (filter (\<lambda>t. snd t = st_generation st) (st_summaryTasks st)) \<le> 1 \<and>
     length (filter (\<lambda>t. snd t = st_generation st) (st_trashTasks st)) \<le> 1 \<and>
     (st_summariesLoading st \<longleftrightarrow> st_inFlightSummariesLoad st \<noteq> None) \<and>
     (\<forall>n. st_inFlightSummariesLoad st = Some n \<longrightarrow> (n, st_generation st) \<in> set (st_summaryTasks st)) \<and>
     (\<forall>n. st_inFlightTrashLoad st = Some n \<longrightarrow> (n, st_generation st) \<in> set (st_trashTasks st)) \<and>
     (\<forall>n. st_inFlightDashboardLoad st = Some n \<longrightarrow>
        (\<exists>t \<in> set (st_loadTasks st). lt_object t = n \<and> lt_gen t = st_generation st))"
proof -
  let ?st = "fold (dash_step lc client) es (initial_store g)"
  have inv: "store_inv ?st"
    by (rule dashboard_runs.run_inv) (rule initial_store_inv)
  then have drains: "drain_inv ?st" and loads: "loads_inv ?st"
    and rows: "flight_inv (summaries_flight ?st)" "flight_inv (trash_flight ?st)"
    and spinner: "st_summariesLoading ?st \<longleftrightarrow> st_inFlightSummariesLoad ?st \<noteq> None"
    by (simp_all add: store_inv_def summaries_inv_def trash_inv_def)
  have one: "length (live ?st) \<le> 1"
    and wait: "st_pendingLayoutSave ?st \<noteq> None \<longrightarrow> (\<exists>dr. live ?st = [dr])"
    using drains by (auto simp: drain_inv_def length_Suc_conv split: if_splits)
  note reader = slot_reader [OF rows(1)] slot_reader [OF rows(2)]
  show ?thesis
    using one wait spinner loads reader summaries.one_reader [OF rows(1)] trash.one_reader [OF rows(2)]
    by (simp add: Let_def loads_inv_def summaries_flight_def trash_flight_def)
qed

lemma dashboard_store_invariant_witness:
  "length (live (fold (dash_step str_cmp ''tab'')
     [LoadDashboard ''d1'' foreground, LoadAnswer 0 (Inr (board ''d1'' 3 [])),
      SaveLayout [box ''a'' 0 0 4 4] None, Reset, SaveLayout [] None] (initial_store 0))) \<le> 1"
  using dashboard_store_invariant [of str_cmp "''tab''" "[LoadDashboard ''d1'' foreground,
      LoadAnswer 0 (Inr (board ''d1'' 3 [])), SaveLayout [box ''a'' 0 0 4 4] None, Reset, SaveLayout [] None]" 0]
  unfolding Let_def by (rule conjunct1)

section \<open>Nothing of an older session shows\<close>

text \<open>The session an answer belongs to; an event that is not an answer belongs to none.\<close>

definition nth_origin :: "('t \<Rightarrow> nat) \<Rightarrow> 't list \<Rightarrow> nat \<Rightarrow> nat option" where
  "nth_origin f tasks k = (if k < length tasks then Some (f (tasks ! k)) else None)"

fun answer_origin :: "dash_event \<Rightarrow> dash_store \<Rightarrow> nat option" where
  "answer_origin (SummariesAnswer k r) st = nth_origin snd (st_summaryTasks st) k"
| "answer_origin (TrashAnswer k r) st = nth_origin snd (st_trashTasks st) k"
| "answer_origin (LoadAnswer k r) st = nth_origin lt_gen (st_loadTasks st) k"
| "answer_origin (PutAnswer k r) st = nth_origin dr_gen (st_drains st) k"
| "answer_origin (RereadAnswer k r) st = nth_origin dr_gen (st_drains st) k"
| "answer_origin (ActionAnswer g a) st = Some g"
| "answer_origin e st = None"

definition page_view :: "dash_store \<Rightarrow> dash_view \<times> user option" where
  "page_view st = (view_of st, st_user st)"

lemma page_view_writes [simp]:
  "page_view (st\<lparr>st_summaryTasks := t\<rparr>) = page_view st"
  "page_view (st\<lparr>st_trashTasks := t\<rparr>) = page_view st"
  "page_view (st\<lparr>st_loadTasks := lt\<rparr>) = page_view st"
  "page_view (st\<lparr>st_drains := ds\<rparr>) = page_view st"
  "page_view (st\<lparr>st_pendingLayoutSave := p\<rparr>) = page_view st"
  "page_view (st\<lparr>st_inFlightSummariesLoad := n\<rparr>) = page_view st"
  "page_view (st\<lparr>st_inFlightTrashLoad := n\<rparr>) = page_view st"
  "page_view (st\<lparr>st_inFlightDashboardLoad := n\<rparr>) = page_view st"
  "page_view (st\<lparr>st_queuedSummariesForceReload := b\<rparr>) = page_view st"
  "page_view (st\<lparr>st_queuedTrashForceReload := b\<rparr>) = page_view st"
  "page_view (set_load_object k ob st) = page_view st"
  "page_view (toast_error m st) = page_view st"
  by (simp_all add: page_view_def view_of_def set_load_object_def toast_error_def)

lemma stale_summaries:
  assumes "snd t \<noteq> st_generation st"
  shows "page_view (summariesReply t r st) = page_view st"
    and "st_generation (summariesReply t r st) = st_generation st"
  using assms
  by (cases t; simp add: summariesReply_def park_summaries_def finish_summaries_def Let_def split: sum.split)+

lemma stale_trash:
  assumes "snd t \<noteq> st_generation st"
  shows "page_view (trashReply t r st) = page_view st"
    and "st_generation (trashReply t r st) = st_generation st"
  using assms
  by (cases t; simp add: trashReply_def park_trash_def finish_trash_def Let_def split: sum.split)+

lemma stale_load_next:
  assumes "g \<noteq> st_generation st"
  shows "page_view (load_next n g i st) = page_view st"
proof -
  have "page_view (load_round n g i opts st) = page_view st" for opts
    using assms by (simp add: load_round_def Let_def split: option.split)
  then show ?thesis by (simp add: load_next_def split: option.split)
qed

lemma stale_load:
  assumes "lt_gen t \<noteq> st_generation st"
  shows "page_view (loadReply t r st) = page_view st"
    and "st_generation (loadReply t r st) = st_generation st"
  using assms by (simp_all add: loadReply_def Let_def stale_load_next split: sum.split)

lemma stale_drain:
  assumes "dr_gen dr \<noteq> st_generation st"
  shows "page_view (putReply dr p st) = page_view st" "page_view (rebaseReply dr r st) = page_view st"
    and "st_generation (putReply dr p st) = st_generation st"
    and "st_generation (rebaseReply dr r st) = st_generation st"
  using assms
  by (simp_all add: putReply_def rebaseReply_def Let_def split: sum.split drain_phase.split)

lemma stale_action:
  assumes "g \<noteq> st_generation st"
  shows "page_view (settle_action lc g a st) = page_view st \<and>
     st_generation (settle_action lc g a st) = st_generation st"
  using assms
  by (cases a) (simp_all add: action_defs deleteDashboardReply_def Let_def split: sum.split)

interpretation dashboard_sessions: guarded_store "dash_step lc client" st_generation answer_origin page_view
proof
  fix e st g
  assume "answer_origin e st = Some g" "g \<noteq> st_generation st"
  then show "page_view (dash_step lc client e st) = page_view st"
    "st_generation (dash_step lc client e st) = st_generation st"
    by (cases e; auto simp: nth_origin_def resume_def stale_summaries stale_trash stale_load stale_drain
        stale_action split: if_splits)+
qed

text \<open>C2. Sessions are isolated: after a sign-out, the answers to requests of earlier sessions, any
  number of them and in any order, leave every field a page of the new session reads as the
  sign-out left it: no listing, no trash, no board, no flag, and the signed-in user unchanged.\<close>

theorem old_answers_are_never_shown:
  assumes "stale_run (dash_step lc client) st_generation answer_origin es (resetDashboardData st)"
  shows "view_of (fold (dash_step lc client) es (resetDashboardData st)) = view_of (initial_store g) \<and>
     st_user (fold (dash_step lc client) es (resetDashboardData st)) = st_user st"
proof -
  from dashboard_sessions.late_answers_unseen [OF assms]
  have "page_view (fold (dash_step lc client) es (resetDashboardData st)) = page_view (resetDashboardData st)"
    by simp
  then show ?thesis by (simp add: page_view_def) (simp add: view_of_def resetDashboardData_def initial_store_def)
qed

lemma old_answers_are_never_shown_witness:
  "let st = loadDashboard ''d1'' foreground (initial_store 0)
   in view_of (fold (dash_step str_cmp ''tab'') [LoadAnswer 0 (Inr (board ''d1'' 3 []))]
        (resetDashboardData st)) = view_of (initial_store 0)"
proof -
  let ?st = "loadDashboard ''d1'' foreground (initial_store 0)"
  have "stale_run (dash_step str_cmp ''tab'') st_generation answer_origin
      [LoadAnswer 0 (Inr (board ''d1'' 3 []))] (resetDashboardData ?st)"
    by code_simp
  from old_answers_are_never_shown [OF this, of 0] show ?thesis by (simp add: Let_def)
qed

section \<open>What the guards leave open\<close>

definition open_board :: "string \<Rightarrow> dashboard_widget list \<Rightarrow> dash_event list" where
  "open_board i widgets = [LoadDashboard i foreground, LoadAnswer 0 (Inr ((board i 3 [])\<lparr>d_widgets := widgets\<rparr>))]"

definition run_from_start :: "dash_event list \<Rightarrow> dash_store" where
  "run_from_start es = fold (dash_step str_cmp ''tab'') es (initial_store 0)"

text \<open>The failure branch of a save is not guarded by the session: a save left over from before a
  sign-out that fails afterwards empties the new session's slot, so the layout dragged last is never
  sent although its drain is still running, and shows its error to the new session.\<close>

theorem old_failed_save_drops_new_layout:
  "let before = run_from_start (open_board ''d1'' [] @ [SaveLayout [] None, Reset] @ open_board ''d1'' [] @
         [SaveLayout [box ''a'' 0 0 4 4] None, SaveLayout [box ''a'' 8 0 4 4] None]);
       after = dash_step str_cmp ''tab'' (PutAnswer 0 (Inl NotAnError)) before;
       later = dash_step str_cmp ''tab'' (PutAnswer 0 (Inr (PutOk (board ''d1'' 4 [box ''a'' 0 0 4 4])))) after
   in map_option ps_layout (st_pendingLayoutSave before) = Some [box ''a'' 8 0 4 4] \<and>
      st_pendingLayoutSave after = None \<and> st_toasts after = [''Failed to save layout.''] \<and>
      st_drains later = [] \<and> map_option d_layout (st_dashboard later) = Some [box ''a'' 0 0 4 4]"
  by code_simp

text \<open>A save's answer is written without comparing it to the board that is open: answered after the
  user moved on to another board, it puts the saved board back on screen, with the widgets of the
  board the user had moved to.\<close>

theorem late_save_answer_mixes_boards:
  "let st = run_from_start (open_board ''A'' [list_widget ''wa'' ''l1''] @ [SaveLayout [] None] @
         open_board ''B'' [list_widget ''wb'' ''l2''] @
         [PutAnswer 0 (Inr (PutOk ((board ''A'' 4 [])\<lparr>d_widgets := [list_widget ''wa'' ''l1'']\<rparr>)))])
   in map_option d_id (st_dashboard st) = Some ''A'' \<and>
      map_option (map w_id \<circ> d_widgets) (st_dashboard st) = Some [''wb'']"
  by code_simp

text \<open>A rebase moves the version of whatever board is open: finished after the user moved on, it
  gives the new board the conflicting board's version, so the next save of the new board is sent
  with a version its server never issued.\<close>

theorem late_rebase_moves_wrong_version:
  "let st = run_from_start (open_board ''A'' [] @ [SaveLayout [] None] @ open_board ''B'' [] @
         [PutAnswer 0 (Inr PutConflict), RereadAnswer 0 (Inr (board ''A'' 9 []))]);
       next = dash_step str_cmp ''tab'' (SaveLayout [] None) st
   in map_option (\<lambda>d. (d_id d, d_version d)) (st_dashboard st) = Some (''B'', 9) \<and>
      map dr_phase (st_drains next) =
        [AwaitPut \<lparr>ps_dashboardId = ''B'', ps_layout = [], ps_gesture = None, ps_retried = False\<rparr> ''B'' 9]"
  by code_simp

text \<open>The refresh of the open board keeps only the last frame's options: an access change followed
  within the debounce window by an ordinary frame loses the instruction to surface an access loss,
  and when the read then comes back forbidden the board stays on screen with no error.\<close>

theorem debounce_forgets_access_loss:
  "let share = sample_event\<lparr>e_event_type := DashboardShareRemoved, e_actor_id := ''u2''\<rparr>;
       rename = sample_event\<lparr>e_actor_id := ''u2'', e_payload := empty_payload\<lparr>p_changed_fields := Some [''name'']\<rparr>\<rparr>;
       alone = run_from_start (open_board ''d1'' [] @ [DashboardFrame (Frame share), DashboardTimer,
         LoadAnswer 0 (Inl (ApiErr 403 ''Forbidden''))]);
       both = run_from_start (open_board ''d1'' [] @ [DashboardFrame (Frame share), DashboardFrame (Frame rename),
         DashboardTimer, LoadAnswer 0 (Inl (ApiErr 403 ''Forbidden''))])
   in st_dashboard alone = None \<and> st_loadError alone \<and>
      map_option d_id (st_dashboard both) = Some ''d1'' \<and> \<not> st_loadError both \<and> st_loadTasks both = []"
  by code_simp

end
