(* ===== verification/Grid.thy ===== *)
theory Grid
  imports LayoutServer
begin

text \<open>
  The board's geometry (\<open>frontend/src/components/dashboard/DashboardGrid.tsx\<close>) and the server's
  slot search it mirrors (\<open>_first_free_slot\<close> in \<open>backend/app/routers/dashboards.py\<close>): which layouts
  a board may adopt, the free-slot scan, and the two repairs built on it. An item is the five
  coordinates of a \<^typ>\<open>layout_item\<close>; the keys react-grid-layout adds are not read here.

  The lemmas show the scan finds the topmost, leftmost free position exactly when there is one and is
  the server's own scan, that re-seating around a pinned widget yields an adoptable layout with the
  pin where it was, and that a repair always ends inside the grid.
\<close>

definition overlap_free :: "layout_item \<Rightarrow> layout_item \<Rightarrow> bool" where
  "overlap_free item other \<longleftrightarrow>
     li_x item \<ge> li_x other + li_w other \<or> li_x other \<ge> li_x item + li_w item \<or>
     li_y item \<ge> li_y other + li_h other \<or> li_y other \<ge> li_y item + li_h item"

definition in_bounds :: "int \<Rightarrow> int \<Rightarrow> layout_item \<Rightarrow> bool" where
  "in_bounds cols rows item \<longleftrightarrow>
     li_x item + li_w item \<le> cols \<and> li_y item + li_h item \<le> rows \<and> li_x item \<ge> 0 \<and> li_y item \<ge> 0"

definition isAdoptable :: "layout_item list \<Rightarrow> int \<Rightarrow> int \<Rightarrow> bool" where
  "isAdoptable layout cols rows \<longleftrightarrow>
     (if \<not> list_all (in_bounds cols rows) layout then False
      else list_all (\<lambda>i. list_all (\<lambda>j. i = j \<or> overlap_free (layout ! i) (layout ! j))
             [0..<length layout]) [0..<length layout])"

definition sameOccupants :: "layout_item list \<Rightarrow> layout_item list \<Rightarrow> bool" where
  "sameOccupants a b \<longleftrightarrow>
     (if length a \<noteq> length b then False else list_all (\<lambda>item. li_i item \<in> set (map li_i a)) b)"

definition slot_clear :: "layout_item list \<Rightarrow> int \<Rightarrow> int \<Rightarrow> int \<Rightarrow> int \<Rightarrow> bool" where
  "slot_clear placed w h x y \<longleftrightarrow>
     list_all (\<lambda>other. x \<ge> li_x other + li_w other \<or> li_x other \<ge> x + w \<or>
                      y \<ge> li_y other + li_h other \<or> li_y other \<ge> y + h) placed"

definition num_cmp :: "int \<Rightarrow> int \<Rightarrow> int" where
  "num_cmp a b = a - b"

text \<open>The two nested loops: the first column of a row that is free, then the first row that has one.\<close>

definition scan_columns :: "layout_item list \<Rightarrow> int \<Rightarrow> int \<Rightarrow> int \<Rightarrow> int \<Rightarrow> int list \<Rightarrow> int option" where
  "scan_columns placed w h cols y xs = find (\<lambda>x. x + w \<le> cols \<and> slot_clear placed w h x y) xs"

fun scan_rows ::
    "layout_item list \<Rightarrow> int \<Rightarrow> int \<Rightarrow> int \<Rightarrow> int \<Rightarrow> int list \<Rightarrow> int list \<Rightarrow> (int \<times> int) option" where
  "scan_rows placed w h cols rows xs [] = None"
| "scan_rows placed w h cols rows xs (y # ys) =
     (if y + h > rows then scan_rows placed w h cols rows xs ys
      else case scan_columns placed w h cols y xs of
        Some x \<Rightarrow> Some (x, y)
      | None \<Rightarrow> scan_rows placed w h cols rows xs ys)"

definition firstFreeSlot :: "layout_item list \<Rightarrow> int \<Rightarrow> int \<Rightarrow> int \<Rightarrow> int \<Rightarrow> (int \<times> int) option" where
  "firstFreeSlot placed w h cols rows =
     (let candidateRows = js_sort num_cmp (0 # map (\<lambda>other. li_y other + li_h other) placed);
          candidateCols = js_sort num_cmp (0 # map (\<lambda>other. li_x other + li_w other) placed)
      in scan_rows placed w h cols rows candidateCols candidateRows)"

definition reading_cmp :: "layout_item \<Rightarrow> layout_item \<Rightarrow> int" where
  "reading_cmp a b = (if li_y a - li_y b \<noteq> 0 then li_y a - li_y b else li_x a - li_x b)"

fun repack_into :: "int \<Rightarrow> int \<Rightarrow> layout_item list \<Rightarrow> layout_item list \<Rightarrow> layout_item list" where
  "repack_into cols rows placed [] = placed"
| "repack_into cols rows placed (item # rest) =
     (let w = min (li_w item) cols; h = min (li_h item) rows;
          (x, y) = (case firstFreeSlot placed w h cols rows of
                      Some seat \<Rightarrow> seat | None \<Rightarrow> (0, max 0 (rows - h)))
      in repack_into cols rows (placed @ [item\<lparr>li_x := x, li_y := y, li_w := w, li_h := h\<rparr>]) rest)"

definition repack :: "layout_item list \<Rightarrow> int \<Rightarrow> int \<Rightarrow> layout_item list" where
  "repack layout cols rows = repack_into cols rows [] (js_sort reading_cmp layout)"

fun seat_all :: "int \<Rightarrow> int \<Rightarrow> layout_item list \<Rightarrow> layout_item list \<Rightarrow> layout_item list option" where
  "seat_all cols rows placed [] = Some placed"
| "seat_all cols rows placed (item # rest) =
     (case firstFreeSlot placed (li_w item) (li_h item) cols rows of
        None \<Rightarrow> None
      | Some (x, y) \<Rightarrow> seat_all cols rows (placed @ [item\<lparr>li_x := x, li_y := y\<rparr>]) rest)"

definition repackAround :: "layout_item list \<Rightarrow> int \<Rightarrow> int \<Rightarrow> string \<Rightarrow> layout_item list option" where
  "repackAround layout cols rows pinned =
     (case find (\<lambda>item. li_i item = pinned) layout of
        None \<Rightarrow> None
      | Some pin \<Rightarrow>
          if \<not> isAdoptable [pin] cols rows then None
          else seat_all cols rows [pin]
                 (js_sort reading_cmp (filter (\<lambda>other. li_i other \<noteq> pinned) layout)))"

text \<open>
  The server's search reads the stored layout: a dictionary per widget, of which only the four numbers are
  read here, each with the default of its \<open>item.get\<close>. Its two loops and its overlap test are the
  server's own, over the boxes read from the dictionaries.
\<close>

type_synonym stored_item = "(string \<times> int) list"
type_synonym stored_box = "int \<times> int \<times> int \<times> int"

definition item_get :: "stored_item \<Rightarrow> string \<Rightarrow> int \<Rightarrow> int" where
  "item_get item key fallback = (case map_of item key of Some v \<Rightarrow> v | None \<Rightarrow> fallback)"

definition item_box :: "stored_item \<Rightarrow> stored_box" where
  "item_box item = (item_get item ''x'' 0, item_get item ''y'' 0, item_get item ''w'' 1, item_get item ''h'' 1)"

definition box_overlaps :: "int \<Rightarrow> int \<Rightarrow> int \<Rightarrow> int \<Rightarrow> stored_box \<Rightarrow> bool" where
  "box_overlaps x y w h b \<longleftrightarrow>
     (case b of (box_x, box_y, box_w, box_h) \<Rightarrow>
        x < box_x + box_w \<and> box_x < x + w \<and> y < box_y + box_h \<and> box_y < y + h)"

fun search_columns :: "stored_box list \<Rightarrow> int \<Rightarrow> int \<Rightarrow> int \<Rightarrow> int list \<Rightarrow> (int \<times> int) option" where
  "search_columns boxes w h y [] = None"
| "search_columns boxes w h y (x # columns) =
     (if x + w > GRID_COLUMNS then search_columns boxes w h y columns
      else let overlaps = list_ex (box_overlaps x y w h) boxes in
        if \<not> overlaps then Some (x, y) else search_columns boxes w h y columns)"

fun search_rows :: "stored_box list \<Rightarrow> int \<Rightarrow> int \<Rightarrow> int list \<Rightarrow> int list \<Rightarrow> (int \<times> int) option" where
  "search_rows boxes w h columns [] = None"
| "search_rows boxes w h columns (y # rows) =
     (if y + h > GRID_ROWS then search_rows boxes w h columns rows
      else case search_columns boxes w h y columns of
        Some slot \<Rightarrow> Some slot
      | None \<Rightarrow> search_rows boxes w h columns rows)"

definition first_free_slot :: "stored_item list \<Rightarrow> int \<Rightarrow> int \<Rightarrow> (int \<times> int) option" where
  "first_free_slot layout w h =
     (let boxes = map item_box layout;
          rows = sorted_list_of_set (insert 0 (set (map (\<lambda>(_, y, _, box_h). y + box_h) boxes)));
          columns = sorted_list_of_set (insert 0 (set (map (\<lambda>(x, _, box_w, _). x + box_w) boxes)))
      in search_rows boxes w h columns rows)"

text \<open>A layout as the save stores it: every item with all four of its numbers.\<close>

definition stored_layout :: "layout_item list \<Rightarrow> stored_item list" where
  "stored_layout layout =
     map (\<lambda>it. [(''x'', li_x it), (''y'', li_y it), (''w'', li_w it), (''h'', li_h it)]) layout"

section \<open>The scan\<close>

interpretation numbers: js_comparator num_cmp
  by unfold_locales (auto simp: num_cmp_def)

interpretation reading: js_comparator reading_cmp
  by unfold_locales (auto simp: reading_cmp_def split: if_splits)

text \<open>A position that holds the box: inside the grid and clear of everything placed.\<close>

definition free_at :: "layout_item list \<Rightarrow> int \<Rightarrow> int \<Rightarrow> int \<Rightarrow> int \<Rightarrow> int \<times> int \<Rightarrow> bool" where
  "free_at placed w h cols rows p \<longleftrightarrow> 0 \<le> fst p \<and> 0 \<le> snd p \<and> fst p + w \<le> cols \<and> snd p + h \<le> rows \<and>
     slot_clear placed w h (fst p) (snd p)"

text \<open>Topmost first, leftmost next.\<close>

definition no_later :: "int \<times> int \<Rightarrow> int \<times> int \<Rightarrow> bool" where
  "no_later p q \<longleftrightarrow> snd p < snd q \<or> (snd p = snd q \<and> fst p \<le> fst q)"

definition first_free :: "layout_item list \<Rightarrow> int \<Rightarrow> int \<Rightarrow> int \<Rightarrow> int \<Rightarrow> (int \<times> int) option \<Rightarrow> bool" where
  "first_free placed w h cols rows r \<longleftrightarrow>
     (case r of None \<Rightarrow> \<forall>p. \<not> free_at placed w h cols rows p
      | Some p \<Rightarrow> free_at placed w h cols rows p \<and> (\<forall>q. free_at placed w h cols rows q \<longrightarrow> no_later p q))"

lemma no_later_antisym: "no_later p q \<Longrightarrow> no_later q p \<Longrightarrow> p = q"
  by (auto simp: no_later_def prod_eq_iff)

lemma no_later_trans: "no_later p q \<Longrightarrow> no_later q r \<Longrightarrow> no_later p r"
  by (auto simp: no_later_def)

lemma first_free_simps:
  "first_free placed w h cols rows None \<longleftrightarrow> (\<forall>p. \<not> free_at placed w h cols rows p)"
  "first_free placed w h cols rows (Some p) \<longleftrightarrow> free_at placed w h cols rows p \<and>
     (\<forall>q. free_at placed w h cols rows q \<longrightarrow> no_later p q)"
  by (simp_all add: first_free_def)

lemma first_free_unique:
  assumes "first_free placed w h cols rows r" "first_free placed w h cols rows r'"
  shows "r = r'"
  using assms by (cases r; cases r'; simp only: first_free_simps) (blast intro: no_later_antisym)+

text \<open>Edges of what is placed, on the side a free box can lean against.\<close>

definition edges_ok :: "layout_item list \<Rightarrow> bool" where
  "edges_ok placed \<longleftrightarrow> (\<forall>b \<in> set placed. 0 \<le> li_x b + li_w b \<and> 0 \<le> li_y b + li_h b)"

lemma slide_up:
  assumes "slot_clear placed w h x y" "y \<notin> (\<lambda>b. li_y b + li_h b) ` set placed"
  shows "slot_clear placed w h x (y - 1)"
  unfolding slot_clear_def list_all_iff
proof
  fix b assume b: "b \<in> set placed"
  then have "y \<noteq> li_y b + li_h b" using assms(2) by auto
  with assms(1) b show "li_x b + li_w b \<le> x \<or> x + w \<le> li_x b \<or>
      li_y b + li_h b \<le> y - 1 \<or> y - 1 + h \<le> li_y b"
    by (auto simp: slot_clear_def list_all_iff)
qed

lemma slide_left:
  assumes "slot_clear placed w h x y" "x \<notin> (\<lambda>b. li_x b + li_w b) ` set placed"
  shows "slot_clear placed w h (x - 1) y"
  unfolding slot_clear_def list_all_iff
proof
  fix b assume b: "b \<in> set placed"
  then have "x \<noteq> li_x b + li_w b" using assms(2) by auto
  with assms(1) b show "li_x b + li_w b \<le> x - 1 \<or> x - 1 + w \<le> li_x b \<or>
      li_y b + li_h b \<le> y \<or> y + h \<le> li_y b"
    by (auto simp: slot_clear_def list_all_iff)
qed

definition row_edges :: "layout_item list \<Rightarrow> int set" where
  "row_edges placed = insert 0 ((\<lambda>b. li_y b + li_h b) ` set placed)"

definition column_edges :: "layout_item list \<Rightarrow> int set" where
  "column_edges placed = insert 0 ((\<lambda>b. li_x b + li_w b) ` set placed)"

text \<open>A free position slides up and left until it leans on edges, and only becomes earlier.\<close>

lemma free_leans_on_edges:
  "free_at placed w h cols rows p \<Longrightarrow>
     \<exists>q. free_at placed w h cols rows q \<and> no_later q p \<and>
         fst q \<in> column_edges placed \<and> snd q \<in> row_edges placed"
proof (induction "nat (fst p) + nat (snd p)" arbitrary: p rule: less_induct)
  case less
  obtain x y where p: "p = (x, y)" by force
  have pos: "0 \<le> x" "0 \<le> y" using less.prems p by (simp_all add: free_at_def)
  show ?case
  proof (cases "y \<in> row_edges placed")
    case False
    then have up: "free_at placed w h cols rows (x, y - 1)"
      using less.prems pos p slide_up [of placed w h x y] by (auto simp: free_at_def row_edges_def)
    have "nat (fst (x, y - 1)) + nat (snd (x, y - 1)) < nat (fst p) + nat (snd p)"
      using False pos p by (cases "y = 0") (auto simp: row_edges_def)
    moreover have "no_later (x, y - 1) p" using p by (simp add: no_later_def)
    ultimately show ?thesis using less.hyps [OF _ up] no_later_trans by blast
  next
    case y: True
    show ?thesis
    proof (cases "x \<in> column_edges placed")
      case False
      then have left: "free_at placed w h cols rows (x - 1, y)"
        using less.prems pos p slide_left [of placed w h x y] by (auto simp: free_at_def column_edges_def)
      have "nat (fst (x - 1, y)) + nat (snd (x - 1, y)) < nat (fst p) + nat (snd p)"
        using False pos p by (cases "x = 0") (auto simp: column_edges_def)
      moreover have "no_later (x - 1, y) p" using p by (simp add: no_later_def)
      ultimately show ?thesis using less.hyps [OF _ left] no_later_trans by blast
    next
      case True
      with y less.prems p show ?thesis by (intro exI [of _ p]) (auto simp: no_later_def)
    qed
  qed
qed

lemma find_sorted_least:
  assumes "sorted xs" "find P xs = Some x"
  shows "x \<in> set xs \<and> P x \<and> (\<forall>z \<in> set xs. P z \<longrightarrow> x \<le> z)"
  using assms by (induction xs) (auto split: if_splits)

text \<open>The scan on two sorted lists finds the least of the candidates that pass its tests.\<close>

definition passes :: "layout_item list \<Rightarrow> int \<Rightarrow> int \<Rightarrow> int \<Rightarrow> int \<Rightarrow> int \<times> int \<Rightarrow> bool" where
  "passes placed w h cols rows p \<longleftrightarrow>
     snd p + h \<le> rows \<and> fst p + w \<le> cols \<and> slot_clear placed w h (fst p) (snd p)"

lemma scan_rows_None:
  "scan_rows placed w h cols rows xs ys = None \<Longrightarrow> x \<in> set xs \<Longrightarrow> y \<in> set ys \<Longrightarrow>
     \<not> passes placed w h cols rows (x, y)"
  by (induction ys)
    (auto simp: passes_def scan_columns_def find_None_iff split: if_splits option.splits)

lemma scan_rows_Some:
  assumes "sorted xs" "sorted ys" "scan_rows placed w h cols rows xs ys = Some p"
  shows "fst p \<in> set xs \<and> snd p \<in> set ys \<and> passes placed w h cols rows p"
    and "x \<in> set xs \<Longrightarrow> y \<in> set ys \<Longrightarrow> passes placed w h cols rows (x, y) \<Longrightarrow> no_later p (x, y)"
  using assms(2,3)
proof (induction ys)
  case (Cons v vs)
  {
    case 1
    then show ?case
      using Cons.IH(1)
      by (auto simp: passes_def scan_columns_def split: if_splits option.splits
          dest!: find_sorted_least [OF assms(1)])
  next
    case 2
    show ?case
    proof (cases "v + h \<le> rows \<and> scan_columns placed w h cols v xs \<noteq> None")
      case True
      then obtain u where u: "scan_columns placed w h cols v xs = Some u" by auto
      with True 2 have p: "p = (u, v)" by simp
      have "u \<le> x" if "y = v"
        using find_sorted_least [OF assms(1) u [unfolded scan_columns_def]] 2 that by (simp add: passes_def)
      with p 2 show ?thesis by (auto simp: no_later_def)
    next
      case False
      then have "scan_rows placed w h cols rows xs vs = Some p"
        using 2 by (auto split: if_splits)
      moreover have "y \<noteq> v"
        using False 2 by (auto simp: passes_def scan_columns_def find_None_iff)
      ultimately show ?thesis using Cons.IH(2) 2 by simp
    qed
  }
qed simp_all

lemma scan_first_free:
  fixes placed :: "layout_item list"
  assumes "edges_ok placed" "sorted xs" "sorted ys"
    and "set xs = column_edges placed" "set ys = row_edges placed"
  shows "first_free placed w h cols rows (scan_rows placed w h cols rows xs ys)"
proof -
  have edge_pos: "0 \<le> e" if "e \<in> column_edges placed \<union> row_edges placed" for e
    using that assms(1) by (auto simp: column_edges_def row_edges_def edges_ok_def)
  have pass: "passes placed w h cols rows p" if "free_at placed w h cols rows p" for p
    using that by (simp add: free_at_def passes_def)
  show ?thesis
  proof (cases "scan_rows placed w h cols rows xs ys")
    case None
    have "\<not> free_at placed w h cols rows q" for q
    proof
      assume "free_at placed w h cols rows q"
      from free_leans_on_edges [OF this] obtain e where "free_at placed w h cols rows e"
        "fst e \<in> set xs" "snd e \<in> set ys" using assms(4,5) by auto
      with scan_rows_None [OF None, of "fst e" "snd e"] pass show False by simp
    qed
    with None show ?thesis by (simp add: first_free_simps)
  next
    case (Some p)
    note hit = scan_rows_Some [OF assms(2,3) Some]
    have "free_at placed w h cols rows p"
      using hit(1) assms(4,5) edge_pos by (simp add: free_at_def passes_def)
    moreover have "no_later p q" if q: "free_at placed w h cols rows q" for q
    proof -
      from free_leans_on_edges [OF q] obtain e where e: "free_at placed w h cols rows e" "no_later e q"
        "fst e \<in> set xs" "snd e \<in> set ys" using assms(4,5) by auto
      with hit(2) [of "fst e" "snd e"] pass have "no_later p e" by simp
      then show ?thesis using e(2) by (rule no_later_trans)
    qed
    ultimately show ?thesis using Some by (simp add: first_free_simps)
  qed
qed

lemma sorted_js_sort: "sorted (js_sort num_cmp xs)"
  using numbers.js_sort_sorted [of xs] by (simp add: num_cmp_def)

lemma firstFreeSlot_first_free:
  "edges_ok placed \<Longrightarrow> first_free placed w h cols rows (firstFreeSlot placed w h cols rows)"
  unfolding firstFreeSlot_def Let_def
  by (rule scan_first_free) (simp_all add: sorted_js_sort column_edges_def row_edges_def del: js_sort_simps)

text \<open>The free-slot scan is exact although it looks at occupied edges only: it returns the
  topmost, leftmost position of the whole grid where the box fits clear of everything placed, and
  nothing exactly when the box fits nowhere.\<close>

theorem firstFreeSlot_exact:
  assumes "\<forall>b \<in> set placed. 0 \<le> li_x b + li_w b \<and> 0 \<le> li_y b + li_h b"
  shows "case firstFreeSlot placed w h cols rows of
      None \<Rightarrow> \<forall>p. \<not> free_at placed w h cols rows p
    | Some p \<Rightarrow> free_at placed w h cols rows p \<and>
        (\<forall>q. free_at placed w h cols rows q \<longrightarrow> snd p < snd q \<or> (snd p = snd q \<and> fst p \<le> fst q))"
  using firstFreeSlot_first_free [of placed w h cols rows] assms
  unfolding edges_ok_def first_free_def no_later_def by simp

lemma firstFreeSlot_exact_witness:
  "firstFreeSlot [box ''a'' 0 0 4 4, box ''b'' 4 0 4 2] 4 2 8 4 = Some (4, 2) \<and>
   \<not> free_at [box ''a'' 0 0 4 4, box ''b'' 4 0 4 2] 4 2 8 4 (0, 2)"
proof -
  let ?p = "[box ''a'' 0 0 4 4, box ''b'' 4 0 4 2]"
  have r: "firstFreeSlot ?p 4 2 8 4 = Some (4, 2)" by code_simp
  have "\<forall>b \<in> set ?p. 0 \<le> li_x b + li_w b \<and> 0 \<le> li_y b + li_h b" by (simp add: box_def)
  from firstFreeSlot_exact [OF this, of 4 2 8 4] r show ?thesis by fastforce
qed

text \<open>The server's loops over the boxes of a stored layout visit what the client's do: its overlap test
  is the negation of the client's slot test.\<close>

lemma box_overlaps_clear:
  "list_ex (box_overlaps x y w h) (map (\<lambda>b. (li_x b, li_y b, li_w b, li_h b)) layout) \<longleftrightarrow>
     \<not> slot_clear layout w h x y"
  by (simp add: box_overlaps_def slot_clear_def list_ex_iff list_all_iff not_le conj_ac)

lemma search_columns_scan:
  "search_columns (map (\<lambda>b. (li_x b, li_y b, li_w b, li_h b)) layout) w h y xs =
     map_option (\<lambda>x. (x, y)) (scan_columns layout w h GRID_COLUMNS y xs)"
  by (induction xs) (simp_all add: scan_columns_def box_overlaps_clear)

lemma search_rows_scan:
  "search_rows (map (\<lambda>b. (li_x b, li_y b, li_w b, li_h b)) layout) w h xs ys =
     scan_rows layout w h GRID_COLUMNS GRID_ROWS xs ys"
  by (induction ys) (simp_all add: search_columns_scan split: option.splits)

lemma item_box_stored:
  "map item_box (stored_layout layout) = map (\<lambda>b. (li_x b, li_y b, li_w b, li_h b)) layout"
  by (simp add: stored_layout_def item_box_def item_get_def)

text \<open>Which slot a scan finds does not depend on how often a candidate is listed.\<close>

lemma scan_rows_candidates:
  assumes "sorted xs" "sorted ys" "sorted xs'" "sorted ys'" "set xs = set xs'" "set ys = set ys'"
  shows "scan_rows placed w h cols rows xs ys = scan_rows placed w h cols rows xs' ys'"
proof (cases "scan_rows placed w h cols rows xs ys")
  case None
  show ?thesis
  proof (cases "scan_rows placed w h cols rows xs' ys'")
    case (Some p)
    from scan_rows_Some(1) [OF assms(3,4) Some] scan_rows_None [OF None, of "fst p" "snd p"] assms(5,6)
    show ?thesis by simp
  qed (simp add: None)
next
  case (Some p)
  note p = scan_rows_Some [OF assms(1,2) Some]
  show ?thesis
  proof (cases "scan_rows placed w h cols rows xs' ys'")
    case None
    from p(1) scan_rows_None [OF None, of "fst p" "snd p"] assms(5,6) show ?thesis by simp
  next
    case Some': (Some q)
    note q = scan_rows_Some [OF assms(3,4) Some']
    have "no_later p q" using p(2) [of "fst q" "snd q"] q(1) assms(5,6) by simp
    moreover have "no_later q p" using q(2) [of "fst p" "snd p"] p(1) assms(5,6) by simp
    ultimately show ?thesis using Some Some' no_later_antisym by simp
  qed
qed

lemma server_scan_is_client_scan:
  "first_free_slot (stored_layout layout) w h = firstFreeSlot layout w h GRID_COLUMNS GRID_ROWS"
  unfolding first_free_slot_def firstFreeSlot_def Let_def item_box_stored search_rows_scan
  by (rule scan_rows_candidates)
    (simp_all add: sorted_js_sort image_image sorted_insort set_insort_key
      del: js_sort_simps sorted_list_of_set_insert_remove)

text \<open>C11. The client's scan and the server's search, each with its own loops and overlap test, return the
  same slot on the 24 by 24 grid for every stored layout and every size, so a widget is never seated by
  one where the other would not. Where no widget's far edge is negative (every layout the server stores)
  that slot is exact: it is the topmost, then leftmost position of the whole grid where the box fits
  clear of every widget, and there is none exactly when the box fits nowhere.\<close>

theorem client_and_server_scan_agree:
  "first_free_slot (stored_layout layout) w h = firstFreeSlot layout w h GRID_COLUMNS GRID_ROWS \<and>
   ((\<forall>b \<in> set layout. 0 \<le> li_x b + li_w b \<and> 0 \<le> li_y b + li_h b) \<longrightarrow>
      (case first_free_slot (stored_layout layout) w h of
         None \<Rightarrow> \<forall>p. \<not> free_at layout w h GRID_COLUMNS GRID_ROWS p
       | Some p \<Rightarrow> free_at layout w h GRID_COLUMNS GRID_ROWS p \<and>
           (\<forall>q. free_at layout w h GRID_COLUMNS GRID_ROWS q \<longrightarrow>
              snd p < snd q \<or> (snd p = snd q \<and> fst p \<le> fst q))))"
  unfolding server_scan_is_client_scan using firstFreeSlot_exact by blast

lemma client_and_server_scan_agree_witness:
  "first_free_slot (stored_layout [box ''a'' 0 0 12 24, box ''b'' 12 0 8 8]) 8 4 = Some (12, 8) \<and>
   \<not> free_at [box ''a'' 0 0 12 24, box ''b'' 12 0 8 8] 8 4 GRID_COLUMNS GRID_ROWS (16, 7)"
proof -
  let ?l = "[box ''a'' 0 0 12 24, box ''b'' 12 0 8 8]"
  have ok: "\<forall>b \<in> set ?l. 0 \<le> li_x b + li_w b \<and> 0 \<le> li_y b + li_h b" by (simp add: box_def)
  note agree = client_and_server_scan_agree [of ?l 8 4]
  have "first_free_slot (stored_layout ?l) 8 4 = firstFreeSlot ?l 8 4 GRID_COLUMNS GRID_ROWS"
    using agree by blast
  also have "\<dots> = Some (12, 8)" by code_simp
  finally have slot: "first_free_slot (stored_layout ?l) 8 4 = Some (12, 8)" .
  with agree ok have "\<not> free_at ?l 8 4 GRID_COLUMNS GRID_ROWS (16, 7)" by fastforce
  with slot show ?thesis by blast
qed

section \<open>Adoptable layouts\<close>

lemma overlap_free_sym: "overlap_free a b = overlap_free b a"
  by (auto simp: overlap_free_def)

lemma overlap_free_server: "overlap_free a b \<longleftrightarrow> \<not> items_overlap a b"
  by (auto simp: overlap_free_def items_overlap_def)

lemma sorted_wrt_pairs:
  assumes "\<And>a b. P a b = P b a"
  shows "sorted_wrt P xs \<longleftrightarrow> (\<forall>i < length xs. \<forall>j < length xs. i = j \<or> P (xs ! i) (xs ! j))"
proof
  assume "sorted_wrt P xs"
  then have lt: "P (xs ! i) (xs ! j)" if "i < j" "j < length xs" for i j
    using that by (simp add: sorted_wrt_nth_less)
  show "\<forall>i < length xs. \<forall>j < length xs. i = j \<or> P (xs ! i) (xs ! j)"
  proof (intro allI impI)
    fix i j assume ij: "i < length xs" "j < length xs"
    consider "i = j" | "i < j" | "j < i" by linarith
    then show "i = j \<or> P (xs ! i) (xs ! j)"
      using lt ij assms by cases auto
  qed
next
  assume all: "\<forall>i < length xs. \<forall>j < length xs. i = j \<or> P (xs ! i) (xs ! j)"
  have "P (xs ! i) (xs ! j)" if "i < j" "j < length xs" for i j
    using all that by (metis less_irrefl less_trans)
  then show "sorted_wrt P xs" by (simp add: sorted_wrt_iff_nth_less)
qed

lemma isAdoptable_iff:
  "isAdoptable layout cols rows \<longleftrightarrow>
     (\<forall>item \<in> set layout. in_bounds cols rows item) \<and> sorted_wrt overlap_free layout"
  unfolding sorted_wrt_pairs [of overlap_free layout, OF overlap_free_sym]
  by (simp add: isAdoptable_def list_all_iff Ball_def)

lemma isAdoptable_snoc:
  "isAdoptable (placed @ [item]) cols rows \<longleftrightarrow>
     isAdoptable placed cols rows \<and> in_bounds cols rows item \<and> (\<forall>other \<in> set placed. overlap_free item other)"
  by (auto simp: isAdoptable_iff sorted_wrt_append overlap_free_sym)

lemma slot_clear_item:
  "slot_clear placed (li_w item) (li_h item) (li_x item) (li_y item) \<longleftrightarrow>
     (\<forall>other \<in> set placed. overlap_free item other)"
  by (simp add: slot_clear_def overlap_free_def list_all_iff)

text \<open>What a found slot is worth: the seated item extends an adoptable layout.\<close>

definition sizes_ok :: "layout_item list \<Rightarrow> bool" where
  "sizes_ok layout \<longleftrightarrow> (\<forall>item \<in> set layout. 1 \<le> li_w item \<and> 1 \<le> li_h item)"

lemma adoptable_edges: "isAdoptable placed cols rows \<Longrightarrow> sizes_ok placed \<Longrightarrow> edges_ok placed"
  by (fastforce simp: isAdoptable_iff in_bounds_def sizes_ok_def edges_ok_def)

lemma seat_adoptable:
  assumes "isAdoptable placed cols rows" "sizes_ok placed"
    and "firstFreeSlot placed w h cols rows = Some (x, y)"
  shows "isAdoptable (placed @ [item\<lparr>li_x := x, li_y := y, li_w := w, li_h := h\<rparr>]) cols rows"
proof -
  let ?i = "item\<lparr>li_x := x, li_y := y, li_w := w, li_h := h\<rparr>"
  have "free_at placed w h cols rows (x, y)"
    using firstFreeSlot_first_free [OF adoptable_edges [OF assms(1,2)], of w h cols rows] assms(3)
    by (simp add: first_free_simps)
  then have "in_bounds cols rows ?i" "slot_clear placed (li_w ?i) (li_h ?i) (li_x ?i) (li_y ?i)"
    by (simp_all add: free_at_def in_bounds_def)
  with assms(1) show ?thesis unfolding slot_clear_item isAdoptable_snoc by blast
qed

lemma same_size_update: "li_w item = w \<Longrightarrow> li_h item = h \<Longrightarrow>
    item\<lparr>li_x := x, li_y := y\<rparr> = item\<lparr>li_x := x, li_y := y, li_w := w, li_h := h\<rparr>"
  by (cases item) simp

text \<open>What an item is apart from its position.\<close>

definition shape_of :: "layout_item \<Rightarrow> string \<times> int \<times> int" where
  "shape_of item = (li_i item, li_w item, li_h item)"

lemma shape_of_seated [simp]: "shape_of (item\<lparr>li_x := x, li_y := y\<rparr>) = shape_of item"
  by (simp add: shape_of_def)

lemma seat_all_adoptable:
  assumes "seat_all cols rows placed items = Some result"
    and "isAdoptable placed cols rows" "sizes_ok (placed @ items)"
  shows "isAdoptable result cols rows \<and> map shape_of result = map shape_of (placed @ items) \<and>
     take (length placed) result = placed"
  using assms
proof (induction items arbitrary: placed)
  case (Cons item items)
  then obtain x y where slot: "firstFreeSlot placed (li_w item) (li_h item) cols rows = Some (x, y)"
    and rest: "seat_all cols rows (placed @ [item\<lparr>li_x := x, li_y := y\<rparr>]) items = Some result"
    by (auto split: option.splits prod.splits)
  have "sizes_ok placed" using Cons.prems(3) by (auto simp: sizes_ok_def)
  from seat_adoptable [OF Cons.prems(2) this slot, of item]
  have "isAdoptable (placed @ [item\<lparr>li_x := x, li_y := y\<rparr>]) cols rows"
    unfolding same_size_update [OF refl refl, symmetric] .
  moreover have "sizes_ok ((placed @ [item\<lparr>li_x := x, li_y := y\<rparr>]) @ items)"
    using Cons.prems(3) by (auto simp: sizes_ok_def)
  ultimately have ih: "isAdoptable result cols rows"
    "map shape_of result = map shape_of ((placed @ [item\<lparr>li_x := x, li_y := y\<rparr>]) @ items)"
    "take (length (placed @ [item\<lparr>li_x := x, li_y := y\<rparr>])) result = placed @ [item\<lparr>li_x := x, li_y := y\<rparr>]"
    using Cons.IH [OF rest] by blast+
  from ih(3) have "take (length placed) result = placed"
    by (metis append_eq_conv_conj append_take_drop_id length_append take_add append.assoc)
  with ih(1,2) show ?case by simp
qed simp

lemma find_pin:
  "find (\<lambda>item. li_i item = pinned) layout = Some pin \<Longrightarrow> pin \<in> set layout \<and> li_i pin = pinned"
  by (auto simp: find_Some_iff)

lemma pin_first:
  assumes "distinct (map li_i layout)" "pin \<in> set layout" "li_i pin = pinned"
  shows "mset (pin # filter (\<lambda>other. li_i other \<noteq> pinned) layout) = mset layout"
proof -
  have "filter (\<lambda>other. li_i other = pinned) layout = [pin]"
    using assms by (induction layout) (auto simp: filter_empty_conv image_iff)
  moreover have "mset layout = mset (filter (\<lambda>other. li_i other = pinned) layout) +
      mset (filter (\<lambda>other. li_i other \<noteq> pinned) layout)"
    using multiset_partition [of "mset layout" "\<lambda>other. li_i other = pinned"] by simp
  ultimately show ?thesis by simp
qed

text \<open>C33. Re-seating a board around the widget being dragged gives an arrangement the board can take, or
  none: it lies in the grid without overlap, the dragged widget is exactly where the gesture put it,
  and every widget is there once with its size unchanged.\<close>

theorem repackAround_adoptable:
  assumes "repackAround layout cols rows pinned = Some result"
    and "distinct (map li_i layout)" and "\<forall>item \<in> set layout. 1 \<le> li_w item \<and> 1 \<le> li_h item"
  shows "isAdoptable result cols rows \<and>
     (\<exists>pin \<in> set layout. li_i pin = pinned \<and> pin \<in> set result) \<and>
     mset (map shape_of result) = mset (map shape_of layout)"
proof -
  from assms(1) obtain pin where f: "find (\<lambda>item. li_i item = pinned) layout = Some pin"
    and ok: "isAdoptable [pin] cols rows"
    and s: "seat_all cols rows [pin] (js_sort reading_cmp (filter (\<lambda>other. li_i other \<noteq> pinned) layout)) = Some result"
    by (auto simp: repackAround_def split: option.splits if_splits)
  let ?others = "js_sort reading_cmp (filter (\<lambda>other. li_i other \<noteq> pinned) layout)"
  note pin = find_pin [OF f]
  have "sizes_ok ([pin] @ ?others)" using assms(3) pin by (auto simp: sizes_ok_def)
  note r = seat_all_adoptable [OF s ok this]
  from r have "take 1 result = [pin]" by simp
  then have "pin \<in> set result" by (metis in_set_takeD list.set_intros(1))
  moreover have "mset (map shape_of result) = mset (map shape_of layout)"
  proof -
    have "mset ([pin] @ ?others) = mset layout"
      using pin_first [OF assms(2)] pin by simp
    then have "mset (map shape_of ([pin] @ ?others)) = mset (map shape_of layout)"
      by (metis mset_map)
    with r show ?thesis by metis
  qed
  ultimately show ?thesis using r pin by blast
qed

lemma repackAround_adoptable_witness:
  "\<exists>result. repackAround [box ''a'' 0 0 4 2, box ''b'' 0 1 4 2, box ''c'' 4 0 4 2] 8 4 ''b'' = Some result \<and>
     isAdoptable result 8 4"
proof -
  let ?l = "[box ''a'' 0 0 4 2, box ''b'' 0 1 4 2, box ''c'' 4 0 4 2]"
  have r: "repackAround ?l 8 4 ''b'' = Some [box ''b'' 0 1 4 2, box ''a'' 4 0 4 2, box ''c'' 4 2 4 2]"
    by code_simp
  have "distinct (map li_i ?l)" "\<forall>item \<in> set ?l. 1 \<le> li_w item \<and> 1 \<le> li_h item"
    by (simp_all add: box_def)
  from repackAround_adoptable [OF r this] r show ?thesis by blast
qed

section \<open>The repair\<close>

lemma repack_into_bounds:
  assumes "\<forall>item \<in> set placed. in_bounds cols rows item" "sizes_ok (placed @ items)"
    and "1 \<le> cols" "1 \<le> rows"
  shows "(\<forall>item \<in> set (repack_into cols rows placed items). in_bounds cols rows item) \<and>
     map li_i (repack_into cols rows placed items) = map li_i (placed @ items)"
  using assms(1,2)
proof (induction items arbitrary: placed)
  case (Cons item items)
  let ?w = "min (li_w item) cols" and ?h = "min (li_h item) rows"
  obtain x y where xy: "(case firstFreeSlot placed ?w ?h cols rows of
      Some seat \<Rightarrow> seat | None \<Rightarrow> (0, max 0 (rows - ?h))) = (x, y)" by force
  let ?i = "item\<lparr>li_x := x, li_y := y, li_w := ?w, li_h := ?h\<rparr>"
  have "sizes_ok placed" using Cons.prems(2) by (auto simp: sizes_ok_def)
  then have "edges_ok placed" using Cons.prems(1) by (fastforce simp: sizes_ok_def edges_ok_def in_bounds_def)
  then have ff: "first_free placed ?w ?h cols rows (firstFreeSlot placed ?w ?h cols rows)"
    by (rule firstFreeSlot_first_free)
  have "in_bounds cols rows ?i"
  proof (cases "firstFreeSlot placed ?w ?h cols rows")
    case None
    with xy show ?thesis by (auto simp: in_bounds_def)
  next
    case (Some seat)
    with xy ff show ?thesis by (simp add: first_free_simps free_at_def in_bounds_def)
  qed
  moreover have "sizes_ok ((placed @ [?i]) @ items)"
    using Cons.prems(2) assms(3,4) by (auto simp: sizes_ok_def)
  ultimately have "(\<forall>item \<in> set (repack_into cols rows (placed @ [?i]) items). in_bounds cols rows item) \<and>
      map li_i (repack_into cols rows (placed @ [?i]) items) = map li_i ((placed @ [?i]) @ items)"
    using Cons.prems(1) by (intro Cons.IH) auto
  then show ?case using xy by (simp add: Let_def)
qed simp

lemma repack_bounds:
  assumes "sizes_ok layout" "1 \<le> cols" "1 \<le> rows"
  shows "\<forall>item \<in> set (repack layout cols rows). in_bounds cols rows item"
    and "mset (map li_i (repack layout cols rows)) = mset (map li_i layout)"
proof -
  have "sizes_ok ([] @ js_sort reading_cmp layout)" using assms(1) by (simp add: sizes_ok_def)
  from repack_into_bounds [OF _ this assms(2,3)]
  show "\<forall>item \<in> set (repack layout cols rows). in_bounds cols rows item"
    and "mset (map li_i (repack layout cols rows)) = mset (map li_i layout)"
    by (simp_all add: repack_def)
qed

text \<open>The fallback seat is the only one that may overlap: a repair in which every widget finds a slot is adoptable.\<close>

fun all_seated :: "int \<Rightarrow> int \<Rightarrow> layout_item list \<Rightarrow> layout_item list \<Rightarrow> bool" where
  "all_seated cols rows placed [] = True"
| "all_seated cols rows placed (item # rest) =
     (case firstFreeSlot placed (min (li_w item) cols) (min (li_h item) rows) cols rows of
        None \<Rightarrow> False
      | Some (x, y) \<Rightarrow> all_seated cols rows (placed @ [item\<lparr>li_x := x, li_y := y,
          li_w := min (li_w item) cols, li_h := min (li_h item) rows\<rparr>]) rest)"

lemma repack_into_adoptable:
  assumes "isAdoptable placed cols rows" "sizes_ok (placed @ items)" "1 \<le> cols" "1 \<le> rows"
    and "all_seated cols rows placed items"
  shows "isAdoptable (repack_into cols rows placed items) cols rows"
  using assms(1,2,5)
proof (induction items arbitrary: placed)
  case (Cons item items)
  let ?w = "min (li_w item) cols" and ?h = "min (li_h item) rows"
  from Cons.prems(3) obtain x y where slot: "firstFreeSlot placed ?w ?h cols rows = Some (x, y)"
    and rest: "all_seated cols rows (placed @ [item\<lparr>li_x := x, li_y := y, li_w := ?w, li_h := ?h\<rparr>]) items"
    by (auto split: option.splits prod.splits)
  have "sizes_ok placed" using Cons.prems(2) by (auto simp: sizes_ok_def)
  from seat_adoptable [OF Cons.prems(1) this slot, of item] rest
  have "isAdoptable (repack_into cols rows (placed @ [item\<lparr>li_x := x, li_y := y, li_w := ?w, li_h := ?h\<rparr>]) items) cols rows"
    using Cons.prems(2) assms(3,4) by (intro Cons.IH) (auto simp: sizes_ok_def)
  with slot show ?case by (simp add: Let_def)
qed simp

lemma repack_adoptable:
  "sizes_ok layout \<Longrightarrow> 1 \<le> cols \<Longrightarrow> 1 \<le> rows \<Longrightarrow>
     all_seated cols rows [] (js_sort reading_cmp layout) \<Longrightarrow> isAdoptable (repack layout cols rows) cols rows"
  unfolding repack_def
  by (rule repack_into_adoptable) (simp_all add: sizes_ok_def isAdoptable_iff)

end
