(* ===== verification/GridGesture.thy ===== *)
theory GridGesture
  imports Grid Complex_Main
begin

text \<open>
  Gestures on the board (\<open>DashboardGrid.tsx\<close>): the bounded compactor react-grid-layout is given, the
  handlers of its callbacks, the minimum sizes, the one-column projection for narrow screens and the
  pixel arithmetic of rows and gaps.

  react-grid-layout is not part of the repository. Its \<open>verticalCompactor.compact\<close> is the argument
  \<open>vc\<close>, of which the theorems assume only that it moves items and changes neither which there
  are nor their sizes (\<open>keeps_shapes\<close>); what it hands to a handler is the handler's argument. A
  measured length in pixels is a \<^typ>\<open>rat\<close>.

  The lemmas show that the compactor never returns a layout outside the grid and that what the
  warning says is what it does; that a gesture the client saves is one the server stores; that the
  stack is one gapless column; and that rows and gaps fill one screen and never exceed it.
\<close>

type_synonym compaction = "layout_item list \<Rightarrow> int \<Rightarrow> layout_item list"

definition keeps_shapes :: "compaction \<Rightarrow> bool" where
  "keeps_shapes vc \<longleftrightarrow>
     (\<forall>layout cols. mset (map shape_of (vc layout cols)) = mset (map shape_of layout))"

definition DESKTOP_COLUMNS :: int where "DESKTOP_COLUMNS = 24"
definition DESKTOP_ROWS :: int where "DESKTOP_ROWS = 24"
definition MIN_WIDGET_WIDTH :: int where "MIN_WIDGET_WIDTH = 4"
definition MIN_WIDGET_HEIGHT :: int where "MIN_WIDGET_HEIGHT = 4"
definition MIN_CALENDAR_WIDTH :: int where "MIN_CALENDAR_WIDTH = 8"
definition MIN_CALENDAR_HEIGHT :: int where "MIN_CALENDAR_HEIGHT = 8"

lemmas grid_constants = DESKTOP_COLUMNS_def DESKTOP_ROWS_def MIN_WIDGET_WIDTH_def MIN_WIDGET_HEIGHT_def
  MIN_CALENDAR_WIDTH_def MIN_CALENDAR_HEIGHT_def GRID_COLUMNS_def GRID_ROWS_def

section \<open>The bounded compactor\<close>

definition settle :: "compaction \<Rightarrow> layout_item list \<Rightarrow> int \<Rightarrow> int \<Rightarrow> layout_item list \<times> bool" where
  "settle vc layout cols rows =
     (let settled = vc layout cols in (settled, isAdoptable settled cols rows))"

definition resolve ::
    "compaction \<Rightarrow> layout_item list \<Rightarrow> int \<Rightarrow> int \<Rightarrow> string option \<Rightarrow>
       layout_item list \<times> layout_item list option" where
  "resolve vc layout cols rows pinned =
     (let (settled, fits) = settle vc layout cols rows in
      if fits then (settled, Some settled)
      else (settled, case pinned of None \<Rightarrow> None | Some pin \<Rightarrow> repackAround settled cols rows pin))"

record compactor =
  cp_lastFitting :: "layout_item list option"
  cp_moving :: "string option"

definition initial_compactor :: compactor where
  "initial_compactor = \<lparr>cp_lastFitting = None, cp_moving = None\<rparr>"

definition beginGesture :: "int \<Rightarrow> layout_item list \<Rightarrow> string option \<Rightarrow> compactor \<Rightarrow> compactor" where
  "beginGesture rows layout item cp =
     (let cp = cp\<lparr>cp_moving := item\<rparr> in
      if isAdoptable layout DESKTOP_COLUMNS rows then cp\<lparr>cp_lastFitting := Some layout\<rparr> else cp)"

definition endGesture :: "compactor \<Rightarrow> compactor" where
  "endGesture cp = cp\<lparr>cp_moving := None\<rparr>"

definition accepts :: "compaction \<Rightarrow> int \<Rightarrow> layout_item list \<Rightarrow> int \<Rightarrow> compactor \<Rightarrow> bool" where
  "accepts vc rows layout cols cp \<longleftrightarrow> snd (resolve vc layout cols rows (cp_moving cp)) \<noteq> None"

definition bounded_compact ::
    "compaction \<Rightarrow> int \<Rightarrow> layout_item list \<Rightarrow> int \<Rightarrow> compactor \<Rightarrow> layout_item list \<times> compactor" where
  "bounded_compact vc rows layout cols cp =
     (let (settled, taken) = resolve vc layout cols rows (cp_moving cp);
          repaired = (let repacked = repack settled cols rows
                      in (repacked, cp\<lparr>cp_lastFitting := Some repacked\<rparr>))
      in case taken of
        Some t \<Rightarrow> (t, cp\<lparr>cp_lastFitting := Some t\<rparr>)
      | None \<Rightarrow>
          (case cp_lastFitting cp of
             None \<Rightarrow> repaired
           | Some previous \<Rightarrow> if sameOccupants previous settled then (previous, cp) else repaired))"

text \<open>A layout as the board holds it: each widget once, and of some size.\<close>

definition proper :: "layout_item list \<Rightarrow> bool" where
  "proper layout \<longleftrightarrow> distinct (map li_i layout) \<and> sizes_ok layout"

lemma shapes_ids: "mset (map shape_of a) = mset (map shape_of b) \<Longrightarrow> mset (map li_i a) = mset (map li_i b)"
proof -
  assume "mset (map shape_of a) = mset (map shape_of b)"
  then have "mset (map fst (map shape_of a)) = mset (map fst (map shape_of b))"
    by (metis mset_map)
  then show ?thesis by (simp add: shape_of_def comp_def)
qed

lemma sizes_ok_shapes:
  "sizes_ok layout \<longleftrightarrow> (\<forall>s \<in> shape_of ` set layout. 1 \<le> fst (snd s) \<and> 1 \<le> snd (snd s))"
  by (simp add: sizes_ok_def shape_of_def)

lemma shapes_proper:
  assumes "mset (map shape_of a) = mset (map shape_of b)" "proper b"
  shows "proper a"
proof -
  have "distinct (map li_i a)"
    using assms shapes_ids by (metis mset_eq_imp_distinct_iff proper_def)
  moreover have "shape_of ` set a = shape_of ` set b"
    using assms(1) by (metis set_map set_mset_mset)
  then have "sizes_ok a"
    using assms(2) unfolding proper_def sizes_ok_shapes by simp
  ultimately show ?thesis by (simp add: proper_def)
qed

lemma same_occupants_ids:
  assumes "sameOccupants a b" "distinct (map li_i a)" "distinct (map li_i b)"
  shows "mset (map li_i a) = mset (map li_i b)"
proof -
  have len: "length a = length b" and sub: "set (map li_i b) \<subseteq> set (map li_i a)"
    using assms(1) by (auto simp: sameOccupants_def list_all_iff split: if_splits)
  have "card (set (map li_i a)) = card (set (map li_i b))"
    using assms(2,3) len by (metis distinct_card length_map)
  with sub have "set (map li_i a) = set (map li_i b)"
    by (metis card_subset_eq finite_set)
  with assms(2,3) show ?thesis
    using set_eq_iff_mset_eq_distinct [of "map li_i a" "map li_i b"] by simp
qed

text \<open>What the compactor remembers: an arrangement inside the grid.\<close>

definition compactor_ok :: "int \<Rightarrow> int \<Rightarrow> compactor \<Rightarrow> bool" where
  "compactor_ok cols rows cp \<longleftrightarrow>
     (case cp_lastFitting cp of None \<Rightarrow> True
      | Some l \<Rightarrow> distinct (map li_i l) \<and> (\<forall>item \<in> set l. in_bounds cols rows item))"

lemma resolve_taken:
  assumes "keeps_shapes vc" "proper layout" "resolve vc layout cols rows pinned = (settled, Some t)"
  shows "isAdoptable t cols rows \<and> mset (map shape_of t) = mset (map shape_of layout)"
proof -
  have s: "settled = vc layout cols" and shapes: "mset (map shape_of settled) = mset (map shape_of layout)"
    using assms(1,3) by (auto simp: resolve_def settle_def keeps_shapes_def Let_def split: if_splits)
  show ?thesis
  proof (cases "isAdoptable settled cols rows")
    case True
    with assms(3) s shapes show ?thesis by (auto simp: resolve_def settle_def Let_def)
  next
    case False
    with assms(3) s obtain pin where "repackAround settled cols rows pin = Some t"
      by (auto simp: resolve_def settle_def Let_def split: option.splits)
    from repackAround_adoptable [OF this] shapes_proper [OF shapes assms(2)] shapes show ?thesis
      by (simp add: proper_def sizes_ok_def)
  qed
qed

lemma compact_in_bounds:
  assumes "keeps_shapes vc" "proper layout" "compactor_ok cols rows cp" "1 \<le> cols" "1 \<le> rows"
    and "bounded_compact vc rows layout cols cp = (out, cp')"
  shows "(\<forall>item \<in> set out. in_bounds cols rows item) \<and> mset (map li_i out) = mset (map li_i layout) \<and>
     compactor_ok cols rows cp'"
proof -
  obtain settled taken where r: "resolve vc layout cols rows (cp_moving cp) = (settled, taken)" by force
  then have s: "settled = vc layout cols"
    by (auto simp: resolve_def settle_def Let_def split: if_splits)
  have shapes: "mset (map shape_of settled) = mset (map shape_of layout)"
    using assms(1) s by (simp add: keeps_shapes_def)
  note proper = shapes_proper [OF shapes assms(2)]
  note ids = shapes_ids [OF shapes]
  show ?thesis
  proof (cases taken)
    case (Some t)
    note t = resolve_taken [OF assms(1,2) r [unfolded Some]]
    from shapes_proper [OF _ assms(2), of t] t have "proper t" by simp
    with t shapes_ids [of t layout] Some r assms(6) show ?thesis
      by (auto simp: bounded_compact_def Let_def compactor_ok_def isAdoptable_iff proper_def)
  next
    case None
    note repair = repack_bounds [of settled cols rows]
    have fixed: "(\<forall>item \<in> set (repack settled cols rows). in_bounds cols rows item)"
      "mset (map li_i (repack settled cols rows)) = mset (map li_i layout)"
      "distinct (map li_i (repack settled cols rows))"
      using repair proper assms(4,5) ids mset_eq_imp_distinct_iff [OF repair(2)]
      by (auto simp: proper_def)
    have fallback: ?thesis
      if "(repack settled cols rows, cp\<lparr>cp_lastFitting := Some (repack settled cols rows)\<rparr>) = (out, cp')"
      using fixed that by (auto simp: compactor_ok_def)
    show ?thesis
    proof (cases "cp_lastFitting cp")
      case None
      with \<open>taken = None\<close> r assms(6) show ?thesis
        by (intro fallback) (auto simp: bounded_compact_def Let_def)
    next
      case (Some previous)
      show ?thesis
      proof (cases "sameOccupants previous settled")
        case True
        have "distinct (map li_i previous)" using assms(3) Some by (simp add: compactor_ok_def)
        from same_occupants_ids [OF True this] proper ids have "mset (map li_i previous) = mset (map li_i layout)"
          by (simp add: proper_def)
        with True Some \<open>taken = None\<close> r assms(3,6) show ?thesis
          by (auto simp: bounded_compact_def Let_def compactor_ok_def)
      next
        case False
        with Some \<open>taken = None\<close> r assms(6) show ?thesis
          by (intro fallback) (auto simp: bounded_compact_def Let_def)
      qed
    qed
  qed
qed

text \<open>C10. What the warning paints is what the compactor does, and the compactor never lets a widget leave
  the grid: whatever vertical compaction makes of the layout, the answer lies inside the grid and
  holds the same widgets; when the layout is accepted the answer has no overlap either, and when it
  is refused and an arrangement of the same widgets fitted before, the answer is that arrangement.\<close>

theorem compactor_never_leaves_grid:
  assumes "keeps_shapes vc" and "proper layout" and "compactor_ok cols rows cp" and "1 \<le> cols" and "1 \<le> rows"
    and "bounded_compact vc rows layout cols cp = (out, cp')"
  shows "(\<forall>item \<in> set out. in_bounds cols rows item) \<and> mset (map li_i out) = mset (map li_i layout) \<and>
     compactor_ok cols rows cp' \<and>
     (accepts vc rows layout cols cp \<longrightarrow> isAdoptable out cols rows) \<and>
     (\<forall>previous. \<not> accepts vc rows layout cols cp \<longrightarrow> cp_lastFitting cp = Some previous \<longrightarrow>
        sameOccupants previous (vc layout cols) \<longrightarrow> out = previous)"
proof -
  obtain settled taken where r: "resolve vc layout cols rows (cp_moving cp) = (settled, taken)" by force
  then have s: "settled = vc layout cols"
    by (auto simp: resolve_def settle_def Let_def split: if_splits)
  have "isAdoptable out cols rows" if "accepts vc rows layout cols cp"
    using that r assms(6) resolve_taken [OF assms(1,2), of cols rows "cp_moving cp" settled]
    by (auto simp: accepts_def bounded_compact_def Let_def)
  moreover have "out = previous"
    if "\<not> accepts vc rows layout cols cp" "cp_lastFitting cp = Some previous" "sameOccupants previous settled" for previous
    using that r assms(6) by (auto simp: accepts_def bounded_compact_def Let_def)
  ultimately show ?thesis using compact_in_bounds [OF assms] s by blast
qed

definition identity_compaction :: compaction where
  "identity_compaction layout cols = layout"

lemma compactor_never_leaves_grid_witness:
  "list_all (in_bounds 24 24)
     (fst (bounded_compact identity_compaction 24 [box ''a'' 22 0 4 4, box ''b'' 0 30 4 4] 24 initial_compactor))"
proof -
  let ?l = "[box ''a'' 22 0 4 4, box ''b'' 0 30 4 4]"
  obtain out cp' where b: "bounded_compact identity_compaction 24 ?l 24 initial_compactor = (out, cp')" by force
  have "keeps_shapes identity_compaction" by (simp add: keeps_shapes_def identity_compaction_def)
  moreover have "proper ?l" by (simp add: proper_def sizes_ok_def box_def)
  moreover have "compactor_ok 24 24 initial_compactor" by (simp add: compactor_ok_def initial_compactor_def)
  ultimately show ?thesis using compactor_never_leaves_grid [OF _ _ _ _ _ b] b by (simp add: list_all_iff)
qed

section \<open>The handlers\<close>

text \<open>The minimum size a resize may reach, per widget of the stored layout.\<close>

definition widget_types :: "dashboard \<Rightarrow> string \<Rightarrow> widget_type option" where
  "widget_types d = map_of (rev (map (\<lambda>w. (w_id w, w_widget_type w)) (d_widgets d)))"

definition minimum_of :: "dashboard \<Rightarrow> layout_item \<Rightarrow> int \<times> int" where
  "minimum_of d item =
     (let calendar = (widget_types d (li_i item) = Some CalendarW)
      in (min (li_w item) (if calendar then MIN_CALENDAR_WIDTH else MIN_WIDGET_WIDTH),
          min (li_h item) (if calendar then MIN_CALENDAR_HEIGHT else MIN_WIDGET_HEIGHT)))"

definition minimumSizes :: "dashboard \<Rightarrow> string \<Rightarrow> (int \<times> int) option" where
  "minimumSizes d i = map_option (minimum_of d) (layout_map (d_layout d) i)"

definition sameLayout :: "layout_item list \<Rightarrow> layout_item list \<Rightarrow> bool" where
  "sameLayout a b \<longleftrightarrow>
     (if length a \<noteq> length b then False
      else list_all (\<lambda>item. case layout_map a (li_i item) of
             None \<Rightarrow> False
           | Some current \<Rightarrow> li_x current = li_x item \<and> li_y current = li_y item \<and>
               li_w current = li_w item \<and> li_h current = li_h item) b)"

record grid_state =
  gr_draftLayout :: "layout_item list"
  gr_draftBaseVersion :: int
  gr_dropBlocked :: bool
  gr_refusals :: nat
  gr_compactor :: compactor

definition activeLayout :: "dashboard \<Rightarrow> grid_state \<Rightarrow> layout_item list" where
  "activeLayout d gr = (if gr_draftBaseVersion gr = d_version d then gr_draftLayout gr else d_layout d)"

definition handleLayoutChange ::
    "bool \<Rightarrow> bool \<Rightarrow> int \<Rightarrow> dashboard \<Rightarrow> layout_item list \<Rightarrow> grid_state \<Rightarrow> grid_state" where
  "handleLayoutChange isStacked canEdit cols d newLayout gr =
     (if isStacked \<or> \<not> canEdit then gr
      else if \<not> isAdoptable newLayout cols DESKTOP_ROWS then gr\<lparr>gr_dropBlocked := True\<rparr>
      else gr\<lparr>gr_dropBlocked := False, gr_draftBaseVersion := d_version d, gr_draftLayout := newLayout\<rparr>)"

definition handleGestureStart :: "layout_item list \<Rightarrow> layout_item option \<Rightarrow> grid_state \<Rightarrow> grid_state" where
  "handleGestureStart starting item gr =
     gr\<lparr>gr_dropBlocked := False,
        gr_compactor := beginGesture DESKTOP_ROWS starting (map_option li_i item) (gr_compactor gr)\<rparr>"

definition handleGestureMove ::
    "compaction \<Rightarrow> int \<Rightarrow> layout_item list \<Rightarrow> grid_state \<Rightarrow> grid_state" where
  "handleGestureMove vc cols moving gr =
     gr\<lparr>gr_dropBlocked := \<not> accepts vc DESKTOP_ROWS moving cols (gr_compactor gr)\<rparr>"

text \<open>The second component is the call of \<open>saveLayout\<close>, if one is made.\<close>

definition handleLayoutStop ::
    "bool \<Rightarrow> bool \<Rightarrow> int \<Rightarrow> dashboard \<Rightarrow> layout_item list \<Rightarrow> layout_item option \<Rightarrow> gesture_action \<Rightarrow>
       grid_state \<Rightarrow> grid_state \<times> (layout_item list \<times> layout_gesture option) option" where
  "handleLayoutStop canEdit isStacked cols d newLayout gestured action gr =
     (if \<not> canEdit \<or> isStacked then (gr, None)
      else
        let gr = gr\<lparr>gr_dropBlocked := False, gr_compactor := endGesture (gr_compactor gr)\<rparr> in
        if \<not> isAdoptable newLayout cols DESKTOP_ROWS then (gr\<lparr>gr_refusals := gr_refusals gr + 1\<rparr>, None)
        else
          let gr = gr\<lparr>gr_draftBaseVersion := d_version d, gr_draftLayout := newLayout\<rparr> in
          if sameLayout (d_layout d) newLayout then (gr, None)
          else (gr, Some (newLayout,
                 map_option (\<lambda>g. \<lparr>g_action = action, g_widget_id = li_i g\<rparr>) gestured)))"

section \<open>What a gesture saves\<close>

lemma adoptable_accepted:
  assumes "isAdoptable layout DESKTOP_COLUMNS DESKTOP_ROWS" "proper layout"
  shows "\<not> reject_impossible_grids layout"
proof -
  have "sorted_wrt (\<lambda>a b. \<not> items_overlap b a) layout"
    using assms(1) by (simp add: isAdoptable_iff flip: overlap_free_server) (simp add: overlap_free_sym)
  with assms show ?thesis
    by (auto simp: reject_impossible_grids_def accepted_from_iff isAdoptable_iff in_bounds_def proper_def
        sizes_ok_def grid_constants)
qed

lemma minimum_agrees:
  assumes "layout_map (d_layout d) (li_i item) = Some previous"
    and "sb_layout sb = d_layout d" and "map_of (sb_widget_types sb) (li_i item) = widget_types d (li_i item)"
  shows "below_minimum sb item \<longleftrightarrow>
     li_w item < fst (minimum_of d previous) \<or> li_h item < snd (minimum_of d previous)"
  using assms layout_map_Some [OF assms(1)]
  by (auto simp: below_minimum_def minimum_widget_size_def minimum_of_def grid_constants)

text \<open>C9. A gesture the client saves is one the server stores. When the handler calls \<open>saveLayout\<close> on a
  board that is in step with the server, and the library kept each widget at or above the minimum
  size it was given, the write path raises neither of its refusals: the layout passes the validator,
  the version matches and no widget is below its minimum.\<close>

theorem gesture_save_is_stored:
  assumes "handleLayoutStop canEdit isStacked DESKTOP_COLUMNS d newLayout gestured action gr =
      (gr', Some (layout, gesture))"
    and "proper newLayout"
    and "\<forall>item \<in> set newLayout. \<exists>min_w min_h. minimumSizes d (li_i item) = Some (min_w, min_h) \<and>
           min_w \<le> li_w item \<and> min_h \<le> li_h item"
    and "sb_layout sb = d_layout d" and "sb_version sb = d_version d"
    and "\<forall>i. map_of (sb_widget_types sb) i = widget_types d i"
  shows "canEdit \<and> \<not> isStacked \<and>
     update_layout sb layout (d_version d) = Inr (sb\<lparr>sb_layout := layout, sb_version := sb_version sb + 1\<rparr>)"
proof -
  from assms(1) have h: "canEdit" "\<not> isStacked" "layout = newLayout"
    "isAdoptable newLayout DESKTOP_COLUMNS DESKTOP_ROWS"
    by (auto simp: handleLayoutStop_def Let_def split: if_splits)
  have "\<not> below_minimum sb item" if item: "item \<in> set newLayout" for item
  proof -
    from assms(3) item obtain min_w min_h where m: "minimumSizes d (li_i item) = Some (min_w, min_h)"
      "min_w \<le> li_w item" "min_h \<le> li_h item" by blast
    then obtain previous where "layout_map (d_layout d) (li_i item) = Some previous"
      "minimum_of d previous = (min_w, min_h)" by (auto simp: minimumSizes_def)
    with m minimum_agrees [of d item previous sb] assms(4,6) show ?thesis by simp
  qed
  then have "\<not> list_ex (below_minimum sb) newLayout" by (simp add: list_ex_iff)
  with h adoptable_accepted [OF h(4) assms(2)] assms(5) show ?thesis
    by (simp add: update_layout_def)
qed

definition idle_grid :: grid_state where
  "idle_grid = \<lparr>gr_draftLayout = [], gr_draftBaseVersion = 0, gr_dropBlocked = False, gr_refusals = 0,
     gr_compactor = initial_compactor\<rparr>"

lemma gesture_save_is_stored_witness:
  "let sb = \<lparr>sb_id = ''d1'', sb_version = 3, sb_layout = [box ''a'' 0 0 4 4], sb_widget_types = []\<rparr>
   in update_layout sb [box ''a'' 8 0 4 6] 3 = Inr (sb\<lparr>sb_layout := [box ''a'' 8 0 4 6], sb_version := 4\<rparr>)"
proof -
  let ?d = "board ''d1'' 3 [box ''a'' 0 0 4 4]"
  let ?sb = "\<lparr>sb_id = ''d1'', sb_version = 3, sb_layout = [box ''a'' 0 0 4 4], sb_widget_types = []\<rparr>"
  obtain gr' where h: "handleLayoutStop True False DESKTOP_COLUMNS ?d [box ''a'' 8 0 4 6] None Resized idle_grid =
      (gr', Some ([box ''a'' 8 0 4 6], None))"
    by (simp add: handleLayoutStop_def sameLayout_def layout_map_def board_def box_def isAdoptable_iff
        in_bounds_def grid_constants Let_def)
  have "proper [box ''a'' 8 0 4 6]" by (simp add: proper_def sizes_ok_def box_def)
  moreover have "\<forall>item \<in> set [box ''a'' 8 0 4 6]. \<exists>min_w min_h. minimumSizes ?d (li_i item) = Some (min_w, min_h) \<and>
      min_w \<le> li_w item \<and> min_h \<le> li_h item"
    by (simp add: minimumSizes_def layout_map_def minimum_of_def widget_types_def board_def box_def grid_constants)
  moreover have "sb_layout ?sb = d_layout ?d" "sb_version ?sb = d_version ?d"
    "\<forall>i. map_of (sb_widget_types ?sb) i = widget_types ?d i"
    by (simp_all add: board_def widget_types_def)
  ultimately show ?thesis
    using gesture_save_is_stored [OF h, of ?sb] by (simp add: board_def Let_def)
qed

section \<open>What is presented\<close>

text \<open>An item with the limits react-grid-layout reads; \<open>None\<close> where the key is absent.\<close>

record presented_item = layout_item +
  pr_minW :: "int option"
  pr_minH :: "int option"
  pr_maxW :: "int option"
  pr_maxH :: "int option"

definition present :: "layout_item \<Rightarrow> int option \<Rightarrow> int option \<Rightarrow> int option \<Rightarrow> int option \<Rightarrow> presented_item" where
  "present item min_w min_h max_w max_h = layout_item.extend item
     (presented_item.fields min_w min_h max_w max_h)"

definition STACK_MAX_ROWS :: int where "STACK_MAX_ROWS = 12"

definition stack_cmp :: "(string \<Rightarrow> string \<Rightarrow> int) \<Rightarrow> layout_item \<Rightarrow> layout_item \<Rightarrow> int" where
  "stack_cmp lc a b =
     (if li_y a \<noteq> li_y b then li_y a - li_y b
      else if li_x a \<noteq> li_x b then li_x a - li_x b
      else lc (li_i a) (li_i b))"

fun stack_from :: "int \<Rightarrow> layout_item list \<Rightarrow> layout_item list" where
  "stack_from nextY [] = []"
| "stack_from nextY (item # rest) =
     (let h = min (max 1 (li_h item)) STACK_MAX_ROWS
      in item\<lparr>li_x := 0, li_y := nextY, li_w := 1, li_h := h\<rparr> # stack_from (nextY + h) rest)"

definition stackedLayout :: "(string \<Rightarrow> string \<Rightarrow> int) \<Rightarrow> layout_item list \<Rightarrow> layout_item list" where
  "stackedLayout lc layout = stack_from 0 (js_sort (stack_cmp lc) layout)"

definition presentedLayout ::
    "(string \<Rightarrow> string \<Rightarrow> int) \<Rightarrow> bool \<Rightarrow> dashboard \<Rightarrow> int \<Rightarrow> layout_item list \<Rightarrow> presented_item list" where
  "presentedLayout lc isStacked d cols active =
     (if isStacked then map (\<lambda>item. present item None None None None) (stackedLayout lc active)
      else map (\<lambda>item. present item
             (map_option fst (minimumSizes d (li_i item))) (map_option snd (minimumSizes d (li_i item)))
             (Some (max (li_w item) (cols - li_x item))) (Some (max (li_h item) (DESKTOP_ROWS - li_y item))))
           active)"

lemma stack_from_facts:
  "map li_i (stack_from y items) = map li_i items"
  "item \<in> set (stack_from y items) \<Longrightarrow>
     li_x item = 0 \<and> li_w item = 1 \<and> 1 \<le> li_h item \<and> li_h item \<le> STACK_MAX_ROWS \<and> y \<le> li_y item"
  "k < length items \<Longrightarrow> li_y (stack_from y items ! k) = y + sum_list (map li_h (take k (stack_from y items)))"
proof (induction items arbitrary: y k)
  case (Cons a items)
  { case 1 show ?case using Cons.IH(1) by (simp add: Let_def) }
  { case 2
    then show ?case using Cons.IH(2) [of "y + min (max 1 (li_h a)) STACK_MAX_ROWS"]
      by (auto simp: Let_def STACK_MAX_ROWS_def) }
  { case 3
    then show ?case using Cons.IH(3) by (cases k) (simp_all add: Let_def add.assoc) }
qed simp_all

lemma stack_from_adoptable:
  "0 \<le> y \<Longrightarrow> isAdoptable (stack_from y items) 1 (y + sum_list (map li_h (stack_from y items)))"
proof (induction items arbitrary: y)
  case (Cons a items)
  define h where "h = min (max 1 (li_h a)) STACK_MAX_ROWS"
  let ?top = "a\<lparr>li_x := 0, li_y := y, li_w := 1, li_h := h\<rparr>" and ?rest = "stack_from (y + h) items"
  have h: "1 \<le> h" by (simp add: h_def STACK_MAX_ROWS_def)
  have split: "stack_from y (a # items) = ?top # ?rest" by (simp add: h_def Let_def)
  have below: "overlap_free ?top item" if "item \<in> set ?rest" for item
    using stack_from_facts(2) [OF that] by (simp add: overlap_free_def)
  have "0 \<le> sum_list (map li_h ?rest)"
  proof (rule sum_list_nonneg)
    fix v assume "v \<in> set (map li_h ?rest)"
    then show "0 \<le> v" using stack_from_facts(2) [of _ "y + h" items] by force
  qed
  then have top: "in_bounds 1 (y + h + sum_list (map li_h ?rest)) ?top"
    using Cons.prems h by (simp add: in_bounds_def)
  have rest: "isAdoptable ?rest 1 (y + h + sum_list (map li_h ?rest))"
    using Cons.prems h by (intro Cons.IH) simp
  show ?case
    unfolding split using top below rest by (simp add: isAdoptable_iff add.assoc)
qed (simp add: isAdoptable_iff)

text \<open>On a narrow screen the board becomes one gapless column: every widget once, one column wide and
  one to twelve rows high, each starting where the one above ends, so nothing overlaps and nothing
  is left of or above the column.\<close>

theorem stacked_board_is_one_column:
  "let s = stackedLayout lc layout in
     mset (map li_i s) = mset (map li_i layout) \<and>
     (\<forall>item \<in> set s. li_x item = 0 \<and> li_w item = 1 \<and> 1 \<le> li_h item \<and> li_h item \<le> 12) \<and>
     (\<forall>k < length s. li_y (s ! k) = sum_list (map li_h (take k s))) \<and>
     isAdoptable s 1 (sum_list (map li_h s))"
proof -
  let ?j = "js_sort (stack_cmp lc) layout"
  have len: "length (stack_from 0 ?j) = length ?j"
    using stack_from_facts(1) [of 0 ?j] by (metis length_map)
  have ids: "mset (map li_i (stack_from 0 ?j)) = mset (map li_i layout)"
    unfolding stack_from_facts(1) by simp
  have places: "\<forall>item \<in> set (stack_from 0 ?j). li_x item = 0 \<and> li_w item = 1 \<and> 1 \<le> li_h item \<and> li_h item \<le> 12"
    using stack_from_facts(2) [where y = 0 and items = ?j] by (simp add: STACK_MAX_ROWS_def)
  have tops: "\<forall>k < length (stack_from 0 ?j). li_y (stack_from 0 ?j ! k) = sum_list (map li_h (take k (stack_from 0 ?j)))"
    using stack_from_facts(3) [where y = 0 and items = ?j] len by simp
  from ids places tops stack_from_adoptable [of 0 ?j] show ?thesis
    by (simp add: stackedLayout_def Let_def)
qed

lemma stacked_board_is_one_column_witness:
  "mset (map li_i (stackedLayout str_cmp [box ''b'' 0 4 4 20, box ''a'' 0 0 8 4])) = {#''a'', ''b''#}"
  using stacked_board_is_one_column [of str_cmp "[box ''b'' 0 4 4 20, box ''a'' 0 0 8 4]"]
  by (simp add: Let_def box_def)

section \<open>Pixels\<close>

definition MIN_AVAILABLE_HEIGHT :: rat where "MIN_AVAILABLE_HEIGHT = 320"
definition MIN_ROW_HEIGHT :: int where "MIN_ROW_HEIGHT = 1"
definition MAX_MARGIN :: int where "MAX_MARGIN = 12"
definition STACK_BELOW :: rat where "STACK_BELOW = 960"
definition STACK_ROW_HEIGHT :: int where "STACK_ROW_HEIGHT = 36"

definition available_height :: "rat \<Rightarrow> rat" where
  "available_height room = max MIN_AVAILABLE_HEIGHT room"

definition is_stacked :: "rat \<Rightarrow> bool" where
  "is_stacked containerWidth \<longleftrightarrow> containerWidth < STACK_BELOW"

definition grid_cols :: "bool \<Rightarrow> int" where
  "grid_cols isStacked = (if isStacked then 1 else DESKTOP_COLUMNS)"

definition verticalMargin :: "bool \<Rightarrow> rat \<Rightarrow> int" where
  "verticalMargin isStacked availableHeight =
     (if isStacked then 8
      else max 2 (min MAX_MARGIN \<lfloor>availableHeight / rat_of_int (4 * DESKTOP_ROWS - 1)\<rfloor>))"

definition rowHeight :: "bool \<Rightarrow> rat \<Rightarrow> int" where
  "rowHeight isStacked availableHeight =
     (if isStacked then STACK_ROW_HEIGHT
      else max MIN_ROW_HEIGHT
        \<lfloor>(availableHeight - rat_of_int (verticalMargin isStacked availableHeight * (DESKTOP_ROWS - 1)))
           / rat_of_int DESKTOP_ROWS\<rfloor>)"

text \<open>The board is one screen: its 24 rows and the 23 gaps between them never exceed the height
  available, leave less than one pixel per row of it unused, and a gap is at most a third of a row.\<close>

theorem rows_and_gaps_fill_the_screen:
  "let H = available_height room; m = verticalMargin False H; r = rowHeight False H in
     rat_of_int (24 * r + 23 * m) \<le> H \<and> H < rat_of_int (24 * (r + 1) + 23 * m) \<and> 3 * m \<le> r"
proof -
  define H where "H = available_height room"
  have H: "320 \<le> H" by (simp add: H_def available_height_def MIN_AVAILABLE_HEIGHT_def)
  define k where "k = \<lfloor>H / 95\<rfloor>"
  have k: "3 \<le> k" "rat_of_int k * 95 \<le> H"
  proof -
    have "3 \<le> H / 95" using H by simp
    then show "3 \<le> k" by (simp add: k_def le_floor_iff)
    have "rat_of_int k \<le> H / 95" unfolding k_def by (rule of_int_floor_le)
    then show "rat_of_int k * 95 \<le> H" by linarith
  qed
  define m where "m = verticalMargin False H"
  have m: "m = min 12 k" "3 \<le> m"
    using k(1) unfolding m_def verticalMargin_def MAX_MARGIN_def DESKTOP_ROWS_def k_def by simp_all
  define q where "q = \<lfloor>(H - rat_of_int (m * 23)) / 24\<rfloor>"
  have "rat_of_int m \<le> rat_of_int k" using m(1) by simp
  with k(2) have "rat_of_int m * 95 \<le> H" by linarith
  then have "rat_of_int (3 * m) \<le> (H - rat_of_int (m * 23)) / 24" by (simp add: field_simps)
  then have third: "3 * m \<le> q" unfolding q_def by (simp only: le_floor_iff)
  have r: "rowHeight False H = q"
    using third m(2) unfolding rowHeight_def MIN_ROW_HEIGHT_def DESKTOP_ROWS_def q_def m_def [symmetric] by simp
  have "rat_of_int q \<le> (H - rat_of_int (m * 23)) / 24" "(H - rat_of_int (m * 23)) / 24 < rat_of_int q + 1"
    unfolding q_def by linarith+
  then have "rat_of_int (24 * q + 23 * m) \<le> H" "H < rat_of_int (24 * (q + 1) + 23 * m)"
    by (simp_all add: field_simps)
  with third r show ?thesis unfolding Let_def H_def [symmetric] m_def [symmetric] by simp
qed

end
