(* ===== verification/ScopedQuery.thy ===== *)
theory ScopedQuery
  imports Contract
begin

text \<open>
  The per-scope query cache (\<open>createScopedQuery\<close> in \<open>frontend/src/resources/scopedQuery.ts\<close>) that
  the list, member and session resources are built on. A cache maps a scope's key to an entry and
  keeps the map in recency order; an entry holds the data, its listeners, the request in flight and
  the \<open>stale\<close> mark.

  A request's continuation writes to the entry object it captured, whether or not the map still
  holds it, so entries live on a heap (\<open>ca_heap\<close>) and the map holds their numbers. Requests in
  flight are parked in \<open>ca_requests\<close>; \<open>answer\<close> is the \<open>then\<close>, \<open>catch\<close> and \<open>finally\<close> of one, taken
  as one step, where the code clears \<open>inFlight\<close> a few microtasks after the state is written. \<open>updateWhere\<close>
  takes any updater; the step \<open>Update\<close> of the runs takes those that never turn the spinner on, which every
  caller's is. \<open>getKey\<close>, the cap and the fallback message are arguments, listeners are numbers, and
  an error is its message.

  The lemmas show that every entry in the map has at most one request, that a spinner is never left
  without one, what eviction drops, that a stale mark is only cleared by a fetch or a seed, and that
  an answer that arrives after a reset reaches no reader.
\<close>

record ('s, 'd) entry =
  en_key :: string
  en_scope :: 's
  en_data :: "'d option"
  en_loading :: bool
  en_error :: "string option"
  en_listeners :: "nat list"
  en_inFlight :: "nat option"
  en_stale :: bool

record ('s, 'd) cache =
  ca_entries :: "(string \<times> nat) list"
  ca_heap :: "nat \<Rightarrow> ('s, 'd) entry option"
  ca_requests :: "(nat \<times> nat \<times> 's) list"
  ca_next :: nat

definition empty_cache :: "('s, 'd) cache" where
  "empty_cache = \<lparr>ca_entries = [], ca_heap = (\<lambda>_. None), ca_requests = [], ca_next = 0\<rparr>"

definition put :: "nat \<Rightarrow> ('s, 'd) entry \<Rightarrow> ('s, 'd) cache \<Rightarrow> ('s, 'd) cache" where
  "put ob en ca = ca\<lparr>ca_heap := (ca_heap ca)(ob \<mapsto> en)\<rparr>"

definition pinned :: "('s, 'd) cache \<Rightarrow> nat \<Rightarrow> bool" where
  "pinned ca ob \<longleftrightarrow>
     (case ca_heap ca ob of None \<Rightarrow> False
      | Some en \<Rightarrow> en_listeners en \<noteq> [] \<or> en_inFlight en \<noteq> None)"

text \<open>The walk of \<open>evictColdEntries\<close>; its first test is the walk's own.\<close>

fun evict_walk :: "nat \<Rightarrow> (string \<times> nat) list \<Rightarrow> ('s, 'd) cache \<Rightarrow> ('s, 'd) cache" where
  "evict_walk cap [] ca = ca"
| "evict_walk cap ((key, ob) # rest) ca =
     (if length (ca_entries ca) \<le> cap then ca
      else if pinned ca ob then evict_walk cap rest ca
      else evict_walk cap rest (ca\<lparr>ca_entries := AList.delete key (ca_entries ca)\<rparr>))"

definition evictColdEntries :: "nat \<Rightarrow> ('s, 'd) cache \<Rightarrow> ('s, 'd) cache" where
  "evictColdEntries cap ca =
     (if length (ca_entries ca) \<le> cap then ca else evict_walk cap (ca_entries ca) ca)"

definition fresh_entry :: "string \<Rightarrow> 's \<Rightarrow> ('s, 'd) entry" where
  "fresh_entry key scope = \<lparr>en_key = key, en_scope = scope, en_data = None, en_loading = False,
     en_error = None, en_listeners = [], en_inFlight = None, en_stale = False\<rparr>"

definition ensureEntry ::
    "('s \<Rightarrow> string) \<Rightarrow> nat \<Rightarrow> 's \<Rightarrow> ('s, 'd) cache \<Rightarrow> nat \<times> ('s, 'd) cache" where
  "ensureEntry getKey cap scope ca =
     (let key = getKey scope in
      case map_of (ca_entries ca) key of
        Some ob \<Rightarrow>
          (case ca_heap ca ob of
             Some en \<Rightarrow> (ob, put ob (en\<lparr>en_scope := scope\<rparr>) ca) | None \<Rightarrow> (ob, ca))
      | None \<Rightarrow>
          let ob = ca_next ca;
              ca = put ob (fresh_entry key scope)
                     (ca\<lparr>ca_entries := AList.update key ob (ca_entries ca), ca_next := ob + 1\<rparr>)
          in (ob, evictColdEntries cap ca))"

definition touch :: "nat \<Rightarrow> ('s, 'd) cache \<Rightarrow> ('s, 'd) cache" where
  "touch ob ca =
     (case ca_heap ca ob of
        None \<Rightarrow> ca
      | Some en \<Rightarrow>
          if map_of (ca_entries ca) (en_key en) = None then ca
          else ca\<lparr>ca_entries := AList.update (en_key en) ob (AList.delete (en_key en) (ca_entries ca))\<rparr>)"

text \<open>\<open>fetch\<close> once it has its entry: what it writes before it sends the request.\<close>

definition begin_fetch :: "bool option \<Rightarrow> nat \<Rightarrow> ('s, 'd) entry \<Rightarrow> ('s, 'd) entry" where
  "begin_fetch bg r en =
     (let hasData = (en_data en \<noteq> None);
          background = (case bg of None \<Rightarrow> hasData | Some b \<Rightarrow> b);
          en = (if \<not> background \<or> \<not> hasData then en\<lparr>en_loading := True, en_error := None\<rparr>
                else if en_error en \<noteq> None then en\<lparr>en_loading := False, en_error := None\<rparr>
                else en)
      in en\<lparr>en_stale := False, en_inFlight := Some r\<rparr>)"

definition fetch ::
    "('s \<Rightarrow> string) \<Rightarrow> nat \<Rightarrow> 's \<Rightarrow> bool option \<Rightarrow> ('s, 'd) cache \<Rightarrow> ('s, 'd) cache" where
  "fetch getKey cap scope bg ca =
     (let (ob, ca) = ensureEntry getKey cap scope ca; ca = touch ob ca in
      case ca_heap ca ob of
        None \<Rightarrow> ca
      | Some en \<Rightarrow>
          if en_inFlight en \<noteq> None then ca
          else let r = ca_next ca in
            (put ob (begin_fetch bg r en) ca)
              \<lparr>ca_next := r + 1, ca_requests := ca_requests ca @ [(r, ob, en_scope en)]\<rparr>)"

definition settle_entry :: "string \<Rightarrow> nat \<Rightarrow> 'd reply \<Rightarrow> ('s, 'd) entry \<Rightarrow> ('s, 'd) entry" where
  "settle_entry fallback r reply en =
     (let en = (case reply of
                  Inr d \<Rightarrow> en\<lparr>en_data := Some d, en_loading := False, en_error := None\<rparr>
                | Inl err \<Rightarrow> en\<lparr>en_loading := False, en_error := Some (error_message err fallback)\<rparr>)
      in if en_inFlight en = Some r then en\<lparr>en_inFlight := None\<rparr> else en)"

definition answer :: "string \<Rightarrow> nat \<Rightarrow> 'd reply \<Rightarrow> ('s, 'd) cache \<Rightarrow> ('s, 'd) cache" where
  "answer fallback r reply ca =
     (case map_of (ca_requests ca) r of
        None \<Rightarrow> ca
      | Some (ob, _) \<Rightarrow>
          let ca = ca\<lparr>ca_requests := AList.delete r (ca_requests ca)\<rparr> in
          (case ca_heap ca ob of None \<Rightarrow> ca | Some en \<Rightarrow> put ob (settle_entry fallback r reply en) ca))"

definition fetchIfStale :: "('s \<Rightarrow> string) \<Rightarrow> nat \<Rightarrow> 's \<Rightarrow> ('s, 'd) cache \<Rightarrow> ('s, 'd) cache" where
  "fetchIfStale getKey cap scope ca =
     (let (ob, ca) = ensureEntry getKey cap scope ca in
      case ca_heap ca ob of
        None \<Rightarrow> ca
      | Some en \<Rightarrow>
          if en_inFlight en \<noteq> None then ca
          else if en_data en \<noteq> None \<and> \<not> en_stale en then ca
          else fetch getKey cap scope None ca)"

text \<open>One entry of \<open>invalidateWhere\<close>'s snapshot.\<close>

definition invalidate_one ::
    "('s \<Rightarrow> string) \<Rightarrow> nat \<Rightarrow> ('s \<Rightarrow> bool) \<Rightarrow> bool option \<Rightarrow> bool \<Rightarrow> nat \<Rightarrow> ('s, 'd) cache \<Rightarrow> ('s, 'd) cache" where
  "invalidate_one getKey cap P bg activeOnly ob ca =
     (case ca_heap ca ob of
        None \<Rightarrow> ca
      | Some en \<Rightarrow>
          if \<not> P (en_scope en) then ca
          else let ca = put ob (en\<lparr>en_stale := True\<rparr>) ca in
            if activeOnly \<and> en_listeners en = [] then ca
            else fetch getKey cap (en_scope en)
                   (Some (case bg of Some b \<Rightarrow> b | None \<Rightarrow> en_data en \<noteq> None)) ca)"

definition invalidateWhere ::
    "('s \<Rightarrow> string) \<Rightarrow> nat \<Rightarrow> ('s \<Rightarrow> bool) \<Rightarrow> bool option \<Rightarrow> bool option \<Rightarrow> ('s, 'd) cache \<Rightarrow> ('s, 'd) cache" where
  "invalidateWhere getKey cap P bg active ca =
     fold (invalidate_one getKey cap P bg (case active of None \<Rightarrow> True | Some b \<Rightarrow> b))
       (map snd (ca_entries ca)) ca"

text \<open>A patch of an entry's state: data, loading and error.\<close>

type_synonym 'd patch = "'d option \<times> bool \<times> string option \<Rightarrow> 'd option \<times> bool \<times> string option"

definition patch_entry :: "'d patch \<Rightarrow> ('s, 'd) entry \<Rightarrow> ('s, 'd) entry" where
  "patch_entry f en =
     (case f (en_data en, en_loading en, en_error en) of
        (d, l, e) \<Rightarrow> en\<lparr>en_data := d, en_loading := l, en_error := e\<rparr>)"

definition update_one ::
    "('s \<Rightarrow> bool) \<Rightarrow> ('s \<Rightarrow> 'd patch) \<Rightarrow> nat \<Rightarrow> ('s, 'd) cache \<Rightarrow> ('s, 'd) cache" where
  "update_one P updater ob ca =
     (case ca_heap ca ob of
        None \<Rightarrow> ca
      | Some en \<Rightarrow> if P (en_scope en) then put ob (patch_entry (updater (en_scope en)) en) ca else ca)"

definition updateWhere ::
    "('s \<Rightarrow> bool) \<Rightarrow> ('s \<Rightarrow> 'd patch) \<Rightarrow> ('s, 'd) cache \<Rightarrow> ('s, 'd) cache" where
  "updateWhere P updater ca = fold (update_one P updater) (map snd (ca_entries ca)) ca"

definition on_entry ::
    "('s \<Rightarrow> string) \<Rightarrow> nat \<Rightarrow> 's \<Rightarrow> (('s, 'd) entry \<Rightarrow> ('s, 'd) entry) \<Rightarrow> ('s, 'd) cache \<Rightarrow> ('s, 'd) cache" where
  "on_entry getKey cap scope f ca =
     (let (ob, ca) = ensureEntry getKey cap scope ca in
      case ca_heap ca ob of None \<Rightarrow> ca | Some en \<Rightarrow> put ob (f en) ca)"

definition seed :: "('s \<Rightarrow> string) \<Rightarrow> nat \<Rightarrow> 's \<Rightarrow> 'd \<Rightarrow> ('s, 'd) cache \<Rightarrow> ('s, 'd) cache" where
  "seed getKey cap scope d =
     on_entry getKey cap scope
       (\<lambda>en. en\<lparr>en_stale := False, en_data := Some d, en_loading := False, en_error := None\<rparr>)"

definition getState ::
    "('s \<Rightarrow> string) \<Rightarrow> nat \<Rightarrow> 's \<Rightarrow> ('s, 'd) cache \<Rightarrow> ('d option \<times> bool \<times> string option) \<times> ('s, 'd) cache" where
  "getState getKey cap scope ca =
     (let (ob, ca) = ensureEntry getKey cap scope ca in
      (case ca_heap ca ob of
         None \<Rightarrow> (None, False, None)
       | Some en \<Rightarrow> (en_data en, en_loading en, en_error en), ca))"

definition reset :: "('s, 'd) cache \<Rightarrow> ('s, 'd) cache" where
  "reset ca = ca\<lparr>ca_entries := []\<rparr>"

text \<open>What \<open>useQuery\<close> does to the cache: rendering reads, subscribing, its effect and \<open>refetch\<close>.\<close>

definition subscribe :: "('s \<Rightarrow> string) \<Rightarrow> nat \<Rightarrow> 's \<Rightarrow> nat \<Rightarrow> ('s, 'd) cache \<Rightarrow> ('s, 'd) cache" where
  "subscribe getKey cap scope l =
     on_entry getKey cap scope (\<lambda>en. en\<lparr>en_listeners := List.insert l (en_listeners en)\<rparr>)"

definition unsubscribe :: "nat \<Rightarrow> nat \<Rightarrow> ('s, 'd) cache \<Rightarrow> ('s, 'd) cache" where
  "unsubscribe ob l ca =
     (case ca_heap ca ob of
        None \<Rightarrow> ca | Some en \<Rightarrow> put ob (en\<lparr>en_listeners := removeAll l (en_listeners en)\<rparr>) ca)"

definition mount_effect :: "('s \<Rightarrow> string) \<Rightarrow> nat \<Rightarrow> 's \<Rightarrow> ('s, 'd) cache \<Rightarrow> ('s, 'd) cache" where
  "mount_effect getKey cap scope ca =
     (let (ob, ca) = ensureEntry getKey cap scope ca in
      case ca_heap ca ob of
        None \<Rightarrow> ca
      | Some en \<Rightarrow>
          if en_data en = None \<or> en_stale en
          then fetch getKey cap scope (Some (en_data en \<noteq> None)) ca else ca)"

text \<open>The callers' patches replace data and error and may turn the spinner off, never on.\<close>

type_synonym 'd quiet_patch = "'d option \<times> string option \<Rightarrow> 'd option \<times> string option \<times> bool"

definition data_patch :: "'d quiet_patch \<Rightarrow> 'd patch" where
  "data_patch f st = (case st of (d, l, e) \<Rightarrow> (case f (d, e) of (d', e', keep) \<Rightarrow> (d', l \<and> keep, e')))"

datatype ('s, 'd) cache_event =
    Fetch 's "bool option"
  | FetchIfStale 's
  | Read 's
  | Invalidate "'s \<Rightarrow> bool" "bool option" "bool option"
  | Update "'s \<Rightarrow> bool" "'s \<Rightarrow> 'd quiet_patch"
  | Seed 's 'd
  | ResetCache
  | Subscribe 's nat
  | Unsubscribe nat nat
  | MountEffect 's
  | Answer nat "'d reply"

fun cache_step ::
    "('s \<Rightarrow> string) \<Rightarrow> nat \<Rightarrow> string \<Rightarrow> ('s, 'd) cache_event \<Rightarrow> ('s, 'd) cache \<Rightarrow> ('s, 'd) cache" where
  "cache_step getKey cap fb (Fetch scope bg) ca = fetch getKey cap scope bg ca"
| "cache_step getKey cap fb (FetchIfStale scope) ca = fetchIfStale getKey cap scope ca"
| "cache_step getKey cap fb (Read scope) ca = snd (getState getKey cap scope ca)"
| "cache_step getKey cap fb (Invalidate P bg active) ca = invalidateWhere getKey cap P bg active ca"
| "cache_step getKey cap fb (Update P f) ca = updateWhere P (\<lambda>scope. data_patch (f scope)) ca"
| "cache_step getKey cap fb (Seed scope d) ca = seed getKey cap scope d ca"
| "cache_step getKey cap fb ResetCache ca = reset ca"
| "cache_step getKey cap fb (Subscribe scope l) ca = subscribe getKey cap scope l ca"
| "cache_step getKey cap fb (Unsubscribe ob l) ca = unsubscribe ob l ca"
| "cache_step getKey cap fb (MountEffect scope) ca = mount_effect getKey cap scope ca"
| "cache_step getKey cap fb (Answer r reply) ca = answer fb r reply ca"

section \<open>The invariant\<close>

definition keys_ok :: "('s \<Rightarrow> string) \<Rightarrow> (string \<times> nat) list \<Rightarrow> (nat \<Rightarrow> ('s, 'd) entry option) \<Rightarrow> bool" where
  "keys_ok getKey es heap \<longleftrightarrow> distinct (map fst es) \<and>
     (\<forall>p \<in> set es. \<exists>en. heap (snd p) = Some en \<and> en_key en = fst p \<and> getKey (en_scope en) = fst p)"

definition requests_ok :: "(nat \<times> nat \<times> 's) list \<Rightarrow> (nat \<Rightarrow> ('s, 'd) entry option) \<Rightarrow> nat \<Rightarrow> bool" where
  "requests_ok rs heap n \<longleftrightarrow> distinct (map fst rs) \<and>
     (\<forall>q \<in> set rs. fst q < n \<and> heap (fst (snd q)) \<noteq> None)"

definition heap_ok :: "(nat \<Rightarrow> ('s, 'd) entry option) \<Rightarrow> nat \<Rightarrow> bool" where
  "heap_ok heap n \<longleftrightarrow> (\<forall>ob. heap ob \<noteq> None \<longrightarrow> ob < n)"

text \<open>An entry's request is the one parked for it, and its spinner is on only while there is one.\<close>

definition entry_ok :: "(nat \<times> nat \<times> 's) list \<Rightarrow> nat \<Rightarrow> ('s, 'd) entry \<Rightarrow> bool" where
  "entry_ok rs ob en \<longleftrightarrow>
     (\<forall>r. en_inFlight en = Some r \<longleftrightarrow> (\<exists>s. (r, ob, s) \<in> set rs)) \<and>
     (en_loading en \<longrightarrow> en_inFlight en \<noteq> None)"

definition cache_inv :: "('s \<Rightarrow> string) \<Rightarrow> ('s, 'd) cache \<Rightarrow> bool" where
  "cache_inv getKey ca \<longleftrightarrow> keys_ok getKey (ca_entries ca) (ca_heap ca) \<and>
     requests_ok (ca_requests ca) (ca_heap ca) (ca_next ca) \<and> heap_ok (ca_heap ca) (ca_next ca) \<and>
     (\<forall>ob en. ca_heap ca ob = Some en \<longrightarrow> entry_ok (ca_requests ca) ob en)"

lemma empty_inv: "cache_inv getKey empty_cache"
  by (simp add: cache_inv_def empty_cache_def keys_ok_def requests_ok_def heap_ok_def)

lemma put_simps [simp]:
  "ca_entries (put ob en ca) = ca_entries ca" "ca_requests (put ob en ca) = ca_requests ca"
  "ca_next (put ob en ca) = ca_next ca" "ca_heap (put ob en ca) = (ca_heap ca)(ob \<mapsto> en)"
  by (simp_all add: put_def)

text \<open>A write that leaves the key and the request of its entry as they are.\<close>

lemma put_inv:
  assumes "cache_inv getKey ca" "ca_heap ca ob = Some en"
    and "en_key en' = en_key en" "getKey (en_scope en') = getKey (en_scope en)"
    and "en_inFlight en' = en_inFlight en" "en_loading en' \<Longrightarrow> en_inFlight en' \<noteq> None"
  shows "cache_inv getKey (put ob en' ca)"
proof -
  have "keys_ok getKey (ca_entries ca) ((ca_heap ca)(ob \<mapsto> en'))"
    using assms(1-4) by (fastforce simp: cache_inv_def keys_ok_def)
  moreover have "requests_ok (ca_requests ca) ((ca_heap ca)(ob \<mapsto> en')) (ca_next ca)"
    using assms(1) by (simp add: cache_inv_def requests_ok_def)
  moreover have "heap_ok ((ca_heap ca)(ob \<mapsto> en')) (ca_next ca)"
    using assms(1,2) by (auto simp: cache_inv_def heap_ok_def)
  moreover have "entry_ok (ca_requests ca) ob en'"
    using assms(1,2,5,6) by (simp add: cache_inv_def entry_ok_def)
  ultimately show ?thesis using assms(1) by (simp add: cache_inv_def)
qed

lemma entries_inv:
  assumes "cache_inv getKey ca" "distinct (map fst es)" "set es \<subseteq> set (ca_entries ca)"
  shows "cache_inv getKey (ca\<lparr>ca_entries := es\<rparr>)"
  using assms by (auto simp: cache_inv_def keys_ok_def)

lemma evict_walk_shape:
  "\<exists>es. evict_walk cap walk ca = ca\<lparr>ca_entries := es\<rparr> \<and> set es \<subseteq> set (ca_entries ca) \<and>
     (distinct (map fst (ca_entries ca)) \<longrightarrow> distinct (map fst es))"
proof (induction cap walk ca rule: evict_walk.induct)
  case (1 cap ca)
  show ?case by (intro exI [of _ "ca_entries ca"]) simp
next
  case (2 cap key ob rest ca)
  show ?case
  proof (cases "length (ca_entries ca) \<le> cap")
    case True
    then show ?thesis by (intro exI [of _ "ca_entries ca"]) simp
  next
    case big: False
    show ?thesis
    proof (cases "pinned ca ob")
      case True
      with 2(1) [OF big True] big show ?thesis by simp
    next
      case False
      have sub: "set (AList.delete key (ca_entries ca)) \<subseteq> set (ca_entries ca)"
        by (auto simp: AList.delete_eq)
      have dis: "distinct (map fst (ca_entries ca)) \<longrightarrow> distinct (map fst (AList.delete key (ca_entries ca)))"
        by (simp add: AList.distinct_delete)
      from 2(2) [OF big False] big False sub dis show ?thesis by fastforce
    qed
  qed
qed

lemma evict_shape:
  "\<exists>es. evictColdEntries cap ca = ca\<lparr>ca_entries := es\<rparr> \<and> set es \<subseteq> set (ca_entries ca) \<and>
     (distinct (map fst (ca_entries ca)) \<longrightarrow> distinct (map fst es))"
proof (cases "length (ca_entries ca) \<le> cap")
  case True
  then show ?thesis by (intro exI [of _ "ca_entries ca"]) (simp add: evictColdEntries_def)
next
  case False
  then show ?thesis using evict_walk_shape [of cap "ca_entries ca" ca] by (simp add: evictColdEntries_def)
qed

lemma evict_inv: "cache_inv getKey ca \<Longrightarrow> cache_inv getKey (evictColdEntries cap ca)"
proof -
  assume inv: "cache_inv getKey ca"
  then have "distinct (map fst (ca_entries ca))" by (simp add: cache_inv_def keys_ok_def)
  with evict_shape [of cap ca] obtain es where "evictColdEntries cap ca = ca\<lparr>ca_entries := es\<rparr>"
    "set es \<subseteq> set (ca_entries ca)" "distinct (map fst es)" by blast
  with entries_inv [OF inv] show ?thesis by metis
qed

lemma evict_lookup:
  assumes "distinct (map fst (ca_entries ca))" "map_of (ca_entries ca) key = Some ob"
  shows "map_of (ca_entries (evictColdEntries cap ca)) key \<in> {None, Some ob}"
proof -
  from evict_shape [of cap ca] assms(1) obtain es where es: "evictColdEntries cap ca = ca\<lparr>ca_entries := es\<rparr>"
    "set es \<subseteq> set (ca_entries ca)" "distinct (map fst es)" by blast
  have "ob' = ob" if "map_of es key = Some ob'" for ob'
    using that es(2) assms map_of_SomeD map_of_is_SomeI by (metis option.inject subset_eq)
  with es(1) show ?thesis by (cases "map_of es key") auto
qed

lemma alist_update_new: "map_of xs k = None \<Longrightarrow> AList.update k v xs = xs @ [(k, v)]"
  by (induction xs) (auto split: if_splits)

lemma inv_entry: "cache_inv getKey ca \<Longrightarrow> ca_heap ca ob = Some en \<Longrightarrow> entry_ok (ca_requests ca) ob en"
  by (simp add: cache_inv_def)

lemma entry_ok_iff: "entry_ok rs ob en \<Longrightarrow> en_inFlight en = Some r \<longleftrightarrow> (\<exists>s. (r, ob, s) \<in> set rs)"
  unfolding entry_ok_def by blast

lemma entry_ok_spinner: "entry_ok rs ob en \<Longrightarrow> en_loading en \<Longrightarrow> en_inFlight en \<noteq> None"
  unfolding entry_ok_def by blast

lemma entry_ok_cong:
  "(\<And>r s. (r, ob, s) \<in> set rs' \<longleftrightarrow> (r, ob, s) \<in> set rs) \<Longrightarrow> entry_ok rs ob en \<Longrightarrow> entry_ok rs' ob en"
  unfolding entry_ok_def by blast

lemmas spinner = entry_ok_spinner [OF inv_entry]
lemmas parked_iff = entry_ok_iff [OF inv_entry]

lemma evict_frame [simp]:
  "ca_heap (evictColdEntries cap ca) = ca_heap ca" "ca_next (evictColdEntries cap ca) = ca_next ca"
  "ca_requests (evictColdEntries cap ca) = ca_requests ca"
  using evict_shape [of cap ca] by auto

lemma new_entry_inv:
  assumes "cache_inv getKey ca" "map_of (ca_entries ca) key = None" "getKey scope = key"
  shows "cache_inv getKey (put (ca_next ca) (fresh_entry key scope)
    (ca\<lparr>ca_entries := AList.update key (ca_next ca) (ca_entries ca), ca_next := ca_next ca + 1\<rparr>))"
proof -
  let ?n = "ca_next ca"
  have free: "ca_heap ca ?n = None" using assms(1) by (auto simp: cache_inv_def heap_ok_def)
  have upd: "AList.update key ?n (ca_entries ca) = ca_entries ca @ [(key, ?n)]"
    using assms(2) by (rule alist_update_new)
  have none: "\<not> (\<exists>r s. (r, ?n, s) \<in> set (ca_requests ca))"
    using assms(1) free by (force simp: cache_inv_def requests_ok_def)
  have "keys_ok getKey (ca_entries ca @ [(key, ?n)]) ((ca_heap ca)(?n \<mapsto> fresh_entry key scope))"
    using assms free by (fastforce simp: cache_inv_def keys_ok_def fresh_entry_def map_of_eq_None_iff)
  moreover have "requests_ok (ca_requests ca) ((ca_heap ca)(?n \<mapsto> fresh_entry key scope)) (?n + 1)"
    using assms(1) by (auto simp: cache_inv_def requests_ok_def)
  moreover have "heap_ok ((ca_heap ca)(?n \<mapsto> fresh_entry key scope)) (?n + 1)"
    using assms(1) by (auto simp: cache_inv_def heap_ok_def less_SucI)
  moreover have "entry_ok (ca_requests ca) ?n (fresh_entry key scope)"
    using none by (simp add: entry_ok_def fresh_entry_def)
  ultimately show ?thesis using assms(1) upd by (simp add: cache_inv_def)
qed

lemma ensureEntry_inv:
  assumes "cache_inv getKey ca" "ensureEntry getKey cap scope ca = (ob, ca')"
  shows "cache_inv getKey ca' \<and> ca_requests ca' = ca_requests ca \<and>
     map_of (ca_entries ca') (getKey scope) \<in> {None, Some ob} \<and>
     (\<exists>en. ca_heap ca' ob = Some en \<and> en_key en = getKey scope \<and> en_scope en = scope)"
proof (cases "map_of (ca_entries ca) (getKey scope)")
  case None
  let ?new = "put (ca_next ca) (fresh_entry (getKey scope) scope)
    (ca\<lparr>ca_entries := AList.update (getKey scope) (ca_next ca) (ca_entries ca), ca_next := ca_next ca + 1\<rparr>)"
  have inv: "cache_inv getKey ?new" by (rule new_entry_inv [OF assms(1) None refl])
  then have "distinct (map fst (ca_entries ?new))" by (simp only: cache_inv_def keys_ok_def)
  moreover have "map_of (ca_entries ?new) (getKey scope) = Some (ca_next ca)"
    by (simp add: update_conv)
  ultimately have "map_of (ca_entries (evictColdEntries cap ?new)) (getKey scope) \<in> {None, Some (ca_next ca)}"
    by (rule evict_lookup)
  with None assms(2) evict_inv [OF inv, of cap] show ?thesis
    by (auto simp: ensureEntry_def Let_def fresh_entry_def)
next
  case (Some ob')
  then have "(getKey scope, ob') \<in> set (ca_entries ca)" by (rule map_of_SomeD)
  with assms(1) obtain en where en: "ca_heap ca ob' = Some en" "en_key en = getKey scope"
    "getKey (en_scope en) = getKey scope"
    by (force simp: cache_inv_def keys_ok_def)
  have "cache_inv getKey (put ob' (en\<lparr>en_scope := scope\<rparr>) ca)"
    using en spinner [OF assms(1) en(1)] by (intro put_inv [OF assms(1) en(1)]) simp_all
  with Some en assms(2) show ?thesis by (auto simp: ensureEntry_def)
qed

lemma touch_inv:
  assumes "cache_inv getKey ca" "ca_heap ca ob = Some en" "map_of (ca_entries ca) (en_key en) \<in> {None, Some ob}"
  shows "cache_inv getKey (touch ob ca)"
proof (cases "map_of (ca_entries ca) (en_key en)")
  case (Some ob')
  with assms(3) have mem: "(en_key en, ob) \<in> set (ca_entries ca)" by (auto dest: map_of_SomeD)
  let ?rest = "AList.delete (en_key en) (ca_entries ca)"
  have new: "AList.update (en_key en) ob ?rest = ?rest @ [(en_key en, ob)]"
    by (rule alist_update_new) (simp add: delete_conv)
  have "distinct (map fst (?rest @ [(en_key en, ob)]))"
    using assms(1) by (auto simp: cache_inv_def keys_ok_def AList.delete_eq distinct_map_filter)
  moreover have "set (?rest @ [(en_key en, ob)]) \<subseteq> set (ca_entries ca)"
    using mem by (auto simp: AList.delete_eq)
  ultimately show ?thesis
    using entries_inv [OF assms(1)] Some assms(2) new by (simp add: touch_def)
qed (simp add: touch_def assms)

lemma touch_frame [simp]:
  "ca_heap (touch ob ca) = ca_heap ca" "ca_next (touch ob ca) = ca_next ca"
  "ca_requests (touch ob ca) = ca_requests ca"
  by (simp_all add: touch_def split: option.split)

lemma begin_fetch_simps [simp]:
  "en_key (begin_fetch bg r en) = en_key en" "en_scope (begin_fetch bg r en) = en_scope en"
  "en_inFlight (begin_fetch bg r en) = Some r" "en_listeners (begin_fetch bg r en) = en_listeners en"
  "\<not> en_stale (begin_fetch bg r en)"
  by (simp_all add: begin_fetch_def Let_def)

text \<open>Sending a request: the entry takes it, and it is parked for that entry alone.\<close>

lemma entry_request_inv:
  assumes "cache_inv getKey ca" "ca_heap ca ob = Some en" "en_inFlight en = None"
  shows "cache_inv getKey ((put ob (begin_fetch bg (ca_next ca) en) ca)
    \<lparr>ca_next := ca_next ca + 1, ca_requests := ca_requests ca @ [(ca_next ca, ob, s)]\<rparr>)"
proof -
  let ?n = "ca_next ca" and ?en = "begin_fetch bg (ca_next ca) en"
  let ?rs = "ca_requests ca @ [(?n, ob, s)]" and ?heap = "(ca_heap ca)(ob \<mapsto> ?en)"
  have idle: "\<not> (\<exists>r s. (r, ob, s) \<in> set (ca_requests ca))"
    using assms(3) parked_iff [OF assms(1,2)] by simp
  have "keys_ok getKey (ca_entries ca) ?heap"
    using assms(1,2) by (fastforce simp: cache_inv_def keys_ok_def)
  moreover have "requests_ok ?rs ?heap (?n + 1)"
    using assms(1,2) by (auto simp: cache_inv_def requests_ok_def less_SucI)
  moreover have "heap_ok ?heap (?n + 1)"
    using assms(1,2) by (auto simp: cache_inv_def heap_ok_def less_SucI)
  moreover have "entry_ok ?rs ob ?en" using idle by (auto simp: entry_ok_def)
  moreover have "entry_ok ?rs ob' en'" if "ca_heap ca ob' = Some en'" "ob' \<noteq> ob" for ob' en'
    by (rule entry_ok_cong [OF _ inv_entry [OF assms(1) that(1)]]) (use that(2) in auto)
  ultimately show ?thesis by (auto simp: cache_inv_def)
qed

lemma fetch_inv: "cache_inv getKey ca \<Longrightarrow> cache_inv getKey (fetch getKey cap scope bg ca)"
proof -
  assume inv: "cache_inv getKey ca"
  obtain ob ca' where e: "ensureEntry getKey cap scope ca = (ob, ca')" by force
  from ensureEntry_inv [OF inv e] obtain en where inv': "cache_inv getKey ca'"
    and en: "ca_heap ca' ob = Some en" "map_of (ca_entries ca') (en_key en) \<in> {None, Some ob}" by auto
  have t: "cache_inv getKey (touch ob ca')" by (rule touch_inv [OF inv' en])
  show ?thesis
    using entry_request_inv [OF t, where ob = ob and en = en and bg = bg] en t e
    by (simp add: fetch_def Let_def)
qed

lemma settle_entry_simps [simp]:
  "en_key (settle_entry fb r reply en) = en_key en" "en_scope (settle_entry fb r reply en) = en_scope en"
  "en_inFlight (settle_entry fb r reply en) = (if en_inFlight en = Some r then None else en_inFlight en)"
  "\<not> en_loading (settle_entry fb r reply en)" "en_stale (settle_entry fb r reply en) = en_stale en"
  by (simp_all add: settle_entry_def Let_def split: sum.split)

lemma entry_answer_inv:
  assumes "cache_inv getKey ca"
  shows "cache_inv getKey (answer fb r reply ca)"
proof (cases "map_of (ca_requests ca) r")
  case (Some q)
  obtain ob s where q: "q = (ob, s)" by force
  with Some have mem: "(r, ob, s) \<in> set (ca_requests ca)" by (auto dest: map_of_SomeD)
  then obtain en where en: "ca_heap ca ob = Some en" using assms by (force simp: cache_inv_def requests_ok_def)
  let ?rs = "AList.delete r (ca_requests ca)" and ?en = "settle_entry fb r reply en"
  let ?heap = "(ca_heap ca)(ob \<mapsto> ?en)"
  have rs: "set ?rs = {q \<in> set (ca_requests ca). fst q \<noteq> r}" by (auto simp: AList.delete_eq)
  have only: "ob' = ob" if "(r, ob', s') \<in> set (ca_requests ca)" for ob' s'
    using assms mem that eq_key_imp_eq_value [of "ca_requests ca" r "(ob', s')" "(ob, s)"]
    by (simp add: cache_inv_def requests_ok_def)
  have mine: "en_inFlight en = Some r" using parked_iff [OF assms en] mem by blast
  have "keys_ok getKey (ca_entries ca) ?heap"
    using assms en by (fastforce simp: cache_inv_def keys_ok_def)
  moreover have "requests_ok ?rs ?heap (ca_next ca)"
    using assms rs by (auto simp: cache_inv_def requests_ok_def AList.distinct_delete)
  moreover have "heap_ok ?heap (ca_next ca)"
    using assms en by (auto simp: cache_inv_def heap_ok_def)
  moreover have "entry_ok ?rs ob ?en"
  proof -
    have "\<not> (\<exists>r' s'. (r', ob, s') \<in> set ?rs)"
    proof
      assume "\<exists>r' s'. (r', ob, s') \<in> set ?rs"
      then obtain r' s' where "(r', ob, s') \<in> set (ca_requests ca)" "r' \<noteq> r" using rs by auto
      with parked_iff [OF assms en, of r'] mine show False by auto
    qed
    with mine show ?thesis by (auto simp: entry_ok_def)
  qed
  moreover have "entry_ok ?rs ob' en'" if "ca_heap ca ob' = Some en'" "ob' \<noteq> ob" for ob' en'
  proof -
    have "(r', ob', s') \<in> set ?rs \<longleftrightarrow> (r', ob', s') \<in> set (ca_requests ca)" for r' s'
      using rs only that(2) by auto
    then show ?thesis by (rule entry_ok_cong [OF _ inv_entry [OF assms that(1)]])
  qed
  ultimately show ?thesis using Some q en by (auto simp: answer_def cache_inv_def)
qed (simp add: answer_def assms)

lemma fetchIfStale_inv: "cache_inv getKey ca \<Longrightarrow> cache_inv getKey (fetchIfStale getKey cap scope ca)"
  using ensureEntry_inv [of getKey ca cap scope]
  by (auto simp: fetchIfStale_def split: prod.split option.split intro: fetch_inv)

lemma invalidate_one_inv:
  "cache_inv getKey ca \<Longrightarrow> cache_inv getKey (invalidate_one getKey cap P bg a ob ca)"
  by (auto simp: invalidate_one_def Let_def split: option.split intro!: fetch_inv put_inv dest: spinner)

lemma fold_inv:
  "(\<And>ob ca. cache_inv getKey ca \<Longrightarrow> cache_inv getKey (f ob ca)) \<Longrightarrow> cache_inv getKey ca \<Longrightarrow>
     cache_inv getKey (fold f obs ca)"
  by (induction obs arbitrary: ca) auto

lemma update_one_inv:
  "cache_inv getKey ca \<Longrightarrow> cache_inv getKey (update_one P (\<lambda>scope. data_patch (f scope)) ob ca)"
  by (auto simp: update_one_def patch_entry_def data_patch_def split: option.split prod.split
      intro!: put_inv dest: spinner)

lemma on_entry_inv:
  assumes "cache_inv getKey ca"
    and "\<And>en. en_key (f en) = en_key en \<and> en_scope (f en) = en_scope en \<and>
       en_inFlight (f en) = en_inFlight en \<and> (en_loading (f en) \<longrightarrow> en_loading en)"
  shows "cache_inv getKey (on_entry getKey cap scope f ca)"
proof -
  obtain ob ca' where e: "ensureEntry getKey cap scope ca = (ob, ca')" by force
  from ensureEntry_inv [OF assms(1) e] obtain en where inv: "cache_inv getKey ca'" and en: "ca_heap ca' ob = Some en"
    by auto
  have "cache_inv getKey (put ob (f en) ca')"
    using assms(2) [of en] spinner [OF inv en] by (intro put_inv [OF inv en]) simp_all
  with e en show ?thesis by (simp add: on_entry_def)
qed

lemma unsubscribe_inv: "cache_inv getKey ca \<Longrightarrow> cache_inv getKey (unsubscribe ob l ca)"
  by (auto simp: unsubscribe_def split: option.split intro!: put_inv dest: spinner)

lemma mount_effect_inv: "cache_inv getKey ca \<Longrightarrow> cache_inv getKey (mount_effect getKey cap scope ca)"
  using ensureEntry_inv [of getKey ca cap scope]
  by (auto simp: mount_effect_def split: prod.split option.split intro: fetch_inv)

lemma reset_inv: "cache_inv getKey ca \<Longrightarrow> cache_inv getKey (reset ca)"
  by (simp add: reset_def entries_inv)

lemma cache_step_inv: "cache_inv getKey ca \<Longrightarrow> cache_inv getKey (cache_step getKey cap fb e ca)"
proof (cases e)
  case (Read scope)
  then show "cache_inv getKey ca \<Longrightarrow> ?thesis"
    using ensureEntry_inv [of getKey ca cap scope] by (auto simp: getState_def split: prod.split)
qed (auto simp: invalidateWhere_def updateWhere_def seed_def subscribe_def
    intro: fetch_inv fetchIfStale_inv entry_answer_inv unsubscribe_inv mount_effect_inv reset_inv
    intro!: fold_inv invalidate_one_inv update_one_inv on_entry_inv)

interpretation cache_runs: event_machine "cache_step getKey cap fb" "cache_inv getKey"
  by unfold_locales (rule cache_step_inv)

text \<open>C35. In every run of a query cache each entry has at most one request in flight and knows it, and a
  spinner is never left on without one: an entry shown as loading has a request parked whose answer
  will write to that very entry. No key has two entries, and each is filed under its scope's key.\<close>

theorem cache_run_invariant:
  "let ca = fold (cache_step getKey cap fb) es empty_cache in
     distinct (map fst (ca_entries ca)) \<and>
     (\<forall>(key, ob) \<in> set (ca_entries ca). \<exists>en. ca_heap ca ob = Some en \<and> getKey (en_scope en) = key \<and>
        length (filter (\<lambda>q. fst (snd q) = ob) (ca_requests ca)) = (if en_inFlight en = None then 0 else 1) \<and>
        (en_loading en \<longrightarrow> (\<exists>r s. (r, ob, s) \<in> set (ca_requests ca))))"
proof -
  define ca where "ca = fold (cache_step getKey cap fb) es empty_cache"
  have inv: "cache_inv getKey ca"
    unfolding ca_def by (rule cache_runs.run_inv) (rule empty_inv)
  have one: "length (filter (\<lambda>q. fst (snd q) = ob) (ca_requests ca)) = (if en_inFlight en = None then 0 else 1)"
    if en: "ca_heap ca ob = Some en" for ob en
  proof (cases "en_inFlight en")
    case None
    with parked_iff [OF inv en] have "filter (\<lambda>q. fst (snd q) = ob) (ca_requests ca) = []"
      by (auto simp: filter_empty_conv)
    with None show ?thesis by simp
  next
    case (Some r)
    have d: "distinct (map fst (ca_requests ca))" using inv by (simp add: cache_inv_def requests_ok_def)
    let ?mine = "filter (\<lambda>q. fst (snd q) = ob) (ca_requests ca)"
    have "fst q = r" if "q \<in> set ?mine" for q
    proof -
      have "q = (fst q, ob, snd (snd q))" "q \<in> set (ca_requests ca)" using that by (auto simp: prod_eq_iff)
      with parked_iff [OF inv en, of "fst q"] Some show ?thesis by (metis option.inject)
    qed
    moreover have "?mine \<noteq> []" using parked_iff [OF inv en, of r] Some by (force simp: filter_empty_conv)
    moreover have "distinct (map fst ?mine)" using d by (simp add: distinct_map_filter)
    ultimately have "length (map fst ?mine) = 1"
      by (metis (no_types, lifting) distinct_card length_0_conv length_map list.map_disc_iff list.set_map
          image_constant_conv image_cong is_singletonI is_singleton_altdef set_empty)
    with Some show ?thesis by simp
  qed
  show ?thesis
    unfolding ca_def [symmetric] Let_def
  proof (intro conjI ballI)
    show "distinct (map fst (ca_entries ca))" using inv by (simp add: cache_inv_def keys_ok_def)
    fix p assume p: "p \<in> set (ca_entries ca)"
    then obtain en where en: "ca_heap ca (snd p) = Some en" "getKey (en_scope en) = fst p"
      using inv by (auto simp: cache_inv_def keys_ok_def)
    moreover have "\<exists>r s. (r, snd p, s) \<in> set (ca_requests ca)" if "en_loading en"
      using spinner [OF inv en(1) that] parked_iff [OF inv en(1)] by auto
    ultimately show "case p of (key, ob) \<Rightarrow> \<exists>en. ca_heap ca ob = Some en \<and> getKey (en_scope en) = key \<and>
        length (filter (\<lambda>q. fst (snd q) = ob) (ca_requests ca)) = (if en_inFlight en = None then 0 else 1) \<and>
        (en_loading en \<longrightarrow> (\<exists>r s. (r, ob, s) \<in> set (ca_requests ca)))"
      using one [OF en(1)] by (cases p) auto
  qed
qed

lemma cache_run_invariant_witness:
  "distinct (map fst (ca_entries (fold (cache_step id 2 ''Failed'')
     [Subscribe ''a'' 0, MountEffect ''a'', Fetch ''b'' None, Answer 1 (Inr (5 :: int)), Fetch ''c'' None] empty_cache)))"
  using cache_run_invariant [of id 2 "''Failed''" "[Subscribe ''a'' 0, MountEffect ''a'', Fetch ''b'' None,
      Answer 1 (Inr (5 :: int)), Fetch ''c'' None]"]
  unfolding Let_def by (rule conjunct1)

section \<open>Eviction\<close>

definition unpinned :: "('s, 'd) cache \<Rightarrow> (string \<times> nat) list \<Rightarrow> (string \<times> nat) list" where
  "unpinned ca es = filter (\<lambda>p. \<not> pinned ca (snd p)) es"

lemma pinned_entries [simp]: "pinned (ca\<lparr>ca_entries := es\<rparr>) ob = pinned ca ob"
  by (simp add: pinned_def)

fun drop_cold :: "('s, 'd) cache \<Rightarrow> nat \<Rightarrow> (string \<times> nat) list \<Rightarrow> (string \<times> nat) list" where
  "drop_cold ca 0 es = es"
| "drop_cold ca (Suc n) [] = []"
| "drop_cold ca (Suc n) (p # es) =
     (if pinned ca (snd p) then p # drop_cold ca (Suc n) es else drop_cold ca n es)"

lemma drop_cold_entries [simp]: "drop_cold (ca\<lparr>ca_entries := es'\<rparr>) n es = drop_cold ca n es"
  by (induction ca n es rule: drop_cold.induct) simp_all

lemma delete_middle:
  "key \<notin> fst ` set front \<Longrightarrow> key \<notin> fst ` set rest \<Longrightarrow>
     AList.delete key (front @ (key, ob) # rest) = front @ rest"
  by (induction front) auto

text \<open>The walk drops as many unpinned entries as the map is over its cap, coldest first.\<close>

lemma evict_walk_drops:
  assumes "ca_entries ca = hot @ walk" "distinct (map fst (ca_entries ca))"
  shows "evict_walk cap walk ca =
     ca\<lparr>ca_entries := hot @ drop_cold ca (length (ca_entries ca) - cap) walk\<rparr>"
  using assms
proof (induction cap walk ca arbitrary: hot rule: evict_walk.induct)
  case (1 cap ca)
  then show ?case by (cases "length (ca_entries ca) - cap") simp_all
next
  case (2 cap key ob rest ca)
  show ?case
  proof (cases "length (ca_entries ca) \<le> cap")
    case True
    with 2(3) show ?thesis by simp
  next
    case big: False
    then obtain n where n: "length (ca_entries ca) - cap = Suc n" by (metis Suc_diff_Suc not_le)
    show ?thesis
    proof (cases "pinned ca ob")
      case True
      from 2(1) [OF big True, of "hot @ [(key, ob)]"] 2(3,4) big True n show ?thesis by simp
    next
      case False
      have del: "AList.delete key (ca_entries ca) = hot @ rest"
        using 2(3,4) by (simp add: delete_middle)
      have len: "length (hot @ rest) - cap = n" using n 2(3) by simp
      have "distinct (map fst (hot @ rest))" using 2(3,4) by auto
      with 2(2) [OF big False, of hot] del len big False n show ?thesis by simp
    qed
  qed
qed

lemma drop_cold_facts:
  "filter (\<lambda>p. pinned ca (snd p)) (drop_cold ca n es) = filter (\<lambda>p. pinned ca (snd p)) es \<and>
   unpinned ca (drop_cold ca n es) = drop n (unpinned ca es)"
  by (induction ca n es rule: drop_cold.induct) (simp_all add: unpinned_def)

text \<open>Eviction drops exactly as many entries as the cache is over its cap, and drops the coldest that
  nothing uses: an entry with a listener or a request in flight is never dropped, the unpinned ones
  go in recency order, and what remains keeps its order and its content.\<close>

theorem eviction_drops_coldest_unpinned:
  assumes "distinct (map fst (ca_entries ca))"
  shows "filter (\<lambda>p. pinned ca (snd p)) (ca_entries (evictColdEntries cap ca)) =
       filter (\<lambda>p. pinned ca (snd p)) (ca_entries ca) \<and>
     unpinned ca (ca_entries (evictColdEntries cap ca)) =
       drop (length (ca_entries ca) - cap) (unpinned ca (ca_entries ca)) \<and>
     ca_heap (evictColdEntries cap ca) = ca_heap ca"
proof (cases "length (ca_entries ca) \<le> cap")
  case True
  then show ?thesis by (simp add: evictColdEntries_def)
next
  case False
  with evict_walk_drops [of ca "[]" "ca_entries ca" cap] assms
    drop_cold_facts [of ca "length (ca_entries ca) - cap" "ca_entries ca"]
  show ?thesis by (simp add: evictColdEntries_def)
qed

lemma eviction_drops_coldest_unpinned_witness:
  "let ca = fold (cache_step id 5 ''Failed'') [Read ''a'', Subscribe ''b'' 0, Read ''c'', Read ''d'']
              (empty_cache :: (string, int) cache)
   in map fst (unpinned ca (ca_entries (evictColdEntries 2 ca))) = [''d'']"
proof -
  let ?ca = "fold (cache_step id 5 ''Failed'') [Read ''a'', Subscribe ''b'' 0, Read ''c'', Read ''d'']
              (empty_cache :: (string, int) cache)"
  have d: "distinct (map fst (ca_entries ?ca))"
    and u: "map fst (drop (length (ca_entries ?ca) - 2) (unpinned ?ca (ca_entries ?ca))) = [''d'']"
    by code_simp+
  from eviction_drops_coldest_unpinned [OF d, of 2] u show ?thesis by (simp only: Let_def)
qed

section \<open>Staleness and resets\<close>

text \<open>
  What a step other than an answer, a seed or a reset may do: file only entries it held or made,
  park requests and drop none, and clear a stale mark only with a request newer than it.
\<close>

definition moves :: "('s, 'd) cache \<Rightarrow> ('s, 'd) cache \<Rightarrow> bool" where
  "moves ca ca' \<longleftrightarrow> ca_next ca \<le> ca_next ca' \<and>
     (\<forall>p \<in> set (ca_entries ca'). snd p \<in> snd ` set (ca_entries ca) \<or> ca_next ca \<le> snd p) \<and>
     (\<forall>q \<in> set (ca_requests ca'). q \<in> set (ca_requests ca) \<or> ca_next ca \<le> fst q) \<and>
     set (ca_requests ca) \<subseteq> set (ca_requests ca') \<and>
     (\<forall>ob en. ca_heap ca ob = Some en \<longrightarrow>
        (\<exists>en'. ca_heap ca' ob = Some en' \<and>
          (en_stale en \<longrightarrow> en_stale en' \<or> (\<exists>r s. (r, ob, s) \<in> set (ca_requests ca') \<and> ca_next ca \<le> r))))"

lemma moves_refl [simp]: "moves ca ca"
  by (simp add: moves_def)

lemma moves_trans:
  assumes "moves a b" "moves b c"
  shows "moves a c"
proof -
  have "\<exists>en'. ca_heap c ob = Some en' \<and>
      (en_stale en \<longrightarrow> en_stale en' \<or> (\<exists>r s. (r, ob, s) \<in> set (ca_requests c) \<and> ca_next a \<le> r))"
    if "ca_heap a ob = Some en" for ob en
  proof -
    from assms(1) that obtain e1 where e1: "ca_heap b ob = Some e1"
      "en_stale en \<longrightarrow> en_stale e1 \<or> (\<exists>r s. (r, ob, s) \<in> set (ca_requests b) \<and> ca_next a \<le> r)"
      unfolding moves_def by blast
    from assms(2) e1(1) obtain e2 where e2: "ca_heap c ob = Some e2"
      "en_stale e1 \<longrightarrow> en_stale e2 \<or> (\<exists>r s. (r, ob, s) \<in> set (ca_requests c) \<and> ca_next b \<le> r)"
      unfolding moves_def by blast
    have "ca_next a \<le> ca_next b" "set (ca_requests b) \<subseteq> set (ca_requests c)"
      using assms by (simp_all add: moves_def)
    with e1 e2 show ?thesis by (meson le_trans subsetD)
  qed
  moreover have "snd p \<in> snd ` set (ca_entries a) \<or> ca_next a \<le> snd p" if "p \<in> set (ca_entries c)" for p
  proof -
    from assms(2) that consider (old) p' where "p' \<in> set (ca_entries b)" "snd p' = snd p" | (new) "ca_next b \<le> snd p"
      unfolding moves_def by force
    then show ?thesis
    proof cases
      case old
      with assms(1) show ?thesis unfolding moves_def by metis
    next
      case new
      with assms(1) show ?thesis by (auto simp: moves_def)
    qed
  qed
  moreover have "q \<in> set (ca_requests a) \<or> ca_next a \<le> fst q" if "q \<in> set (ca_requests c)" for q
    using assms that unfolding moves_def by (meson le_trans)
  ultimately show ?thesis
    using assms unfolding moves_def by (meson le_trans subset_trans)
qed

lemma moves_put:
  "ca_heap ca ob = Some en \<Longrightarrow> (en_stale en \<Longrightarrow> en_stale en') \<Longrightarrow> moves ca (put ob en' ca)"
  by (auto simp: moves_def)

lemma moves_entries: "set es \<subseteq> set (ca_entries ca) \<Longrightarrow> moves ca (ca\<lparr>ca_entries := es\<rparr>)"
  by (auto simp: moves_def)

lemma moves_evict: "moves ca (evictColdEntries cap ca)"
  using evict_shape [of cap ca] moves_entries by metis

lemma alist_update_mem: "p \<in> set (AList.update k v xs) \<Longrightarrow> p \<in> set xs \<or> snd p = v"
  by (induction xs) (auto split: if_splits)

lemma moves_new_entry:
  assumes "cache_inv getKey ca"
  shows "moves ca (put (ca_next ca) en
    (ca\<lparr>ca_entries := AList.update key (ca_next ca) (ca_entries ca), ca_next := ca_next ca + 1\<rparr>))"
proof -
  have "snd p \<in> snd ` set (ca_entries ca) \<or> ca_next ca \<le> snd p"
    if "p \<in> set (AList.update key (ca_next ca) (ca_entries ca))" for p
    using alist_update_mem [OF that] by auto
  with assms show ?thesis by (auto simp: moves_def cache_inv_def heap_ok_def)
qed

lemma moves_ensure:
  assumes "cache_inv getKey ca" "ensureEntry getKey cap scope ca = (ob, ca')"
  shows "moves ca ca'"
proof (cases "map_of (ca_entries ca) (getKey scope)")
  case None
  with assms moves_trans [OF moves_new_entry [OF assms(1)] moves_evict] show ?thesis
    by (auto simp: ensureEntry_def Let_def)
next
  case (Some ob')
  with assms(2) show ?thesis
    by (auto simp: ensureEntry_def split: option.splits intro: moves_put)
qed

lemma moves_touch:
  assumes "ca_heap ca ob = Some en" "map_of (ca_entries ca) (en_key en) \<in> {None, Some ob}"
  shows "moves ca (touch ob ca)"
proof (cases "map_of (ca_entries ca) (en_key en)")
  case (Some ob')
  with assms have mem: "(en_key en, ob) \<in> set (ca_entries ca)" by (auto dest: map_of_SomeD)
  have "snd p \<in> snd ` set (ca_entries ca)"
    if "p \<in> set (AList.update (en_key en) ob (AList.delete (en_key en) (ca_entries ca)))" for p
  proof -
    have "p \<in> set (ca_entries ca) \<or> snd p = snd (en_key en, ob)"
      using alist_update_mem [OF that] by (auto simp: AList.delete_eq)
    with mem show ?thesis by (metis image_eqI)
  qed
  with Some assms(1) show ?thesis by (auto simp: touch_def moves_def)
qed (simp add: touch_def assms)

lemma moves_request:
  assumes "ca_heap ca ob = Some en"
  shows "moves ca ((put ob (begin_fetch bg (ca_next ca) en) ca)
    \<lparr>ca_next := ca_next ca + 1, ca_requests := ca_requests ca @ [(ca_next ca, ob, s)]\<rparr>)"
  using assms by (auto simp: moves_def)

lemma moves_fetch:
  assumes "cache_inv getKey ca"
  shows "moves ca (fetch getKey cap scope bg ca)"
proof -
  obtain ob ca' where e: "ensureEntry getKey cap scope ca = (ob, ca')" by force
  from ensureEntry_inv [OF assms e] obtain en where
    en: "ca_heap ca' ob = Some en" "map_of (ca_entries ca') (en_key en) \<in> {None, Some ob}" by auto
  note start = moves_trans [OF moves_ensure [OF assms e] moves_touch [OF en]]
  have "ca_heap (touch ob ca') ob = Some en" using en by simp
  note sent = moves_trans [OF start moves_request [OF this, where bg = bg and s = "en_scope en"]]
  show ?thesis using start sent en e by (simp add: fetch_def Let_def)
qed

lemma moves_fetchIfStale: "cache_inv getKey ca \<Longrightarrow> moves ca (fetchIfStale getKey cap scope ca)"
  using ensureEntry_inv [of getKey ca cap scope] moves_ensure [of getKey ca cap scope]
  by (auto simp: fetchIfStale_def split: prod.split option.split intro: moves_trans [OF _ moves_fetch])

lemma moves_mount: "cache_inv getKey ca \<Longrightarrow> moves ca (mount_effect getKey cap scope ca)"
  using ensureEntry_inv [of getKey ca cap scope] moves_ensure [of getKey ca cap scope]
  by (auto simp: mount_effect_def split: prod.split option.split intro: moves_trans [OF _ moves_fetch])

lemma moves_invalidate_one:
  assumes "cache_inv getKey ca"
  shows "moves ca (invalidate_one getKey cap P bg a ob ca)"
proof (cases "ca_heap ca ob")
  case (Some en)
  have m: "moves ca (put ob (en\<lparr>en_stale := True\<rparr>) ca)" using Some by (rule moves_put) simp
  have "cache_inv getKey (put ob (en\<lparr>en_stale := True\<rparr>) ca)"
    using Some assms spinner [OF assms Some] by (intro put_inv [OF assms Some]) simp_all
  with m Some show ?thesis
    by (auto simp: invalidate_one_def Let_def intro: moves_trans [OF m moves_fetch])
qed (simp add: invalidate_one_def)

lemma moves_fold:
  assumes "\<And>ob ca. cache_inv getKey ca \<Longrightarrow> moves ca (f ob ca)"
    and "\<And>ob ca. cache_inv getKey ca \<Longrightarrow> cache_inv getKey (f ob ca)" and "cache_inv getKey ca"
  shows "moves ca (fold f obs ca)"
  using assms(3)
proof (induction obs arbitrary: ca)
  case (Cons ob obs)
  have "moves (f ob ca) (fold f obs (f ob ca))" by (rule Cons.IH) (rule assms(2) [OF Cons.prems])
  from moves_trans [OF assms(1) [OF Cons.prems] this] show ?case by simp
qed simp

lemma moves_update_one: "moves ca (update_one P updater ob ca)"
  by (auto simp: update_one_def patch_entry_def split: option.split prod.split intro: moves_put)

lemma moves_on_entry:
  assumes "cache_inv getKey ca" "\<And>en. en_stale en \<Longrightarrow> en_stale (f en)"
  shows "moves ca (on_entry getKey cap scope f ca)"
proof -
  obtain ob ca' where e: "ensureEntry getKey cap scope ca = (ob, ca')" by force
  from ensureEntry_inv [OF assms(1) e] obtain en where en: "ca_heap ca' ob = Some en" by auto
  from moves_trans [OF moves_ensure [OF assms(1) e] moves_put [OF en, of "f en"]] assms(2) e en
  show ?thesis by (simp add: on_entry_def)
qed

lemma moves_step:
  assumes "cache_inv getKey ca" "\<And>r reply. e \<noteq> Answer r reply" "\<And>scope d. e \<noteq> Seed scope d" "e \<noteq> ResetCache"
  shows "moves ca (cache_step getKey cap fb e ca)"
proof (cases e)
  case (Read scope)
  then show ?thesis using moves_ensure [OF assms(1), of cap scope] by (auto simp: getState_def split: prod.split)
next
  case (Unsubscribe ob l)
  then show ?thesis by (auto simp: unsubscribe_def split: option.split intro: moves_put)
qed (use assms in \<open>auto simp: invalidateWhere_def updateWhere_def subscribe_def
    intro: moves_fetch moves_fetchIfStale moves_mount moves_on_entry
    intro!: moves_fold moves_invalidate_one moves_update_one invalidate_one_inv update_one_inv\<close>)

lemma answer_frame:
  "ca_entries (answer fb r reply ca) = ca_entries ca" "ca_next (answer fb r reply ca) = ca_next ca"
  "set (ca_requests (answer fb r reply ca)) \<subseteq> set (ca_requests ca)"
  by (auto simp: answer_def Let_def AList.delete_eq split: option.splits)

lemma answer_stale:
  "ca_heap ca ob = Some en \<Longrightarrow>
     \<exists>en'. ca_heap (answer fb r reply ca) ob = Some en' \<and> en_stale en' = en_stale en"
  by (auto simp: answer_def Let_def split: option.splits)

lemma moves_stale:
  assumes "cache_inv getKey ca" "moves ca ca'" "ca_heap ca ob = Some en" "en_stale en"
  shows "\<exists>en'. ca_heap ca' ob = Some en' \<and> (en_stale en' \<or>
      (\<exists>r s. (r, ob, s) \<in> set (ca_requests ca') \<and> (r, ob, s) \<notin> set (ca_requests ca)))"
proof -
  from assms(2-4) obtain en' where en': "ca_heap ca' ob = Some en'"
    "en_stale en' \<or> (\<exists>r s. (r, ob, s) \<in> set (ca_requests ca') \<and> ca_next ca \<le> r)"
    unfolding moves_def by blast
  have "(r, ob, s) \<notin> set (ca_requests ca)" if "ca_next ca \<le> r" for r s
    using assms(1) that by (fastforce simp: cache_inv_def requests_ok_def)
  with en' show ?thesis by blast
qed

lemma event_kinds:
  obtains (answer) r reply where "e = Answer r reply" | (reset) "e = ResetCache"
    | (seed) scope d where "e = Seed scope d"
    | (other) "\<And>r reply. e \<noteq> Answer r reply" "\<And>scope d. e \<noteq> Seed scope d" "e \<noteq> ResetCache"
  by (cases e) auto

text \<open>C36. An invalidation is not lost: whatever happens to the cache, an entry marked stale stays so until
  a request is sent for it after the mark was made or its data is seeded. In particular neither a
  patch nor the answer to a request already in flight clears the mark.\<close>

theorem stale_until_refetched:
  assumes "cache_inv getKey ca" and "ca_heap ca ob = Some en" and "en_stale en"
    and "\<forall>scope d. e \<noteq> Seed scope d"
  shows "\<exists>en'. ca_heap (cache_step getKey cap fb e ca) ob = Some en' \<and>
     (en_stale en' \<or>
      (\<exists>r s. (r, ob, s) \<in> set (ca_requests (cache_step getKey cap fb e ca)) \<and> (r, ob, s) \<notin> set (ca_requests ca)))"
proof (cases e rule: event_kinds)
  case (answer r reply)
  obtain en' where "ca_heap (answer fb r reply ca) ob = Some en'" "en_stale en' = en_stale en"
    using answer_stale [OF assms(2)] by blast
  with answer assms(3) show ?thesis by simp
next
  case reset
  with assms(2,3) show ?thesis by (simp add: reset_def)
next
  case (seed scope d)
  with assms(4) show ?thesis by simp
next
  case other
  from moves_stale [OF assms(1) moves_step [OF assms(1) other] assms(2,3)] show ?thesis .
qed

lemma stale_until_refetched_witness:
  "let ca = fold (cache_step id 5 ''Failed'') [Subscribe ''a'' 0, MountEffect ''a'', Invalidate (\<lambda>_. True) None None]
              (empty_cache :: (string, int) cache)
   in map_option en_stale (ca_heap (cache_step id 5 ''Failed'' (Answer 1 (Inr 7)) ca) 0) = Some True"
proof -
  let ?ca = "fold (cache_step id 5 ''Failed'') [Subscribe ''a'' 0, MountEffect ''a'', Invalidate (\<lambda>_. True) None None]
              (empty_cache :: (string, int) cache)"
  have inv: "cache_inv id ?ca" by (rule cache_runs.run_inv) (rule empty_inv)
  have e: "map_option en_stale (ca_heap ?ca 0) = Some True"
    and r: "ca_requests (cache_step id 5 ''Failed'' (Answer 1 (Inr 7)) ?ca) = []" by code_simp+
  from e obtain en where "ca_heap ?ca 0 = Some en" "en_stale en" by auto
  from stale_until_refetched [OF inv this, of "Answer 1 (Inr 7)" 5 "''Failed''"] r show ?thesis
    unfolding Let_def by auto
qed

text \<open>
  After a reset: \<open>n\<close> is the number the next object or request would have had. Entries filed since
  then are younger, and the requests older than it are for older objects.
\<close>

definition since_reset :: "nat \<Rightarrow> ('s, 'd) cache \<Rightarrow> bool" where
  "since_reset n ca \<longleftrightarrow> n \<le> ca_next ca \<and> (\<forall>p \<in> set (ca_entries ca). n \<le> snd p) \<and>
     (\<forall>q \<in> set (ca_requests ca). fst q < n \<longrightarrow> fst (snd q) < n)"

lemma since_reset_moves: "moves ca ca' \<Longrightarrow> since_reset n ca \<Longrightarrow> since_reset n ca'"
  unfolding moves_def since_reset_def
  by (metis (no_types, lifting) imageE le_trans not_less)

lemma seed_moves_entries:
  assumes "cache_inv getKey ca"
  shows "since_reset n ca \<Longrightarrow> since_reset n (seed getKey cap scope d ca)"
proof -
  assume s: "since_reset n ca"
  obtain ob ca' where e: "ensureEntry getKey cap scope ca = (ob, ca')" by force
  from ensureEntry_inv [OF assms e] obtain en where en: "ca_heap ca' ob = Some en" by auto
  from since_reset_moves [OF moves_ensure [OF assms e] s] e en show ?thesis
    by (simp add: seed_def on_entry_def since_reset_def)
qed

lemma since_reset_step:
  assumes "cache_inv getKey ca" "since_reset n ca"
  shows "since_reset n (cache_step getKey cap fb e ca)"
proof (cases e rule: event_kinds)
  case (answer r reply)
  with assms(2) answer_frame [of fb r reply ca] show ?thesis by (auto simp: since_reset_def)
next
  case reset
  with assms(2) show ?thesis by (simp add: since_reset_def reset_def)
next
  case (seed scope d)
  with assms seed_moves_entries show ?thesis by simp
next
  case other
  from since_reset_moves [OF moves_step [OF assms(1) other] assms(2)] show ?thesis .
qed

lemma since_reset_run:
  "cache_inv getKey ca \<Longrightarrow> since_reset n ca \<Longrightarrow>
     since_reset n (fold (cache_step getKey cap fb) es ca) \<and> cache_inv getKey (fold (cache_step getKey cap fb) es ca)"
  by (induction es arbitrary: ca) (auto simp: since_reset_step cache_step_inv)

text \<open>What a reader of a key gets.\<close>

definition shown_state :: "('s, 'd) cache \<Rightarrow> string \<Rightarrow> ('s, 'd) entry option" where
  "shown_state ca key = Option.bind (map_of (ca_entries ca) key) (ca_heap ca)"

text \<open>Sign-out clears a cache for good: after a reset, whatever the next session does, the answer to a
  request made before the reset changes nothing any reader of any scope is shown.\<close>

theorem answers_before_reset_unseen:
  assumes "cache_inv getKey ca" and "r < ca_next ca"
  shows "let now = fold (cache_step getKey cap fb) es (reset ca)
         in shown_state (answer fb r reply now) key = shown_state now key"
proof -
  define now where "now = fold (cache_step getKey cap fb) es (reset ca)"
  have "since_reset (ca_next ca) (reset ca)"
    using assms(1) by (fastforce simp: since_reset_def reset_def cache_inv_def requests_ok_def heap_ok_def)
  from since_reset_run [OF reset_inv [OF assms(1)] this] have s: "since_reset (ca_next ca) now"
    by (simp add: now_def)
  show ?thesis
  proof (cases "map_of (ca_requests now) r")
    case None
    then show ?thesis by (simp add: answer_def flip: now_def)
  next
    case (Some q)
    then have "(r, q) \<in> set (ca_requests now)" by (rule map_of_SomeD)
    with s assms(2) have old: "fst q < ca_next ca" by (fastforce simp: since_reset_def)
    have "ca_heap (answer fb r reply now) ob = ca_heap now ob" if "fst q \<noteq> ob" for ob
      using Some that by (auto simp: answer_def Let_def split: option.split prod.split)
    moreover have "fst q \<noteq> ob" if "map_of (ca_entries now) key = Some ob" for ob
      using s old map_of_SomeD [OF that] by (fastforce simp: since_reset_def)
    ultimately show ?thesis
      by (simp add: shown_state_def answer_frame flip: now_def) (cases "map_of (ca_entries now) key"; simp)
  qed
qed

lemma answers_before_reset_unseen_witness:
  "let ca = fetch id 5 ''a'' None (empty_cache :: (string, int) cache)
   in map_option en_data (shown_state (answer ''Failed'' 1 (Inr 7) (cache_step id 5 ''Failed'' (Read ''a'') (reset ca))) ''a'')
        = Some None"
proof -
  let ?ca = "fetch id 5 ''a'' None (empty_cache :: (string, int) cache)"
  have "cache_inv id ?ca" by (rule fetch_inv) (rule empty_inv)
  moreover have "1 < ca_next ?ca" by code_simp
  ultimately have "shown_state (answer ''Failed'' 1 (Inr 7) (fold (cache_step id 5 ''Failed'') [Read ''a''] (reset ?ca))) ''a''
      = shown_state (fold (cache_step id 5 ''Failed'') [Read ''a''] (reset ?ca)) ''a''"
    using answers_before_reset_unseen [of id ?ca 1 5 "''Failed''" "[Read ''a'']" "Inr 7" "''a''"] by (simp add: Let_def)
  moreover have "map_option en_data (shown_state (fold (cache_step id 5 ''Failed'') [Read ''a''] (reset ?ca)) ''a'') = Some None"
    by code_simp
  ultimately show ?thesis by (simp add: Let_def)
qed

section \<open>A full cache\<close>

text \<open>The entry just made can be the one evicted. With the cache at its cap and every other entry in
  use, a new scope's entry is dropped as it is made: its request is sent and answered, but the answer
  goes to an entry no reader can reach, and the next read starts from nothing.\<close>

theorem full_cache_drops_new_entry:
  "let ca = fold (cache_step id 1 ''Failed'') [Subscribe ''a'' 0, Fetch ''b'' None]
              (empty_cache :: (string, int) cache);
       later = answer ''Failed'' 2 (Inr 7) ca
   in map fst (ca_entries ca) = [''a''] \<and> map (\<lambda>q. snd (snd q)) (ca_requests ca) = [''b''] \<and>
      ca_requests later = [] \<and> fst (getState id 1 ''b'' later) = (None, False, None)"
  by code_simp

end
