(* ===== verification/AgendaData.thy ===== *)
theory AgendaData
  imports ScopedQuery
begin

text \<open>
  The agenda (\<open>frontend/src/resources/agendaData.ts\<close>): a dashboard's reminders, kept in a scoped
  query cache and patched in place after a mutation, merged with the occurrences of the next days.
  A scope is its dashboard's id. Today's key and \<open>Date.parse\<close> are arguments.

  The lemmas show that a patch leaves what a refetch would have returned.
\<close>

datatype reminder_status = Overdue | DueToday

datatype agenda_item =
    AgendaEvent (ai_id: string) (ai_title: string) (ai_startsAt: string) (ai_endsAt: string)
      (ai_allDay: bool) (ai_recurring: bool) (ai_participants: "participant list")
  | AgendaReminder (ai_id: string) (ai_title: string) (ai_dueDate: string) (ai_listId: string)
      (ai_listName: string) (ai_priority: "item_priority option") (ai_status: reminder_status)

type_synonym agenda_cache = "(string, agenda_item list) cache"

definition AGENDA_FALLBACK :: string where
  "AGENDA_FALLBACK = ''Failed to load agenda.''"

definition DEFAULT_MAX_CACHED_SCOPES :: nat where
  "DEFAULT_MAX_CACHED_SCOPES = 32"

definition agenda_rank :: "agenda_item \<Rightarrow> int" where
  "agenda_rank item =
     (case item of
        AgendaReminder _ _ _ _ _ _ Overdue \<Rightarrow> 0
      | AgendaReminder _ _ _ _ _ _ DueToday \<Rightarrow> 1
      | AgendaEvent _ _ _ _ _ _ _ \<Rightarrow> 2)"

definition agenda_time :: "(string \<Rightarrow> int) \<Rightarrow> agenda_item \<Rightarrow> int" where
  "agenda_time parse item =
     (case item of AgendaEvent _ _ s _ _ _ _ \<Rightarrow> parse s | AgendaReminder _ _ d _ _ _ _ \<Rightarrow> parse d)"

definition compareAgendaItems :: "(string \<Rightarrow> int) \<Rightarrow> agenda_item \<Rightarrow> agenda_item \<Rightarrow> int" where
  "compareAgendaItems parse a b =
     (let rankDelta = agenda_rank a - agenda_rank b in
      if rankDelta \<noteq> 0 then rankDelta else agenda_time parse a - agenda_time parse b)"

definition occurrenceToAgendaItem :: "occurrence \<Rightarrow> agenda_item" where
  "occurrenceToAgendaItem o' =
     AgendaEvent (''event:'' @ o_event_id o' @ '':'' @ o_original_start o') (o_title o')
       (o_occurrence_start o') (o_occurrence_end o') (o_all_day o') (o_recurring o') (o_participants o')"

definition reminder_id :: "string \<Rightarrow> string" where
  "reminder_id i = ''reminder:'' @ i"

definition listItemToAgendaItem :: "string \<Rightarrow> string \<Rightarrow> string \<Rightarrow> list_item \<Rightarrow> agenda_item option" where
  "listItemToAgendaItem list_id list_name todayKey item =
     (case it_due_date item of
        None \<Rightarrow> None
      | Some due \<Rightarrow>
          if it_checked item \<or> due = [] \<or> str_less todayKey due then None
          else Some (AgendaReminder (reminder_id (it_id item)) (it_text item) due list_id list_name
                       (it_priority item) (if str_less due todayKey then Overdue else DueToday)))"

text \<open>A patch of the data alone; an entry without data is left as it is.\<close>

definition on_data :: "('d \<Rightarrow> 'd) \<Rightarrow> 'd quiet_patch" where
  "on_data f st = (map_option f (fst st), snd st, True)"

definition agenda_entry_update ::
    "string \<Rightarrow> list_item \<Rightarrow> string \<Rightarrow> string \<Rightarrow> agenda_item list \<Rightarrow> agenda_item list" where
  "agenda_entry_update todayKey item list_id list_name entries =
     (let without = filter (\<lambda>entry. ai_id entry \<noteq> reminder_id (it_id item)) entries in
      case listItemToAgendaItem list_id list_name todayKey item of
        Some nxt \<Rightarrow> without @ [nxt] | None \<Rightarrow> without)"

definition applyAgendaItemUpdate ::
    "string \<Rightarrow> string \<Rightarrow> list_item \<Rightarrow> string \<Rightarrow> string \<Rightarrow> agenda_cache \<Rightarrow> agenda_cache" where
  "applyAgendaItemUpdate todayKey dashboardId item list_id list_name =
     updateWhere (\<lambda>scope. scope = dashboardId)
       (\<lambda>_. data_patch (on_data (agenda_entry_update todayKey item list_id list_name)))"

definition removeAgendaItems :: "string list \<Rightarrow> agenda_cache \<Rightarrow> agenda_cache" where
  "removeAgendaItems itemIds =
     updateWhere (\<lambda>_. True)
       (\<lambda>_. data_patch (on_data (filter (\<lambda>entry. ai_id entry \<notin> reminder_id ` set itemIds))))"

definition rename_entry :: "string \<Rightarrow> string \<Rightarrow> agenda_item \<Rightarrow> agenda_item" where
  "rename_entry listId listName entry =
     (case entry of
        AgendaReminder i t d l n p s \<Rightarrow> if l = listId then AgendaReminder i t d l listName p s else entry
      | AgendaEvent _ _ _ _ _ _ _ \<Rightarrow> entry)"

definition renameAgendaListEntries :: "string \<Rightarrow> string \<Rightarrow> agenda_cache \<Rightarrow> agenda_cache" where
  "renameAgendaListEntries listId listName =
     updateWhere (\<lambda>_. True) (\<lambda>_. data_patch (on_data (map (rename_entry listId listName))))"

definition invalidateAgendaReminders :: "string \<Rightarrow> agenda_cache \<Rightarrow> agenda_cache" where
  "invalidateAgendaReminders dashboardId =
     invalidateWhere id DEFAULT_MAX_CACHED_SCOPES (\<lambda>scope. scope = dashboardId) None None"

definition of_list :: "string \<Rightarrow> agenda_item \<Rightarrow> bool" where
  "of_list listId entry \<longleftrightarrow>
     (case entry of AgendaReminder _ _ _ l _ _ _ \<Rightarrow> l = listId | AgendaEvent _ _ _ _ _ _ _ \<Rightarrow> False)"

definition removeAgendaItemsForList :: "string \<Rightarrow> agenda_cache \<Rightarrow> agenda_cache" where
  "removeAgendaItemsForList listId =
     updateWhere (\<lambda>_. True) (\<lambda>_. data_patch (on_data (filter (\<lambda>entry. \<not> of_list listId entry))))"

text \<open>What the fetch makes of the server's answer.\<close>

definition fetchAgendaReminders :: "string \<Rightarrow> list_detail list \<Rightarrow> agenda_item list" where
  "fetchAgendaReminders todayKey details =
     concat (map (\<lambda>detail. List.map_filter
       (listItemToAgendaItem (l_id detail) (l_name detail) todayKey) (l_items detail)) details)"

definition mergeAgendaState ::
    "(string \<Rightarrow> int) \<Rightarrow> occurrence list option \<Rightarrow> agenda_item list option \<times> bool \<times> string option \<Rightarrow>
       bool \<Rightarrow> string option \<Rightarrow> agenda_item list option \<times> bool \<times> string option" where
  "mergeAgendaState parse occurrences remindersState occurrencesLoading occurrencesError =
     (case remindersState of (reminders, loading, err) \<Rightarrow>
        ((case (occurrences, reminders) of
            (Some os, Some rs) \<Rightarrow> Some (js_sort (compareAgendaItems parse) (rs @ map occurrenceToAgendaItem os))
          | _ \<Rightarrow> None),
         occurrencesLoading \<or> loading,
         (case occurrencesError of Some e \<Rightarrow> Some e | None \<Rightarrow> err)))"

text \<open>The day rollover's effect in \<open>useAgendaItems\<close>: \<open>previousDay\<close> is its ref.\<close>

definition agenda_day_effect ::
    "string option \<Rightarrow> string \<Rightarrow> string \<times> agenda_cache \<Rightarrow> string \<times> agenda_cache" where
  "agenda_day_effect scope day pc =
     (case pc of (previousDay, ca) \<Rightarrow>
        if previousDay = day then (previousDay, ca)
        else (day, case scope of
                     None \<Rightarrow> ca
                   | Some d \<Rightarrow> fetch id DEFAULT_MAX_CACHED_SCOPES d (Some True) ca))"

definition list_event :: "event_type \<Rightarrow> bool" where
  "list_event t \<longleftrightarrow> starts_with ''list.'' (event_type_str t)"

definition handleAgendaResourceEvent :: "bool \<Rightarrow> resource_event \<Rightarrow> agenda_cache \<Rightarrow> agenda_cache" where
  "handleAgendaResourceEvent isOwnEcho event ca =
     (case event of
        Resync \<Rightarrow> invalidateWhere id DEFAULT_MAX_CACHED_SCOPES (\<lambda>_. True) None None ca
      | Frame e \<Rightarrow>
          if isOwnEcho then ca
          else let dashboardId = p_dashboard_id (e_payload e);
                   P = (if truthy dashboardId then (\<lambda>scope. Some scope = dashboardId) else (\<lambda>_. True))
               in if list_event (e_event_type e)
                  then invalidateWhere id DEFAULT_MAX_CACHED_SCOPES P None None ca else ca)"

section \<open>Reading a cache through its updates\<close>

definition data_of :: "('s, 'd) cache \<Rightarrow> string \<Rightarrow> 'd option" where
  "data_of ca key = Option.bind (shown_state ca key) en_data"

lemma update_one_fields [simp]:
  "ca_entries (update_one P u ob ca) = ca_entries ca" "ca_requests (update_one P u ob ca) = ca_requests ca"
  "ca_next (update_one P u ob ca) = ca_next ca"
  by (simp_all add: update_one_def split: option.split)

definition patched :: "('s \<Rightarrow> bool) \<Rightarrow> ('s \<Rightarrow> 'd patch) \<Rightarrow> ('s, 'd) entry \<Rightarrow> ('s, 'd) entry" where
  "patched P u en = (if P (en_scope en) then patch_entry (u (en_scope en)) en else en)"

lemma update_one_heap:
  "ca_heap (update_one P u ob ca) = (ca_heap ca)(ob := map_option (patched P u) (ca_heap ca ob))"
  by (auto simp: update_one_def patched_def split: option.split)

lemma fold_update_heap:
  "distinct obs \<Longrightarrow> ca_heap (fold (update_one P u) obs ca) ob =
     (if ob \<in> set obs then map_option (patched P u) (ca_heap ca ob) else ca_heap ca ob)"
  by (induction obs arbitrary: ca) (auto simp: update_one_heap)

lemma fold_update_fields [simp]:
  "ca_entries (fold (update_one P u) obs ca) = ca_entries ca"
  "ca_requests (fold (update_one P u) obs ca) = ca_requests ca"
  by (induction obs arbitrary: ca) simp_all

lemma distinct_objects:
  assumes "cache_inv getKey ca"
  shows "distinct (map snd (ca_entries ca))"
proof -
  have k: "distinct (map fst (ca_entries ca))"
    and e: "\<forall>p \<in> set (ca_entries ca). \<exists>en. ca_heap ca (snd p) = Some en \<and> en_key en = fst p"
    using assms by (auto simp: cache_inv_def keys_ok_def)
  have "inj_on snd (set (ca_entries ca))"
  proof
    fix p q assume "p \<in> set (ca_entries ca)" "q \<in> set (ca_entries ca)" "snd p = snd q"
    moreover have "fst p = fst q" using e calculation by (metis option.inject)
    ultimately show "p = q" by (simp add: prod_eq_iff)
  qed
  with k show ?thesis by (simp add: distinct_map)
qed

lemma shown_updateWhere:
  assumes "cache_inv getKey ca"
  shows "shown_state (updateWhere P u ca) key = map_option (patched P u) (shown_state ca key)"
  using distinct_objects [OF assms]
  by (auto simp: shown_state_def updateWhere_def fold_update_heap bind_map_option
      dest!: map_of_SomeD split: bind_split intro: rev_image_eqI)

text \<open>Scopes that are their own key, as every query built on the cache has them.\<close>

lemma shown_scope:
  assumes "cache_inv id ca" "shown_state ca key = Some en"
  shows "en_scope en = key"
  using assms by (fastforce simp: shown_state_def cache_inv_def keys_ok_def bind_eq_Some_conv dest: map_of_SomeD)

lemma data_of_update:
  assumes "cache_inv id ca"
  shows "data_of (updateWhere P (\<lambda>_. data_patch (on_data f)) ca) key =
     (if P key then map_option f (data_of ca key) else data_of ca key)"
  using shown_scope [OF assms, of key]
  by (cases "shown_state ca key")
    (simp_all add: data_of_def shown_updateWhere [OF assms] patched_def patch_entry_def data_patch_def on_data_def)

lemma updateWhere_inv: "cache_inv getKey ca \<Longrightarrow> cache_inv getKey (updateWhere P (\<lambda>s. data_patch (f s)) ca)"
  unfolding updateWhere_def by (rule fold_inv) (rule update_one_inv)

section \<open>A patch is a refetch\<close>

text \<open>What the mutations do to the lists the server holds.\<close>

definition put_item :: "string \<Rightarrow> list_item \<Rightarrow> list_detail \<Rightarrow> list_detail" where
  "put_item L item d = (if l_id d = L
     then d\<lparr>l_items := map (\<lambda>i. if it_id i = it_id item then item else i) (l_items d)\<rparr> else d)"

definition drop_item :: "string \<Rightarrow> string \<Rightarrow> list_detail \<Rightarrow> list_detail" where
  "drop_item L i d = (if l_id d = L then d\<lparr>l_items := filter (\<lambda>it. it_id it \<noteq> i) (l_items d)\<rparr> else d)"

definition rename_list :: "string \<Rightarrow> string \<Rightarrow> list_detail \<Rightarrow> list_detail" where
  "rename_list L name d = (if l_id d = L then d\<lparr>l_name := name\<rparr> else d)"

definition board_rows :: "list_detail list \<Rightarrow> (string \<times> string \<times> list_item) list" where
  "board_rows details = concat (map (\<lambda>d. map (\<lambda>i. (l_id d, l_name d, i)) (l_items d)) details)"

definition row_entry :: "string \<Rightarrow> string \<times> string \<times> list_item \<Rightarrow> agenda_item option" where
  "row_entry today r = (case r of (l, n, i) \<Rightarrow> listItemToAgendaItem l n today i)"

definition row_id :: "string \<times> string \<times> list_item \<Rightarrow> string" where
  "row_id r = it_id (snd (snd r))"

definition board_ok :: "list_detail list \<Rightarrow> bool" where
  "board_ok details \<longleftrightarrow> distinct (map l_id details) \<and> distinct (map row_id (board_rows details))"

lemma fetch_rows: "fetchAgendaReminders today details = List.map_filter (row_entry today) (board_rows details)"
  by (induction details)
    (simp_all add: fetchAgendaReminders_def board_rows_def row_entry_def map_filter_def filter_map comp_def)

lemma map_filter_simps':
  "List.map_filter f (xs @ ys) = List.map_filter f xs @ List.map_filter f ys"
  "List.map_filter f (x # xs) = (case f x of None \<Rightarrow> [] | Some y \<Rightarrow> [y]) @ List.map_filter f xs"
  by (simp_all add: map_filter_def split: option.split)

lemma row_entry_facts:
  "row_entry today r = Some en \<Longrightarrow> ai_id en = reminder_id (row_id r) \<and> of_list l en = (fst r = l)"
  by (auto simp: row_entry_def row_id_def listItemToAgendaItem_def of_list_def split: prod.splits option.splits if_splits)

lemma reminder_id_inj [simp]: "reminder_id a = reminder_id b \<longleftrightarrow> a = b"
  by (simp add: reminder_id_def)

lemma filter_rows:
  assumes "\<And>r en. r \<in> set rows \<Longrightarrow> row_entry today r = Some en \<Longrightarrow> Q en = P r"
  shows "filter Q (List.map_filter (row_entry today) rows) = List.map_filter (row_entry today) (filter P rows)"
  using assms by (induction rows) (auto simp: map_filter_simps' split: option.split)

lemma drop_item_rows:
  "board_rows (map (drop_item L i) details) = filter (\<lambda>r. \<not> (fst r = L \<and> row_id r = i)) (board_rows details)"
  by (induction details)
    (auto simp: board_rows_def drop_item_def row_id_def filter_map comp_def intro: filter_cong)

lemma put_item_rows:
  "board_rows (map (put_item L item) details) =
     map (\<lambda>r. if fst r = L \<and> row_id r = it_id item then (fst r, fst (snd r), item) else r) (board_rows details)"
  by (induction details) (auto simp: board_rows_def put_item_def row_id_def)

lemma drop_list_rows: "board_rows (filter (\<lambda>d. l_id d \<noteq> L) details) = filter (\<lambda>r. fst r \<noteq> L) (board_rows details)"
  by (induction details) (auto simp: board_rows_def filter_map comp_def)

lemma rename_list_rows:
  "board_rows (map (rename_list L name) details) =
     map (\<lambda>r. if fst r = L then (L, name, snd (snd r)) else r) (board_rows details)"
  by (induction details) (auto simp: board_rows_def rename_list_def)

lemma patched_entry_is_refetch:
  assumes "distinct (map row_id rows)" "(L, n, old) \<in> set rows" "it_id old = it_id item"
    and "mset entries = mset (List.map_filter (row_entry today) rows)"
  shows "mset (agenda_entry_update today item L n entries) =
     mset (List.map_filter (row_entry today)
       (map (\<lambda>r. if fst r = L \<and> row_id r = it_id item then (fst r, fst (snd r), item) else r) rows))"
proof -
  obtain xs ys where rows: "rows = xs @ (L, n, old) # ys" using split_list [OF assms(2)] by blast
  let ?g = "\<lambda>r. if fst r = L \<and> row_id r = it_id item then (fst r, fst (snd r), item) else r"
  have other: "row_id r \<noteq> it_id item" if "r \<in> set xs \<union> set ys" for r
  proof -
    have "row_id (L, n, old) = it_id item" by (simp add: row_id_def assms(3))
    moreover from assms(1) have "row_id (L, n, old) \<notin> row_id ` (set xs \<union> set ys)" by (auto simp: rows)
    ultimately show ?thesis using that by (metis image_eqI)
  qed
  have "map ?g xs = xs" "map ?g ys = ys" using other by (auto intro!: map_idI)
  then have new: "map ?g rows = xs @ (L, n, item) # ys"
    by (simp add: rows row_id_def assms(3))
  have kept: "filter (\<lambda>en. ai_id en \<noteq> reminder_id (it_id item)) (List.map_filter (row_entry today) zs) =
      List.map_filter (row_entry today) (filter (\<lambda>r. row_id r \<noteq> it_id item) zs)" for zs
    by (rule filter_rows) (simp add: row_entry_facts)
  have "filter (\<lambda>r. row_id r \<noteq> it_id item) rows = xs @ ys"
    using other by (auto simp: rows row_id_def assms(3) filter_id_conv)
  with kept [of rows] assms(4) have "mset (filter (\<lambda>en. ai_id en \<noteq> reminder_id (it_id item)) entries) =
      mset (List.map_filter (row_entry today) (xs @ ys))"
    by (metis mset_filter)
  then show ?thesis unfolding new
    by (simp add: agenda_entry_update_def Let_def map_filter_simps' row_entry_def split: option.split)
qed

lemma mset_filter_cong: "mset xs = mset ys \<Longrightarrow> mset (filter P xs) = mset (filter P ys)"
  by simp

lemma mset_map_cong: "mset xs = mset ys \<Longrightarrow> mset (map f xs) = mset (map f ys)"
  by simp

lemma row_of: "dt \<in> set details \<Longrightarrow> i \<in> set (l_items dt) \<Longrightarrow> (l_id dt, l_name dt, i) \<in> set (board_rows details)"
  by (auto simp: board_rows_def)

lemma dropped_entry_is_refetch:
  assumes "distinct (map row_id rows)" "(L, n, old) \<in> set rows"
    and "mset entries = mset (List.map_filter (row_entry today) rows)"
  shows "mset (filter (\<lambda>en. ai_id en \<notin> reminder_id ` set [it_id old]) entries) =
     mset (List.map_filter (row_entry today) (filter (\<lambda>r. \<not> (fst r = L \<and> row_id r = it_id old)) rows))"
proof -
  have "fst r = L" if "r \<in> set rows" "row_id r = it_id old" for r
  proof -
    have "inj_on row_id (set rows)" using assms(1) by (simp add: distinct_map)
    from inj_onD [OF this _ that(1) assms(2)] that(2) show ?thesis by (simp add: row_id_def)
  qed
  then have "filter (\<lambda>en. ai_id en \<notin> reminder_id ` set [it_id old]) (List.map_filter (row_entry today) rows) =
      List.map_filter (row_entry today) (filter (\<lambda>r. \<not> (fst r = L \<and> row_id r = it_id old)) rows)"
    by (intro filter_rows) (auto simp: row_entry_facts)
  then show ?thesis by (simp only: mset_filter_cong [OF assms(3)])
qed

lemma dropped_list_is_refetch:
  assumes "mset entries = mset (List.map_filter (row_entry today) rows)"
  shows "mset (filter (\<lambda>en. \<not> of_list L en) entries) =
     mset (List.map_filter (row_entry today) (filter (\<lambda>r. fst r \<noteq> L) rows))"
proof -
  have "filter (\<lambda>en. \<not> of_list L en) (List.map_filter (row_entry today) rows) =
      List.map_filter (row_entry today) (filter (\<lambda>r. fst r \<noteq> L) rows)"
    by (intro filter_rows) (simp add: row_entry_facts)
  then show ?thesis by (simp only: mset_filter_cong [OF assms])
qed

lemma rename_row: "map_option (rename_entry L name) (row_entry today r) =
    row_entry today (if fst r = L then (L, name, snd (snd r)) else r)"
  by (auto simp: row_entry_def rename_entry_def listItemToAgendaItem_def split: prod.split option.split)

lemma renamed_list_is_refetch:
  assumes "mset entries = mset (List.map_filter (row_entry today) rows)"
  shows "mset (map (rename_entry L name) entries) =
     mset (List.map_filter (row_entry today) (map (\<lambda>r. if fst r = L then (L, name, snd (snd r)) else r) rows))"
proof -
  have "map (rename_entry L name) (List.map_filter (row_entry today) rows) =
      List.map_filter (row_entry today) (map (\<lambda>r. if fst r = L then (L, name, snd (snd r)) else r) rows)"
    by (induction rows) (simp_all only: list.map map_filter_simps' map_append rename_row [symmetric],
        simp_all add: map_filter_simps(2) split: option.split)
  then show ?thesis by (simp only: mset_map_cong [OF assms])
qed

text \<open>C7. An agenda patched from a mutation's answer holds what a refetch would: if the entry holds a
  dashboard's reminders (in any order), then after an item was changed, an item or a list deleted or a
  list renamed, patching it gives exactly the reminders the server's new lists would be fetched as,
  no entry missing, doubled or left over.\<close>

theorem agenda_patches_match_refetch:
  assumes "cache_inv id ca" and "board_ok details" and "data_of ca d = Some entries"
    and "mset entries = mset (fetchAgendaReminders today details)"
    and "dt \<in> set details" and "old \<in> set (l_items dt)" and "it_id old = it_id item"
  shows "map_option mset (data_of (applyAgendaItemUpdate today d item (l_id dt) (l_name dt) ca) d) =
       Some (mset (fetchAgendaReminders today (map (put_item (l_id dt) item) details))) \<and>
     map_option mset (data_of (removeAgendaItems [it_id old] ca) d) =
       Some (mset (fetchAgendaReminders today (map (drop_item (l_id dt) (it_id old)) details))) \<and>
     map_option mset (data_of (removeAgendaItemsForList L ca) d) =
       Some (mset (fetchAgendaReminders today (filter (\<lambda>d. l_id d \<noteq> L) details))) \<and>
     map_option mset (data_of (renameAgendaListEntries L name ca) d) =
       Some (mset (fetchAgendaReminders today (map (rename_list L name) details)))"
proof -
  note row = row_of [OF assms(5,6)]
  have dist: "distinct (map row_id (board_rows details))" using assms(2) by (simp add: board_ok_def)
  have e: "mset entries = mset (List.map_filter (row_entry today) (board_rows details))"
    using assms(4) by (simp add: fetch_rows)
  note facts = patched_entry_is_refetch [OF dist row assms(7) e] dropped_entry_is_refetch [OF dist row e]
    dropped_list_is_refetch [OF e] renamed_list_is_refetch [OF e]
  show ?thesis
    by (simp only: applyAgendaItemUpdate_def removeAgendaItems_def removeAgendaItemsForList_def
        renameAgendaListEntries_def data_of_update [OF assms(1)] assms(3) if_True refl option.map fetch_rows
        put_item_rows drop_item_rows drop_list_rows rename_list_rows facts simp_thms)
qed

definition sample_item :: "string \<Rightarrow> string option \<Rightarrow> bool \<Rightarrow> list_item" where
  "sample_item i due checked = \<lparr>it_id = i, it_list_id = ''l1'', it_text = ''milk'', it_checked = checked,
     it_due_date = due, it_priority = None, it_category = None, it_assigned_to = None, it_sort_order = 0,
     it_created_at = ''t'', it_created_by = ''u'', it_updated_at = ''t''\<rparr>"

definition sample_list :: "string \<Rightarrow> list_item list \<Rightarrow> list_detail" where
  "sample_list i items = \<lparr>l_id = i, l_dashboard_id = ''d1'', l_name = i, l_list_type = Todo,
     l_item_count = int (length items), l_sort_order = 0, l_created_at = ''t'', l_created_by = ''u'',
     l_updated_at = ''t'', l_items = items\<rparr>"

lemma agenda_patches_match_refetch_witness:
  "let details = [sample_list ''l1'' [sample_item ''i1'' (Some ''2026-01-01'') False, sample_item ''i2'' None False]];
       ca = seed id 32 ''d1'' (fetchAgendaReminders ''2026-01-02'' details) empty_cache
   in map_option mset (data_of (applyAgendaItemUpdate ''2026-01-02'' ''d1'' (sample_item ''i1'' (Some ''2026-01-01'') True)
          ''l1'' ''l1'' ca) ''d1'') = Some {#} \<and>
      fetchAgendaReminders ''2026-01-02'' details \<noteq> []"
proof -
  let ?details = "[sample_list ''l1'' [sample_item ''i1'' (Some ''2026-01-01'') False, sample_item ''i2'' None False]]"
  let ?ca = "seed id 32 ''d1'' (fetchAgendaReminders ''2026-01-02'' ?details) empty_cache"
  have inv: "cache_inv id ?ca" unfolding seed_def by (rule on_entry_inv) (simp_all add: empty_inv)
  have ok: "board_ok ?details" by (simp add: board_ok_def board_rows_def sample_list_def sample_item_def row_id_def)
  have d: "data_of ?ca ''d1'' = Some (fetchAgendaReminders ''2026-01-02'' ?details)" by code_simp
  have p: "fetchAgendaReminders ''2026-01-02'' (map (put_item ''l1'' (sample_item ''i1'' (Some ''2026-01-01'') True)) ?details) = []"
    and n: "fetchAgendaReminders ''2026-01-02'' ?details \<noteq> []" by code_simp+
  from agenda_patches_match_refetch [OF inv ok d refl, of "hd ?details" "sample_item ''i1'' (Some ''2026-01-01'') False"
      "sample_item ''i1'' (Some ''2026-01-01'') True"] p n
  show ?thesis unfolding Let_def by (simp add: sample_list_def sample_item_def)
qed

end
