(* ===== verification/ListData.thy ===== *)
theory ListData
  imports AgendaData DashboardEvents
begin

text \<open>
  The lists resource (\<open>frontend/src/resources/listData.ts\<close>): the summaries of a dashboard's lists and
  the detail of a list, each in a scoped query cache, patched after a mutation and by frames, and the
  agenda patched along with them. A scope is its id.

  A mutation is what it does before its request (only the reorders do anything) and what it does with
  the reply; a reorder's continuation gets the rows it remembered. An error is its message; toasts
  are collected in order.
\<close>

record list_store =
  ls_summaries :: "(string, list_summary list) cache"
  ls_details :: "(string, list_detail) cache"
  ls_agenda :: agenda_cache
  ls_toasts :: "string list"

definition empty_list_store :: list_store where
  "empty_list_store = \<lparr>ls_summaries = empty_cache, ls_details = empty_cache, ls_agenda = empty_cache,
     ls_toasts = []\<rparr>"

definition list_toast :: "string \<Rightarrow> list_store \<Rightarrow> list_store" where
  "list_toast msg st = st\<lparr>ls_toasts := ls_toasts st @ [msg]\<rparr>"

text \<open>Rows in the order of the given ids; \<open>None\<close> is divergence.\<close>

fun rows_in_order :: "(string \<Rightarrow> 'r option) \<Rightarrow> string list \<Rightarrow> 'r list \<Rightarrow> 'r list option" where
  "rows_in_order byId [] nxt = Some nxt"
| "rows_in_order byId (i # ids) nxt =
     (case byId i of None \<Rightarrow> None | Some row \<Rightarrow> rows_in_order byId ids (nxt @ [row]))"

definition orderByIds :: "('r \<Rightarrow> string) \<Rightarrow> 'r list \<Rightarrow> string list \<Rightarrow> 'r list option" where
  "orderByIds key rows orderedIds =
     (if length orderedIds \<noteq> length rows then None
      else if card (set orderedIds) \<noteq> length orderedIds then None
      else rows_in_order (map_of (rev (map (\<lambda>r. (key r, r)) rows))) orderedIds [])"

definition list_event_dashboard :: "sse_event \<Rightarrow> string option" where
  "list_event_dashboard event = p_dashboard_id (e_payload event)"

definition getAffectedListId :: "sse_event \<Rightarrow> string option" where
  "getAffectedListId event =
     (if e_entity_type event = ''list'' then Some (e_entity_id event) else p_list_id (e_payload event))"

definition summary_rows ::
    "string \<Rightarrow> (list_summary \<Rightarrow> list_summary option) \<Rightarrow> list_summary list \<Rightarrow> list_summary list" where
  "summary_rows listId updater rows =
     (if \<not> list_ex (\<lambda>l. l_id l = listId) rows then rows
      else List.map_filter (\<lambda>l. if l_id l = listId then updater l else Some l) rows)"

definition patchListSummaryById ::
    "string \<Rightarrow> (list_summary \<Rightarrow> list_summary option) \<Rightarrow> list_store \<Rightarrow> list_store" where
  "patchListSummaryById listId updater st =
     st\<lparr>ls_summaries := updateWhere (\<lambda>_. True) (\<lambda>_. data_patch (on_data (summary_rows listId updater)))
                          (ls_summaries st)\<rparr>"

definition detail_patch :: "(list_detail \<Rightarrow> list_detail option) \<Rightarrow> list_detail quiet_patch" where
  "detail_patch updater st =
     (case st of
        (None, err) \<Rightarrow> (None, err, True)
      | (Some d, err) \<Rightarrow>
          (case updater d of
             None \<Rightarrow> (None, Some ''List not found'', False) | Some d' \<Rightarrow> (Some d', err, False)))"

definition patchListDetailById ::
    "string \<Rightarrow> (list_detail \<Rightarrow> list_detail option) \<Rightarrow> list_store \<Rightarrow> list_store" where
  "patchListDetailById listId updater st =
     st\<lparr>ls_details := updateWhere (\<lambda>scope. scope = listId) (\<lambda>_. data_patch (detail_patch updater))
                        (ls_details st)\<rparr>"

definition removeListFromCaches :: "string \<Rightarrow> list_store \<Rightarrow> list_store" where
  "removeListFromCaches listId st =
     (let st = patchListSummaryById listId (\<lambda>_. None) st
      in st\<lparr>ls_details := updateWhere (\<lambda>scope. scope = listId)
              (\<lambda>_. data_patch (\<lambda>_. (None, Some ''List not found'', False))) (ls_details st)\<rparr>)"

section \<open>Mutations\<close>

definition detail_of :: "list_summary \<Rightarrow> list_item list \<Rightarrow> list_detail" where
  "detail_of l items = \<lparr>l_id = l_id l, l_dashboard_id = l_dashboard_id l, l_name = l_name l,
     l_list_type = l_list_type l, l_item_count = l_item_count l, l_sort_order = l_sort_order l,
     l_created_at = l_created_at l, l_created_by = l_created_by l, l_updated_at = l_updated_at l,
     l_items = items\<rparr>"

definition applyCreatedList :: "list_summary \<Rightarrow> list_store \<Rightarrow> list_store" where
  "applyCreatedList l st =
     st\<lparr>ls_summaries := updateWhere (\<lambda>scope. scope = l_dashboard_id l)
          (\<lambda>_. data_patch (\<lambda>(data, err). (Some (case data of Some ls \<Rightarrow> ls @ [l] | None \<Rightarrow> [l]), err, True)))
          (ls_summaries st),
        ls_details := seed id DEFAULT_MAX_CACHED_SCOPES (l_id l) (detail_of l []) (ls_details st)\<rparr>"

definition createListReply :: "list_summary reply \<Rightarrow> list_store \<Rightarrow> list_store" where
  "createListReply reply st = (case reply of Inl _ \<Rightarrow> st | Inr l \<Rightarrow> applyCreatedList l st)"

definition updateListNameReply :: "string \<Rightarrow> list_summary reply \<Rightarrow> list_store \<Rightarrow> list_store" where
  "updateListNameReply i reply st =
     (case reply of
        Inl _ \<Rightarrow> list_toast ''Failed to rename list.'' st
      | Inr updated \<Rightarrow>
          let st = patchListSummaryById i (\<lambda>_. Some updated) st;
              st = patchListDetailById i (\<lambda>d. Some (d\<lparr>l_name := l_name updated, l_updated_at := l_updated_at updated\<rparr>)) st
          in st\<lparr>ls_agenda := renameAgendaListEntries i (l_name updated) (ls_agenda st)\<rparr>)"

definition deleteListReply :: "string \<Rightarrow> unit reply \<Rightarrow> list_store \<Rightarrow> list_store" where
  "deleteListReply i reply st =
     (case reply of
        Inl _ \<Rightarrow> list_toast ''Failed to move list to trash.'' st
      | Inr _ \<Rightarrow>
          let st = removeListFromCaches i st
          in st\<lparr>ls_agenda := removeAgendaItemsForList i (ls_agenda st)\<rparr>)"

definition restoreListReply ::
    "string \<Rightarrow> string \<Rightarrow> list_summary reply \<Rightarrow> list_store \<Rightarrow> list_store" where
  "restoreListReply i dashboardId reply st =
     (case reply of
        Inl err \<Rightarrow> list_toast (error_message err ''Failed to restore list.'') st
      | Inr restored \<Rightarrow>
          st\<lparr>ls_summaries := updateWhere (\<lambda>scope. scope = dashboardId)
               (\<lambda>_. data_patch (on_data (\<lambda>rows. filter (\<lambda>l. l_id l \<noteq> i) rows @ [restored]))) (ls_summaries st),
             ls_agenda := invalidateAgendaReminders dashboardId (ls_agenda st)\<rparr>)"

text \<open>\<open>today\<close> is the day key at the time of the call.\<close>

definition patchAgendaFromListDetail :: "string \<Rightarrow> string \<Rightarrow> list_item \<Rightarrow> list_store \<Rightarrow> list_store" where
  "patchAgendaFromListDetail today listId item st =
     (let (read, details) = getState id DEFAULT_MAX_CACHED_SCOPES listId (ls_details st);
          st = st\<lparr>ls_details := details\<rparr>
      in case fst read of
           None \<Rightarrow> st
         | Some detail \<Rightarrow> st\<lparr>ls_agenda :=
             applyAgendaItemUpdate today (l_dashboard_id detail) item (l_id detail) (l_name detail) (ls_agenda st)\<rparr>)"

definition addListItemReply :: "string \<Rightarrow> string \<Rightarrow> list_item reply \<Rightarrow> list_store \<Rightarrow> list_store" where
  "addListItemReply today listId reply st =
     (case reply of
        Inl err \<Rightarrow> list_toast (error_message err ''Failed to add item.'') st
      | Inr item \<Rightarrow>
          let st = patchListDetailById listId
                     (\<lambda>d. Some (d\<lparr>l_items := l_items d @ [item], l_item_count := l_item_count d + 1\<rparr>)) st;
              st = patchListSummaryById listId (\<lambda>l. Some (l\<lparr>l_item_count := l_item_count l + 1\<rparr>)) st
          in patchAgendaFromListDetail today listId item st)"

definition updateListItemReply ::
    "string \<Rightarrow> string \<Rightarrow> string \<Rightarrow> bool \<Rightarrow> list_item reply \<Rightarrow> list_store \<Rightarrow> list_store" where
  "updateListItemReply today listId itemId has_text reply st =
     (case reply of
        Inl _ \<Rightarrow> list_toast (if has_text then ''Failed to rename item.'' else ''Failed to update item.'') st
      | Inr item \<Rightarrow>
          let st = patchListDetailById listId
                     (\<lambda>d. Some (d\<lparr>l_items := map (\<lambda>cur. if it_id cur = itemId then item else cur) (l_items d)\<rparr>)) st
          in patchAgendaFromListDetail today listId item st)"

definition deleteListItemReply :: "string \<Rightarrow> string \<Rightarrow> unit reply \<Rightarrow> list_store \<Rightarrow> list_store" where
  "deleteListItemReply listId itemId reply st =
     (case reply of
        Inl _ \<Rightarrow> list_toast ''Failed to delete item.'' st
      | Inr _ \<Rightarrow>
          let st = patchListDetailById listId
                     (\<lambda>d. Some (d\<lparr>l_items := filter (\<lambda>it. it_id it \<noteq> itemId) (l_items d),
                                l_item_count := max 0 (l_item_count d - 1)\<rparr>)) st;
              st = st\<lparr>ls_agenda := removeAgendaItems [itemId] (ls_agenda st)\<rparr>
          in patchListSummaryById listId (\<lambda>l. Some (l\<lparr>l_item_count := max 0 (l_item_count l - 1)\<rparr>)) st)"

definition is_conflict :: "thrown \<Rightarrow> bool" where
  "is_conflict err \<longleftrightarrow> error_status err = Some 409"

definition reorderListItems ::
    "string \<Rightarrow> string list \<Rightarrow> list_store \<Rightarrow> list_item list option \<times> list_store" where
  "reorderListItems listId orderedIds st =
     (let (read, details) = getState id DEFAULT_MAX_CACHED_SCOPES listId (ls_details st)
      in (map_option l_items (fst read),
          patchListDetailById listId
            (\<lambda>d. Some (case orderByIds it_id (l_items d) orderedIds of
                    Some items \<Rightarrow> d\<lparr>l_items := items\<rparr> | None \<Rightarrow> d))
            (st\<lparr>ls_details := details\<rparr>)))"

definition reorderListItemsReply ::
    "string \<Rightarrow> list_item list option \<Rightarrow> unit reply \<Rightarrow> list_store \<Rightarrow> list_store" where
  "reorderListItemsReply listId previous reply st =
     (case reply of
        Inr _ \<Rightarrow> st
      | Inl err \<Rightarrow>
          let st = (case previous of
                      None \<Rightarrow> st
                    | Some items \<Rightarrow> patchListDetailById listId (\<lambda>d. Some (d\<lparr>l_items := items\<rparr>)) st)
          in if is_conflict err
             then list_toast ''Could not save order - refreshed.''
                    (st\<lparr>ls_details := invalidateWhere id DEFAULT_MAX_CACHED_SCOPES (\<lambda>scope. scope = listId)
                                       None None (ls_details st)\<rparr>)
             else list_toast ''Couldn't save the new order.'' st)"

definition reorderLists ::
    "string \<Rightarrow> string list \<Rightarrow> list_store \<Rightarrow> list_summary list option \<times> list_store" where
  "reorderLists dashboardId orderedIds st =
     (let (read, summaries) = getState id DEFAULT_MAX_CACHED_SCOPES dashboardId (ls_summaries st)
      in (fst read,
          st\<lparr>ls_summaries := updateWhere (\<lambda>scope. scope = dashboardId)
               (\<lambda>_. data_patch (on_data (\<lambda>rows.
                  case orderByIds l_id rows orderedIds of Some ordered \<Rightarrow> ordered | None \<Rightarrow> rows)))
               summaries\<rparr>))"

definition reorderListsReply ::
    "string \<Rightarrow> list_summary list option \<Rightarrow> unit reply \<Rightarrow> list_store \<Rightarrow> list_store" where
  "reorderListsReply dashboardId previous reply st =
     (case reply of
        Inr _ \<Rightarrow> st
      | Inl err \<Rightarrow>
          let st = (case previous of
                      None \<Rightarrow> st
                    | Some rows \<Rightarrow> st\<lparr>ls_summaries := updateWhere (\<lambda>scope. scope = dashboardId)
                        (\<lambda>_. data_patch (\<lambda>(data, err). (Some rows, err, True))) (ls_summaries st)\<rparr>)
          in if is_conflict err
             then list_toast ''Could not save order - refreshed.''
                    (st\<lparr>ls_summaries := invalidateWhere id DEFAULT_MAX_CACHED_SCOPES
                          (\<lambda>scope. scope = dashboardId) None None (ls_summaries st)\<rparr>)
             else list_toast ''Couldn't save the new order.'' st)"

section \<open>Frames\<close>

text \<open>
  \<open>pickPatchableItemFields\<close> and the spread over the item. A value of another shape than the column's
  type, which the backend's model does not emit, leaves the field as it is here.
\<close>

definition json_text :: "json \<Rightarrow> string option option" where
  "json_text j = (case j of JNull \<Rightarrow> Some None | JStr s \<Rightarrow> Some (Some s) | _ \<Rightarrow> None)"

definition json_priority :: "json \<Rightarrow> item_priority option option" where
  "json_priority j =
     (case j of
        JNull \<Rightarrow> Some None
      | JStr s \<Rightarrow> (if s = ''low'' then Some (Some Low) else if s = ''medium'' then Some (Some Medium)
                   else if s = ''high'' then Some (Some High) else None)
      | _ \<Rightarrow> None)"

definition picked :: "json_obj \<Rightarrow> string \<Rightarrow> (json \<Rightarrow> 'v option) \<Rightarrow> 'v \<Rightarrow> 'v" where
  "picked values field decode current =
     (case Option.bind (map_of values field) decode of None \<Rightarrow> current | Some v \<Rightarrow> v)"

definition apply_item_values :: "json_obj \<Rightarrow> list_item \<Rightarrow> list_item" where
  "apply_item_values values item =
     item\<lparr>it_text := picked values ''text'' (\<lambda>j. case j of JStr s \<Rightarrow> Some s | _ \<Rightarrow> None) (it_text item),
          it_checked := picked values ''checked'' (\<lambda>j. case j of JBool b \<Rightarrow> Some b | _ \<Rightarrow> None) (it_checked item),
          it_due_date := picked values ''due_date'' json_text (it_due_date item),
          it_priority := picked values ''priority'' json_priority (it_priority item),
          it_category := picked values ''category'' json_text (it_category item),
          it_assigned_to := picked values ''assigned_to'' json_text (it_assigned_to item)\<rparr>"

definition invalidate_detail :: "string \<Rightarrow> list_store \<Rightarrow> list_store" where
  "invalidate_detail listId st =
     st\<lparr>ls_details := invalidateWhere id DEFAULT_MAX_CACHED_SCOPES (\<lambda>scope. scope = listId) None None
                       (ls_details st)\<rparr>"

definition invalidate_summaries :: "string \<Rightarrow> list_store \<Rightarrow> list_store" where
  "invalidate_summaries dashboardId st =
     st\<lparr>ls_summaries := invalidateWhere id DEFAULT_MAX_CACHED_SCOPES (\<lambda>scope. scope = dashboardId) None None
                         (ls_summaries st)\<rparr>"

text \<open>A patch whose updater may find divergence (\<open>None\<close>), then the reload that divergence asks for.\<close>

definition patch_or_reload_detail ::
    "string \<Rightarrow> (list_detail \<Rightarrow> list_detail option) \<Rightarrow> list_store \<Rightarrow> list_store" where
  "patch_or_reload_detail listId updater st =
     (let (read, details) = getState id DEFAULT_MAX_CACHED_SCOPES listId (ls_details st);
          st = st\<lparr>ls_details := details\<rparr>
      in case fst read of
           None \<Rightarrow> invalidate_detail listId st
         | Some detail \<Rightarrow>
             let diverged = (updater detail = None);
                 st = patchListDetailById listId
                        (\<lambda>d. Some (case updater d of Some d' \<Rightarrow> d' | None \<Rightarrow> d)) st
             in if diverged then invalidate_detail listId st else st)"

definition item_values_updater :: "string \<Rightarrow> json_obj \<Rightarrow> list_detail \<Rightarrow> list_detail option" where
  "item_values_updater itemId values d =
     (if \<not> list_ex (\<lambda>it. it_id it = itemId) (l_items d) then None
      else Some (d\<lparr>l_items :=
        map (\<lambda>it. if it_id it = itemId then apply_item_values values it else it) (l_items d)\<rparr>))"

definition item_order_updater :: "string list \<Rightarrow> list_detail \<Rightarrow> list_detail option" where
  "item_order_updater itemIds d =
     map_option (\<lambda>items. d\<lparr>l_items := items\<rparr>) (orderByIds it_id (l_items d) itemIds)"

definition patch_or_reload_summaries :: "string \<Rightarrow> string list \<Rightarrow> list_store \<Rightarrow> list_store" where
  "patch_or_reload_summaries dashboardId listIds st =
     (let (read, summaries) = getState id DEFAULT_MAX_CACHED_SCOPES dashboardId (ls_summaries st);
          st = st\<lparr>ls_summaries := summaries\<rparr>
      in case fst read of
           None \<Rightarrow> invalidate_summaries dashboardId st
         | Some rows \<Rightarrow>
             let diverged = (orderByIds l_id rows listIds = None);
                 st = st\<lparr>ls_summaries := updateWhere (\<lambda>scope. scope = dashboardId)
                        (\<lambda>_. data_patch (on_data (\<lambda>rows.
                           case orderByIds l_id rows listIds of Some ordered \<Rightarrow> ordered | None \<Rightarrow> rows)))
                        summaries\<rparr>
             in if diverged then invalidate_summaries dashboardId st else st)"

text \<open>The tail of the handler: what cannot be patched is reloaded.\<close>

definition reload_after :: "sse_event \<Rightarrow> list_store \<Rightarrow> list_store" where
  "reload_after e st =
     (let dashboardId = list_event_dashboard e; affected = getAffectedListId e;
          isItemEvent = (e_entity_type e = ''list_item'');
          shouldReloadSummaries = (\<not> isItemEvent \<or> e_event_type e = ListItemCreated \<or> e_event_type e = ListItemDeleted);
          st = (if truthy dashboardId \<and> shouldReloadSummaries
                then invalidate_summaries (the dashboardId) st else st)
      in if truthy affected then invalidate_detail (the affected) st else st)"

definition handleListResourceEvent :: "bool \<Rightarrow> resource_event \<Rightarrow> list_store \<Rightarrow> list_store" where
  "handleListResourceEvent isOwnEcho event st =
     (case event of
        Resync \<Rightarrow>
          st\<lparr>ls_summaries := invalidateWhere id DEFAULT_MAX_CACHED_SCOPES (\<lambda>_. True) None None (ls_summaries st),
             ls_details := invalidateWhere id DEFAULT_MAX_CACHED_SCOPES (\<lambda>_. True) None None (ls_details st)\<rparr>
      | Frame e \<Rightarrow>
          let dashboardId = list_event_dashboard e; affected = getAffectedListId e; t = e_event_type e;
              values = p_values (e_payload e)
          in if \<not> list_event t \<or> isOwnEcho then st
             else if (t = ListItemChecked \<or> t = ListItemUpdated) \<and> truthy affected \<and> values \<noteq> None
             then patch_or_reload_detail (the affected) (item_values_updater (e_entity_id e) (the values)) st
             else if t = ListItemReordered
             then (case p_item_ids (e_payload e) of
                     Some itemIds \<Rightarrow>
                       if truthy affected
                       then patch_or_reload_detail (the affected) (item_order_updater itemIds) st else st
                   | None \<Rightarrow> st)
             else if t = ListReordered
             then (case p_list_ids (e_payload e) of
                     Some listIds \<Rightarrow>
                       if truthy dashboardId
                       then patch_or_reload_summaries (the dashboardId) listIds st else st
                   | None \<Rightarrow> st)
             else if t = ListDeleted \<and> truthy affected then removeListFromCaches (the affected) st
             else reload_after e st)"

definition resetListData :: "list_store \<Rightarrow> list_store" where
  "resetListData st = st\<lparr>ls_summaries := reset (ls_summaries st), ls_details := reset (ls_details st)\<rparr>"

section \<open>Reordering by ids\<close>

lemma rows_in_order_spec:
  "rows_in_order byId ids nxt = Some out \<Longrightarrow> \<exists>rows. out = nxt @ rows \<and> map byId ids = map Some rows"
proof (induction ids arbitrary: nxt)
  case (Cons i ids)
  then obtain row where r: "byId i = Some row" "rows_in_order byId ids (nxt @ [row]) = Some out"
    by (auto split: option.splits)
  from Cons.IH [OF r(2)] r(1) show ?case by auto
qed simp

lemma rows_in_order_total:
  "\<forall>i \<in> set ids. byId i \<noteq> None \<Longrightarrow> rows_in_order byId ids nxt \<noteq> None"
  by (induction ids arbitrary: nxt) (auto split: option.split)

lemma by_id_lookup:
  assumes "distinct (map key rows)"
  shows "map_of (rev (map (\<lambda>r. (key r, r)) rows)) i = Some r \<longleftrightarrow> r \<in> set rows \<and> key r = i"
proof -
  have "distinct (map fst (rev (map (\<lambda>r. (key r, r)) rows)))"
    using assms by (simp add: rev_map [symmetric] comp_def)
  from map_of_eq_Some_iff [OF this] show ?thesis by auto
qed

lemma orderByIds_some:
  assumes "distinct (map key rows)" "orderByIds key rows ids = Some out"
  shows "mset out = mset rows \<and> map key out = ids"
proof -
  let ?by = "map_of (rev (map (\<lambda>r. (key r, r)) rows))"
  from assms(2) have len: "length ids = length rows" and c: "card (set ids) = length ids"
    and r: "rows_in_order ?by ids [] = Some out"
    by (auto simp: orderByIds_def split: if_splits)
  from c have d: "distinct ids" by (rule card_distinct)
  from rows_in_order_spec [OF r] have m: "map ?by ids = map Some out" by simp
  then have l: "length ids = length out" by (metis length_map)
  have at: "out ! k \<in> set rows \<and> key (out ! k) = ids ! k" if "k < length out" for k
  proof -
    have "map ?by ids ! k = map Some out ! k" by (simp only: m)
    then have "?by (ids ! k) = Some (out ! k)" using that l by (simp only: nth_map)
    then show ?thesis using by_id_lookup [OF assms(1)] by blast
  qed
  then have k: "map key out = ids" using l by (simp add: list_eq_iff_nth_eq)
  have sub: "set out \<subseteq> set rows" using at by (auto simp: in_set_conv_nth)
  have d1: "distinct out" using k d by (simp add: distinct_map flip: k)
  have d2: "distinct rows" using assms(1) by (simp add: distinct_map)
  have "card (set out) = card (set rows)" using l len d1 d2 by (simp add: distinct_card)
  then have "set out = set rows" using sub by (simp add: card_subset_eq)
  with d1 d2 k show ?thesis by (simp add: set_eq_iff_mset_eq_distinct)
qed

lemma orderByIds_total:
  assumes "distinct (map key rows)" "mset ids = mset (map key rows)"
  shows "orderByIds key rows ids \<noteq> None"
proof -
  have "length ids = length rows" using mset_eq_length [OF assms(2)] by simp
  moreover have "card (set ids) = length ids"
    using mset_eq_imp_distinct_iff [OF assms(2)] assms(1) by (simp add: distinct_card)
  moreover have "\<forall>i \<in> set ids. map_of (rev (map (\<lambda>r. (key r, r)) rows)) i \<noteq> None"
  proof
    fix i assume "i \<in> set ids"
    with mset_eq_setD [OF assms(2)] obtain r where "r \<in> set rows" "key r = i" by auto
    then show "map_of (rev (map (\<lambda>r. (key r, r)) rows)) i \<noteq> None"
      using by_id_lookup [OF assms(1)] by blast
  qed
  ultimately show ?thesis using rows_in_order_total by (simp add: orderByIds_def)
qed

text \<open>C8. Reordering rows by a list of ids succeeds exactly when the list names every row once, and then
  returns the same rows in the order of the list. A stale, short, long or repeating list of ids is
  refused, so no row can be lost or shown twice by a reorder.\<close>

theorem orderByIds_exact:
  assumes "distinct (map key rows)"
  shows "(orderByIds key rows ids \<noteq> None \<longleftrightarrow> mset ids = mset (map key rows)) \<and>
     (orderByIds key rows ids = Some out \<longleftrightarrow> mset out = mset rows \<and> map key out = ids)"
proof -
  have a: "mset ids = mset (map key rows)" if "orderByIds key rows ids = Some out" for out
    using orderByIds_some [OF assms that] by (metis mset_map)
  moreover have "orderByIds key rows ids = Some out" if r: "mset out = mset rows" "map key out = ids"
  proof -
    have "mset ids = mset (map key rows)" unfolding r(2) [symmetric] mset_map r(1) ..
    from orderByIds_total [OF assms this] obtain out' where o': "orderByIds key rows ids = Some out'" by auto
    note s = orderByIds_some [OF assms o']
    have "set out' = set rows" "set out = set rows"
      using s r(1) by (auto dest: mset_eq_setD)
    moreover have "map key out' = map key out" using s r(2) by (simp only:)
    moreover have "inj_on key (set rows)" using assms by (simp add: distinct_map)
    ultimately have "out' = out" by (metis map_inj_on Un_absorb)
    with o' show ?thesis by simp
  qed
  ultimately show ?thesis using orderByIds_some [OF assms] orderByIds_total [OF assms] by blast
qed

lemma orderByIds_exact_witness:
  "orderByIds fst [(''a'', 1), (''b'', 2 :: int)] [''b'', ''a''] = Some [(''b'', 2), (''a'', 1)] \<and>
   orderByIds fst [(''a'', 1), (''b'', 2 :: int)] [''b'', ''b''] = None"
proof -
  have "distinct (map fst [(''a'', 1), (''b'', 2 :: int)])" by simp
  note exact = orderByIds_exact [OF this]
  show ?thesis using exact [of "[''b'', ''a'']" "[(''b'', 2), (''a'', 1)]"] exact [of "[''b'', ''b'']"]
    by auto
qed

end
