(* ===== verification/ListSteps.thy ===== *)
theory ListSteps
  imports ListData
begin

text \<open>
  Why a mutation needs no refetch. The server's lists of a dashboard are the abstract state
  (\<open>list_detail list\<close>, in its order); \<open>server_do\<close> is what the routes of \<open>backend/app/routers/lists.py\<close>
  do to them. The client's caches are in step with it (\<open>in_step\<close>) when the summaries are the lists'
  summaries, every loaded detail is the list's and the agenda holds the reminders a fetch would.

  The lemmas show that applying the reply of one of six mutations (adding, changing and deleting an item, renaming,
  deleting and creating a list) to the caches keeps them in step, so the frame that echoes the client's own mutation
  can be dropped. Adding and changing an item need the detail of its list loaded, from which the agenda's entry is
  derived. Restoring a list is not among them (its agenda effect is left to a refetch and its row is put last, where
  the server may not have it), nor are the two reorders, after which the rows keep their old \<open>sort_order\<close>.
\<close>

section \<open>What the operations do to the data shown\<close>

lemma data_of_patch:
  assumes "cache_inv id ca"
  shows "data_of (updateWhere P (\<lambda>_. data_patch f) ca) key =
     (if P key then Option.bind (shown_state ca key) (\<lambda>en. fst (f (en_data en, en_error en))) else data_of ca key)"
  using shown_scope [OF assms, of key]
  by (cases "shown_state ca key")
    (simp_all add: data_of_def shown_updateWhere [OF assms] patched_def patch_entry_def data_patch_def
      split: prod.split)

lemma data_of_detail:
  assumes "cache_inv id ca"
  shows "data_of (updateWhere (\<lambda>scope. scope = L) (\<lambda>_. data_patch (detail_patch (\<lambda>d. Some (g d)))) ca) key =
     (if key = L then map_option g (data_of ca key) else data_of ca key)"
  unfolding data_of_patch [OF assms]
  by (cases "shown_state ca key") (auto simp: data_of_def detail_patch_def split: option.split)

lemma data_of_entry: "data_of ca key = Some d \<Longrightarrow> \<exists>en. shown_state ca key = Some en \<and> en_data en = Some d"
  by (auto simp: data_of_def bind_eq_Some_conv)

lemma ensure_known:
  assumes "cache_inv id ca" "data_of ca key = Some d"
  shows "\<exists>ob en. ensureEntry id cap key ca = (ob, ca) \<and> ca_heap ca ob = Some en \<and> en_data en = Some d"
proof -
  from data_of_entry [OF assms(2)] obtain en where s: "shown_state ca key = Some en" "en_data en = Some d" by blast
  then obtain ob where ob: "map_of (ca_entries ca) key = Some ob" "ca_heap ca ob = Some en"
    by (auto simp: shown_state_def bind_eq_Some_conv)
  have "en_scope en = key" using shown_scope [OF assms(1) s(1)] .
  then have "put ob (en\<lparr>en_scope := key\<rparr>) ca = ca" using ob by (simp add: put_def fun_upd_idem)
  with ob s show ?thesis by (simp add: ensureEntry_def)
qed

lemma getState_known:
  "cache_inv id ca \<Longrightarrow> data_of ca key = Some d \<Longrightarrow> \<exists>l e. getState id cap key ca = ((Some d, l, e), ca)"
  using ensure_known [of ca key d cap] by (auto simp: getState_def)

lemma ensure_shown:
  assumes "cache_inv id ca" "ensureEntry id cap key ca = (ob, ca')" "key' \<noteq> key"
  shows "shown_state ca' key' \<in> {None, shown_state ca key'}"
proof (cases "map_of (ca_entries ca) key")
  case None
  let ?ob = "ca_next ca"
  let ?new = "put ?ob (fresh_entry key key) (ca\<lparr>ca_entries := AList.update key ?ob (ca_entries ca), ca_next := ?ob + 1\<rparr>)"
  have ca': "ca' = evictColdEntries cap ?new" using None assms(2) by (auto simp: ensureEntry_def Let_def)
  have dist: "distinct (map fst (ca_entries ?new))"
    using assms(1) by (simp add: cache_inv_def keys_ok_def distinct_update)
  have same: "map_of (ca_entries ?new) key' = map_of (ca_entries ca) key'"
    using assms(3) by (simp add: update_conv')
  have heap: "ca_heap ca' = ca_heap ?new" using evict_shape [of cap ?new] ca' by auto
  show ?thesis
  proof (cases "map_of (ca_entries ca) key'")
    case None
    have "map_of (ca_entries ca') key' = None"
    proof (rule ccontr)
      assume "map_of (ca_entries ca') key' \<noteq> None"
      then obtain ob' where "(key', ob') \<in> set (ca_entries ca')" by (auto dest: map_of_SomeD)
      with evict_shape [of cap ?new] ca' have "(key', ob') \<in> set (ca_entries ?new)" by auto
      with dist have "map_of (ca_entries ?new) key' = Some ob'" by (rule map_of_is_SomeI)
      with same None show False by simp
    qed
    then show ?thesis by (simp add: shown_state_def)
  next
    case (Some ob')
    then have m: "map_of (ca_entries ?new) key' = Some ob'" using same by simp
    from evict_lookup [OF dist m, of cap] ca' have "map_of (ca_entries ca') key' \<in> {None, Some ob'}" by simp
    moreover have "ob' \<noteq> ?ob"
      using assms(1) map_of_SomeD [OF Some] by (fastforce simp: cache_inv_def keys_ok_def heap_ok_def)
    ultimately show ?thesis using heap Some by (auto simp: shown_state_def)
  qed
next
  case (Some ob')
  with assms(1) obtain en where en: "ca_heap ca ob' = Some en" "en_scope en = key" "en_key en = key"
    by (fastforce simp: cache_inv_def keys_ok_def dest: map_of_SomeD)
  with Some assms(2) have "ca' = ca" by (simp add: ensureEntry_def put_def fun_upd_idem)
  then show ?thesis by simp
qed

lemma seed_data:
  assumes "cache_inv id ca"
  shows "data_of (seed id cap key d ca) key' \<in> {None, if key' = key then Some d else data_of ca key'}"
proof -
  obtain ob ca' where e: "ensureEntry id cap key ca = (ob, ca')" by force
  from ensureEntry_inv [OF assms e] obtain en where inv: "cache_inv id ca'"
    and m: "map_of (ca_entries ca') key \<in> {None, Some ob}" and en: "ca_heap ca' ob = Some en" "en_key en = key"
    by auto
  let ?en = "en\<lparr>en_stale := False, en_data := Some d, en_loading := False, en_error := None\<rparr>"
  have s: "seed id cap key d ca = put ob ?en ca'" using e en by (simp add: seed_def on_entry_def)
  show ?thesis
  proof (cases "key' = key")
    case True
    with m show ?thesis by (auto simp: s data_of_def shown_state_def)
  next
    case False
    have "ob' \<noteq> ob" if "map_of (ca_entries ca') key' = Some ob'" for ob'
      using inv en False map_of_SomeD [OF that] by (fastforce simp: cache_inv_def keys_ok_def)
    then have "shown_state (put ob ?en ca') key' = shown_state ca' key'"
      by (cases "map_of (ca_entries ca') key'") (auto simp: shown_state_def)
    with ensure_shown [OF assms e False] False show ?thesis by (auto simp: s data_of_def)
  qed
qed

section \<open>The server's lists and the client's caches\<close>

abbreviation summary_of :: "list_detail \<Rightarrow> list_summary" where
  "summary_of \<equiv> list_summary.truncate"

datatype list_mutation =
    AddItem string list_item
  | UpdateItem string list_item
  | DeleteItem string string
  | RenameList string string string
  | DeleteList string
  | CreateList list_summary

definition add_item :: "string \<Rightarrow> list_item \<Rightarrow> list_detail \<Rightarrow> list_detail" where
  "add_item L item d = (if l_id d = L
     then d\<lparr>l_items := l_items d @ [item], l_item_count := l_item_count d + 1\<rparr> else d)"

definition delete_item :: "string \<Rightarrow> string \<Rightarrow> list_detail \<Rightarrow> list_detail" where
  "delete_item L i d = (if l_id d = L
     then d\<lparr>l_items := filter (\<lambda>it. it_id it \<noteq> i) (l_items d), l_item_count := l_item_count d - 1\<rparr> else d)"

definition renamed :: "string \<Rightarrow> string \<Rightarrow> string \<Rightarrow> list_detail \<Rightarrow> list_detail" where
  "renamed L name at d = (if l_id d = L then d\<lparr>l_name := name, l_updated_at := at\<rparr> else d)"

fun server_do :: "list_mutation \<Rightarrow> list_detail list \<Rightarrow> list_detail list" where
  "server_do (AddItem L item) B = map (add_item L item) B"
| "server_do (UpdateItem L item) B = map (put_item L item) B"
| "server_do (DeleteItem L i) B = map (delete_item L i) B"
| "server_do (RenameList L name at) B = map (renamed L name at) B"
| "server_do (DeleteList L) B = filter (\<lambda>d. l_id d \<noteq> L) B"
| "server_do (CreateList l) B = B @ [detail_of l []]"

text \<open>The client's continuation with the server's reply.\<close>

fun client_do :: "string \<Rightarrow> list_detail list \<Rightarrow> list_mutation \<Rightarrow> list_store \<Rightarrow> list_store" where
  "client_do today B (AddItem L item) st = addListItemReply today L (Inr item) st"
| "client_do today B (UpdateItem L item) st = updateListItemReply today L (it_id item) True (Inr item) st"
| "client_do today B (DeleteItem L i) st = deleteListItemReply L i (Inr ()) st"
| "client_do today B (RenameList L name at) st =
     (case find (\<lambda>d. l_id d = L) B of
        None \<Rightarrow> st | Some d \<Rightarrow> updateListNameReply L (Inr (summary_of (renamed L name at d))) st)"
| "client_do today B (DeleteList L) st = deleteListReply L (Inr ()) st"
| "client_do today B (CreateList l) st = createListReply (Inr l) st"

definition lists_ok :: "string \<Rightarrow> list_detail list \<Rightarrow> bool" where
  "lists_ok d B \<longleftrightarrow> board_ok B \<and>
     (\<forall>dt \<in> set B. l_dashboard_id dt = d \<and> l_item_count dt = int (length (l_items dt)))"

definition caches_ok :: "list_store \<Rightarrow> bool" where
  "caches_ok st \<longleftrightarrow> cache_inv id (ls_summaries st) \<and> cache_inv id (ls_details st) \<and> cache_inv id (ls_agenda st)"

definition agenda_in_step :: "string \<Rightarrow> list_detail list \<Rightarrow> agenda_item list option \<Rightarrow> bool" where
  "agenda_in_step today B data \<longleftrightarrow>
     (case data of None \<Rightarrow> True | Some es \<Rightarrow> mset es = mset (fetchAgendaReminders today B))"

definition in_step :: "string \<Rightarrow> string \<Rightarrow> list_detail list \<Rightarrow> list_store \<Rightarrow> bool" where
  "in_step today d B st \<longleftrightarrow> caches_ok st \<and>
     data_of (ls_summaries st) d = Some (map summary_of B) \<and>
     (\<forall>dt \<in> set B. data_of (ls_details st) (l_id dt) \<in> {None, Some dt}) \<and>
     agenda_in_step today B (data_of (ls_agenda st) d)"

text \<open>
  A mutation the user can make: of a list and an item that are there; to add or change an item the detail of its list
  is loaded, as it is where either is offered (the list's page and its widget).
\<close>

definition has_list :: "string \<Rightarrow> list_detail list \<Rightarrow> bool" where
  "has_list L B \<longleftrightarrow> L \<in> l_id ` set B"

definition has_item :: "string \<Rightarrow> string \<Rightarrow> list_detail list \<Rightarrow> bool" where
  "has_item L i B \<longleftrightarrow> (\<exists>dt \<in> set B. l_id dt = L \<and> i \<in> it_id ` set (l_items dt))"

definition is_open :: "string \<Rightarrow> list_store \<Rightarrow> bool" where
  "is_open L st \<longleftrightarrow> data_of (ls_details st) L \<noteq> None"

fun allowed :: "string \<Rightarrow> list_detail list \<Rightarrow> list_mutation \<Rightarrow> list_store \<Rightarrow> bool" where
  "allowed d B (AddItem L item) st \<longleftrightarrow> has_list L B \<and> is_open L st \<and> it_id item \<notin> row_id ` set (board_rows B)"
| "allowed d B (UpdateItem L item) st \<longleftrightarrow> has_item L (it_id item) B \<and> is_open L st"
| "allowed d B (DeleteItem L i) st \<longleftrightarrow> has_item L i B"
| "allowed d B (RenameList L name at) st \<longleftrightarrow> has_list L B"
| "allowed d B (DeleteList L) st \<longleftrightarrow> has_list L B"
| "allowed d B (CreateList l) st \<longleftrightarrow> \<not> has_list (l_id l) B \<and> l_dashboard_id l = d \<and> l_item_count l = 0"

text \<open>The server's lists stay well formed.\<close>

lemma row_ids: "map row_id (board_rows B) = concat (map (\<lambda>d. map it_id (l_items d)) B)"
  by (induction B) (simp_all add: board_rows_def row_id_def comp_def)

lemma map_ids [simp]:
  "l_id (add_item L item d) = l_id d" "l_id (put_item L item d) = l_id d" "l_id (delete_item L i d) = l_id d"
  "l_id (renamed L name at d) = l_id d"
  by (simp_all add: add_item_def put_item_def delete_item_def renamed_def)

lemma item_ids_put [simp]: "map it_id (l_items (put_item L item d)) = map it_id (l_items d)"
  by (auto simp: put_item_def)

lemma item_ids_renamed [simp]: "l_items (renamed L name at d) = l_items d"
  by (simp add: renamed_def)

lemma board_rows_simps [simp]:
  "board_rows [] = []" "board_rows (d # B) = map (\<lambda>i. (l_id d, l_name d, i)) (l_items d) @ board_rows B"
  by (simp_all add: board_rows_def)

lemma add_item_rows:
  assumes "distinct (map l_id B)" "dt \<in> set B" "l_id dt = L"
  shows "mset (board_rows (map (add_item L item) B)) = add_mset (L, l_name dt, item) (mset (board_rows B))"
  using assms
proof (induction B)
  case (Cons d B)
  show ?case
  proof (cases "l_id d = L")
    case True
    with Cons.prems have "dt = d" by (auto simp: image_iff)
    moreover from True Cons.prems(1) have "map (add_item L item) B = B"
      by (intro map_idI) (auto simp: add_item_def image_iff)
    moreover have "add_item L item d = d\<lparr>l_items := l_items d @ [item], l_item_count := l_item_count d + 1\<rparr>"
      using True by (simp add: add_item_def)
    ultimately show ?thesis using True by simp
  next
    case False
    with Cons show ?thesis by (auto simp: add_item_def)
  qed
qed simp

lemma mset_rows_cong:
  "mset rows = mset rows' \<Longrightarrow> mset (List.map_filter f rows) = mset (List.map_filter f rows')"
  by (simp add: map_filter_def)

lemma delete_item_rows: "board_rows (map (delete_item L i) B) = board_rows (map (drop_item L i) B)"
  by (induction B) (auto simp: board_rows_def delete_item_def drop_item_def)

lemma renamed_rows: "board_rows (map (renamed L name at) B) = board_rows (map (rename_list L name) B)"
  by (induction B) (auto simp: board_rows_def renamed_def rename_list_def)

lemma filter_one_less:
  "distinct (map f xs) \<Longrightarrow> i \<in> f ` set xs \<Longrightarrow> int (length (filter (\<lambda>x. f x \<noteq> i) xs)) = int (length xs) - 1"
proof (induction xs)
  case (Cons x xs)
  show ?case
  proof (cases "f x = i")
    case True
    with Cons.prems(1) have "i \<notin> f ` set xs" by auto
    then have "\<forall>y \<in> set xs. f y \<noteq> i" by blast
    then have "filter (\<lambda>x. f x \<noteq> i) xs = xs" by (simp add: filter_id_conv)
    with True show ?thesis by simp
  qed (use Cons in auto)
qed simp

lemma items_distinct: "board_ok B \<Longrightarrow> dt \<in> set B \<Longrightarrow> distinct (map it_id (l_items dt))"
  unfolding board_ok_def row_ids distinct_concat_iff by auto

lemma same_list: "board_ok B \<Longrightarrow> dt \<in> set B \<Longrightarrow> dt' \<in> set B \<Longrightarrow> l_id dt = l_id dt' \<Longrightarrow> dt = dt'"
  by (auto simp: board_ok_def distinct_map dest: inj_onD)

lemma unchanged_elsewhere:
  assumes "distinct (map l_id B)" "L \<notin> l_id ` set B"
  shows "map (add_item L item) B = B"
  using assms by (auto simp: add_item_def intro!: map_idI)

lemma server_lists_ok:
  assumes "lists_ok d B" "allowed d B m st"
  shows "lists_ok d (server_do m B)"
proof (cases m)
  case (AddItem L item)
  with assms obtain dt where dt: "dt \<in> set B" "l_id dt = L" by (auto simp: has_list_def)
  have dist: "distinct (map l_id B)" "distinct (map row_id (board_rows B))"
    using assms(1) by (simp_all add: lists_ok_def board_ok_def)
  have "mset (map row_id (board_rows (map (add_item L item) B))) = add_mset (it_id item) (mset (map row_id (board_rows B)))"
    by (simp add: add_item_rows [OF dist(1) dt] row_id_def)
  then have "mset (map row_id (board_rows (map (add_item L item) B))) = mset (it_id item # map row_id (board_rows B))"
    by simp
  from mset_eq_imp_distinct_iff [OF this] dist(2) assms(2) AddItem
  have "distinct (map row_id (board_rows (map (add_item L item) B)))" by simp
  then show ?thesis using assms(1) dist AddItem
    by (auto simp: lists_ok_def board_ok_def comp_def) (auto simp: add_item_def)
next
  case (UpdateItem L item)
  have "map row_id (board_rows (map (put_item L item) B)) = map row_id (board_rows B)"
    unfolding row_ids by (simp add: comp_def)
  with assms(1) UpdateItem show ?thesis
    by (auto simp: lists_ok_def board_ok_def comp_def) (auto simp: put_item_def)
next
  case (DeleteItem L i)
  have "distinct (map row_id (filter P (board_rows B)))" for P
    using assms(1) by (simp add: lists_ok_def board_ok_def distinct_map_filter)
  moreover have "l_item_count (delete_item L i dt) = int (length (l_items (delete_item L i dt)))"
    if "dt \<in> set B" for dt
  proof (cases "l_id dt = L")
    case True
    from assms(2) DeleteItem obtain dt' where "dt' \<in> set B" "l_id dt' = L" "i \<in> it_id ` set (l_items dt')"
      by (auto simp: has_item_def)
    with True that assms(1) same_list [of B dt dt'] have "i \<in> it_id ` set (l_items dt)" by (simp add: lists_ok_def)
    from filter_one_less [OF items_distinct [OF _ that] this] assms(1) that True show ?thesis
      by (simp add: lists_ok_def delete_item_def)
  qed (use assms(1) that in \<open>simp add: lists_ok_def delete_item_def\<close>)
  ultimately show ?thesis using assms(1) DeleteItem
    by (auto simp: lists_ok_def board_ok_def comp_def delete_item_rows drop_item_rows) (auto simp: delete_item_def)
next
  case (RenameList L name at)
  have "map row_id (board_rows (map (renamed L name at) B)) = map row_id (board_rows B)"
    unfolding row_ids by (simp add: comp_def)
  with assms(1) RenameList show ?thesis
    by (auto simp: lists_ok_def board_ok_def comp_def) (auto simp: renamed_def)
next
  case (DeleteList L)
  with assms(1) show ?thesis by (auto simp: lists_ok_def board_ok_def distinct_map_filter drop_list_rows)
next
  case (CreateList l)
  with assms show ?thesis
    by (auto simp: lists_ok_def board_ok_def has_list_def detail_of_def board_rows_def)
qed

text \<open>The agenda after each mutation.\<close>

lemma added_entry_is_refetch:
  assumes "it_id item \<notin> row_id ` set rows" "mset rows' = add_mset (L, n, item) (mset rows)"
    and "mset es = mset (List.map_filter (row_entry today) rows)"
  shows "mset (agenda_entry_update today item L n es) = mset (List.map_filter (row_entry today) rows')"
proof -
  have "filter (\<lambda>en. ai_id en \<noteq> reminder_id (it_id item)) (List.map_filter (row_entry today) rows) =
      List.map_filter (row_entry today) (filter (\<lambda>r. row_id r \<noteq> it_id item) rows)"
    by (rule filter_rows) (simp add: row_entry_facts)
  moreover have "\<forall>r \<in> set rows. row_id r \<noteq> it_id item" using assms(1) by (metis image_eqI)
  then have "filter (\<lambda>r. row_id r \<noteq> it_id item) rows = rows" by (simp add: filter_id_conv)
  ultimately have k: "mset (filter (\<lambda>en. ai_id en \<noteq> reminder_id (it_id item)) es) =
      mset (List.map_filter (row_entry today) rows)"
    by (simp only: mset_filter_cong [OF assms(3)])
  have "mset rows' = mset ((L, n, item) # rows)" using assms(2) by simp
  from mset_rows_cong [OF this] have "mset (List.map_filter (row_entry today) rows') =
      mset (List.map_filter (row_entry today) ((L, n, item) # rows))" .
  with k show ?thesis
    by (simp add: agenda_entry_update_def Let_def map_filter_simps' row_entry_def split: option.split)
qed

section \<open>A reply keeps the caches in step\<close>

lemma caches_patched [intro]:
  "caches_ok st \<Longrightarrow> caches_ok (patchListSummaryById L f st)"
  "caches_ok st \<Longrightarrow> caches_ok (patchListDetailById L g st)"
  "caches_ok st \<Longrightarrow> cache_inv id ca \<Longrightarrow> caches_ok (st\<lparr>ls_agenda := ca\<rparr>)"
  by (auto simp: caches_ok_def patchListSummaryById_def patchListDetailById_def intro: updateWhere_inv)

lemma agenda_ops_inv [intro]:
  "cache_inv id ca \<Longrightarrow> cache_inv id (applyAgendaItemUpdate today d item l n ca)"
  "cache_inv id ca \<Longrightarrow> cache_inv id (removeAgendaItems is ca)"
  "cache_inv id ca \<Longrightarrow> cache_inv id (removeAgendaItemsForList l ca)"
  "cache_inv id ca \<Longrightarrow> cache_inv id (renameAgendaListEntries l n ca)"
  by (auto simp: applyAgendaItemUpdate_def removeAgendaItems_def removeAgendaItemsForList_def
      renameAgendaListEntries_def intro: updateWhere_inv)

lemma summaries_data:
  "caches_ok st \<Longrightarrow> data_of (ls_summaries (patchListSummaryById L f st)) d = map_option (summary_rows L f) (data_of (ls_summaries st) d)"
  by (simp add: patchListSummaryById_def caches_ok_def data_of_update)

lemma details_data:
  "caches_ok st \<Longrightarrow> data_of (ls_details (patchListDetailById L (\<lambda>d. Some (g d)) st)) k =
     (if k = L then map_option g (data_of (ls_details st) k) else data_of (ls_details st) k)"
  by (simp add: patchListDetailById_def caches_ok_def data_of_detail)

lemma patch_frames [simp]:
  "ls_details (patchListSummaryById L f st) = ls_details st" "ls_agenda (patchListSummaryById L f st) = ls_agenda st"
  "ls_summaries (patchListDetailById L g st) = ls_summaries st" "ls_agenda (patchListDetailById L g st) = ls_agenda st"
  by (simp_all add: patchListSummaryById_def patchListDetailById_def)

lemma summary_rows_map:
  assumes "\<And>d. d \<in> set B \<Longrightarrow> l_id d = L \<Longrightarrow> f (summary_of d) = Some (summary_of (g d))"
    and "\<And>d. d \<in> set B \<Longrightarrow> l_id d \<noteq> L \<Longrightarrow> g d = d"
  shows "summary_rows L f (map summary_of B) = map summary_of (map g B)"
proof -
  have id: "l_id (summary_of d) = l_id d" for d by (simp add: list_summary.truncate_def)
  have "List.map_filter (\<lambda>l. if l_id l = L then f l else Some l) (map summary_of B) = map summary_of (map g B)"
    using assms by (induction B) (auto simp: map_filter_simps' id map_filter_def)
  moreover have "map g B = B" if "\<not> list_ex (\<lambda>l. l_id l = L) (map summary_of B)"
    using that assms(2) by (auto simp: list_ex_iff id intro: map_idI)
  ultimately show ?thesis
    by (cases "list_ex (\<lambda>l. l_id l = L) (map summary_of B)") (simp_all only: summary_rows_def simp_thms if_True if_False)
qed

lemma summary_rows_drop:
  "summary_rows L (\<lambda>_. None) (map summary_of B) = map summary_of (filter (\<lambda>d. l_id d \<noteq> L) B)"
proof -
  have id: "l_id (summary_of d) = l_id d" for d by (simp add: list_summary.truncate_def)
  have "List.map_filter (\<lambda>l. if l_id l = L then None else Some l) (map summary_of B) =
      map summary_of (filter (\<lambda>d. l_id d \<noteq> L) B)"
    by (induction B) (auto simp: map_filter_simps' id map_filter_def)
  moreover have "filter (\<lambda>d. l_id d \<noteq> L) B = B" if "\<not> list_ex (\<lambda>l. l_id l = L) (map summary_of B)"
    using that by (auto simp: list_ex_iff id filter_id_conv)
  ultimately show ?thesis by (auto simp: summary_rows_def)
qed

lemma patchAgenda_known:
  assumes "caches_ok st" "data_of (ls_details st) L = Some dt"
  shows "patchAgendaFromListDetail today L item st =
     st\<lparr>ls_agenda := applyAgendaItemUpdate today (l_dashboard_id dt) item (l_id dt) (l_name dt) (ls_agenda st)\<rparr>"
  using getState_known [of "ls_details st" L dt DEFAULT_MAX_CACHED_SCOPES] assms
  by (auto simp: patchAgendaFromListDetail_def caches_ok_def)

text \<open>Details: patching the list's own entry keeps every loaded detail the server's.\<close>

lemma details_mapped:
  assumes "caches_ok st" "\<forall>dt \<in> set B. data_of (ls_details st) (l_id dt) \<in> {None, Some dt}"
    and "\<And>d. l_id (g d) = l_id d" "\<And>d. l_id d \<noteq> L \<Longrightarrow> g d = d" "\<And>d. l_id d = L \<Longrightarrow> g d = h d"
  shows "\<forall>dt \<in> set (map g B). data_of (ls_details (patchListDetailById L (\<lambda>d. Some (h d)) st)) (l_id dt) \<in> {None, Some dt}"
proof
  fix dt' assume "dt' \<in> set (map g B)"
  then obtain dt where dt: "dt \<in> set B" "dt' = g dt" by auto
  with assms(2) have "data_of (ls_details st) (l_id dt) \<in> {None, Some dt}" by blast
  with assms(3-5) dt(2) show "data_of (ls_details (patchListDetailById L (\<lambda>d. Some (h d)) st)) (l_id dt') \<in> {None, Some dt'}"
    by (auto simp: details_data [OF assms(1)])
qed

lemma agenda_data:
  assumes "caches_ok st"
  shows "data_of (applyAgendaItemUpdate today d item l n (ls_agenda st)) d =
      map_option (agenda_entry_update today item l n) (data_of (ls_agenda st) d)"
    and "data_of (removeAgendaItems is (ls_agenda st)) d =
      map_option (filter (\<lambda>entry. ai_id entry \<notin> reminder_id ` set is)) (data_of (ls_agenda st) d)"
    and "data_of (removeAgendaItemsForList L (ls_agenda st)) d =
      map_option (filter (\<lambda>entry. \<not> of_list L entry)) (data_of (ls_agenda st) d)"
    and "data_of (renameAgendaListEntries L n (ls_agenda st)) d =
      map_option (map (rename_entry L n)) (data_of (ls_agenda st) d)"
  using assms
  by (simp_all add: caches_ok_def applyAgendaItemUpdate_def removeAgendaItems_def removeAgendaItemsForList_def
      renameAgendaListEntries_def data_of_update)

lemma agenda_map:
  assumes "agenda_in_step today B data"
    and "\<And>es. mset es = mset (List.map_filter (row_entry today) (board_rows B)) \<Longrightarrow>
      mset (f es) = mset (List.map_filter (row_entry today) (board_rows B'))"
  shows "agenda_in_step today B' (map_option f data)"
  using assms by (cases data) (simp_all add: agenda_in_step_def fetch_rows)

lemma truncate_simps [simp]:
  "l_id (summary_of d) = l_id d" "l_name (summary_of d) = l_name d" "l_updated_at (summary_of d) = l_updated_at d"
  "l_item_count (summary_of d) = l_item_count d"
  by (simp_all add: list_summary.truncate_def)

lemma item_row:
  assumes "has_item L i B"
  obtains n old where "(L, n, old) \<in> set (board_rows B)" "it_id old = i"
  using assms row_of unfolding has_item_def by (metis imageE)

lemma add_item_step:
  assumes "lists_ok d B" "in_step today d B st" "allowed d B (AddItem L item) st"
  shows "in_step today d (map (add_item L item) B) (addListItemReply today L (Inr item) st)"
proof -
  let ?g = "\<lambda>d. d\<lparr>l_items := l_items d @ [item], l_item_count := l_item_count d + 1\<rparr>"
  let ?st1 = "patchListDetailById L (\<lambda>d. Some (?g d)) st"
  let ?st2 = "patchListSummaryById L (\<lambda>l. Some (l\<lparr>l_item_count := l_item_count l + 1\<rparr>)) ?st1"
  from assms(2) have c: "caches_ok st" and s: "data_of (ls_summaries st) d = Some (map summary_of B)"
    and dd: "\<forall>dt \<in> set B. data_of (ls_details st) (l_id dt) \<in> {None, Some dt}"
    and a: "agenda_in_step today B (data_of (ls_agenda st) d)" by (simp_all add: in_step_def)
  have c1: "caches_ok ?st1" and c2: "caches_ok ?st2" using c by auto
  from assms(3) obtain dt where dt: "dt \<in> set B" "l_id dt = L" and op: "data_of (ls_details st) L \<noteq> None"
    and new: "it_id item \<notin> row_id ` set (board_rows B)" by (auto simp: has_list_def is_open_def)
  have loaded: "data_of (ls_details st) L = Some dt" using dd dt op by auto
  have own: "l_dashboard_id dt = d" and ids: "distinct (map l_id B)"
    using assms(1) dt by (auto simp: lists_ok_def board_ok_def)
  have d2: "data_of (ls_details ?st2) L = Some (?g dt)" using loaded by (simp add: details_data [OF c])
  have r: "addListItemReply today L (Inr item) st =
      ?st2\<lparr>ls_agenda := applyAgendaItemUpdate today d item L (l_name dt) (ls_agenda ?st2)\<rparr>"
    using patchAgenda_known [OF c2 d2, of today item] own dt(2) by (simp add: addListItemReply_def Let_def)
  have "data_of (ls_summaries ?st2) d = Some (map summary_of (map (add_item L item) B))"
    unfolding summaries_data [OF c1] using s
    by (simp add: summary_rows_map [where g = "add_item L item"] add_item_def list_summary.truncate_def)
  moreover have "\<forall>dt \<in> set (map (add_item L item) B). data_of (ls_details ?st1) (l_id dt) \<in> {None, Some dt}"
    by (rule details_mapped [OF c dd]) (simp_all add: add_item_def)
  moreover have "agenda_in_step today (map (add_item L item) B)
      (data_of (applyAgendaItemUpdate today d item L (l_name dt) (ls_agenda ?st2)) d)"
    unfolding agenda_data(1) [OF c2]
    using a added_entry_is_refetch [OF new add_item_rows [OF ids dt]] by (auto intro: agenda_map)
  ultimately show ?thesis using c2 unfolding r in_step_def by (auto simp: caches_ok_def intro: agenda_ops_inv)
qed

lemma in_stepD:
  assumes "in_step today d B st"
  shows "caches_ok st" "data_of (ls_summaries st) d = Some (map summary_of B)"
    "\<forall>dt \<in> set B. data_of (ls_details st) (l_id dt) \<in> {None, Some dt}"
    "agenda_in_step today B (data_of (ls_agenda st) d)"
  using assms by (simp_all add: in_step_def)

lemma update_item_step:
  assumes "lists_ok d B" "in_step today d B st" "allowed d B (UpdateItem L item) st"
  shows "in_step today d (map (put_item L item) B) (updateListItemReply today L (it_id item) True (Inr item) st)"
proof -
  let ?g = "\<lambda>d. d\<lparr>l_items := map (\<lambda>cur. if it_id cur = it_id item then item else cur) (l_items d)\<rparr>"
  let ?st1 = "patchListDetailById L (\<lambda>d. Some (?g d)) st"
  note st = in_stepD [OF assms(2)]
  have c1: "caches_ok ?st1" using st(1) by auto
  from assms(3) obtain dt old where dt: "dt \<in> set B" "l_id dt = L" "old \<in> set (l_items dt)" "it_id old = it_id item"
    and op: "data_of (ls_details st) L \<noteq> None" by (auto simp: has_item_def is_open_def)
  have loaded: "data_of (ls_details st) L = Some dt" using st(3) dt op by auto
  have own: "l_dashboard_id dt = d" and ids: "distinct (map row_id (board_rows B))"
    using assms(1) dt by (auto simp: lists_ok_def board_ok_def)
  have row: "(L, l_name dt, old) \<in> set (board_rows B)" using row_of [OF dt(1,3)] dt(2) by simp
  have d2: "data_of (ls_details ?st1) L = Some (?g dt)" using loaded by (simp add: details_data [OF st(1)])
  have r: "updateListItemReply today L (it_id item) True (Inr item) st =
      ?st1\<lparr>ls_agenda := applyAgendaItemUpdate today d item L (l_name dt) (ls_agenda ?st1)\<rparr>"
    using patchAgenda_known [OF c1 d2, of today item] own dt(2) by (simp add: updateListItemReply_def Let_def)
  have "map summary_of (map (put_item L item) B) = map summary_of B"
    by (simp add: put_item_def list_summary.truncate_def)
  moreover have "\<forall>dt \<in> set (map (put_item L item) B). data_of (ls_details ?st1) (l_id dt) \<in> {None, Some dt}"
    by (rule details_mapped [OF st(1,3)]) (simp_all add: put_item_def)
  moreover have "agenda_in_step today (map (put_item L item) B)
      (data_of (applyAgendaItemUpdate today d item L (l_name dt) (ls_agenda ?st1)) d)"
    unfolding agenda_data(1) [OF c1]
    using st(4) patched_entry_is_refetch [OF ids row dt(4)] by (auto intro!: agenda_map simp: put_item_rows)
  ultimately show ?thesis using c1 st(2) unfolding r in_step_def by (auto simp: caches_ok_def intro: agenda_ops_inv)
qed

lemma delete_item_step:
  assumes "lists_ok d B" "in_step today d B st" "allowed d B (DeleteItem L i) st"
  shows "in_step today d (map (delete_item L i) B) (deleteListItemReply L i (Inr ()) st)"
proof -
  let ?g = "\<lambda>d. d\<lparr>l_items := filter (\<lambda>it. it_id it \<noteq> i) (l_items d), l_item_count := max 0 (l_item_count d - 1)\<rparr>"
  let ?st1 = "patchListDetailById L (\<lambda>d. Some (?g d)) st"
  let ?st2 = "?st1\<lparr>ls_agenda := removeAgendaItems [i] (ls_agenda ?st1)\<rparr>"
  let ?st3 = "patchListSummaryById L (\<lambda>l. Some (l\<lparr>l_item_count := max 0 (l_item_count l - 1)\<rparr>)) ?st2"
  note st = in_stepD [OF assms(2)]
  have c1: "caches_ok ?st1" using st(1) by auto
  then have c2: "caches_ok ?st2" and c3: "caches_ok ?st3" by (auto simp: caches_ok_def patchListSummaryById_def intro: updateWhere_inv agenda_ops_inv)
  from assms(3) obtain dt old where dt: "dt \<in> set B" "l_id dt = L" "old \<in> set (l_items dt)" "it_id old = i"
    by (auto simp: has_item_def)
  have ids: "distinct (map row_id (board_rows B))" using assms(1) by (auto simp: lists_ok_def board_ok_def)
  have row: "(L, l_name dt, old) \<in> set (board_rows B)" using row_of [OF dt(1,3)] dt(2) by simp
  have count: "l_item_count x - 1 = max 0 (l_item_count x - 1)" if "x \<in> set B" "l_id x = L" for x
  proof -
    have "x = dt" using assms(1) that dt same_list [of B x dt] by (simp add: lists_ok_def)
    moreover have "l_items dt \<noteq> []" using dt(3) by auto
    ultimately show ?thesis using assms(1) dt(1) by (cases "l_items dt") (auto simp: lists_ok_def)
  qed
  have "data_of (ls_summaries ?st3) d = Some (map summary_of (map (delete_item L i) B))"
    unfolding summaries_data [OF c2] using st(2) count
    by (simp add: summary_rows_map [where g = "delete_item L i"] delete_item_def list_summary.truncate_def)
  moreover have "\<forall>x \<in> set (map (delete_item L i) B). data_of (ls_details ?st1) (l_id x) \<in> {None, Some x}"
  proof
    fix x' assume "x' \<in> set (map (delete_item L i) B)"
    then obtain x where x: "x \<in> set B" "x' = delete_item L i x" by auto
    with st(3) have "data_of (ls_details st) (l_id x) \<in> {None, Some x}" by blast
    with x count [OF x(1)] show "data_of (ls_details ?st1) (l_id x') \<in> {None, Some x'}"
      by (auto simp: details_data [OF st(1)] delete_item_def)
  qed
  moreover have "agenda_in_step today (map (delete_item L i) B) (data_of (removeAgendaItems [i] (ls_agenda ?st1)) d)"
    unfolding agenda_data(2) [OF c1]
    using st(4) dropped_entry_is_refetch [OF ids row] dt(4)
    by (auto intro!: agenda_map simp: delete_item_rows drop_item_rows)
  ultimately show ?thesis using c3 unfolding in_step_def by (simp add: deleteListItemReply_def Let_def)
qed

lemma rename_step:
  assumes "lists_ok d B" "in_step today d B st" "allowed d B (RenameList L name at) st"
  shows "in_step today d (map (renamed L name at) B) (client_do today B (RenameList L name at) st)"
proof -
  from assms(3) obtain dt where f: "find (\<lambda>d. l_id d = L) B = Some dt"
    by (cases "find (\<lambda>d. l_id d = L) B") (auto simp: has_list_def find_None_iff)
  then have dt: "dt \<in> set B" "l_id dt = L" by (auto simp: find_Some_iff)
  let ?up = "summary_of (renamed L name at dt)"
  let ?st1 = "patchListSummaryById L (\<lambda>_. Some ?up) st"
  let ?g = "\<lambda>d. d\<lparr>l_name := name, l_updated_at := at\<rparr>"
  let ?st2 = "patchListDetailById L (\<lambda>d. Some (?g d)) ?st1"
  note st = in_stepD [OF assms(2)]
  have c1: "caches_ok ?st1" and c2: "caches_ok ?st2" using st(1) by auto
  have up: "l_name ?up = name" "l_updated_at ?up = at" using dt(2) by (simp_all add: renamed_def)
  have r: "client_do today B (RenameList L name at) st =
      ?st2\<lparr>ls_agenda := renameAgendaListEntries L name (ls_agenda ?st2)\<rparr>"
    using f up by (simp add: updateListNameReply_def Let_def)
  have "summary_rows L (\<lambda>_. Some ?up) (map summary_of B) = map summary_of (map (renamed L name at) B)"
    using same_list [of B dt] dt assms(1) by (intro summary_rows_map) (auto simp: renamed_def lists_ok_def)
  then have "data_of (ls_summaries ?st2) d = Some (map summary_of (map (renamed L name at) B))"
    using st(2) by (simp add: summaries_data [OF st(1)])
  moreover have "\<forall>x \<in> set (map (renamed L name at) B). data_of (ls_details ?st2) (l_id x) \<in> {None, Some x}"
    by (rule details_mapped [OF c1]) (use st(3) in \<open>simp_all add: renamed_def\<close>)
  moreover have "agenda_in_step today (map (renamed L name at) B)
      (data_of (renameAgendaListEntries L name (ls_agenda ?st2)) d)"
    unfolding agenda_data(4) [OF c2]
    using st(4) renamed_list_is_refetch by (auto intro!: agenda_map simp: renamed_rows rename_list_rows)
  ultimately show ?thesis using c2 unfolding r in_step_def by (auto simp: caches_ok_def intro: agenda_ops_inv)
qed

lemma delete_list_step:
  assumes "in_step today d B st"
  shows "in_step today d (filter (\<lambda>d. l_id d \<noteq> L) B) (deleteListReply L (Inr ()) st)"
proof -
  let ?st1 = "removeListFromCaches L st"
  note st = in_stepD [OF assms]
  have c1: "caches_ok ?st1" using st(1)
    by (auto simp: caches_ok_def removeListFromCaches_def patchListSummaryById_def Let_def intro: updateWhere_inv)
  have "data_of (ls_summaries ?st1) d = Some (map summary_of (filter (\<lambda>d. l_id d \<noteq> L) B))"
    using summaries_data [OF st(1), of L "\<lambda>_. None" d] st(2)
    by (simp add: removeListFromCaches_def Let_def summary_rows_drop)
  moreover have "data_of (ls_details ?st1) k = data_of (ls_details st) k" if "k \<noteq> L" for k
    using that st(1) by (simp add: removeListFromCaches_def Let_def caches_ok_def data_of_patch)
  moreover have "ls_agenda ?st1 = ls_agenda st" by (simp add: removeListFromCaches_def Let_def)
  moreover have "agenda_in_step today (filter (\<lambda>d. l_id d \<noteq> L) B) (data_of (removeAgendaItemsForList L (ls_agenda st)) d)"
    unfolding agenda_data(3) [OF st(1)]
    using st(4) dropped_list_is_refetch by (auto intro!: agenda_map simp: drop_list_rows)
  ultimately show ?thesis using c1 st(3) unfolding in_step_def
    by (auto simp: deleteListReply_def Let_def caches_ok_def intro: agenda_ops_inv)
qed

lemma create_list_step:
  assumes "in_step today d B st" "allowed d B (CreateList l) st"
  shows "in_step today d (B @ [detail_of l []]) (createListReply (Inr l) st)"
proof -
  note st = in_stepD [OF assms(1)]
  let ?st1 = "applyCreatedList l st"
  have c1: "caches_ok ?st1" using st(1)
    unfolding caches_ok_def applyCreatedList_def seed_def by (auto intro: updateWhere_inv intro!: on_entry_inv)
  have "list_summary.truncate (detail_of l []) = l" by (simp add: detail_of_def list_summary.truncate_def)
  moreover obtain en where "shown_state (ls_summaries st) d = Some en" "en_data en = Some (map summary_of B)"
    using data_of_entry [OF st(2)] by blast
  ultimately have "data_of (ls_summaries ?st1) d = Some (map summary_of (B @ [detail_of l []]))"
    using st(1) assms(2) by (simp add: applyCreatedList_def caches_ok_def data_of_patch)
  moreover have "\<forall>x \<in> set (B @ [detail_of l []]). data_of (ls_details ?st1) (l_id x) \<in> {None, Some x}"
  proof
    fix x assume x: "x \<in> set (B @ [detail_of l []])"
    have s: "data_of (ls_details ?st1) (l_id x) \<in>
        {None, if l_id x = l_id l then Some (detail_of l []) else data_of (ls_details st) (l_id x)}"
      using seed_data [of "ls_details st" DEFAULT_MAX_CACHED_SCOPES "l_id l" "detail_of l []" "l_id x"] st(1)
      by (simp add: applyCreatedList_def caches_ok_def)
    show "data_of (ls_details ?st1) (l_id x) \<in> {None, Some x}"
    proof (cases "x \<in> set B")
      case True
      then have "l_id x \<noteq> l_id l" using assms(2) unfolding allowed.simps has_list_def by (metis image_eqI)
      moreover have "data_of (ls_details st) (l_id x) \<in> {None, Some x}" using st(3) True by blast
      ultimately show ?thesis using s by auto
    next
      case False
      then have "x = detail_of l []" "l_id (detail_of l []) = l_id l" using x by (simp_all add: detail_of_def)
      with s show ?thesis by simp
    qed
  qed
  moreover have "fetchAgendaReminders today (B @ [detail_of l []]) = fetchAgendaReminders today B"
    by (simp add: fetchAgendaReminders_def detail_of_def map_filter_def)
  then have "agenda_in_step today (B @ [detail_of l []]) (data_of (ls_agenda st) d)"
    using st(4) by (simp only: agenda_in_step_def)
  moreover have "ls_agenda ?st1 = ls_agenda st" by (simp add: applyCreatedList_def)
  ultimately show ?thesis using c1 unfolding in_step_def createListReply_def by simp
qed

text \<open>C6. After six of a client's own mutations there is nothing to refetch: adding or changing an item of a
  list whose detail is loaded, deleting an item, renaming, deleting or creating a list. When the caches are in step with
  the server's lists (the summaries are theirs, every loaded detail is the list's, the agenda holds the reminders a
  fetch would return), then after the server carries the mutation out and the client applies the reply they are in
  step with the new lists. This is what lets the frame that echoes it be ignored. Restoring a list and reordering are
  not covered.\<close>

theorem own_mutations_keep_step:
  assumes "lists_ok d B" and "in_step today d B st" and "allowed d B m st"
  shows "in_step today d (server_do m B) (client_do today B m st) \<and> lists_ok d (server_do m B)"
proof -
  have "in_step today d (server_do m B) (client_do today B m st)"
  proof (cases m)
    case (AddItem L item)
    with assms add_item_step show ?thesis by simp
  next
    case (UpdateItem L item)
    with assms update_item_step show ?thesis by simp
  next
    case (DeleteItem L i)
    with assms delete_item_step show ?thesis by simp
  next
    case (RenameList L name at)
    with assms rename_step [of d B today st L name at] show ?thesis by (simp del: client_do.simps)
  next
    case (DeleteList L)
    with assms delete_list_step show ?thesis by simp
  next
    case (CreateList l)
    with assms create_list_step [of today d B st l] show ?thesis by simp
  qed
  with server_lists_ok [OF assms(1,3)] show ?thesis by simp
qed

definition sample_store :: "list_detail list \<Rightarrow> list_store" where
  "sample_store B =
     empty_list_store\<lparr>ls_summaries := seed id 32 ''d1'' (map summary_of B) empty_cache,
       ls_details := seed id 32 ''l1'' (hd B) empty_cache,
       ls_agenda := seed id 32 ''d1'' (fetchAgendaReminders ''2026-01-02'' B) empty_cache\<rparr>"

lemma seeded_inv: "cache_inv id (seed id 32 k d empty_cache)"
  unfolding seed_def by (rule on_entry_inv) (simp_all add: empty_inv)

lemma own_mutations_keep_step_witness:
  "let B = [sample_list ''l1'' [sample_item ''i1'' (Some ''2026-01-01'') False]];
       st = client_do ''2026-01-02'' B (DeleteItem ''l1'' ''i1'') (sample_store B)
   in data_of (ls_summaries st) ''d1'' = Some [summary_of (sample_list ''l1'' [])] \<and>
      data_of (ls_agenda st) ''d1'' = Some []"
proof -
  let ?B = "[sample_list ''l1'' [sample_item ''i1'' (Some ''2026-01-01'') False]]"
  let ?m = "DeleteItem ''l1'' ''i1''"
  have ok: "lists_ok ''d1'' ?B"
    by (simp add: lists_ok_def board_ok_def sample_list_def sample_item_def)
  have s: "data_of (ls_summaries (sample_store ?B)) ''d1'' = Some (map summary_of ?B)"
    "data_of (ls_details (sample_store ?B)) ''l1'' = Some (hd ?B)"
    "data_of (ls_agenda (sample_store ?B)) ''d1'' = Some (fetchAgendaReminders ''2026-01-02'' ?B)"
    by code_simp+
  have l1: "l_id (sample_list ''l1'' items) = ''l1''" for items by (simp add: sample_list_def)
  have step: "in_step ''2026-01-02'' ''d1'' ?B (sample_store ?B)"
    unfolding in_step_def using s l1
    by (simp add: caches_ok_def agenda_in_step_def) (simp add: sample_store_def empty_list_store_def seeded_inv)
  have al: "allowed ''d1'' ?B ?m (sample_store ?B)" by (simp add: has_item_def l1) (simp add: sample_list_def sample_item_def)
  have "server_do ?m ?B = [sample_list ''l1'' []]" by code_simp
  moreover have "fetchAgendaReminders ''2026-01-02'' [sample_list ''l1'' []] = []" by code_simp
  moreover have "data_of (ls_agenda (client_do ''2026-01-02'' ?B ?m (sample_store ?B))) ''d1'' = Some []" by code_simp
  ultimately show ?thesis using own_mutations_keep_step [OF ok step al] unfolding Let_def in_step_def by simp
qed

section \<open>Where a reply breaks step\<close>

text \<open>An item can be shown twice: when a reload brings the item the client is adding before the answer
  to its own request does, the answer appends it again and counts it again.\<close>

theorem late_create_answer_doubles_item:
  "let item = sample_item ''i1'' None False;
       st = empty_list_store\<lparr>ls_details := seed id 32 ''l1'' (sample_list ''l1'' [item]) empty_cache\<rparr>
   in map_option (\<lambda>d. (map it_id (l_items d), l_item_count d))
        (data_of (ls_details (addListItemReply ''2026-01-02'' ''l1'' (Inr item) st)) ''l1'') =
      Some ([''i1'', ''i1''], 2)"
  by code_simp

text \<open>A reorder that fails takes back more than itself: the rows it remembered replace the current
  ones, so an item added while it was out disappears, and nothing is reloaded.\<close>

theorem failed_reorder_drops_new_item:
  "let a = sample_item ''a'' None False; b = sample_item ''b'' None False;
       st = empty_list_store\<lparr>ls_details := seed id 32 ''l1'' (sample_list ''l1'' [a, b]) empty_cache\<rparr>;
       (previous, st) = reorderListItems ''l1'' [''b'', ''a''] st;
       st = addListItemReply ''2026-01-02'' ''l1'' (Inr (sample_item ''c'' None False)) st;
       st = reorderListItemsReply ''l1'' previous (Inl (ApiErr 500 ''error'')) st
   in map_option (\<lambda>d. (map it_id (l_items d), l_item_count d)) (data_of (ls_details st) ''l1'') =
        Some ([''a'', ''b''], 3) \<and> ca_requests (ls_details st) = []"
  by code_simp

text \<open>A list created while the listing had failed to load is shown as the only one: the answer makes a
  listing of it alone, which then counts as loaded, so no later reader fetches the others.\<close>

theorem created_list_hides_the_others:
  "let ca = fold (cache_step id 32 ''Failed'') [Subscribe ''d1'' 0, MountEffect ''d1'', Answer 1 (Inl NotAnError)] empty_cache;
       st = createListReply (Inr (summary_of (sample_list ''l2'' []))) (empty_list_store\<lparr>ls_summaries := ca\<rparr>);
       later = mount_effect id 32 ''d1'' (ls_summaries st)
   in map_option (map l_id) (data_of later ''d1'') = Some [''l2''] \<and> ca_requests later = []"
  by code_simp

end
