(* ===== verification/Intervals.thy ===== *)
theory Intervals
  imports Prelude
begin

text \<open>
  The interval arithmetic of \<open>frontend/src/resources/occurrenceStore.ts\<close>: the coverage of a
  dashboard's occurrence cache is a list of half-open intervals of milliseconds, sorted and apart from
  one another. \<open>addInterval\<close> grows it, \<open>gapsIn\<close> says what a window still misses, and \<open>trim\<close> keeps it
  within a year by dropping what is furthest from the interval just loaded.

  The specification is the set of instants a list covers (\<open>instants\<close>): the lemmas show that the list
  operations are union and difference on it, and keep the list in shape (\<open>apart\<close>).
\<close>

record interval =
  iv_start :: int
  iv_end :: int

abbreviation iv :: "int \<Rightarrow> int \<Rightarrow> interval" where
  "iv s e \<equiv> \<lparr>iv_start = s, iv_end = e\<rparr>"

definition MAX_COVERED_MS :: int where
  "MAX_COVERED_MS = 366 * 24 * 60 * 60 * 1000"

definition overlaps :: "interval \<Rightarrow> interval \<Rightarrow> bool" where
  "overlaps a b \<longleftrightarrow> iv_start a < iv_end b \<and> iv_start b < iv_end a"

text \<open>The loop of \<open>addInterval\<close>: \<open>merged\<close> and \<open>current\<close> are its two variables.\<close>

fun merge_scan :: "interval list \<Rightarrow> interval \<Rightarrow> interval list \<Rightarrow> interval list \<times> interval" where
  "merge_scan [] current merged = (merged, current)"
| "merge_scan (i # rest) current merged =
     (if iv_end i < iv_start current \<or> iv_start i > iv_end current
      then merge_scan rest current (merged @ [i])
      else merge_scan rest
             (iv (min (iv_start current) (iv_start i)) (max (iv_end current) (iv_end i))) merged)"

definition start_cmp :: "interval \<Rightarrow> interval \<Rightarrow> int" where
  "start_cmp a b = iv_start a - iv_start b"

definition addInterval :: "interval list \<Rightarrow> interval \<Rightarrow> interval list" where
  "addInterval covered nxt =
     (let (merged, current) = merge_scan covered nxt [] in js_sort start_cmp (merged @ [current]))"

definition last_gap :: "int \<Rightarrow> int \<Rightarrow> interval list" where
  "last_gap cursor to = (if cursor < to then [iv cursor to] else [])"

fun gap_scan :: "interval list \<Rightarrow> int \<Rightarrow> int \<Rightarrow> interval list" where
  "gap_scan [] cursor to = last_gap cursor to"
| "gap_scan (i # rest) cursor to =
     (if iv_end i \<le> cursor then gap_scan rest cursor to
      else if iv_start i \<ge> to then last_gap cursor to
      else let gap = (if iv_start i > cursor then [iv cursor (min (iv_start i) to)] else []);
               cursor = max cursor (iv_end i)
           in gap @ (if cursor \<ge> to then last_gap cursor to else gap_scan rest cursor to))"

definition gapsIn :: "interval list \<Rightarrow> interval \<Rightarrow> interval list" where
  "gapsIn covered wanted = gap_scan covered (iv_start wanted) (iv_end wanted)"

definition coveredSpan :: "interval list \<Rightarrow> int" where
  "coveredSpan covered = foldl (\<lambda>total i. total + (iv_end i - iv_start i)) 0 covered"

definition distance :: "interval \<Rightarrow> interval \<Rightarrow> int" where
  "distance keep i = max 0 (max (iv_start keep - iv_end i) (iv_start i - iv_end keep))"

fun retain :: "interval list \<Rightarrow> int \<Rightarrow> interval list \<Rightarrow> interval list" where
  "retain [] span retained = retained"
| "retain (i # rest) span retained =
     (let width = iv_end i - iv_start i in
      if span + width > MAX_COVERED_MS \<and> retained \<noteq> [] then retain rest span retained
      else retain rest (span + width) (retained @ [i]))"

text \<open>What \<open>trim\<close> leaves of the coverage when it is over the cap.\<close>

definition retained_cover :: "interval list \<Rightarrow> interval \<Rightarrow> interval list" where
  "retained_cover covered keep =
     js_sort start_cmp (retain (js_sort (\<lambda>a b. distance keep a - distance keep b) covered) 0 [])"

definition trim_cover :: "interval list \<Rightarrow> interval \<Rightarrow> interval list" where
  "trim_cover covered keep =
     (if coveredSpan covered \<le> MAX_COVERED_MS then covered else retained_cover covered keep)"

section \<open>Coverage as a set of instants\<close>

definition instants :: "interval list \<Rightarrow> int set" where
  "instants xs = (\<Union>i \<in> set xs. {iv_start i..<iv_end i})"

definition apart :: "interval list \<Rightarrow> bool" where
  "apart xs \<longleftrightarrow> sorted_wrt (\<lambda>a b. iv_end a < iv_start b) xs \<and> (\<forall>i \<in> set xs. iv_start i < iv_end i)"

lemma instants_simps [simp]:
  "instants [] = {}" "instants (i # xs) = {iv_start i..<iv_end i} \<union> instants xs"
  "instants (xs @ ys) = instants xs \<union> instants ys"
  by (auto simp: instants_def)

lemma instants_cong: "set xs = set ys \<Longrightarrow> instants xs = instants ys"
  by (simp add: instants_def)

lemma apart_simps [simp]:
  "apart []"
  "apart (i # xs) \<longleftrightarrow> iv_start i < iv_end i \<and> (\<forall>j \<in> set xs. iv_end i < iv_start j) \<and> apart xs"
  by (auto simp: apart_def)

text \<open>Intervals that lie apart in whatever order are apart once sorted by their start.\<close>

definition scattered :: "interval list \<Rightarrow> bool" where
  "scattered xs \<longleftrightarrow> distinct xs \<and> (\<forall>i \<in> set xs. iv_start i < iv_end i) \<and>
     (\<forall>a \<in> set xs. \<forall>b \<in> set xs. a = b \<or> iv_end a < iv_start b \<or> iv_end b < iv_start a)"

lemma scattered_apart_iff: "apart xs \<longleftrightarrow> scattered xs \<and> sorted_wrt (\<lambda>a b. start_cmp a b \<le> 0) xs"
proof (induction xs)
  case (Cons i xs)
  show ?case
  proof
    assume "apart (i # xs)"
    with Cons.IH show "scattered (i # xs) \<and> sorted_wrt (\<lambda>a b. start_cmp a b \<le> 0) (i # xs)"
      by (fastforce simp: scattered_def start_cmp_def)
  next
    assume r: "scattered (i # xs) \<and> sorted_wrt (\<lambda>a b. start_cmp a b \<le> 0) (i # xs)"
    then have "apart xs" using Cons.IH by (auto simp: scattered_def)
    moreover have "iv_end i < iv_start j" if "j \<in> set xs" for j
    proof -
      have "i = j \<or> iv_end i < iv_start j \<or> iv_end j < iv_start i"
        and "i \<noteq> j" "iv_start j < iv_end j" "iv_start i \<le> iv_start j"
        using r that by (auto simp: scattered_def start_cmp_def)
      then show ?thesis by linarith
    qed
    ultimately show "apart (i # xs)" using r by (simp add: scattered_def)
  qed
qed (simp add: scattered_def)

interpretation by_start: js_comparator start_cmp
  by unfold_locales (auto simp: start_cmp_def)

lemma distinct_js_sort: "distinct (js_sort c xs) = distinct xs"
  using distinct_map_js_sort [of id c xs] by simp

lemma sorted_scattered_apart: "scattered xs \<Longrightarrow> apart (js_sort start_cmp xs)"
  by (simp add: scattered_apart_iff by_start.js_sort_sorted) (simp add: scattered_def distinct_js_sort)

text \<open>One pass over the list finds everything the new interval touches.\<close>

lemma merge_scan_spec:
  assumes "merge_scan xs current merged = (merged', current')" "apart xs" "iv_start current < iv_end current"
    and "scattered merged" "\<forall>m \<in> set merged. iv_end m < iv_start current \<or> iv_end current < iv_start m"
    and "\<forall>m \<in> set merged. \<forall>i \<in> set xs. iv_end m < iv_start i"
  shows "scattered (merged' @ [current']) \<and> iv_start current' \<le> iv_start current \<and> iv_end current \<le> iv_end current' \<and>
     instants merged' \<union> {iv_start current'..<iv_end current'} =
       instants merged \<union> instants xs \<union> {iv_start current..<iv_end current}"
  using assms
proof (induction xs arbitrary: current merged)
  case Nil
  then show ?case by (fastforce simp: scattered_def)
next
  case (Cons i xs)
  show ?case
  proof (cases "iv_end i < iv_start current \<or> iv_start i > iv_end current")
    case True
    with Cons.prems have r: "merge_scan xs current (merged @ [i]) = (merged', current')" by auto
    have "scattered (merged @ [i])" using Cons.prems by (fastforce simp: scattered_def)
    from Cons.IH [OF r _ _ this] Cons.prems True show ?thesis by auto
  next
    case False
    let ?c = "iv (min (iv_start current) (iv_start i)) (max (iv_end current) (iv_end i))"
    from False Cons.prems have r: "merge_scan xs ?c merged = (merged', current')" by auto
    have m: "\<forall>m \<in> set merged. iv_end m < iv_start ?c \<or> iv_end ?c < iv_start m"
    proof
      fix m assume m: "m \<in> set merged"
      with Cons.prems(4) have "iv_start m < iv_end m" by (simp add: scattered_def)
      moreover from m Cons.prems(5,6) have "iv_end m < iv_start current \<or> iv_end current < iv_start m" "iv_end m < iv_start i"
        by auto
      ultimately show "iv_end m < iv_start ?c \<or> iv_end ?c < iv_start m" using Cons.prems(2) False by auto
    qed
    have "{iv_start ?c..<iv_end ?c} = {iv_start current..<iv_end current} \<union> {iv_start i..<iv_end i}"
      using False Cons.prems by auto
    with Cons.IH [OF r _ _ _ m] Cons.prems show ?thesis by auto
  qed
qed

lemma addInterval_union':
  assumes "apart covered" and "iv_start nxt < iv_end nxt"
  shows "apart (addInterval covered nxt) \<and>
     instants (addInterval covered nxt) = instants covered \<union> {iv_start nxt..<iv_end nxt} \<and>
     (\<exists>i \<in> set (addInterval covered nxt). iv_start i \<le> iv_start nxt \<and> iv_end nxt \<le> iv_end i)"
proof -
  obtain merged current where r: "merge_scan covered nxt [] = (merged, current)" by force
  have a: "addInterval covered nxt = js_sort start_cmp (merged @ [current])"
    by (simp add: addInterval_def r)
  from merge_scan_spec [OF r assms] have
    s: "scattered (merged @ [current])" "iv_start current \<le> iv_start nxt" "iv_end nxt \<le> iv_end current"
    and i: "instants (merged @ [current]) = instants covered \<union> {iv_start nxt..<iv_end nxt}"
    by (simp_all add: scattered_def)
  have "instants (addInterval covered nxt) = instants (merged @ [current])"
    unfolding a by (rule instants_cong) simp
  moreover have "current \<in> set (addInterval covered nxt)" by (simp add: a)
  ultimately show ?thesis using s i sorted_scattered_apart [OF s(1)] a by auto
qed

text \<open>Recording a loaded interval is exactly set union: the coverage stays sorted, non-empty and with a
  gap between neighbours, it covers what it covered before and the new interval and nothing else, and
  the new interval lies within a single one of its parts.\<close>

theorem addInterval_union:
  assumes "apart covered" and "iv_start nxt < iv_end nxt"
  shows "apart (addInterval covered nxt) \<and>
     instants (addInterval covered nxt) = instants covered \<union> {iv_start nxt..<iv_end nxt} \<and>
     (\<exists>i \<in> set (addInterval covered nxt). iv_start i \<le> iv_start nxt \<and> iv_end nxt \<le> iv_end i)"
  using assms by (rule addInterval_union')

lemma gap_scan_spec:
  assumes "apart xs"
  shows "instants (gap_scan xs cursor to) = {cursor..<to} - instants xs \<and> apart (gap_scan xs cursor to) \<and>
     (\<forall>g \<in> set (gap_scan xs cursor to). cursor \<le> iv_start g \<and> iv_end g \<le> to)"
  using assms
proof (induction xs arbitrary: cursor)
  case (Cons i xs)
  let ?c = "max cursor (iv_end i)"
  have below: "\<forall>t \<in> instants xs. iv_end i < t" using Cons.prems by (force simp: instants_def)
  from Cons have IH: "instants (gap_scan xs c to) = {c..<to} - instants xs" "apart (gap_scan xs c to)"
    "\<forall>g \<in> set (gap_scan xs c to). c \<le> iv_start g \<and> iv_end g \<le> to" for c by simp_all
  consider "iv_end i \<le> cursor" | "cursor < iv_end i" "to \<le> iv_start i"
    | "cursor < iv_end i" "iv_start i < to" "to \<le> iv_end i"
    | "cursor < iv_end i" "iv_start i < to" "iv_end i < to" by linarith
  then show ?case
  proof cases
    case 1
    with IH [of cursor] show ?thesis by auto
  next
    case 2
    with below Cons.prems show ?thesis by (auto simp: last_gap_def)
  next
    case 3
    with below Cons.prems show ?thesis by (auto simp: last_gap_def)
  next
    case 4
    have "instants (gap_scan (i # xs) cursor to) =
        (if iv_start i > cursor then {cursor..<iv_start i} else {}) \<union> ({iv_end i..<to} - instants xs)"
      using 4 IH(1) [of "iv_end i"] by (simp add: Let_def max_def)
    moreover have "instants (i # xs) \<inter> {cursor..<to} =
        {max cursor (iv_start i)..<iv_end i} \<union> (instants xs \<inter> {cursor..<to})" using 4 by auto
    moreover have "instants xs \<inter> {cursor..<iv_end i} = {}" using below by auto
    ultimately have "instants (gap_scan (i # xs) cursor to) = {cursor..<to} - instants (i # xs)"
      using 4 Cons.prems below by (auto split: if_splits)
    moreover have "apart (gap_scan (i # xs) cursor to)"
      using 4 IH(2,3) [of "iv_end i"] Cons.prems by (auto simp: Let_def max_def)
    moreover have "\<forall>g \<in> set (gap_scan (i # xs) cursor to). cursor \<le> iv_start g \<and> iv_end g \<le> to"
      using 4 IH(3) [of "iv_end i"] Cons.prems by (auto simp: Let_def max_def)
    ultimately show ?thesis by blast
  qed
qed (auto simp: last_gap_def)

lemma gapsIn_facts:
  assumes "apart covered"
  shows "instants (gapsIn covered wanted) = {iv_start wanted..<iv_end wanted} - instants covered \<and>
     apart (gapsIn covered wanted) \<and>
     (gapsIn covered wanted = [] \<longleftrightarrow> {iv_start wanted..<iv_end wanted} \<subseteq> instants covered)"
proof -
  note s = gap_scan_spec [OF assms, of "iv_start wanted" "iv_end wanted", folded gapsIn_def]
  have "gapsIn covered wanted = [] \<longleftrightarrow> instants (gapsIn covered wanted) = {}"
    using s by (cases "gapsIn covered wanted") auto
  with s show ?thesis by blast
qed

text \<open>The gaps of a window are exactly what the coverage misses of it: together they hold the instants
  of the window no covered interval holds, each is non-empty, and no two overlap or touch, so a window
  within the coverage asks for nothing and no instant is requested twice.\<close>

theorem gapsIn_exact:
  assumes "apart covered"
  shows "instants (gapsIn covered wanted) = {iv_start wanted..<iv_end wanted} - instants covered \<and>
     apart (gapsIn covered wanted) \<and>
     (gapsIn covered wanted = [] \<longleftrightarrow> {iv_start wanted..<iv_end wanted} \<subseteq> instants covered)"
  using assms by (rule gapsIn_facts)

text \<open>What trimming keeps.\<close>

lemma coveredSpan_append: "coveredSpan (xs @ [i]) = coveredSpan xs + (iv_end i - iv_start i)"
  by (simp add: coveredSpan_def)

lemma coveredSpan_sum: "coveredSpan xs = (\<Sum>i\<leftarrow>xs. iv_end i - iv_start i)"
  by (induction xs rule: rev_induct) (simp_all add: coveredSpan_append, simp add: coveredSpan_def)

lemma coveredSpan_js_sort: "coveredSpan (js_sort c xs) = coveredSpan xs"
proof -
  have "mset (map (\<lambda>i. iv_end i - iv_start i) (js_sort c xs)) = mset (map (\<lambda>i. iv_end i - iv_start i) xs)" by simp
  then show ?thesis unfolding coveredSpan_sum sum_mset_sum_list [symmetric] by (rule arg_cong)
qed

lemma retain_spec:
  assumes "span = coveredSpan retained" "retained \<noteq> []" "distinct (retained @ xs)"
  shows "distinct (retain xs span retained) \<and> set retained \<subseteq> set (retain xs span retained) \<and>
     set (retain xs span retained) \<subseteq> set retained \<union> set xs \<and>
     (coveredSpan (retain xs span retained) \<le> MAX_COVERED_MS \<or> retain xs span retained = retained)"
  using assms
proof (induction xs arbitrary: span retained)
  case (Cons i xs)
  show ?case
  proof (cases "span + (iv_end i - iv_start i) > MAX_COVERED_MS")
    case True
    with Cons.IH [of span retained] Cons.prems show ?thesis by auto
  next
    case False
    have sp: "span + (iv_end i - iv_start i) = coveredSpan (retained @ [i])"
      by (simp add: coveredSpan_append Cons.prems(1))
    from Cons.IH [OF sp] Cons.prems(3)
    have "distinct (retain xs (coveredSpan (retained @ [i])) (retained @ [i])) \<and>
        set (retained @ [i]) \<subseteq> set (retain xs (coveredSpan (retained @ [i])) (retained @ [i])) \<and>
        set (retain xs (coveredSpan (retained @ [i])) (retained @ [i])) \<subseteq> set (retained @ [i]) \<union> set xs \<and>
        (coveredSpan (retain xs (coveredSpan (retained @ [i])) (retained @ [i])) \<le> MAX_COVERED_MS \<or>
         retain xs (coveredSpan (retained @ [i])) (retained @ [i]) = retained @ [i])"
      by (simp flip: sp)
    moreover have "coveredSpan (retained @ [i]) \<le> MAX_COVERED_MS" using False sp by simp
    moreover have "retain (i # xs) span retained = retain xs (coveredSpan (retained @ [i])) (retained @ [i])"
      using False by (simp flip: sp)
    ultimately show ?thesis by auto
  qed
qed simp

lemma scattered_subset: "scattered xs \<Longrightarrow> set ys \<subseteq> set xs \<Longrightarrow> distinct ys \<Longrightarrow> scattered ys"
  unfolding scattered_def by blast

interpretation by_distance: js_comparator "\<lambda>a b. distance keep a - distance keep b"
  by unfold_locales auto

text \<open>The part that holds \<open>keep\<close> is the nearest to it.\<close>

lemma nearest_first:
  assumes "scattered covered" "c \<in> set covered" "iv_start keep < iv_end keep"
    and "iv_start c \<le> iv_start keep" "iv_end keep \<le> iv_end c"
  shows "\<exists>rest. js_sort (\<lambda>a b. distance keep a - distance keep b) covered = c # rest"
proof -
  let ?s = "js_sort (\<lambda>a b. distance keep a - distance keep b) covered"
  have set: "set ?s = set covered" by simp
  with assms(2) obtain h rest where s: "?s = h # rest" by (cases ?s) auto
  have "distance keep h \<le> distance keep c"
    using by_distance.js_sort_sorted [of keep covered] set assms(2) unfolding s by auto
  moreover have "distance keep c = 0" using assms(3-5) by (simp add: distance_def)
  moreover have "h = c \<or> iv_end h < iv_start c \<or> iv_end c < iv_start h"
    using assms(1,2) set unfolding s scattered_def by (metis list.set_intros(1))
  ultimately have "h = c" using assms(3-5) by (auto simp: distance_def)
  with s show ?thesis by simp
qed

text \<open>Trimming keeps a cache within a year without giving up what was just loaded: what is left is part
  of the old coverage and in the same shape, the part that holds the interval just loaded is among it,
  and its total length is within the cap unless that part alone exceeds it.\<close>

theorem trim_keeps_the_new_part:
  assumes "apart covered" and "c \<in> set covered" and "iv_start keep < iv_end keep"
    and "iv_start c \<le> iv_start keep" and "iv_end keep \<le> iv_end c"
  shows "let kept = trim_cover covered keep in
     apart kept \<and> set kept \<subseteq> set covered \<and> c \<in> set kept \<and>
     (coveredSpan kept \<le> MAX_COVERED_MS \<or> kept = [c])"
proof (cases "coveredSpan covered \<le> MAX_COVERED_MS")
  case False
  from assms(1) have sc: "scattered covered" by (simp add: scattered_apart_iff)
  obtain rest where r: "js_sort (\<lambda>a b. distance keep a - distance keep b) covered = c # rest"
    using nearest_first [OF sc assms(2-5)] by blast
  have d: "distinct (c # rest)" and st: "set (c # rest) = set covered"
    using sc r distinct_js_sort [of "\<lambda>a b. distance keep a - distance keep b" covered]
      set_js_sort [of "\<lambda>a b. distance keep a - distance keep b" covered]
    by (simp_all add: scattered_def)
  let ?R = "retain rest (coveredSpan [c]) [c]"
  have k: "trim_cover covered keep = js_sort start_cmp ?R"
    using False r by (simp add: trim_cover_def retained_cover_def coveredSpan_def Let_def)
  from retain_spec [of "coveredSpan [c]" "[c]" rest] d
  have R: "distinct ?R" "c \<in> set ?R" "set ?R \<subseteq> set covered"
    "coveredSpan ?R \<le> MAX_COVERED_MS \<or> ?R = [c]" using st by auto
  from R(1,3) sc have "apart (js_sort start_cmp ?R)"
    by (intro sorted_scattered_apart) (rule scattered_subset)
  with R show ?thesis by (auto simp: k coveredSpan_js_sort)
qed (use assms in \<open>simp add: trim_cover_def\<close>)

lemma trim_keeps_the_new_part_witness:
  "let day = 86400000;
       covered = [iv 0 (8 * day), iv (20 * day) (42 * day), iv (43 * day) (380 * day)]
   in trim_cover covered (iv (21 * day) (42 * day)) = [iv (20 * day) (42 * day), iv (43 * day) (380 * day)] \<and>
      iv (20 * day) (42 * day) \<in> set (trim_cover covered (iv (21 * day) (42 * day)))"
  using trim_keeps_the_new_part [of "[iv 0 (8 * 86400000), iv (20 * 86400000) (42 * 86400000),
      iv (43 * 86400000) (380 * 86400000)]" "iv (20 * 86400000) (42 * 86400000)"
      "iv (21 * 86400000) (42 * 86400000)"]
  unfolding Let_def by (simp add: trim_cover_def retained_cover_def coveredSpan_def MAX_COVERED_MS_def
      distance_def start_cmp_def)

lemma addInterval_union_witness:
  "addInterval [iv 0 10, iv 20 30, iv 50 60] (iv 10 25) = [iv 0 30, iv 50 60] \<and>
     instants (addInterval [iv 0 10, iv 20 30, iv 50 60] (iv 10 25)) = {0..<30} \<union> {50..<60}"
  using addInterval_union [of "[iv 0 10, iv 20 30, iv 50 60]" "iv 10 25"]
  by (auto simp: addInterval_def start_cmp_def)

lemma gapsIn_exact_witness:
  "gapsIn [iv 0 10, iv 20 30] (iv 5 40) = [iv 10 20, iv 30 40] \<and>
     instants (gapsIn [iv 0 10, iv 20 30] (iv 5 40)) = {5..<40} - ({0..<10} \<union> {20..<30})"
  using gapsIn_exact [of "[iv 0 10, iv 20 30]" "iv 5 40"]
  by (auto simp: gapsIn_def last_gap_def Let_def)

end
