(* ===== verification/OccurrenceStore.thy ===== *)
theory OccurrenceStore
  imports Contract Intervals
begin

text \<open>
  The occurrence cache (\<open>frontend/src/resources/occurrenceStore.ts\<close>) and the request sharing below it
  (\<open>apiListOccurrences\<close> in \<open>frontend/src/api/calendar.ts\<close>). A dashboard's entry holds the occurrences it
  knows, the intervals they are complete for, the windows on screen and what is in flight.

  Continuations write to the entry object they captured, which a reset may have dropped from the map,
  so entries live on a heap. Parked work: the windows' flush (\<open>oc_flushes\<close>), one fetch per gap
  (\<open>oc_fetches\<close>), the loads that await several of them (\<open>oc_loads\<close>), and the network requests of the
  API layer (\<open>oc_api\<close>, its map \<open>occurrenceRequests\<close>). \<open>Date.parse\<close> and \<open>localeCompare\<close> are arguments;
  listeners only re-render and are left out, as is \<open>publish\<close> with nothing to change.

  The lemmas show that what an entry holds within its coverage is what the server has, and that a
  store at rest shows every mounted window exactly.
\<close>

record occurrence_state =
  os_occurrences :: "occurrence list"
  os_loaded :: bool
  os_loading :: bool
  os_error :: "string option"

record occ_entry =
  oe_dashboardId :: "string option"
  oe_byKey :: "(string \<times> occurrence) list"
  oe_covered :: "interval list"
  oe_windows :: "(nat \<times> interval) list"
  oe_pending :: "interval list"
  oe_pendingFlush :: bool
  oe_inFlight :: "(interval \<times> nat) list"
  oe_state :: occurrence_state

record occ_fetch =
  ft_object :: nat
  ft_interval :: interval
  ft_api :: nat

record occ_load =
  ol_object :: nat
  ol_awaiting :: "nat list"

record occ_store =
  oc_entries :: "(string \<times> nat) list"
  oc_heap :: "nat \<Rightarrow> occ_entry option"
  oc_next :: nat
  oc_flushes :: "nat list"
  oc_loads :: "occ_load list"
  oc_fetches :: "(nat \<times> occ_fetch) list"
  oc_api :: "((string option \<times> interval) \<times> nat) list"

definition EMPTY_STATE :: occurrence_state where
  "EMPTY_STATE = \<lparr>os_occurrences = [], os_loaded = False, os_loading = False, os_error = None\<rparr>"

definition empty_occ_store :: occ_store where
  "empty_occ_store = \<lparr>oc_entries = [], oc_heap = (\<lambda>_. None), oc_next = 0, oc_flushes = [],
     oc_loads = [], oc_fetches = [], oc_api = []\<rparr>"

definition occurrenceKey :: "occurrence \<Rightarrow> string" where
  "occurrenceKey o' = o_event_id o' @ ''|'' @ o_original_start o'"

definition entryKey :: "string option \<Rightarrow> string" where
  "entryKey d = (case d of None \<Rightarrow> ''personal'' | Some i \<Rightarrow> i)"

definition new_occ_entry :: "string option \<Rightarrow> occ_entry" where
  "new_occ_entry d = \<lparr>oe_dashboardId = d, oe_byKey = [], oe_covered = [], oe_windows = [],
     oe_pending = [], oe_pendingFlush = False, oe_inFlight = [], oe_state = EMPTY_STATE\<rparr>"

definition occ_put :: "nat \<Rightarrow> occ_entry \<Rightarrow> occ_store \<Rightarrow> occ_store" where
  "occ_put ob e st = st\<lparr>oc_heap := (oc_heap st)(ob \<mapsto> e)\<rparr>"

definition occ_modify :: "nat \<Rightarrow> (occ_entry \<Rightarrow> occ_entry) \<Rightarrow> occ_store \<Rightarrow> occ_store" where
  "occ_modify ob f st = (case oc_heap st ob of None \<Rightarrow> st | Some e \<Rightarrow> occ_put ob (f e) st)"

definition occ_ensureEntry :: "string option \<Rightarrow> occ_store \<Rightarrow> nat \<times> occ_store" where
  "occ_ensureEntry d st =
     (case map_of (oc_entries st) (entryKey d) of
        Some ob \<Rightarrow> (ob, st)
      | None \<Rightarrow>
          let ob = oc_next st in
          (ob, (occ_put ob (new_occ_entry d) st)
                 \<lparr>oc_entries := AList.update (entryKey d) ob (oc_entries st), oc_next := ob + 1\<rparr>))"

definition occurrence_span :: "(string \<Rightarrow> int) \<Rightarrow> occurrence \<Rightarrow> interval" where
  "occurrence_span parse o' = iv (parse (o_occurrence_start o')) (parse (o_occurrence_end o'))"

definition start_order :: "(string \<Rightarrow> string \<Rightarrow> int) \<Rightarrow> occurrence \<Rightarrow> occurrence \<Rightarrow> int" where
  "start_order lc a b = lc (o_occurrence_start a) (o_occurrence_start b)"

definition republishOccurrences :: "(string \<Rightarrow> string \<Rightarrow> int) \<Rightarrow> occ_entry \<Rightarrow> occ_entry" where
  "republishOccurrences lc e =
     e\<lparr>oe_state := (oe_state e)\<lparr>os_occurrences := js_sort (start_order lc) (map snd (oe_byKey e))\<rparr>\<rparr>"

definition trim :: "(string \<Rightarrow> int) \<Rightarrow> interval \<Rightarrow> occ_entry \<Rightarrow> occ_entry" where
  "trim parse keep e =
     (if coveredSpan (oe_covered e) \<le> MAX_COVERED_MS then e
      else let retained = retained_cover (oe_covered e) keep in
        e\<lparr>oe_covered := retained,
          oe_byKey := filter (\<lambda>p. list_ex (\<lambda>i. overlaps i (occurrence_span parse (snd p))) retained)
                        (oe_byKey e)\<rparr>)"

text \<open>The answer to a fetch: everything overlapping the range goes before the response is inserted.\<close>

definition reconcile ::
    "(string \<Rightarrow> int) \<Rightarrow> interval \<Rightarrow> occurrence list \<Rightarrow> occ_entry \<Rightarrow> occ_entry" where
  "reconcile parse i fetched e =
     (let kept = filter (\<lambda>p. \<not> overlaps (occurrence_span parse (snd p)) i) (oe_byKey e);
          byKey = fold (\<lambda>o'. AList.update (occurrenceKey o') o') fetched kept
      in trim parse i (e\<lparr>oe_byKey := byKey, oe_covered := addInterval (oe_covered e) i\<rparr>))"

text \<open>The API layer: a request for the same window and dashboard is joined, whoever asked first.\<close>

definition api_dashboard :: "string option \<Rightarrow> string option" where
  "api_dashboard d = (if truthy d then d else None)"

definition apiListOccurrences :: "string option \<Rightarrow> interval \<Rightarrow> occ_store \<Rightarrow> nat \<times> occ_store" where
  "apiListOccurrences d i st =
     (case map_of (oc_api st) (api_dashboard d, i) of
        Some n \<Rightarrow> (n, st)
      | None \<Rightarrow>
          let n = oc_next st in
          (n, st\<lparr>oc_api := oc_api st @ [((api_dashboard d, i), n)], oc_next := n + 1\<rparr>))"

definition fetchInterval :: "nat \<Rightarrow> interval \<Rightarrow> occ_store \<Rightarrow> nat \<times> occ_store" where
  "fetchInterval ob i st =
     (case oc_heap st ob of
        None \<Rightarrow> (0, st)
      | Some e \<Rightarrow>
          (case map_of (oe_inFlight e) i of
             Some f \<Rightarrow> (f, st)
           | None \<Rightarrow>
               let (n, st) = apiListOccurrences (oe_dashboardId e) i st;
                   f = oc_next st
               in (f, (occ_put ob (e\<lparr>oe_inFlight := AList.update i f (oe_inFlight e)\<rparr>) st)
                        \<lparr>oc_fetches := oc_fetches st @ [(f, \<lparr>ft_object = ob, ft_interval = i, ft_api = n\<rparr>)],
                         oc_next := f + 1\<rparr>)))"

fun fetch_gaps :: "nat \<Rightarrow> interval list \<Rightarrow> occ_store \<Rightarrow> nat list \<times> occ_store" where
  "fetch_gaps ob [] st = ([], st)"
| "fetch_gaps ob (g # gs) st =
     (let (f, st) = fetchInterval ob g st; (fs, st) = fetch_gaps ob gs st in (f # fs, st))"

definition runLoad :: "nat \<Rightarrow> interval \<Rightarrow> occ_store \<Rightarrow> occ_store" where
  "runLoad ob wanted st =
     (case oc_heap st ob of
        None \<Rightarrow> st
      | Some e \<Rightarrow>
          let gaps = gapsIn (oe_covered e) wanted in
          if gaps = [] then st
          else let st = occ_put ob (e\<lparr>oe_state := (oe_state e)
                          \<lparr>os_loading := (oe_byKey e = []), os_error := None\<rparr>\<rparr>) st;
                   (fs, st) = fetch_gaps ob gaps st
               in st\<lparr>oc_loads := oc_loads st @ [\<lparr>ol_object = ob, ol_awaiting = fs\<rparr>]\<rparr>)"

definition loadWindow :: "string option \<Rightarrow> interval \<Rightarrow> occ_store \<Rightarrow> occ_store" where
  "loadWindow d wanted st =
     (let (ob, st) = occ_ensureEntry d st in
      case oc_heap st ob of
        None \<Rightarrow> st
      | Some e \<Rightarrow>
          let st = occ_put ob (e\<lparr>oe_pending := oe_pending e @ [wanted], oe_pendingFlush := True\<rparr>) st
          in if oe_pendingFlush e then st else st\<lparr>oc_flushes := oc_flushes st @ [ob]\<rparr>)"

text \<open>The microtask \<open>loadWindow\<close> queued.\<close>

definition batch_span :: "interval list \<Rightarrow> interval" where
  "batch_span batch = iv (Min (iv_start ` set batch)) (Max (iv_end ` set batch))"

definition run_batch :: "nat \<Rightarrow> interval list \<Rightarrow> occ_store \<Rightarrow> occ_store" where
  "run_batch ob batch st =
     (let span = batch_span batch in
      if iv_end span - iv_start span > MAX_COVERED_MS then fold (runLoad ob) batch st
      else runLoad ob span st)"

definition flush :: "occ_store \<Rightarrow> occ_store" where
  "flush st =
     (case oc_flushes st of
        [] \<Rightarrow> st
      | ob # rest \<Rightarrow>
          (case oc_heap st ob of
             None \<Rightarrow> st
           | Some e \<Rightarrow>
               run_batch ob (oe_pending e)
                 (occ_put ob (e\<lparr>oe_pending := [], oe_pendingFlush := False\<rparr>) (st\<lparr>oc_flushes := rest\<rparr>))))"

text \<open>A fetch that settled: its continuation, then the loads that awaited it.\<close>

definition load_failed :: "thrown \<Rightarrow> occ_entry \<Rightarrow> occ_entry" where
  "load_failed err e = e\<lparr>oe_state := (oe_state e)\<lparr>os_loading := False,
     os_error := Some (error_message err ''Failed to load calendar events.'')\<rparr>\<rparr>"

definition load_completed :: "(string \<Rightarrow> string \<Rightarrow> int) \<Rightarrow> occ_entry \<Rightarrow> occ_entry" where
  "load_completed lc e =
     (let e = republishOccurrences lc e
      in e\<lparr>oe_state := (oe_state e)\<lparr>os_loaded := True, os_loading := False, os_error := None\<rparr>\<rparr>)"

definition settle_load ::
    "(string \<Rightarrow> string \<Rightarrow> int) \<Rightarrow> nat \<Rightarrow> thrown option \<Rightarrow> occ_load \<Rightarrow> occ_store \<Rightarrow> occ_store" where
  "settle_load lc f failure ld st =
     (if f \<notin> set (ol_awaiting ld) then st\<lparr>oc_loads := oc_loads st @ [ld]\<rparr>
      else case failure of
        Some err \<Rightarrow> occ_modify (ol_object ld) (load_failed err) st
      | None \<Rightarrow>
          let left = removeAll f (ol_awaiting ld) in
          if left = [] then occ_modify (ol_object ld) (load_completed lc) st
          else st\<lparr>oc_loads := oc_loads st @ [ld\<lparr>ol_awaiting := left\<rparr>]\<rparr>)"

definition fetch_entry ::
    "(string \<Rightarrow> int) \<Rightarrow> interval \<Rightarrow> occurrence list reply \<Rightarrow> occ_entry \<Rightarrow> occ_entry" where
  "fetch_entry parse i reply e =
     (let e = (case reply of Inr fetched \<Rightarrow> reconcile parse i fetched e | Inl _ \<Rightarrow> e)
      in e\<lparr>oe_inFlight := AList.delete i (oe_inFlight e)\<rparr>)"

definition settle_fetch ::
    "(string \<Rightarrow> string \<Rightarrow> int) \<Rightarrow> (string \<Rightarrow> int) \<Rightarrow> occurrence list reply \<Rightarrow> nat \<times> occ_fetch \<Rightarrow>
       occ_store \<Rightarrow> occ_store" where
  "settle_fetch lc parse reply ft st =
     (case ft of (f, t) \<Rightarrow>
        let st = occ_modify (ft_object t) (fetch_entry parse (ft_interval t) reply)
                   (st\<lparr>oc_fetches := AList.delete f (oc_fetches st)\<rparr>)
        in fold (settle_load lc f (case reply of Inl err \<Rightarrow> Some err | Inr _ \<Rightarrow> None)) (oc_loads st)
             (st\<lparr>oc_loads := []\<rparr>))"

definition occ_answer ::
    "(string \<Rightarrow> string \<Rightarrow> int) \<Rightarrow> (string \<Rightarrow> int) \<Rightarrow> nat \<Rightarrow> occurrence list reply \<Rightarrow> occ_store \<Rightarrow> occ_store" where
  "occ_answer lc parse n reply st =
     (if n \<notin> set (map snd (oc_api st)) then st
      else fold (settle_fetch lc parse reply) (filter (\<lambda>p. ft_api (snd p) = n) (oc_fetches st))
             (st\<lparr>oc_api := filter (\<lambda>p. snd p \<noteq> n) (oc_api st)\<rparr>))"

text \<open>Invalidation.\<close>

definition watchedInterval :: "occ_entry \<Rightarrow> interval option" where
  "watchedInterval e =
     (if oe_windows e = [] then None
      else let span = batch_span (map snd (oe_windows e))
        in if iv_end span - iv_start span > MAX_COVERED_MS then None else Some span)"

definition reload :: "nat \<Rightarrow> occ_store \<Rightarrow> occ_store" where
  "reload ob st =
     (case oc_heap st ob of
        None \<Rightarrow> st
      | Some e \<Rightarrow>
          let st = occ_put ob (e\<lparr>oe_covered := []\<rparr>) st in
          (case watchedInterval e of None \<Rightarrow> st | Some watched \<Rightarrow> loadWindow (oe_dashboardId e) watched st))"

definition invalidateOccurrences :: "string option \<Rightarrow> occ_store \<Rightarrow> occ_store" where
  "invalidateOccurrences d st =
     (case map_of (oc_entries st) (entryKey d) of None \<Rightarrow> st | Some ob \<Rightarrow> reload ob st)"

definition invalidateAllOccurrences :: "occ_store \<Rightarrow> occ_store" where
  "invalidateAllOccurrences st = fold reload (map snd (oc_entries st)) st"

definition resetOccurrences :: "occ_store \<Rightarrow> occ_store" where
  "resetOccurrences st = st\<lparr>oc_entries := []\<rparr>"

text \<open>What \<open>useOccurrences\<close> does: its effect and the effect's cleanup, \<open>refetch\<close>, and what it shows.\<close>

definition mount_window :: "string option \<Rightarrow> nat \<Rightarrow> interval \<Rightarrow> occ_store \<Rightarrow> occ_store" where
  "mount_window d watcher wanted st =
     (let (ob, st) = occ_ensureEntry d st
      in loadWindow d wanted
           (occ_modify ob (\<lambda>e. e\<lparr>oe_windows := AList.update watcher wanted (oe_windows e)\<rparr>) st))"

definition unmount_window :: "nat \<Rightarrow> nat \<Rightarrow> occ_store \<Rightarrow> occ_store" where
  "unmount_window ob watcher =
     occ_modify ob (\<lambda>e. e\<lparr>oe_windows := AList.delete watcher (oe_windows e)\<rparr>)"

definition refetch_window :: "string option \<Rightarrow> interval \<Rightarrow> occ_store \<Rightarrow> occ_store" where
  "refetch_window d wanted st =
     (let (ob, st) = occ_ensureEntry d st
      in loadWindow d wanted (occ_modify ob (\<lambda>e. e\<lparr>oe_covered := []\<rparr>) st))"

definition shown_occurrences :: "(string \<Rightarrow> int) \<Rightarrow> interval \<Rightarrow> occ_entry \<Rightarrow> occurrence list" where
  "shown_occurrences parse wanted e =
     filter (\<lambda>o'. overlaps (occurrence_span parse o') wanted) (os_occurrences (oe_state e))"

datatype occ_event =
    Render "string option"
  | MountWindow "string option" nat interval
  | UnmountWindow nat nat
  | RefetchWindow "string option" interval
  | Flush
  | Answered nat "occurrence list reply"
  | InvalidateOccurrences "string option"
  | InvalidateAllOccurrences
  | ResetOccurrences

fun occ_step ::
    "(string \<Rightarrow> string \<Rightarrow> int) \<Rightarrow> (string \<Rightarrow> int) \<Rightarrow> occ_event \<Rightarrow> occ_store \<Rightarrow> occ_store" where
  "occ_step lc parse (Render d) st = snd (occ_ensureEntry d st)"
| "occ_step lc parse (MountWindow d watcher wanted) st = mount_window d watcher wanted st"
| "occ_step lc parse (UnmountWindow ob watcher) st = unmount_window ob watcher st"
| "occ_step lc parse (RefetchWindow d wanted) st = refetch_window d wanted st"
| "occ_step lc parse Flush st = flush st"
| "occ_step lc parse (Answered n reply) st = occ_answer lc parse n reply st"
| "occ_step lc parse (InvalidateOccurrences d) st = invalidateOccurrences d st"
| "occ_step lc parse InvalidateAllOccurrences st = invalidateAllOccurrences st"
| "occ_step lc parse ResetOccurrences st = resetOccurrences st"

section \<open>A server to talk to\<close>

text \<open>
  \<open>srv d\<close> is what the server has for a dashboard, and it answers a window with what overlaps it.
  Its rows have distinct keys and end after they start, which the backend's schema enforces.
\<close>

definition server_ok :: "(string \<Rightarrow> int) \<Rightarrow> (string option \<Rightarrow> occurrence list) \<Rightarrow> bool" where
  "server_ok parse srv \<longleftrightarrow> (\<forall>d. inj_on occurrenceKey (set (srv d)) \<and>
     (\<forall>o' \<in> set (srv d). iv_start (occurrence_span parse o') < iv_end (occurrence_span parse o')))"

definition server_rows ::
    "(string \<Rightarrow> int) \<Rightarrow> (string option \<Rightarrow> occurrence list) \<Rightarrow> string option \<Rightarrow> interval \<Rightarrow> occurrence list" where
  "server_rows parse srv d i = filter (\<lambda>o'. overlaps (occurrence_span parse o') i) (srv d)"

definition answer_of ::
    "(string \<Rightarrow> int) \<Rightarrow> (string option \<Rightarrow> occurrence list) \<Rightarrow> nat \<Rightarrow> occ_store \<Rightarrow> occurrence list" where
  "answer_of parse srv n st =
     (case find (\<lambda>p. snd p = n) (oc_api st) of
        None \<Rightarrow> [] | Some ((d, i), _) \<Rightarrow> server_rows parse srv d i)"

text \<open>A step in which a successful answer is the server's.\<close>

fun honest_step ::
    "(string \<Rightarrow> string \<Rightarrow> int) \<Rightarrow> (string \<Rightarrow> int) \<Rightarrow> (string option \<Rightarrow> occurrence list) \<Rightarrow>
       occ_event \<Rightarrow> occ_store \<Rightarrow> occ_store" where
  "honest_step lc parse srv (Answered n (Inr _)) st =
     occ_step lc parse (Answered n (Inr (answer_of parse srv n st))) st"
| "honest_step lc parse srv e st = occ_step lc parse e st"

section \<open>What an entry holds is true\<close>

abbreviation rows_of :: "(string option \<Rightarrow> occurrence list) \<Rightarrow> occ_entry \<Rightarrow> occurrence set" where
  "rows_of srv e \<equiv> set (srv (api_dashboard (oe_dashboardId e)))"

definition entry_true ::
    "(string \<Rightarrow> int) \<Rightarrow> (string option \<Rightarrow> occurrence list) \<Rightarrow> occ_entry \<Rightarrow> bool" where
  "entry_true parse srv e \<longleftrightarrow> apart (oe_covered e) \<and>
     (\<forall>p \<in> set (oe_byKey e). snd p \<in> rows_of srv e \<and> fst p = occurrenceKey (snd p)) \<and>
     (\<forall>i \<in> set (oe_covered e). \<forall>o' \<in> rows_of srv e.
        overlaps (occurrence_span parse o') i \<longrightarrow> (occurrenceKey o', o') \<in> set (oe_byKey e))"

lemma update_same_set:
  "\<forall>p \<in> set m. fst p = k \<longrightarrow> p = (k, v) \<Longrightarrow> set (AList.update k v m) = insert (k, v) (set m)"
  by (induction m) auto

lemma fold_update_set:
  assumes "inj_on occurrenceKey S" "set rs \<subseteq> S"
    and "\<forall>p \<in> set m. snd p \<in> S \<and> fst p = occurrenceKey (snd p)"
  shows "set (fold (\<lambda>o'. AList.update (occurrenceKey o') o') rs m) =
     set m \<union> (\<lambda>o'. (occurrenceKey o', o')) ` set rs"
  using assms
proof (induction rs arbitrary: m)
  case (Cons r rs)
  have u: "set (AList.update (occurrenceKey r) r m) = insert (occurrenceKey r, r) (set m)"
    using Cons.prems by (intro update_same_set) (metis inj_onD list.set_intros(1) prod.collapse subsetD)
  with Cons.prems have "\<forall>p \<in> set (AList.update (occurrenceKey r) r m). snd p \<in> S \<and> fst p = occurrenceKey (snd p)"
    by auto
  with Cons.IH [OF Cons.prems(1) _ this] Cons.prems(2) u show ?case by auto
qed simp

lemma overlaps_instant:
  assumes "iv_start a < iv_end a" "iv_start b < iv_end b"
  shows "overlaps a b \<longleftrightarrow> (\<exists>t. t \<in> {iv_start a..<iv_end a} \<and> t \<in> {iv_start b..<iv_end b})"
proof
  assume "overlaps a b"
  with assms show "\<exists>t. t \<in> {iv_start a..<iv_end a} \<and> t \<in> {iv_start b..<iv_end b}"
    by (intro exI [of _ "max (iv_start a) (iv_start b)"]) (auto simp: overlaps_def)
qed (auto simp: overlaps_def)

lemma retained_cover_shape:
  assumes "apart covered"
  shows "apart (retained_cover covered keep) \<and> set (retained_cover covered keep) \<subseteq> set covered"
proof -
  let ?s = "js_sort (\<lambda>a b. distance keep a - distance keep b) covered"
  from assms have sc: "scattered covered" by (simp add: scattered_apart_iff)
  then have d: "distinct ?s" by (simp add: scattered_def distinct_js_sort)
  have "distinct (retain ?s 0 []) \<and> set (retain ?s 0 []) \<subseteq> set ?s"
  proof (cases ?s)
    case (Cons c rest)
    with retain_spec [of "coveredSpan [c]" "[c]" rest] d show ?thesis
      by (auto simp: coveredSpan_def Let_def)
  qed simp
  then have "distinct (retain ?s 0 []) \<and> set (retain ?s 0 []) \<subseteq> set covered" by simp
  with scattered_subset [OF sc] sorted_scattered_apart show ?thesis
    by (simp add: retained_cover_def)
qed

lemma trim_true: "entry_true parse srv e \<Longrightarrow> entry_true parse srv (trim parse keep e)"
  using retained_cover_shape [of "oe_covered e" keep]
  by (fastforce simp: entry_true_def trim_def Let_def list_ex_iff overlaps_def)

lemma reconcile_true:
  assumes "server_ok parse srv" "entry_true parse srv e" "iv_start i < iv_end i"
    and "set rs = {o' \<in> rows_of srv e. overlaps (occurrence_span parse o') i}"
  shows "entry_true parse srv (reconcile parse i rs e)"
proof -
  let ?kept = "filter (\<lambda>p. \<not> overlaps (occurrence_span parse (snd p)) i) (oe_byKey e)"
  let ?new = "fold (\<lambda>o'. AList.update (occurrenceKey o') o') rs ?kept"
  have inj: "inj_on occurrenceKey (rows_of srv e)"
    and pos: "\<And>o'. o' \<in> rows_of srv e \<Longrightarrow> iv_start (occurrence_span parse o') < iv_end (occurrence_span parse o')"
    using assms(1) by (auto simp: server_ok_def)
  have "\<forall>p \<in> set ?kept. snd p \<in> rows_of srv e \<and> fst p = occurrenceKey (snd p)"
    using assms(2) by (auto simp: entry_true_def)
  from fold_update_set [OF inj _ this, of rs] have
    new: "set ?new = set ?kept \<union> (\<lambda>o'. (occurrenceKey o', o')) ` set rs" by (simp add: assms(4))
  have ap: "apart (oe_covered e)" using assms(2) by (simp add: entry_true_def)
  note add = addInterval_union' [OF ap assms(3)]
  have "(occurrenceKey o', o') \<in> set ?new"
    if j: "j \<in> set (addInterval (oe_covered e) i)" and o': "o' \<in> rows_of srv e"
      and ov: "overlaps (occurrence_span parse o') j" for j o'
  proof (cases "overlaps (occurrence_span parse o') i")
    case True
    with o' new assms(4) show ?thesis by auto
  next
    case False
    have "iv_start j < iv_end j" using j add by (simp add: apart_def)
    with ov pos [OF o'] obtain t where t: "t \<in> {iv_start (occurrence_span parse o')..<iv_end (occurrence_span parse o')}"
      "t \<in> {iv_start j..<iv_end j}" by (auto simp: overlaps_instant)
    from t(2) j have "t \<in> instants (addInterval (oe_covered e) i)" by (auto simp: instants_def)
    with add False t(1) pos [OF o'] assms(3) obtain k where "k \<in> set (oe_covered e)" "t \<in> {iv_start k..<iv_end k}"
      by (auto simp: overlaps_instant instants_def)
    with t(1) have "overlaps (occurrence_span parse o') k" by (auto simp: overlaps_def)
    with \<open>k \<in> set (oe_covered e)\<close> o' assms(2) have "(occurrenceKey o', o') \<in> set (oe_byKey e)"
      by (auto simp: entry_true_def)
    with False new show ?thesis by auto
  qed
  moreover have "\<forall>p \<in> set ?new. snd p \<in> rows_of srv e \<and> fst p = occurrenceKey (snd p)"
    using new assms(2,4) by (auto simp: entry_true_def)
  ultimately have "entry_true parse srv (e\<lparr>oe_byKey := ?new, oe_covered := addInterval (oe_covered e) i\<rparr>)"
    using add by (simp add: entry_true_def)
  then show ?thesis unfolding reconcile_def Let_def by (rule trim_true)
qed

section \<open>Every run keeps it true\<close>

definition matched ::
    "((string option \<times> interval) \<times> nat) list \<Rightarrow> (nat \<Rightarrow> occ_entry option) \<Rightarrow> occ_fetch \<Rightarrow> bool" where
  "matched api heap t \<longleftrightarrow> iv_start (ft_interval t) < iv_end (ft_interval t) \<and>
     (\<exists>e. heap (ft_object t) = Some e \<and>
        (\<forall>p \<in> set api. snd p = ft_api t \<longrightarrow> fst p = (api_dashboard (oe_dashboardId e), ft_interval t)))"

definition held ::
    "(string \<Rightarrow> int) \<Rightarrow> (string option \<Rightarrow> occurrence list) \<Rightarrow> (nat \<Rightarrow> occ_entry option) \<Rightarrow> nat \<Rightarrow> bool" where
  "held parse srv heap n \<longleftrightarrow> (\<forall>ob e. heap ob = Some e \<longrightarrow> ob < n \<and> entry_true parse srv e)"

definition asked ::
    "(nat \<times> occ_fetch) list \<Rightarrow> ((string option \<times> interval) \<times> nat) list \<Rightarrow> (nat \<Rightarrow> occ_entry option) \<Rightarrow> nat \<Rightarrow> bool" where
  "asked fetches api heap n \<longleftrightarrow> (\<forall>p \<in> set fetches. ft_api (snd p) < n \<and> matched api heap (snd p))"

definition api_ok :: "((string option \<times> interval) \<times> nat) list \<Rightarrow> nat \<Rightarrow> bool" where
  "api_ok api n \<longleftrightarrow> distinct (map snd api) \<and> (\<forall>p \<in> set api. snd p < n)"

definition coherent ::
    "(string \<Rightarrow> int) \<Rightarrow> (string option \<Rightarrow> occurrence list) \<Rightarrow> occ_store \<Rightarrow> bool" where
  "coherent parse srv st \<longleftrightarrow> held parse srv (oc_heap st) (oc_next st) \<and>
     asked (oc_fetches st) (oc_api st) (oc_heap st) (oc_next st) \<and> api_ok (oc_api st) (oc_next st)"

lemma empty_coherent: "coherent parse srv empty_occ_store"
  by (simp add: coherent_def held_def asked_def api_ok_def empty_occ_store_def)

lemma coherent_loads [simp]: "coherent parse srv (st\<lparr>oc_loads := lds\<rparr>) = coherent parse srv st"
  by (simp add: coherent_def)

lemma coherent_flushes [simp]: "coherent parse srv (st\<lparr>oc_flushes := fls\<rparr>) = coherent parse srv st"
  by (simp add: coherent_def)

lemma coherent_entries [simp]: "coherent parse srv (st\<lparr>oc_entries := es\<rparr>) = coherent parse srv st"
  by (simp add: coherent_def)

lemma coherent_entry: "coherent parse srv st \<Longrightarrow> oc_heap st ob = Some e \<Longrightarrow> entry_true parse srv e \<and> ob < oc_next st"
  by (simp add: coherent_def held_def)

lemma held_put: "held parse srv heap n \<Longrightarrow> n \<le> m \<Longrightarrow> ob < m \<Longrightarrow> entry_true parse srv e \<Longrightarrow> held parse srv (heap(ob \<mapsto> e)) m"
  unfolding held_def by (metis fun_upd_apply option.inject order_less_le_trans)

lemma held_mono: "held parse srv heap n \<Longrightarrow> n \<le> m \<Longrightarrow> held parse srv heap m"
  unfolding held_def by (metis order_less_le_trans)

lemma matched_put:
  "matched api heap t \<Longrightarrow> heap ob = None \<or> (\<exists>e0. heap ob = Some e0 \<and> oe_dashboardId e = oe_dashboardId e0) \<Longrightarrow>
     matched api (heap(ob \<mapsto> e)) t"
  by (auto simp: matched_def)

lemma asked_put:
  "asked fetches api heap n \<Longrightarrow> n \<le> m \<Longrightarrow>
     heap ob = None \<or> (\<exists>e0. heap ob = Some e0 \<and> oe_dashboardId e = oe_dashboardId e0) \<Longrightarrow>
     asked fetches api (heap(ob \<mapsto> e)) m"
  unfolding asked_def by (meson matched_put order_less_le_trans)

lemma asked_new_call:
  assumes "asked fetches api heap n"
  shows "asked fetches (api @ [(k, n)]) heap (Suc n)"
  unfolding asked_def
proof
  fix p assume "p \<in> set fetches"
  with assms have "ft_api (snd p) < n" "matched api heap (snd p)" by (simp_all add: asked_def)
  then show "ft_api (snd p) < Suc n \<and> matched (api @ [(k, n)]) heap (snd p)" by (auto simp: matched_def)
qed

lemma api_ok_mono: "api_ok api n \<Longrightarrow> n \<le> m \<Longrightarrow> api_ok api m"
  unfolding api_ok_def by (meson order_less_le_trans)

lemma api_ok_new: "api_ok api n \<Longrightarrow> api_ok (api @ [(k, n)]) (Suc n)"
  by (fastforce simp: api_ok_def less_Suc_eq)

text \<open>A write to an entry that keeps what it claims to know.\<close>

definition same_claims :: "occ_entry \<Rightarrow> occ_entry \<Rightarrow> bool" where
  "same_claims e e' \<longleftrightarrow> oe_dashboardId e' = oe_dashboardId e \<and> oe_byKey e' = oe_byKey e \<and>
     (oe_covered e' = oe_covered e \<or> oe_covered e' = [])"

lemma same_claims_true: "same_claims e e' \<Longrightarrow> entry_true parse srv e \<Longrightarrow> entry_true parse srv e'"
  by (auto simp: same_claims_def entry_true_def)

lemma put_coherent:
  assumes "coherent parse srv st" "oc_heap st ob = Some e" "oe_dashboardId e' = oe_dashboardId e"
    and "entry_true parse srv e'"
  shows "coherent parse srv (occ_put ob e' st)"
  using assms coherent_entry [OF assms(1,2)] by (auto simp: coherent_def occ_put_def intro: held_put asked_put)

lemma put_same_coherent:
  "coherent parse srv st \<Longrightarrow> oc_heap st ob = Some e \<Longrightarrow> same_claims e e' \<Longrightarrow> coherent parse srv (occ_put ob e' st)"
  by (rule put_coherent) (auto simp: same_claims_def intro: same_claims_true [of e e'] dest: coherent_entry)

lemma modify_same_coherent:
  "coherent parse srv st \<Longrightarrow> (\<And>e. same_claims e (f e)) \<Longrightarrow> coherent parse srv (occ_modify ob f st)"
  by (auto simp: occ_modify_def split: option.split intro: put_same_coherent)

lemma ensure_coherent:
  assumes "coherent parse srv st" "occ_ensureEntry d st = (ob, st')"
  shows "coherent parse srv st'"
proof (cases "map_of (oc_entries st) (entryKey d)")
  case None
  have fresh: "oc_heap st (oc_next st) = None"
    using coherent_entry [OF assms(1), of "oc_next st"] by (cases "oc_heap st (oc_next st)") auto
  have t: "entry_true parse srv (new_occ_entry d)" by (simp add: entry_true_def new_occ_entry_def)
  have "held parse srv ((oc_heap st)(oc_next st \<mapsto> new_occ_entry d)) (Suc (oc_next st))"
    using assms(1) t by (auto simp: coherent_def intro: held_put)
  moreover have "asked (oc_fetches st) (oc_api st) ((oc_heap st)(oc_next st \<mapsto> new_occ_entry d)) (Suc (oc_next st))"
    using assms(1) fresh by (auto simp: coherent_def intro: asked_put)
  moreover have "api_ok (oc_api st) (Suc (oc_next st))"
    using assms(1) by (auto simp: coherent_def intro: api_ok_mono)
  ultimately show ?thesis using None assms(2) by (auto simp: occ_ensureEntry_def Let_def occ_put_def coherent_def)
qed (use assms in \<open>simp add: occ_ensureEntry_def\<close>)

lemma api_call_coherent:
  assumes "coherent parse srv st" "apiListOccurrences d i st = (n, st')"
  shows "coherent parse srv st' \<and> oc_heap st' = oc_heap st \<and> oc_fetches st' = oc_fetches st \<and>
     n < oc_next st' \<and> (\<forall>p \<in> set (oc_api st'). snd p = n \<longrightarrow> fst p = (api_dashboard d, i))"
proof (cases "map_of (oc_api st) (api_dashboard d, i)")
  case None
  then have st': "n = oc_next st"
    "st' = st\<lparr>oc_api := oc_api st @ [((api_dashboard d, i), oc_next st)], oc_next := oc_next st + 1\<rparr>"
    using assms(2) by (auto simp: apiListOccurrences_def Let_def)
  have "coherent parse srv st'" using assms(1)
    by (auto simp: st' coherent_def intro: held_mono asked_new_call api_ok_new)
  moreover have "\<forall>p \<in> set (oc_api st). snd p < oc_next st" using assms(1) by (simp add: coherent_def api_ok_def)
  ultimately show ?thesis by (auto simp: st')
next
  case (Some m)
  then have mem: "((api_dashboard d, i), m) \<in> set (oc_api st)" by (rule map_of_SomeD)
  from assms(1) have inj: "inj_on snd (set (oc_api st))" and lt: "\<forall>p \<in> set (oc_api st). snd p < oc_next st"
    by (simp_all add: coherent_def api_ok_def distinct_map)
  have "fst p = (api_dashboard d, i)" if "p \<in> set (oc_api st)" "snd p = m" for p
    using inj_onD [OF inj _ that(1) mem] that(2) by simp
  moreover have "st' = st" "n = m" using Some assms(2) by (simp_all add: apiListOccurrences_def)
  moreover have "m < oc_next st" using lt mem by auto
  ultimately show ?thesis using assms(1) by simp
qed

lemma asked_new_fetch:
  "asked fetches api heap n \<Longrightarrow> ft_api t < n \<Longrightarrow> matched api heap t \<Longrightarrow> asked (fetches @ [(f, t)]) api heap (Suc n)"
  by (auto simp: asked_def less_Suc_eq)

lemma fetchInterval_coherent:
  assumes "coherent parse srv st" "iv_start i < iv_end i"
  shows "coherent parse srv (snd (fetchInterval ob i st))"
proof (cases "oc_heap st ob")
  case (Some e)
  show ?thesis
  proof (cases "map_of (oe_inFlight e) i")
    case None
    obtain n st1 where a: "apiListOccurrences (oe_dashboardId e) i st = (n, st1)" by force
    note a' = api_call_coherent [OF assms(1) a]
    let ?e = "e\<lparr>oe_inFlight := AList.update i (oc_next st1) (oe_inFlight e)\<rparr>"
    let ?t = "\<lparr>ft_object = ob, ft_interval = i, ft_api = n\<rparr>"
    have p: "coherent parse srv (occ_put ob ?e st1)"
      using a' Some by (intro put_same_coherent) (auto simp: same_claims_def)
    have m: "matched (oc_api st1) ((oc_heap st1)(ob \<mapsto> ?e)) ?t"
      using a' assms(2) by (auto simp: matched_def)
    have "coherent parse srv ((occ_put ob ?e st1)
        \<lparr>oc_fetches := oc_fetches st1 @ [(oc_next st1, ?t)], oc_next := oc_next st1 + 1\<rparr>)"
      using p m a' by (auto simp: coherent_def occ_put_def intro!: asked_new_fetch intro: held_mono api_ok_mono)
    with None Some a show ?thesis by (simp add: fetchInterval_def Let_def)
  qed (use Some assms in \<open>simp add: fetchInterval_def\<close>)
qed (use assms in \<open>simp add: fetchInterval_def\<close>)

lemma fetch_gaps_coherent:
  "coherent parse srv st \<Longrightarrow> \<forall>g \<in> set gs. iv_start g < iv_end g \<Longrightarrow> coherent parse srv (snd (fetch_gaps ob gs st))"
proof (induction gs arbitrary: st)
  case (Cons g gs)
  then have "coherent parse srv (snd (fetch_gaps ob gs (snd (fetchInterval ob g st))))"
    using fetchInterval_coherent by simp
  then show ?case by (simp add: Let_def split: prod.split) (metis prod.collapse snd_conv)
qed simp

lemma runLoad_coherent:
  assumes "coherent parse srv st"
  shows "coherent parse srv (runLoad ob wanted st)"
proof (cases "oc_heap st ob")
  case (Some e)
  let ?e = "e\<lparr>oe_state := (oe_state e)\<lparr>os_loading := (oe_byKey e = []), os_error := None\<rparr>\<rparr>"
  have "apart (oe_covered e)" using coherent_entry [OF assms Some] by (simp add: entry_true_def)
  from gapsIn_facts [OF this, of wanted] have g: "\<forall>g \<in> set (gapsIn (oe_covered e) wanted). iv_start g < iv_end g"
    by (auto simp: apart_def)
  have "coherent parse srv (occ_put ob ?e st)"
    using assms Some by (rule put_same_coherent) (simp add: same_claims_def)
  from fetch_gaps_coherent [OF this g] Some assms show ?thesis
    by (auto simp: runLoad_def Let_def split: prod.split) (metis snd_conv)
qed (use assms in \<open>simp add: runLoad_def\<close>)

lemma loadWindow_coherent:
  assumes "coherent parse srv st"
  shows "coherent parse srv (loadWindow d wanted st)"
proof -
  obtain ob st1 where e: "occ_ensureEntry d st = (ob, st1)" by force
  note c = ensure_coherent [OF assms e]
  show ?thesis
  proof (cases "oc_heap st1 ob")
    case (Some en)
    have "coherent parse srv (occ_put ob (en\<lparr>oe_pending := oe_pending en @ [wanted], oe_pendingFlush := True\<rparr>) st1)"
      using c Some by (rule put_same_coherent) (simp add: same_claims_def)
    with e Some show ?thesis by (simp add: loadWindow_def Let_def)
  qed (use c e in \<open>simp add: loadWindow_def\<close>)
qed

lemma fold_coherent:
  "(\<And>x st. coherent parse srv st \<Longrightarrow> coherent parse srv (f x st)) \<Longrightarrow>
     coherent parse srv st \<Longrightarrow> coherent parse srv (fold f xs st)"
  by (induction xs arbitrary: st) auto

lemma flush_coherent:
  assumes "coherent parse srv st"
  shows "coherent parse srv (flush st)"
proof (cases "oc_flushes st")
  case (Cons ob rest)
  have c: "coherent parse srv (st\<lparr>oc_flushes := rest\<rparr>)" using assms by simp
  show ?thesis
  proof (cases "oc_heap st ob")
    case (Some e)
    have "coherent parse srv (occ_put ob (e\<lparr>oe_pending := [], oe_pendingFlush := False\<rparr>) (st\<lparr>oc_flushes := rest\<rparr>))"
      using c by (rule put_same_coherent [where e = e]) (simp_all add: Some same_claims_def)
    then have "coherent parse srv (run_batch ob (oe_pending e)
        (occ_put ob (e\<lparr>oe_pending := [], oe_pendingFlush := False\<rparr>) (st\<lparr>oc_flushes := rest\<rparr>)))"
      unfolding run_batch_def Let_def by (auto intro: fold_coherent runLoad_coherent)
    with Cons Some show ?thesis by (simp add: flush_def)
  qed (use Cons assms in \<open>simp add: flush_def\<close>)
qed (use assms in \<open>simp add: flush_def\<close>)

lemma reload_coherent:
  assumes "coherent parse srv st"
  shows "coherent parse srv (reload ob st)"
proof (cases "oc_heap st ob")
  case (Some e)
  have "coherent parse srv (occ_put ob (e\<lparr>oe_covered := []\<rparr>) st)"
    using assms Some by (rule put_same_coherent) (simp add: same_claims_def)
  with Some show ?thesis
    by (auto simp: reload_def Let_def split: option.split intro: loadWindow_coherent)
qed (use assms in \<open>simp add: reload_def\<close>)

text \<open>An answer: each fetch that awaited it reconciles its own entry.\<close>

lemma settle_load_fields [simp]:
  "oc_fetches (settle_load lc f failure ld st) = oc_fetches st"
  "oc_api (settle_load lc f failure ld st) = oc_api st"
  "oc_next (settle_load lc f failure ld st) = oc_next st"
  "oc_entries (settle_load lc f failure ld st) = oc_entries st"
  "oc_flushes (settle_load lc f failure ld st) = oc_flushes st"
  by (simp_all add: settle_load_def occ_modify_def occ_put_def Let_def split: option.split)

lemma load_results_claims:
  "same_claims e (load_failed err e)" "same_claims e (load_completed lc e)"
  by (simp_all add: same_claims_def load_failed_def load_completed_def republishOccurrences_def Let_def)

lemma settle_load_coherent:
  "coherent parse srv st \<Longrightarrow> coherent parse srv (settle_load lc f failure ld st)"
  by (simp add: settle_load_def Let_def load_results_claims modify_same_coherent split: option.split)

definition same_owner :: "occ_store \<Rightarrow> occ_store \<Rightarrow> bool" where
  "same_owner st st' \<longleftrightarrow> (\<forall>ob. map_option oe_dashboardId (oc_heap st' ob) = map_option oe_dashboardId (oc_heap st ob))"

lemma modify_owner: "(\<And>e. oe_dashboardId (f e) = oe_dashboardId e) \<Longrightarrow> same_owner st (occ_modify ob f st)"
  by (auto simp: same_owner_def occ_modify_def occ_put_def split: option.split)

lemma same_owner_trans: "same_owner a b \<Longrightarrow> same_owner b c \<Longrightarrow> same_owner a c"
  by (simp add: same_owner_def)

lemma same_owner_refl [simp]: "same_owner st st" "same_owner st (st\<lparr>oc_loads := lds\<rparr>)"
  "same_owner st (st\<lparr>oc_fetches := fs\<rparr>)" "same_owner st (st\<lparr>oc_api := api\<rparr>)"
  by (simp_all add: same_owner_def)

lemma settle_load_owner: "same_owner st (settle_load lc f failure ld st)"
proof -
  have "same_owner st (occ_modify ob (load_failed err) st)" "same_owner st (occ_modify ob (load_completed lc) st)"
    for ob err using load_results_claims by (auto intro!: modify_owner simp: same_claims_def)
  then show ?thesis by (simp add: settle_load_def Let_def split: option.split)
qed

lemma fold_owner: "(\<And>x st. same_owner st (f x st)) \<Longrightarrow> same_owner st (fold f xs st)"
  by (induction xs arbitrary: st) (auto intro: same_owner_trans)

lemma fetch_entry_dashboard [simp]: "oe_dashboardId (fetch_entry parse i reply e) = oe_dashboardId e"
  by (simp add: fetch_entry_def reconcile_def trim_def Let_def split: sum.split)

lemma settle_fetch_owner: "same_owner st (settle_fetch lc parse reply ft st)"
proof -
  obtain f t where ft: "ft = (f, t)" by force
  let ?st = "st\<lparr>oc_fetches := AList.delete f (oc_fetches st)\<rparr>"
  let ?m = "occ_modify (ft_object t) (fetch_entry parse (ft_interval t) reply) ?st"
  have a: "same_owner st ?m"
    by (rule same_owner_trans [OF _ modify_owner]) simp_all
  have b: "same_owner ?m (?m\<lparr>oc_loads := []\<rparr>)" by simp
  have c: "same_owner (?m\<lparr>oc_loads := []\<rparr>) (fold (settle_load lc f fl) (oc_loads ?m) (?m\<lparr>oc_loads := []\<rparr>))" for fl
    by (intro fold_owner settle_load_owner)
  show ?thesis unfolding settle_fetch_def Let_def ft prod.case
    by (rule same_owner_trans [OF a same_owner_trans [OF b c]])
qed

definition truthful ::
    "(string \<Rightarrow> int) \<Rightarrow> (string option \<Rightarrow> occurrence list) \<Rightarrow> occurrence list reply \<Rightarrow>
       (nat \<Rightarrow> occ_entry option) \<Rightarrow> occ_fetch \<Rightarrow> bool" where
  "truthful parse srv reply heap t \<longleftrightarrow> iv_start (ft_interval t) < iv_end (ft_interval t) \<and>
     (\<forall>e. heap (ft_object t) = Some e \<longrightarrow> (\<forall>rs. reply = Inr rs \<longrightarrow>
        rs = server_rows parse srv (api_dashboard (oe_dashboardId e)) (ft_interval t)))"

lemma truthful_owner:
  "truthful parse srv reply (oc_heap st) t \<Longrightarrow> same_owner st st' \<Longrightarrow> truthful parse srv reply (oc_heap st') t"
proof -
  assume t: "truthful parse srv reply (oc_heap st) t" and o': "same_owner st st'"
  have "\<exists>e0. oc_heap st (ft_object t) = Some e0 \<and> oe_dashboardId e = oe_dashboardId e0"
    if "oc_heap st' (ft_object t) = Some e" for e
  proof -
    have "map_option oe_dashboardId (oc_heap st' (ft_object t)) = map_option oe_dashboardId (oc_heap st (ft_object t))"
      using o' by (simp add: same_owner_def)
    with that show ?thesis by (cases "oc_heap st (ft_object t)") auto
  qed
  with t show ?thesis by (fastforce simp: truthful_def)
qed

lemma settle_fetch_coherent:
  assumes "server_ok parse srv" "coherent parse srv st" "truthful parse srv reply (oc_heap st) t"
  shows "coherent parse srv (settle_fetch lc parse reply (f, t) st)"
proof -
  let ?st = "st\<lparr>oc_fetches := AList.delete f (oc_fetches st)\<rparr>"
  have c: "coherent parse srv ?st" using assms(2)
    by (auto simp: coherent_def asked_def AList.delete_eq)
  have "coherent parse srv (occ_modify (ft_object t) (fetch_entry parse (ft_interval t) reply) ?st)"
  proof (cases "oc_heap st (ft_object t)")
    case (Some e)
    have t: "entry_true parse srv e" using coherent_entry [OF assms(2) Some] by simp
    have "entry_true parse srv (case reply of Inr rs \<Rightarrow> reconcile parse (ft_interval t) rs e | Inl _ \<Rightarrow> e)"
    proof (cases reply)
      case (Inr rs)
      with assms(3) Some have "set rs = {o' \<in> rows_of srv e. overlaps (occurrence_span parse o') (ft_interval t)}"
        "iv_start (ft_interval t) < iv_end (ft_interval t)"
        by (auto simp: truthful_def server_rows_def)
      with reconcile_true [OF assms(1) t] Inr show ?thesis by simp
    qed (simp add: t)
    then have "entry_true parse srv (fetch_entry parse (ft_interval t) reply e)"
      by (simp add: fetch_entry_def Let_def entry_true_def)
    with put_coherent [OF c, of "ft_object t" e] Some show ?thesis by (simp add: occ_modify_def)
  qed (use c in \<open>simp add: occ_modify_def\<close>)
  then show ?thesis unfolding settle_fetch_def Let_def prod.case
    by (intro fold_coherent settle_load_coherent) (simp_all only: coherent_loads)
qed

lemma settle_all_coherent:
  assumes "server_ok parse srv" "coherent parse srv st" "\<forall>p \<in> set fs. truthful parse srv reply (oc_heap st) (snd p)"
  shows "coherent parse srv (fold (settle_fetch lc parse reply) fs st)"
  using assms(2,3)
proof (induction fs arbitrary: st)
  case (Cons p fs)
  from Cons.prems(2) have p: "truthful parse srv reply (oc_heap st) (snd p)"
    and fs: "\<forall>p \<in> set fs. truthful parse srv reply (oc_heap st) (snd p)" by simp_all
  have "coherent parse srv (settle_fetch lc parse reply (fst p, snd p) st)"
    using assms(1) Cons.prems(1) p by (rule settle_fetch_coherent)
  then have c: "coherent parse srv (settle_fetch lc parse reply p st)" by simp
  have "\<forall>q \<in> set fs. truthful parse srv reply (oc_heap (settle_fetch lc parse reply p st)) (snd q)"
    using fs truthful_owner [OF _ settle_fetch_owner] by blast
  with Cons.IH [OF c] show ?case by simp
qed simp

lemma matched_fewer: "matched api heap t \<Longrightarrow> set api' \<subseteq> set api \<Longrightarrow> matched api' heap t"
  unfolding matched_def by (metis subsetD)

lemma coherent_fewer_calls:
  assumes "coherent parse srv st"
  shows "coherent parse srv (st\<lparr>oc_api := filter P (oc_api st)\<rparr>)"
proof -
  have "set (filter P (oc_api st)) \<subseteq> set (oc_api st)" by auto
  with assms have "asked (oc_fetches st) (filter P (oc_api st)) (oc_heap st) (oc_next st)"
    unfolding coherent_def asked_def by (metis matched_fewer)
  with assms show ?thesis by (simp add: coherent_def api_ok_def distinct_map_filter)
qed

lemma answer_of_matched:
  assumes "matched (oc_api st) (oc_heap st) t" "ft_api t = n" "n \<in> set (map snd (oc_api st))"
    and "oc_heap st (ft_object t) = Some e"
  shows "answer_of parse srv n st = server_rows parse srv (api_dashboard (oe_dashboardId e)) (ft_interval t)"
proof -
  have "find (\<lambda>p. snd p = n) (oc_api st) \<noteq> None" using assms(3) unfolding find_None_iff set_map image_iff by metis
  then obtain q where f: "find (\<lambda>p. snd p = n) (oc_api st) = Some q" by blast
  then have "q \<in> set (oc_api st)" "snd q = n" by (auto simp: find_Some_iff)
  with assms(1,2,4) have "fst q = (api_dashboard (oe_dashboardId e), ft_interval t)" by (auto simp: matched_def)
  with f show ?thesis by (cases q) (simp add: answer_of_def)
qed

lemma oc_heap_same_api: "oc_heap (st\<lparr>oc_api := api\<rparr>) = oc_heap st"
  by simp

lemma answer_coherent:
  assumes "server_ok parse srv" "coherent parse srv st" "\<forall>rs. reply = Inr rs \<longrightarrow> rs = answer_of parse srv n st"
  shows "coherent parse srv (occ_answer lc parse n reply st)"
proof (cases "n \<in> set (map snd (oc_api st))")
  case True
  let ?st = "st\<lparr>oc_api := filter (\<lambda>p. snd p \<noteq> n) (oc_api st)\<rparr>"
  have c: "coherent parse srv ?st" using assms(2) by (rule coherent_fewer_calls)
  have "truthful parse srv reply (oc_heap ?st) (snd p)"
    if "p \<in> set (filter (\<lambda>p. ft_api (snd p) = n) (oc_fetches st))" for p
  proof -
    from that assms(2) have p: "ft_api (snd p) = n" "matched (oc_api st) (oc_heap st) (snd p)"
      by (auto simp: coherent_def asked_def)
    have "iv_start (ft_interval (snd p)) < iv_end (ft_interval (snd p))" using p(2) by (simp add: matched_def)
    with answer_of_matched [OF p(2,1) True, of _ parse srv] assms(3) show ?thesis
      unfolding truthful_def oc_heap_same_api by blast
  qed
  with settle_all_coherent [OF assms(1) c] True show ?thesis by (simp add: occ_answer_def)
qed (use assms in \<open>simp add: occ_answer_def\<close>)

lemma mount_coherent: "coherent parse srv st \<Longrightarrow> coherent parse srv (mount_window d watcher wanted st)"
  using ensure_coherent [of parse srv st d]
  by (auto simp: mount_window_def same_claims_def split: prod.split
      intro!: loadWindow_coherent modify_same_coherent)

lemma refetch_coherent: "coherent parse srv st \<Longrightarrow> coherent parse srv (refetch_window d wanted st)"
  using ensure_coherent [of parse srv st d]
  by (auto simp: refetch_window_def same_claims_def split: prod.split
      intro!: loadWindow_coherent modify_same_coherent)

lemma unmount_coherent: "coherent parse srv st \<Longrightarrow> coherent parse srv (unmount_window ob watcher st)"
  by (simp add: unmount_window_def modify_same_coherent same_claims_def)

lemma honest_step_coherent:
  assumes "server_ok parse srv \<and> coherent parse srv st"
  shows "server_ok parse srv \<and> coherent parse srv (honest_step lc parse srv e st)"
proof (cases e)
  case (Answered n reply)
  with assms answer_coherent [of parse srv st _ n lc] show ?thesis by (cases reply) auto
next
  case (Render d)
  with assms ensure_coherent [of parse srv st d] show ?thesis by (cases "occ_ensureEntry d st") auto
next
  case InvalidateAllOccurrences
  with assms show ?thesis by (simp add: invalidateAllOccurrences_def fold_coherent reload_coherent)
next
  case (InvalidateOccurrences d)
  with assms show ?thesis by (simp add: invalidateOccurrences_def reload_coherent split: option.split)
qed (use assms in \<open>simp_all add: mount_coherent refetch_coherent unmount_coherent flush_coherent resetOccurrences_def\<close>)

interpretation occurrence_runs: event_machine "honest_step lc parse srv"
    "\<lambda>st. server_ok parse srv \<and> coherent parse srv st"
  by unfold_locales (rule honest_step_coherent)

text \<open>C37. What an occurrence cache claims to know, it knows: in every run against a server that keeps its
  rows, with mounts, refetches, invalidations, resets, failures and answers in any order, a window
  within one covered interval of an entry finds in the entry exactly the server's occurrences that
  overlap it. None is missing, however many requests the coverage was pieced together from, and none
  is left over.\<close>

theorem coverage_is_complete:
  assumes "server_ok parse srv"
    and "oc_heap (fold (honest_step lc parse srv) es empty_occ_store) ob = Some e"
    and "i \<in> set (oe_covered e)" and "iv_start i \<le> iv_start w" and "iv_end w \<le> iv_end i"
  shows "{o' \<in> snd ` set (oe_byKey e). overlaps (occurrence_span parse o') w} =
     {o' \<in> set (srv (api_dashboard (oe_dashboardId e))). overlaps (occurrence_span parse o') w}"
proof -
  have "coherent parse srv (fold (honest_step lc parse srv) es empty_occ_store)"
    using occurrence_runs.run_inv [of parse srv empty_occ_store lc es] assms(1) empty_coherent by simp
  from coherent_entry [OF this assms(2)] have t: "entry_true parse srv e" by simp
  have "o' \<in> snd ` set (oe_byKey e)" if "o' \<in> rows_of srv e" "overlaps (occurrence_span parse o') w" for o'
  proof -
    have "overlaps (occurrence_span parse o') i" using that(2) assms(4,5) by (auto simp: overlaps_def)
    with that(1) t assms(3) have "(occurrenceKey o', o') \<in> set (oe_byKey e)" by (auto simp: entry_true_def)
    then show ?thesis by force
  qed
  with t show ?thesis by (auto simp: entry_true_def)
qed

text \<open>A small server for the examples: dates are strings whose length is the instant.\<close>

definition unary :: "string \<Rightarrow> int" where
  "unary s = int (length s)"

definition meeting :: "string \<Rightarrow> string \<Rightarrow> string \<Rightarrow> occurrence" where
  "meeting i s e = \<lparr>o_event_id = i, o_original_start = s, o_title = i, o_occurrence_start = s,
     o_occurrence_end = e, o_all_day = False, o_recurring = False, o_is_exception = False, o_participants = []\<rparr>"

definition one_meeting :: "string option \<Rightarrow> occurrence list" where
  "one_meeting d = [meeting ''m'' ''t'' ''ttt'']"

lemma one_meeting_ok: "server_ok unary one_meeting"
  by (simp add: server_ok_def one_meeting_def meeting_def occurrence_span_def unary_def)

lemma coverage_is_complete_witness:
  "let st = fold (honest_step str_cmp unary one_meeting)
              [MountWindow None 0 (iv 0 10), Flush, Answered 1 (Inr [])] empty_occ_store
   in map_option oe_covered (oc_heap st 0) = Some [iv 0 10] \<and>
      (\<exists>e. oc_heap st 0 = Some e \<and>
         {o' \<in> snd ` set (oe_byKey e). overlaps (occurrence_span unary o') (iv 1 2)} = {meeting ''m'' ''t'' ''ttt''})"
proof -
  let ?st = "fold (honest_step str_cmp unary one_meeting)
      [MountWindow None 0 (iv 0 10), Flush, Answered 1 (Inr [])] empty_occ_store"
  have c: "map_option oe_covered (oc_heap ?st 0) = Some [iv 0 10]" by code_simp
  then obtain e where e: "oc_heap ?st 0 = Some e" "oe_covered e = [iv 0 10]" by auto
  have "{o' \<in> set (one_meeting d). overlaps (occurrence_span unary o') (iv 1 2)} = {meeting ''m'' ''t'' ''ttt''}" for d
    by (auto simp: one_meeting_def meeting_def occurrence_span_def unary_def overlaps_def)
  with coverage_is_complete [OF one_meeting_ok e(1), of "iv 0 10" "iv 1 2"] e c show ?thesis
    unfolding Let_def by auto
qed

section \<open>Where the cache loses an update\<close>

text \<open>An invalidation during a fetch is lost: the reload it starts joins the request already out, whose
  answer may predate the change, and once that old answer is in, the window counts as covered and no
  request is left to correct it.\<close>

theorem invalidation_during_fetch_is_lost:
  "let st = fold (occ_step str_cmp unary)
              [MountWindow None 0 (iv 0 10), Flush, InvalidateOccurrences None, Flush] empty_occ_store;
       later = occ_step str_cmp unary (Answered 1 (Inr [])) st
   in length (oc_api st) = 1 \<and> oc_api later = [] \<and> oc_flushes later = [] \<and>
      map_option oe_covered (oc_heap later 0) = Some [iv 0 10] \<and>
      map_option (shown_occurrences unary (iv 0 10)) (oc_heap later 0) = Some []"
  by code_simp

text \<open>A sign-out does not reach the API layer: a request of the session before is joined by the next
  session's first load of the same window, and its answer is shown there.\<close>

theorem next_session_joins_old_request:
  "let st = fold (occ_step str_cmp unary)
              [MountWindow None 0 (iv 0 10), Flush, ResetOccurrences, MountWindow None 1 (iv 0 10), Flush]
              empty_occ_store;
       later = occ_step str_cmp unary (Answered 1 (Inr [meeting ''theirs'' ''t'' ''ttt''])) st
   in length (oc_api st) = 1 \<and> oc_entries later = [(''personal'', 3)] \<and>
      map_option (\<lambda>e. map o_event_id (shown_occurrences unary (iv 0 10) e)) (oc_heap later 3) = Some [''theirs'']"
  by code_simp

text \<open>A half-failed load hides what it loaded: the gap that was answered counts as covered but is not
  published, and a later window inside it sends no request and publishes nothing, so its occurrences
  stay hidden behind the old error.\<close>

theorem answered_gap_stays_hidden:
  "let st = fold (occ_step str_cmp unary)
              [MountWindow None 0 (iv 10 20), Flush, Answered 1 (Inr []), UnmountWindow 0 0,
               MountWindow None 1 (iv 0 30), Flush, Answered 5 (Inl (OtherErr ''offline'')),
               Answered 3 (Inr [meeting ''m'' ''t'' ''ttt'']), UnmountWindow 0 1,
               MountWindow None 2 (iv 0 10), Flush] empty_occ_store
   in oc_api st = [] \<and> oc_flushes st = [] \<and>
      map_option (\<lambda>e. map fst (oe_byKey e)) (oc_heap st 0) = Some [''m|t''] \<and>
      map_option (shown_occurrences unary (iv 0 10)) (oc_heap st 0) = Some [] \<and>
      map_option (\<lambda>e. os_error (oe_state e)) (oc_heap st 0) = Some (Some ''offline'')"
  by code_simp

end
