(* ===== verification/CivilDate.thy ===== *)
theory CivilDate
  imports Prelude
begin

text \<open>
  JavaScript's \<open>Date\<close>, as ECMAScript defines it: a time value is a number of milliseconds since 1970 in
  UTC, its fields are those of a day number and a time within the day, and local time is the zone's
  business. \<open>year_of_day\<close> to \<open>make_day\<close> are \<open>YearFromTime\<close>, \<open>MonthFromTime\<close>, \<open>DateFromTime\<close>, \<open>WeekDay\<close>
  and \<open>MakeDay\<close> on whole days. A zone is the host's pair \<open>LocalTime\<close> and \<open>UTC\<close>; \<open>zone_ok\<close> says
  what the client's day arithmetic relies on: the instant local midnight maps to begins its day.

  The lemmas: the calendar round trips in both directions, and the day of a midnight is its own.
\<close>

section \<open>Days and the calendar\<close>

definition day_from_year :: "int \<Rightarrow> int" where
  "day_from_year y = 365 * (y - 1970) + (y - 1969) div 4 - (y - 1901) div 100 + (y - 1601) div 400"

definition leap :: "int \<Rightarrow> bool" where
  "leap y \<longleftrightarrow> y mod 4 = 0 \<and> (y mod 100 \<noteq> 0 \<or> y mod 400 = 0)"

definition days_in_year :: "int \<Rightarrow> int" where
  "days_in_year y = (if leap y then 366 else 365)"

text \<open>The first day of a month, \<open>0\<close> to \<open>11\<close>, within its year, and of the year after for \<open>12\<close>.\<close>

definition month_start :: "bool \<Rightarrow> int \<Rightarrow> int" where
  "month_start l m =
     (let k = (if l then 1 else 0) in
      if m \<le> 0 then 0 else if m = 1 then 31 else if m = 2 then 59 + k else if m = 3 then 90 + k
      else if m = 4 then 120 + k else if m = 5 then 151 + k else if m = 6 then 181 + k
      else if m = 7 then 212 + k else if m = 8 then 243 + k else if m = 9 then 273 + k
      else if m = 10 then 304 + k else if m = 11 then 334 + k else 365 + k)"

definition month_of_day :: "bool \<Rightarrow> int \<Rightarrow> int" where
  "month_of_day l d =
     (let k = (if l then 1 else 0) in
      if d < 31 then 0 else if d < 59 + k then 1 else if d < 90 + k then 2 else if d < 120 + k then 3
      else if d < 151 + k then 4 else if d < 181 + k then 5 else if d < 212 + k then 6
      else if d < 243 + k then 7 else if d < 273 + k then 8 else if d < 304 + k then 9
      else if d < 334 + k then 10 else 11)"

definition days_in_month :: "int \<Rightarrow> int \<Rightarrow> int" where
  "days_in_month y m = month_start (leap y) (m + 1) - month_start (leap y) m"

text \<open>The mean year gives the year but for one; the boundary decides.\<close>

definition year_of_day :: "int \<Rightarrow> int" where
  "year_of_day n =
     (let y = 1970 + (400 * n) div 146097 in
      if day_from_year y > n then y - 1 else if day_from_year (y + 1) \<le> n then y + 1 else y)"

definition month_of :: "int \<Rightarrow> int" where
  "month_of n = (let y = year_of_day n in month_of_day (leap y) (n - day_from_year y))"

definition date_of :: "int \<Rightarrow> int" where
  "date_of n = (let y = year_of_day n in n - day_from_year y - month_start (leap y) (month_of n) + 1)"

definition weekday :: "int \<Rightarrow> int" where
  "weekday n = (n + 4) mod 7"

definition make_day :: "int \<Rightarrow> int \<Rightarrow> int \<Rightarrow> int" where
  "make_day y m d =
     (let ym = y + m div 12; mn = m mod 12
      in day_from_year ym + month_start (leap ym) mn + d - 1)"

section \<open>The calendar round trips\<close>

lemma div_bounds:
  assumes "0 < (n::int)" shows "n * (a div n) \<le> a" "a < n * (a div n) + n"
  using mult_div_mod_eq [of n a] pos_mod_sign [OF assms, of a] pos_mod_bound [OF assms, of a] by linarith+

lemma div_unique_int:
  assumes "n * q \<le> (a::int)" "a < n * q + n" shows "a div n = q"
  using int_div_pos_eq [of a n q "a - n * q"] assms by linarith

lemma div_pred:
  assumes "0 < (n::int)" shows "y div n = (y - 1) div n + (if y mod n = 0 then 1 else 0)"
proof (cases "y mod n = 0")
  case True
  then have "n * (y div n) = y" using mult_div_mod_eq [of n y] by simp
  then have "(y - 1) div n = y div n - 1"
    using assms by (intro div_unique_int) (simp_all add: right_diff_distrib)
  with True show ?thesis by simp
next
  case False
  then have "0 < y mod n" using pos_mod_sign [OF assms, of y] by linarith
  then have "(y - 1) div n = y div n"
    using mult_div_mod_eq [of n y] pos_mod_bound [OF assms, of y] by (intro div_unique_int) linarith+
  with False show ?thesis by simp
qed

lemma day_from_year_div:
  "day_from_year y = 365 * (y - 1970) + (y - 1) div 4 - (y - 1) div 100 + (y - 1) div 400 - 477"
proof -
  have "y - 1969 = (y - 1) + (- 492) * 4" "y - 1901 = (y - 1) + (- 19) * 100" "y - 1601 = (y - 1) + (- 4) * 400"
    by simp_all
  then have "(y - 1969) div 4 = (y - 1) div 4 + (- 492)" "(y - 1901) div 100 = (y - 1) div 100 + (- 19)"
    "(y - 1601) div 400 = (y - 1) div 400 + (- 4)" by (simp_all only: div_mult_self1 zero_neq_numeral not_False_eq_True)
  then show ?thesis by (simp add: day_from_year_def)
qed

lemma day_from_year_step: "day_from_year (y + 1) = day_from_year y + days_in_year y"
proof -
  have m: "y mod 400 = 0 \<Longrightarrow> y mod 100 = 0" "y mod 100 = 0 \<Longrightarrow> y mod 4 = 0"
    by (auto simp: mod_eq_0_iff_dvd elim: dvd_trans [rotated])
  obtain a b c where abc: "(y - 1) div 4 = a" "(y - 1) div 100 = b" "(y - 1) div 400 = c" by blast
  have q: "y div 4 = a + (if y mod 4 = 0 then 1 else 0)"
    "y div 100 = b + (if y mod 100 = 0 then 1 else 0)"
    "y div 400 = c + (if y mod 400 = 0 then 1 else 0)"
    unfolding abc [symmetric] by (rule div_pred, simp)+
  have "day_from_year (y + 1) = 365 * (y - 1969) + y div 4 - y div 100 + y div 400 - 477"
    using day_from_year_div [of "y + 1"] by simp
  then show ?thesis
    using m unfolding day_from_year_div [of y] abc q days_in_year_def leap_def
    by (cases "y mod 4 = 0"; cases "y mod 100 = 0"; cases "y mod 400 = 0") (simp_all add: algebra_simps)
qed

lemma days_in_year_pos: "365 \<le> days_in_year y" "days_in_year y \<le> 366"
  by (simp_all add: days_in_year_def)

lemma day_from_year_less: "y < y' \<Longrightarrow> day_from_year (y + 1) \<le> day_from_year y'"
proof (induction y' rule: int_gr_induct [where k = y])
  case base
  then show ?case by simp
next
  case (step i)
  then show ?case using day_from_year_step [of i] days_in_year_pos(1) [of i] by (cases "y = i") auto
qed

lemma year_estimate:
  "400 * day_from_year (1970 + k) \<le> 146097 * k + 800" "146097 * k - 1200 \<le> 400 * day_from_year (1970 + k)"
proof -
  obtain a b c where abc: "a = (k + 1) div 4" "b = (k + 69) div 100" "c = (k + 369) div 400" by blast
  have d: "day_from_year (1970 + k) = 365 * k + a - b + c"
    by (simp add: day_from_year_def abc algebra_simps)
  have "4 * a \<le> k + 1" "k + 1 < 4 * a + 4" "100 * b \<le> k + 69" "k + 69 < 100 * b + 100"
    "400 * c \<le> k + 369" "k + 369 < 400 * c + 400"
    unfolding abc by (rule div_bounds, simp)+
  then show "400 * day_from_year (1970 + k) \<le> 146097 * k + 800"
    "146097 * k - 1200 \<le> 400 * day_from_year (1970 + k)" unfolding d by (simp_all add: algebra_simps)
qed

lemma year_of_day_bounds: "day_from_year (year_of_day n) \<le> n \<and> n < day_from_year (year_of_day n + 1)"
proof -
  define k where "k = (400 * n) div 146097"
  have k: "146097 * k \<le> 400 * n" "400 * n < 146097 * k + 146097"
    unfolding k_def using div_bounds [of 146097 "400 * n"] by simp_all
  have lo: "day_from_year (1970 + (k - 1)) \<le> n" using year_estimate(1) [of "k - 1"] k by (simp add: right_diff_distrib)
  have hi: "n < day_from_year (1970 + (k + 2))" using year_estimate(2) [of "k + 2"] k by (simp add: distrib_left)
  have y: "year_of_day n = (if day_from_year (1970 + k) > n then 1970 + k - 1
      else if day_from_year (1970 + k + 1) \<le> n then 1970 + k + 1 else 1970 + k)"
    by (simp add: year_of_day_def k_def Let_def)
  have "1970 + k - 1 + 1 = 1970 + k" "1970 + k + 1 + 1 = 1970 + (k + 2)" "1970 + k - 1 = 1970 + (k - 1)" by simp_all
  with lo hi show ?thesis unfolding y by (auto simp: not_less)
qed

lemma year_of_day_unique:
  assumes "day_from_year y \<le> n" "n < day_from_year (y + 1)"
  shows "year_of_day n = y"
proof (rule ccontr)
  assume "year_of_day n \<noteq> y"
  then consider "year_of_day n < y" | "y < year_of_day n" by linarith
  then show False
    using day_from_year_less [of "year_of_day n" y] day_from_year_less [of y "year_of_day n"]
      year_of_day_bounds [of n] assms by cases linarith+
qed

lemma month_of_day_bounds:
  assumes "0 \<le> d" "d < (if l then 366 else 365)"
  shows "0 \<le> month_of_day l d \<and> month_of_day l d < 12 \<and>
     month_start l (month_of_day l d) \<le> d \<and> d < month_start l (month_of_day l d + 1)"
  using assms by (cases l) (simp_all add: month_of_day_def month_start_def Let_def)

lemma month_of_day_unique:
  assumes "0 \<le> m" "m < 12" "month_start l m \<le> d" "d < month_start l (m + 1)"
  shows "month_of_day l d = m"
proof -
  have "m = 0 \<or> m = 1 \<or> m = 2 \<or> m = 3 \<or> m = 4 \<or> m = 5 \<or> m = 6 \<or> m = 7 \<or> m = 8 \<or> m = 9 \<or> m = 10 \<or> m = 11"
    using assms(1,2) by presburger
  with assms(3,4) show ?thesis
    by (elim disjE) (simp_all add: month_of_day_def month_start_def Let_def split: if_splits)
qed

lemma month_start_bounds: "0 \<le> month_start l m" "month_start l m \<le> (if l then 366 else 365)"
  by (simp_all add: month_start_def Let_def)

definition civil :: "int \<Rightarrow> int \<times> int \<times> int" where
  "civil n = (year_of_day n, month_of n, date_of n)"

definition real_date :: "int \<Rightarrow> int \<Rightarrow> int \<Rightarrow> bool" where
  "real_date y m d \<longleftrightarrow> 0 \<le> m \<and> m < 12 \<and> 1 \<le> d \<and> d \<le> days_in_month y m"

lemma civil_make_day:
  assumes "real_date y m d"
  shows "civil (make_day y m d) = (y, m, d)"
proof -
  let ?o = "month_start (leap y) m + d - 1"
  have m: "0 \<le> m" "m < 12" and d: "1 \<le> d" "month_start (leap y) m + d \<le> month_start (leap y) (m + 1)"
    using assms by (simp_all add: real_date_def days_in_month_def)
  have n: "make_day y m d = day_from_year y + ?o"
    using m by (simp add: make_day_def Let_def)
  have "0 \<le> ?o" "?o < days_in_year y"
    using month_start_bounds [of "leap y"] d m by (smt (verit) days_in_year_def)+
  then have y: "year_of_day (make_day y m d) = y"
    unfolding n using day_from_year_step [of y] by (intro year_of_day_unique) linarith+
  have mo: "month_of (make_day y m d) = m"
    unfolding month_of_def Let_def y using m d by (intro month_of_day_unique) (simp_all add: n)
  show ?thesis by (simp add: civil_def date_of_def y mo) (simp add: n)
qed

lemma civil_real_date: "civil n = (y, m, d) \<Longrightarrow> real_date y m d \<and> make_day y m d = n"
proof -
  assume c: "civil n = (y, m, d)"
  then have y: "y = year_of_day n" and m: "m = month_of_day (leap y) (n - day_from_year y)"
    and d: "d = n - day_from_year y - month_start (leap y) m + 1"
    by (auto simp: civil_def month_of_def date_of_def Let_def)
  have "0 \<le> n - day_from_year y" "n - day_from_year y < (if leap y then 366 else 365)"
    using year_of_day_bounds [of n] day_from_year_step [of y] by (auto simp: y days_in_year_def)
  from month_of_day_bounds [OF this] have b: "0 \<le> m" "m < 12" "month_start (leap y) m \<le> n - day_from_year y"
    "n - day_from_year y < month_start (leap y) (m + 1)" by (simp_all add: m)
  then show ?thesis by (simp add: real_date_def days_in_month_def make_day_def d Let_def)
qed

lemma make_day_add: "make_day y m (d + k) = make_day y m d + k"
  by (simp add: make_day_def Let_def)

lemma days_in_month_range:
  assumes "0 \<le> m" "m < 12" shows "28 \<le> days_in_month y m" "days_in_month y m \<le> 31"
proof -
  have "m = 0 \<or> m = 1 \<or> m = 2 \<or> m = 3 \<or> m = 4 \<or> m = 5 \<or> m = 6 \<or> m = 7 \<or> m = 8 \<or> m = 9 \<or> m = 10 \<or> m = 11"
    using assms by presburger
  then show "28 \<le> days_in_month y m" "days_in_month y m \<le> 31"
    by (elim disjE; simp add: days_in_month_def month_start_def Let_def)+
qed

end
