(* ===== verification/CalendarTime.thy ===== *)
theory CalendarTime
  imports CivilDate
begin

text \<open>
  The parts of \<open>Date\<close> and \<open>String\<close> the calendar uses. A \<open>Date\<close> is its time value, an \<open>int\<close>; an invalid one is
  \<open>None\<close> where the code can meet it. The zone and the parser's fallback belong to the host: \<open>h_local\<close> is
  \<open>LocalTime\<close>, \<open>h_utc\<close> is \<open>UTC\<close> and \<open>h_parse\<close> is \<open>Date.parse\<close> on the strings whose reading the standard leaves
  to it. The bound of 8.64e15 on a time value is not modelled.

  \<open>zone_ok\<close> states what a zone without a skipped day does: an instant is before the one local midnight
  maps to if and only if its local day is earlier, and \<open>UTC\<close> of a local time falls on that local day.

  The lemmas: reading a printed number gives it back, a local date-time string denotes the local minute
  it was printed from, and \<open>setDate\<close> moves the local day by whole days.
\<close>

section \<open>Numbers and pieces of strings\<close>

definition digit :: "nat \<Rightarrow> char" where
  "digit n = char_of (48 + n)"

definition is_digit :: "char \<Rightarrow> bool" where
  "is_digit c \<longleftrightarrow> 48 \<le> (of_char c :: nat) \<and> (of_char c :: nat) \<le> 57"

fun dec :: "nat \<Rightarrow> string" where
  "dec n = (if n < 10 then [digit n] else dec (n div 10) @ [digit (n mod 10)])"

declare dec.simps [simp del]

definition show_int :: "int \<Rightarrow> string" where
  "show_int i = (if i < 0 then CHR ''-'' # dec (nat (- i)) else dec (nat i))"

definition padStart :: "nat \<Rightarrow> string \<Rightarrow> string" where
  "padStart n s = replicate (n - length s) (CHR ''0'') @ s"

definition pad2 :: "int \<Rightarrow> string" where
  "pad2 i = padStart 2 (show_int i)"

definition digits_value :: "string \<Rightarrow> nat" where
  "digits_value s = foldl (\<lambda>n c. 10 * n + (of_char c - 48)) 0 s"

fun split_on :: "char \<Rightarrow> string \<Rightarrow> string list" where
  "split_on c [] = [[]]"
| "split_on c (x # xs) =
     (if x = c then [] # split_on c xs
      else case split_on c xs of [] \<Rightarrow> [[x]] | w # ws \<Rightarrow> (x # w) # ws)"

text \<open>\<open>Number\<close> on what a split date can hold: nothing, digits, or something that is not a number.\<close>

definition js_number :: "string \<Rightarrow> int option" where
  "js_number s = (if list_all is_digit s then Some (int (digits_value s)) else None)"

text \<open>The same on integers, for evaluation.\<close>

function dec_int :: "int \<Rightarrow> string" where
  "dec_int i = (if i < 10 then [char_of (48 + i)] else dec_int (i div 10) @ [char_of (48 + i mod 10)])"
  by auto

termination by (relation "measure nat") auto

declare dec_int.simps [simp del]

lemma dec_int_dec: "dec_int (int n) = dec n"
proof (induction n rule: dec.induct)
  case (1 n)
  have d: "char_of (48 + int m) = digit m" if "m < 10" for m
  proof (rule of_char_eqI [where 'a = int])
    have "of_char (digit m) = int (of_char (digit m))" by (rule of_nat_of_char [symmetric])
    also have "\<dots> = 48 + int m" using that by (simp add: digit_def)
    finally show "of_char (char_of (48 + int m)) = (of_char (digit m) :: int)" using that by simp
  qed
  show ?case
  proof (cases "n < 10")
    case True
    then show ?thesis using d [of n] by (subst dec_int.simps, subst dec.simps) simp
  next
    case False
    have "int n div 10 = int (n div 10)" "int n mod 10 = int (n mod 10)" by (simp_all add: of_nat_div of_nat_mod)
    with False 1 d [of "n mod 10"] show ?thesis by (subst dec_int.simps, subst dec.simps) simp
  qed
qed

lemma show_int_code [code]: "show_int i = (if i < 0 then CHR ''-'' # dec_int (- i) else dec_int i)"
  using dec_int_dec [of "nat i"] dec_int_dec [of "nat (- i)"] by (cases "i < 0") (simp_all add: show_int_def)

definition digits_int :: "string \<Rightarrow> int" where
  "digits_int s = foldl (\<lambda>n c. 10 * n + (of_char c - 48)) 0 s"

lemma of_char_int: "(of_char c :: int) = int (of_char c)"
  by (rule of_nat_of_char [symmetric])

lemma is_digit_code [code]: "is_digit c \<longleftrightarrow> 48 \<le> (of_char c :: int) \<and> (of_char c :: int) \<le> 57"
  by (simp add: is_digit_def of_char_int)

lemma digits_int_value: "list_all is_digit s \<Longrightarrow> int (digits_value s) = digits_int s"
proof (induction s rule: rev_induct)
  case (snoc c s)
  then have "int (of_char c - 48) = of_char c - 48" by (simp add: is_digit_def of_char_int)
  with snoc show ?case by (simp add: digits_value_def digits_int_def)
qed (simp add: digits_value_def digits_int_def)

lemma js_number_code [code]: "js_number s = (if list_all is_digit s then Some (digits_int s) else None)"
  by (simp add: js_number_def digits_int_value)

lemma of_char_digit [simp]: "n < 10 \<Longrightarrow> (of_char (digit n) :: nat) = 48 + n"
  by (simp add: digit_def)

lemma is_digit_digit [simp]: "n < 10 \<Longrightarrow> is_digit (digit n)"
  by (simp add: is_digit_def)

lemma digits_value_snoc [simp]: "digits_value (s @ [c]) = 10 * digits_value s + (of_char c - 48)"
  by (simp add: digits_value_def)

lemma dec_digits [simp]: "list_all is_digit (dec n)"
  by (induction n rule: dec.induct) (subst dec.simps, simp)

lemma digits_value_dec [simp]: "digits_value (dec n) = n"
proof (induction n rule: dec.induct)
  case (1 n)
  then show ?case by (subst dec.simps) (simp add: digits_value_def)
qed

lemma digits_value_zeros [simp]: "digits_value (replicate k (CHR ''0'') @ s) = digits_value s"
proof -
  have "foldl (\<lambda>n c. 10 * n + (of_char c - 48)) 0 (replicate k (CHR ''0'')) = (0::nat)"
    by (induction k) (simp_all add: of_char_def)
  then show ?thesis by (simp add: digits_value_def)
qed

lemma is_digit_zero [simp]: "is_digit (CHR ''0'')"
  by (simp add: is_digit_def)

lemma js_number_dec [simp]: "js_number (dec n) = Some (int n)"
  by (simp add: js_number_def)

lemma js_number_show_int: "0 \<le> i \<Longrightarrow> js_number (show_int i) = Some i"
  by (simp add: show_int_def)

lemma zeros_digits [simp]: "list_all is_digit (replicate k (CHR ''0''))"
  by (induction k) simp_all

lemma show_int_digits: "0 \<le> i \<Longrightarrow> list_all is_digit (show_int i)"
  by (simp add: show_int_def)

lemma pad2_digits: "0 \<le> i \<Longrightarrow> list_all is_digit (pad2 i)"
  by (simp add: pad2_def padStart_def show_int_digits)

lemma js_number_pad2: "0 \<le> i \<Longrightarrow> js_number (pad2 i) = Some i"
  by (simp add: pad2_def padStart_def js_number_def show_int_def)

lemma split_on_clean: "list_all (\<lambda>x. x \<noteq> c) s \<Longrightarrow> split_on c s = [s]"
  by (induction s) auto

lemma split_on_sep: "list_all (\<lambda>x. x \<noteq> c) s \<Longrightarrow> split_on c (s @ c # r) = s # split_on c r"
  by (induction s) auto

lemma digits_clean: "list_all is_digit s \<Longrightarrow> \<not> is_digit c \<Longrightarrow> list_all (\<lambda>x. x \<noteq> c) s"
  by (induction s) auto

lemma separators_not_digits [simp]: "\<not> is_digit (CHR ''-'')" "\<not> is_digit (CHR '':'')" "\<not> is_digit (CHR ''T'')"
  by (simp_all add: is_digit_def)

lemma length_dec:
  "n < 10 \<Longrightarrow> length (dec n) = 1" "10 \<le> n \<Longrightarrow> length (dec n) = length (dec (n div 10)) + 1"
  by (subst dec.simps, simp)+

lemma length_pad2: "0 \<le> i \<Longrightarrow> i < 100 \<Longrightarrow> length (pad2 i) = 2"
proof -
  assume i: "0 \<le> i" "i < 100"
  have "length (dec (nat i)) \<le> 2" using i length_dec [of "nat i"] length_dec(1) [of "nat i div 10"]
    by (cases "nat i < 10") auto
  with i show ?thesis by (simp add: pad2_def padStart_def show_int_def)
qed

lemma length_show_year: "1000 \<le> y \<Longrightarrow> y \<le> 9999 \<Longrightarrow> length (show_int y) = 4"
  using length_dec(2) [of "nat y"] length_dec(2) [of "nat y div 10"] length_dec(2) [of "nat y div 10 div 10"]
    length_dec(1) [of "nat y div 10 div 10 div 10"]
  by (auto simp: show_int_def div_mult2_eq [symmetric] nat_le_iff le_nat_iff)

section \<open>Time values, fields and setters\<close>

record host =
  h_local :: "int \<Rightarrow> int"
  h_utc :: "int \<Rightarrow> int"
  h_parse :: "string \<Rightarrow> int option"

definition MS_DAY :: int where
  "MS_DAY = 86400000"

definition local_day :: "host \<Rightarrow> int \<Rightarrow> int" where
  "local_day h t = h_local h t div MS_DAY"

definition local_ms :: "host \<Rightarrow> int \<Rightarrow> int" where
  "local_ms h t = h_local h t mod MS_DAY"

definition local_midnight :: "host \<Rightarrow> int \<Rightarrow> int" where
  "local_midnight h n = h_utc h (n * MS_DAY)"

definition zone_ok :: "host \<Rightarrow> bool" where
  "zone_ok h \<longleftrightarrow> (\<forall>n t. t < local_midnight h n \<longleftrightarrow> local_day h t < n) \<and>
     (\<forall>l. local_day h (h_utc h l) = l div MS_DAY)"

definition getFullYear :: "host \<Rightarrow> int \<Rightarrow> int" where
  "getFullYear h t = year_of_day (local_day h t)"

definition getMonth :: "host \<Rightarrow> int \<Rightarrow> int" where
  "getMonth h t = month_of (local_day h t)"

definition getDate :: "host \<Rightarrow> int \<Rightarrow> int" where
  "getDate h t = date_of (local_day h t)"

definition getDay :: "host \<Rightarrow> int \<Rightarrow> int" where
  "getDay h t = weekday (local_day h t)"

definition getHours :: "host \<Rightarrow> int \<Rightarrow> int" where
  "getHours h t = local_ms h t div 3600000"

definition getMinutes :: "host \<Rightarrow> int \<Rightarrow> int" where
  "getMinutes h t = local_ms h t div 60000 mod 60"

definition at_local :: "host \<Rightarrow> int \<Rightarrow> int \<Rightarrow> int" where
  "at_local h n x = h_utc h (n * MS_DAY + x)"

definition setDate :: "host \<Rightarrow> int \<Rightarrow> int \<Rightarrow> int" where
  "setDate h t d = at_local h (make_day (getFullYear h t) (getMonth h t) d) (local_ms h t)"

definition setMonth :: "host \<Rightarrow> int \<Rightarrow> int \<Rightarrow> int" where
  "setMonth h t m = at_local h (make_day (getFullYear h t) m (getDate h t)) (local_ms h t)"

definition setFullYear :: "host \<Rightarrow> int \<Rightarrow> int \<Rightarrow> int" where
  "setFullYear h t y = at_local h (make_day y (getMonth h t) (getDate h t)) (local_ms h t)"

text \<open>\<open>setHours(h, m, 0, 0)\<close>, \<open>setHours(h)\<close>, \<open>setMinutes(m)\<close> and \<open>setMinutes(m, 0, 0)\<close>.\<close>

definition setHoursMinutes :: "host \<Rightarrow> int \<Rightarrow> int \<Rightarrow> int \<Rightarrow> int" where
  "setHoursMinutes h t hr mi = at_local h (local_day h t) (hr * 3600000 + mi * 60000)"

definition setHours :: "host \<Rightarrow> int \<Rightarrow> int \<Rightarrow> int" where
  "setHours h t hr = at_local h (local_day h t) (hr * 3600000 + local_ms h t mod 3600000)"

definition setMinutes :: "host \<Rightarrow> int \<Rightarrow> int \<Rightarrow> int" where
  "setMinutes h t mi =
     at_local h (local_day h t) (getHours h t * 3600000 + mi * 60000 + local_ms h t mod 60000)"

definition setMinutesExact :: "host \<Rightarrow> int \<Rightarrow> int \<Rightarrow> int" where
  "setMinutesExact h t mi = at_local h (local_day h t) (getHours h t * 3600000 + mi * 60000)"

text \<open>\<open>new Date(y, m, d)\<close>, where a year of two digits is one of the twentieth century.\<close>

definition Date_new :: "host \<Rightarrow> int \<Rightarrow> int \<Rightarrow> int \<Rightarrow> int" where
  "Date_new h y m d =
     at_local h (make_day (if 0 \<le> y \<and> y \<le> 99 then 1900 + y else y) m d) 0"

lemma at_local_day:
  assumes "zone_ok h" "0 \<le> x" "x < MS_DAY" shows "local_day h (at_local h n x) = n"
proof -
  have "(n * MS_DAY + x) div MS_DAY = n"
    using assms by (intro div_unique_int) (simp_all add: MS_DAY_def)
  then show ?thesis using assms(1) by (simp add: zone_ok_def at_local_def)
qed

lemma local_ms_range [simp]: "0 \<le> local_ms h t" "local_ms h t < MS_DAY"
  by (simp_all add: local_ms_def MS_DAY_def)

lemma before_midnight: "zone_ok h \<Longrightarrow> t < local_midnight h n \<longleftrightarrow> local_day h t < n"
  by (simp add: zone_ok_def)

lemma local_midnight_at: "at_local h n 0 = local_midnight h n"
  by (simp add: at_local_def local_midnight_def)

lemma local_midnight_day: "zone_ok h \<Longrightarrow> local_day h (local_midnight h n) = n"
  using at_local_day [of h 0 n] by (simp add: local_midnight_at MS_DAY_def)

lemma date_fields: "real_date (getFullYear h t) (getMonth h t) (getDate h t)"
  "make_day (getFullYear h t) (getMonth h t) (getDate h t) = local_day h t"
  using civil_real_date [of "local_day h t"]
  by (simp_all add: civil_def getFullYear_def getMonth_def getDate_def)

lemma setDate_day: "zone_ok h \<Longrightarrow> local_day h (setDate h t d) = local_day h t + d - getDate h t"
  using make_day_add [of "getFullYear h t" "getMonth h t" "getDate h t" "d - getDate h t"] date_fields(2) [of h t]
  by (simp add: setDate_def at_local_day)

section \<open>Printing and reading instants\<close>

definition date_string :: "int \<Rightarrow> int \<Rightarrow> int \<Rightarrow> string" where
  "date_string y m d = show_int y @ CHR ''-'' # pad2 (m + 1) @ CHR ''-'' # pad2 d"

definition clock_string :: "int \<Rightarrow> string" where
  "clock_string x = pad2 (x div 3600000) @ CHR '':'' # pad2 (x div 60000 mod 60)"

text \<open>\<open>toISOString\<close>: years outside 0 to 9999 carry a sign and six digits.\<close>

definition toISOString :: "int \<Rightarrow> string" where
  "toISOString t =
     (let n = t div MS_DAY; x = t mod MS_DAY; y = year_of_day n;
          year = (if y < 0 then CHR ''-'' # padStart 6 (show_int (- y))
                  else if y \<le> 9999 then padStart 4 (show_int y)
                  else CHR ''+'' # padStart 6 (show_int y))
      in year @ CHR ''-'' # pad2 (month_of n + 1) @ CHR ''-'' # pad2 (date_of n) @ CHR ''T'' #
         clock_string x @ CHR '':'' # pad2 (x div 1000 mod 60) @ CHR ''.'' # padStart 3 (show_int (x mod 1000)) @ ''Z'')"

text \<open>
  \<open>new Date(text)\<close> on the formats the client writes: \<open>YYYY-MM-DD\<close>, which is UTC, and \<open>YYYY-MM-DDTHH:mm\<close>
  with or without seconds, which is local. Every other string is the host's.
\<close>

definition field_value :: "nat \<Rightarrow> string \<Rightarrow> int option" where
  "field_value k s = (if length s = k \<and> list_all is_digit s then Some (int (digits_value s)) else None)"

lemma field_value_code [code]:
  "field_value k s = (if length s = k \<and> list_all is_digit s then Some (digits_int s) else None)"
  by (simp add: field_value_def digits_int_value)

definition read_day :: "string \<Rightarrow> int option" where
  "read_day s =
     (case split_on (CHR ''-'') s of
        [y, m, d] \<Rightarrow>
          (case (field_value 4 y, field_value 2 m, field_value 2 d) of
             (Some y, Some m, Some d) \<Rightarrow>
               if real_date y (m - 1) d then Some (make_day y (m - 1) d) else None
           | _ \<Rightarrow> None)
      | _ \<Rightarrow> None)"

definition read_clock :: "string \<Rightarrow> int option" where
  "read_clock s =
     (case map (field_value 2) (split_on (CHR '':'') s) of
        [Some hr, Some mi] \<Rightarrow>
          if hr < 24 \<and> mi < 60 then Some (hr * 3600000 + mi * 60000) else None
      | [Some hr, Some mi, Some se] \<Rightarrow>
          if hr < 24 \<and> mi < 60 \<and> se < 60 then Some (hr * 3600000 + mi * 60000 + se * 1000) else None
      | _ \<Rightarrow> None)"

definition Date_parse :: "host \<Rightarrow> string \<Rightarrow> int option" where
  "Date_parse h s =
     (case split_on (CHR ''T'') s of
        [d] \<Rightarrow> (case read_day d of Some n \<Rightarrow> Some (n * MS_DAY) | None \<Rightarrow> h_parse h s)
      | [d, c] \<Rightarrow>
          (case (read_day d, read_clock c) of
             (Some n, Some x) \<Rightarrow> Some (at_local h n x)
           | _ \<Rightarrow> h_parse h s)
      | _ \<Rightarrow> h_parse h s)"

text \<open>The three numbers of a date written with dashes; a missing one is not a number.\<close>

definition date_numbers :: "string \<Rightarrow> int option \<times> int option \<times> int option" where
  "date_numbers s =
     (case map js_number (split_on (CHR ''-'') s) of
        y # m # d # _ \<Rightarrow> (y, m, d) | [y, m] \<Rightarrow> (y, m, None) | [y] \<Rightarrow> (y, None, None)
      | [] \<Rightarrow> (None, None, None))"

lemma split_date_string:
  assumes "0 \<le> y" "real_date y m d"
  shows "split_on (CHR ''-'') (date_string y m d) = [show_int y, pad2 (m + 1), pad2 d]"
proof -
  have "0 \<le> m + 1" "0 \<le> d" using assms by (simp_all add: real_date_def)
  then show ?thesis
    using assms(1) show_int_digits [of y] pad2_digits [of "m + 1"] pad2_digits [of d]
    by (simp add: date_string_def split_on_sep split_on_clean digits_clean)
qed

lemma date_numbers_date_string:
  assumes "0 \<le> y" "real_date y m d"
  shows "date_numbers (date_string y m d) = (Some y, Some (m + 1), Some d)"
  using assms by (simp add: date_numbers_def split_date_string js_number_show_int js_number_pad2 real_date_def)

lemma real_date_less: "real_date y m d \<Longrightarrow> d \<le> 31 \<and> m \<le> 11 \<and> 1 \<le> d \<and> 0 \<le> m"
  using days_in_month_range(2) [of m y] by (simp add: real_date_def)

lemma field_value_pad2: "0 \<le> i \<Longrightarrow> i < 100 \<Longrightarrow> field_value 2 (pad2 i) = Some i"
  using js_number_pad2 [of i] by (simp add: field_value_def length_pad2 js_number_def split: if_splits)

lemma field_value_year: "1000 \<le> y \<Longrightarrow> y \<le> 9999 \<Longrightarrow> field_value 4 (show_int y) = Some y"
  using js_number_show_int [of y] by (simp add: field_value_def length_show_year js_number_def split: if_splits)

lemma read_day_date_string:
  assumes "1000 \<le> y" "y \<le> 9999" "real_date y m d"
  shows "read_day (date_string y m d) = Some (make_day y m d)"
  using assms real_date_less [OF assms(3)]
  by (simp add: read_day_def split_date_string field_value_pad2 field_value_year)

lemma clock_range:
  assumes "0 \<le> x" "x < MS_DAY"
  shows "0 \<le> x div 3600000" "x div 3600000 < 24" "0 \<le> x div 60000 mod 60" "x div 60000 mod 60 < 60"
proof -
  show "0 \<le> x div 3600000" "0 \<le> x div 60000 mod 60" "x div 60000 mod 60 < 60" using assms by simp_all
  show "x div 3600000 < 24" using assms div_bounds(1) [of 3600000 x] by (simp add: MS_DAY_def)
qed

lemma minute_floor: "x div 3600000 * 3600000 + x div 60000 mod 60 * 60000 = x - x mod (60000::int)"
proof -
  obtain a b where ab: "x div 60000 div 60 = a" "x div 60000 mod 60 = b" by blast
  then have "x div 60000 = 60 * a + b" using mult_div_mod_eq [of 60 "x div 60000"] by simp
  moreover have "x div 3600000 = a" using zdiv_zmult2_eq [of 60 x 60000] ab by simp
  moreover have "x - x mod 60000 = x div 60000 * 60000" by (rule minus_mod_eq_div_mult)
  ultimately show ?thesis using ab by simp
qed

lemma split_clock:
  assumes "0 \<le> x" "x < MS_DAY"
  shows "split_on (CHR '':'') (clock_string x) = [pad2 (x div 3600000), pad2 (x div 60000 mod 60)]"
  using clock_range [OF assms] pad2_digits
  by (simp add: clock_string_def split_on_sep split_on_clean digits_clean)

lemma read_clock_string:
  assumes "0 \<le> x" "x < MS_DAY"
  shows "read_clock (clock_string x) = Some (x - x mod 60000)"
  using clock_range [OF assms] by (simp add: read_clock_def split_clock [OF assms] field_value_pad2 minute_floor)

lemma no_T:
  "0 \<le> y \<Longrightarrow> real_date y m d \<Longrightarrow> list_all (\<lambda>c. c \<noteq> CHR ''T'') (date_string y m d)"
  "0 \<le> x \<Longrightarrow> x < MS_DAY \<Longrightarrow> list_all (\<lambda>c. c \<noteq> CHR ''T'') (clock_string x)"
  using real_date_less [of y m d] digits_clean [OF show_int_digits, of y "CHR ''T''"]
    digits_clean [OF pad2_digits, of _ "CHR ''T''"] clock_range [of x]
  by (auto simp: date_string_def clock_string_def)

text \<open>A local date and clock written out denote the minute they name.\<close>

lemma Date_parse_local:
  assumes "1000 \<le> y" "y \<le> 9999" "real_date y m d" "0 \<le> x" "x < MS_DAY"
  shows "Date_parse h (date_string y m d @ CHR ''T'' # clock_string x)
     = Some (at_local h (make_day y m d) (x - x mod 60000))"
  using assms no_T(1) [of y m d] no_T(2) [of x]
  by (simp add: Date_parse_def split_on_sep split_on_clean read_day_date_string read_clock_string)

section \<open>Sample zones\<close>

text \<open>
  A zone with one change of offset at instant \<open>c\<close>. A local time the change skips, or one it repeats, is read
  with the offset before it, as the standard says.
\<close>

definition two_offsets :: "int \<Rightarrow> int \<Rightarrow> int \<Rightarrow> host" where
  "two_offsets c a b =
     \<lparr>h_local = (\<lambda>t. if t < c then t + a else t + b),
      h_utc = (\<lambda>l. if l < c + max a b then l - a else l - b), h_parse = (\<lambda>_. None)\<rparr>"

definition utc_zone :: host where
  "utc_zone = two_offsets 0 0 0"

text \<open>Santiago de Chile goes from UTC-4 to UTC-3 at the midnight that begins 7 September 2025 (day 20338).\<close>

definition santiago_spring :: host where
  "santiago_spring = two_offsets (20338 * 86400000 + 14400000) (- 14400000) (- 10800000)"

text \<open>New York goes from UTC-4 to UTC-5 at two in the morning of 2 November 2025 (day 20394).\<close>

definition new_york_autumn :: host where
  "new_york_autumn = two_offsets (20394 * 86400000 + 21600000) (- 14400000) (- 18000000)"

lemma div_less_iff: "l div MS_DAY < n \<longleftrightarrow> l < n * MS_DAY"
proof -
  obtain q where q: "l div MS_DAY = q" by blast
  then have "86400000 * q \<le> l" "l < 86400000 * q + 86400000"
    using div_bounds [of MS_DAY l] by (simp_all add: MS_DAY_def)
  then show ?thesis unfolding q by (simp add: MS_DAY_def) linarith
qed

lemma div_day: "n * 86400000 \<le> l \<Longrightarrow> l < n * 86400000 + 86400000 \<Longrightarrow> l div MS_DAY = n"
  unfolding MS_DAY_def by (rule div_unique_int) simp_all

lemma zone_ok_utc: "zone_ok utc_zone"
  by (auto simp: zone_ok_def utc_zone_def two_offsets_def local_day_def local_midnight_def div_less_iff)

lemma zone_ok_santiago: "zone_ok santiago_spring"
proof -
  have "t < local_midnight santiago_spring n \<longleftrightarrow> local_day santiago_spring t < n" for n t
    unfolding santiago_spring_def two_offsets_def local_day_def local_midnight_def div_less_iff MS_DAY_def
    by (cases "n \<le> 20338") auto
  moreover have "local_day santiago_spring (h_utc santiago_spring l) = l div MS_DAY" for l
  proof (cases "20338 * 86400000 \<le> l \<and> l < 20338 * 86400000 + 3600000")
    case True
    then have "l div MS_DAY = 20338" "(l + 3600000) div MS_DAY = 20338"
      using div_day [of 20338 l] div_day [of 20338 "l + 3600000"] by auto
    with True show ?thesis by (auto simp: santiago_spring_def two_offsets_def local_day_def add.commute)
  next
    case False
    then show ?thesis by (auto simp: santiago_spring_def two_offsets_def local_day_def)
  qed
  ultimately show ?thesis by (simp add: zone_ok_def)
qed

lemma zone_ok_new_york: "zone_ok new_york_autumn"
proof -
  have "t < local_midnight new_york_autumn n \<longleftrightarrow> local_day new_york_autumn t < n" for n t
    unfolding new_york_autumn_def two_offsets_def local_day_def local_midnight_def div_less_iff MS_DAY_def
    by (cases "n \<le> 20394") auto
  moreover have "local_day new_york_autumn (h_utc new_york_autumn l) = l div MS_DAY" for l
    by (auto simp: new_york_autumn_def two_offsets_def local_day_def)
  ultimately show ?thesis by (simp add: zone_ok_def)
qed

end
