(* ===== verification/CalendarGrid.thy ===== *)
theory CalendarGrid
  imports Contract CalendarTime
begin

text \<open>
  The calendar's day arithmetic (\<open>frontend/src/utils/calendar/calendarUtils.ts\<close>, \<open>parseCalendarDate.ts\<close>).
  A \<open>Date\<close> is its time value and the zone a \<open>host\<close>; \<open>parse\<close> reads a timestamp of the wire, which the
  response schema has validated. The three \<open>Intl.DateTimeFormat\<close> objects are a \<open>formats\<close> record.

  The lemmas: the month grid is 42 consecutive days from a Sunday and holds the whole month, the weeks in
  view drop none of its days, a day key names one day, and an occurrence is drawn on exactly the days from
  its start to the last instant it covers, provided each day's midnight exists.
\<close>

record formats =
  f_time :: "int \<Rightarrow> string"
  f_day :: "int \<Rightarrow> string"
  f_date_time :: "int \<Rightarrow> string"

datatype label_variant = FullLabel | CompactLabel

section \<open>Days\<close>

definition addDays :: "host \<Rightarrow> int \<Rightarrow> int \<Rightarrow> int" where
  "addDays h t days = setDate h t (getDate h t + days)"

definition startOfDay :: "host \<Rightarrow> int \<Rightarrow> int" where
  "startOfDay h t = setHoursMinutes h t 0 0"

definition startOfMonth :: "host \<Rightarrow> int \<Rightarrow> int" where
  "startOfMonth h t = Date_new h (getFullYear h t) (getMonth h t) 1"

definition startOfWeek :: "host \<Rightarrow> int \<Rightarrow> int" where
  "startOfWeek h t = (let next = startOfDay h t in addDays h next (- getDay h next))"

definition calendarWindow :: "host \<Rightarrow> int \<Rightarrow> string \<times> string" where
  "calendarWindow h t =
     (let gridStart = startOfWeek h (startOfMonth h t); gridEnd = addDays h gridStart 42
      in (toISOString gridStart, toISOString gridEnd))"

definition dateKey :: "host \<Rightarrow> int \<Rightarrow> string" where
  "dateKey h t = date_string (getFullYear h t) (getMonth h t) (getDate h t)"

definition monthGridDays :: "host \<Rightarrow> int \<Rightarrow> int list" where
  "monthGridDays h t =
     (let gridStart = startOfWeek h (startOfMonth h t) in map (\<lambda>i. addDays h gridStart (int i)) [0..<42])"

text \<open>The loop over \<open>end\<close>: week \<open>k\<close> is the slice that ends at \<open>7 * k\<close>.\<close>

fun weeks_until :: "host \<Rightarrow> int \<Rightarrow> int list \<Rightarrow> nat \<Rightarrow> int list" where
  "weeks_until h month days 0 = days"
| "weeks_until h month days (Suc k) =
     (if list_ex (\<lambda>d. getMonth h d = month) (take 7 (drop (7 * k) days)) then take (7 * Suc k) days
      else weeks_until h month days k)"

definition monthWeeksInView :: "host \<Rightarrow> int \<Rightarrow> int list" where
  "monthWeeksInView h t =
     (let days = monthGridDays h t in weeks_until h (getMonth h t) days (length days div 7))"

section \<open>Occurrences on days\<close>

definition occursOnDate :: "host \<Rightarrow> (string \<Rightarrow> int) \<Rightarrow> occurrence \<Rightarrow> int \<Rightarrow> bool" where
  "occursOnDate h parse oc day =
     (let start = parse (o_occurrence_start oc); end' = parse (o_occurrence_end oc);
          dayStart = startOfDay h day; dayEnd = addDays h dayStart 1
      in start < dayEnd \<and> end' > dayStart)"

definition lastCoveredDay :: "(string \<Rightarrow> int) \<Rightarrow> string \<Rightarrow> int" where
  "lastCoveredDay parse end' = parse end' - 1"

definition spansDays :: "host \<Rightarrow> (string \<Rightarrow> int) \<Rightarrow> string \<Rightarrow> string \<Rightarrow> bool" where
  "spansDays h parse start end' \<longleftrightarrow> dateKey h (parse start) \<noteq> dateKey h (lastCoveredDay parse end')"

definition isMultiDayOccurrence :: "host \<Rightarrow> (string \<Rightarrow> int) \<Rightarrow> occurrence \<Rightarrow> bool" where
  "isMultiDayOccurrence h parse oc = spansDays h parse (o_occurrence_start oc) (o_occurrence_end oc)"

definition occurrencesForDate ::
    "host \<Rightarrow> (string \<Rightarrow> int) \<Rightarrow> occurrence list \<Rightarrow> int \<Rightarrow> occurrence list" where
  "occurrencesForDate h parse occurrences day = filter (\<lambda>oc. occursOnDate h parse oc day) occurrences"

section \<open>Labels\<close>

definition formatOccurrenceTime ::
    "formats \<Rightarrow> (string \<Rightarrow> int) \<Rightarrow> string \<Rightarrow> string \<Rightarrow> bool \<Rightarrow> string" where
  "formatOccurrenceTime f parse start end' allDay =
     (if allDay then ''All day'' else f_time f (parse start) @ '' - '' @ f_time f (parse end'))"

definition formatOccurrenceSpan ::
    "host \<Rightarrow> formats \<Rightarrow> (string \<Rightarrow> int) \<Rightarrow> string \<Rightarrow> string \<Rightarrow> bool \<Rightarrow> string" where
  "formatOccurrenceSpan h f parse start end' allDay =
     (if \<not> spansDays h parse start end' then formatOccurrenceTime f parse start end' allDay
      else if allDay then f_day f (parse start) @ '' - '' @ f_day f (lastCoveredDay parse end')
      else f_date_time f (parse start) @ '' - '' @ f_date_time f (parse end'))"

definition formatCellTime ::
    "host \<Rightarrow> formats \<Rightarrow> (string \<Rightarrow> int) \<Rightarrow> string \<Rightarrow> label_variant \<Rightarrow> string" where
  "formatCellTime h f parse value variant =
     (if variant = CompactLabel then
        let d = parse value; h0 = getHours h d; m = getMinutes h d;
            ampm = (if h0 \<ge> 12 then ''PM'' else ''AM'');
            h' = (if h0 mod 12 = 0 then 12 else h0 mod 12)
        in if m = 0 then show_int h' @ ampm else show_int h' @ '':'' @ pad2 m @ ampm
      else f_time f (parse value))"

definition calendarOccurrenceCellPrefix ::
    "host \<Rightarrow> formats \<Rightarrow> (string \<Rightarrow> int) \<Rightarrow> occurrence \<Rightarrow> int \<Rightarrow> label_variant \<Rightarrow> string" where
  "calendarOccurrenceCellPrefix h f parse oc day variant =
     (let small = (variant = CompactLabel); dayId = dateKey h day in
      if o_all_day oc then (if small then '''' else ''All day'')
      else if \<not> isMultiDayOccurrence h parse oc then formatCellTime h f parse (o_occurrence_start oc) variant
      else if dayId = dateKey h (parse (o_occurrence_start oc))
        then (if small then ''Start'' else ''Starts'') @ '' '' @ formatCellTime h f parse (o_occurrence_start oc) variant
      else if dayId = dateKey h (lastCoveredDay parse (o_occurrence_end oc))
        then (if small then ''End'' else ''Ends'') @ '' '' @ formatCellTime h f parse (o_occurrence_end oc) variant
      else (if small then ''Cont.'' else ''Continues''))"

definition formatCalendarOccurrenceCellLabel ::
    "host \<Rightarrow> formats \<Rightarrow> (string \<Rightarrow> int) \<Rightarrow> occurrence \<Rightarrow> int \<Rightarrow> label_variant \<Rightarrow> string" where
  "formatCalendarOccurrenceCellLabel h f parse oc day variant =
     (let prefix = calendarOccurrenceCellPrefix h f parse oc day variant
      in if prefix \<noteq> [] then prefix @ '' '' @ o_title oc else o_title oc)"

definition formatCalendarOccurrenceCellTitle ::
    "host \<Rightarrow> formats \<Rightarrow> (string \<Rightarrow> int) \<Rightarrow> occurrence \<Rightarrow> int \<Rightarrow> string" where
  "formatCalendarOccurrenceCellTitle h f parse oc day =
     (if \<not> isMultiDayOccurrence h parse oc
      then o_title oc @ '': '' @
        formatOccurrenceTime f parse (o_occurrence_start oc) (o_occurrence_end oc) (o_all_day oc)
      else formatCalendarOccurrenceCellLabel h f parse oc day FullLabel @ '' ('' @
        formatOccurrenceSpan h f parse (o_occurrence_start oc) (o_occurrence_end oc) (o_all_day oc) @ '')'')"

definition formatEventCount :: "nat \<Rightarrow> string" where
  "formatEventCount n = dec n @ '' '' @ (if n = 1 then ''event'' else ''events'')"

section \<open>Input values\<close>

definition toLocalInputValue :: "host \<Rightarrow> int \<Rightarrow> string" where
  "toLocalInputValue h t = date_string (getFullYear h t) (getMonth h t) (getDate h t) @ CHR ''T'' #
     pad2 (getHours h t) @ CHR '':'' # pad2 (getMinutes h t)"

definition defaultLocalDateTime :: "host \<Rightarrow> int \<Rightarrow> int \<Rightarrow> string" where
  "defaultLocalDateTime h now hoursFromNow =
     (let date = setMinutesExact h now 0
      in toLocalInputValue h (setHours h date (getHours h date + hoursFromNow)))"

text \<open>\<open>new Date(year, month - 1, day)\<close> on numbers that may be missing, and a due date's label.\<close>

definition Date_of_numbers :: "host \<Rightarrow> int option \<times> int option \<times> int option \<Rightarrow> int option" where
  "Date_of_numbers h p =
     (case p of (Some y, Some m, Some d) \<Rightarrow> Some (Date_new h y (m - 1) d) | _ \<Rightarrow> None)"

definition formatCalendarDay :: "host \<Rightarrow> (int \<Rightarrow> string) \<Rightarrow> string \<Rightarrow> string" where
  "formatCalendarDay h month_day day =
     (case Date_of_numbers h (date_numbers day) of None \<Rightarrow> ''Invalid Date'' | Some t \<Rightarrow> month_day t)"

text \<open>\<open>parseCalendarDate\<close>: its pattern, then the check that the day was not normalised away.\<close>

definition day_pattern :: "string \<Rightarrow> bool" where
  "day_pattern s \<longleftrightarrow>
     (case split_on (CHR ''-'') s of
        [y, m, d] \<Rightarrow> list_all is_digit (y @ m @ d) \<and> length y = 4 \<and> length m = 2 \<and> length d = 2
      | _ \<Rightarrow> False)"

definition parseCalendarDate :: "host \<Rightarrow> int \<Rightarrow> string option \<Rightarrow> int" where
  "parseCalendarDate h now value =
     (case value of
        Some v \<Rightarrow>
          if v \<noteq> [] \<and> day_pattern v then
            (case Date_parse h (v @ ''T00:00:00'') of
               Some parsed \<Rightarrow> if dateKey h parsed = v then parsed else startOfDay h now
             | None \<Rightarrow> startOfDay h now)
          else startOfDay h now
      | None \<Rightarrow> startOfDay h now)"

section \<open>Day arithmetic\<close>

lemma startOfDay_midnight: "startOfDay h t = local_midnight h (local_day h t)"
  by (simp add: startOfDay_def setHoursMinutes_def local_midnight_at)

lemma startOfDay_day [simp]: "zone_ok h \<Longrightarrow> local_day h (startOfDay h t) = local_day h t"
  by (simp add: startOfDay_midnight local_midnight_day)

lemma addDays_day [simp]: "zone_ok h \<Longrightarrow> local_day h (addDays h t n) = local_day h t + n"
  by (simp add: addDays_def setDate_day)

definition month_first :: "host \<Rightarrow> int \<Rightarrow> int" where
  "month_first h t = make_day (getFullYear h t) (getMonth h t) 1"

definition month_days :: "host \<Rightarrow> int \<Rightarrow> int" where
  "month_days h t = days_in_month (getFullYear h t) (getMonth h t)"

definition grid_first :: "host \<Rightarrow> int \<Rightarrow> int" where
  "grid_first h t = month_first h t - weekday (month_first h t)"

lemma weekday_range: "0 \<le> weekday n" "weekday n < 7"
  by (simp_all add: weekday_def)

lemma weekday_back: "weekday (n - weekday n) = 0"
  unfolding weekday_def by presburger

lemma in_month_iff:
  "year_of_day n = getFullYear h t \<and> month_of n = getMonth h t \<longleftrightarrow>
     month_first h t \<le> n \<and> n < month_first h t + month_days h t"
proof -
  let ?y = "getFullYear h t" and ?m = "getMonth h t"
  have r: "0 \<le> ?m" "?m < 12" using date_fields(1) [of h t] by (simp_all add: real_date_def)
  show ?thesis
  proof (intro iffI conjI)
    assume a: "year_of_day n = ?y \<and> month_of n = ?m"
    then have "civil n = (?y, ?m, date_of n)" by (simp add: civil_def)
    from civil_real_date [OF this] show "month_first h t \<le> n" "n < month_first h t + month_days h t"
      using make_day_add [of ?y ?m 1 "date_of n - 1"]
      by (auto simp: month_first_def month_days_def real_date_def)
  next
    assume a: "month_first h t \<le> n \<and> n < month_first h t + month_days h t"
    let ?d = "1 + (n - month_first h t)"
    have "real_date ?y ?m ?d" using a r by (simp add: real_date_def month_days_def)
    moreover have "make_day ?y ?m ?d = n" using make_day_add [of ?y ?m 1 "n - month_first h t"] by (simp add: month_first_def)
    ultimately have "civil n = (?y, ?m, ?d)" using civil_make_day [of ?y ?m ?d] by simp
    then show "year_of_day n = ?y" "month_of n = ?m" by (simp_all add: civil_def)
  qed
qed

lemma month_days_range: "28 \<le> month_days h t" "month_days h t \<le> 31"
  using date_fields(1) [of h t] by (simp_all add: month_days_def days_in_month_range real_date_def)

lemma startOfMonth_day:
  assumes "zone_ok h" "100 \<le> getFullYear h t"
  shows "local_day h (startOfMonth h t) = month_first h t"
  using assms at_local_day [OF assms(1), of 0] by (simp add: startOfMonth_def Date_new_def month_first_def MS_DAY_def)

lemma gridStart_day:
  assumes "zone_ok h" "100 \<le> getFullYear h t"
  shows "local_day h (startOfWeek h (startOfMonth h t)) = grid_first h t"
  using assms by (simp add: startOfWeek_def Let_def getDay_def startOfMonth_day grid_first_def)

lemma monthGridDays_days:
  assumes "zone_ok h" "100 \<le> getFullYear h t"
  shows "map (local_day h) (monthGridDays h t) = map (\<lambda>i. grid_first h t + int i) [0..<42]"
  using assms by (simp add: monthGridDays_def Let_def gridStart_day del: upt_rec_numeral)

lemma monthGridDays_length [simp]: "length (monthGridDays h t) = 42"
  by (simp add: monthGridDays_def Let_def)

lemma upto_upt: "[a..a + int k - 1] = map (\<lambda>i. a + int i) [0..<k]"
  by (induction k) (simp_all add: upto_rec2)

text \<open>The month grid is 42 consecutive local days that begin on a Sunday and hold every day of the month.\<close>

theorem monthGridDays_exact:
  assumes "zone_ok h" "100 \<le> getFullYear h t"
  shows "map (local_day h) (monthGridDays h t) = [grid_first h t..grid_first h t + 41] \<and>
     weekday (grid_first h t) = 0 \<and>
     {n. year_of_day n = getFullYear h t \<and> month_of n = getMonth h t}
       \<subseteq> {grid_first h t..grid_first h t + 41}"
proof -
  have "[grid_first h t..grid_first h t + 41] = map (\<lambda>i. grid_first h t + int i) [0..<42]"
    using upto_upt [of "grid_first h t" 42] by (simp add: ac_simps)
  then show ?thesis
    using monthGridDays_days [OF assms] month_days_range [of h t] weekday_range [of "month_first h t"]
      weekday_back [of "month_first h t"]
    by (auto simp: in_month_iff grid_first_def simp del: upt_rec_numeral)
qed

lemma month_start_leap: "month_start l m \<le> month_start l' m + 1"
proof -
  have "m \<le> 0 \<or> m = 1 \<or> m = 2 \<or> m = 3 \<or> m = 4 \<or> m = 5 \<or> m = 6 \<or> m = 7 \<or> m = 8 \<or> m = 9 \<or> m = 10 \<or> m = 11 \<or> 12 \<le> m"
    by presburger
  then show ?thesis by (elim disjE) (simp_all add: month_start_def Let_def)
qed

lemma day_in_year:
  assumes "civil n = (y, m, d)"
  shows "n = day_from_year y + month_start (leap y) m + d - 1" "1 \<le> d" "d \<le> 31"
proof -
  have r: "real_date y m d" "make_day y m d = n" using civil_real_date [OF assms] by simp_all
  have m: "m div 12 = 0" "m mod 12 = m" using r(1) by (simp_all add: real_date_def)
  show "n = day_from_year y + month_start (leap y) m + d - 1"
    unfolding r(2) [symmetric] make_day_def Let_def m by simp
  show "1 \<le> d" "d \<le> 31" using real_date_less [OF r(1)] by simp_all
qed

lemma same_month_apart:
  assumes "month_of n = month_of n'" "year_of_day n < year_of_day n'"
  shows "n + 300 < n'"
proof -
  obtain y y' m d d' where c: "civil n = (y, m, d)" "civil n' = (y', m, d')" and y: "y < y'"
    using assms by (simp add: civil_def)
  show ?thesis
    using day_in_year [OF c(1)] day_in_year [OF c(2)] day_from_year_less [OF y] day_from_year_step [of y]
      days_in_year_pos(1) [of y] month_start_leap [of "leap y" m "leap y'"] by linarith
qed

lemma month_in_grid:
  assumes "grid_first h t \<le> n" "n \<le> grid_first h t + 41"
  shows "month_of n = getMonth h t \<longleftrightarrow> month_first h t \<le> n \<and> n < month_first h t + month_days h t"
proof
  assume m: "month_of n = getMonth h t"
  have f: "year_of_day (month_first h t) = getFullYear h t \<and> month_of (month_first h t) = getMonth h t"
    using in_month_iff [of "month_first h t" h t] month_days_range [of h t] by simp
  have "grid_first h t \<le> month_first h t" "month_first h t < grid_first h t + 7"
    using weekday_range [of "month_first h t"] by (simp_all add: grid_first_def)
  then have "\<not> n + 300 < month_first h t" "\<not> month_first h t + 300 < n" using assms by linarith+
  then have "\<not> year_of_day n < year_of_day (month_first h t)" "\<not> year_of_day (month_first h t) < year_of_day n"
    using same_month_apart [of n "month_first h t"] same_month_apart [of "month_first h t" n] f m by auto
  then have "year_of_day n = getFullYear h t" using f by linarith
  with m show "month_first h t \<le> n \<and> n < month_first h t + month_days h t" using in_month_iff [of n h t] by simp
qed (use in_month_iff [of n h t] in simp)

lemma week_slice:
  assumes "7 * k + 7 \<le> length xs"
  shows "list_ex P (take 7 (drop (7 * k) xs)) \<longleftrightarrow> (\<exists>i. 7 * k \<le> i \<and> i < 7 * k + 7 \<and> P (xs ! i))"
proof -
  have "list_ex P (take 7 (drop (7 * k) xs)) \<longleftrightarrow> (\<exists>j<7. P (xs ! (7 * k + j)))"
    using assms by (auto simp: list_ex_length)
  also have "\<dots> \<longleftrightarrow> (\<exists>i. 7 * k \<le> i \<and> i < 7 * k + 7 \<and> P (xs ! i))"
    by (metis le_add1 le_add_diff_inverse nat_add_left_cancel_less)
  finally show ?thesis .
qed

lemma weeks_until_last:
  assumes "l < length days" "getMonth h (days ! l) = m"
    "\<And>i. i < length days \<Longrightarrow> getMonth h (days ! i) = m \<Longrightarrow> i \<le> l"
  shows "7 * k \<le> length days \<Longrightarrow> l div 7 < k \<Longrightarrow> weeks_until h m days k = take (7 * Suc (l div 7)) days"
proof (induction k)
  case (Suc k)
  have s: "list_ex (\<lambda>d. getMonth h d = m) (take 7 (drop (7 * k) days)) \<longleftrightarrow>
      (\<exists>i. 7 * k \<le> i \<and> i < 7 * k + 7 \<and> getMonth h (days ! i) = m)"
    using Suc.prems by (intro week_slice) simp
  show ?case
  proof (cases "l div 7 = k")
    case True
    then have "7 * k \<le> l" "l < 7 * k + 7" by auto
    with s assms(2) True show ?thesis by auto
  next
    case False
    with Suc.prems have "l div 7 < k" by simp
    then have "l < 7 * k" by auto
    then have "\<not> list_ex (\<lambda>d. getMonth h d = m) (take 7 (drop (7 * k) days))"
    proof (unfold s, intro notI, elim exE conjE)
      fix i assume "7 * k \<le> i" "i < 7 * k + 7" "getMonth h (days ! i) = m"
      with assms(3) [of i] Suc.prems(1) \<open>l < 7 * k\<close> show False by simp
    qed
    with Suc.IH Suc.prems \<open>l div 7 < k\<close> show ?thesis by simp
  qed
qed simp

definition weeks_shown :: "host \<Rightarrow> int \<Rightarrow> int" where
  "weeks_shown h t = (weekday (month_first h t) + month_days h t + 6) div 7"

text \<open>The weeks in view are the grid up to the week of the month's last day: no day of the month is dropped
  and no week without one is kept.\<close>

theorem monthWeeksInView_exact:
  assumes "zone_ok h" "100 \<le> getFullYear h t"
  shows "map (local_day h) (monthWeeksInView h t) = [grid_first h t..grid_first h t + 7 * weeks_shown h t - 1] \<and>
     grid_first h t + 7 * weeks_shown h t - 7 < month_first h t + month_days h t \<and>
     month_first h t + month_days h t \<le> grid_first h t + 7 * weeks_shown h t"
proof -
  let ?G = "grid_first h t" and ?days = "monthGridDays h t"
  define l where "l = nat (weekday (month_first h t) + month_days h t - 1)"
  have l: "int l = weekday (month_first h t) + month_days h t - 1" and l42: "l < 42"
    using weekday_range [of "month_first h t"] month_days_range [of h t] by (simp_all add: l_def)
  have day: "local_day h (?days ! i) = ?G + int i" if "i < 42" for i
    using arg_cong [OF monthGridDays_days [OF assms], of "\<lambda>xs. xs ! i"] that by (simp del: upt_rec_numeral)
  have mon: "getMonth h (?days ! i) = getMonth h t \<longleftrightarrow> month_first h t \<le> ?G + int i \<and> i \<le> l" if "i < 42" for i
    using month_in_grid [of h t "?G + int i"] day [OF that] that l
    by (auto simp: getMonth_def grid_first_def)
  have "weeks_until h (getMonth h t) ?days 6 = take (7 * Suc (l div 7)) ?days"
    using l42 mon month_days_range [of h t] l
    by (intro weeks_until_last) (auto simp: grid_first_def)
  then have v: "monthWeeksInView h t = take (7 * Suc (l div 7)) ?days"
    by (simp add: monthWeeksInView_def Let_def)
  have w: "weeks_shown h t = int (Suc (l div 7))"
    using l by (simp add: weeks_shown_def zdiv_int)
  have le: "7 * Suc (l div 7) \<le> 42" using l42 by simp
  have "map (local_day h) (monthWeeksInView h t) = map (\<lambda>i. ?G + int i) [0..<7 * Suc (l div 7)]"
    unfolding v take_map [symmetric] monthGridDays_days [OF assms] using le by (simp add: take_map take_upt del: upt_rec_numeral)
  also have "\<dots> = [?G..?G + 7 * weeks_shown h t - 1]"
    unfolding w upto_upt [symmetric] by simp
  finally have 1: "map (local_day h) (monthWeeksInView h t) = [?G..?G + 7 * weeks_shown h t - 1]" .
  have "7 * (l div 7) \<le> l" "l < 7 * (l div 7) + 7" by simp_all
  then show ?thesis using 1 l w by (simp add: grid_first_def)
qed

section \<open>Day keys and occurrences\<close>

lemma dateKey_numbers:
  "0 \<le> getFullYear h t \<Longrightarrow>
     date_numbers (dateKey h t) = (Some (getFullYear h t), Some (getMonth h t + 1), Some (getDate h t))"
  by (simp add: dateKey_def date_numbers_date_string date_fields)

text \<open>A day key names one local day: two instants have the same key exactly when they fall on the same day.\<close>

theorem dateKey_names_the_day:
  assumes "0 \<le> getFullYear h t" "0 \<le> getFullYear h u"
  shows "dateKey h t = dateKey h u \<longleftrightarrow> local_day h t = local_day h u"
proof
  assume "dateKey h t = dateKey h u"
  then have "date_numbers (dateKey h t) = date_numbers (dateKey h u)" by simp
  then show "local_day h t = local_day h u"
    using dateKey_numbers [of h t] dateKey_numbers [of h u] assms date_fields(2) [of h t] date_fields(2) [of h u] by simp
qed (simp add: dateKey_def getFullYear_def getMonth_def getDate_def)

theorem dateKey_names_the_day_witness:
  "(dateKey utc_zone 0 = dateKey utc_zone 86399999) = (local_day utc_zone 0 = local_day utc_zone 86399999)"
  using dateKey_names_the_day [of utc_zone 0 86399999] by code_simp

lemma Date_of_dateKey:
  assumes "100 \<le> getFullYear h t"
  shows "Date_of_numbers h (date_numbers (dateKey h t)) = Some (startOfDay h t)"
  using assms date_fields(2) [of h t]
  by (simp add: dateKey_numbers Date_of_numbers_def Date_new_def local_midnight_at startOfDay_midnight)

lemma toLocalInputValue_eq:
  "toLocalInputValue h t = dateKey h t @ CHR ''T'' # clock_string (local_ms h t)"
  by (simp add: toLocalInputValue_def dateKey_def clock_string_def getHours_def getMinutes_def)

lemma Date_parse_input:
  assumes "1000 \<le> getFullYear h t" "getFullYear h t \<le> 9999"
  shows "Date_parse h (toLocalInputValue h t) =
     Some (at_local h (local_day h t) (local_ms h t - local_ms h t mod 60000))"
  using Date_parse_local [OF assms date_fields(1), of "local_ms h t" h]
  by (simp add: toLocalInputValue_eq dateKey_def date_fields(2))

lemma Date_parse_midnight:
  assumes "1000 \<le> getFullYear h t" "getFullYear h t \<le> 9999"
  shows "Date_parse h (dateKey h t @ ''T00:00:00'') = Some (startOfDay h t)"
proof -
  have c: "split_on (CHR ''T'') ''00:00:00'' = [''00:00:00'']" "read_clock ''00:00:00'' = Some 0" by code_simp+
  show ?thesis
    using assms no_T(1) [OF _ date_fields(1), of h t] read_day_date_string [OF assms date_fields(1)]
    by (simp add: Date_parse_def dateKey_def split_on_sep c date_fields(2) startOfDay_midnight local_midnight_at)
qed

lemma day_pattern_dateKey:
  assumes "1000 \<le> getFullYear h t" "getFullYear h t \<le> 9999"
  shows "day_pattern (dateKey h t)"
  using assms real_date_less [OF date_fields(1), of h t] split_date_string [OF _ date_fields(1), of h t]
  by (simp add: day_pattern_def dateKey_def show_int_digits pad2_digits length_pad2 length_show_year)

text \<open>C25. 
  Reading back a day key gives the local midnight of its day, whatever the time now, and reading anything
  gives either an instant with that key or the start of today.
\<close>

theorem parseCalendarDate_roundtrip:
  assumes "zone_ok h" "1000 \<le> getFullYear h t" "getFullYear h t \<le> 9999"
  shows "parseCalendarDate h now (Some (dateKey h t)) = startOfDay h t \<and>
     (parseCalendarDate h now (Some v) = startOfDay h now \<or> dateKey h (parseCalendarDate h now (Some v)) = v)"
proof -
  have "dateKey h (startOfDay h t) = dateKey h t"
    using assms(1) by (simp add: dateKey_def getFullYear_def getMonth_def getDate_def)
  moreover have "dateKey h t \<noteq> []" using day_pattern_dateKey [OF assms(2,3)] by (auto simp: day_pattern_def)
  ultimately have "parseCalendarDate h now (Some (dateKey h t)) = startOfDay h t"
    using assms by (simp add: parseCalendarDate_def day_pattern_dateKey Date_parse_midnight)
  then show ?thesis by (simp add: parseCalendarDate_def split: option.split)
qed

theorem parseCalendarDate_roundtrip_witness:
  "dateKey santiago_spring (20338 * 86400000 + 90000000) = ''2025-09-07'' \<and>
   parseCalendarDate santiago_spring 0 (Some (dateKey santiago_spring (20338 * 86400000 + 90000000)))
     = 20338 * 86400000 + 14400000"
  using parseCalendarDate_roundtrip [OF zone_ok_santiago, of "20338 * 86400000 + 90000000" 0 "[]"] by code_simp

lemma dayEnd_midnight:
  assumes "zone_ok h" "local_ms h (startOfDay h day) = 0"
  shows "addDays h (startOfDay h day) 1 = local_midnight h (local_day h day + 1)"
  using assms date_fields(2) [of h "startOfDay h day"]
    make_day_add [of "getFullYear h (startOfDay h day)" "getMonth h (startOfDay h day)" "getDate h (startOfDay h day)" 1]
  by (simp add: addDays_def setDate_def local_midnight_at)

text \<open>C16. 
  Where a day begins at midnight, an occurrence is drawn on it exactly when the day lies between the day of
  its start and the day of the last instant it covers: the days its span is written with.
\<close>

theorem occursOnDate_exact:
  assumes "zone_ok h" "local_ms h (startOfDay h day) = 0"
  shows "occursOnDate h parse oc day \<longleftrightarrow>
     local_day h (parse (o_occurrence_start oc)) \<le> local_day h day \<and>
     local_day h day \<le> local_day h (lastCoveredDay parse (o_occurrence_end oc))"
proof -
  let ?s = "parse (o_occurrence_start oc)" and ?e = "parse (o_occurrence_end oc)" and ?n = "local_day h day"
  have "?s < local_midnight h (?n + 1) \<longleftrightarrow> local_day h ?s \<le> ?n"
    using before_midnight [OF assms(1), of ?s "?n + 1"] by linarith
  moreover have "?e > local_midnight h ?n \<longleftrightarrow> ?n \<le> local_day h (?e - 1)"
    using before_midnight [OF assms(1), of "?e - 1" ?n] by linarith
  ultimately show ?thesis
    unfolding occursOnDate_def Let_def dayEnd_midnight [OF assms] by (simp add: startOfDay_midnight lastCoveredDay_def)
qed

definition sample_occurrence :: "string \<Rightarrow> string \<Rightarrow> occurrence" where
  "sample_occurrence a b = \<lparr>o_event_id = ''e'', o_original_start = a, o_title = ''x'', o_occurrence_start = a,
     o_occurrence_end = b, o_all_day = False, o_recurring = False, o_is_exception = False, o_participants = []\<rparr>"

text \<open>Four timestamps of the samples: 7 September 2025 22:00 UTC, then the instants three to seven hours later.\<close>

definition sample_parse :: "string \<Rightarrow> int" where
  "sample_parse s = (if s = ''a'' then 20338 * 86400000 + 79200000
     else if s = ''b'' then 20339 * 86400000 + 12600000
     else if s = ''c'' then 20339 * 86400000 + 16200000 else 0)"

theorem occursOnDate_exact_witness:
  "occursOnDate utc_zone sample_parse (sample_occurrence ''a'' ''b'') (20339 * 86400000)"
  using occursOnDate_exact [OF zone_ok_utc, of "20339 * 86400000" sample_parse "sample_occurrence ''a'' ''b''"]
  by code_simp

text \<open>
  Where the zone skips midnight the day after ends an hour late: an occurrence of 8 September from 00:30 to 01:30
  in Santiago is also drawn on the 7th, though its span is the one day.
\<close>

theorem skipped_midnight_draws_twice:
  "let oc = sample_occurrence ''b'' ''c''; seventh = 20338 * 86400000 + 54000000 in
   zone_ok santiago_spring \<and> dateKey santiago_spring seventh = ''2025-09-07'' \<and>
   dateKey santiago_spring (sample_parse ''b'') = ''2025-09-08'' \<and>
   \<not> isMultiDayOccurrence santiago_spring sample_parse oc \<and>
   occursOnDate santiago_spring sample_parse oc seventh \<and>
   occursOnDate santiago_spring sample_parse oc (seventh + 86400000)"
  unfolding Let_def by (intro conjI zone_ok_santiago; code_simp)

text \<open>The grid and the weeks in view at a month: September 2025 in Santiago.\<close>

definition september :: int where
  "september = 20338 * 86400000 + 54000000"

lemma september_values:
  "100 \<le> getFullYear santiago_spring september" "grid_first santiago_spring september = 20331"
  "weeks_shown santiago_spring september = 5"
  by code_simp+

theorem monthGridDays_exact_witness:
  "map (local_day santiago_spring) (monthGridDays santiago_spring september) = [20331..20372]"
  using monthGridDays_exact [OF zone_ok_santiago september_values(1)] by (simp add: september_values)

theorem monthWeeksInView_exact_witness:
  "map (local_day santiago_spring) (monthWeeksInView santiago_spring september) = [20331..20365]"
  using monthWeeksInView_exact [OF zone_ok_santiago september_values(1)] by (simp add: september_values)

end
