(* ===== verification/CalendarDraft.thy ===== *)
theory CalendarDraft
  imports Complex_Main CalendarGrid
begin

text \<open>
  The event editor's drafts (\<open>frontend/src/utils/calendar/calendarEditorDraftUtils.ts\<close> and
  \<open>calendarEditorDurationUtils.ts\<close>): from a stored event to the strings of the form and back. The strings of
  the form are read by \<open>Date_parse\<close>, so an input mid-edit is \<open>None\<close>, an invalid date; the timestamps of the
  wire by \<open>parse\<close>. \<open>Number\<close> on what a number field holds is the argument \<open>number\<close>, exact where JavaScript
  rounds to a double; \<open>fixed2 n d\<close> is \<open>(n / d).toFixed(2)\<close>.

  The lemmas: dates shifted by the days between them, all-day ends written and read back, and an event's
  draft turned into the update that leaves the event alone; with the two drafts that do not.
\<close>

datatype frequency = Daily | Weekly | Monthly | Yearly

type_synonym recurrence_mode = "frequency option"

record recurrence_rule =
  rr_frequency :: frequency
  rr_interval :: int
  rr_by_weekday :: "int list option"
  rr_count :: "int option"
  rr_until :: "string option"

record calendar_event =
  ce_id :: string
  ce_dashboard_id :: string
  ce_title :: string
  ce_description :: "string option"
  ce_location :: "string option"
  ce_starts_at :: string
  ce_ends_at :: string
  ce_all_day :: bool
  ce_recurrence :: "recurrence_rule option"
  ce_participants :: "participant list"

record editor_draft =
  dr_title :: string
  dr_description :: string
  dr_eventLocation :: string
  dr_startsAt :: string
  dr_endsAt :: string
  dr_allDay :: bool
  dr_recurrenceMode :: recurrence_mode
  dr_recurrenceInterval :: string
  dr_recurrenceWeekdays :: "int list"
  dr_recurrenceEndsOn :: string
  dr_participants :: "string list"

record event_update =
  eu_title :: string
  eu_description :: "string option"
  eu_location :: "string option"
  eu_starts_at :: string
  eu_ends_at :: string
  eu_timezone :: string
  eu_all_day :: bool
  eu_participants :: "string list"

section \<open>Weekdays\<close>

definition WEEKDAY_PICKER_OPTIONS :: "(string \<times> string \<times> int) list" where
  "WEEKDAY_PICKER_OPTIONS =
     [(''S'', ''Sun'', 6), (''M'', ''Mon'', 0), (''T'', ''Tue'', 1), (''W'', ''Wed'', 2),
      (''R'', ''Thu'', 3), (''F'', ''Fri'', 4), (''S'', ''Sat'', 5)]"

definition toMondayWeekday :: "int \<Rightarrow> int" where
  "toMondayWeekday jsDay = (jsDay + 6) mod 7"

fun join_comma :: "string list \<Rightarrow> string" where
  "join_comma [] = ''''"
| "join_comma [x] = x"
| "join_comma (x # xs) = x @ '', '' @ join_comma xs"

definition formatWeeklySelection :: "int list \<Rightarrow> string" where
  "formatWeeklySelection weekdays =
     (let selected = map (\<lambda>(_, name, _). name) (filter (\<lambda>(_, _, v). v \<in> set weekdays) WEEKDAY_PICKER_OPTIONS)
      in if selected \<noteq> [] then join_comma selected else ''the selected day'')"

definition num_order :: "int \<Rightarrow> int \<Rightarrow> int" where
  "num_order a b = a - b"

definition getInitialWeeklySelection ::
    "host \<Rightarrow> (string \<Rightarrow> int) \<Rightarrow> string \<Rightarrow> recurrence_rule option \<Rightarrow> int list" where
  "getInitialWeeklySelection h parse startsAt recurrence =
     (case recurrence of
        Some r \<Rightarrow>
          if rr_frequency r = Weekly then
            (case rr_by_weekday r of
               Some (d # ds) \<Rightarrow> js_sort num_order (rev (remdups (rev (d # ds))))
             | _ \<Rightarrow> [toMondayWeekday (getDay h (parse startsAt))])
          else []
      | None \<Rightarrow> [])"

definition getLocalInputWeekday :: "host \<Rightarrow> string \<Rightarrow> int option" where
  "getLocalInputWeekday h value =
     (case Date_parse h value of None \<Rightarrow> None | Some t \<Rightarrow> Some (toMondayWeekday (getDay h t)))"

definition syncWeeklySelectionWithStartDate ::
    "host \<Rightarrow> recurrence_mode \<Rightarrow> string \<Rightarrow> string \<Rightarrow> int list \<Rightarrow> int list" where
  "syncWeeklySelectionWithStartDate h mode previousStartsAt nextStartsAt weekdays =
     (if mode \<noteq> Some Weekly then weekdays
      else case getLocalInputWeekday h nextStartsAt of
        None \<Rightarrow> weekdays
      | Some next \<Rightarrow>
          if weekdays = [] then [next]
          else (case getLocalInputWeekday h previousStartsAt of
                  Some previous \<Rightarrow> if weekdays = [previous] then [next] else weekdays
                | None \<Rightarrow> weekdays))"

section \<open>Form values\<close>

definition toLocalDateTimeValue :: "host \<Rightarrow> int option \<Rightarrow> string" where
  "toLocalDateTimeValue h date =
     (case date of None \<Rightarrow> ''NaN-NaN-NaNTNaN:NaN'' | Some t \<Rightarrow> toLocalInputValue h t)"

definition toLocalDateTimeInput :: "host \<Rightarrow> (string \<Rightarrow> int) \<Rightarrow> string \<Rightarrow> string" where
  "toLocalDateTimeInput h parse value = toLocalInputValue h (parse value)"

definition toLocalDateInput :: "host \<Rightarrow> (string \<Rightarrow> int) \<Rightarrow> string \<Rightarrow> string" where
  "toLocalDateInput h parse value = dateKey h (parse value)"

definition toLocalDateValue :: "host \<Rightarrow> int option \<Rightarrow> string" where
  "toLocalDateValue h date = take 10 (toLocalDateTimeValue h date)"

definition createDefaultEventWindow :: "host \<Rightarrow> int \<Rightarrow> int option \<Rightarrow> string \<times> string" where
  "createDefaultEventWindow h now baseDate =
     (case baseDate of
        Some b \<Rightarrow>
          if dateKey h b = dateKey h now then (defaultLocalDateTime h now 1, defaultLocalDateTime h now 2)
          else (toLocalInputValue h (setHoursMinutes h b 9 0), toLocalInputValue h (setHoursMinutes h b 10 0))
      | None \<Rightarrow> (defaultLocalDateTime h now 1, defaultLocalDateTime h now 2))"

definition createDefaultCalendarEditorDraft :: "host \<Rightarrow> int \<Rightarrow> int option \<Rightarrow> editor_draft" where
  "createDefaultCalendarEditorDraft h now baseDate =
     (let (startsAt, endsAt) = createDefaultEventWindow h now baseDate in
      \<lparr>dr_title = '''', dr_description = '''', dr_eventLocation = '''', dr_startsAt = startsAt,
       dr_endsAt = endsAt, dr_allDay = False, dr_recurrenceMode = None, dr_recurrenceInterval = ''1'',
       dr_recurrenceWeekdays = [], dr_recurrenceEndsOn = '''', dr_participants = []\<rparr>)"

text \<open>One repetition further: \<open>setDate\<close>, \<open>setMonth\<close> and \<open>setFullYear\<close> carry an impossible day into the next month.\<close>

definition advance :: "host \<Rightarrow> frequency \<Rightarrow> int \<Rightarrow> int \<Rightarrow> int" where
  "advance h f interval t =
     (case f of
        Daily \<Rightarrow> setDate h t (getDate h t + interval)
      | Weekly \<Rightarrow> setDate h t (getDate h t + interval * 7)
      | Monthly \<Rightarrow> setMonth h t (getMonth h t + interval)
      | Yearly \<Rightarrow> setFullYear h t (getFullYear h t + interval))"

fun advance_times :: "host \<Rightarrow> frequency \<Rightarrow> int \<Rightarrow> nat \<Rightarrow> int \<Rightarrow> int" where
  "advance_times h f interval 0 t = t"
| "advance_times h f interval (Suc n) t = advance_times h f interval n (advance h f interval t)"

definition deriveRecurrenceEndDate :: "host \<Rightarrow> (string \<Rightarrow> int) \<Rightarrow> string \<Rightarrow> recurrence_rule \<Rightarrow> string" where
  "deriveRecurrenceEndDate h parse startsAt r =
     (if truthy (rr_until r) then toLocalDateInput h parse (the (rr_until r))
      else case rr_count r of
        None \<Rightarrow> ''''
      | Some n \<Rightarrow>
          if n \<le> 1 then ''''
          else dateKey h (advance_times h (rr_frequency r) (rr_interval r) (nat (n - 1)) (parse startsAt)))"

definition createCalendarEditorDraftFromEvent ::
    "host \<Rightarrow> (string \<Rightarrow> int) \<Rightarrow> calendar_event \<Rightarrow> editor_draft" where
  "createCalendarEditorDraftFromEvent h parse e =
     \<lparr>dr_title = ce_title e,
      dr_description = (case ce_description e of Some d \<Rightarrow> d | None \<Rightarrow> ''''),
      dr_eventLocation = (case ce_location e of Some l \<Rightarrow> l | None \<Rightarrow> ''''),
      dr_startsAt = toLocalDateTimeInput h parse (ce_starts_at e),
      dr_endsAt = toLocalDateTimeInput h parse (ce_ends_at e),
      dr_allDay = ce_all_day e,
      dr_recurrenceMode = map_option rr_frequency (ce_recurrence e),
      dr_recurrenceInterval = show_int (case ce_recurrence e of Some r \<Rightarrow> rr_interval r | None \<Rightarrow> 1),
      dr_recurrenceWeekdays = getInitialWeeklySelection h parse (ce_starts_at e) (ce_recurrence e),
      dr_recurrenceEndsOn =
        (case ce_recurrence e of Some r \<Rightarrow> deriveRecurrenceEndDate h parse (ce_starts_at e) r | None \<Rightarrow> ''''),
      dr_participants = map pt_user_id (ce_participants e)\<rparr>"

section \<open>Durations and moved dates\<close>

definition js_round :: "rat \<Rightarrow> int" where
  "js_round x = floor (x + 1 / 2)"

text \<open>\<open>getDurationMinutes\<close> of the duration utilities and \<open>getDurationMinutesValue\<close> of the draft ones.\<close>

definition getDurationMinutes :: "host \<Rightarrow> string \<Rightarrow> string \<Rightarrow> int option" where
  "getDurationMinutes h startsAt endsAt =
     (case (Date_parse h startsAt, Date_parse h endsAt) of
        (Some s, Some e) \<Rightarrow> if e \<le> s then None else Some ((e - s + 30000) div 60000)
      | _ \<Rightarrow> None)"

definition applyDateToDateTimeInput :: "host \<Rightarrow> string \<Rightarrow> int \<Rightarrow> string option" where
  "applyDateToDateTimeInput h value targetDate =
     (case Date_parse h value of
        None \<Rightarrow> None
      | Some c \<Rightarrow> Some (toLocalInputValue h (setHoursMinutes h targetDate (getHours h c) (getMinutes h c))))"

definition addMinutes :: "host \<Rightarrow> int \<Rightarrow> int \<Rightarrow> int" where
  "addMinutes h t n = setMinutes h t (getMinutes h t + n)"

definition syncCreateDraftToSelectedDate ::
    "host \<Rightarrow> int \<Rightarrow> int \<Rightarrow> string \<Rightarrow> string \<Rightarrow> recurrence_mode \<Rightarrow> int list
     \<Rightarrow> string \<times> string \<times> int list" where
  "syncCreateDraftToSelectedDate h now selectedDate startsAt endsAt mode weekdays =
     (let fallback = createDefaultCalendarEditorDraft h now (Some selectedDate);
          nextStartsAt = (case applyDateToDateTimeInput h startsAt selectedDate of
                            Some s \<Rightarrow> s | None \<Rightarrow> dr_startsAt fallback);
          duration = (case getDurationMinutes h startsAt endsAt of
                        Some n \<Rightarrow> n
                      | None \<Rightarrow> (case getDurationMinutes h (dr_startsAt fallback) (dr_endsAt fallback) of
                                  Some n \<Rightarrow> n | None \<Rightarrow> 60));
          nextEnd = (case Date_parse h nextStartsAt of None \<Rightarrow> None | Some s \<Rightarrow> Some (addMinutes h s duration))
      in (nextStartsAt, toLocalDateTimeValue h nextEnd,
          syncWeeklySelectionWithStartDate h mode startsAt nextStartsAt weekdays))"

definition shiftDateValue :: "host \<Rightarrow> string \<Rightarrow> int \<Rightarrow> string" where
  "shiftDateValue h date days =
     (case date_numbers date of (y, m, d) \<Rightarrow>
        toLocalDateValue h (Date_of_numbers h (y, m, map_option (\<lambda>d. d + days) d)))"

definition daysBetweenDateValues :: "host \<Rightarrow> string \<Rightarrow> string \<Rightarrow> int option" where
  "daysBetweenDateValues h from' to' =
     (case (Date_of_numbers h (date_numbers from'), Date_of_numbers h (date_numbers to')) of
        (Some f, Some t) \<Rightarrow> Some ((t - f + 43200000) div 86400000)
      | _ \<Rightarrow> None)"

definition inclusiveAllDayEndDate :: "host \<Rightarrow> string \<Rightarrow> string \<Rightarrow> string" where
  "inclusiveAllDayEndDate h startsAt endsAt =
     (let startDate = take 10 startsAt in
      case Date_parse h endsAt of
        None \<Rightarrow> startDate
      | Some e \<Rightarrow>
          let lastCoveredDate = toLocalDateValue h (Some (e - 1))
          in if day_pattern startDate \<and> str_less lastCoveredDate startDate then startDate else lastCoveredDate)"

definition exclusiveAllDayEnd :: "host \<Rightarrow> string \<Rightarrow> string" where
  "exclusiveAllDayEnd h inclusiveEndDate = shiftDateValue h inclusiveEndDate 1 @ ''T00:00''"

section \<open>Recurrence texts\<close>

text \<open>\<open>Math.max(1, Number(value) || 1)\<close>; the setters drop the fraction of what they are given.\<close>

definition interval_number :: "(string \<Rightarrow> rat option) \<Rightarrow> string \<Rightarrow> rat" where
  "interval_number number value =
     max 1 (case number value of Some q \<Rightarrow> if q = 0 then 1 else q | None \<Rightarrow> 1)"

definition overlap_text :: string where
  "overlap_text = ''This event lasts longer than the repeat interval, so repeated occurrences will overlap each other.''"

definition getRecurringOverlapWarning ::
    "host \<Rightarrow> (string \<Rightarrow> rat option) \<Rightarrow> string \<Rightarrow> string \<Rightarrow> recurrence_mode \<Rightarrow> string \<Rightarrow> string option" where
  "getRecurringOverlapWarning h number startsAt endsAt mode intervalValue =
     (let interval = interval_number number intervalValue in
      case (Date_parse h startsAt, Date_parse h endsAt) of
        (Some start, Some end') \<Rightarrow>
          if end' \<le> start then None
          else (case mode of
                  None \<Rightarrow> None
                | Some f \<Rightarrow>
                    let nextStart =
                      (case f of
                         Daily \<Rightarrow> setDate h start (floor (of_int (getDate h start) + interval))
                       | Weekly \<Rightarrow> setDate h start (floor (of_int (getDate h start) + interval * 7))
                       | Monthly \<Rightarrow> setMonth h start (floor (of_int (getMonth h start) + interval))
                       | Yearly \<Rightarrow> setFullYear h start (floor (of_int (getFullYear h start) + interval)))
                    in if end' \<le> nextStart then None else Some overlap_text)
      | _ \<Rightarrow> None)"

definition repeatUnitLabel :: "recurrence_mode \<Rightarrow> rat \<Rightarrow> string" where
  "repeatUnitLabel mode interval =
     (let plural = (if interval = 1 then '''' else ''s'') in
      case mode of
        Some Daily \<Rightarrow> ''day'' @ plural | Some Weekly \<Rightarrow> ''week'' @ plural
      | Some Monthly \<Rightarrow> ''month'' @ plural | Some Yearly \<Rightarrow> ''year'' @ plural
      | None \<Rightarrow> ''time'')"

section \<open>The update\<close>

text \<open>\<open>toISOString\<close> throws on an invalid date: \<open>None\<close>.\<close>

definition toRecurrenceUntilIso :: "host \<Rightarrow> string \<Rightarrow> string option" where
  "toRecurrenceUntilIso h value = map_option toISOString (Date_parse h (value @ ''T23:59:59''))"

definition non_empty :: "string \<Rightarrow> string option" where
  "non_empty s = (if s = [] then None else Some s)"

definition buildEventUpdateFromDraft :: "host \<Rightarrow> editor_draft \<Rightarrow> string \<Rightarrow> event_update option" where
  "buildEventUpdateFromDraft h draft timezone =
     (case (Date_parse h (dr_startsAt draft), Date_parse h (dr_endsAt draft)) of
        (Some s, Some e) \<Rightarrow>
          Some \<lparr>eu_title = js_trim (dr_title draft),
                eu_description = non_empty (js_trim (dr_description draft)),
                eu_location = non_empty (js_trim (dr_eventLocation draft)),
                eu_starts_at = toISOString s, eu_ends_at = toISOString e, eu_timezone = timezone,
                eu_all_day = dr_allDay draft, eu_participants = dr_participants draft\<rparr>
      | _ \<Rightarrow> None)"

section \<open>The duration control\<close>

datatype duration_unit = Minutes | Hours | Days

definition inferDurationUnit :: "host \<Rightarrow> string \<Rightarrow> string \<Rightarrow> duration_unit" where
  "inferDurationUnit h startsAt endsAt =
     (case getDurationMinutes h startsAt endsAt of
        None \<Rightarrow> Hours
      | Some n \<Rightarrow> if n mod (60 * 24) = 0 then Days else if n mod 60 = 0 then Hours else Minutes)"

text \<open>\<open>value.replace(/\.?0+$/, '')\<close>: the zeros at the end, and the point before them.\<close>

definition trimTrailingZeroes :: "string \<Rightarrow> string" where
  "trimTrailingZeroes s =
     (let r = dropWhile (\<lambda>c. c = CHR ''0'') (rev s)
      in if length r < length s \<and> r \<noteq> [] \<and> hd r = CHR ''.'' then rev (tl r) else rev r)"

definition formatDurationValue :: "(int \<Rightarrow> int \<Rightarrow> string) \<Rightarrow> int option \<Rightarrow> duration_unit \<Rightarrow> string" where
  "formatDurationValue fixed2 minutes unit =
     (case minutes of
        None \<Rightarrow> ''''
      | Some n \<Rightarrow>
          (case unit of
             Minutes \<Rightarrow> show_int n
           | Hours \<Rightarrow> trimTrailingZeroes (fixed2 n 60)
           | Days \<Rightarrow> trimTrailingZeroes (fixed2 n (60 * 24))))"

definition getDurationStep :: "duration_unit \<Rightarrow> rat" where
  "getDurationStep unit = (if unit = Minutes then 15 else if unit = Hours then 1 / 4 else 1 / 4)"

definition getMinimumDurationValue :: "duration_unit \<Rightarrow> rat" where
  "getMinimumDurationValue unit = (if unit = Minutes then 15 else 1 / 4)"

definition toDurationMinutes :: "rat \<Rightarrow> duration_unit \<Rightarrow> int" where
  "toDurationMinutes value unit =
     (if unit = Minutes then js_round value else if unit = Hours then js_round (value * 60)
      else js_round (value * 60 * 24))"

definition stepDurationMinutes :: "int option \<Rightarrow> duration_unit \<Rightarrow> int \<Rightarrow> int" where
  "stepDurationMinutes durationMinutes unit delta =
     (let minimum = toDurationMinutes (getMinimumDurationValue unit) unit;
          step = toDurationMinutes (getDurationStep unit) unit
      in max minimum ((case durationMinutes of Some n \<Rightarrow> n | None \<Rightarrow> minimum) + delta * step))"

definition parseDurationValue :: "(string \<Rightarrow> rat option) \<Rightarrow> string \<Rightarrow> duration_unit \<Rightarrow> int option" where
  "parseDurationValue number value unit =
     (if js_trim value = [] then None
      else case number (js_trim value) of
        None \<Rightarrow> None
      | Some q \<Rightarrow> if q \<le> 0 then None else Some (toDurationMinutes q unit))"

section \<open>Dates of the all-day inputs\<close>

lemma dateKey_length:
  assumes "1000 \<le> getFullYear h t" "getFullYear h t \<le> 9999"
  shows "length (dateKey h t) = 10"
  using assms real_date_less [OF date_fields(1), of h t]
  by (simp add: dateKey_def date_string_def length_show_year length_pad2)

lemma toLocalDateValue_key:
  assumes "1000 \<le> getFullYear h t" "getFullYear h t \<le> 9999"
  shows "toLocalDateValue h (Some t) = dateKey h t"
  using dateKey_length [OF assms] by (simp add: toLocalDateValue_def toLocalDateTimeValue_def toLocalInputValue_eq)

definition key_of_day :: "int \<Rightarrow> string" where
  "key_of_day n = date_string (year_of_day n) (month_of n) (date_of n)"

lemma dateKey_day: "dateKey h t = key_of_day (local_day h t)"
  by (simp add: dateKey_def key_of_day_def getFullYear_def getMonth_def getDate_def)

definition four_digit_day :: "int \<Rightarrow> bool" where
  "four_digit_day n \<longleftrightarrow> 1000 \<le> year_of_day n \<and> year_of_day n \<le> 9999"

lemma four_digit_local:
  "four_digit_day (local_day h t) \<longleftrightarrow> 1000 \<le> getFullYear h t \<and> getFullYear h t \<le> 9999"
  by (simp add: four_digit_day_def getFullYear_def)

lemma civil_day: "real_date (year_of_day n) (month_of n) (date_of n)"
  "make_day (year_of_day n) (month_of n) (date_of n) = n"
  using civil_real_date [of n] by (simp_all add: civil_def)

lemma numbers_of_key:
  "four_digit_day n \<Longrightarrow> date_numbers (key_of_day n) = (Some (year_of_day n), Some (month_of n + 1), Some (date_of n))"
  by (simp add: key_of_day_def date_numbers_date_string civil_day four_digit_day_def)

lemma Date_of_key:
  "four_digit_day n \<Longrightarrow> Date_of_numbers h (date_numbers (key_of_day n)) = Some (local_midnight h n)"
  by (simp add: numbers_of_key Date_of_numbers_def Date_new_def local_midnight_at civil_day four_digit_day_def)

lemma shiftDateValue_key:
  assumes "zone_ok h" "four_digit_day n" "four_digit_day (n + k)"
  shows "shiftDateValue h (key_of_day n) k = key_of_day (n + k)"
proof -
  have "Date_of_numbers h (Some (year_of_day n), Some (month_of n + 1), Some (date_of n + k)) = Some (local_midnight h (n + k))"
    using assms(2) make_day_add [of "year_of_day n" "month_of n" "date_of n" k]
    by (simp add: Date_of_numbers_def Date_new_def local_midnight_at civil_day four_digit_day_def)
  then show ?thesis
    using assms toLocalDateValue_key [of h "local_midnight h (n + k)"] four_digit_local [of h "local_midnight h (n + k)"]
    by (simp add: shiftDateValue_def numbers_of_key dateKey_day local_midnight_day)
qed

text \<open>Midnights a day apart to within half a day: a zone whose offsets lie within twelve hours of each other.\<close>

definition even_midnights :: "host \<Rightarrow> int \<Rightarrow> int \<Rightarrow> bool" where
  "even_midnights h n n' \<longleftrightarrow>
     \<bar>(local_midnight h n' - local_midnight h n) - (n' - n) * MS_DAY\<bar> < 43200000"

lemma round_days: "\<bar>x - k * MS_DAY\<bar> < 43200000 \<Longrightarrow> (x + 43200000) div 86400000 = k"
  by (rule div_unique_int) (simp_all add: MS_DAY_def)

lemma daysBetween_key:
  assumes "four_digit_day n" "four_digit_day n'" "even_midnights h n n'"
  shows "daysBetweenDateValues h (key_of_day n) (key_of_day n') = Some (n' - n)"
  using assms round_days by (simp add: daysBetweenDateValues_def Date_of_key even_midnights_def)

text \<open>A date value shifted by the days between it and another is that other one.\<close>

theorem shift_by_days_between:
  assumes "zone_ok h" "four_digit_day n" "four_digit_day n'" "even_midnights h n n'"
  shows "map_option (shiftDateValue h (key_of_day n)) (daysBetweenDateValues h (key_of_day n) (key_of_day n'))
     = Some (key_of_day n')"
  using assms shiftDateValue_key [of h n "n' - n"] by (simp add: daysBetween_key)

theorem shift_by_days_between_witness:
  "daysBetweenDateValues new_york_autumn ''2025-10-31'' ''2025-11-03'' = Some 3 \<and>
   shiftDateValue new_york_autumn ''2025-10-31'' 3 = ''2025-11-03''"
proof -
  have k: "key_of_day 20392 = ''2025-10-31''" "key_of_day 20395 = ''2025-11-03''"
    "four_digit_day 20392" "four_digit_day 20395" "even_midnights new_york_autumn 20392 20395"
    "daysBetweenDateValues new_york_autumn ''2025-10-31'' ''2025-11-03'' = Some 3" by code_simp+
  show ?thesis using shift_by_days_between [OF zone_ok_new_york k(3-5)] by (simp add: k)
qed

lemma midnight_less: "zone_ok h \<Longrightarrow> local_midnight h n < local_midnight h (n + 1)"
  by (simp add: before_midnight local_midnight_day)

lemma last_ms_of_day:
  assumes "zone_ok h" shows "local_day h (local_midnight h (n + 1) - 1) = n"
proof -
  have "local_day h (local_midnight h (n + 1) - 1) < n + 1"
    using before_midnight [OF assms, of "local_midnight h (n + 1) - 1" "n + 1"] by simp
  moreover have "\<not> local_day h (local_midnight h (n + 1) - 1) < n"
    using before_midnight [OF assms, of "local_midnight h (n + 1) - 1" n] midnight_less [OF assms, of n] by linarith
  ultimately show ?thesis by linarith
qed

lemma Date_parse_key_midnight:
  assumes "four_digit_day n"
  shows "Date_parse h (key_of_day n @ ''T00:00'') = Some (local_midnight h n)"
proof -
  have c: "split_on (CHR ''T'') ''00:00'' = [''00:00'']" "read_clock ''00:00'' = Some 0" by code_simp+
  show ?thesis
    using assms no_T(1) [OF _ civil_day(1), of n] read_day_date_string [OF _ _ civil_day(1), of n]
    by (simp add: Date_parse_def key_of_day_def split_on_sep c civil_day local_midnight_at four_digit_day_def)
qed

text \<open>
  The exclusive end an all-day event is stored with and the inclusive date its input shows are inverse: the
  end written for a date reads back as that date, unless the start lies behind it.
\<close>

theorem all_day_end_roundtrip:
  assumes "zone_ok h" "four_digit_day n" "four_digit_day (n + 1)" "\<not> str_less (key_of_day n) (take 10 startsAt)"
  shows "inclusiveAllDayEndDate h startsAt (exclusiveAllDayEnd h (key_of_day n)) = key_of_day n"
proof -
  have e: "Date_parse h (exclusiveAllDayEnd h (key_of_day n)) = Some (local_midnight h (n + 1))"
    using assms by (simp add: exclusiveAllDayEnd_def shiftDateValue_key Date_parse_key_midnight)
  have "toLocalDateValue h (Some (local_midnight h (n + 1) - 1)) = key_of_day n"
    using assms toLocalDateValue_key [of h "local_midnight h (n + 1) - 1"]
      four_digit_local [of h "local_midnight h (n + 1) - 1"]
    by (simp add: dateKey_day last_ms_of_day)
  with e assms(4) show ?thesis by (simp add: inclusiveAllDayEndDate_def Let_def)
qed

theorem all_day_end_roundtrip_witness:
  "exclusiveAllDayEnd santiago_spring ''2025-09-06'' = ''2025-09-07T00:00'' \<and>
   inclusiveAllDayEndDate santiago_spring ''2025-09-01T09:00'' (exclusiveAllDayEnd santiago_spring ''2025-09-06'')
     = ''2025-09-06''"
proof -
  have k: "key_of_day 20337 = ''2025-09-06''" "four_digit_day 20337" "four_digit_day (20337 + 1)"
    "\<not> str_less (key_of_day 20337) (take 10 ''2025-09-01T09:00'')"
    "exclusiveAllDayEnd santiago_spring ''2025-09-06'' = ''2025-09-07T00:00''" by code_simp+
  show ?thesis using all_day_end_roundtrip [OF zone_ok_santiago k(2-4)] by (simp add: k)
qed

section \<open>An event's draft and back\<close>

text \<open>An instant the form can write down: on a whole minute of a four-digit year.\<close>

definition form_instant :: "host \<Rightarrow> int \<Rightarrow> bool" where
  "form_instant h t \<longleftrightarrow> four_digit_day (local_day h t) \<and> local_ms h t mod 60000 = 0"

text \<open>
  What ECMAScript's \<open>UTC\<close> promises of a local time that some instant shows: it is read as the first such instant
  (the offset before the change where the clocks repeat an hour).
\<close>

definition reads_first :: "host \<Rightarrow> bool" where
  "reads_first h \<longleftrightarrow> (\<forall>t. h_utc h (h_local h t) \<le> t \<and> h_local h (h_utc h (h_local h t)) = h_local h t)"

lemma reads_first_two_offsets: "reads_first (two_offsets c a b)"
  by (auto simp: reads_first_def two_offsets_def)

lemma local_parts: "local_day h t * MS_DAY + local_ms h t = h_local h t"
  by (simp add: local_day_def local_ms_def)

lemma form_instant_parse: "form_instant h t \<Longrightarrow> Date_parse h (toLocalInputValue h t) = Some (h_utc h (h_local h t))"
  by (simp add: form_instant_def four_digit_local Date_parse_input at_local_def local_parts)

text \<open>The instant read back is the one written down unless an earlier one shows the same local time.\<close>

lemma read_back_exact:
  assumes "reads_first h"
  shows "h_utc h (h_local h t) = t \<longleftrightarrow> (\<forall>u < t. h_local h u \<noteq> h_local h t)"
proof
  assume same: "h_utc h (h_local h t) = t"
  show "\<forall>u < t. h_local h u \<noteq> h_local h t"
  proof (intro allI impI notI)
    fix u assume "u < t" "h_local h u = h_local h t"
    moreover have "h_utc h (h_local h u) \<le> u" using assms by (simp add: reads_first_def)
    ultimately show False using same by simp
  qed
next
  assume "\<forall>u < t. h_local h u \<noteq> h_local h t"
  moreover have "h_utc h (h_local h t) \<le> t" "h_local h (h_utc h (h_local h t)) = h_local h t"
    using assms by (simp_all add: reads_first_def)
  ultimately show "h_utc h (h_local h t) = t" by (metis order_le_imp_less_or_eq)
qed

lemma trim_nothing [simp]: "non_empty (js_trim []) = None"
  by (simp add: non_empty_def js_trim_def)

text \<open>C24. C24.
  Saving a draft nobody touched sends the event's own participants, its texts trimmed and an empty one cleared, and
  for its start and end the first instants that show the same local time, for an event that starts and ends on whole
  minutes of four-digit years. So each of the two is the event's own instant exactly when no earlier instant shows its
  local time, that is, unless it lies in the second pass of an hour the clocks repeat.
\<close>

theorem untouched_draft_keeps_event:
  assumes "reads_first h" "form_instant h (parse (ce_starts_at e))" "form_instant h (parse (ce_ends_at e))"
  shows "\<exists>s f. buildEventUpdateFromDraft h (createCalendarEditorDraftFromEvent h parse e) tz =
     Some \<lparr>eu_title = js_trim (ce_title e),
           eu_description = Option.bind (ce_description e) (\<lambda>d. non_empty (js_trim d)),
           eu_location = Option.bind (ce_location e) (\<lambda>l. non_empty (js_trim l)),
           eu_starts_at = toISOString s, eu_ends_at = toISOString f,
           eu_timezone = tz, eu_all_day = ce_all_day e, eu_participants = map pt_user_id (ce_participants e)\<rparr> \<and>
     s \<le> parse (ce_starts_at e) \<and> h_local h s = h_local h (parse (ce_starts_at e)) \<and>
     f \<le> parse (ce_ends_at e) \<and> h_local h f = h_local h (parse (ce_ends_at e)) \<and>
     (s = parse (ce_starts_at e) \<longleftrightarrow> (\<forall>u < parse (ce_starts_at e). h_local h u \<noteq> h_local h (parse (ce_starts_at e)))) \<and>
     (f = parse (ce_ends_at e) \<longleftrightarrow> (\<forall>u < parse (ce_ends_at e). h_local h u \<noteq> h_local h (parse (ce_ends_at e))))"
proof -
  let ?s = "h_utc h (h_local h (parse (ce_starts_at e)))" and ?f = "h_utc h (h_local h (parse (ce_ends_at e)))"
  have "buildEventUpdateFromDraft h (createCalendarEditorDraftFromEvent h parse e) tz =
     Some \<lparr>eu_title = js_trim (ce_title e),
           eu_description = Option.bind (ce_description e) (\<lambda>d. non_empty (js_trim d)),
           eu_location = Option.bind (ce_location e) (\<lambda>l. non_empty (js_trim l)),
           eu_starts_at = toISOString ?s, eu_ends_at = toISOString ?f,
           eu_timezone = tz, eu_all_day = ce_all_day e, eu_participants = map pt_user_id (ce_participants e)\<rparr>"
    using assms(2,3)
    by (cases "ce_description e"; cases "ce_location e")
      (simp_all add: buildEventUpdateFromDraft_def createCalendarEditorDraftFromEvent_def toLocalDateTimeInput_def
        form_instant_parse)
  moreover have "?s \<le> parse (ce_starts_at e)" "h_local h ?s = h_local h (parse (ce_starts_at e))"
    "?f \<le> parse (ce_ends_at e)" "h_local h ?f = h_local h (parse (ce_ends_at e))"
    using assms(1) by (simp_all add: reads_first_def)
  ultimately show ?thesis using read_back_exact [OF assms(1)] by blast
qed

definition sample_event :: "recurrence_rule option \<Rightarrow> calendar_event" where
  "sample_event r = \<lparr>ce_id = ''e'', ce_dashboard_id = ''d'', ce_title = '' Dinner'', ce_description = Some '' '',
     ce_location = None, ce_starts_at = ''s'', ce_ends_at = ''f'', ce_all_day = False, ce_recurrence = r,
     ce_participants = []\<rparr>"

text \<open>1:30 and 2:30 of 2 November in New York after the clocks went back, and 1 November at noon.\<close>

definition sample_instants :: "string \<Rightarrow> int" where
  "sample_instants s =
     (if s = ''s'' then 20394 * 86400000 + 23400000 else if s = ''f'' then 20394 * 86400000 + 27000000
      else 20393 * 86400000 + 57600000)"

theorem untouched_draft_keeps_event_witness:
  "map_option eu_starts_at (buildEventUpdateFromDraft utc_zone
     (createCalendarEditorDraftFromEvent utc_zone sample_instants (sample_event None)) ''UTC'')
   = Some ''2025-11-02T06:30:00.000Z''"
proof -
  have k: "form_instant utc_zone (sample_instants (ce_starts_at (sample_event None)))"
    "form_instant utc_zone (sample_instants (ce_ends_at (sample_event None)))"
    "toISOString (sample_instants (ce_starts_at (sample_event None))) = ''2025-11-02T06:30:00.000Z''" by code_simp+
  have z: "reads_first utc_zone" unfolding utc_zone_def by (rule reads_first_two_offsets)
  have "h_local utc_zone u \<noteq> h_local utc_zone t" if "u < t" for u t
    using that by (simp add: utc_zone_def two_offsets_def)
  with untouched_draft_keeps_event [OF z k(1,2), of "''UTC''"] k(3) show ?thesis by auto
qed

text \<open>The hour the clocks repeat: an untouched draft of 1:30 after the change moves the start an hour earlier.\<close>

theorem repeated_hour_moves_start:
  "toISOString (sample_instants ''s'') = ''2025-11-02T06:30:00.000Z'' \<and>
   map_option (\<lambda>u. (eu_starts_at u, eu_ends_at u)) (buildEventUpdateFromDraft new_york_autumn
     (createCalendarEditorDraftFromEvent new_york_autumn sample_instants (sample_event None)) ''America/New_York'')
   = Some (''2025-11-02T05:30:00.000Z'', ''2025-11-02T07:30:00.000Z'')"
  by (intro conjI; code_simp)

section \<open>The last date of a counted series\<close>

definition days_apart :: "frequency \<Rightarrow> int" where
  "days_apart f = (if f = Daily then 1 else 7)"

lemma advance_days:
  assumes "zone_ok h" "f = Daily \<or> f = Weekly"
  shows "local_day h (advance_times h f k n t) = local_day h t + int n * k * days_apart f"
  using assms
  by (induction n arbitrary: t) (auto simp: advance_def setDate_day days_apart_def algebra_simps)

text \<open>A daily or weekly series of a given count ends on the day its last repetition starts.\<close>

theorem counted_series_end:
  assumes "zone_ok h" "rr_frequency r = Daily \<or> rr_frequency r = Weekly" "\<not> truthy (rr_until r)"
    "rr_count r = Some n" "1 < n"
  shows "deriveRecurrenceEndDate h parse startsAt r =
     key_of_day (local_day h (parse startsAt) + (n - 1) * rr_interval r * days_apart (rr_frequency r))"
  using assms by (simp add: deriveRecurrenceEndDate_def dateKey_day advance_days)

definition counted :: "frequency \<Rightarrow> int \<Rightarrow> int list option \<Rightarrow> recurrence_rule" where
  "counted f n ds = \<lparr>rr_frequency = f, rr_interval = 1, rr_by_weekday = ds, rr_count = Some n, rr_until = None\<rparr>"

theorem counted_series_end_witness:
  "deriveRecurrenceEndDate new_york_autumn sample_instants ''x'' (counted Weekly 3 None) = ''2025-11-15''"
proof -
  let ?r = "counted Weekly 3 None"
  have k: "rr_frequency ?r = Daily \<or> rr_frequency ?r = Weekly" "\<not> truthy (rr_until ?r)" "rr_count ?r = Some 3" "(1::int) < 3"
    "key_of_day (local_day new_york_autumn (sample_instants ''x'') + (3 - 1) * rr_interval ?r * days_apart (rr_frequency ?r))
       = ''2025-11-15''" by code_simp+
  show ?thesis using counted_series_end [OF zone_ok_new_york k(1-4), of sample_instants "''x''"] by (simp only: k(5))
qed

text \<open>
  A month without the day carries the date into the next month, and from there on: three monthly repetitions of
  31 January are taken to end on 3 April, before the third month that has a 31st has begun.
\<close>

section \<open>A draft moved to the selected day\<close>

text \<open>A zone without changes, \<open>c\<close> milliseconds ahead of UTC, a whole number of minutes.\<close>

definition fixed_zone :: "host \<Rightarrow> int \<Rightarrow> bool" where
  "fixed_zone h c \<longleftrightarrow> (\<forall>t. h_local h t = t + c) \<and> (\<forall>l. h_utc h l = l - c)"

lemma fixed_zone_ok: "fixed_zone h c \<Longrightarrow> zone_ok h"
  by (simp add: fixed_zone_def zone_ok_def local_day_def local_midnight_def div_less_iff less_diff_eq)

lemma fixed_at_local: "fixed_zone h c \<Longrightarrow> at_local h (local_day h t) (local_ms h t + x) = t + x"
  using local_parts [of h t] by (simp add: fixed_zone_def at_local_def)

lemma fixed_parse_input:
  assumes "fixed_zone h c" "four_digit_day (local_day h t)"
  shows "Date_parse h (toLocalInputValue h t) = Some (t - local_ms h t mod 60000)"
  using assms fixed_at_local [OF assms(1), of t "- (local_ms h t mod 60000)"]
  by (simp add: four_digit_local Date_parse_input)

lemma fixed_addMinutes: "fixed_zone h c \<Longrightarrow> addMinutes h t n = t + n * 60000"
proof -
  assume f: "fixed_zone h c"
  have e: "getHours h t * 3600000 + (getMinutes h t + n) * 60000 + local_ms h t mod 60000 = local_ms h t + n * 60000"
    using minute_floor [of "local_ms h t"] by (simp add: getHours_def getMinutes_def distrib_right)
  show ?thesis unfolding addMinutes_def setMinutes_def e by (rule fixed_at_local [OF f])
qed

lemma clock_ms: "getHours h t * 3600000 + getMinutes h t * 60000 = local_ms h t - local_ms h t mod 60000"
  by (simp add: getHours_def getMinutes_def minute_floor)

lemma at_local_ms:
  assumes "fixed_zone h c" "0 \<le> x" "x < MS_DAY"
  shows "local_ms h (at_local h n x) = x"
  using assms by (simp add: fixed_zone_def local_ms_def at_local_def)

lemma fixed_whole_minute: "fixed_zone h c \<Longrightarrow> local_ms h (t + n * 60000) mod 60000 = local_ms h t mod 60000"
proof -
  assume f: "fixed_zone h c"
  have d: "(60000::int) dvd MS_DAY" by (simp add: MS_DAY_def)
  have "local_ms h u mod 60000 = (u + c) mod 60000" for u
    using f by (simp add: local_ms_def fixed_zone_def mod_mod_cancel [OF d])
  moreover have "(t + n * 60000 + c) mod 60000 = (t + c) mod 60000"
    using mod_mult_self1 [of "t + c" n 60000] by (simp add: ac_simps)
  ultimately show ?thesis by simp
qed

text \<open>
  In a zone without changes, moving a new event's draft to the selected day keeps its clock time and its
  duration, and keeps a weekly selection that is not just the old start's day.
\<close>

theorem sync_keeps_clock_and_duration:
  assumes "fixed_zone h c" "Date_parse h startsAt = Some s" "getDurationMinutes h startsAt endsAt = Some d" "0 < d"
    "four_digit_day (local_day h day)"
    "s' = at_local h (local_day h day) (local_ms h s - local_ms h s mod 60000)"
    "four_digit_day (local_day h (s' + d * 60000))"
    "syncCreateDraftToSelectedDate h now day startsAt endsAt mode weekdays = (startsAt', endsAt', weekdays')"
  shows "Date_parse h startsAt' = Some s' \<and> local_day h s' = local_day h day \<and>
     getHours h s' = getHours h s \<and> getMinutes h s' = getMinutes h s \<and>
     getDurationMinutes h startsAt' endsAt' = Some d"
proof -
  note f = assms(1)
  have r: "0 \<le> local_ms h s - local_ms h s mod 60000" "local_ms h s - local_ms h s mod 60000 < MS_DAY"
    using zmod_le_nonneg_dividend [of "local_ms h s" 60000] local_ms_range [of h s]
      pos_mod_sign [of 60000 "local_ms h s"] by linarith+
  have day: "local_day h s' = local_day h day"
    unfolding assms(6) by (rule at_local_day [OF fixed_zone_ok [OF f] r])
  have ms: "local_ms h s' = local_ms h s - local_ms h s mod 60000"
    unfolding assms(6) by (rule at_local_ms [OF f r])
  have min: "local_ms h s' mod 60000 = 0" unfolding ms by (simp add: mod_diff_left_eq)
  have "setHoursMinutes h day (getHours h s) (getMinutes h s) = s'"
    using assms(6) by (simp add: setHoursMinutes_def clock_ms)
  then have st: "startsAt' = toLocalInputValue h s'"
    using assms(2,8) by (auto simp: syncCreateDraftToSelectedDate_def Let_def applyDateToDateTimeInput_def)
  have p: "Date_parse h startsAt' = Some s'"
    unfolding st using fixed_parse_input [OF f, of s'] assms(5) min by (simp add: day)
  have en: "endsAt' = toLocalInputValue h (s' + d * 60000)"
    using assms(2,3,8) p st
    by (auto simp: syncCreateDraftToSelectedDate_def Let_def applyDateToDateTimeInput_def toLocalDateTimeValue_def
        fixed_addMinutes [OF f] \<open>setHoursMinutes h day (getHours h s) (getMinutes h s) = s'\<close>)
  have "Date_parse h endsAt' = Some (s' + d * 60000)"
    unfolding en using fixed_parse_input [OF f assms(7)] fixed_whole_minute [OF f, of s' d] min by simp
  moreover have "(d * 60000 + 30000) div 60000 = d" by (rule div_unique_int) simp_all
  ultimately have "getDurationMinutes h startsAt' endsAt' = Some d"
    using p assms(4) by (simp add: getDurationMinutes_def)
  moreover have "getHours h s' = getHours h s \<and> getMinutes h s' = getMinutes h s"
  proof -
    have "local_ms h s - local_ms h s mod 60000 = local_ms h s div 60000 * 60000" by (rule minus_mod_eq_div_mult)
    moreover have "x div 3600000 = x div 60000 div 60" for x :: int using zdiv_zmult2_eq [of 60 x 60000] by simp
    ultimately show ?thesis by (simp add: getHours_def getMinutes_def ms)
  qed
  ultimately show ?thesis using p day by simp
qed

theorem monthly_end_drifts:
  "deriveRecurrenceEndDate utc_zone (\<lambda>_. 20119 * 86400000) ''s'' (counted Monthly 3 None) = ''2025-04-03'' \<and>
   key_of_day 20119 = ''2025-01-31''"
  by (intro conjI; code_simp)

theorem sync_keeps_clock_and_duration_witness:
  "case syncCreateDraftToSelectedDate utc_zone 0 (20394 * 86400000) ''2025-09-01T09:15'' ''2025-09-01T10:45''
         (Some Weekly) [0] of (a, b, _) \<Rightarrow>
     Date_parse utc_zone a = Some (20394 * 86400000 + 33300000) \<and> getDurationMinutes utc_zone a b = Some 90"
proof -
  have f: "fixed_zone utc_zone 0" by (simp add: fixed_zone_def utc_zone_def two_offsets_def)
  have k: "Date_parse utc_zone ''2025-09-01T09:15'' = Some (20332 * 86400000 + 33300000)"
    "getDurationMinutes utc_zone ''2025-09-01T09:15'' ''2025-09-01T10:45'' = Some 90" "(0::int) < 90"
    "four_digit_day (local_day utc_zone (20394 * 86400000))"
    "20394 * 86400000 + 33300000 = at_local utc_zone (local_day utc_zone (20394 * 86400000))
       (local_ms utc_zone (20332 * 86400000 + 33300000) - local_ms utc_zone (20332 * 86400000 + 33300000) mod 60000)"
    "four_digit_day (local_day utc_zone (20394 * 86400000 + 33300000 + 90 * 60000))" by code_simp+
  obtain a b w where r: "syncCreateDraftToSelectedDate utc_zone 0 (20394 * 86400000) ''2025-09-01T09:15''
      ''2025-09-01T10:45'' (Some Weekly) [0] = (a, b, w)" by (rule prod_cases3)
  show ?thesis unfolding r using sync_keeps_clock_and_duration [OF f k r] by simp
qed

end
