(* ===== verification/CalendarData.thy ===== *)
theory CalendarData
  imports OccurrenceStore CalendarDraft
begin

text \<open>
  The calendar resource (\<open>frontend/src/resources/calendarData.ts\<close>): the details of events, the requests that
  fetch them and the mutations, over the occurrence store. A parked detail request is a number in \<open>cd_parked\<close>
  with the id it asked for; \<open>cd_requests\<close> is the map \<open>calendarEventRequests\<close>, which a frame or a sign-out may
  have emptied meanwhile. A mutation is parked with what its continuation needs. Toasts are the texts shown.

  The lemmas: a request shared between callers is always in flight, and no id has two details; and what an
  answer may still write after the frame or the sign-out that outdated it.
\<close>

datatype calendar_mutation =
    CreateCall "string option"
  | UpdateCall string
  | DeleteCall string "string option"
  | RestoreCall string "string option"
  | PurgeCall string

record calendar_data =
  cd_details :: "(string \<times> calendar_event) list"
  cd_requests :: "(string \<times> nat) list"
  cd_parked :: "(nat \<times> string) list"
  cd_mutations :: "(nat \<times> calendar_mutation) list"
  cd_next :: nat
  cd_occurrences :: occ_store
  cd_toasts :: "string list"

definition empty_calendar_data :: calendar_data where
  "empty_calendar_data = \<lparr>cd_details = [], cd_requests = [], cd_parked = [], cd_mutations = [], cd_next = 0,
     cd_occurrences = empty_occ_store, cd_toasts = []\<rparr>"

definition cd_toast :: "string \<Rightarrow> calendar_data \<Rightarrow> calendar_data" where
  "cd_toast t st = st\<lparr>cd_toasts := cd_toasts st @ [t]\<rparr>"

definition cd_set_detail :: "string \<Rightarrow> calendar_event \<Rightarrow> calendar_data \<Rightarrow> calendar_data" where
  "cd_set_detail i e st = st\<lparr>cd_details := AList.update i e (cd_details st)\<rparr>"

definition invalidateDashboardOccurrences :: "string option \<Rightarrow> calendar_data \<Rightarrow> calendar_data" where
  "invalidateDashboardOccurrences d st = st\<lparr>cd_occurrences := invalidateOccurrences d (cd_occurrences st)\<rparr>"

definition invalidateCalendarEvent :: "string option \<Rightarrow> calendar_data \<Rightarrow> calendar_data" where
  "invalidateCalendarEvent i st =
     (case i of
        Some i \<Rightarrow>
          if i = [] then st
          else st\<lparr>cd_details := AList.delete i (cd_details st), cd_requests := AList.delete i (cd_requests st)\<rparr>
      | None \<Rightarrow> st)"

section \<open>Details\<close>

text \<open>What the caller gets: the known event at once, or the number of the request it waits on.\<close>

definition getCalendarEvent :: "string \<Rightarrow> calendar_data \<Rightarrow> (calendar_event + nat) \<times> calendar_data" where
  "getCalendarEvent eventId st =
     (case map_of (cd_details st) eventId of
        Some e \<Rightarrow> (Inl e, st)
      | None \<Rightarrow>
          (case map_of (cd_requests st) eventId of
             Some n \<Rightarrow> (Inr n, st)
           | None \<Rightarrow>
               let n = cd_next st in
               (Inr n, st\<lparr>cd_next := n + 1, cd_parked := (n, eventId) # cd_parked st,
                          cd_requests := AList.update eventId n (cd_requests st)\<rparr>)))"

text \<open>The answer: \<open>then\<close>, \<open>finally\<close>, and the toast of the one caller whose \<open>try\<close> the request is in.\<close>

definition detailReply :: "nat \<Rightarrow> calendar_event reply \<Rightarrow> calendar_data \<Rightarrow> calendar_data" where
  "detailReply n reply st =
     (case map_of (cd_parked st) n of
        None \<Rightarrow> st
      | Some eventId \<Rightarrow>
          let st = st\<lparr>cd_parked := AList.delete n (cd_parked st)\<rparr>;
              st = (case reply of Inr e \<Rightarrow> cd_set_detail eventId e st | Inl err \<Rightarrow> st);
              st = st\<lparr>cd_requests := AList.delete eventId (cd_requests st)\<rparr>
          in (case reply of Inr e \<Rightarrow> st | Inl err \<Rightarrow> cd_toast (error_message err ''Failed to load event.'') st))"

section \<open>Mutations\<close>

definition cd_mutate :: "calendar_mutation \<Rightarrow> calendar_data \<Rightarrow> calendar_data" where
  "cd_mutate m st = st\<lparr>cd_next := cd_next st + 1, cd_mutations := (cd_next st, m) # cd_mutations st\<rparr>"

definition createCalendarEvent :: "string option \<Rightarrow> calendar_data \<Rightarrow> calendar_data" where
  "createCalendarEvent dashboard = cd_mutate (CreateCall dashboard)"

definition updateCalendarEvent :: "string \<Rightarrow> calendar_data \<Rightarrow> calendar_data" where
  "updateCalendarEvent eventId = cd_mutate (UpdateCall eventId)"

definition deleteCalendarEvent :: "string \<Rightarrow> string option \<Rightarrow> calendar_data \<Rightarrow> calendar_data" where
  "deleteCalendarEvent eventId dashboard = cd_mutate (DeleteCall eventId dashboard)"

definition restoreCalendarEvent :: "string \<Rightarrow> string option \<Rightarrow> calendar_data \<Rightarrow> calendar_data" where
  "restoreCalendarEvent eventId dashboard = cd_mutate (RestoreCall eventId dashboard)"

definition purgeCalendarEvent :: "string \<Rightarrow> calendar_data \<Rightarrow> calendar_data" where
  "purgeCalendarEvent eventId = cd_mutate (PurgeCall eventId)"

text \<open>A value of the server is the event, where the call returns one.\<close>

fun mutation_succeeded :: "calendar_mutation \<Rightarrow> calendar_event \<Rightarrow> calendar_data \<Rightarrow> calendar_data" where
  "mutation_succeeded (CreateCall d) e st =
     cd_toast ''Event created.'' (invalidateDashboardOccurrences (Some (ce_dashboard_id e)) (cd_set_detail (ce_id e) e st))"
| "mutation_succeeded (UpdateCall i) e st =
     cd_toast ''Event updated.'' (invalidateDashboardOccurrences (Some (ce_dashboard_id e)) (cd_set_detail i e st))"
| "mutation_succeeded (DeleteCall i d) e st =
     cd_toast ''Event deleted.'' (invalidateDashboardOccurrences d (invalidateCalendarEvent (Some i) st))"
| "mutation_succeeded (RestoreCall i d) e st =
     cd_toast ''Event restored.'' (invalidateDashboardOccurrences d (cd_set_detail i e st))"
| "mutation_succeeded (PurgeCall i) e st = st\<lparr>cd_details := AList.delete i (cd_details st)\<rparr>"

fun mutation_failed :: "calendar_mutation \<Rightarrow> thrown \<Rightarrow> calendar_data \<Rightarrow> calendar_data" where
  "mutation_failed (CreateCall d) err st = cd_toast (error_message err ''Failed to create event.'') st"
| "mutation_failed (UpdateCall i) err st = cd_toast (error_message err ''Failed to update event.'') st"
| "mutation_failed (DeleteCall i d) err st = cd_toast (error_message err ''Failed to delete event.'') st"
| "mutation_failed (RestoreCall i d) err st = cd_toast (error_message err ''Failed to restore event.'') st"
| "mutation_failed (PurgeCall i) err st = cd_toast (error_message err ''Failed to permanently delete event.'') st"

definition mutationReply :: "nat \<Rightarrow> calendar_event reply \<Rightarrow> calendar_data \<Rightarrow> calendar_data" where
  "mutationReply n reply st =
     (case map_of (cd_mutations st) n of
        None \<Rightarrow> st
      | Some m \<Rightarrow>
          let st = st\<lparr>cd_mutations := AList.delete n (cd_mutations st)\<rparr> in
          (case reply of Inr e \<Rightarrow> mutation_succeeded m e st | Inl err \<Rightarrow> mutation_failed m err st))"

section \<open>Frames and sign-out\<close>

definition handleCalendarResourceEvent :: "bool \<Rightarrow> resource_event \<Rightarrow> calendar_data \<Rightarrow> calendar_data" where
  "handleCalendarResourceEvent isOwnEcho event st =
     (case event of
        Resync \<Rightarrow>
          st\<lparr>cd_occurrences := invalidateAllOccurrences (cd_occurrences st), cd_details := [], cd_requests := []\<rparr>
      | Frame f \<Rightarrow>
          if \<not> starts_with ''calendar.'' (event_type_str (e_event_type f)) \<or> isOwnEcho then st
          else invalidateDashboardOccurrences (p_dashboard_id (e_payload f))
                 (invalidateCalendarEvent (Some (e_entity_id f)) st))"

definition resetCalendarData :: "calendar_data \<Rightarrow> calendar_data" where
  "resetCalendarData st =
     st\<lparr>cd_occurrences := resetOccurrences (cd_occurrences st), cd_details := [], cd_requests := []\<rparr>"

datatype calendar_step =
    GetEvent string
  | DetailReply nat "calendar_event reply"
  | Mutate calendar_mutation
  | MutationReply nat "calendar_event reply"
  | CalendarFrame bool resource_event
  | SignOut

fun calendar_data_step :: "calendar_step \<Rightarrow> calendar_data \<Rightarrow> calendar_data" where
  "calendar_data_step (GetEvent i) st = snd (getCalendarEvent i st)"
| "calendar_data_step (DetailReply n r) st = detailReply n r st"
| "calendar_data_step (Mutate m) st = cd_mutate m st"
| "calendar_data_step (MutationReply n r) st = mutationReply n r st"
| "calendar_data_step (CalendarFrame own e) st = handleCalendarResourceEvent own e st"
| "calendar_data_step SignOut st = resetCalendarData st"

section \<open>Requests in flight\<close>

definition calendar_ok :: "calendar_data \<Rightarrow> bool" where
  "calendar_ok st \<longleftrightarrow> distinct (map fst (cd_details st)) \<and> distinct (map fst (cd_requests st)) \<and>
     distinct (map fst (cd_parked st)) \<and> (\<forall>n\<in>fst ` set (cd_parked st). n < cd_next st) \<and>
     (\<forall>i n. (i, n) \<in> set (cd_requests st) \<longrightarrow> (n, i) \<in> set (cd_parked st))"

lemma calendar_ok_frame [simp]:
  "calendar_ok (cd_toast t st) = calendar_ok st"
  "calendar_ok (invalidateDashboardOccurrences d st) = calendar_ok st"
  "calendar_ok (st\<lparr>cd_mutations := ms\<rparr>) = calendar_ok st"
  by (simp_all add: calendar_ok_def cd_toast_def invalidateDashboardOccurrences_def)

lemma set_detail_ok: "calendar_ok st \<Longrightarrow> calendar_ok (cd_set_detail i e st)"
  by (simp add: calendar_ok_def cd_set_detail_def distinct_update)

lemma in_delete: "p \<in> set (AList.delete k xs) \<longleftrightarrow> p \<in> set xs \<and> fst p \<noteq> k"
  by (auto simp: AList.delete_eq)

lemma invalidate_event_ok: "calendar_ok st \<Longrightarrow> calendar_ok (invalidateCalendarEvent i st)"
  by (auto simp: calendar_ok_def invalidateCalendarEvent_def distinct_delete in_delete split: option.split)

lemma mutate_ok [simp]: "calendar_ok st \<Longrightarrow> calendar_ok (cd_mutate m st)"
  by (auto simp: calendar_ok_def cd_mutate_def less_Suc_eq)

lemma in_update: "distinct (map fst xs) \<Longrightarrow> p \<in> set (AList.update k v xs) \<longleftrightarrow> p = (k, v) \<or> (p \<in> set xs \<and> fst p \<noteq> k)"
proof (induction xs)
  case (Cons a xs)
  show ?case
  proof (cases "fst a = k")
    case True
    with Cons.prems have "\<forall>q\<in>set xs. fst q \<noteq> k" by (metis distinct.simps(2) image_eqI list.set_map list.simps(9))
    with True show ?thesis by (cases a) auto
  next
    case False
    with Cons show ?thesis by (cases a) auto
  qed
qed simp

lemma get_ok:
  assumes "calendar_ok st" shows "calendar_ok (snd (getCalendarEvent i st))"
proof -
  have n: "cd_next st \<notin> fst ` set (cd_parked st)" using assms by (auto simp: calendar_ok_def)
  then show ?thesis
    using assms
    by (auto simp: calendar_ok_def getCalendarEvent_def Let_def distinct_update in_update less_Suc_eq split: option.split)
qed

lemma detail_reply_ok:
  assumes "calendar_ok st" shows "calendar_ok (detailReply n r st)"
proof (cases "map_of (cd_parked st) n")
  case (Some i)
  let ?p = "st\<lparr>cd_parked := AList.delete n (cd_parked st), cd_requests := AList.delete i (cd_requests st)\<rparr>"
  have u: "(n, j) \<in> set (cd_parked st) \<Longrightarrow> j = i" for j
    using Some assms by (simp add: calendar_ok_def)
  have p: "calendar_ok ?p"
    using assms u by (auto simp: calendar_ok_def distinct_delete in_delete)
  have "detailReply n r st =
      (case r of Inr e \<Rightarrow> cd_set_detail i e ?p | Inl err \<Rightarrow> cd_toast (error_message err ''Failed to load event.'') ?p)"
    by (cases r) (simp_all add: detailReply_def Some cd_set_detail_def)
  then show ?thesis using p set_detail_ok [OF p] by (cases r) simp_all
qed (simp add: detailReply_def assms)

lemma drop_detail_ok: "calendar_ok st \<Longrightarrow> calendar_ok (st\<lparr>cd_details := AList.delete i (cd_details st)\<rparr>)"
  by (simp add: calendar_ok_def distinct_delete)

lemma clear_ok: "calendar_ok st \<Longrightarrow> calendar_ok (st\<lparr>cd_occurrences := os, cd_details := [], cd_requests := []\<rparr>)"
  by (simp add: calendar_ok_def)

lemma succeeded_ok: "calendar_ok st \<Longrightarrow> calendar_ok (mutation_succeeded m e st)"
  by (cases m) (simp_all add: set_detail_ok invalidate_event_ok drop_detail_ok)

lemma failed_ok: "calendar_ok st \<Longrightarrow> calendar_ok (mutation_failed m err st)"
  by (cases m) simp_all

lemma mutation_reply_ok: "calendar_ok st \<Longrightarrow> calendar_ok (mutationReply n r st)"
  by (auto simp: mutationReply_def Let_def intro!: succeeded_ok failed_ok split: option.split sum.split)

lemma calendar_step_ok: "calendar_ok st \<Longrightarrow> calendar_ok (calendar_data_step e st)"
proof (cases e)
  case (CalendarFrame own ev)
  assume ok: "calendar_ok st"
  with CalendarFrame show ?thesis
    by (cases ev) (simp_all add: handleCalendarResourceEvent_def invalidate_event_ok clear_ok)
next
  case SignOut
  assume "calendar_ok st"
  with SignOut show ?thesis by (simp add: resetCalendarData_def clear_ok)
qed (simp_all add: get_ok detail_reply_ok mutation_reply_ok)

interpretation calendar_runs: event_machine calendar_data_step calendar_ok
  by unfold_locales (rule calendar_step_ok)

text \<open>
  In every run of the calendar resource a request that callers share is in flight for the very event they
  asked for, and no event has two details.
\<close>

theorem shared_requests_are_in_flight:
  "calendar_ok (fold calendar_data_step es empty_calendar_data)"
  by (rule calendar_runs.run_inv) (simp add: calendar_ok_def empty_calendar_data_def)

section \<open>Late answers\<close>

text \<open>
  A frame drops an event's detail and its request, not the request's continuation: an answer that left before the
  change is cached after it, and later callers are given it.
\<close>

definition changed_frame :: sse_event where
  "changed_frame = \<lparr>e_event_id = 7, e_event_type = CalendarEventUpdated, e_entity_type = ''calendar_event'',
     e_entity_id = ''e'', e_entity_version = 2, e_actor_id = ''u'', e_actor_display_name = ''U'',
     e_created_at = ''t'', e_payload = empty_payload\<rparr>"

theorem outdated_detail_is_cached:
  "fst (getCalendarEvent ''e'' (fold calendar_data_step
     [GetEvent ''e'', CalendarFrame False (Frame changed_frame), DetailReply 0 (Inr (sample_event None))]
     empty_calendar_data)) = Inl (sample_event None)"
  by code_simp

text \<open>The same across a sign-out: the next session is given the event the last one asked for.\<close>

theorem detail_outlives_session:
  "fst (getCalendarEvent ''e'' (fold calendar_data_step
     [GetEvent ''e'', SignOut, DetailReply 0 (Inr (sample_event None))] empty_calendar_data)) = Inl (sample_event None)"
  by code_simp

end
