(* ===== verification/CalendarEditor.thy ===== *)
theory CalendarEditor
  imports CalendarDraft
begin

text \<open>
  The event editor (\<open>frontend/src/components/calendar/CalendarEditor.tsx\<close>): the state its hooks keep, the values
  each render derives from it, and one function per handler of the form. \<open>numbers\<close> is the host's reading and
  printing of numbers: \<open>nm_read\<close> for \<open>Number\<close> on a text (\<open>None\<close> for \<open>NaN\<close>), \<open>nm_show\<close> for \<open>String\<close> on one
  that is not whole. The weekday of an invalid date, \<open>NaN\<close>, is \<open>NAN_WEEKDAY\<close>: like \<open>NaN\<close> in \<open>includes\<close> it equals
  itself and no option.

  The lemmas: the repeat interval is always a whole number from one up and a weekly repeat always has a
  weekday, whatever the user does; moving the start of an all-day event keeps the days it covers.
\<close>

record numbers =
  nm_read :: "string \<Rightarrow> rat option"
  nm_show :: "rat \<Rightarrow> string"

definition js_show :: "numbers \<Rightarrow> rat \<Rightarrow> string" where
  "js_show nm q = (if of_int (floor q) = q then show_int (floor q) else nm_show nm q)"

definition number_or_one :: "numbers \<Rightarrow> string \<Rightarrow> rat" where
  "number_or_one nm s = (case nm_read nm s of Some q \<Rightarrow> if q = 0 then 1 else q | None \<Rightarrow> 1)"

definition NAN_WEEKDAY :: int where
  "NAN_WEEKDAY = - 1"

record editor_state =
  ed_draft :: editor_draft
  ed_lastRecurringMode :: frequency
  ed_durationUnit :: duration_unit
  ed_durationDraft :: "string option"
  ed_showOptionalFields :: bool
  ed_submitting :: bool

definition editor_init :: "host \<Rightarrow> editor_draft \<Rightarrow> editor_state" where
  "editor_init h initialDraft =
     \<lparr>ed_draft = initialDraft,
      ed_lastRecurringMode = (case dr_recurrenceMode initialDraft of None \<Rightarrow> Weekly | Some f \<Rightarrow> f),
      ed_durationUnit = inferDurationUnit h (dr_startsAt initialDraft) (dr_endsAt initialDraft),
      ed_durationDraft = None,
      ed_showOptionalFields = (dr_description initialDraft \<noteq> [] \<or> dr_eventLocation initialDraft \<noteq> []),
      ed_submitting = False\<rparr>"

section \<open>What a render derives\<close>

definition ed_parsedStart :: "host \<Rightarrow> editor_state \<Rightarrow> int option" where
  "ed_parsedStart h st = Date_parse h (dr_startsAt (ed_draft st))"

definition ed_scheduleError :: "host \<Rightarrow> editor_state \<Rightarrow> string option" where
  "ed_scheduleError h st =
     (case (ed_parsedStart h st, Date_parse h (dr_endsAt (ed_draft st))) of
        (Some s, Some e) \<Rightarrow>
          if \<not> dr_allDay (ed_draft st) \<and> e \<le> s then Some ''End time must be after the start time.'' else None
      | _ \<Rightarrow> None)"

definition ed_durationMinutes :: "host \<Rightarrow> editor_state \<Rightarrow> int option" where
  "ed_durationMinutes h st = getDurationMinutes h (dr_startsAt (ed_draft st)) (dr_endsAt (ed_draft st))"

definition ed_allDayEndDate :: "host \<Rightarrow> editor_state \<Rightarrow> string" where
  "ed_allDayEndDate h st = inclusiveAllDayEndDate h (dr_startsAt (ed_draft st)) (dr_endsAt (ed_draft st))"

definition ed_durationValue :: "host \<Rightarrow> (int \<Rightarrow> int \<Rightarrow> string) \<Rightarrow> editor_state \<Rightarrow> string" where
  "ed_durationValue h fixed2 st =
     (case ed_durationDraft st of
        Some d \<Rightarrow> d | None \<Rightarrow> formatDurationValue fixed2 (ed_durationMinutes h st) (ed_durationUnit st))"

definition ed_submittedEnd :: "host \<Rightarrow> editor_state \<Rightarrow> string" where
  "ed_submittedEnd h st =
     (if dr_allDay (ed_draft st) then exclusiveAllDayEnd h (ed_allDayEndDate h st) else dr_endsAt (ed_draft st))"

definition ed_overlapWarning :: "host \<Rightarrow> numbers \<Rightarrow> editor_state \<Rightarrow> string option" where
  "ed_overlapWarning h nm st =
     (if dr_recurrenceMode (ed_draft st) = None then None
      else getRecurringOverlapWarning h (nm_read nm) (dr_startsAt (ed_draft st)) (ed_submittedEnd h st)
             (dr_recurrenceMode (ed_draft st)) (dr_recurrenceInterval (ed_draft st)))"

definition ed_recurrenceSummary :: "numbers \<Rightarrow> (string \<Rightarrow> string) \<Rightarrow> editor_state \<Rightarrow> string" where
  "ed_recurrenceSummary nm end_label st =
     (let d = ed_draft st; mode = dr_recurrenceMode d; n = max (number_or_one nm (dr_recurrenceInterval d)) 1 in
      if mode = None then ''Does not repeat''
      else ''Repeats every '' @ js_show nm n @ '' '' @ repeatUnitLabel mode n @
        (if mode = Some Weekly then '' on '' @ formatWeeklySelection (dr_recurrenceWeekdays d) else '''') @
        (if dr_recurrenceEndsOn d \<noteq> [] then '' until '' @ end_label (dr_recurrenceEndsOn d) else '''') @ ''.'')"

definition isDateValue :: "string \<Rightarrow> bool" where
  "isDateValue value = day_pattern value"

section \<open>Handlers\<close>

definition ed_map :: "(editor_draft \<Rightarrow> editor_draft) \<Rightarrow> editor_state \<Rightarrow> editor_state" where
  "ed_map f st = st\<lparr>ed_draft := f (ed_draft st)\<rparr>"

definition setEndsAt :: "string \<Rightarrow> editor_state \<Rightarrow> editor_state" where
  "setEndsAt v = ed_map (\<lambda>d. d\<lparr>dr_endsAt := v\<rparr>)"

definition start_weekday :: "host \<Rightarrow> string \<Rightarrow> int" where
  "start_weekday h startsAt =
     (case getLocalInputWeekday h startsAt of Some w \<Rightarrow> w | None \<Rightarrow> NAN_WEEKDAY)"

definition toggleRecurrenceWeekday :: "int \<Rightarrow> editor_state \<Rightarrow> editor_state" where
  "toggleRecurrenceWeekday wd =
     ed_map (\<lambda>d. let current = dr_recurrenceWeekdays d in
       d\<lparr>dr_recurrenceWeekdays :=
           (if wd \<in> set current
            then (if length current = 1 then current else filter (\<lambda>v. v \<noteq> wd) current)
            else current @ [wd])\<rparr>)"

definition ensureWeeklySelection :: "host \<Rightarrow> string \<Rightarrow> editor_state \<Rightarrow> editor_state" where
  "ensureWeeklySelection h nextStartsAt =
     ed_map (\<lambda>d. if dr_recurrenceMode d = Some Weekly \<and> dr_recurrenceWeekdays d = []
                 then d\<lparr>dr_recurrenceWeekdays := [start_weekday h nextStartsAt]\<rparr> else d)"

definition shift_by :: "host \<Rightarrow> string \<Rightarrow> int option \<Rightarrow> string" where
  "shift_by h date days =
     (case days of Some k \<Rightarrow> shiftDateValue h date k | None \<Rightarrow> toLocalDateValue h None)"

definition handleStartsAtChange :: "host \<Rightarrow> string \<Rightarrow> editor_state \<Rightarrow> editor_state" where
  "handleStartsAtChange h value st =
     (let d = ed_draft st; startsAt = dr_startsAt d; allDayEnd = ed_allDayEndDate h st;
          duration = ed_durationMinutes h st;
          st1 = (if dr_allDay d \<and> isDateValue (take 10 value) \<and> isDateValue allDayEnd
                 then setEndsAt (exclusiveAllDayEnd h
                        (shift_by h (take 10 value) (daysBetweenDateValues h (take 10 startsAt) allDayEnd))) st
                 else st);
          st2 = ensureWeeklySelection h value (ed_map (\<lambda>d. d\<lparr>dr_startsAt := value\<rparr>) st1)
      in case duration of
           Some n \<Rightarrow>
             if \<not> dr_allDay d \<and> 0 < n then
               (case Date_parse h value of
                  Some newEnd \<Rightarrow> setEndsAt (toLocalDateTimeValue h (Some (addMinutes h newEnd n))) st2
                | None \<Rightarrow> st2)
             else st2
         | None \<Rightarrow> st2)"

text \<open>The end date of an all-day event, from its own input.\<close>

definition handleEndDateChange :: "host \<Rightarrow> string \<Rightarrow> editor_state \<Rightarrow> editor_state" where
  "handleEndDateChange h value st =
     (if isDateValue value then setEndsAt (exclusiveAllDayEnd h value) st else st)"

definition handleRecurrenceModeChange :: "host \<Rightarrow> recurrence_mode \<Rightarrow> editor_state \<Rightarrow> editor_state" where
  "handleRecurrenceModeChange h value st =
     (let st1 = ed_map (\<lambda>d. d\<lparr>dr_recurrenceMode := value\<rparr>) st;
          st2 = (case value of Some f \<Rightarrow> st1\<lparr>ed_lastRecurringMode := f\<rparr> | None \<Rightarrow> st1)
      in if value = Some Weekly \<and> dr_recurrenceWeekdays (ed_draft st) = []
         then ed_map (\<lambda>d. d\<lparr>dr_recurrenceWeekdays := [start_weekday h (dr_startsAt d)]\<rparr>) st2
         else st2)"

definition handleRepeatEnabledChange :: "host \<Rightarrow> bool \<Rightarrow> editor_state \<Rightarrow> editor_state" where
  "handleRepeatEnabledChange h enabled st =
     (if \<not> enabled then ed_map (\<lambda>d. d\<lparr>dr_recurrenceMode := None\<rparr>) st
      else handleRecurrenceModeChange h
        (case dr_recurrenceMode (ed_draft st) of None \<Rightarrow> Some (ed_lastRecurringMode st) | m \<Rightarrow> m) st)"

definition applyDurationMinutes :: "host \<Rightarrow> int \<Rightarrow> editor_state \<Rightarrow> editor_state" where
  "applyDurationMinutes h minutes st =
     setEndsAt (toLocalDateTimeValue h
       (case ed_parsedStart h st of Some s \<Rightarrow> Some (addMinutes h s minutes) | None \<Rightarrow> None)) st"

definition handleDurationValueChange :: "host \<Rightarrow> numbers \<Rightarrow> string \<Rightarrow> editor_state \<Rightarrow> editor_state" where
  "handleDurationValueChange h nm value st =
     (let st1 = st\<lparr>ed_durationDraft := Some value\<rparr> in
      if ed_parsedStart h st = None then st1
      else case parseDurationValue (nm_read nm) value (ed_durationUnit st) of
        Some minutes \<Rightarrow> applyDurationMinutes h minutes st1
      | None \<Rightarrow> st1)"

definition adjustDuration :: "host \<Rightarrow> int \<Rightarrow> editor_state \<Rightarrow> editor_state" where
  "adjustDuration h delta st =
     (if ed_parsedStart h st = None then st
      else applyDurationMinutes h (stepDurationMinutes (ed_durationMinutes h st) (ed_durationUnit st) delta)
             (st\<lparr>ed_durationDraft := None\<rparr>))"

definition handleDurationUnitChange :: "duration_unit \<Rightarrow> editor_state \<Rightarrow> editor_state" where
  "handleDurationUnitChange unit st = st\<lparr>ed_durationUnit := unit, ed_durationDraft := None\<rparr>"

definition handleAllDayChange :: "bool \<Rightarrow> editor_state \<Rightarrow> editor_state" where
  "handleAllDayChange checked st = (ed_map (\<lambda>d. d\<lparr>dr_allDay := checked\<rparr>) st)\<lparr>ed_durationDraft := None\<rparr>"

definition handleRecurrenceIntervalChange :: "numbers \<Rightarrow> string \<Rightarrow> editor_state \<Rightarrow> editor_state" where
  "handleRecurrenceIntervalChange nm value st =
     (case nm_read nm value of
        Some q \<Rightarrow> if q < 1 then st else ed_map (\<lambda>d. d\<lparr>dr_recurrenceInterval := show_int (floor q)\<rparr>) st
      | None \<Rightarrow> st)"

definition adjustRecurrenceInterval :: "numbers \<Rightarrow> int \<Rightarrow> editor_state \<Rightarrow> editor_state" where
  "adjustRecurrenceInterval nm delta =
     ed_map (\<lambda>d. d\<lparr>dr_recurrenceInterval :=
       js_show nm (max 1 (number_or_one nm (dr_recurrenceInterval d) + of_int delta))\<rparr>)"

definition toggleParticipant :: "string \<Rightarrow> editor_state \<Rightarrow> editor_state" where
  "toggleParticipant userId =
     ed_map (\<lambda>d. d\<lparr>dr_participants :=
       (if userId \<in> set (dr_participants d) then filter (\<lambda>i. i \<noteq> userId) (dr_participants d)
        else dr_participants d @ [userId])\<rparr>)"

definition syncSelectedCreateDate :: "host \<Rightarrow> int \<Rightarrow> int \<Rightarrow> editor_state \<Rightarrow> editor_state" where
  "syncSelectedCreateDate h now day =
     ed_map (\<lambda>d. case syncCreateDraftToSelectedDate h now day (dr_startsAt d) (dr_endsAt d)
                      (dr_recurrenceMode d) (dr_recurrenceWeekdays d) of
       (s, e, w) \<Rightarrow> d\<lparr>dr_startsAt := s, dr_endsAt := e, dr_recurrenceWeekdays := w\<rparr>)"

text \<open>\<open>handleSubmit\<close> up to its call of \<open>onSubmit\<close>, whose argument is the second component.\<close>

definition handleSubmit :: "host \<Rightarrow> editor_state \<Rightarrow> editor_state \<times> editor_draft option" where
  "handleSubmit h st =
     (if ed_scheduleError h st \<noteq> None \<or> ed_submitting st then (st, None)
      else (st\<lparr>ed_submitting := True\<rparr>, Some ((ed_draft st)\<lparr>dr_endsAt := ed_submittedEnd h st\<rparr>)))"

section \<open>The form as a machine\<close>

datatype editor_event =
    TypeText "editor_draft \<Rightarrow> editor_draft"
  | ChangeStart string
  | ChangeEnd string
  | ChangeEndDate string
  | ChangeMode frequency
  | ToggleRepeat bool
  | ToggleWeekday int
  | TypeInterval string
  | StepInterval int
  | ToggleAllDay bool
  | TypeDuration string
  | StepDuration int
  | ChooseUnit duration_unit
  | ToggleParticipant string
  | SelectDay int int
  | Submit
  | Settled

text \<open>A text field sets the title, the place, the description or the last date, none of the rest.\<close>

definition text_only :: "(editor_draft \<Rightarrow> editor_draft) \<Rightarrow> bool" where
  "text_only f \<longleftrightarrow> (\<forall>d. dr_recurrenceMode (f d) = dr_recurrenceMode d \<and>
     dr_recurrenceWeekdays (f d) = dr_recurrenceWeekdays d \<and>
     dr_recurrenceInterval (f d) = dr_recurrenceInterval d)"

fun editor_step :: "host \<Rightarrow> numbers \<Rightarrow> editor_event \<Rightarrow> editor_state \<Rightarrow> editor_state" where
  "editor_step h nm (TypeText f) st = ed_map f st"
| "editor_step h nm (ChangeStart v) st = handleStartsAtChange h v st"
| "editor_step h nm (ChangeEnd v) st = setEndsAt v st"
| "editor_step h nm (ChangeEndDate v) st = handleEndDateChange h v st"
| "editor_step h nm (ChangeMode f) st = handleRecurrenceModeChange h (Some f) st"
| "editor_step h nm (ToggleRepeat b) st = handleRepeatEnabledChange h b st"
| "editor_step h nm (ToggleWeekday w) st = toggleRecurrenceWeekday w st"
| "editor_step h nm (TypeInterval v) st = handleRecurrenceIntervalChange nm v st"
| "editor_step h nm (StepInterval n) st = adjustRecurrenceInterval nm n st"
| "editor_step h nm (ToggleAllDay b) st = handleAllDayChange b st"
| "editor_step h nm (TypeDuration v) st = handleDurationValueChange h nm v st"
| "editor_step h nm (StepDuration n) st = adjustDuration h n st"
| "editor_step h nm (ChooseUnit u) st = handleDurationUnitChange u st"
| "editor_step h nm (ToggleParticipant i) st = toggleParticipant i st"
| "editor_step h nm (SelectDay now day) st = syncSelectedCreateDate h now day st"
| "editor_step h nm Submit st = fst (handleSubmit h st)"
| "editor_step h nm Settled st = st\<lparr>ed_submitting := False\<rparr>"

definition numbers_ok :: "numbers \<Rightarrow> bool" where
  "numbers_ok nm \<longleftrightarrow> (\<forall>i\<ge>0. nm_read nm (show_int i) = Some (of_int i))"

definition whole_interval :: "string \<Rightarrow> bool" where
  "whole_interval s \<longleftrightarrow> (\<exists>i\<ge>1. s = show_int i)"

definition repeat_ok :: "editor_draft \<Rightarrow> bool" where
  "repeat_ok d \<longleftrightarrow> (dr_recurrenceMode d = Some Weekly \<longrightarrow> dr_recurrenceWeekdays d \<noteq> []) \<and>
     distinct (dr_recurrenceWeekdays d) \<and> whole_interval (dr_recurrenceInterval d)"

definition editor_ok :: "numbers \<Rightarrow> editor_state \<Rightarrow> bool" where
  "editor_ok nm st \<longleftrightarrow> numbers_ok nm \<and> repeat_ok (ed_draft st)"

definition known_event :: "editor_event \<Rightarrow> bool" where
  "known_event e \<longleftrightarrow> (case e of TypeText f \<Rightarrow> text_only f | _ \<Rightarrow> True)"

lemma ed_map_draft [simp]: "ed_draft (ed_map f st) = f (ed_draft st)"
  by (simp add: ed_map_def)

lemma repeat_ok_frame [simp]:
  "repeat_ok (d\<lparr>dr_endsAt := v\<rparr>) = repeat_ok d" "repeat_ok (d\<lparr>dr_startsAt := v\<rparr>) = repeat_ok d"
  "repeat_ok (d\<lparr>dr_allDay := b\<rparr>) = repeat_ok d" "repeat_ok (d\<lparr>dr_participants := p\<rparr>) = repeat_ok d"
  by (simp_all add: repeat_ok_def)

lemma setEndsAt_draft [simp]: "ed_draft (setEndsAt v st) = (ed_draft st)\<lparr>dr_endsAt := v\<rparr>"
  by (simp add: setEndsAt_def)

lemma ensure_ok: "repeat_ok (ed_draft st) \<Longrightarrow> repeat_ok (ed_draft (ensureWeeklySelection h s st))"
  by (auto simp: ensureWeeklySelection_def repeat_ok_def)

lemma start_ok: "repeat_ok (ed_draft st) \<Longrightarrow> repeat_ok (ed_draft (handleStartsAtChange h v st))"
  by (auto simp: handleStartsAtChange_def Let_def intro!: ensure_ok split: option.split)

lemma mode_ok: "repeat_ok (ed_draft st) \<Longrightarrow> repeat_ok (ed_draft (handleRecurrenceModeChange h m st))"
  by (cases m) (auto simp: handleRecurrenceModeChange_def repeat_ok_def Let_def)

lemma repeat_toggle_ok: "repeat_ok (ed_draft st) \<Longrightarrow> repeat_ok (ed_draft (handleRepeatEnabledChange h b st))"
  using mode_ok [of st h] by (auto simp: handleRepeatEnabledChange_def repeat_ok_def)

lemma filter_out_one:
  assumes "distinct xs" "x \<in> set xs" "length xs \<noteq> 1"
  shows "filter (\<lambda>v. v \<noteq> x) xs \<noteq> []"
proof -
  obtain as bs where xs: "xs = as @ x # bs" using split_list [OF assms(2)] by blast
  with assms(3) have "as @ bs \<noteq> []" by auto
  moreover have "x \<notin> set (as @ bs)" using assms(1) xs by simp
  then have "filter (\<lambda>v. v \<noteq> x) as = as" "filter (\<lambda>v. v \<noteq> x) bs = bs" by (auto intro!: filter_True)
  then have "filter (\<lambda>v. v \<noteq> x) xs = as @ bs" by (simp add: xs)
  ultimately show ?thesis by (simp only: not_False_eq_True)
qed

lemma weekday_toggle_ok:
  assumes "repeat_ok (ed_draft st)" shows "repeat_ok (ed_draft (toggleRecurrenceWeekday w st))"
proof (cases "w \<in> set (dr_recurrenceWeekdays (ed_draft st)) \<and> length (dr_recurrenceWeekdays (ed_draft st)) \<noteq> 1")
  case True
  with assms filter_out_one [of "dr_recurrenceWeekdays (ed_draft st)" w] show ?thesis
    by (simp add: toggleRecurrenceWeekday_def repeat_ok_def Let_def)
next
  case False
  with assms show ?thesis by (auto simp: toggleRecurrenceWeekday_def repeat_ok_def Let_def)
qed

lemma whole_show: "1 \<le> i \<Longrightarrow> whole_interval (show_int i)"
  by (auto simp: whole_interval_def)

lemma interval_ok: "repeat_ok (ed_draft st) \<Longrightarrow> repeat_ok (ed_draft (handleRecurrenceIntervalChange nm v st))"
  by (auto simp: handleRecurrenceIntervalChange_def repeat_ok_def le_floor_iff intro!: whole_show split: option.split)

lemma js_show_whole: "js_show nm (of_int k) = show_int k"
  by (simp add: js_show_def)

lemma interval_step_ok:
  assumes "numbers_ok nm" "repeat_ok (ed_draft st)"
  shows "repeat_ok (ed_draft (adjustRecurrenceInterval nm n st))"
proof -
  obtain i where i: "1 \<le> i" "dr_recurrenceInterval (ed_draft st) = show_int i"
    using assms(2) unfolding repeat_ok_def whole_interval_def by blast
  have "number_or_one nm (show_int i) = of_int i" using assms(1) i(1) by (simp add: numbers_ok_def number_or_one_def)
  moreover have "max 1 (of_int i + of_int n) = (of_int (max 1 (i + n)) :: rat)" by (simp add: max_def)
  ultimately have "dr_recurrenceInterval (ed_draft (adjustRecurrenceInterval nm n st)) = show_int (max 1 (i + n))"
    by (simp add: adjustRecurrenceInterval_def i(2) js_show_whole del: of_int_max)
  then show ?thesis using assms(2) by (simp add: repeat_ok_def adjustRecurrenceInterval_def whole_show)
qed

lemma sync_weekly_ok:
  "distinct ws \<Longrightarrow> distinct (syncWeeklySelectionWithStartDate h m a b ws)"
  "m = Some Weekly \<Longrightarrow> ws \<noteq> [] \<Longrightarrow> syncWeeklySelectionWithStartDate h m a b ws \<noteq> []"
  by (auto simp: syncWeeklySelectionWithStartDate_def split: option.split)

lemma sync_ok: "repeat_ok (ed_draft st) \<Longrightarrow> repeat_ok (ed_draft (syncSelectedCreateDate h now day st))"
  by (auto simp: syncSelectedCreateDate_def syncCreateDraftToSelectedDate_def repeat_ok_def sync_weekly_ok Let_def)

lemma duration_ok:
  "ed_draft (handleDurationValueChange h nm v st) = ed_draft st \<or>
     (\<exists>e. ed_draft (handleDurationValueChange h nm v st) = (ed_draft st)\<lparr>dr_endsAt := e\<rparr>)"
  "ed_draft (adjustDuration h n st) = ed_draft st \<or> (\<exists>e. ed_draft (adjustDuration h n st) = (ed_draft st)\<lparr>dr_endsAt := e\<rparr>)"
  by (auto simp: handleDurationValueChange_def adjustDuration_def applyDurationMinutes_def Let_def split: option.split)

lemma editor_step_ok:
  assumes "known_event e" "editor_ok nm st"
  shows "editor_ok nm (editor_step h nm e st)"
proof -
  have nm: "numbers_ok nm" and ok: "repeat_ok (ed_draft st)" using assms(2) by (simp_all add: editor_ok_def)
  have "repeat_ok (ed_draft (editor_step h nm e st))"
  proof (cases e)
    case (TypeText f)
    with assms(1) ok show ?thesis by (simp add: known_event_def text_only_def repeat_ok_def)
  next
    case (TypeDuration v)
    with ok duration_ok(1) [of h nm v st] show ?thesis by auto
  next
    case (StepDuration n)
    with ok duration_ok(2) [of h n st] show ?thesis by auto
  next
    case (StepInterval n)
    with ok nm show ?thesis by (simp add: interval_step_ok)
  qed (use ok in \<open>simp_all add: start_ok mode_ok repeat_toggle_ok weekday_toggle_ok interval_ok sync_ok
      handleEndDateChange_def handleAllDayChange_def handleDurationUnitChange_def toggleParticipant_def handleSubmit_def\<close>)
  with nm show ?thesis by (simp add: editor_ok_def)
qed

interpretation editor_runs: event_machine "\<lambda>e st. if known_event e then editor_step h nm e st else st" "editor_ok nm"
  by unfold_locales (simp add: editor_step_ok)

lemma default_draft_ok: "repeat_ok (createDefaultCalendarEditorDraft h now day)"
proof -
  have "''1'' = show_int 1" by code_simp
  then show ?thesis using whole_show [of 1]
    by (simp add: createDefaultCalendarEditorDraft_def repeat_ok_def split: prod.split)
qed

lemma js_sort_empty: "js_sort c xs = [] \<longleftrightarrow> xs = []"
  using mset_js_sort [of c xs] by (metis mset_zero_iff)

lemma weekly_selection_ok:
  "distinct (getInitialWeeklySelection h parse s r)"
  "map_option rr_frequency r = Some Weekly \<Longrightarrow> getInitialWeeklySelection h parse s r \<noteq> []"
proof -
  have d: "distinct (js_sort num_order (rev (remdups ds)))" for ds
    by (rule iffD1 [OF mset_eq_imp_distinct_iff, of "rev (remdups ds)"]) simp_all
  have n: "js_sort num_order (rev (remdups ds)) \<noteq> []" if "ds \<noteq> []" for ds
    using that by (simp add: js_sort_empty)
  show "distinct (getInitialWeeklySelection h parse s r)"
    using d by (auto simp: getInitialWeeklySelection_def split: option.split list.split)
  show "map_option rr_frequency r = Some Weekly \<Longrightarrow> getInitialWeeklySelection h parse s r \<noteq> []"
    using n by (auto simp: getInitialWeeklySelection_def split: option.split list.split)
qed

lemma event_draft_ok:
  assumes "case ce_recurrence e of Some r \<Rightarrow> 1 \<le> rr_interval r | None \<Rightarrow> True"
  shows "repeat_ok (createCalendarEditorDraftFromEvent h parse e)"
  using assms whole_show weekly_selection_ok [where h = h and parse = parse and s = "ce_starts_at e" and r = "ce_recurrence e"]
  by (auto simp: createCalendarEditorDraftFromEvent_def repeat_ok_def split: option.split_asm)

lemma editor_run_known:
  "list_all known_event es \<Longrightarrow>
     fold (editor_step h nm) es st = fold (\<lambda>e st. if known_event e then editor_step h nm e st else st) es st"
  by (induction es arbitrary: st) simp_all


definition digit_numbers :: numbers where
  "digit_numbers = \<lparr>nm_read = (\<lambda>s. map_option of_int (js_number s)), nm_show = (\<lambda>_. '''')\<rparr>"


section \<open>Moving an all-day event\<close>

lemma key_pattern: "four_digit_day n \<Longrightarrow> isDateValue (key_of_day n)"
  using real_date_less [OF civil_day(1), of n]
  by (simp add: isDateValue_def day_pattern_def key_of_day_def split_date_string civil_day four_digit_day_def
      show_int_digits pad2_digits length_pad2 length_show_year)

lemma key_length: "four_digit_day n \<Longrightarrow> length (key_of_day n) = 10"
  using real_date_less [OF civil_day(1), of n]
  by (simp add: key_of_day_def date_string_def length_show_year length_pad2 four_digit_day_def)

text \<open>
  Moving the start of an all-day event to another day moves its end by the same number of days: what is
  submitted covers as many days as before.
\<close>

theorem all_day_move_keeps_days:
  assumes "zone_ok h" "dr_allDay (ed_draft st)"
    "dr_startsAt (ed_draft st) = key_of_day n @ ''T00:00''" "dr_endsAt (ed_draft st) = key_of_day (m + 1) @ ''T00:00''"
    "list_all four_digit_day [n, m, m + 1, n', n' + (m - n), n' + (m - n) + 1]" "even_midnights h n m"
    "\<not> str_less (key_of_day m) (key_of_day n)"
  shows "dr_startsAt (ed_draft (handleStartsAtChange h (key_of_day n' @ ''T00:00'') st)) = key_of_day n' @ ''T00:00'' \<and>
     dr_endsAt (ed_draft (handleStartsAtChange h (key_of_day n' @ ''T00:00'') st))
       = key_of_day (n' + (m - n) + 1) @ ''T00:00''"
proof -
  have f: "four_digit_day n" "four_digit_day m" "four_digit_day (m + 1)" "four_digit_day n'"
    "four_digit_day (n' + (m - n))" "four_digit_day (n' + (m - n) + 1)" using assms(5) by simp_all
  have "exclusiveAllDayEnd h (key_of_day m) = dr_endsAt (ed_draft st)"
    using assms(1,4) f by (simp add: exclusiveAllDayEnd_def shiftDateValue_key)
  then have e: "ed_allDayEndDate h st = key_of_day m"
    using all_day_end_roundtrip [OF assms(1) f(2,3), of "dr_startsAt (ed_draft st)"] assms(3,7) key_length [OF f(1)]
    by (simp add: ed_allDayEndDate_def)
  have "exclusiveAllDayEnd h (shift_by h (key_of_day n') (daysBetweenDateValues h (key_of_day n) (key_of_day m)))
      = key_of_day (n' + (m - n) + 1) @ ''T00:00''"
    using assms(1,6) f by (simp add: daysBetween_key shift_by_def shiftDateValue_key exclusiveAllDayEnd_def)
  then show ?thesis
    using assms(2,3) e key_length [OF f(1)] key_length [OF f(4)] key_pattern [OF f(2)] key_pattern [OF f(4)]
    by (simp add: handleStartsAtChange_def Let_def ensureWeeklySelection_def split: option.split)
qed

definition all_day_sample :: "string \<Rightarrow> string \<Rightarrow> editor_state" where
  "all_day_sample startsAt endsAt =
     \<lparr>ed_draft = \<lparr>dr_title = ''Trip'', dr_description = [], dr_eventLocation = [], dr_startsAt = startsAt,
         dr_endsAt = endsAt, dr_allDay = True, dr_recurrenceMode = None, dr_recurrenceInterval = ''1'',
         dr_recurrenceWeekdays = [], dr_recurrenceEndsOn = [], dr_participants = []\<rparr>,
      ed_lastRecurringMode = Weekly, ed_durationUnit = Days, ed_durationDraft = None,
      ed_showOptionalFields = False, ed_submitting = False\<rparr>"

theorem all_day_move_keeps_days_witness:
  "dr_endsAt (ed_draft (handleStartsAtChange utc_zone ''2025-09-10T00:00''
     (all_day_sample ''2025-09-01T00:00'' ''2025-09-04T00:00''))) = ''2025-09-13T00:00''"
proof -
  let ?st = "all_day_sample ''2025-09-01T00:00'' ''2025-09-04T00:00''"
  have d: "key_of_day 20332 @ ''T00:00'' = ''2025-09-01T00:00''" "key_of_day (20334 + 1) @ ''T00:00'' = ''2025-09-04T00:00''"
    "list_all four_digit_day [20332, 20334, 20334 + 1, 20341, 20341 + (20334 - 20332), 20341 + (20334 - 20332) + 1]"
    "even_midnights utc_zone 20332 20334" "\<not> str_less (key_of_day 20334) (key_of_day 20332)" by code_simp+
  have k: "dr_allDay (ed_draft ?st)" "dr_startsAt (ed_draft ?st) = key_of_day 20332 @ ''T00:00''"
    "dr_endsAt (ed_draft ?st) = key_of_day (20334 + 1) @ ''T00:00''"
    unfolding d(1,2) by (simp_all add: all_day_sample_def)
  have v: "key_of_day 20341 @ ''T00:00'' = ''2025-09-10T00:00''"
    "key_of_day (20341 + (20334 - 20332) + 1) @ ''T00:00'' = ''2025-09-13T00:00''" by code_simp+
  show ?thesis using all_day_move_keeps_days [OF zone_ok_utc k d(3-5)] by (simp only: v)
qed

lemma cleared_start_steps:
  "ed_allDayEndDate utc_zone (all_day_sample ''2025-09-01T00:00'' ''2025-09-04T00:00'') = ''2025-09-03''"
  "ed_allDayEndDate utc_zone (all_day_sample ''T00:00'' ''2025-09-04T00:00'') = ''2025-09-03''"
  "daysBetweenDateValues utc_zone ''T00:00'' ''2025-09-03'' = None"
  "exclusiveAllDayEnd utc_zone ''NaN-NaN-Na'' = ''NaN-NaN-NaT00:00''"
  "ed_allDayEndDate utc_zone (all_day_sample ''2025-09-10T00:00'' ''NaN-NaN-NaT00:00'') = ''2025-09-10''"
  by code_simp+

text \<open>
  A start cleared and entered again carries nothing into the days between, which are not a number: the end
  becomes invalid, and the three days shrink to one.
\<close>

theorem cleared_start_collapses_span:
  "ed_allDayEndDate utc_zone (all_day_sample ''2025-09-01T00:00'' ''2025-09-04T00:00'') = ''2025-09-03'' \<and>
   handleStartsAtChange utc_zone ''2025-09-10T00:00'' (handleStartsAtChange utc_zone ''T00:00''
     (all_day_sample ''2025-09-01T00:00'' ''2025-09-04T00:00'')) = all_day_sample ''2025-09-10T00:00'' ''NaN-NaN-NaT00:00'' \<and>
   ed_allDayEndDate utc_zone (all_day_sample ''2025-09-10T00:00'' ''NaN-NaN-NaT00:00'') = ''2025-09-10''"
proof -
  have p: "isDateValue ''2025-09-10''" "isDateValue ''2025-09-03''" "\<not> isDateValue ''T00:00''" by code_simp+
  have 1: "handleStartsAtChange utc_zone ''T00:00'' (all_day_sample ''2025-09-01T00:00'' ''2025-09-04T00:00'')
      = all_day_sample ''T00:00'' ''2025-09-04T00:00''"
    by (simp add: handleStartsAtChange_def Let_def p ensureWeeklySelection_def ed_map_def all_day_sample_def split: option.split)
  have 2: "handleStartsAtChange utc_zone ''2025-09-10T00:00'' (all_day_sample ''T00:00'' ''2025-09-04T00:00'')
      = all_day_sample ''2025-09-10T00:00'' ''NaN-NaN-NaT00:00''"
    unfolding handleStartsAtChange_def cleared_start_steps(2)
    by (simp add: Let_def p ensureWeeklySelection_def ed_map_def all_day_sample_def cleared_start_steps setEndsAt_def
        shift_by_def toLocalDateValue_def toLocalDateTimeValue_def split: option.split)
  show ?thesis unfolding 1 2 using cleared_start_steps(1,5) by simp
qed

section \<open>The page's editor sessions\<close>

text \<open>
  The part of \<open>frontend/src/pages/CalendarPage.tsx\<close> that opens and closes editors. \<open>pg_requestId\<close> is the ref
  every opening and closing advances; \<open>pg_opening\<close> holds the parked \<open>openEditEditor\<close> calls with the id they
  took, \<open>pg_saving\<close> the parked \<open>handleEditorSubmit\<close> calls.
\<close>

record editor_session =
  sn_key :: nat
  sn_eventId :: "string option"
  sn_initialDraft :: editor_draft
  sn_initialParticipants :: "participant list"

record page_state =
  pg_session :: "editor_session option"
  pg_loading :: bool
  pg_requestId :: nat
  pg_opening :: "(nat \<times> string) list"
  pg_saving :: nat

record recurrence_input =
  ri_frequency :: frequency
  ri_interval :: rat
  ri_until :: "string option"
  ri_by_weekday :: "int list option"

record event_create =
  ec_dashboard_id :: string
  ec_fields :: event_update
  ec_recurrence :: "recurrence_input option"

datatype save_request =
    UpdateEvent string event_update "recurrence_input option"
  | CreateEvent event_create

definition empty_page :: page_state where
  "empty_page = \<lparr>pg_session = None, pg_loading = False, pg_requestId = 0, pg_opening = [], pg_saving = 0\<rparr>"

definition closeEditor :: "page_state \<Rightarrow> page_state" where
  "closeEditor p = p\<lparr>pg_requestId := pg_requestId p + 1, pg_loading := False, pg_session := None\<rparr>"

definition openCreateEditor :: "host \<Rightarrow> int \<Rightarrow> int \<Rightarrow> page_state \<Rightarrow> page_state" where
  "openCreateEditor h now selectedDate p =
     (let i = pg_requestId p + 1 in
      p\<lparr>pg_requestId := i, pg_loading := False,
        pg_session := Some \<lparr>sn_key = i, sn_eventId = None,
          sn_initialDraft = createDefaultCalendarEditorDraft h now (Some selectedDate), sn_initialParticipants = []\<rparr>\<rparr>)"

definition openEditEditor :: "string \<Rightarrow> page_state \<Rightarrow> page_state" where
  "openEditEditor eventId p =
     (let i = pg_requestId p + 1 in
      p\<lparr>pg_requestId := i, pg_loading := True, pg_session := None, pg_opening := (i, eventId) # pg_opening p\<rparr>)"

text \<open>The detail arrived, or did not: \<open>openEditEditor\<close> after its await.\<close>

definition editorLoaded ::
    "host \<Rightarrow> (string \<Rightarrow> int) \<Rightarrow> nat \<Rightarrow> calendar_event option \<Rightarrow> page_state \<Rightarrow> page_state" where
  "editorLoaded h parse i reply p =
     (case map_of (pg_opening p) i of
        None \<Rightarrow> p
      | Some eventId \<Rightarrow>
          let p = p\<lparr>pg_opening := AList.delete i (pg_opening p)\<rparr> in
          if pg_requestId p \<noteq> i then p
          else (case reply of
                  None \<Rightarrow> p\<lparr>pg_loading := False, pg_session := None\<rparr>
                | Some e \<Rightarrow>
                    p\<lparr>pg_loading := False,
                      pg_session := Some \<lparr>sn_key = i, sn_eventId = Some eventId,
                        sn_initialDraft = createCalendarEditorDraftFromEvent h parse e,
                        sn_initialParticipants = ce_participants e\<rparr>\<rparr>))"

text \<open>The recurrence a draft stands for; \<open>None\<close> where \<open>toRecurrenceUntilIso\<close> throws.\<close>

definition draft_recurrence :: "host \<Rightarrow> numbers \<Rightarrow> editor_draft \<Rightarrow> recurrence_input option option" where
  "draft_recurrence h nm draft =
     (case dr_recurrenceMode draft of
        None \<Rightarrow> Some None
      | Some f \<Rightarrow>
          (let rest = (\<lambda>u. Some (Some \<lparr>ri_frequency = f, ri_interval = number_or_one nm (dr_recurrenceInterval draft),
                  ri_until = u,
                  ri_by_weekday = (if f = Weekly then Some (js_sort num_order (dr_recurrenceWeekdays draft)) else None)\<rparr>))
           in if dr_recurrenceEndsOn draft = [] then rest None
              else case toRecurrenceUntilIso h (dr_recurrenceEndsOn draft) of None \<Rightarrow> None | Some u \<Rightarrow> rest (Some u)))"

definition handleEditorSubmit ::
    "host \<Rightarrow> numbers \<Rightarrow> string \<Rightarrow> string option \<Rightarrow> editor_draft \<Rightarrow> page_state
     \<Rightarrow> page_state \<times> save_request option" where
  "handleEditorSubmit h nm timezone dashboard draft p =
     (case (dashboard, pg_session p) of
        (Some d, Some s) \<Rightarrow>
          if js_trim (dr_title draft) = [] \<or> d = [] then (p, None)
          else (case (draft_recurrence h nm draft, buildEventUpdateFromDraft h draft timezone) of
                  (Some r, Some u) \<Rightarrow>
                    (p\<lparr>pg_saving := pg_saving p + 1\<rparr>,
                     Some (case sn_eventId s of
                             Some i \<Rightarrow> UpdateEvent i u r
                           | None \<Rightarrow> CreateEvent \<lparr>ec_dashboard_id = d, ec_fields = u, ec_recurrence = r\<rparr>))
                | _ \<Rightarrow> (p, None))
      | _ \<Rightarrow> (p, None))"

definition saveReply :: "bool \<Rightarrow> page_state \<Rightarrow> page_state" where
  "saveReply succeeded p =
     (if pg_saving p = 0 then p
      else let p = p\<lparr>pg_saving := pg_saving p - 1\<rparr> in if succeeded then closeEditor p else p)"

datatype page_event =
    CloseEditor
  | OpenCreate int int
  | OpenEdit string
  | Loaded nat "calendar_event option"
  | SubmitDraft "string option" editor_draft
  | SaveReply bool

fun page_step ::
    "host \<Rightarrow> (string \<Rightarrow> int) \<Rightarrow> numbers \<Rightarrow> string \<Rightarrow> page_event \<Rightarrow> page_state \<Rightarrow> page_state" where
  "page_step h parse nm tz CloseEditor p = closeEditor p"
| "page_step h parse nm tz (OpenCreate now day) p = openCreateEditor h now day p"
| "page_step h parse nm tz (OpenEdit i) p = openEditEditor i p"
| "page_step h parse nm tz (Loaded i e) p = editorLoaded h parse i e p"
| "page_step h parse nm tz (SubmitDraft d draft) p = fst (handleEditorSubmit h nm tz d draft p)"
| "page_step h parse nm tz (SaveReply b) p = saveReply b p"

definition page_ok :: "page_state \<Rightarrow> bool" where
  "page_ok p \<longleftrightarrow> list_all (\<lambda>i. i \<le> pg_requestId p) (map fst (pg_opening p)) \<and>
     (case pg_session p of
        Some s \<Rightarrow> sn_key s = pg_requestId p \<and> \<not> pg_loading p \<and> pg_requestId p \<notin> set (map fst (pg_opening p))
      | None \<Rightarrow> pg_loading p \<longleftrightarrow> pg_requestId p \<in> set (map fst (pg_opening p)))"

lemma openings_old: "list_all (\<lambda>i. i \<le> n) is \<Longrightarrow> list_all (\<lambda>i. i \<le> Suc n) is \<and> Suc n \<notin> set is"
  by (auto simp: list_all_iff)

lemma fresh_opening:
  "page_ok p \<Longrightarrow> list_all (\<lambda>i. i \<le> Suc (pg_requestId p)) (map fst (pg_opening p)) \<and>
     Suc (pg_requestId p) \<notin> set (map fst (pg_opening p))"
  unfolding page_ok_def by (intro openings_old) simp

lemma delete_keys: "set (map fst (AList.delete k xs)) = set (map fst xs) - {k}"
  by (auto simp: AList.delete_eq)

lemma loaded_ok:
  assumes "page_ok p" shows "page_ok (editorLoaded h parse i r p)"
proof (cases "map_of (pg_opening p) i")
  case (Some e)
  then have "i \<in> set (map fst (pg_opening p))" by (metis list.set_map map_of_eq_None_iff option.distinct(1))
  moreover have "list_all (\<lambda>j. j \<le> pg_requestId p) (map fst (AList.delete i (pg_opening p)))"
    using assms delete_keys [of i "pg_opening p"] unfolding page_ok_def list_all_iff by auto
  ultimately show ?thesis
    using assms delete_keys [of i "pg_opening p"]
    by (auto simp: page_ok_def editorLoaded_def Some Let_def simp del: set_map split: option.splits)
qed (simp add: editorLoaded_def assms)

lemma page_frame [simp]: "page_ok (p\<lparr>pg_saving := n\<rparr>) = page_ok p"
  by (cases "pg_session p") (simp_all add: page_ok_def)

lemma close_ok: "page_ok p \<Longrightarrow> page_ok (closeEditor p)"
  using fresh_opening [of p] by (simp add: page_ok_def closeEditor_def)

lemma page_step_ok: "page_ok p \<Longrightarrow> page_ok (page_step h parse nm tz e p)"
proof (cases e)
  case (OpenCreate now day)
  assume "page_ok p"
  with OpenCreate fresh_opening [of p] show ?thesis by (simp add: page_ok_def openCreateEditor_def Let_def)
next
  case (OpenEdit i)
  assume "page_ok p"
  with OpenEdit fresh_opening [of p] show ?thesis by (simp add: page_ok_def openEditEditor_def Let_def)
next
  case (SubmitDraft d draft)
  assume "page_ok p"
  with SubmitDraft show ?thesis by (simp add: handleEditorSubmit_def split: option.split)
qed (simp_all add: close_ok loaded_ok saveReply_def Let_def)

interpretation page_runs: event_machine "page_step h parse nm tz" page_ok
  by unfold_locales (rule page_step_ok)

text \<open>C27. 
  In every run of the page, an open editor is the one the user asked for last, the spinner shows exactly while
  the detail asked for last is on its way, and no answer to an earlier opening can open an editor.
\<close>

theorem latest_opening_wins:
  "page_ok (fold (page_step h parse nm tz) es empty_page) \<and>
   (i = pg_requestId (fold (page_step h parse nm tz) es empty_page) \<or>
      pg_session (editorLoaded h parse i e (fold (page_step h parse nm tz) es empty_page))
        = pg_session (fold (page_step h parse nm tz) es empty_page))"
  using page_runs.run_inv [of empty_page] by (simp add: page_ok_def empty_page_def editorLoaded_def Let_def split: option.split)

text \<open>
  \<open>handleEditorSubmit\<close> closes whatever is open when its answer comes: a new event saved, the editor closed and
  another event opened meanwhile, and the answer takes that editor away.
\<close>

theorem late_save_closes_other_editor:
  "let draft = ed_draft (all_day_sample ''2025-09-01T00:00'' ''2025-09-02T00:00'');
       p1 = fold (page_step utc_zone (\<lambda>_. 0) digit_numbers ''UTC'')
              [OpenCreate 0 0, SubmitDraft (Some ''d'') draft, CloseEditor, OpenEdit ''e'',
               Loaded 3 (Some (sample_event None))] empty_page;
       p2 = page_step utc_zone (\<lambda>_. 0) digit_numbers ''UTC'' (SaveReply True) p1 in
   map_option sn_eventId (pg_session p1) = Some (Some ''e'') \<and> pg_session p2 = None"
proof -
  let ?d = "ed_draft (all_day_sample ''2025-09-01T00:00'' ''2025-09-02T00:00'')"
  have t: "js_trim (dr_title ?d) = ''Trip''" "draft_recurrence utc_zone digit_numbers ?d = Some None"
    by (code_simp, simp add: draft_recurrence_def all_day_sample_def)
  have "Date_parse utc_zone ''2025-09-01T00:00'' \<noteq> None" "Date_parse utc_zone ''2025-09-02T00:00'' \<noteq> None" by code_simp+
  then obtain u where u: "buildEventUpdateFromDraft utc_zone ?d ''UTC'' = Some u"
    by (auto simp: buildEventUpdateFromDraft_def all_day_sample_def)
  show ?thesis
    by (simp add: Let_def empty_page_def openCreateEditor_def handleEditorSubmit_def t u closeEditor_def
        openEditEditor_def editorLoaded_def saveReply_def sample_event_def)
qed

end
