(* ===== verification/LocalDay.thy ===== *)
theory LocalDay
  imports CalendarDraft
begin

text \<open>
  The clock of the always-on dashboard (\<open>frontend/src/hooks/useLocalDay.ts\<close>): the day key a component shows, the
  timer that waits for the next local midnight and a second more, and the focus and visibility events that
  resynchronise a tab which slept. A mounted hook is its day and the instant its timer is due; every event
  carries the time it happens at.

  The lemmas: until the next midnight the hook's timer waits for, the day shown is the current one, and
  \<open>useLocalToday\<close> is its midnight.
\<close>

record local_day_state =
  ld_day :: string
  ld_due :: int

definition currentDayKey :: "host \<Rightarrow> int \<Rightarrow> string" where
  "currentDayKey h now = dateKey h (startOfDay h now)"

definition msUntilNextMidnight :: "host \<Rightarrow> int \<Rightarrow> int" where
  "msUntilNextMidnight h now =
     Date_new h (getFullYear h now) (getMonth h now) (getDate h now + 1) - now"

definition ld_sync :: "host \<Rightarrow> int \<Rightarrow> local_day_state \<Rightarrow> local_day_state" where
  "ld_sync h now st =
     (let next = currentDayKey h now in if next = ld_day st then st else st\<lparr>ld_day := next\<rparr>)"

definition ld_schedule :: "host \<Rightarrow> int \<Rightarrow> local_day_state \<Rightarrow> local_day_state" where
  "ld_schedule h now st = st\<lparr>ld_due := now + (msUntilNextMidnight h now + 1000)\<rparr>"

definition ld_mount :: "host \<Rightarrow> int \<Rightarrow> local_day_state" where
  "ld_mount h now = ld_schedule h now \<lparr>ld_day = currentDayKey h now, ld_due = 0\<rparr>"

datatype day_event = TimerFires int | Focus int | VisibilityChange int bool

fun event_time :: "day_event \<Rightarrow> int" where
  "event_time (TimerFires t) = t"
| "event_time (Focus t) = t"
| "event_time (VisibilityChange t b) = t"

fun ld_step :: "host \<Rightarrow> day_event \<Rightarrow> local_day_state \<Rightarrow> local_day_state" where
  "ld_step h (TimerFires now) st = ld_schedule h now (ld_sync h now st)"
| "ld_step h (Focus now) st = ld_sync h now st"
| "ld_step h (VisibilityChange now visible) st = (if visible then ld_sync h now st else st)"

definition useLocalToday :: "host \<Rightarrow> local_day_state \<Rightarrow> int option" where
  "useLocalToday h st = Date_of_numbers h (date_numbers (ld_day st))"

section \<open>The day shown\<close>

text \<open>Time does not run backwards, and the years stay clear of the two-digit ones.\<close>

fun in_order :: "host \<Rightarrow> int \<Rightarrow> day_event list \<Rightarrow> bool" where
  "in_order h t [] = (100 \<le> getFullYear h t)"
| "in_order h t (e # es) = (100 \<le> getFullYear h t \<and> t \<le> event_time e \<and> in_order h (event_time e) es)"

definition last_time :: "int \<Rightarrow> day_event list \<Rightarrow> int" where
  "last_time t es = fold (\<lambda>e _. event_time e) es t"

definition shows_since :: "host \<Rightarrow> int \<Rightarrow> local_day_state \<Rightarrow> bool" where
  "shows_since h now st \<longleftrightarrow>
     (\<exists>s u. s \<le> u \<and> u \<le> now \<and> 100 \<le> getFullYear h u \<and>
        ld_due st = local_midnight h (local_day h s + 1) + 1000 \<and> ld_day st = key_of_day (local_day h u))"

lemma currentDayKey_day: "zone_ok h \<Longrightarrow> currentDayKey h now = key_of_day (local_day h now)"
  by (simp add: currentDayKey_def dateKey_day)

lemma next_midnight:
  assumes "100 \<le> getFullYear h now"
  shows "now + msUntilNextMidnight h now = local_midnight h (local_day h now + 1)"
  using assms make_day_add [of "getFullYear h now" "getMonth h now" "getDate h now" 1] date_fields(2) [of h now]
  by (simp add: msUntilNextMidnight_def Date_new_def local_midnight_at)

lemma local_day_mono: "zone_ok h \<Longrightarrow> s \<le> t \<Longrightarrow> local_day h s \<le> local_day h t"
  using before_midnight [of h s "local_day h s"] before_midnight [of h t "local_day h s"] by linarith

lemma sync_shows:
  assumes "zone_ok h" "shows_since h t st" "t \<le> now" "100 \<le> getFullYear h now"
  shows "shows_since h now (ld_sync h now st)"
proof -
  obtain s u where su: "s \<le> u" "u \<le> t" "ld_due st = local_midnight h (local_day h s + 1) + 1000"
    using assms(2) by (auto simp: shows_since_def)
  have "ld_due (ld_sync h now st) = ld_due st" "ld_day (ld_sync h now st) = key_of_day (local_day h now)"
    by (auto simp: ld_sync_def Let_def currentDayKey_day [OF assms(1)])
  with su assms(3,4) show ?thesis unfolding shows_since_def by (intro exI [of _ s] exI [of _ now]) simp
qed

lemma schedule_shows:
  assumes "zone_ok h" "ld_day st = key_of_day (local_day h now)" "100 \<le> getFullYear h now"
  shows "shows_since h now (ld_schedule h now st)"
proof -
  have "ld_due (ld_schedule h now st) = local_midnight h (local_day h now + 1) + 1000"
    using next_midnight [OF assms(3)] by (simp add: ld_schedule_def)
  with assms show ?thesis unfolding shows_since_def by (intro exI [of _ now]) (simp add: ld_schedule_def)
qed

lemma sync_day: "zone_ok h \<Longrightarrow> ld_day (ld_sync h now st) = key_of_day (local_day h now)"
  by (simp add: ld_sync_def Let_def currentDayKey_day)

lemma step_shows:
  assumes "zone_ok h" "shows_since h t st" "t \<le> event_time e" "100 \<le> getFullYear h (event_time e)"
  shows "shows_since h (event_time e) (ld_step h e st)"
proof (cases e)
  case (TimerFires now)
  with assms show ?thesis by (simp add: schedule_shows sync_day)
next
  case (VisibilityChange now b)
  have "shows_since h now st" using assms(2,3) VisibilityChange unfolding shows_since_def by fastforce
  with assms VisibilityChange show ?thesis by (simp add: sync_shows [OF assms(1,2)])
qed (use assms in \<open>simp add: sync_shows [OF assms(1,2)]\<close>)

lemma run_shows:
  "zone_ok h \<Longrightarrow> shows_since h t st \<Longrightarrow> in_order h t es \<Longrightarrow>
     shows_since h (last_time t es) (fold (ld_step h) es st)"
proof (induction es arbitrary: t st)
  case (Cons e es)
  have "100 \<le> getFullYear h (event_time e)" using Cons.prems(3) by (cases es) simp_all
  with Cons.prems have "shows_since h (event_time e) (ld_step h e st)" by (intro step_shows) auto
  with Cons.IH Cons.prems show ?case by (simp add: last_time_def)
qed (simp add: last_time_def)

text \<open>C28. 
  From the hook's mounting on, however timer, focus and visibility events arrive, at every instant before
  the midnight its timer waits for the day shown is the day it is, and today's date is that day's midnight.
\<close>

theorem local_day_is_current:
  assumes "zone_ok h" "in_order h t0 es" "st = fold (ld_step h) es (ld_mount h t0)"
    "last_time t0 es \<le> t" "t < ld_due st - 1000"
  shows "ld_day st = dateKey h t \<and> useLocalToday h st = Some (startOfDay h t)"
proof -
  have y: "100 \<le> getFullYear h t0" using assms(2) by (cases es) simp_all
  have "shows_since h t0 (ld_mount h t0)"
    unfolding ld_mount_def using assms(1) y by (intro schedule_shows) (simp_all add: currentDayKey_day)
  from run_shows [OF assms(1) this assms(2)] obtain s u where su: "s \<le> u" "u \<le> t" "100 \<le> getFullYear h u"
    "ld_due st = local_midnight h (local_day h s + 1) + 1000" "ld_day st = key_of_day (local_day h u)"
    using assms(3,4) unfolding shows_since_def by fastforce
  have "local_day h t < local_day h s + 1" using assms(1,5) su(4) before_midnight [of h t "local_day h s + 1"] by simp
  then have d: "local_day h u = local_day h t"
    using local_day_mono [OF assms(1) su(1)] local_day_mono [OF assms(1) su(2)] by linarith
  then have "100 \<le> getFullYear h t" using su(3) by (simp add: getFullYear_def)
  then show ?thesis using Date_of_dateKey [of h t] su(5) d by (simp add: useLocalToday_def dateKey_day)
qed

theorem local_day_is_current_witness:
  "ld_day (fold (ld_step santiago_spring) [Focus (20337 * 86400000), TimerFires (20338 * 86400000 + 14401000)]
     (ld_mount santiago_spring (20336 * 86400000))) = ''2025-09-07''"
proof -
  let ?es = "[Focus (20337 * 86400000), TimerFires (20338 * 86400000 + 14401000)]"
  have k: "in_order santiago_spring (20336 * 86400000) ?es" by code_simp
  have t: "last_time (20336 * 86400000) ?es \<le> 20338 * 86400000 + 14401000" by code_simp
  have due: "20338 * 86400000 + 14401000 <
      ld_due (fold (ld_step santiago_spring) ?es (ld_mount santiago_spring (20336 * 86400000))) - 1000"
  proof -
    have "20338 * 86400000 + 14401000 < 20338 * 86400000 + 14401000 + msUntilNextMidnight santiago_spring (20338 * 86400000 + 14401000)"
      by code_simp
    then show ?thesis by (simp add: ld_schedule_def)
  qed
  have "dateKey santiago_spring (20338 * 86400000 + 14401000) = ''2025-09-07''" by code_simp
  then show ?thesis using local_day_is_current [OF zone_ok_santiago k refl t due] by simp
qed

end
