(* ===== verification/ActivityFeed.thy ===== *)
theory ActivityFeed
  imports Contract ChangedFields
begin

text \<open>
  How the activity feed reads (\<open>frontend/src/utils/notifications/notificationFeedUtils.ts\<close>): the filter and the
  gate on live frames, one sentence per event, and the collapsing of runs. A payload is an open JSON record.
  The host's \<open>Date.parse\<close> and the \<open>Intl\<close> month-and-day format are the fields of \<open>feed_host\<close>.

  The lemmas: a live frame is let in exactly when the endpoint would serve its event, and the groups are the
  maximal runs of the feed, holding every event once and in order.
\<close>

record feed_host =
  fh_parse :: "string \<Rightarrow> int option"
  fh_month_day :: "int \<Rightarrow> string"

record presentation =
  ap_badge :: string
  ap_summary :: string
  ap_detail :: "string option"

definition row :: "string \<Rightarrow> string \<Rightarrow> presentation" where
  "row b s = \<lparr>ap_badge = b, ap_summary = s, ap_detail = None\<rparr>"

section \<open>Payload fields\<close>

definition payloadString :: "json_obj \<Rightarrow> string \<Rightarrow> string option" where
  "payloadString payload key =
     (case map_of payload key of Some (JStr s) \<Rightarrow> if js_trim s \<noteq> [] then Some s else None | _ \<Rightarrow> None)"

definition payloadBoolean :: "json_obj \<Rightarrow> string \<Rightarrow> bool option" where
  "payloadBoolean payload key = (case map_of payload key of Some (JBool b) \<Rightarrow> Some b | _ \<Rightarrow> None)"

definition quoted :: "string option \<Rightarrow> string \<Rightarrow> string" where
  "quoted value fallback =
     (case value of Some v \<Rightarrow> if v \<noteq> [] then CHR 0x22 # v @ [CHR 0x22] else fallback | None \<Rightarrow> fallback)"

fun string_entries :: "json list \<Rightarrow> string list" where
  "string_entries [] = []"
| "string_entries (JStr s # es) = s # string_entries es"
| "string_entries (_ # es) = string_entries es"

definition payloadStrings :: "json_obj \<Rightarrow> string \<Rightarrow> string list" where
  "payloadStrings payload key = (case map_of payload key of Some (JArr es) \<Rightarrow> string_entries es | _ \<Rightarrow> [])"

definition WIDGET_LABELS :: "(string \<times> string) list" where
  "WIDGET_LABELS =
     [(''agenda'', ''an Agenda widget''), (''calendar'', ''a Calendar widget''),
      (''clock'', ''a Clock widget''), (''list'', ''a List widget'')]"

definition changed_of :: "activity_event \<Rightarrow> string list" where
  "changed_of event = payloadStrings (a_payload event) ''changed_fields''"

definition isLayoutEvent :: "activity_event \<Rightarrow> bool" where
  "isLayoutEvent event \<longleftrightarrow>
     a_event_type event = ''dashboard.updated'' \<and> primaryChangedField (changed_of event) = Some Layout"

definition widgetLabel :: "json_obj \<Rightarrow> string" where
  "widgetLabel payload =
     (case map_of WIDGET_LABELS (case payloadString payload ''widget_type'' of Some t \<Rightarrow> t | None \<Rightarrow> '''') of
        Some l \<Rightarrow> l | None \<Rightarrow> ''a widget'')"

definition humanizeEventType :: "string \<Rightarrow> string" where
  "humanizeEventType eventType =
     (case js_trim (map (\<lambda>c. if c = CHR ''.'' \<or> c = CHR ''_'' then CHR '' '' else c) eventType) of
        [] \<Rightarrow> ''You made a change.''
      | c # cs \<Rightarrow> js_upper_char c # cs @ ''.'')"

definition occurrenceLabel :: "feed_host \<Rightarrow> json_obj \<Rightarrow> string" where
  "occurrenceLabel fh payload =
     (case payloadString payload ''occurrence_start'' of
        None \<Rightarrow> ''occurrence''
      | Some start \<Rightarrow>
          (case fh_parse fh start of None \<Rightarrow> ''occurrence'' | Some at \<Rightarrow> fh_month_day fh at @ '' occurrence''))"

section \<open>The filter\<close>

record filter_option =
  fo_id :: string
  fo_label :: string
  fo_eventTypes :: "string list"

definition ACTIVITY_CATEGORIES :: "filter_option list" where
  "ACTIVITY_CATEGORIES =
     [\<lparr>fo_id = ''dashboards'', fo_label = ''Dashboards'',
       fo_eventTypes = [''dashboard.created'', ''dashboard.updated'', ''dashboard.deleted'']\<rparr>,
      \<lparr>fo_id = ''sharing'', fo_label = ''Sharing'',
       fo_eventTypes = [''dashboard.share_added'', ''dashboard.share_updated'', ''dashboard.share_removed'']\<rparr>,
      \<lparr>fo_id = ''lists'', fo_label = ''Lists'',
       fo_eventTypes = [''list.created'', ''list.updated'', ''list.deleted'', ''list.reordered'']\<rparr>,
      \<lparr>fo_id = ''list-items'', fo_label = ''List items'',
       fo_eventTypes = [''list.item.created'', ''list.item.updated'', ''list.item.checked'',
         ''list.item.deleted'', ''list.item.reordered'']\<rparr>,
      \<lparr>fo_id = ''calendar'', fo_label = ''Calendar'',
       fo_eventTypes = [''calendar.event.created'', ''calendar.event.updated'', ''calendar.event.deleted'',
         ''calendar.event.occurrence.updated'', ''calendar.event.occurrence.cancelled'']\<rparr>]"

definition ACTIVITY_FILTER_ALL :: string where
  "ACTIVITY_FILTER_ALL = ''all''"

definition ACTIVITY_FILTERS :: "filter_option list" where
  "ACTIVITY_FILTERS = \<lparr>fo_id = ACTIVITY_FILTER_ALL, fo_label = ''All'', fo_eventTypes = []\<rparr> # ACTIVITY_CATEGORIES"

definition eventTypesForActivityFilter :: "string \<Rightarrow> string list" where
  "eventTypesForActivityFilter filterId =
     (case find (\<lambda>p. fo_id p = filterId) ACTIVITY_FILTERS of Some p \<Rightarrow> fo_eventTypes p | None \<Rightarrow> [])"

definition isOwnFeedActivity :: "activity_event \<Rightarrow> string option \<Rightarrow> string \<Rightarrow> bool" where
  "isOwnFeedActivity event viewerId filterId =
     (if viewerId = None \<or> Some (a_actor_id event) \<noteq> viewerId then False
      else let eventTypes = eventTypesForActivityFilter filterId
        in if eventTypes \<noteq> [] then a_event_type event \<in> set eventTypes else True)"

section \<open>Notifications\<close>

definition getNotificationTypeLabel :: "string \<Rightarrow> string" where
  "getNotificationTypeLabel t =
     (if t = ''dashboard.share_added'' then ''Access added''
      else if t = ''dashboard.share_updated'' then ''Access updated''
      else if t = ''dashboard.share_removed'' then ''Access removed''
      else if t = ''dashboard.deleted'' then ''Dashboard deleted''
      else ''Notification'')"

definition UNREACHABLE_REFERENCE_TYPES :: "string list" where
  "UNREACHABLE_REFERENCE_TYPES = [''dashboard.share_removed'', ''dashboard.deleted'']"

definition getNotificationDestination :: "notification \<Rightarrow> string option" where
  "getNotificationDestination n =
     (if n_type n \<in> set UNREACHABLE_REFERENCE_TYPES then Some ''/dashboards''
      else if n_reference_type n = Some ''dashboard'' \<and> truthy (n_reference_id n)
      then Some (''/dashboard/'' @ the (n_reference_id n))
      else None)"

section \<open>One sentence per event\<close>

definition format_dashboard_updated :: "activity_event \<Rightarrow> presentation" where
  "format_dashboard_updated event =
     (let payload = a_payload event; name = quoted (payloadString payload ''name'') ''a dashboard'' in
      case primaryChangedField (changed_of event) of
        Some Restored \<Rightarrow> row ''Dashboard'' (''You restored '' @ name @ '' from the trash.'')
      | Some Name \<Rightarrow> row ''Dashboard'' (''You renamed '' @ name @ ''.'')
      | Some Widgets \<Rightarrow>
          (let widget = widgetLabel payload; action = payloadString payload ''widget_action'' in
           if action = Some ''added'' then row ''Dashboard'' (''You added '' @ widget @ '' to '' @ name @ ''.'')
           else if action = Some ''removed'' then row ''Dashboard'' (''You removed '' @ widget @ '' from '' @ name @ ''.'')
           else row ''Dashboard'' (''You reconfigured '' @ widget @ '' on '' @ name @ ''.''))
      | Some Layout \<Rightarrow>
          (let action = payloadString payload ''layout_action'' in
           if action = Some ''moved'' \<or> action = Some ''resized'' then
             let verb = (if action = Some ''moved'' then ''moved'' else ''resized'')
             in row ''Dashboard'' (''You '' @ verb @ '' '' @ widgetLabel payload @ '' on '' @ name @ ''.'')
           else row ''Dashboard'' (''You rearranged widgets on '' @ name @ ''.''))
      | _ \<Rightarrow> row ''Dashboard'' (''You updated '' @ name @ ''.''))"

definition format_sharing :: "activity_event \<Rightarrow> presentation" where
  "format_sharing event =
     (let payload = a_payload event; t = a_event_type event;
          dashboardName = quoted (payloadString payload ''dashboard_name'') ''a dashboard'';
          role = payloadString payload ''role''; action = payloadString payload ''share_action'' in
      if t = ''dashboard.share_added'' then
        (if action = Some ''joined'' then
           row ''Sharing'' (case role of
             Some r \<Rightarrow> ''You joined '' @ dashboardName @ '' as '' @ r @ ''.''
           | None \<Rightarrow> ''You joined '' @ dashboardName @ ''.'')
         else row ''Sharing'' (''You granted '' @ (case role of Some r \<Rightarrow> r | None \<Rightarrow> ''shared'') @
                '' access to '' @ dashboardName @ ''.''))
      else if t = ''dashboard.share_updated'' then
        (if action = Some ''transferred'' then
           row ''Sharing'' (''You handed over '' @ dashboardName @ '' to its new owner.'')
         else \<lparr>ap_badge = ''Sharing'', ap_summary = ''You changed access on '' @ dashboardName @ ''.'',
                ap_detail = (case role of Some r \<Rightarrow> Some (''New role: '' @ r @ ''.'') | None \<Rightarrow> None)\<rparr>)
      else if action = Some ''left'' then row ''Sharing'' (''You left '' @ dashboardName @ ''.'')
      else row ''Sharing'' (''You removed access from '' @ dashboardName @ ''.''))"

definition format_list :: "activity_event \<Rightarrow> presentation" where
  "format_list event =
     (let payload = a_payload event; t = a_event_type event;
          name = quoted (payloadString payload ''name'') ''a list'' in
      if t = ''list.created'' then
        row ''List'' (if payloadBoolean payload ''restored'' = Some True
          then ''You restored '' @ name @ '' from the trash.'' else ''You created '' @ name @ ''.'')
      else if t = ''list.updated'' then row ''List'' (''You renamed '' @ name @ ''.'')
      else if t = ''list.deleted'' then row ''List'' (''You deleted '' @ name @ ''.'')
      else row ''List'' (case payloadString payload ''dashboard_name'' of
        Some d \<Rightarrow> ''You reordered lists in '' @ quoted (Some d) ''a dashboard'' @ ''.''
      | None \<Rightarrow> ''You reordered your lists.''))"

definition format_item :: "activity_event \<Rightarrow> presentation" where
  "format_item event =
     (let payload = a_payload event; t = a_event_type event;
          item = quoted (payloadString payload ''text'') ''a list item'';
          listName = payloadString payload ''list_name'';
          named = (\<lambda>verb prep. row ''List item'' (''You '' @ verb @ '' '' @ item @
            (case listName of Some l \<Rightarrow> '' '' @ prep @ '' '' @ quoted (Some l) '''' | None \<Rightarrow> '''') @ ''.''));
          checkedValue = (case map_of payload ''values'' of Some (JObj o') \<Rightarrow> payloadBoolean o' ''checked'' | _ \<Rightarrow> None) in
      if t = ''list.item.created'' then named ''added'' ''to''
      else if t = ''list.item.updated'' then named ''updated'' ''in''
      else if t = ''list.item.checked''
      then (if checkedValue = Some False then named ''unchecked'' ''in'' else named ''checked'' ''in'')
      else if t = ''list.item.deleted'' then named ''deleted'' ''from''
      else row ''List item'' (''You reordered items in '' @ quoted listName ''a list'' @ ''.''))"

definition format_calendar :: "feed_host \<Rightarrow> activity_event \<Rightarrow> presentation" where
  "format_calendar fh event =
     (let payload = a_payload event; t = a_event_type event;
          title = quoted (payloadString payload ''title'') ''an event'' in
      if t = ''calendar.event.created'' then row ''Calendar'' (''You created '' @ title @ ''.'')
      else if t = ''calendar.event.updated'' then row ''Calendar'' (''You updated '' @ title @ ''.'')
      else if t = ''calendar.event.deleted'' then row ''Calendar'' (''You deleted '' @ title @ ''.'')
      else if t = ''calendar.event.occurrence.updated''
      then row ''Calendar'' (''You updated the '' @ occurrenceLabel fh payload @ '' of '' @ title @ ''.'')
      else row ''Calendar'' (''You cancelled the '' @ occurrenceLabel fh payload @ '' of '' @ title @ ''.''))"

text \<open>The switch: which arm an event type is in.\<close>

definition formatActivityEvent :: "feed_host \<Rightarrow> activity_event \<Rightarrow> presentation" where
  "formatActivityEvent fh event =
     (let t = a_event_type event; name = quoted (payloadString (a_payload event) ''name'') ''a dashboard'' in
      if t = ''dashboard.created'' then row ''Dashboard'' (''You created '' @ name @ ''.'')
      else if t = ''dashboard.deleted'' then row ''Dashboard'' (''You deleted '' @ name @ ''.'')
      else if t = ''dashboard.updated'' then format_dashboard_updated event
      else if t \<in> set [''dashboard.share_added'', ''dashboard.share_updated'', ''dashboard.share_removed'']
      then format_sharing event
      else if t \<in> set [''list.created'', ''list.updated'', ''list.deleted'', ''list.reordered''] then format_list event
      else if t \<in> set [''list.item.created'', ''list.item.updated'', ''list.item.checked'', ''list.item.deleted'',
        ''list.item.reordered''] then format_item event
      else if t \<in> set [''calendar.event.created'', ''calendar.event.updated'', ''calendar.event.deleted'',
        ''calendar.event.occurrence.updated'', ''calendar.event.occurrence.cancelled''] then format_calendar fh event
      else row ''Activity'' (humanizeEventType t))"

section \<open>Collapsed runs\<close>

record activity_group =
  ag_event :: activity_event
  ag_members :: "activity_event list"
  ag_entities :: nat

definition COLLAPSE_SUBJECT_FIELD :: "(string \<times> string) list" where
  "COLLAPSE_SUBJECT_FIELD =
     [(''list.item.checked'', ''list_id''), (''list.item.reordered'', ''list_id''),
      (''list.reordered'', ''dashboard_id'')]"

definition COLLAPSE_ON_ENTITY :: "string list" where
  "COLLAPSE_ON_ENTITY =
     [''list.updated'', ''list.item.updated'', ''calendar.event.updated'', ''calendar.event.occurrence.updated'']"

definition collapseKey :: "activity_event \<Rightarrow> string option" where
  "collapseKey event =
     (let t = a_event_type event; changedFields = changed_of event in
      if t \<in> set COLLAPSE_ON_ENTITY then Some (t @ '':'' @ a_entity_id event)
      else case map_of COLLAPSE_SUBJECT_FIELD t of
        Some subjectField \<Rightarrow>
          (case payloadString (a_payload event) subjectField of
             Some subject \<Rightarrow> Some (t @ '':'' @ subject) | None \<Rightarrow> None)
      | None \<Rightarrow>
          if t \<noteq> ''dashboard.updated'' then None
          else if isOnly changedFields Layout then Some (''dashboard.layout:'' @ a_entity_id event)
          else if isOnly changedFields Widgets
          then (case payloadString (a_payload event) ''widget_id'' of
                  Some w \<Rightarrow> Some (''dashboard.widget:'' @ w) | None \<Rightarrow> None)
          else None)"

definition COLLAPSE_WINDOW_MS :: int where
  "COLLAPSE_WINDOW_MS = 5 * 60 * 1000"

text \<open>\<open>runPreviousAt - at <= COLLAPSE_WINDOW_MS\<close>, false where either time is not a number.\<close>

definition withinWindow :: "int option \<Rightarrow> int option \<Rightarrow> bool" where
  "withinWindow previous at =
     (case (previous, at) of (Some p, Some a) \<Rightarrow> p - a \<le> COLLAPSE_WINDOW_MS | _ \<Rightarrow> False)"

text \<open>The loop, with the groups so far in reverse.\<close>

fun group_loop ::
    "feed_host \<Rightarrow> activity_group list \<Rightarrow> string option \<Rightarrow> int option \<Rightarrow> string list \<Rightarrow> activity_event list
     \<Rightarrow> activity_group list" where
  "group_loop fh groups runKey runPreviousAt runEntities [] = rev groups"
| "group_loop fh groups runKey runPreviousAt runEntities (event # events) =
     (let key = collapseKey event; at = fh_parse fh (a_created_at event) in
      case groups of
        latest # rest \<Rightarrow>
          if key \<noteq> None \<and> key = runKey \<and> withinWindow runPreviousAt at then
            let entities = List.insert (a_entity_id event) runEntities
            in group_loop fh (latest\<lparr>ag_members := ag_members latest @ [event], ag_entities := length entities\<rparr> # rest)
                 runKey at entities events
          else group_loop fh (\<lparr>ag_event = event, ag_members = [event], ag_entities = 1\<rparr> # latest # rest)
                 key at [a_entity_id event] events
      | [] \<Rightarrow> group_loop fh [\<lparr>ag_event = event, ag_members = [event], ag_entities = 1\<rparr>]
                 key at [a_entity_id event] events)"

definition groupActivityEvents :: "feed_host \<Rightarrow> activity_event list \<Rightarrow> activity_group list" where
  "groupActivityEvents fh events = group_loop fh [] None (Some 0) [] events"

definition formatActivityGroup :: "feed_host \<Rightarrow> activity_group \<Rightarrow> presentation" where
  "formatActivityGroup fh g =
     (let event = ag_event g in
      if length (ag_members g) > 1 \<and> isLayoutEvent event
      then row ''Dashboard'' (''You rearranged widgets on '' @
             quoted (payloadString (a_payload event) ''name'') ''a dashboard'' @ ''.'')
      else if ag_entities g > 1 \<and> a_event_type event = ''list.item.checked''
      then row ''List item'' (''You updated checkboxes'' @
             (case payloadString (a_payload event) ''list_name'' of
                Some l \<Rightarrow> '' in '' @ quoted (Some l) '''' | None \<Rightarrow> '''') @ ''.'')
      else formatActivityEvent fh event)"

section \<open>The gate mirrors the endpoint\<close>

text \<open>\<open>GET /api/activity\<close> (\<open>backend/app/routers/notifications.py\<close>) on a log that is newest first.\<close>

definition list_activity ::
    "string \<Rightarrow> string list \<Rightarrow> int option \<Rightarrow> activity_event list \<Rightarrow> activity_event list" where
  "list_activity user event_type before_event_id log =
     take 50 (filter (\<lambda>e. a_actor_id e = user \<and> (event_type \<noteq> [] \<longrightarrow> a_event_type e \<in> set event_type) \<and>
       (case before_event_id of Some b \<Rightarrow> a_event_id e < b | None \<Rightarrow> True)) log)"

text \<open>
  A live frame is let into the feed exactly when the endpoint, asked with the same filter, serves its event
  to the same reader.
\<close>

theorem live_gate_mirrors_endpoint:
  "isOwnFeedActivity event (Some viewer) filterId \<longleftrightarrow>
     event \<in> set (list_activity viewer (eventTypesForActivityFilter filterId) None [event])"
  by (simp add: isOwnFeedActivity_def list_activity_def Let_def)

section \<open>Runs\<close>

definition joins :: "feed_host \<Rightarrow> activity_event \<Rightarrow> activity_event \<Rightarrow> bool" where
  "joins fh e e' \<longleftrightarrow> collapseKey e' \<noteq> None \<and> collapseKey e' = collapseKey e \<and>
     withinWindow (fh_parse fh (a_created_at e)) (fh_parse fh (a_created_at e'))"

definition run_group :: "feed_host \<Rightarrow> activity_group \<Rightarrow> bool" where
  "run_group fh g \<longleftrightarrow> ag_members g \<noteq> [] \<and> ag_event g = hd (ag_members g) \<and>
     successively (joins fh) (ag_members g) \<and> ag_entities g = card (a_entity_id ` set (ag_members g))"

definition runs_apart :: "feed_host \<Rightarrow> activity_group \<Rightarrow> activity_group \<Rightarrow> bool" where
  "runs_apart fh g g' \<longleftrightarrow> \<not> joins fh (last (ag_members g)) (hd (ag_members g'))"

text \<open>What the loop knows: the groups so far are the runs of the events so far, and the open run's key, time and entities.\<close>

definition loop_ok ::
    "feed_host \<Rightarrow> activity_group list \<Rightarrow> string option \<Rightarrow> int option \<Rightarrow> string list \<Rightarrow> bool" where
  "loop_ok fh groups runKey runPreviousAt runEntities \<longleftrightarrow>
     list_all (run_group fh) groups \<and> successively (\<lambda>g g'. runs_apart fh g' g) groups \<and>
     (case groups of
        [] \<Rightarrow> True
      | g # _ \<Rightarrow>
          runKey = collapseKey (last (ag_members g)) \<and>
          runPreviousAt = fh_parse fh (a_created_at (last (ag_members g))) \<and>
          distinct runEntities \<and> set runEntities = a_entity_id ` set (ag_members g))"

lemma run_group_single: "run_group fh \<lparr>ag_event = e, ag_members = [e], ag_entities = 1\<rparr>"
  by (simp add: run_group_def)

lemma loop_ok_open:
  assumes "loop_ok fh (g # gs) k at ents"
    "\<not> (collapseKey e \<noteq> None \<and> collapseKey e = k \<and> withinWindow at (fh_parse fh (a_created_at e)))"
  shows "loop_ok fh (\<lparr>ag_event = e, ag_members = [e], ag_entities = 1\<rparr> # g # gs)
     (collapseKey e) (fh_parse fh (a_created_at e)) [a_entity_id e]"
  using assms run_group_single [of fh e] by (auto simp: loop_ok_def runs_apart_def joins_def)

lemma successively_snoc:
  "xs \<noteq> [] \<Longrightarrow> successively P (xs @ [x]) \<longleftrightarrow> successively P xs \<and> P (last xs) x"
  by (simp add: successively_append_iff)

lemma loop_ok_join:
  assumes "loop_ok fh (g # gs) k at ents"
    "collapseKey e \<noteq> None" "collapseKey e = k" "withinWindow at (fh_parse fh (a_created_at e))"
  shows "loop_ok fh (g\<lparr>ag_members := ag_members g @ [e], ag_entities := length (List.insert (a_entity_id e) ents)\<rparr> # gs)
     k (fh_parse fh (a_created_at e)) (List.insert (a_entity_id e) ents)"
proof -
  let ?ents = "List.insert (a_entity_id e) ents"
  have g: "run_group fh g" "k = collapseKey (last (ag_members g))" "at = fh_parse fh (a_created_at (last (ag_members g)))"
    "distinct ents" "set ents = a_entity_id ` set (ag_members g)" using assms(1) by (simp_all add: loop_ok_def)
  have ents: "distinct ?ents" "set ?ents = a_entity_id ` set (ag_members g @ [e])" using g(4,5) by auto
  have "run_group fh (g\<lparr>ag_members := ag_members g @ [e], ag_entities := length ?ents\<rparr>)"
    using g assms(2-4) distinct_card [OF ents(1)] ents(2)
    by (simp add: run_group_def successively_snoc joins_def)
  moreover have "successively (\<lambda>g g'. runs_apart fh g' g) (g\<lparr>ag_members := ag_members g @ [e], ag_entities := length ?ents\<rparr> # gs)"
    using assms(1) g(1) by (cases gs) (simp_all add: loop_ok_def runs_apart_def run_group_def)
  ultimately show ?thesis using assms(1,3) ents by (simp add: loop_ok_def)
qed

lemma group_loop_runs:
  "loop_ok fh gs k at ents \<Longrightarrow>
     list_all (run_group fh) (group_loop fh gs k at ents es) \<and>
     successively (runs_apart fh) (group_loop fh gs k at ents es) \<and>
     concat (map ag_members (group_loop fh gs k at ents es)) = concat (map ag_members (rev gs)) @ es"
proof (induction es arbitrary: gs k at ents)
  case Nil
  then show ?case by (simp add: loop_ok_def successively_rev)
next
  case (Cons e es)
  show ?case
  proof (cases gs)
    case Nil
    have "loop_ok fh [\<lparr>ag_event = e, ag_members = [e], ag_entities = 1\<rparr>]
        (collapseKey e) (fh_parse fh (a_created_at e)) [a_entity_id e]"
      using run_group_single [of fh e] by (simp add: loop_ok_def)
    from Cons.IH [OF this] show ?thesis by (simp add: Nil)
  next
    case (Cons g rest)
    show ?thesis
    proof (cases "collapseKey e \<noteq> None \<and> collapseKey e = k \<and> withinWindow at (fh_parse fh (a_created_at e))")
      case True
      with Cons.prems Cons have "loop_ok fh (g\<lparr>ag_members := ag_members g @ [e],
          ag_entities := length (List.insert (a_entity_id e) ents)\<rparr> # rest) k (fh_parse fh (a_created_at e))
          (List.insert (a_entity_id e) ents)" by (intro loop_ok_join) auto
      from Cons.IH [OF this] show ?thesis
        unfolding Cons group_loop.simps list.case Let_def if_P [OF True] using True by simp
    next
      case False
      with Cons.prems Cons have "loop_ok fh (\<lparr>ag_event = e, ag_members = [e], ag_entities = 1\<rparr> # g # rest)
          (collapseKey e) (fh_parse fh (a_created_at e)) [a_entity_id e]" by (intro loop_ok_open) auto
      from Cons.IH [OF this] show ?thesis
        unfolding Cons group_loop.simps list.case Let_def if_not_P [OF False] by simp
    qed
  qed
qed

text \<open>C31. 
  The feed's rows are its maximal runs: every event is in exactly one row and in order, a row is headed by its
  newest event, its neighbours share a key and lie within the window, its count of entities is right, and no
  two neighbouring rows could have been one.
\<close>

theorem groups_are_maximal_runs:
  "concat (map ag_members (groupActivityEvents fh events)) = events \<and>
   list_all (run_group fh) (groupActivityEvents fh events) \<and>
   successively (runs_apart fh) (groupActivityEvents fh events)"
proof -
  have "loop_ok fh [] None (Some 0) []" by (simp add: loop_ok_def)
  from group_loop_runs [OF this, of events] show ?thesis by (simp add: groupActivityEvents_def)
qed

end
