(* ===== verification/NotificationsStore.thy ===== *)
theory NotificationsStore
  imports ActivityFeed SessionGuard
begin

text \<open>
  The notifications store (\<open>frontend/src/stores/notifications.ts\<close>). What components read is the view \<open>nv\<close>; the
  module variables are fields beside it: the five promises with the number of the request they stand for, the
  token of the newest activity request, the cursor, and the session's generation. A parked request is a task
  with what its continuation captured. Writes through the session guard are \<open>ns_set\<close>.

  The lemmas: no row is shown twice and a spinner has a request of this session behind it, in every run; answers
  of an earlier session change nothing that is shown; and fed in step with the server's log, the feed is the log's
  newest rows. Two traces show what interleaving still loses.
\<close>

record notifications_view =
  nv_notifications :: "notification list"
  nv_unreadCount :: int
  nv_panelOpen :: bool
  nv_loaded :: bool
  nv_loadFailed :: bool
  nv_hasMore :: bool
  nv_loadingMore :: bool
  nv_activity :: "activity_event list"
  nv_activityLoaded :: bool
  nv_activityLoading :: bool
  nv_activityFailed :: bool
  nv_activityHasMore :: bool
  nv_activityLoadingMore :: bool
  nv_activityFilter :: string

datatype notif_task =
    LoadTask
  | LoadMoreTask "string"
  | UnreadTask
  | MarkReadTask string
  | MarkAllTask
  | ActivityTask nat string
  | ActivityMoreTask string int

record notif_store =
  ns_view :: notifications_view
  ns_generation :: nat
  ns_notificationsPromise :: "nat option"
  ns_unreadCountPromise :: "nat option"
  ns_loadMorePromise :: "nat option"
  ns_activityPromise :: "nat option"
  ns_activityLoadMorePromise :: "nat option"
  ns_activityRequestToken :: nat
  ns_nextCursor :: "string option"
  ns_tasks :: "(nat \<times> nat \<times> notif_task) list"
  ns_next :: nat

definition ACTIVITY_PAGE_SIZE :: nat where
  "ACTIVITY_PAGE_SIZE = 50"

definition initial_view :: notifications_view where
  "initial_view = \<lparr>nv_notifications = [], nv_unreadCount = 0, nv_panelOpen = False, nv_loaded = False,
     nv_loadFailed = False, nv_hasMore = False, nv_loadingMore = False, nv_activity = [],
     nv_activityLoaded = False, nv_activityLoading = False, nv_activityFailed = False,
     nv_activityHasMore = False, nv_activityLoadingMore = False, nv_activityFilter = ACTIVITY_FILTER_ALL\<rparr>"

definition initial_notif_store :: notif_store where
  "initial_notif_store = \<lparr>ns_view = initial_view, ns_generation = 0, ns_notificationsPromise = None,
     ns_unreadCountPromise = None, ns_loadMorePromise = None, ns_activityPromise = None,
     ns_activityLoadMorePromise = None, ns_activityRequestToken = 0, ns_nextCursor = None,
     ns_tasks = [], ns_next = 0\<rparr>"

definition ns_set :: "(notifications_view \<Rightarrow> notifications_view) \<Rightarrow> notif_store \<Rightarrow> notif_store" where
  "ns_set f st = st\<lparr>ns_view := f (ns_view st)\<rparr>"

text \<open>\<open>guard.set\<close> of a continuation that started in session \<open>g\<close>.\<close>

definition guard_set :: "nat \<Rightarrow> (notifications_view \<Rightarrow> notifications_view) \<Rightarrow> notif_store \<Rightarrow> notif_store" where
  "guard_set g f st = (if g = ns_generation st then ns_set f st else st)"

definition ns_park :: "notif_task \<Rightarrow> notif_store \<Rightarrow> notif_store" where
  "ns_park t st = st\<lparr>ns_tasks := (ns_next st, ns_generation st, t) # ns_tasks st, ns_next := ns_next st + 1\<rparr>"

definition ns_unpark :: "nat \<Rightarrow> notif_store \<Rightarrow> notif_store" where
  "ns_unpark n st = st\<lparr>ns_tasks := AList.delete n (ns_tasks st)\<rparr>"

section \<open>Notifications\<close>

definition loadNotifications :: "notif_store \<Rightarrow> notif_store" where
  "loadNotifications st =
     (if ns_notificationsPromise st \<noteq> None then st
      else ns_park LoadTask (st\<lparr>ns_notificationsPromise := Some (ns_next st)\<rparr>))"

definition notificationsReply :: "nat \<Rightarrow> notification_page reply \<Rightarrow> notif_store \<Rightarrow> notif_store" where
  "notificationsReply g reply st =
     (case reply of
        Inr page \<Rightarrow>
          guard_set g (\<lambda>v. v\<lparr>nv_notifications := np_items page, nv_loaded := True, nv_loadFailed := False,
              nv_hasMore := (np_next_cursor page \<noteq> None)\<rparr>) (st\<lparr>ns_nextCursor := np_next_cursor page\<rparr>)
      | Inl err \<Rightarrow> guard_set g (\<lambda>v. v\<lparr>nv_loadFailed := \<not> nv_loaded v\<rparr>) st)
     \<lparr>ns_notificationsPromise := None\<rparr>"

definition loadMore :: "notif_store \<Rightarrow> notif_store" where
  "loadMore st =
     (if ns_loadMorePromise st \<noteq> None then st
      else case ns_nextCursor st of
        None \<Rightarrow> st
      | Some cursor \<Rightarrow>
          ns_park (LoadMoreTask cursor)
            (ns_set (\<lambda>v. v\<lparr>nv_loadingMore := True\<rparr>) (st\<lparr>ns_loadMorePromise := Some (ns_next st)\<rparr>)))"

definition append_page :: "notification_page \<Rightarrow> notifications_view \<Rightarrow> notifications_view" where
  "append_page page v =
     (let known = set (map n_id (nv_notifications v)) in
      v\<lparr>nv_notifications := nv_notifications v @ filter (\<lambda>n. n_id n \<notin> known) (np_items page),
        nv_hasMore := (np_next_cursor page \<noteq> None), nv_loadingMore := False\<rparr>)"

definition loadMoreReply :: "nat \<Rightarrow> notification_page reply \<Rightarrow> notif_store \<Rightarrow> notif_store" where
  "loadMoreReply g reply st =
     (case reply of
        Inr page \<Rightarrow> guard_set g (append_page page) (st\<lparr>ns_nextCursor := np_next_cursor page\<rparr>)
      | Inl err \<Rightarrow> guard_set g (\<lambda>v. v\<lparr>nv_loadingMore := False\<rparr>) st)
     \<lparr>ns_loadMorePromise := None\<rparr>"

definition loadUnreadCount :: "notif_store \<Rightarrow> notif_store" where
  "loadUnreadCount st =
     (if ns_unreadCountPromise st \<noteq> None then st
      else ns_park UnreadTask (st\<lparr>ns_unreadCountPromise := Some (ns_next st)\<rparr>))"

definition unreadReply :: "nat \<Rightarrow> int reply \<Rightarrow> notif_store \<Rightarrow> notif_store" where
  "unreadReply g reply st =
     (case reply of Inr count' \<Rightarrow> guard_set g (\<lambda>v. v\<lparr>nv_unreadCount := count'\<rparr>) st | Inl err \<Rightarrow> st)
     \<lparr>ns_unreadCountPromise := None\<rparr>"

definition markRead :: "string \<Rightarrow> notif_store \<Rightarrow> notif_store" where
  "markRead i st = ns_park (MarkReadTask i) st"

definition mark_one :: "string \<Rightarrow> notification \<Rightarrow> notifications_view \<Rightarrow> notifications_view" where
  "mark_one i updated v =
     (let becameRead = (case find (\<lambda>n. n_id n = i) (nv_notifications v) of
                          Some current \<Rightarrow> n_read_at current = None | None \<Rightarrow> False) \<and> n_read_at updated \<noteq> None
      in v\<lparr>nv_notifications := map (\<lambda>n. if n_id n = i then updated else n) (nv_notifications v),
           nv_unreadCount := (if becameRead then max 0 (nv_unreadCount v - 1) else nv_unreadCount v)\<rparr>)"

definition markReadReply :: "nat \<Rightarrow> string \<Rightarrow> notification reply \<Rightarrow> notif_store \<Rightarrow> notif_store" where
  "markReadReply g i reply st = (case reply of Inr updated \<Rightarrow> guard_set g (mark_one i updated) st | Inl err \<Rightarrow> st)"

definition markAllRead :: "notif_store \<Rightarrow> notif_store" where
  "markAllRead st = ns_park MarkAllTask st"

definition mark_all :: "string \<Rightarrow> notifications_view \<Rightarrow> notifications_view" where
  "mark_all now v =
     v\<lparr>nv_notifications := map (\<lambda>n. if n_read_at n = None then n\<lparr>n_read_at := Some now\<rparr> else n) (nv_notifications v),
       nv_unreadCount := 0\<rparr>"

definition markAllReply :: "nat \<Rightarrow> string \<Rightarrow> bool \<Rightarrow> notif_store \<Rightarrow> notif_store" where
  "markAllReply g now succeeded st = (if succeeded then guard_set g (mark_all now) st else st)"

definition setPanelOpen :: "bool \<Rightarrow> notif_store \<Rightarrow> notif_store" where
  "setPanelOpen open' st =
     (let st = ns_set (\<lambda>v. v\<lparr>nv_panelOpen := open'\<rparr>) st
      in if open' \<and> \<not> nv_loaded (ns_view st) then loadNotifications st else st)"

definition addFromSse :: "notification \<Rightarrow> notif_store \<Rightarrow> notif_store" where
  "addFromSse notif =
     ns_set (\<lambda>v.
       if n_id notif \<in> set (map n_id (nv_notifications v)) then v
       else v\<lparr>nv_notifications := notif # nv_notifications v,
              nv_unreadCount := (if n_read_at notif = None then nv_unreadCount v + 1 else nv_unreadCount v)\<rparr>)"

section \<open>Activity\<close>

definition loadActivity :: "bool \<Rightarrow> notif_store \<Rightarrow> notif_store" where
  "loadActivity force st =
     (if \<not> force \<and> nv_activityLoaded (ns_view st) then st
      else if ns_activityPromise st \<noteq> None then st
      else let token = ns_activityRequestToken st + 1 in
        ns_park (ActivityTask token (nv_activityFilter (ns_view st)))
          (ns_set (\<lambda>v. v\<lparr>nv_activityLoading := True\<rparr>)
             (st\<lparr>ns_activityRequestToken := token, ns_activityPromise := Some (ns_next st)\<rparr>)))"

definition activityReply :: "nat \<Rightarrow> nat \<Rightarrow> activity_event list reply \<Rightarrow> notif_store \<Rightarrow> notif_store" where
  "activityReply g token reply st =
     (if token \<noteq> ns_activityRequestToken st then st
      else (guard_set g (\<lambda>v. v\<lparr>nv_activityLoading := False\<rparr>)
        (case reply of
           Inr activity \<Rightarrow>
             guard_set g (\<lambda>v. v\<lparr>nv_activity := activity, nv_activityLoaded := True, nv_activityFailed := False,
               nv_activityHasMore := (length activity = ACTIVITY_PAGE_SIZE)\<rparr>) st
         | Inl err \<Rightarrow> guard_set g (\<lambda>v. v\<lparr>nv_activityFailed := \<not> nv_activityLoaded v\<rparr>) st))
        \<lparr>ns_activityPromise := None\<rparr>)"

definition loadMoreActivity :: "notif_store \<Rightarrow> notif_store" where
  "loadMoreActivity st =
     (if ns_activityLoadMorePromise st \<noteq> None \<or> nv_activity (ns_view st) = [] \<or> nv_activityLoadingMore (ns_view st)
      then st
      else ns_park (ActivityMoreTask (nv_activityFilter (ns_view st)) (a_event_id (last (nv_activity (ns_view st)))))
        (ns_set (\<lambda>v. v\<lparr>nv_activityLoadingMore := True\<rparr>)
           (st\<lparr>ns_activityLoadMorePromise := Some (ns_next st)\<rparr>)))"

definition append_older :: "activity_event list \<Rightarrow> notifications_view \<Rightarrow> notifications_view" where
  "append_older older v =
     (let known = set (map a_event_id (nv_activity v)) in
      v\<lparr>nv_activity := nv_activity v @ filter (\<lambda>e. a_event_id e \<notin> known) older,
        nv_activityHasMore := (length older = ACTIVITY_PAGE_SIZE)\<rparr>)"

definition activityMoreReply ::
    "nat \<Rightarrow> string \<Rightarrow> activity_event list reply \<Rightarrow> notif_store \<Rightarrow> notif_store" where
  "activityMoreReply g filterId reply st =
     (guard_set g (\<lambda>v. v\<lparr>nv_activityLoadingMore := False\<rparr>)
        (case reply of
           Inr older \<Rightarrow>
             if nv_activityFilter (ns_view st) \<noteq> filterId then st else guard_set g (append_older older) st
         | Inl err \<Rightarrow> st))
     \<lparr>ns_activityLoadMorePromise := None\<rparr>"

definition setActivityFilter :: "string \<Rightarrow> notif_store \<Rightarrow> notif_store" where
  "setActivityFilter filterId st =
     (if nv_activityFilter (ns_view st) = filterId then st
      else loadActivity False
        (ns_set (\<lambda>v. v\<lparr>nv_activityFilter := filterId, nv_activity := [], nv_activityLoaded := False,
             nv_activityHasMore := False\<rparr>) (st\<lparr>ns_activityPromise := None\<rparr>)))"

definition addActivityFromSse :: "activity_event \<Rightarrow> string option \<Rightarrow> notif_store \<Rightarrow> notif_store" where
  "addActivityFromSse event viewerId st =
     (if \<not> nv_activityLoaded (ns_view st) then st
      else if \<not> isOwnFeedActivity event viewerId (nv_activityFilter (ns_view st)) then st
      else ns_set (\<lambda>v.
        if a_event_id event \<in> set (map a_event_id (nv_activity v)) then v
        else v\<lparr>nv_activity := event # nv_activity v\<rparr>) st)"

definition resetNotifications :: "notif_store \<Rightarrow> notif_store" where
  "resetNotifications st = st\<lparr>ns_generation := bumpSessionGeneration (ns_generation st), ns_notificationsPromise := None,
     ns_unreadCountPromise := None, ns_loadMorePromise := None, ns_activityPromise := None,
     ns_activityLoadMorePromise := None, ns_activityRequestToken := ns_activityRequestToken st + 1,
     ns_nextCursor := None, ns_view := initial_view\<rparr>"

section \<open>The store as a machine\<close>

datatype notif_answer =
    PageAnswer "notification_page reply"
  | CountAnswer "int reply"
  | RowAnswer "notification reply"
  | MarkedAnswer string bool
  | EventsAnswer "activity_event list reply"

definition notif_reply :: "nat \<Rightarrow> notif_answer \<Rightarrow> notif_store \<Rightarrow> notif_store" where
  "notif_reply n answer st =
     (case map_of (ns_tasks st) n of
        None \<Rightarrow> st
      | Some (g, t) \<Rightarrow>
          (case (t, answer) of
             (LoadTask, PageAnswer r) \<Rightarrow> notificationsReply g r (ns_unpark n st)
           | (LoadMoreTask c, PageAnswer r) \<Rightarrow> loadMoreReply g r (ns_unpark n st)
           | (UnreadTask, CountAnswer r) \<Rightarrow> unreadReply g r (ns_unpark n st)
           | (MarkReadTask i, RowAnswer r) \<Rightarrow> markReadReply g i r (ns_unpark n st)
           | (MarkAllTask, MarkedAnswer now b) \<Rightarrow> markAllReply g now b (ns_unpark n st)
           | (ActivityTask k f, EventsAnswer r) \<Rightarrow> activityReply g k r (ns_unpark n st)
           | (ActivityMoreTask f b, EventsAnswer r) \<Rightarrow> activityMoreReply g f r (ns_unpark n st)
           | _ \<Rightarrow> st))"

datatype notif_event =
    Load | LoadMore | LoadUnread | MarkRead string | MarkAllRead | SetPanel bool | SseNotification notification
  | LoadActivity bool | LoadMoreActivity | SetFilter string | SseActivity activity_event "string option"
  | Reset | Answer nat notif_answer

fun notif_step :: "notif_event \<Rightarrow> notif_store \<Rightarrow> notif_store" where
  "notif_step Load st = loadNotifications st"
| "notif_step LoadMore st = loadMore st"
| "notif_step LoadUnread st = loadUnreadCount st"
| "notif_step (MarkRead i) st = markRead i st"
| "notif_step MarkAllRead st = markAllRead st"
| "notif_step (SetPanel b) st = setPanelOpen b st"
| "notif_step (SseNotification n) st = addFromSse n st"
| "notif_step (LoadActivity force) st = loadActivity force st"
| "notif_step LoadMoreActivity st = loadMoreActivity st"
| "notif_step (SetFilter f) st = setActivityFilter f st"
| "notif_step (SseActivity e v) st = addActivityFromSse e v st"
| "notif_step Reset st = resetNotifications st"
| "notif_step (Answer n a) st = notif_reply n a st"

section \<open>Late answers of an earlier session\<close>

definition notif_origin :: "notif_event \<Rightarrow> notif_store \<Rightarrow> nat option" where
  "notif_origin e st = (case e of Answer n a \<Rightarrow> map_option fst (map_of (ns_tasks st) n) | _ \<Rightarrow> None)"

lemma guard_set_stale [simp]: "g \<noteq> ns_generation st \<Longrightarrow> guard_set g f st = st"
  by (simp add: guard_set_def)

lemma guard_set_generation [simp]: "ns_generation (guard_set g f st) = ns_generation st"
  by (simp add: guard_set_def ns_set_def)

lemma unpark_frame [simp]:
  "ns_view (ns_unpark n st) = ns_view st" "ns_generation (ns_unpark n st) = ns_generation st"
  by (simp_all add: ns_unpark_def)

lemmas notif_replies = notificationsReply_def loadMoreReply_def unreadReply_def markReadReply_def markAllReply_def
  activityReply_def activityMoreReply_def

lemma stale_reply:
  assumes "notif_origin e st = Some g" "g \<noteq> ns_generation st"
  shows "ns_view (notif_step e st) = ns_view st" "ns_generation (notif_step e st) = ns_generation st"
proof -
  obtain n a t where e: "e = Answer n a" "map_of (ns_tasks st) n = Some (g, t)"
    using assms(1) by (auto simp: notif_origin_def split: notif_event.splits)
  show "ns_view (notif_step e st) = ns_view st"
    using assms(2) e
    by (cases t; cases a) (auto simp: notif_reply_def notif_replies split: sum.split)
  show "ns_generation (notif_step e st) = ns_generation st"
    using assms(2) e
    by (cases t; cases a) (auto simp: notif_reply_def notif_replies split: sum.split)
qed

interpretation notif_session: guarded_store notif_step ns_generation notif_origin ns_view
  by unfold_locales (use stale_reply in auto)

text \<open>However many answers of earlier sessions arrive, nothing the pages read changes.\<close>

theorem old_session_answers_unseen:
  assumes "stale_run notif_step ns_generation notif_origin es st"
  shows "ns_view (fold notif_step es st) = ns_view st"
  using notif_session.late_answers_unseen [OF assms] by simp

theorem old_session_answers_unseen_witness:
  "ns_view (fold notif_step [Answer 0 (PageAnswer (Inr \<lparr>np_items = [], np_next_cursor = Some ''c''\<rparr>))]
      (fold notif_step [Load, Reset] initial_notif_store)) = initial_view"
proof -
  have k: "stale_run notif_step ns_generation notif_origin
      [Answer 0 (PageAnswer (Inr \<lparr>np_items = [], np_next_cursor = Some ''c''\<rparr>))]
      (fold notif_step [Load, Reset] initial_notif_store)" by code_simp
  have "ns_view (fold notif_step [Load, Reset] initial_notif_store) = initial_view"
    by (simp add: resetNotifications_def)
  then show ?thesis using old_session_answers_unseen [OF k] by simp
qed

text \<open>
  The cursor is no part of what is guarded: the first page of the last session, arriving late, moves where this
  session's next page starts.
\<close>

theorem late_page_moves_cursor:
  "let page = (\<lambda>c. PageAnswer (Inr \<lparr>np_items = [], np_next_cursor = Some c\<rparr>));
       st = fold notif_step [Load, Reset, Load, Answer 1 (page ''mine''), Answer 0 (page ''theirs''), LoadMore]
              initial_notif_store in
   map (snd \<circ> snd) (ns_tasks st) = [LoadMoreTask ''theirs''] \<and> nv_hasMore (ns_view st)"
  by code_simp

section \<open>Invariant\<close>

definition rows_ok :: "notifications_view \<Rightarrow> bool" where
  "rows_ok v \<longleftrightarrow> distinct (map n_id (nv_notifications v)) \<and> distinct (map a_event_id (nv_activity v)) \<and>
     0 \<le> nv_unreadCount v"

definition is_more :: "notif_task \<Rightarrow> bool" where
  "is_more t \<longleftrightarrow> (case t of LoadMoreTask c \<Rightarrow> True | _ \<Rightarrow> False)"

definition is_activity :: "nat \<Rightarrow> notif_task \<Rightarrow> bool" where
  "is_activity k t \<longleftrightarrow> (case t of ActivityTask j f \<Rightarrow> j = k | _ \<Rightarrow> False)"

definition is_older :: "notif_task \<Rightarrow> bool" where
  "is_older t \<longleftrightarrow> (case t of ActivityMoreTask f b \<Rightarrow> True | _ \<Rightarrow> False)"

definition awaited :: "(notif_task \<Rightarrow> bool) \<Rightarrow> notif_store \<Rightarrow> bool" where
  "awaited P st \<longleftrightarrow> list_ex (\<lambda>(n, g, t). g = ns_generation st \<and> P t) (ns_tasks st)"

definition spinners_ok :: "notif_store \<Rightarrow> bool" where
  "spinners_ok st \<longleftrightarrow>
     (nv_loadingMore (ns_view st) \<longrightarrow> awaited is_more st) \<and>
     (nv_activityLoading (ns_view st) \<longrightarrow> awaited (is_activity (ns_activityRequestToken st)) st) \<and>
     (nv_activityLoadingMore (ns_view st) \<longrightarrow> awaited is_older st)"

definition tasks_ok :: "notif_store \<Rightarrow> bool" where
  "tasks_ok st \<longleftrightarrow> distinct (map fst (ns_tasks st)) \<and> list_all (\<lambda>n. n < ns_next st) (map fst (ns_tasks st))"

definition notif_ok :: "notif_store \<Rightarrow> bool" where
  "notif_ok st \<longleftrightarrow> rows_ok (ns_view st) \<and> spinners_ok st \<and> tasks_ok st"

text \<open>What the server answers with: pages without repeats, a count, and the row that was asked for.\<close>

definition honest_answer :: "notif_event \<Rightarrow> notif_store \<Rightarrow> bool" where
  "honest_answer e st \<longleftrightarrow>
     (case e of
        Answer n (PageAnswer (Inr p)) \<Rightarrow> distinct (map n_id (np_items p))
      | Answer n (CountAnswer (Inr c)) \<Rightarrow> 0 \<le> c
      | Answer n (RowAnswer (Inr r)) \<Rightarrow>
          (case map_of (ns_tasks st) n of Some (_, MarkReadTask i) \<Rightarrow> n_id r = i | _ \<Rightarrow> True)
      | Answer n (EventsAnswer (Inr es)) \<Rightarrow> distinct (map a_event_id es)
      | _ \<Rightarrow> True)"

lemma awaited_cong [simp]:
  "awaited P (ns_set f st) = awaited P st" "awaited P (guard_set g f st) = awaited P st"
  "awaited P (st\<lparr>ns_notificationsPromise := x\<rparr>) = awaited P st"
  "awaited P (st\<lparr>ns_unreadCountPromise := x\<rparr>) = awaited P st"
  "awaited P (st\<lparr>ns_loadMorePromise := x\<rparr>) = awaited P st"
  "awaited P (st\<lparr>ns_activityPromise := x\<rparr>) = awaited P st"
  "awaited P (st\<lparr>ns_activityLoadMorePromise := x\<rparr>) = awaited P st"
  "awaited P (st\<lparr>ns_activityRequestToken := k\<rparr>) = awaited P st"
  "awaited P (st\<lparr>ns_nextCursor := c\<rparr>) = awaited P st"
  by (simp_all add: awaited_def ns_set_def guard_set_def)

lemma awaited_park [simp]: "awaited P (ns_park t st) \<longleftrightarrow> P t \<or> awaited P st"
  by (simp add: awaited_def ns_park_def)

lemma tasks_cong [simp]:
  "tasks_ok (ns_set f st) = tasks_ok st" "tasks_ok (guard_set g f st) = tasks_ok st"
  "tasks_ok (st\<lparr>ns_notificationsPromise := x\<rparr>) = tasks_ok st"
  "tasks_ok (st\<lparr>ns_unreadCountPromise := x\<rparr>) = tasks_ok st"
  "tasks_ok (st\<lparr>ns_loadMorePromise := x\<rparr>) = tasks_ok st"
  "tasks_ok (st\<lparr>ns_activityPromise := x\<rparr>) = tasks_ok st"
  "tasks_ok (st\<lparr>ns_activityLoadMorePromise := x\<rparr>) = tasks_ok st"
  "tasks_ok (st\<lparr>ns_activityRequestToken := k\<rparr>) = tasks_ok st"
  "tasks_ok (st\<lparr>ns_nextCursor := c\<rparr>) = tasks_ok st"
  by (simp_all add: tasks_ok_def ns_set_def guard_set_def)

lemma tasks_park [simp]: "tasks_ok st \<Longrightarrow> tasks_ok (ns_park t st)"
  by (fastforce simp: tasks_ok_def ns_park_def list_all_iff)

lemma tasks_unpark [simp]: "tasks_ok st \<Longrightarrow> tasks_ok (ns_unpark n st)"
  by (auto simp: tasks_ok_def ns_unpark_def list_all_iff AList.delete_eq distinct_map_filter)

lemma view_frame [simp]:
  "ns_view (ns_set f st) = f (ns_view st)" "ns_view (ns_park t st) = ns_view st"
  "ns_activityRequestToken (ns_set f st) = ns_activityRequestToken st"
  "ns_activityRequestToken (guard_set g f st) = ns_activityRequestToken st"
  "ns_activityRequestToken (ns_park t st) = ns_activityRequestToken st"
  "ns_activityRequestToken (ns_unpark n st) = ns_activityRequestToken st"
  by (simp_all add: ns_set_def ns_park_def guard_set_def ns_unpark_def)

text \<open>A task that settles takes away what a spinner waits for only if it is of this session and of that kind.\<close>

lemma awaited_unpark:
  assumes "awaited P st" "tasks_ok st" "map_of (ns_tasks st) n = Some (g, t)" "g \<noteq> ns_generation st \<or> \<not> P t"
  shows "awaited P (ns_unpark n st)"
proof -
  obtain m u where m: "(m, ns_generation st, u) \<in> set (ns_tasks st)" "P u"
    using assms(1) by (auto simp: awaited_def list_ex_iff)
  have "m \<noteq> n"
  proof
    assume "m = n"
    with m assms(2,3) have "(ns_generation st, u) = (g, t)" by (simp add: tasks_ok_def)
    with assms(4) m(2) show False by simp
  qed
  then have "(m, ns_generation st, u) \<in> set (ns_tasks (ns_unpark n st))"
    using m by (simp add: ns_unpark_def AList.delete_eq)
  with m(2) show ?thesis by (auto simp: awaited_def list_ex_iff intro!: bexI)
qed

lemma rows_frame [simp]:
  "rows_ok (v\<lparr>nv_panelOpen := b\<rparr>) = rows_ok v" "rows_ok (v\<lparr>nv_loadFailed := b\<rparr>) = rows_ok v"
  "rows_ok (v\<lparr>nv_loadingMore := b\<rparr>) = rows_ok v" "rows_ok (v\<lparr>nv_activityLoading := b\<rparr>) = rows_ok v"
  "rows_ok (v\<lparr>nv_activityFailed := b\<rparr>) = rows_ok v" "rows_ok (v\<lparr>nv_activityLoadingMore := b\<rparr>) = rows_ok v"
  by (simp_all add: rows_ok_def)

lemma distinct_append_new:
  "distinct (map f xs) \<Longrightarrow> distinct (map f ys) \<Longrightarrow> distinct (map f (xs @ filter (\<lambda>y. f y \<notin> set (map f xs)) ys))"
  by (auto simp: distinct_map_filter) (metis image_eqI)

lemma rows_append_page: "rows_ok v \<Longrightarrow> distinct (map n_id (np_items p)) \<Longrightarrow> rows_ok (append_page p v)"
  using distinct_append_new [of n_id "nv_notifications v" "np_items p"]
  by (simp add: rows_ok_def append_page_def Let_def)

lemma rows_append_older: "rows_ok v \<Longrightarrow> distinct (map a_event_id es) \<Longrightarrow> rows_ok (append_older es v)"
  using distinct_append_new [of a_event_id "nv_activity v" es]
  by (simp add: rows_ok_def append_older_def Let_def)

lemma map_keeps: "(\<And>x. f (g x) = f x) \<Longrightarrow> map f (map g xs) = map f xs"
  by simp

lemma rows_mark_one: "rows_ok v \<Longrightarrow> n_id r = i \<Longrightarrow> rows_ok (mark_one i r v)"
proof -
  assume v: "rows_ok v" "n_id r = i"
  have "map n_id (map (\<lambda>n. if n_id n = i then r else n) (nv_notifications v)) = map n_id (nv_notifications v)"
    by (rule map_keeps) (simp add: v(2))
  moreover have "nv_notifications (mark_one i r v) = map (\<lambda>n. if n_id n = i then r else n) (nv_notifications v)"
    "nv_activity (mark_one i r v) = nv_activity v" "0 \<le> nv_unreadCount v \<Longrightarrow> 0 \<le> nv_unreadCount (mark_one i r v)"
    by (simp_all add: mark_one_def Let_def)
  ultimately show ?thesis using v(1) unfolding rows_ok_def by presburger
qed

lemma rows_mark_all: "rows_ok v \<Longrightarrow> rows_ok (mark_all now v)"
proof -
  assume v: "rows_ok v"
  have "map n_id (nv_notifications (mark_all now v)) = map n_id (nv_notifications v)"
  proof -
    have "nv_notifications (mark_all now v) =
        map (\<lambda>n. if n_read_at n = None then n\<lparr>n_read_at := Some now\<rparr> else n) (nv_notifications v)"
      by (simp add: mark_all_def)
    then show ?thesis by (simp only:) (rule map_keeps, simp)
  qed
  moreover have "nv_activity (mark_all now v) = nv_activity v" "nv_unreadCount (mark_all now v) = 0"
    by (simp_all add: mark_all_def)
  ultimately show ?thesis using v by (simp add: rows_ok_def)
qed

lemma spinner_views:
  "nv_loadingMore (mark_one i r v) = nv_loadingMore v" "nv_activityLoading (mark_one i r v) = nv_activityLoading v"
  "nv_activityLoadingMore (mark_one i r v) = nv_activityLoadingMore v"
  "nv_loadingMore (mark_all now v) = nv_loadingMore v" "nv_activityLoading (mark_all now v) = nv_activityLoading v"
  "nv_activityLoadingMore (mark_all now v) = nv_activityLoadingMore v"
  "\<not> nv_loadingMore (append_page p v)" "nv_activityLoading (append_page p v) = nv_activityLoading v"
  "nv_activityLoadingMore (append_page p v) = nv_activityLoadingMore v"
  "nv_loadingMore (append_older es v) = nv_loadingMore v" "nv_activityLoading (append_older es v) = nv_activityLoading v"
  "nv_activityLoadingMore (append_older es v) = nv_activityLoadingMore v"
  by (simp_all add: mark_one_def mark_all_def append_page_def append_older_def Let_def)

lemmas kinds = is_more_def is_activity_def is_older_def


lemma requests_ok:
  assumes "notif_ok st"
  shows "notif_ok (loadNotifications st)" "notif_ok (loadMore st)" "notif_ok (loadUnreadCount st)"
    "notif_ok (markRead i st)" "notif_ok (markAllRead st)" "notif_ok (loadActivity force st)"
    "notif_ok (loadMoreActivity st)"
  using assms
  by (auto simp: notif_ok_def spinners_ok_def loadNotifications_def loadMore_def loadUnreadCount_def markRead_def
    markAllRead_def loadActivity_def loadMoreActivity_def Let_def kinds split: option.split)

lemma edits_ok:
  assumes "notif_ok st"
  shows "notif_ok (setPanelOpen b st)" "notif_ok (addFromSse r st)" "notif_ok (setActivityFilter f st)"
    "notif_ok (addActivityFromSse e v st)" "notif_ok (resetNotifications st)"
proof -
  have "notif_ok (ns_set (\<lambda>v. v\<lparr>nv_panelOpen := b\<rparr>) st)"
    using assms by (simp add: notif_ok_def spinners_ok_def)
  then show "notif_ok (setPanelOpen b st)" using requests_ok(1)
    by (cases b) (simp_all add: setPanelOpen_def Let_def)
  show "notif_ok (addFromSse r st)"
    using assms by (auto simp: notif_ok_def spinners_ok_def addFromSse_def rows_ok_def)
  have "notif_ok (ns_set (\<lambda>v. v\<lparr>nv_activityFilter := f, nv_activity := [], nv_activityLoaded := False,
             nv_activityHasMore := False\<rparr>) (st\<lparr>ns_activityPromise := None\<rparr>))"
    using assms by (simp add: notif_ok_def spinners_ok_def rows_ok_def)
  then show "notif_ok (setActivityFilter f st)" using requests_ok(6) assms by (simp add: setActivityFilter_def)
  show "notif_ok (addActivityFromSse e v st)"
    using assms by (auto simp: notif_ok_def spinners_ok_def addActivityFromSse_def rows_ok_def)
  show "notif_ok (resetNotifications st)"
    using assms by (simp add: notif_ok_def spinners_ok_def resetNotifications_def rows_ok_def initial_view_def
      tasks_ok_def)
qed

text \<open>What is left when a parked request has been taken off, before its continuation ran.\<close>

definition settled :: "nat \<Rightarrow> notif_task \<Rightarrow> notif_store \<Rightarrow> bool" where
  "settled g t st \<longleftrightarrow> rows_ok (ns_view st) \<and> tasks_ok st \<and>
     (nv_loadingMore (ns_view st) \<longrightarrow> awaited is_more st \<or> g = ns_generation st \<and> is_more t) \<and>
     (nv_activityLoading (ns_view st) \<longrightarrow> awaited (is_activity (ns_activityRequestToken st)) st \<or>
        g = ns_generation st \<and> is_activity (ns_activityRequestToken st) t) \<and>
     (nv_activityLoadingMore (ns_view st) \<longrightarrow> awaited is_older st \<or> g = ns_generation st \<and> is_older t)"

lemma unpark_settled:
  assumes "notif_ok st" "map_of (ns_tasks st) n = Some (g, t)"
  shows "settled g t (ns_unpark n st)"
  using assms awaited_unpark [OF _ _ assms(2)] by (auto simp: notif_ok_def spinners_ok_def settled_def)

lemma guard_view [simp]:
  "ns_view (guard_set g f st) = (if g = ns_generation st then f (ns_view st) else ns_view st)"
  by (simp add: guard_set_def)

lemma replies_ok:
  assumes "settled g t st"
  shows "t = LoadTask \<Longrightarrow> (case r of Inr p \<Rightarrow> distinct (map n_id (np_items p)) | _ \<Rightarrow> True) \<Longrightarrow>
      notif_ok (notificationsReply g r st)"
    "t = LoadMoreTask c \<Longrightarrow> (case r of Inr p \<Rightarrow> distinct (map n_id (np_items p)) | _ \<Rightarrow> True) \<Longrightarrow>
      notif_ok (loadMoreReply g r st)"
    "t = UnreadTask \<Longrightarrow> (case k of Inr c \<Rightarrow> 0 \<le> c | _ \<Rightarrow> True) \<Longrightarrow> notif_ok (unreadReply g k st)"
    "t = MarkReadTask i \<Longrightarrow> (case u of Inr x \<Rightarrow> n_id x = i | _ \<Rightarrow> True) \<Longrightarrow> notif_ok (markReadReply g i u st)"
    "t = MarkAllTask \<Longrightarrow> notif_ok (markAllReply g now b st)"
    "t = ActivityTask j f \<Longrightarrow> (case a of Inr es \<Rightarrow> distinct (map a_event_id es) | _ \<Rightarrow> True) \<Longrightarrow>
      notif_ok (activityReply g j a st)"
    "t = ActivityMoreTask f o' \<Longrightarrow> (case a of Inr es \<Rightarrow> distinct (map a_event_id es) | _ \<Rightarrow> True) \<Longrightarrow>
      notif_ok (activityMoreReply g f a st)"
proof -
  note d = notif_ok_def spinners_ok_def settled_def kinds spinner_views rows_append_page rows_append_older
    rows_mark_one rows_mark_all
  show "t = LoadTask \<Longrightarrow> (case r of Inr p \<Rightarrow> distinct (map n_id (np_items p)) | _ \<Rightarrow> True) \<Longrightarrow>
      notif_ok (notificationsReply g r st)"
    using assms by (cases r) (auto simp: d notificationsReply_def rows_ok_def)
  show "t = LoadMoreTask c \<Longrightarrow> (case r of Inr p \<Rightarrow> distinct (map n_id (np_items p)) | _ \<Rightarrow> True) \<Longrightarrow>
      notif_ok (loadMoreReply g r st)"
    using assms by (cases r) (auto simp: d loadMoreReply_def)
  show "t = UnreadTask \<Longrightarrow> (case k of Inr c \<Rightarrow> 0 \<le> c | _ \<Rightarrow> True) \<Longrightarrow> notif_ok (unreadReply g k st)"
    using assms by (cases k) (auto simp: d unreadReply_def rows_ok_def)
  show "t = MarkReadTask i \<Longrightarrow> (case u of Inr x \<Rightarrow> n_id x = i | _ \<Rightarrow> True) \<Longrightarrow> notif_ok (markReadReply g i u st)"
    using assms by (cases u) (auto simp: d markReadReply_def)
  show "t = MarkAllTask \<Longrightarrow> notif_ok (markAllReply g now b st)"
    using assms by (auto simp: d markAllReply_def)
  show "t = ActivityTask j f \<Longrightarrow> (case a of Inr es \<Rightarrow> distinct (map a_event_id es) | _ \<Rightarrow> True) \<Longrightarrow>
      notif_ok (activityReply g j a st)"
    using assms by (cases a) (auto simp: d activityReply_def rows_ok_def)
  show "t = ActivityMoreTask f o' \<Longrightarrow> (case a of Inr es \<Rightarrow> distinct (map a_event_id es) | _ \<Rightarrow> True) \<Longrightarrow>
      notif_ok (activityMoreReply g f a st)"
    using assms by (cases a) (auto simp: d activityMoreReply_def)
qed


lemma answer_ok:
  assumes "notif_ok st" "honest_answer (Answer n a) st"
  shows "notif_ok (notif_reply n a st)"
proof (cases "map_of (ns_tasks st) n")
  case None
  then show ?thesis using assms(1) by (simp add: notif_reply_def)
next
  case (Some p)
  obtain g t where p: "map_of (ns_tasks st) n = Some (g, t)" using Some by (cases p) simp
  note s = unpark_settled [OF assms(1) p]
  show ?thesis
    using assms p replies_ok [OF s]
    by (cases t; cases a)
      (auto simp: notif_reply_def honest_answer_def split: sum.splits)
qed

definition honest_step :: "notif_event \<Rightarrow> notif_store \<Rightarrow> notif_store" where
  "honest_step e st = (if honest_answer e st then notif_step e st else st)"

lemma honest_step_ok: "notif_ok st \<Longrightarrow> notif_ok (honest_step e st)"
  using answer_ok by (cases e) (simp_all add: honest_step_def requests_ok edits_ok)

interpretation notif_runs: event_machine honest_step notif_ok
  by unfold_locales (rule honest_step_ok)

lemma initial_notif_ok: "notif_ok initial_notif_store"
  by (simp add: notif_ok_def rows_ok_def spinners_ok_def tasks_ok_def initial_notif_store_def initial_view_def)

text \<open>C30. In every run, whatever overlaps with what: no notification and no event is shown twice, the unread count is not negative, and a spinner turns only while a request of this session is out that will stop it.\<close>

theorem notifications_in_every_run:
  "let st = fold honest_step es initial_notif_store; v = ns_view st;
       out = (\<lambda>P. list_ex (\<lambda>(n, g, t). g = ns_generation st \<and> P t) (ns_tasks st)) in
   distinct (map n_id (nv_notifications v)) \<and> distinct (map a_event_id (nv_activity v)) \<and> 0 \<le> nv_unreadCount v \<and>
   (\<not> nv_loadingMore v \<or> out is_more) \<and>
   (\<not> nv_activityLoading v \<or> out (is_activity (ns_activityRequestToken st))) \<and>
   (\<not> nv_activityLoadingMore v \<or> out is_older)"
  using notif_runs.run_inv [OF initial_notif_ok, of es]
  by (simp add: notif_ok_def rows_ok_def spinners_ok_def awaited_def Let_def)


section \<open>The feed and the server's log\<close>

text \<open>
  The store and the log, every request answered before anything else happens: an event is logged and its frame
  delivered, the tab is opened or refreshed, an older page is asked for, the filter changes. The log is newest
  first and numbers events upwards.
\<close>

datatype feed_event = Happens activity_event | Opens bool | Older | Filters string

definition answer_feed :: "string \<Rightarrow> activity_event list \<Rightarrow> notif_store \<Rightarrow> notif_store" where
  "answer_feed viewer log st =
     (case ns_tasks st of
        (n, g, ActivityTask k f) # _ \<Rightarrow>
          notif_reply n (EventsAnswer (Inr (list_activity viewer (eventTypesForActivityFilter f) None log))) st
      | (n, g, ActivityMoreTask f b) # _ \<Rightarrow>
          notif_reply n (EventsAnswer (Inr (list_activity viewer (eventTypesForActivityFilter f) (Some b) log))) st
      | _ \<Rightarrow> st)"

fun feed_step :: "string \<Rightarrow> feed_event \<Rightarrow> activity_event list \<times> notif_store \<Rightarrow> activity_event list \<times> notif_store" where
  "feed_step viewer (Happens e) (log, st) =
     (if list_all (\<lambda>o'. a_event_id o' < a_event_id e) log
      then (e # log, addActivityFromSse e (Some viewer) st) else (log, st))"
| "feed_step viewer (Opens force) (log, st) = (log, answer_feed viewer log (loadActivity force st))"
| "feed_step viewer Older (log, st) = (log, answer_feed viewer log (loadMoreActivity st))"
| "feed_step viewer (Filters f) (log, st) = (log, answer_feed viewer log (setActivityFilter f st))"

text \<open>The abstract feed: what the log holds for this reader and filter.\<close>

definition own_feed :: "string \<Rightarrow> string \<Rightarrow> activity_event list \<Rightarrow> activity_event list" where
  "own_feed viewer f log = filter (\<lambda>e. isOwnFeedActivity e (Some viewer) f) log"

definition mirrors :: "string \<Rightarrow> activity_event list \<Rightarrow> notifications_view \<Rightarrow> bool" where
  "mirrors viewer log v \<longleftrightarrow>
     (let feed = own_feed viewer (nv_activityFilter v) log in
      if nv_activityLoaded v
      then nv_activity v = take (length (nv_activity v)) feed \<and> (nv_activityHasMore v \<or> nv_activity v = feed)
      else nv_activity v = [])"

definition feed_ok :: "string \<Rightarrow> activity_event list \<times> notif_store \<Rightarrow> bool" where
  "feed_ok viewer w \<longleftrightarrow>
     (let log = fst w; st = snd w in
      sorted_wrt (\<lambda>a b. a_event_id b < a_event_id a) log \<and> mirrors viewer log (ns_view st) \<and>
      ns_tasks st = [] \<and> ns_activityPromise st = None \<and> ns_activityLoadMorePromise st = None)"

lemma own_feed_sorted:
  "sorted_wrt (\<lambda>a b. a_event_id b < a_event_id a) log \<Longrightarrow>
     sorted_wrt (\<lambda>a b. a_event_id b < a_event_id a) (own_feed viewer f log)"
  by (simp add: own_feed_def sorted_wrt_filter)

lemma list_activity_feed:
  "list_activity viewer (eventTypesForActivityFilter f) b log =
     take ACTIVITY_PAGE_SIZE (filter (\<lambda>e. case b of Some i \<Rightarrow> a_event_id e < i | None \<Rightarrow> True) (own_feed viewer f log))"
  unfolding list_activity_def own_feed_def filter_filter ACTIVITY_PAGE_SIZE_def
  by (rule arg_cong [where f = "take 50"], rule filter_cong) (auto simp: isOwnFeedActivity_def Let_def)

text \<open>In a list sorted downwards, what is below the last of a prefix is what follows the prefix.\<close>

lemma filter_below_prefix:
  "sorted_wrt (\<lambda>a b. k b < (k a :: int)) xs \<Longrightarrow> n < length xs \<Longrightarrow>
     filter (\<lambda>e. k e < k (xs ! n)) xs = drop (Suc n) xs"
proof (induction xs arbitrary: n)
  case (Cons x xs)
  show ?case
  proof (cases n)
    case 0
    then show ?thesis using Cons.prems by (simp add: filter_id_conv)
  next
    case (Suc m)
    then have "k (xs ! m) < k x" using Cons.prems by simp
    then have "\<not> k x < k (xs ! m)" by simp
    then show ?thesis using Suc Cons.prems Cons.IH [of m] by simp
  qed
qed simp

lemma take_min: "take (min (length xs) n) xs = take n xs"
  by (simp add: min_def)

lemma mirrors_frame [simp]:
  "mirrors viewer log (v\<lparr>nv_activityLoading := b\<rparr>) = mirrors viewer log v"
  "mirrors viewer log (v\<lparr>nv_activityLoadingMore := b\<rparr>) = mirrors viewer log v"
  by (simp_all add: mirrors_def)

lemmas feed_defs = answer_feed_def notif_reply_def ns_park_def ns_set_def guard_set_def ns_unpark_def

text \<open>A full read and an older page, each answered at once.\<close>

lemma read_answered:
  assumes "ns_tasks st = []" "ns_activityPromise st = None" "force \<or> \<not> nv_activityLoaded (ns_view st)"
  shows "answer_feed viewer log (loadActivity force st) =
     (let es = list_activity viewer (eventTypesForActivityFilter (nv_activityFilter (ns_view st))) None log in
      st\<lparr>ns_view := (ns_view st)\<lparr>nv_activity := es, nv_activityLoaded := True, nv_activityLoading := False,
           nv_activityFailed := False, nv_activityHasMore := (length es = ACTIVITY_PAGE_SIZE)\<rparr>,
         ns_activityRequestToken := ns_activityRequestToken st + 1, ns_next := ns_next st + 1\<rparr>)"
  using assms by (auto simp: loadActivity_def Let_def activityReply_def feed_defs)

lemma older_answered:
  assumes "ns_tasks st = []" "ns_activityLoadMorePromise st = None" "nv_activity (ns_view st) \<noteq> []"
    "\<not> nv_activityLoadingMore (ns_view st)"
  shows "answer_feed viewer log (loadMoreActivity st) =
     st\<lparr>ns_view := (append_older (list_activity viewer (eventTypesForActivityFilter (nv_activityFilter (ns_view st)))
            (Some (a_event_id (last (nv_activity (ns_view st))))) log) (ns_view st))\<lparr>nv_activityLoadingMore := False\<rparr>,
         ns_next := ns_next st + 1\<rparr>"
  using assms by (simp add: loadMoreActivity_def Let_def activityMoreReply_def feed_defs append_older_def)

lemma read_mirrors:
  assumes "ns_view st = v"
  shows "mirrors viewer log (v\<lparr>nv_activity := list_activity viewer (eventTypesForActivityFilter (nv_activityFilter v)) None log,
     nv_activityLoaded := True, nv_activityLoading := False, nv_activityFailed := False,
     nv_activityHasMore := (length (list_activity viewer (eventTypesForActivityFilter (nv_activityFilter v)) None log)
        = ACTIVITY_PAGE_SIZE)\<rparr>)"
  by (auto simp: mirrors_def Let_def list_activity_feed min_def)

lemma sorted_ids_distinct:
  "sorted_wrt (\<lambda>a b. a_event_id b < a_event_id a) es \<Longrightarrow> distinct (map a_event_id es)"
  by (induction es) auto

lemma older_mirrors:
  assumes v: "mirrors viewer log v" "sorted_wrt (\<lambda>a b. a_event_id b < a_event_id a) log"
    "nv_activity v \<noteq> []"
  shows "mirrors viewer log (append_older (list_activity viewer (eventTypesForActivityFilter (nv_activityFilter v))
     (Some (a_event_id (last (nv_activity v)))) log) v)"
proof -
  let ?feed = "own_feed viewer (nv_activityFilter v) log"
  let ?n = "length (nv_activity v)"
  let ?older = "list_activity viewer (eventTypesForActivityFilter (nv_activityFilter v))
     (Some (a_event_id (last (nv_activity v)))) log"
  have l: "nv_activityLoaded v" using v(1,3) by (auto simp: mirrors_def Let_def split: if_splits)
  then have t: "nv_activity v = take ?n ?feed" using v(1) by (simp add: mirrors_def Let_def)
  then have n: "0 < ?n" "?n \<le> length ?feed" using v(3) by (simp, metis length_take min.cobounded1 min.commute)
  have last: "last (nv_activity v) = ?feed ! (?n - 1)"
    using v(3) n t by (metis diff_less last_conv_nth less_numeral_extra(1) nth_take)
  have "filter (\<lambda>e. a_event_id e < a_event_id (?feed ! (?n - 1))) ?feed = drop (Suc (?n - 1)) ?feed"
    by (rule filter_below_prefix [OF own_feed_sorted [OF v(2)]]) (use n in linarith)
  then have older: "?older = take ACTIVITY_PAGE_SIZE (drop ?n ?feed)"
    using n(1) unfolding list_activity_feed last by simp
  then have all: "nv_activity v @ ?older = take (?n + ACTIVITY_PAGE_SIZE) ?feed" using t by (simp add: take_add)
  have "distinct (map a_event_id (nv_activity v @ ?older))"
    unfolding all take_map [symmetric] by (rule distinct_take [OF sorted_ids_distinct [OF own_feed_sorted [OF v(2)]]])
  then have "filter (\<lambda>e. a_event_id e \<notin> set (map a_event_id (nv_activity v))) ?older = ?older"
    by (auto simp: filter_id_conv)
  then have "append_older ?older v =
      v\<lparr>nv_activity := take (?n + ACTIVITY_PAGE_SIZE) ?feed, nv_activityHasMore := (length ?older = ACTIVITY_PAGE_SIZE)\<rparr>"
    using all by (simp add: append_older_def Let_def)
  then show ?thesis using l n older by (auto simp: mirrors_def Let_def take_min)
qed

text \<open>A logged event reaches a loaded feed as its newest row, or is none of it.\<close>

lemma happens_mirrors:
  assumes "mirrors viewer log (ns_view st)" "list_all (\<lambda>o'. a_event_id o' < a_event_id e) log"
  shows "mirrors viewer (e # log) (ns_view (addActivityFromSse e (Some viewer) st))"
proof (cases "nv_activityLoaded (ns_view st)")
  case False
  then show ?thesis using assms(1) by (simp add: mirrors_def addActivityFromSse_def)
next
  case True
  let ?feed = "own_feed viewer (nv_activityFilter (ns_view st)) log"
  have t: "nv_activity (ns_view st) = take (length (nv_activity (ns_view st))) ?feed"
    using assms(1) True by (simp add: mirrors_def Let_def)
  have "a_event_id x < a_event_id e" if x: "x \<in> set ?feed" for x
  proof -
    have "x \<in> set log" using x by (simp add: own_feed_def)
    then show ?thesis using assms(2) by (simp add: list_all_iff)
  qed
  then have "a_event_id e \<notin> a_event_id ` set (nv_activity (ns_view st))"
    using t by (metis image_iff in_set_takeD less_irrefl)
  then show ?thesis using True assms(1) t
    by (auto simp: mirrors_def addActivityFromSse_def own_feed_def Let_def)
qed

lemma feed_step_ok: "feed_ok viewer w \<Longrightarrow> feed_ok viewer (feed_step viewer e w)"
proof -
  assume ok: "feed_ok viewer w"
  obtain log st where w: "w = (log, st)" by (cases w)
  have q: "mirrors viewer log (ns_view st)" "sorted_wrt (\<lambda>a b. a_event_id b < a_event_id a) log"
    "ns_tasks st = []" "ns_activityPromise st = None" "ns_activityLoadMorePromise st = None"
    using ok by (simp_all add: feed_ok_def w)
  have idle: "answer_feed viewer log st = st" by (simp add: answer_feed_def q(3))
  have read: "feed_ok viewer (log, answer_feed viewer log (loadActivity force u))"
    if "feed_ok viewer (log, u)" for force u
  proof (cases "force \<or> \<not> nv_activityLoaded (ns_view u)")
    case True
    then show ?thesis using that read_mirrors [OF refl, of viewer log u] read_answered [of u force viewer log]
      by (simp add: feed_ok_def Let_def)
  next
    case False
    then show ?thesis using that by (simp add: loadActivity_def answer_feed_def feed_ok_def)
  qed
  show ?thesis
  proof (cases e)
    case (Happens x)
    then show ?thesis using ok q happens_mirrors [OF q(1), of x]
      by (auto simp: w feed_ok_def Let_def addActivityFromSse_def ns_set_def list_all_iff)
  next
    case (Opens force)
    then show ?thesis using ok read by (simp add: w)
  next
    case Older
    show ?thesis
    proof (cases "nv_activity (ns_view st) = [] \<or> nv_activityLoadingMore (ns_view st)")
      case True
      then show ?thesis using ok Older idle by (auto simp: w loadMoreActivity_def)
    next
      case False
      then show ?thesis using Older q older_answered [of st viewer log] older_mirrors [OF q(1,2)]
        by (simp add: w feed_ok_def Let_def)
    qed
  next
    case (Filters f)
    have "feed_ok viewer (log, ns_set (\<lambda>v. v\<lparr>nv_activityFilter := f, nv_activity := [], nv_activityLoaded := False,
             nv_activityHasMore := False\<rparr>) (st\<lparr>ns_activityPromise := None\<rparr>))"
      using q by (simp add: feed_ok_def ns_set_def mirrors_def)
    then show ?thesis using Filters read ok idle by (simp add: w setActivityFilter_def)
  qed
qed

interpretation feed_runs: event_machine "feed_step viewer" "feed_ok viewer" for viewer
  by unfold_locales (rule feed_step_ok)


lemma initial_feed_ok: "feed_ok viewer ([], initial_notif_store)"
  by (simp add: feed_ok_def mirrors_def initial_notif_store_def initial_view_def)

text \<open>C29. 
  With requests answered in step, the cached feed refines the server's log: once loaded it is the newest rows
  of what the log holds for this reader and filter, however it was come by (a read, older pages, live frames, a
  change of filter), and without the offer of more it is all of them.
\<close>

theorem feed_is_the_log:
  "let w = fold (feed_step viewer) es ([], initial_notif_store); v = ns_view (snd w);
       feed = own_feed viewer (nv_activityFilter v) (fst w) in
   if nv_activityLoaded v
   then nv_activity v = take (length (nv_activity v)) feed \<and> (if nv_activityHasMore v then True else nv_activity v = feed)
   else nv_activity v = []"
  using feed_runs.run_inv [OF initial_feed_ok, of viewer es]
  by (auto simp: feed_ok_def mirrors_def Let_def split: if_splits)

text \<open>Where requests overlap with frames the feed does lose rows: an event that is logged after the server has read the page and announced before the page arrives is dropped by the store, which is not loaded yet.\<close>

definition sample_event :: "int \<Rightarrow> string \<Rightarrow> activity_event" where
  "sample_event i t = \<lparr>a_event_id = i, a_event_type = t, a_entity_type = ''list'', a_entity_id = ''l'',
     a_actor_id = ''me'', a_actor_display_name = ''Me'', a_created_at = '''', a_payload = []\<rparr>"

theorem event_during_load_is_lost:
  "let st = fold notif_step
        [LoadActivity False, SseActivity (sample_event 1 ''list.created'') (Some ''me''), Answer 0 (EventsAnswer (Inr []))]
        initial_notif_store in
   nv_activityLoaded (ns_view st) \<and> nv_activity (ns_view st) = [] \<and> \<not> nv_activityHasMore (ns_view st)"
  by code_simp

text \<open>
  An older page is checked against the filter it was asked with, not against the feed it was asked for. With 52
  events in the log the feed shows 50 and asks for the last two; the filter is changed away, an event is logged,
  and it is changed back: the first page now ends one event earlier, the late page lands under it, the event
  between them is shown nowhere, and no more is offered.
\<close>

definition sample_log :: "int \<Rightarrow> activity_event list" where
  "sample_log n = map (\<lambda>i. sample_event i ''list.created'') (rev [1..n])"

definition sample_page :: "string \<Rightarrow> int option \<Rightarrow> int \<Rightarrow> notif_answer" where
  "sample_page f b n = EventsAnswer (Inr (list_activity ''me'' (eventTypesForActivityFilter f) b (sample_log n)))"

theorem filter_there_and_back_leaves_gap:
  "let st = fold notif_step
        [LoadActivity False, Answer 0 (sample_page ''all'' None 52), LoadMoreActivity,
         SetFilter ''sharing'', Answer 2 (sample_page ''sharing'' None 53),
         SetFilter ''all'', Answer 3 (sample_page ''all'' None 53),
         Answer 1 (sample_page ''all'' (Some 3) 53)] initial_notif_store in
   map a_event_id (nv_activity (ns_view st)) = rev [4..53] @ [2, 1] \<and> \<not> nv_activityHasMore (ns_view st)"
  by code_simp

theorem notifications_in_every_run_witness:
  "\<exists>st. st = fold honest_step [LoadActivity False] initial_notif_store \<and> nv_activityLoading (ns_view st) \<and>
     list_ex (\<lambda>(n, g, t). g = ns_generation st \<and> is_activity (ns_activityRequestToken st) t) (ns_tasks st)"
proof -
  have "nv_activityLoading (ns_view (fold honest_step [LoadActivity False] initial_notif_store))" by code_simp
  then show ?thesis using notifications_in_every_run [of "[LoadActivity False]"] by (simp add: Let_def)
qed

end
