(* ===== verification/SseStream.thy ===== *)
theory SseStream
  imports DashboardState NotificationsStore
begin

text \<open>
  The event stream hook (\<open>frontend/src/hooks/useSSE.ts\<close>) and the connection status
  (\<open>stores/connection.ts\<close>). The hook's refs and state are fields of \<open>sse_state\<close>; what it asks of other modules
  is the list of calls a step makes, in order. A frame arrives parsed: \<open>None\<close> is one the schema refuses. React's
  part is \<open>Commit\<close>, which runs the effect when what it depends on has changed; time enters only as the timer
  having run out.

  The lemmas: a closed stream always has its reconnect on the way,.
\<close>

section \<open>The connection status\<close>

definition isConnectionDegraded :: "connection_status \<Rightarrow> bool" where
  "isConnectionDegraded status \<longleftrightarrow> status = Reconnecting"

definition SSE_AUTH_PROBE_EVERY :: nat where
  "SSE_AUTH_PROBE_EVERY = 4"

section \<open>Routes\<close>

datatype event_route = ToList | ToCalendar | ToDashboard

fun EVENT_ROUTES :: "event_type \<Rightarrow> event_route" where
  "EVENT_ROUTES ListCreated = ToList"
| "EVENT_ROUTES ListUpdated = ToList"
| "EVENT_ROUTES ListDeleted = ToList"
| "EVENT_ROUTES ListReordered = ToList"
| "EVENT_ROUTES ListItemCreated = ToList"
| "EVENT_ROUTES ListItemUpdated = ToList"
| "EVENT_ROUTES ListItemChecked = ToList"
| "EVENT_ROUTES ListItemDeleted = ToList"
| "EVENT_ROUTES ListItemReordered = ToList"
| "EVENT_ROUTES CalendarEventCreated = ToCalendar"
| "EVENT_ROUTES CalendarEventUpdated = ToCalendar"
| "EVENT_ROUTES CalendarEventDeleted = ToCalendar"
| "EVENT_ROUTES CalendarOccurrenceUpdated = ToCalendar"
| "EVENT_ROUTES CalendarOccurrenceCancelled = ToCalendar"
| "EVENT_ROUTES DashboardCreated = ToDashboard"
| "EVENT_ROUTES DashboardUpdated = ToDashboard"
| "EVENT_ROUTES DashboardDeleted = ToDashboard"
| "EVENT_ROUTES DashboardShareAdded = ToDashboard"
| "EVENT_ROUTES DashboardShareUpdated = ToDashboard"
| "EVENT_ROUTES DashboardShareRemoved = ToDashboard"

definition RESYNC_TARGETS :: "(string \<times> event_route list) list" where
  "RESYNC_TARGETS =
     [(''list'', [ToList]), (''list_item'', [ToList]), (''calendar_event'', [ToCalendar]), (''dashboard'', [ToDashboard])]"

fun routes_of :: "string list \<Rightarrow> event_route list \<Rightarrow> event_route list option" where
  "routes_of [] routes = Some routes"
| "routes_of (scope # scopes) routes =
     (case map_of RESYNC_TARGETS scope of
        None \<Rightarrow> None
      | Some targets \<Rightarrow> routes_of scopes (fold List.insert targets routes))"

definition resyncRoutes :: "string list option \<Rightarrow> event_route list option" where
  "resyncRoutes scopes = (case scopes of None \<Rightarrow> None | Some s \<Rightarrow> routes_of s [])"

section \<open>The hook's state\<close>

record connected_event =
  ce_last_event_id :: "int option"

record resync_event =
  re_last_event_id :: "int option"
  re_scopes :: "string list option"

text \<open>An open stream: the mark in its URL, which is there exactly when \<open>serverDecidesResync\<close>.\<close>

record event_source =
  es_user :: string
  es_mark :: "int option"
  es_closed :: bool

record sse_state =
  ss_user :: "string option"
  ss_nonce :: nat
  ss_ran :: "(string option \<times> nat) option"
  ss_attempts :: nat
  ss_timer :: "nat option"
  ss_needsResync :: bool
  ss_watermark :: "int option"
  ss_status :: connection_status
  ss_stream :: "event_source option"

definition initial_sse :: "string option \<Rightarrow> sse_state" where
  "initial_sse user' = \<lparr>ss_user = user', ss_nonce = 0, ss_ran = None, ss_attempts = 0, ss_timer = None,
     ss_needsResync = False, ss_watermark = None, ss_status = Connecting, ss_stream = None\<rparr>"

datatype sse_call =
    ListHandler resource_event bool
  | AgendaHandler resource_event bool
  | CalendarHandler resource_event bool
  | MembersHandler resource_event
  | DashboardHandler resource_event
  | ContentHandler sse_event
  | AddActivity sse_event string
  | AddNotification notification
  | LoadUnreadCount
  | LoadNotifications
  | LoadActivityForced
  | AppResync
  | ProbeSession

text \<open>What a step reads elsewhere: this tab's id, whether the page is \<open>/notifications\<close>, and the store's view.\<close>

record sse_env =
  env_client :: string
  env_onNotificationsPage :: bool
  env_notifications :: notifications_view

section \<open>Handlers\<close>

text \<open>The cleanup of the last run, then the effect.\<close>

definition cleanup :: "sse_state \<Rightarrow> sse_state" where
  "cleanup st = st\<lparr>ss_timer := None, ss_stream := None\<rparr>"

definition run_effect :: "sse_state \<Rightarrow> sse_state" where
  "run_effect st =
     (let st = st\<lparr>ss_ran := Some (ss_user st, ss_nonce st)\<rparr> in
      case ss_user st of
        Some u \<Rightarrow>
          if u \<noteq> []
          then st\<lparr>ss_stream := Some \<lparr>es_user = u,
                     es_mark = (if ss_needsResync st then ss_watermark st else None), es_closed = False\<rparr>\<rparr>
          else st\<lparr>ss_status := Connecting\<rparr>
      | None \<Rightarrow> st\<lparr>ss_status := Connecting\<rparr>)"

definition commit :: "sse_state \<Rightarrow> sse_state" where
  "commit st = (if ss_ran st = Some (ss_user st, ss_nonce st) then st else run_effect (cleanup st))"

definition onerror :: "bool \<Rightarrow> sse_state \<Rightarrow> sse_state" where
  "onerror isClosed st =
     (let st = st\<lparr>ss_status := Reconnecting, ss_stream := map_option (es_closed_update (\<lambda>_. isClosed)) (ss_stream st)\<rparr> in
      if \<not> isClosed then st
      else if ss_timer st \<noteq> None then st
      else st\<lparr>ss_attempts := ss_attempts st + 1, ss_timer := Some (ss_attempts st)\<rparr>)"

definition timer_fires :: "sse_state \<Rightarrow> sse_state \<times> sse_call list" where
  "timer_fires st =
     (case ss_timer st of
        None \<Rightarrow> (st, [])
      | Some attempt \<Rightarrow>
          (st\<lparr>ss_timer := None, ss_needsResync := True, ss_nonce := ss_nonce st + 1\<rparr>,
           if 0 < attempt \<and> attempt mod SSE_AUTH_PROBE_EVERY = 0 then [ProbeSession] else []))"

definition onResync :: "sse_env \<Rightarrow> resync_event option option \<Rightarrow> sse_state \<Rightarrow> sse_state \<times> sse_call list" where
  "onResync env e st =
     (let frame = (case e of Some f \<Rightarrow> f | None \<Rightarrow> None);
          mark = (case frame of Some f \<Rightarrow> re_last_event_id f | None \<Rightarrow> None);
          moved = (case mark of
             Some head \<Rightarrow> if head > (case ss_watermark st of Some w \<Rightarrow> w | None \<Rightarrow> 0)
               then st\<lparr>ss_watermark := Some head\<rparr> else st
           | None \<Rightarrow> st);
          routes = (case e of Some _ \<Rightarrow> resyncRoutes (case frame of Some f \<Rightarrow> re_scopes f | None \<Rightarrow> None) | None \<Rightarrow> None);
          wants = (\<lambda>route. case routes of None \<Rightarrow> True | Some rs \<Rightarrow> route \<in> set rs);
          v = env_notifications env in
      (moved,
       (if wants ToList then [ListHandler Resync False] else []) @
       (if wants ToCalendar then [CalendarHandler Resync False] else []) @
       (if wants ToList \<or> wants ToCalendar then [AgendaHandler Resync False] else []) @
       (if wants ToDashboard then [MembersHandler Resync, DashboardHandler Resync] else []) @
       [LoadUnreadCount] @
       (if nv_panelOpen v \<or> env_onNotificationsPage env then [LoadNotifications] else []) @
       (if nv_activityLoaded v then [LoadActivityForced] else []) @
       [AppResync]))"

definition onConnected :: "sse_env \<Rightarrow> event_source \<Rightarrow> connected_event option \<Rightarrow> sse_state \<Rightarrow> sse_state \<times> sse_call list" where
  "onConnected env es frame st =
     (let st = st\<lparr>ss_attempts := 0, ss_status := Connected\<rparr>;
          st = (case (case frame of Some f \<Rightarrow> ce_last_event_id f | None \<Rightarrow> None) of
                  Some head \<Rightarrow> st\<lparr>ss_watermark := Some head\<rparr> | None \<Rightarrow> st) in
      if \<not> ss_needsResync st then (st, [])
      else let st = st\<lparr>ss_needsResync := False\<rparr> in
        if es_mark es = None then onResync env None st else (st, []))"

definition readActivityFrame :: "sse_event \<Rightarrow> sse_state \<Rightarrow> sse_state" where
  "readActivityFrame data st =
     (if e_event_id data > (case ss_watermark st of Some w \<Rightarrow> w | None \<Rightarrow> 0)
      then st\<lparr>ss_watermark := Some (e_event_id data)\<rparr> else st)"

definition activity_calls :: "sse_env \<Rightarrow> string \<Rightarrow> event_route \<Rightarrow> sse_event \<Rightarrow> sse_call list" where
  "activity_calls env userId route data =
     (let isOwnEcho = isOwnFrame (env_client env) data (Some userId) in
      case route of
        ToList \<Rightarrow> [AddActivity data userId, ListHandler (Frame data) isOwnEcho, AgendaHandler (Frame data) isOwnEcho,
                   ContentHandler data]
      | ToCalendar \<Rightarrow> [AddActivity data userId, CalendarHandler (Frame data) isOwnEcho, AgendaHandler (Frame data) isOwnEcho]
      | ToDashboard \<Rightarrow> [AddActivity data userId, MembersHandler (Frame data), DashboardHandler (Frame data)])"

definition onNotification :: "notification option \<Rightarrow> sse_call list" where
  "onNotification frame = (case frame of None \<Rightarrow> [LoadUnreadCount] | Some n \<Rightarrow> [AddNotification n])"

definition handleVisibilityChange :: "bool \<Rightarrow> sse_state \<Rightarrow> sse_state" where
  "handleVisibilityChange visible st =
     (if \<not> visible then st
      else case ss_stream st of
        None \<Rightarrow> st
      | Some es \<Rightarrow>
          if \<not> es_closed es then st
          else if ss_timer st \<noteq> None then st
          else st\<lparr>ss_needsResync := True, ss_nonce := ss_nonce st + 1\<rparr>)"

section \<open>The hook as a machine\<close>

text \<open>\<open>EsCloses\<close> is the stream ending without an error event; \<open>EsError\<close> carries whether \<open>readyState\<close> is \<open>CLOSED\<close>.\<close>

datatype sse_input =
    Commit
  | SignedIn "string option"
  | EsConnected "connected_event option"
  | EsActivity event_type "sse_event option"
  | EsNotification "notification option"
  | EsResync "resync_event option"
  | EsError bool
  | EsCloses
  | TimerFires
  | Visibility bool
  | Unmount

definition sse_step :: "sse_env \<Rightarrow> sse_input \<Rightarrow> sse_state \<Rightarrow> sse_state \<times> sse_call list" where
  "sse_step env i st =
     (case i of
        Commit \<Rightarrow> (commit st, [])
      | SignedIn u \<Rightarrow> (st\<lparr>ss_user := u\<rparr>, [])
      | TimerFires \<Rightarrow> timer_fires st
      | Visibility b \<Rightarrow> (handleVisibilityChange b st, [])
      | Unmount \<Rightarrow> (cleanup st, [])
      | _ \<Rightarrow>
          (case ss_stream st of
             None \<Rightarrow> (st, [])
           | Some es \<Rightarrow>
               (case i of
                  EsConnected f \<Rightarrow> onConnected env es f st
                | EsActivity t None \<Rightarrow> (st, [])
                | EsActivity t (Some data) \<Rightarrow> (readActivityFrame data st, activity_calls env (es_user es) (EVENT_ROUTES t) data)
                | EsNotification f \<Rightarrow> (st, onNotification f)
                | EsResync f \<Rightarrow> onResync env (Some f) st
                | EsError isClosed \<Rightarrow> (onerror isClosed st, [])
                | EsCloses \<Rightarrow> (st\<lparr>ss_stream := Some (es\<lparr>es_closed := True\<rparr>)\<rparr>, [])
                | _ \<Rightarrow> (st, []))))"

definition sse_next :: "sse_env \<Rightarrow> sse_input \<Rightarrow> sse_state \<Rightarrow> sse_state" where
  "sse_next env i st = fst (sse_step env i st)"


section \<open>A closed stream is reopened\<close>

definition mounted :: "sse_state \<Rightarrow> bool" where
  "mounted st \<longleftrightarrow>
     (ss_stream st = None \<longrightarrow> (case ss_ran st of Some (u, n) \<Rightarrow> \<not> truthy u | None \<Rightarrow> True)) \<and>
     (case ss_ran st of Some (u, n) \<Rightarrow> n \<le> ss_nonce st | None \<Rightarrow> True)"

lemma commit_mounted: "mounted st \<Longrightarrow> mounted (commit st)"
  by (auto simp: mounted_def commit_def run_effect_def cleanup_def Let_def truthy_def split: option.splits)

lemma watermark_frames [simp]:
  "mounted (st\<lparr>ss_watermark := w\<rparr>) = mounted st" "mounted (st\<lparr>ss_attempts := n\<rparr>) = mounted st"
  "mounted (st\<lparr>ss_status := c\<rparr>) = mounted st" "mounted (st\<lparr>ss_needsResync := b\<rparr>) = mounted st"
  "mounted (st\<lparr>ss_timer := t\<rparr>) = mounted st"
  by (simp_all add: mounted_def split: option.split)

lemma step_mounted:
  assumes "mounted st" "i \<noteq> Unmount"
  shows "mounted (sse_next env i st)"
proof (cases i)
  case Commit
  then show ?thesis using assms by (simp add: sse_next_def sse_step_def commit_mounted)
next
  case (EsError b)
  then show ?thesis using assms by (auto simp: sse_next_def sse_step_def onerror_def mounted_def Let_def split: option.splits)
next
  case (EsActivity t d)
  then show ?thesis using assms
    by (cases d) (auto simp: sse_next_def sse_step_def readActivityFrame_def split: option.splits)
next
  case (EsConnected f)
  then show ?thesis using assms
    by (auto simp: sse_next_def sse_step_def onConnected_def onResync_def Let_def split: option.splits)
qed (use assms in \<open>auto simp: sse_next_def sse_step_def timer_fires_def handleVisibilityChange_def onResync_def
       Let_def mounted_def split: option.splits\<close>)


lemma run_mounted: "mounted st \<Longrightarrow> Unmount \<notin> set ins \<Longrightarrow> mounted (fold (sse_next env) ins st)"
proof (induction ins arbitrary: st)
  case (Cons i ins)
  have "mounted (sse_next env i st)" using Cons.prems by (intro step_mounted) auto
  then show ?case using Cons.prems(2) Cons.IH by simp
qed simp

text \<open>Looking at the page again, the wait being over and React having run leave an open stream, whatever came before.\<close>

lemma reopened:
  assumes "mounted st" "truthy (ss_user st)"
  shows "\<exists>es. ss_stream (fold (sse_next env) [Visibility True, TimerFires, Commit] st) = Some es \<and> \<not> es_closed es"
proof -
  obtain u where u: "ss_user st = Some u" "u \<noteq> []" using assms(2) by (cases "ss_user st") auto
  have opened: "\<exists>es. ss_stream (commit v) = Some es \<and> \<not> es_closed es"
    if "ss_ran v \<noteq> Some (ss_user v, ss_nonce v)" "ss_user v = Some u" for v
    using that u by (simp add: commit_def run_effect_def cleanup_def Let_def)
  have opened_after: "\<exists>es. ss_stream (fold (sse_next env) [Visibility True, TimerFires, Commit] st) = Some es \<and> \<not> es_closed es"
    if "ss_ran (fold (sse_next env) [Visibility True, TimerFires] st) \<noteq>
        Some (ss_user st, ss_nonce (fold (sse_next env) [Visibility True, TimerFires] st))"
  proof -
    have "ss_user (fold (sse_next env) [Visibility True, TimerFires] st) = ss_user st"
      by (auto simp: sse_next_def sse_step_def timer_fires_def handleVisibilityChange_def split: option.splits)
    then show ?thesis using opened [of "fold (sse_next env) [Visibility True, TimerFires] st"] that u
      by (simp add: sse_next_def sse_step_def)
  qed
  show ?thesis
  proof (cases "ss_ran st = Some (ss_user st, ss_nonce st)")
    case False
    then show ?thesis using assms(1) u
      by (intro opened_after) (auto simp: mounted_def sse_next_def sse_step_def timer_fires_def
        handleVisibilityChange_def split: option.splits)
  next
    case True
    then obtain es where "ss_stream st = Some es"
      using assms(1) u by (cases "ss_stream st") (simp_all add: mounted_def)
    then show ?thesis using True u opened
      by (auto simp: sse_next_def sse_step_def timer_fires_def handleVisibilityChange_def commit_def
        run_effect_def cleanup_def Let_def split: option.splits)
  qed
qed

text \<open>C20. 
  However the stream ended, with an error or silently, and whatever happened since: once the page is looked
  at, the timer that may be running has run out and React has run the effect, a signed-in tab has an open stream.
\<close>

theorem dead_stream_is_reopened:
  assumes "Unmount \<notin> set ins" "truthy (ss_user (fold (sse_next env) ins (initial_sse u)))"
  shows "\<exists>es. ss_stream (fold (sse_next env) (ins @ [Visibility True, TimerFires, Commit]) (initial_sse u)) = Some es \<and>
    \<not> es_closed es"
proof -
  have "mounted (initial_sse u)" by (simp add: mounted_def initial_sse_def)
  from reopened [OF run_mounted [OF this assms(1)] assms(2)] show ?thesis by simp
qed

definition sample_env :: sse_env where
  "sample_env = \<lparr>env_client = ''tab'', env_onNotificationsPage = False, env_notifications = initial_view\<rparr>"

theorem dead_stream_is_reopened_witness:
  "\<exists>es. ss_stream (fold (sse_next sample_env) [Commit, EsConnected None, EsCloses, Visibility True, TimerFires, Commit]
      (initial_sse (Some ''me''))) = Some es \<and> \<not> es_closed es"
proof -
  have "truthy (ss_user (fold (sse_next sample_env) [Commit, EsConnected None, EsCloses] (initial_sse (Some ''me''))))"
    by code_simp
  from dead_stream_is_reopened [OF _ this] show ?thesis by simp
qed

end
