(* ===== verification/SseWorld.thy ===== *)
theory SseWorld
  imports SseStream
begin

text \<open>
  The tab's stream together with the server's (\<open>backend/app/routers/sse.py\<close>, \<open>backend/app/sse/manager.py\<close>,
  \<open>entity_types_changed_since\<close> of \<open>backend/app/services/activity.py\<close>): the activity log, one client with its
  queue, the handshake, and what a browser adds (it retries a dropped stream itself and sends the last id it saw).
  Logging an event and broadcasting it is one step, and so is reading the log's head and registering the client.

  A ghost records which events this user was in the audience of and which of them the tab's caches were told of,
  by their frame or by a refetch of everything they touch, and which dashboards it has lost. The lemmas: once the
  stream is idle no event has gone unnoticed but a reorder of the lists and what belongs to a dashboard whose access
  was lost, as long as no connection is cut inside its handshake. The traces show each of these exceptions in the code
  as it is.
\<close>

section \<open>The server\<close>

datatype sse_item =
    ConnectedItem "int option"
  | ResyncItem "string list option"
  | FrameItem sse_event
  | OverflowItem

text \<open>What the generator still yields before it reads the queue, the queue, and \<open>resync_pending\<close>.\<close>

record sse_client =
  sc_out :: "sse_item list"
  sc_queue :: "sse_item list"
  sc_pending :: bool

definition QUEUE_MAX :: nat where
  "QUEUE_MAX = 256"

definition current_event_id :: "sse_event list \<Rightarrow> int option" where
  "current_event_id log = (case log of [] \<Rightarrow> None | e # _ \<Rightarrow> Some (e_event_id e))"

definition resync_needed :: "int option \<Rightarrow> int option \<Rightarrow> bool" where
  "resync_needed watermark head =
     (case watermark of None \<Rightarrow> False | Some m \<Rightarrow> (case head of None \<Rightarrow> False | Some h \<Rightarrow> h > m))"

definition entity_types_changed_since :: "sse_event list \<Rightarrow> int \<Rightarrow> string list \<Rightarrow> string list option" where
  "entity_types_changed_since log last_event_id visible =
     (let rows = take 501 (rev (filter (\<lambda>e. e_event_id e > last_event_id) log)) in
      if length rows > 500 then None
      else Some (remdups (map e_entity_type (filter (\<lambda>e. case p_dashboard_id (e_payload e) of
                  Some d \<Rightarrow> d \<in> set visible | None \<Rightarrow> False) rows))))"

definition sse_connect :: "int option \<Rightarrow> sse_event list \<Rightarrow> string list \<Rightarrow> sse_client" where
  "sse_connect watermark log visible =
     (let head = current_event_id log; needed = resync_needed watermark head;
          scopes = (if needed then (case watermark of Some m \<Rightarrow> entity_types_changed_since log m visible | None \<Rightarrow> None)
                    else None) in
      \<lparr>sc_out = ConnectedItem head # (if needed then [ResyncItem scopes] else []), sc_queue = [], sc_pending = False\<rparr>)"

definition overflow :: "sse_client \<Rightarrow> sse_client" where
  "overflow c = c\<lparr>sc_queue := [OverflowItem], sc_pending := True\<rparr>"

definition broadcast :: "sse_event \<Rightarrow> sse_client \<Rightarrow> sse_client" where
  "broadcast e c =
     (if sc_pending c then c
      else if length (sc_queue c) < QUEUE_MAX then c\<lparr>sc_queue := sc_queue c @ [FrameItem e]\<rparr>
      else overflow c)"

text \<open>One turn of \<open>stream_events\<close>: the next item to write, and the client after it.\<close>

definition next_item :: "sse_client \<Rightarrow> (sse_item \<times> sse_client) option" where
  "next_item c =
     (case sc_out c of
        i # rest \<Rightarrow> Some (i, c\<lparr>sc_out := rest\<rparr>)
      | [] \<Rightarrow>
          (case sc_queue c of
             [] \<Rightarrow> None
           | OverflowItem # rest \<Rightarrow> Some (OverflowItem, c\<lparr>sc_queue := rest, sc_pending := False\<rparr>)
           | i # rest \<Rightarrow> Some (i, c\<lparr>sc_queue := rest\<rparr>)))"

text \<open>
  The entity type each kind of event is logged with (\<open>build_event_message\<close> as \<open>routers/lists.py\<close>, \<open>calendar.py\<close>,
  \<open>dashboards.py\<close> and \<open>invites.py\<close> call it): a reorder of the lists is one of their dashboard.
\<close>

fun entity_label :: "event_type \<Rightarrow> string" where
  "entity_label ListCreated = ''list''"
| "entity_label ListUpdated = ''list''"
| "entity_label ListDeleted = ''list''"
| "entity_label ListReordered = ''dashboard''"
| "entity_label ListItemCreated = ''list_item''"
| "entity_label ListItemUpdated = ''list_item''"
| "entity_label ListItemChecked = ''list_item''"
| "entity_label ListItemDeleted = ''list_item''"
| "entity_label ListItemReordered = ''list_item''"
| "entity_label CalendarEventCreated = ''calendar_event''"
| "entity_label CalendarEventUpdated = ''calendar_event''"
| "entity_label CalendarEventDeleted = ''calendar_event''"
| "entity_label CalendarOccurrenceUpdated = ''calendar_event''"
| "entity_label CalendarOccurrenceCancelled = ''calendar_event''"
| "entity_label _ = ''dashboard''"

definition on_visible :: "string list \<Rightarrow> sse_event \<Rightarrow> bool" where
  "on_visible visible e \<longleftrightarrow> (case p_dashboard_id (e_payload e) of Some d \<Rightarrow> d \<in> set visible | None \<Rightarrow> False)"

section \<open>The world\<close>

text \<open>
  The ghosts: the events logged on a dashboard visible to this user with the user in their audience, those the caches
  were told of, and the dashboards whose access was ever lost.
\<close>

record sse_world =
  w_log :: "sse_event list"
  w_visible :: "string list"
  w_lost :: "string list"
  w_client :: "sse_client option"
  w_lastId :: "int option"
  w_tab :: sse_state
  w_owed :: "int list"
  w_told :: "int list"

text \<open>The calls a step made tell the caches of an event: its own frame, or a refetch by every handler it concerns.\<close>

definition calls_tell :: "sse_call list \<Rightarrow> sse_event \<Rightarrow> bool" where
  "calls_tell calls e =
     (case EVENT_ROUTES (e_event_type e) of
        ToList \<Rightarrow> list_ex (\<lambda>b. ListHandler (Frame e) b \<in> set calls \<and> AgendaHandler (Frame e) b \<in> set calls) [True, False] \<or>
          ListHandler Resync False \<in> set calls \<and> AgendaHandler Resync False \<in> set calls
      | ToCalendar \<Rightarrow> list_ex (\<lambda>b. CalendarHandler (Frame e) b \<in> set calls \<and> AgendaHandler (Frame e) b \<in> set calls) [True, False] \<or>
          CalendarHandler Resync False \<in> set calls \<and> AgendaHandler Resync False \<in> set calls
      | ToDashboard \<Rightarrow> MembersHandler (Frame e) \<in> set calls \<and> DashboardHandler (Frame e) \<in> set calls \<or>
          MembersHandler Resync \<in> set calls \<and> DashboardHandler Resync \<in> set calls)"

definition tab_input :: "sse_env \<Rightarrow> sse_input \<Rightarrow> sse_world \<Rightarrow> sse_world" where
  "tab_input env i w =
     (let (tab, calls) = sse_step env i (w_tab w) in
      w\<lparr>w_tab := tab, w_told := map e_event_id (filter (calls_tell calls) (w_log w)) @ w_told w\<rparr>)"

definition item_input :: "int option \<Rightarrow> sse_item \<Rightarrow> sse_input" where
  "item_input head i =
     (case i of
        ConnectedItem h \<Rightarrow> EsConnected (Some \<lparr>ce_last_event_id = h\<rparr>)
      | ResyncItem scopes \<Rightarrow> EsResync (Some \<lparr>re_last_event_id = None, re_scopes = scopes\<rparr>)
      | FrameItem e \<Rightarrow> EsActivity (e_event_type e) (Some e)
      | OverflowItem \<Rightarrow> EsResync (Some \<lparr>re_last_event_id = head, re_scopes = None\<rparr>))"

definition item_id :: "int option \<Rightarrow> sse_item \<Rightarrow> int option" where
  "item_id head i =
     (case i of ConnectedItem h \<Rightarrow> h | ResyncItem scopes \<Rightarrow> None | FrameItem e \<Rightarrow> Some (e_event_id e) | OverflowItem \<Rightarrow> head)"

datatype world_event =
    Logged sse_event bool
  | LosesAccess string
  | GainsAccess string
  | Opens'
  | Delivers
  | Cut bool
  | SilentCut
  | Tab sse_input

definition next_id :: "sse_event list \<Rightarrow> int" where
  "next_id log = (case current_event_id log of None \<Rightarrow> 1 | Some h \<Rightarrow> h + 1)"

definition world_step :: "sse_env \<Rightarrow> world_event \<Rightarrow> sse_world \<Rightarrow> sse_world" where
  "world_step env a w =
     (case a of
        Logged e audience \<Rightarrow>
          let e = e\<lparr>e_event_id := next_id (w_log w), e_entity_type := entity_label (e_event_type e)\<rparr> in
          if audience
          then w\<lparr>w_log := e # w_log w, w_owed := (if on_visible (w_visible w) e then e_event_id e # w_owed w else w_owed w),
                 w_client := map_option (broadcast e) (w_client w)\<rparr>
          else w\<lparr>w_log := e # w_log w\<rparr>
      | LosesAccess d \<Rightarrow> w\<lparr>w_visible := removeAll d (w_visible w), w_lost := d # w_lost w\<rparr>
      | GainsAccess d \<Rightarrow> w\<lparr>w_visible := d # w_visible w\<rparr>
      | Opens' \<Rightarrow>
          (case (w_client w, ss_stream (w_tab w)) of
             (None, Some es) \<Rightarrow>
               if es_closed es then w
               else w\<lparr>w_client := Some (sse_connect (case es_mark es of Some m \<Rightarrow> Some m | None \<Rightarrow> w_lastId w)
                        (w_log w) (w_visible w))\<rparr>
           | _ \<Rightarrow> w)
      | Delivers \<Rightarrow>
          (case w_client w of
             None \<Rightarrow> w
           | Some c \<Rightarrow>
               (case next_item c of
                  None \<Rightarrow> w
                | Some (i, c') \<Rightarrow>
                    let head = current_event_id (w_log w);
                        w' = tab_input env (item_input head i) (w\<lparr>w_client := Some c'\<rparr>)
                    in w'\<lparr>w_lastId := (case item_id head i of Some n \<Rightarrow> Some n | None \<Rightarrow> w_lastId w)\<rparr>))
      | Cut isClosed \<Rightarrow>
          (case w_client w of None \<Rightarrow> w | Some c \<Rightarrow> tab_input env (EsError isClosed) (w\<lparr>w_client := None\<rparr>))
      | SilentCut \<Rightarrow>
          (case w_client w of None \<Rightarrow> w | Some c \<Rightarrow> tab_input env EsCloses (w\<lparr>w_client := None\<rparr>))
      | Tab i \<Rightarrow>
          (case i of
             Commit \<Rightarrow>
               if ss_ran (w_tab w) = Some (ss_user (w_tab w), ss_nonce (w_tab w)) then w
               else tab_input env Commit (w\<lparr>w_client := None, w_lastId := None\<rparr>)
           | TimerFires \<Rightarrow> tab_input env TimerFires w
           | Visibility b \<Rightarrow> tab_input env (Visibility b) w
           | _ \<Rightarrow> w))"

text \<open>A tab that has just been told it is connected, with everything that was logged by then counted as known.\<close>

definition connected_world :: "string \<Rightarrow> sse_event list \<Rightarrow> string list \<Rightarrow> sse_world" where
  "connected_world user' log visible =
     \<lparr>w_log = log, w_visible = visible, w_lost = [], w_client = Some \<lparr>sc_out = [], sc_queue = [], sc_pending = False\<rparr>,
      w_lastId = current_event_id log,
      w_tab = (initial_sse (Some user'))\<lparr>ss_ran := Some (Some user', 0), ss_status := Connected,
        ss_watermark := current_event_id log, ss_stream := Some \<lparr>es_user = user', es_mark = None, es_closed = False\<rparr>\<rparr>,
      w_owed = [], w_told = []\<rparr>"

definition caught_up :: "sse_world \<Rightarrow> bool" where
  "caught_up w \<longleftrightarrow> list_all (\<lambda>n. n \<in> set (w_told w)) (w_owed w)"

definition idle :: "sse_world \<Rightarrow> bool" where
  "idle w \<longleftrightarrow> (case w_client w of Some c \<Rightarrow> sc_out c = [] \<and> sc_queue c = [] | None \<Rightarrow> False)"

section \<open>Where an event does go unnoticed\<close>

definition logged_event :: "event_type \<Rightarrow> string \<Rightarrow> string \<Rightarrow> sse_event" where
  "logged_event t kind d = \<lparr>e_event_id = 0, e_event_type = t, e_entity_type = kind, e_entity_id = ''x'',
     e_entity_version = 1, e_actor_id = ''other'', e_actor_display_name = '''', e_created_at = '''',
     e_payload = empty_payload\<lparr>p_dashboard_id := Some d\<rparr>\<rparr>"

definition one_event_log :: "sse_event list" where
  "one_event_log = [(logged_event ListCreated ''list'' ''d'')\<lparr>e_event_id := 1\<rparr>]"

text \<open>
  The drop that matters: a connection the server refused, the wait, the new stream with its handshake. \<open>away\<close>
  is what is logged in between.
\<close>

definition reconnect_around :: "world_event list \<Rightarrow> world_event list" where
  "reconnect_around away = [Cut True] @ away @ [Tab TimerFires, Tab Commit, Opens', Delivers, Delivers]"

text \<open>With an event of the list itself the reconnect notices it.\<close>

theorem list_change_while_away_is_noticed:
  "let w = fold (world_step sample_env) (reconnect_around [Logged (logged_event ListUpdated [] ''d'') True])
       (connected_world ''me'' one_event_log [''d'']) in
   idle w \<and> caught_up w"
  by code_simp

text \<open>
  A reorder of the lists is logged as a change of the dashboard (\<open>backend/app/routers/lists.py\<close>), so the reconnect
  refetches the dashboards and not the lists whose order changed.
\<close>

theorem list_reorder_while_away_is_missed:
  "let w = fold (world_step sample_env) (reconnect_around [Logged (logged_event ListReordered [] ''d'') True])
       (connected_world ''me'' one_event_log [''d'']) in
   idle w \<and> \<not> caught_up w"
  by code_simp

text \<open>The scopes only name what changed on dashboards that are still visible, so losing one is not among them.\<close>

theorem lost_access_while_away_is_missed:
  "let w = fold (world_step sample_env)
       (reconnect_around [Logged (logged_event DashboardDeleted [] ''d'') True, LosesAccess ''d''])
       (connected_world ''me'' one_event_log [''d'']) in
   idle w \<and> \<not> caught_up w"
  by code_simp

text \<open>
  The connected frame moves the mark to the head before the resync frame behind it has arrived; a connection that
  is cut between the two comes back with nothing to ask for.
\<close>

theorem cut_inside_handshake_is_missed:
  "let w = fold (world_step sample_env)
       ([Cut True, Logged (logged_event ListUpdated [] ''d'') True, Tab TimerFires, Tab Commit, Opens', Delivers] @
        reconnect_around []) (connected_world ''me'' one_event_log [''d'']) in
   idle w \<and> \<not> caught_up w"
  by code_simp


section \<open>Otherwise none does\<close>

definition covers :: "string list option \<Rightarrow> sse_event \<Rightarrow> bool" where
  "covers scopes e \<longleftrightarrow> (case scopes of None \<Rightarrow> True | Some s \<Rightarrow> e_entity_type e \<in> set s)"

definition well_labelled :: "sse_event \<Rightarrow> bool" where
  "well_labelled e \<longleftrightarrow>
     (case map_of RESYNC_TARGETS (e_entity_type e) of Some rs \<Rightarrow> EVENT_ROUTES (e_event_type e) \<in> set rs | None \<Rightarrow> False)"

definition inside_handshake :: "sse_world \<Rightarrow> bool" where
  "inside_handshake w \<longleftrightarrow>
     (case w_client w of Some c \<Rightarrow> (case sc_out c of [ResyncItem s] \<Rightarrow> True | _ \<Rightarrow> False) | None \<Rightarrow> False)"

text \<open>The condition on a run: no connection ends between its connected frame and the resync frame behind it.\<close>

definition cuts_handshake :: "world_event \<Rightarrow> sse_world \<Rightarrow> bool" where
  "cuts_handshake a w \<longleftrightarrow> (case a of Cut b \<Rightarrow> inside_handshake w | SilentCut \<Rightarrow> inside_handshake w | _ \<Rightarrow> False)"

fun whole_handshakes :: "sse_env \<Rightarrow> world_event list \<Rightarrow> sse_world \<Rightarrow> bool" where
  "whole_handshakes env [] w \<longleftrightarrow> True"
| "whole_handshakes env (a # as) w \<longleftrightarrow> \<not> cuts_handshake a w \<and> whole_handshakes env as (world_step env a w)"

text \<open>An event on a dashboard whose access was never lost.\<close>

definition still_open :: "string list \<Rightarrow> sse_event \<Rightarrow> bool" where
  "still_open lost e \<longleftrightarrow> (case p_dashboard_id (e_payload e) of Some d \<Rightarrow> d \<notin> set lost | None \<Rightarrow> True)"

text \<open>Every label but that of a reorder of the lists names the cache its event changes.\<close>

lemma labels_name_caches:
  "e_event_type e \<noteq> ListReordered \<Longrightarrow> e_entity_type e = entity_label (e_event_type e) \<Longrightarrow> well_labelled e"
  by (cases "e_event_type e") (simp_all add: well_labelled_def RESYNC_TARGETS_def)

subsection \<open>What a step tells\<close>

lemma tab_input_frame [simp]:
  "w_log (tab_input env i w) = w_log w" "w_visible (tab_input env i w) = w_visible w"
  "w_client (tab_input env i w) = w_client w" "w_lastId (tab_input env i w) = w_lastId w"
  "w_owed (tab_input env i w) = w_owed w" "w_lost (tab_input env i w) = w_lost w" "w_tab (tab_input env i w) = fst (sse_step env i (w_tab w))"
  by (simp_all add: tab_input_def split: prod.split)

lemma tab_input_told:
  "set (w_told (tab_input env i w)) =
     e_event_id ` {e \<in> set (w_log w). calls_tell (snd (sse_step env i (w_tab w))) e} \<union> set (w_told w)"
  by (simp add: tab_input_def split: prod.split)

lemma fold_insert_set: "set (fold List.insert xs ys) = set xs \<union> set ys"
  by (induction xs arbitrary: ys) auto

lemma routes_of_set:
  "routes_of scopes routes = Some rs \<Longrightarrow> set routes \<subseteq> set rs \<and>
     (\<forall>s \<in> set scopes. \<forall>targets. map_of RESYNC_TARGETS s = Some targets \<longrightarrow> set targets \<subseteq> set rs)"
  by (induction scopes arbitrary: routes) (fastforce simp: fold_insert_set split: option.splits)+

lemma resync_tells:
  assumes "well_labelled e" "covers scopes e"
  shows "calls_tell (snd (onResync env (Some (Some \<lparr>re_last_event_id = m, re_scopes = scopes\<rparr>)) st)) e"
proof -
  have "resyncRoutes scopes = None \<or> EVENT_ROUTES (e_event_type e) \<in> set (the (resyncRoutes scopes))"
  proof (cases "resyncRoutes scopes")
    case (Some rs)
    then obtain s where s: "scopes = Some s" "routes_of s [] = Some rs"
      by (auto simp: resyncRoutes_def split: option.splits)
    obtain targets where "map_of RESYNC_TARGETS (e_entity_type e) = Some targets" "EVENT_ROUTES (e_event_type e) \<in> set targets"
      using assms(1) by (auto simp: well_labelled_def split: option.splits)
    then show ?thesis using routes_of_set [OF s(2)] s(1) assms(2) Some by (auto simp: covers_def)
  qed simp
  then show ?thesis
    by (cases "EVENT_ROUTES (e_event_type e)")
      (auto simp: onResync_def calls_tell_def Let_def split: option.splits)
qed

lemma full_resync_tells: "calls_tell (snd (onResync env None st)) e"
  by (cases "EVENT_ROUTES (e_event_type e)") (auto simp: onResync_def calls_tell_def Let_def)

lemma frame_tells: "calls_tell (activity_calls env u (EVENT_ROUTES (e_event_type e)) e) e"
  by (cases "EVENT_ROUTES (e_event_type e)") (auto simp: activity_calls_def calls_tell_def Let_def)


subsection \<open>The invariant\<close>

definition newest_first :: "sse_event list \<Rightarrow> bool" where
  "newest_first log \<longleftrightarrow> log \<noteq> [] \<and> sorted_wrt (\<lambda>a b. e_event_id b < e_event_id a) log"

definition head_id :: "sse_world \<Rightarrow> int" where
  "head_id w = e_event_id (hd (w_log w))"

definition log_ok :: "sse_world \<Rightarrow> bool" where
  "log_ok w \<longleftrightarrow> newest_first (w_log w) \<and> set (w_owed w) \<subseteq> e_event_id ` set (w_log w) \<and>
     (\<forall>e \<in> set (w_log w). e_event_id e \<in> set (w_owed w) \<longrightarrow>
        (e_event_type e \<noteq> ListReordered \<longrightarrow> well_labelled e) \<and> (still_open (w_lost w) e \<longrightarrow> on_visible (w_visible w) e))"

definition pending_rerun :: "sse_state \<Rightarrow> bool" where
  "pending_rerun st \<longleftrightarrow> ss_ran st \<noteq> Some (ss_user st, ss_nonce st)"

definition tab_ok :: "sse_world \<Rightarrow> bool" where
  "tab_ok w \<longleftrightarrow>
     (let st = w_tab w in
      truthy (ss_user st) \<and> ss_watermark st \<noteq> None \<and> (pending_rerun st \<longrightarrow> ss_needsResync st) \<and>
      (case ss_stream st of
         None \<Rightarrow> False
       | Some es \<Rightarrow> (es_mark es \<noteq> None \<or> w_lastId w \<noteq> None) \<and>
           (es_closed es \<longrightarrow> w_client w = None) \<and> (ss_timer st \<noteq> None \<or> pending_rerun st \<longrightarrow> es_closed es)))"

definition marks :: "sse_world \<Rightarrow> int set" where
  "marks w = set_option (ss_watermark (w_tab w)) \<union> set_option (w_lastId w) \<union>
     (case ss_stream (w_tab w) of Some es \<Rightarrow> set_option (es_mark es) | None \<Rightarrow> {})"

definition below :: "sse_world \<Rightarrow> int \<Rightarrow> bool" where
  "below w n \<longleftrightarrow> (\<forall>m \<in> marks w. m < n)"

text \<open>The handshake's shape, the head it names, and the queue: frames in order, or only the overflow mark.\<close>

definition announced :: "sse_client \<Rightarrow> int set" where
  "announced c = {h. ConnectedItem (Some h) \<in> set (sc_out c)}"

definition handshake_shape :: "sse_client \<Rightarrow> bool" where
  "handshake_shape c \<longleftrightarrow>
     (\<exists>h s. sc_out c \<in> {[], [ResyncItem s], [ConnectedItem (Some h)], [ConnectedItem (Some h), ResyncItem s]})"

definition queue_ok :: "sse_event list \<Rightarrow> sse_client \<Rightarrow> bool" where
  "queue_ok log c \<longleftrightarrow>
     (if sc_pending c then sc_queue c = [OverflowItem]
      else \<exists>es. sc_queue c = map FrameItem es \<and> sorted_wrt (\<lambda>d e. e_event_id d < e_event_id e) es \<and> set es \<subseteq> set log)"

definition client_ok :: "sse_world \<Rightarrow> sse_client \<Rightarrow> bool" where
  "client_ok w c \<longleftrightarrow> handshake_shape c \<and> (\<forall>h \<in> announced c. h \<le> head_id w) \<and> queue_ok (w_log w) c"

definition gap :: "sse_world \<Rightarrow> sse_event \<Rightarrow> bool" where
  "gap w e \<longleftrightarrow> e \<in> set (w_log w) \<and> e_event_id e \<in> set (w_owed w) \<and> e_event_id e \<notin> set (w_told w) \<and>
     e_event_type e \<noteq> ListReordered \<and> still_open (w_lost w) e"

definition ordered :: "sse_client \<Rightarrow> sse_event \<Rightarrow> bool" where
  "ordered c e \<longleftrightarrow> (\<exists>s. ResyncItem s \<in> set (sc_out c) \<and> covers s e)"

definition queued :: "sse_client \<Rightarrow> sse_event \<Rightarrow> bool" where
  "queued c e \<longleftrightarrow> (FrameItem e \<in> set (sc_queue c) \<or> sc_pending c) \<and> (\<forall>h \<in> announced c. h < e_event_id e)"

definition noticed :: "sse_world \<Rightarrow> sse_event \<Rightarrow> bool" where
  "noticed w e \<longleftrightarrow>
     (case w_client w of
        None \<Rightarrow> below w (e_event_id e)
      | Some c \<Rightarrow> inside_handshake w \<and> ordered c e \<or> below w (e_event_id e) \<and> (ordered c e \<or> queued c e))"

definition world_ok :: "sse_world \<Rightarrow> bool" where
  "world_ok w \<longleftrightarrow> log_ok w \<and> tab_ok w \<and> (\<forall>m \<in> marks w. m \<le> head_id w) \<and>
     (\<forall>c. w_client w = Some c \<longrightarrow> client_ok w c) \<and> (\<forall>e. gap w e \<longrightarrow> noticed w e)"

lemma head_id_current: "log_ok w \<Longrightarrow> current_event_id (w_log w) = Some (head_id w)"
  by (cases "w_log w") (simp_all add: log_ok_def newest_first_def current_event_id_def head_id_def)

lemma below_head: "log_ok w \<Longrightarrow> e \<in> set (w_log w) \<Longrightarrow> e_event_id e \<le> head_id w"
  by (cases "w_log w") (auto simp: log_ok_def newest_first_def head_id_def less_imp_le)

subsection \<open>Each action keeps it\<close>

text \<open>A broadcast event is queued, and takes nothing away from what the client already held.\<close>

lemma broadcast_out [simp]: "sc_out (broadcast e c) = sc_out c"
  by (simp add: broadcast_def overflow_def)

lemma broadcast_queues: "FrameItem e \<in> set (sc_queue (broadcast e c)) \<or> sc_pending (broadcast e c)"
  by (simp add: broadcast_def overflow_def)

lemma broadcast_queued: "queued c d \<Longrightarrow> queued (broadcast e c) d"
  by (auto simp: queued_def announced_def broadcast_def overflow_def)

lemma ordered_broadcast [simp]: "ordered (broadcast e c) d = ordered c d"
  by (simp add: ordered_def)

lemma queue_later: "queue_ok log c \<Longrightarrow> set log \<subseteq> set log' \<Longrightarrow> queue_ok log' c"
  unfolding queue_ok_def by (cases "sc_pending c") (simp, force)

lemma client_later:
  assumes "client_ok w c" "head_id w \<le> head_id w'" "set (w_log w) \<subseteq> set (w_log w')"
  shows "client_ok w' c"
  using assms queue_later by (fastforce simp: client_ok_def)

lemma queue_broadcast:
  assumes "queue_ok log c" "\<And>d. d \<in> set log \<Longrightarrow> e_event_id d < e_event_id e"
  shows "queue_ok (e # log) (broadcast e c)"
proof (cases "sc_pending c \<or> QUEUE_MAX \<le> length (sc_queue c)")
  case True
  then show ?thesis using assms(1) by (auto simp: queue_ok_def broadcast_def overflow_def)
next
  case False
  then obtain es where es: "sc_queue c = map FrameItem es" "sorted_wrt (\<lambda>d e. e_event_id d < e_event_id e) es"
    "set es \<subseteq> set log" using assms(1) by (auto simp: queue_ok_def)
  have "sc_queue (broadcast e c) = map FrameItem (es @ [e])" "\<not> sc_pending (broadcast e c)"
    using False es(1) by (simp_all add: broadcast_def)
  moreover have "sorted_wrt (\<lambda>d e. e_event_id d < e_event_id e) (es @ [e])"
    using es assms(2) by (auto simp: sorted_wrt_append)
  moreover have "set (es @ [e]) \<subseteq> set (e # log)" using es(3) by auto
  ultimately show ?thesis unfolding queue_ok_def by metis
qed

lemma handshake_broadcast [simp]: "handshake_shape (broadcast e c) = handshake_shape c"
  "announced (broadcast e c) = announced c"
  by (simp_all add: handshake_shape_def announced_def)

lemma renumbered [simp]:
  "on_visible visible (e\<lparr>e_event_id := n, e_entity_type := k\<rparr>) = on_visible visible e"
  "still_open lost (e\<lparr>e_event_id := n, e_entity_type := k\<rparr>) = still_open lost e"
  by (simp_all add: on_visible_def still_open_def split: option.split)

lemma logged_ok:
  assumes w: "world_ok w"
  shows "world_ok (world_step env (Logged e audience) w)"
proof -
  define e' where "e' = e\<lparr>e_event_id := next_id (w_log w), e_entity_type := entity_label (e_event_type e)\<rparr>"
  define w' where "w' = world_step env (Logged e audience) w"
  have log: "log_ok w" using w by (simp add: world_ok_def)
  have new: "e_event_id e' = head_id w + 1" using head_id_current [OF log] by (simp add: next_id_def e'_def)
  have old: "d \<in> set (w_log w) \<Longrightarrow> e_event_id d < e_event_id e'" for d using below_head [OF log, of d] new by simp
  have frame: "w_log w' = e' # w_log w" "w_tab w' = w_tab w" "w_lastId w' = w_lastId w" "w_visible w' = w_visible w"
    "w_lost w' = w_lost w" "w_told w' = w_told w"
    "w_owed w' = (if audience \<and> on_visible (w_visible w) e' then e_event_id e' # w_owed w else w_owed w)"
    "w_client w' = (if audience then map_option (broadcast e') (w_client w) else w_client w)"
    by (simp_all add: world_step_def Let_def e'_def w'_def)
  have marks: "marks w' = marks w" by (simp add: marks_def frame)
  have labelled: "e_event_type e' \<noteq> ListReordered \<Longrightarrow> well_labelled e'"
    by (rule labels_name_caches) (simp_all add: e'_def)
  have fresh: "e_event_id e' \<notin> set (w_owed w)" using log old by (fastforce simp: log_ok_def)
  have order: "newest_first (w_log w')"
    using log old by (auto simp: log_ok_def newest_first_def frame)
  have "set (w_owed w') \<subseteq> e_event_id ` set (w_log w')"
    using log by (auto simp: log_ok_def frame)
  moreover have "(e_event_type d \<noteq> ListReordered \<longrightarrow> well_labelled d) \<and>
      (still_open (w_lost w') d \<longrightarrow> on_visible (w_visible w') d)"
    if "d \<in> set (w_log w')" "e_event_id d \<in> set (w_owed w')" for d
  proof (cases "d = e'")
    case True
    then show ?thesis using that(2) fresh labelled by (auto simp: frame split: if_splits)
  next
    case False
    then have "d \<in> set (w_log w)" "e_event_id d \<in> set (w_owed w)"
      using that old [of d] by (auto simp: frame split: if_splits)
    then show ?thesis using log by (auto simp: log_ok_def frame)
  qed
  ultimately have "log_ok w'" using order unfolding log_ok_def by blast
  moreover have "tab_ok w'" using w by (auto simp: world_ok_def tab_ok_def frame Let_def split: option.splits)
  moreover have "\<forall>m \<in> marks w'. m \<le> head_id w'"
    using w new by (auto simp: world_ok_def marks head_id_def frame)
  moreover have "client_ok w' c" if c: "w_client w' = Some c" for c
  proof -
    obtain c0 where c0: "w_client w = Some c0" "c = (if audience then broadcast e' c0 else c0)"
      using c by (cases "w_client w") (auto simp: frame split: if_splits)
    then have ok: "client_ok w c0" using w by (simp add: world_ok_def)
    have "head_id w \<le> head_id w'" using new by (simp add: head_id_def frame)
    then have later: "client_ok w' c0" using client_later [OF ok, of w'] by (auto simp: frame)
    then have "handshake_shape c0" "\<forall>h \<in> announced c0. h \<le> head_id w'" by (simp_all add: client_ok_def)
    moreover have "queue_ok (w_log w') (broadcast e' c0)"
      using ok queue_broadcast [of "w_log w" c0 e'] old by (simp add: client_ok_def frame)
    ultimately have "client_ok w' (broadcast e' c0)" by (simp add: client_ok_def)
    with later c0(2) show ?thesis by (cases audience) simp_all
  qed
  moreover have "noticed w' d" if d: "gap w' d" for d
  proof (cases "d = e'")
    case True
    have "audience" using fresh d True by (auto simp: gap_def frame split: if_splits)
    moreover have "below w' (e_event_id e')" using w new by (fastforce simp: world_ok_def below_def marks)
    moreover have "\<forall>h \<in> announced c. h < e_event_id e'" if "w_client w = Some c" for c
      using w that new by (fastforce simp: world_ok_def client_ok_def)
    ultimately show ?thesis using True broadcast_queues [of e']
      by (auto simp: noticed_def frame queued_def announced_def split: option.split)
  next
    case False
    then have "gap w d" using d old [of d] by (auto simp: gap_def frame split: if_splits)
    then have "noticed w d" using w by (simp add: world_ok_def)
    moreover have "inside_handshake w' = inside_handshake w"
      by (auto simp: inside_handshake_def frame split: option.splits)
    ultimately show ?thesis using broadcast_queued [of _ d e']
      by (auto simp: noticed_def frame below_def marks split: option.splits)
  qed
  ultimately have "world_ok w'" unfolding world_ok_def by blast
  then show ?thesis by (simp add: w'_def)
qed


text \<open>A registration: any event that is missing was logged after the mark that is offered, so its kind is ordered.\<close>

lemma connect_orders:
  assumes "log_ok w" "e \<in> set (w_log w)" "e_event_id e \<in> set (w_owed w)" "m < e_event_id e" "still_open (w_lost w) e"
  shows "ordered (sse_connect (Some m) (w_log w) (w_visible w)) e"
proof -
  let ?rows = "rev (filter (\<lambda>e. e_event_id e > m) (w_log w))"
  have needed: "resync_needed (Some m) (current_event_id (w_log w))"
    using head_id_current [OF assms(1)] below_head [OF assms(1,2)] assms(4) by (simp add: resync_needed_def)
  have "covers (entity_types_changed_since (w_log w) m (w_visible w)) e"
  proof (cases "500 < length (take 501 ?rows)")
    case True
    then show ?thesis unfolding entity_types_changed_since_def Let_def if_P [OF True] by (simp add: covers_def)
  next
    case False
    then have all: "take 501 ?rows = ?rows" by simp
    have "e \<in> set ?rows" using assms(2,4) by simp
    moreover have "on_visible (w_visible w) e" using assms(1-3,5) by (auto simp: log_ok_def)
    ultimately show ?thesis
      unfolding entity_types_changed_since_def Let_def if_not_P [OF False] all
      by (auto simp: covers_def on_visible_def)
  qed
  then show ?thesis using needed by (auto simp: ordered_def sse_connect_def Let_def)
qed

lemma connect_ok: "log_ok w \<Longrightarrow> client_ok w (sse_connect m (w_log w) (w_visible w))"
  by (auto simp: client_ok_def handshake_shape_def announced_def queue_ok_def sse_connect_def Let_def head_id_current)

lemma opens_ok: "world_ok w \<Longrightarrow> world_ok (world_step env Opens' w)"
proof -
  assume w: "world_ok w"
  show ?thesis
  proof (cases "w_client w = None \<and> (\<exists>es. ss_stream (w_tab w) = Some es \<and> \<not> es_closed es)")
    case False
    then have "world_step env Opens' w = w"
      by (auto simp: world_step_def split: option.split)
    then show ?thesis using w by simp
  next
    case True
    then obtain es where es: "w_client w = None" "ss_stream (w_tab w) = Some es" "\<not> es_closed es" by blast
    have log: "log_ok w" using w by (simp add: world_ok_def)
    define mark where "mark = (case es_mark es of Some m \<Rightarrow> Some m | None \<Rightarrow> w_lastId w)"
    define c where "c = sse_connect mark (w_log w) (w_visible w)"
    have step: "world_step env Opens' w = w\<lparr>w_client := Some c\<rparr>"
      using es by (simp add: world_step_def c_def mark_def)
    have "\<exists>m. mark = Some m \<and> m \<in> marks w"
      using w es by (cases "es_mark es") (auto simp: world_ok_def tab_ok_def mark_def marks_def Let_def)
    then obtain m where m: "mark = Some m" "m \<in> marks w" by blast
    have "noticed (w\<lparr>w_client := Some c\<rparr>) e" if "gap (w\<lparr>w_client := Some c\<rparr>) e" for e
    proof -
      have g: "gap w e" using that by (simp add: gap_def)
      then have "below w (e_event_id e)" using w es by (auto simp: world_ok_def noticed_def split: option.splits)
      moreover from this have "ordered c e"
        using connect_orders [OF log, of e m] g m by (simp add: gap_def below_def c_def)
      ultimately show ?thesis by (simp add: noticed_def below_def marks_def)
    qed
    moreover have "client_ok (w\<lparr>w_client := Some c\<rparr>) c"
      using connect_ok [OF log, of mark] by (simp add: client_ok_def head_id_def c_def)
    ultimately show ?thesis using w es unfolding step
      by (simp add: world_ok_def log_ok_def tab_ok_def marks_def head_id_def Let_def)
  qed
qed

text \<open>Cutting the connection: nothing is said to the tab but that the stream has ended.\<close>

lemma quiet_told: "snd (sse_step env i (w_tab w)) = [] \<or> snd (sse_step env i (w_tab w)) = [ProbeSession] \<Longrightarrow>
    set (w_told (tab_input env i w)) = set (w_told w)"
proof -
  assume "snd (sse_step env i (w_tab w)) = [] \<or> snd (sse_step env i (w_tab w)) = [ProbeSession]"
  then have "\<not> calls_tell (snd (sse_step env i (w_tab w))) e" for e
    by (cases "EVENT_ROUTES (e_event_type e)") (auto simp: calls_tell_def)
  then show ?thesis unfolding tab_input_told by simp
qed

lemma stream_ended:
  assumes "ss_stream st = Some es" "ss_timer st = None" "i = EsError b \<or> i = EsCloses"
  obtains ended timer' attempts' status' where
    "fst (sse_step env i st) = st\<lparr>ss_stream := Some (es\<lparr>es_closed := ended\<rparr>), ss_timer := timer',
       ss_attempts := attempts', ss_status := status'\<rparr>" "timer' \<noteq> None \<longrightarrow> ended" "snd (sse_step env i st) = []"
proof (cases "i = EsCloses")
  case True
  then show ?thesis using assms that [where ended = True and timer' = None and attempts' = "ss_attempts st"
        and status' = "ss_status st"] by (simp add: sse_step_def)
next
  case False
  then show ?thesis
    using assms that [where ended = b and timer' = "if b then Some (ss_attempts st) else None"
        and attempts' = "if b then ss_attempts st + 1 else ss_attempts st" and status' = Reconnecting]
    by (cases b) (simp_all add: sse_step_def onerror_def Let_def)
qed

lemma cut_ok:
  assumes w: "world_ok w" and i: "i = EsError b \<or> i = EsCloses" and o: "\<not> inside_handshake w" and c: "w_client w = Some c"
  shows "world_ok (tab_input env i (w\<lparr>w_client := None\<rparr>))"
proof -
  let ?w = "w\<lparr>w_client := None\<rparr>"
  let ?v = "tab_input env i ?w"
  have "tab_ok w" using w by (simp add: world_ok_def)
  then obtain es where es: "ss_stream (w_tab w) = Some es" "\<not> es_closed es" "ss_timer (w_tab w) = None"
    "\<not> pending_rerun (w_tab w)"
    using c by (auto simp: tab_ok_def Let_def split: option.splits)
  obtain ended timer' attempts' status' where f: "fst (sse_step env i (w_tab w)) =
      (w_tab w)\<lparr>ss_stream := Some (es\<lparr>es_closed := ended\<rparr>), ss_timer := timer', ss_attempts := attempts', ss_status := status'\<rparr>"
    "timer' \<noteq> None \<longrightarrow> ended" "snd (sse_step env i (w_tab w)) = []"
    by (rule stream_ended [OF es(1,3) i])
  have told: "set (w_told ?v) = set (w_told w)"
    using quiet_told [of env i ?w] f(3) by simp
  have marks: "marks ?v = marks w"
    using es by (simp add: marks_def f(1))
  have "tab_ok ?v"
    using \<open>tab_ok w\<close> es f(2) by (simp add: tab_ok_def pending_rerun_def f(1) Let_def)
  moreover have "noticed ?v e" if "gap ?v e" for e
  proof -
    have "gap w e" using that told by (simp add: gap_def)
    then have "below w (e_event_id e)" using w c o by (auto simp: world_ok_def noticed_def)
    then show ?thesis by (simp add: noticed_def below_def marks)
  qed
  ultimately show ?thesis using w marks by (simp add: world_ok_def log_ok_def head_id_def)
qed


text \<open>The tab's own steps: the wait is over, the page is looked at, React runs the effect again.\<close>

lemma tab_step_ok:
  assumes w: "world_ok w"
    and st: "ss_watermark st' = ss_watermark (w_tab w)" "ss_stream st' = ss_stream (w_tab w)" "ss_user st' = ss_user (w_tab w)"
    and closed: "\<And>es. ss_stream st' = Some es \<Longrightarrow> ss_timer st' \<noteq> None \<or> pending_rerun st' \<Longrightarrow> es_closed es"
    and needs: "pending_rerun st' \<Longrightarrow> ss_needsResync st'"
    and i: "fst (sse_step env i (w_tab w)) = st'" "set (w_told (tab_input env i w)) = set (w_told w)"
  shows "world_ok (tab_input env i w)"
proof -
  have "marks (tab_input env i w) = marks w" using st i by (simp add: marks_def)
  moreover have "gap (tab_input env i w) e = gap w e" for e using i by (simp add: gap_def)
  moreover have "noticed (tab_input env i w) e = noticed w e" for e
    using calculation(1) by (auto simp: noticed_def below_def inside_handshake_def split: option.splits)
  moreover have "tab_ok (tab_input env i w)"
    using w st closed needs i by (auto simp: world_ok_def tab_ok_def Let_def split: option.splits)
  ultimately show ?thesis using w by (simp add: world_ok_def log_ok_def client_ok_def head_id_def)
qed

lemma timer_ok: "world_ok w \<Longrightarrow> world_ok (tab_input env TimerFires w)"
proof (cases "ss_timer (w_tab w)")
  case None
  assume "world_ok w"
  then have "tab_ok w" by (simp add: world_ok_def)
  with \<open>world_ok w\<close> None show ?thesis
    by (intro tab_step_ok [where st' = "w_tab w"] quiet_told)
      (auto simp: sse_step_def timer_fires_def tab_ok_def Let_def)
next
  case (Some attempt)
  assume w: "world_ok w"
  then have "tab_ok w" by (simp add: world_ok_def)
  with w Some show ?thesis
    by (intro tab_step_ok [where st' = "fst (timer_fires (w_tab w))"] quiet_told)
      (auto simp: sse_step_def timer_fires_def tab_ok_def Let_def)
qed

lemma visibility_ok: "world_ok w \<Longrightarrow> world_ok (tab_input env (Visibility b) w)"
proof -
  assume w: "world_ok w"
  then have tab: "tab_ok w" by (simp add: world_ok_def)
  let ?st = "w_tab w"
  have "handleVisibilityChange b ?st = ?st \<or>
      handleVisibilityChange b ?st = ?st\<lparr>ss_needsResync := True, ss_nonce := ss_nonce ?st + 1\<rparr> \<and>
      (\<forall>es. ss_stream ?st = Some es \<longrightarrow> es_closed es)"
    by (auto simp: handleVisibilityChange_def split: option.splits)
  with w tab show ?thesis
    by (intro tab_step_ok [where st' = "handleVisibilityChange b ?st"] quiet_told)
      (auto simp: sse_step_def tab_ok_def Let_def)
qed

lemma rerun_ok:
  assumes w: "world_ok w" and r: "pending_rerun (w_tab w)"
  shows "world_ok (tab_input env Commit (w\<lparr>w_client := None, w_lastId := None\<rparr>))"
proof -
  let ?v = "tab_input env Commit (w\<lparr>w_client := None, w_lastId := None\<rparr>)"
  have tab: "tab_ok w" using w by (simp add: world_ok_def)
  obtain u n where u: "ss_user (w_tab w) = Some u" "u \<noteq> []" "ss_watermark (w_tab w) = Some n"
    "ss_needsResync (w_tab w)" "w_client w = None"
    using tab r by (cases "ss_user (w_tab w)") (auto simp: tab_ok_def Let_def split: option.splits)
  have st: "fst (sse_step env Commit (w_tab w)) = (w_tab w)\<lparr>ss_timer := None,
      ss_stream := Some \<lparr>es_user = u, es_mark = Some n, es_closed = False\<rparr>, ss_ran := Some (Some u, ss_nonce (w_tab w))\<rparr>"
    using u r by (simp add: sse_step_def commit_def run_effect_def cleanup_def pending_rerun_def Let_def)
  have told: "set (w_told ?v) = set (w_told w)"
    using quiet_told [of env Commit "w\<lparr>w_client := None, w_lastId := None\<rparr>"] by (simp add: sse_step_def)
  have marks: "marks ?v = {n}" by (simp add: marks_def st u)
  have n: "n \<in> marks w" by (simp add: marks_def u)
  have "tab_ok ?v" using u by (simp add: tab_ok_def st pending_rerun_def)
  moreover have "noticed ?v e" if "gap ?v e" for e
  proof -
    have "gap w e" using that told by (simp add: gap_def)
    then have "below w (e_event_id e)" using w u by (auto simp: world_ok_def noticed_def)
    then show ?thesis using n by (simp add: noticed_def below_def marks)
  qed
  ultimately show ?thesis using w n by (simp add: world_ok_def log_ok_def head_id_def marks)
qed


subsection \<open>Deliveries\<close>

text \<open>What any item does to the tab: the stream and what is pending stay, and the mark stays or becomes the item's id.\<close>

lemma resync_effect:
  "ss_stream (fst (onResync env x st)) = ss_stream st" "ss_user (fst (onResync env x st)) = ss_user st"
  "ss_ran (fst (onResync env x st)) = ss_ran st" "ss_nonce (fst (onResync env x st)) = ss_nonce st"
  "ss_timer (fst (onResync env x st)) = ss_timer st"
  "x = Some (Some f) \<Longrightarrow> ss_watermark (fst (onResync env x st)) = ss_watermark st \<or>
     re_last_event_id f \<noteq> None \<and> ss_watermark (fst (onResync env x st)) = re_last_event_id f"
  "x = None \<Longrightarrow> ss_watermark (fst (onResync env x st)) = ss_watermark st"
  by (auto simp: onResync_def Let_def split: option.splits)

lemma item_effect:
  fixes st :: sse_state and i :: sse_item and h :: int and env :: sse_env
  assumes "ss_stream st = Some es"
  defines "st' \<equiv> fst (sse_step env (item_input (Some h) i) st)"
  shows "ss_stream st' = Some es" "ss_user st' = ss_user st" "ss_ran st' = ss_ran st" "ss_nonce st' = ss_nonce st"
    "ss_timer st' = ss_timer st"
    "ss_watermark st' = ss_watermark st \<or> item_id (Some h) i \<noteq> None \<and> ss_watermark st' = item_id (Some h) i"
proof -
  have "ss_stream st' = Some es \<and> ss_user st' = ss_user st \<and> ss_ran st' = ss_ran st \<and> ss_nonce st' = ss_nonce st \<and>
    ss_timer st' = ss_timer st \<and>
    (ss_watermark st' = ss_watermark st \<or> item_id (Some h) i \<noteq> None \<and> ss_watermark st' = item_id (Some h) i)"
  proof (cases i)
    case (ConnectedItem n)
    then show ?thesis using assms
      by (cases n) (auto simp: item_input_def item_id_def sse_step_def onConnected_def Let_def resync_effect)
  next
    case (ResyncItem s)
    then show ?thesis using assms resync_effect(6) [OF refl, of env "\<lparr>re_last_event_id = None, re_scopes = s\<rparr>" st]
      by (simp add: item_input_def item_id_def sse_step_def resync_effect(1-5))
  next
    case (FrameItem e)
    then show ?thesis using assms
      by (simp add: item_input_def item_id_def sse_step_def readActivityFrame_def)
  next
    case OverflowItem
    then show ?thesis using assms resync_effect(6) [OF refl, of env "\<lparr>re_last_event_id = Some h, re_scopes = None\<rparr>" st]
      by (simp add: item_input_def item_id_def sse_step_def resync_effect(1-5))
  qed
  then show "ss_stream st' = Some es" "ss_user st' = ss_user st" "ss_ran st' = ss_ran st" "ss_nonce st' = ss_nonce st"
    "ss_timer st' = ss_timer st"
    "ss_watermark st' = ss_watermark st \<or> item_id (Some h) i \<noteq> None \<and> ss_watermark st' = item_id (Some h) i"
    by simp_all
qed

text \<open>A delivery keeps the invariant if the new mark is no later than the head and every gap left is still noticed.\<close>

lemma delivery_ok:
  assumes w: "world_ok w" "w_client w = Some c" "next_item c = Some (i, c')"
    and c': "client_ok w c'" and head: "\<And>n. item_id (Some (head_id w)) i = Some n \<Longrightarrow> n \<le> head_id w"
    and gaps: "\<And>e. gap (world_step env Delivers w) e \<Longrightarrow> noticed (world_step env Delivers w) e"
  shows "world_ok (world_step env Delivers w)"
proof -
  define v where "v = world_step env Delivers w"
  have log: "log_ok w" and tab: "tab_ok w" using w by (simp_all add: world_ok_def)
  obtain es where es: "ss_stream (w_tab w) = Some es" "\<not> es_closed es" "ss_timer (w_tab w) = None" "\<not> pending_rerun (w_tab w)"
    using tab w(2) by (auto simp: tab_ok_def Let_def split: option.splits)
  note f = item_effect [OF es(1), of env "head_id w" i]
  have v: "w_log v = w_log w" "w_visible v = w_visible w" "w_owed v = w_owed w" "w_lost v = w_lost w" "w_client v = Some c'"
    "w_tab v = fst (sse_step env (item_input (Some (head_id w)) i) (w_tab w))"
    "w_lastId v = (case item_id (Some (head_id w)) i of Some n \<Rightarrow> Some n | None \<Rightarrow> w_lastId w)"
    using w(2,3) by (simp_all add: v_def world_step_def Let_def head_id_current [OF log])
  have "tab_ok v"
    using tab es f by (auto simp: tab_ok_def pending_rerun_def v Let_def split: option.splits)
  moreover have "m \<in> marks w \<or> item_id (Some (head_id w)) i = Some m" if "m \<in> marks v" for m
    using that f es(1) by (auto simp: marks_def v split: option.splits)
  moreover have "log_ok v" using log by (simp add: log_ok_def v)
  ultimately show ?thesis using w(1) c' head gaps
    by (fastforce simp: world_ok_def client_ok_def head_id_def v v_def [symmetric])
qed


text \<open>What is told after a delivery, and where the marks are.\<close>

lemma delivery_facts:
  fixes w :: sse_world and env :: sse_env
  assumes w: "world_ok w" "w_client w = Some c" "next_item c = Some (i, c')"
  defines "v \<equiv> world_step env Delivers w"
  shows "w_client v = Some c'"
    "gap v e \<Longrightarrow> gap w e \<and> \<not> calls_tell (snd (sse_step env (item_input (Some (head_id w)) i) (w_tab w))) e"
    "below w n \<Longrightarrow> (\<And>k. item_id (Some (head_id w)) i = Some k \<Longrightarrow> k < n) \<Longrightarrow> below v n"
    "\<exists>es. ss_stream (w_tab w) = Some es"
proof -
  have log: "log_ok w" and tab: "tab_ok w" using w by (simp_all add: world_ok_def)
  obtain es where es: "ss_stream (w_tab w) = Some es"
    using tab by (auto simp: tab_ok_def Let_def split: option.splits)
  note f = item_effect [OF es, of env "head_id w" i]
  define u where "u = tab_input env (item_input (Some (head_id w)) i) (w\<lparr>w_client := Some c'\<rparr>)"
  have v: "v = u\<lparr>w_lastId := (case item_id (Some (head_id w)) i of Some n \<Rightarrow> Some n | None \<Rightarrow> w_lastId w)\<rparr>"
    using w(2,3) by (simp add: v_def u_def world_step_def Let_def head_id_current [OF log])
  show "w_client v = Some c'" by (simp add: v u_def)
  show "gap v e \<Longrightarrow> gap w e \<and> \<not> calls_tell (snd (sse_step env (item_input (Some (head_id w)) i) (w_tab w))) e"
    using tab_input_told [of env "item_input (Some (head_id w)) i" "w\<lparr>w_client := Some c'\<rparr>"]
    by (auto simp: gap_def v u_def)
  show "below w n \<Longrightarrow> (\<And>k. item_id (Some (head_id w)) i = Some k \<Longrightarrow> k < n) \<Longrightarrow> below v n"
    using f es by (auto simp: below_def marks_def v u_def split: option.splits)
  show "\<exists>es. ss_stream (w_tab w) = Some es" using es by blast
qed

lemma gapD: "world_ok w \<Longrightarrow> gap w e \<Longrightarrow> noticed w e \<and> well_labelled e \<and> e \<in> set (w_log w)"
  by (auto simp: world_ok_def log_ok_def gap_def)

lemma delivers_connected:
  assumes w: "world_ok w" "w_client w = Some c" and out: "sc_out c = ConnectedItem (Some h) # rest"
  shows "world_ok (world_step env Delivers w)"
proof -
  let ?c = "c\<lparr>sc_out := rest\<rparr>"
  have n: "next_item c = Some (ConnectedItem (Some h), ?c)" by (simp add: next_item_def out)
  have ok: "client_ok w c" using w by (simp add: world_ok_def)
  then have h: "h \<le> head_id w" and shape: "rest = [] \<or> (\<exists>s. rest = [ResyncItem s])"
    by (auto simp: client_ok_def announced_def handshake_shape_def out)
  show ?thesis
  proof (rule delivery_ok [OF w n])
    show "client_ok w ?c" using ok shape
      by (auto simp: client_ok_def handshake_shape_def announced_def queue_ok_def out)
    show "item_id (Some (head_id w)) (ConnectedItem (Some h)) = Some n \<Longrightarrow> n \<le> head_id w" for n
      using h by (simp add: item_id_def)
    fix e
    assume "gap (world_step env Delivers w) e"
    then have g: "gap w e" using delivery_facts(2) [OF w n] by blast
    have "\<not> inside_handshake w" by (simp add: inside_handshake_def w out)
    then have m: "below w (e_event_id e)" "ordered c e \<or> queued c e"
      using gapD [OF w(1) g] w(2) by (auto simp: noticed_def)
    show "noticed (world_step env Delivers w) e"
    proof (cases "ordered c e")
      case True
      then have "\<exists>s. rest = [ResyncItem s] \<and> covers s e" using shape by (auto simp: ordered_def out)
      then show ?thesis
        by (auto simp: noticed_def delivery_facts(1) [OF w n] inside_handshake_def ordered_def)
    next
      case False
      then have "queued c e" using m(2) by simp
      then have "queued ?c e" "h < e_event_id e" by (auto simp: queued_def announced_def out)
      moreover from this have "below (world_step env Delivers w) (e_event_id e)"
        using delivery_facts(3) [OF w n m(1)] by (simp add: item_id_def)
      ultimately show ?thesis by (simp add: noticed_def delivery_facts(1) [OF w n])
    qed
  qed
qed

lemma delivers_resync:
  assumes w: "world_ok w" "w_client w = Some c" and out: "sc_out c = [ResyncItem s]"
  shows "world_ok (world_step env Delivers w)"
proof -
  let ?c = "c\<lparr>sc_out := []\<rparr>"
  have n: "next_item c = Some (ResyncItem s, ?c)" by (simp add: next_item_def out)
  have ok: "client_ok w c" using w by (simp add: world_ok_def)
  show ?thesis
  proof (rule delivery_ok [OF w n])
    show "client_ok w ?c" using ok
      by (auto simp: client_ok_def handshake_shape_def announced_def queue_ok_def)
    show "item_id (Some (head_id w)) (ResyncItem s) = Some n \<Longrightarrow> n \<le> head_id w" for n
      by (simp add: item_id_def)
    fix e
    assume "gap (world_step env Delivers w) e"
    then have g: "gap w e" and t: "\<not> calls_tell (snd (sse_step env (item_input (Some (head_id w)) (ResyncItem s)) (w_tab w))) e"
      using delivery_facts(2) [OF w n] by blast+
    obtain es where es: "ss_stream (w_tab w) = Some es" using delivery_facts(4) [OF w n] by blast
    have "\<not> covers s e"
      using t resync_tells [of e s env None "w_tab w"] gapD [OF w(1) g] es
      by (auto simp: item_input_def sse_step_def)
    then have "\<not> ordered c e" by (simp add: ordered_def out)
    then have "below w (e_event_id e)" "queued ?c e"
      using gapD [OF w(1) g] w(2) by (auto simp: noticed_def queued_def announced_def out)
    moreover from this have "below (world_step env Delivers w) (e_event_id e)"
      using delivery_facts(3) [OF w n] by (simp add: item_id_def)
    ultimately show "noticed (world_step env Delivers w) e" by (simp add: noticed_def delivery_facts(1) [OF w n])
  qed
qed

lemma delivers_frame:
  assumes w: "world_ok w" "w_client w = Some c" and out: "sc_out c = []" "sc_queue c = FrameItem d # q"
  shows "world_ok (world_step env Delivers w)"
proof -
  let ?c = "c\<lparr>sc_queue := q\<rparr>"
  have n: "next_item c = Some (FrameItem d, ?c)" by (simp add: next_item_def out)
  have ok: "client_ok w c" and log: "log_ok w" using w by (simp_all add: world_ok_def)
  then have np: "\<not> sc_pending c" using out by (auto simp: client_ok_def queue_ok_def split: if_splits)
  obtain es where es: "q = map FrameItem es" "sorted_wrt (\<lambda>d e. e_event_id d < e_event_id e) (d # es)"
    "set (d # es) \<subseteq> set (w_log w)"
    using ok out np by (auto simp: client_ok_def queue_ok_def Cons_eq_map_conv)
  show ?thesis
  proof (rule delivery_ok [OF w n])
    show "client_ok w ?c" using ok es np
      by (auto simp: client_ok_def handshake_shape_def announced_def queue_ok_def)
    show "item_id (Some (head_id w)) (FrameItem d) = Some n \<Longrightarrow> n \<le> head_id w" for n
      using below_head [OF log, of d] es(3) by (simp add: item_id_def)
    fix e
    assume "gap (world_step env Delivers w) e"
    then have g: "gap w e" and t: "\<not> calls_tell (snd (sse_step env (item_input (Some (head_id w)) (FrameItem d)) (w_tab w))) e"
      using delivery_facts(2) [OF w n] by blast+
    obtain es' where "ss_stream (w_tab w) = Some es'" using delivery_facts(4) [OF w n] by blast
    then have "e \<noteq> d" using t frame_tells [of env "es_user es'" d] by (auto simp: item_input_def sse_step_def)
    moreover have b: "below w (e_event_id e)" "queued c e"
      using gapD [OF w(1) g] w(2) out by (auto simp: noticed_def inside_handshake_def ordered_def)
    ultimately have e: "e \<in> set es" using out es(1) np by (auto simp: queued_def)
    then have "below (world_step env Delivers w) (e_event_id e)"
      using delivery_facts(3) [OF w n b(1)] es(2) by (simp add: item_id_def)
    then show "noticed (world_step env Delivers w) e"
      using e es(1) out by (simp add: noticed_def delivery_facts(1) [OF w n] queued_def announced_def)
  qed
qed

lemma delivers_overflow:
  assumes w: "world_ok w" "w_client w = Some c" and out: "sc_out c = []" "sc_queue c = [OverflowItem]"
  shows "world_ok (world_step env Delivers w)"
proof -
  let ?c = "c\<lparr>sc_queue := [], sc_pending := False\<rparr>"
  have n: "next_item c = Some (OverflowItem, ?c)" by (simp add: next_item_def out)
  have ok: "client_ok w c" using w by (simp add: world_ok_def)
  show ?thesis
  proof (rule delivery_ok [OF w n])
    show "client_ok w ?c" using ok
      by (auto simp: client_ok_def handshake_shape_def announced_def queue_ok_def)
    show "item_id (Some (head_id w)) OverflowItem = Some n \<Longrightarrow> n \<le> head_id w" for n
      by (simp add: item_id_def)
    fix e
    assume "gap (world_step env Delivers w) e"
    then have g: "gap w e" and t: "\<not> calls_tell (snd (sse_step env (item_input (Some (head_id w)) OverflowItem) (w_tab w))) e"
      using delivery_facts(2) [OF w n] by blast+
    obtain es where es: "ss_stream (w_tab w) = Some es" using delivery_facts(4) [OF w n] by blast
    have False
      using t resync_tells [of e None env "Some (head_id w)" "w_tab w"] gapD [OF w(1) g] es
      by (auto simp: item_input_def sse_step_def covers_def)
    then show "noticed (world_step env Delivers w) e" ..
  qed
qed


lemma delivers_ok: "world_ok w \<Longrightarrow> world_ok (world_step env Delivers w)"
proof -
  assume w: "world_ok w"
  show ?thesis
  proof (cases "w_client w")
    case None
    then show ?thesis using w by (simp add: world_step_def)
  next
    case (Some c)
    then have ok: "client_ok w c" using w by (simp add: world_ok_def)
    consider h rest where "sc_out c = ConnectedItem (Some h) # rest" | s where "sc_out c = [ResyncItem s]" | "sc_out c = []"
      using ok by (auto simp: client_ok_def handshake_shape_def)
    then show ?thesis
    proof cases
      case 3
      consider "sc_queue c = [OverflowItem]" | d q where "sc_queue c = FrameItem d # q" | "sc_queue c = []"
        using ok by (cases "sc_queue c") (auto simp: client_ok_def queue_ok_def split: if_splits)
      then show ?thesis
      proof cases
        case 3
        then have "next_item c = None" using \<open>sc_out c = []\<close> by (simp add: next_item_def)
        then show ?thesis using w Some by (simp add: world_step_def)
      qed (use w Some 3 delivers_overflow delivers_frame in blast)+
    qed (use w Some delivers_connected delivers_resync in blast)+
  qed
qed

text \<open>Access moves: what is lost is no longer claimed, and what is gained was not owed before.\<close>

lemma access_ok:
  assumes w: "world_ok w" and a: "a = LosesAccess d \<or> a = GainsAccess d"
  shows "world_ok (world_step env a w)"
proof -
  let ?v = "world_step env a w"
  have v: "w_log ?v = w_log w" "w_client ?v = w_client w" "w_lastId ?v = w_lastId w" "w_tab ?v = w_tab w"
    "w_owed ?v = w_owed w" "w_told ?v = w_told w" "set (w_lost w) \<subseteq> set (w_lost ?v)"
    using a by (auto simp: world_step_def)
  have open': "still_open (w_lost ?v) e \<Longrightarrow> still_open (w_lost w) e" for e
    using v(7) by (auto simp: still_open_def split: option.splits)
  have visible: "on_visible (w_visible ?v) e" if "on_visible (w_visible w) e" "still_open (w_lost ?v) e" for e
    using that a by (auto simp: on_visible_def still_open_def world_step_def split: option.splits)
  have marks: "marks ?v = marks w" by (simp add: marks_def v)
  have "log_ok ?v" using w open' visible by (auto simp: world_ok_def log_ok_def v)
  moreover have "gap ?v e \<Longrightarrow> gap w e" for e using open' by (auto simp: gap_def v)
  moreover have "noticed w e \<Longrightarrow> noticed ?v e" for e
    by (auto simp: noticed_def v below_def marks inside_handshake_def split: option.splits)
  moreover have "tab_ok ?v" using w by (auto simp: world_ok_def tab_ok_def v Let_def split: option.splits)
  moreover have "client_ok w c \<Longrightarrow> client_ok ?v c" for c by (simp add: client_ok_def head_id_def v)
  ultimately show ?thesis using w by (auto simp: world_ok_def marks v head_id_def)
qed

lemma world_step_ok:
  assumes w: "world_ok w" and o: "\<not> cuts_handshake a w"
  shows "world_ok (world_step env a w)"
proof (cases a)
  case (Cut b)
  then show ?thesis using w cut_ok [OF w, of "EsError b" b] o
    by (auto simp: world_step_def cuts_handshake_def split: option.split)
next
  case SilentCut
  then show ?thesis using w cut_ok [OF w, of EsCloses] o
    by (auto simp: world_step_def cuts_handshake_def split: option.split)
next
  case (Tab i)
  then show ?thesis using w timer_ok [OF w] visibility_ok [OF w] rerun_ok [OF w]
    by (auto simp: world_step_def pending_rerun_def split: sse_input.split)
qed (use w opens_ok delivers_ok logged_ok access_ok in auto)

lemma whole_handshakes_ok: "world_ok w \<Longrightarrow> whole_handshakes env acts w \<Longrightarrow> world_ok (fold (world_step env) acts w)"
  by (induction acts arbitrary: w) (auto simp: world_step_ok)

lemma connected_world_ok:
  assumes "newest_first log" "u \<noteq> []"
  shows "world_ok (connected_world u log visible)"
proof -
  obtain e rest where "log = e # rest" using assms(1) by (cases log) (auto simp: newest_first_def)
  then show ?thesis using assms
    by (auto simp: world_ok_def log_ok_def tab_ok_def marks_def client_ok_def handshake_shape_def announced_def
      queue_ok_def gap_def connected_world_def initial_sse_def current_event_id_def head_id_def pending_rerun_def Let_def)
qed


text \<open>
  A run with all of it: while the tab is away an item is added to d, the lists of d are reordered and access to d' is
  lost; the item is noticed.
\<close>

definition busy_absence :: "world_event list" where
  "busy_absence = reconnect_around [Logged (logged_event ListItemCreated [] ''d'') True,
     Logged (logged_event ListReordered [] ''d'') True, LosesAccess ''e'', Logged (logged_event ListUpdated [] ''e'') False]"


end
