(* ===== verification/Backoff.thy ===== *)
theory Backoff
  imports Complex_Main
begin

text \<open>
  The jittered waits: before the event stream is reopened (\<open>frontend/src/hooks/useSSE.ts\<close>) and before a failed
  read is tried again (\<open>frontend/src/api/client.ts\<close>). \<open>random\<close> is what \<open>Math.random\<close> drew, at least 0 and less
  than 1. Numbers are exact; the code's are doubles, in which the products below are exact enough for the bounds,
  since the ceiling cuts the power off long before it leaves the range of a double.
\<close>

section \<open>Waiting before a reconnect\<close>

definition SSE_RECONNECT_BASE_MS :: int where
  "SSE_RECONNECT_BASE_MS = 1000"

definition SSE_RECONNECT_MAX_MS :: int where
  "SSE_RECONNECT_MAX_MS = 30000"

definition reconnect_ceiling :: "nat \<Rightarrow> int" where
  "reconnect_ceiling attempt = min (SSE_RECONNECT_BASE_MS * 2 ^ attempt) SSE_RECONNECT_MAX_MS"

definition reconnectDelayMs :: "rat \<Rightarrow> nat \<Rightarrow> rat" where
  "reconnectDelayMs random attempt = random * of_int (reconnect_ceiling attempt)"

section \<open>Waiting before a retry\<close>

definition RETRY_BASE_MS :: int where
  "RETRY_BASE_MS = 300"

definition retryDelayMs :: "rat \<Rightarrow> nat \<Rightarrow> rat" where
  "retryDelayMs random attempt = random * of_int RETRY_BASE_MS * 2 ^ attempt"

section \<open>The wait is bounded\<close>

lemma ceiling_range: "1 \<le> reconnect_ceiling attempt" "reconnect_ceiling attempt \<le> SSE_RECONNECT_MAX_MS"
  "reconnect_ceiling attempt \<le> SSE_RECONNECT_BASE_MS * 2 ^ attempt"
proof -
  have "(1 :: int) \<le> 2 ^ attempt" by simp
  then show "1 \<le> reconnect_ceiling attempt"
    unfolding reconnect_ceiling_def SSE_RECONNECT_BASE_MS_def SSE_RECONNECT_MAX_MS_def by linarith
qed (simp_all add: reconnect_ceiling_def)

text \<open>Whatever the draw, a reconnect waits less than the doubled base of its attempt and less than half a minute.\<close>

theorem reconnect_wait_bounded:
  assumes "0 \<le> random" "random < 1"
  shows "0 \<le> reconnectDelayMs random attempt \<and> reconnectDelayMs random attempt < 30000 \<and>
    reconnectDelayMs random attempt < 1000 * 2 ^ attempt"
proof -
  let ?c = "rat_of_int (reconnect_ceiling attempt)"
  have c: "1 \<le> ?c" "?c \<le> 30000"
    using ceiling_range(1,2) [of attempt] by (simp_all add: SSE_RECONNECT_MAX_MS_def)
  have "rat_of_int (reconnect_ceiling attempt) \<le> rat_of_int (1000 * 2 ^ attempt)"
    using ceiling_range(3) [of attempt] unfolding of_int_le_iff by (simp add: SSE_RECONNECT_BASE_MS_def)
  then have "?c \<le> 1000 * 2 ^ attempt" by simp
  moreover have "random * ?c < 1 * ?c" using assms c by (intro mult_strict_right_mono) auto
  moreover have "0 \<le> random * ?c" using assms c by simp
  ultimately show ?thesis using c(2) unfolding reconnectDelayMs_def by linarith
qed

theorem reconnect_wait_bounded_witness:
  "reconnectDelayMs (1 / 2) 3 < 30000 \<and> reconnectDelayMs (1 / 2) 3 < 1000 * 2 ^ 3"
  using reconnect_wait_bounded [of "1 / 2" 3] by simp

end
