(* ===== verification/ApiClient.thy ===== *)
theory ApiClient
  imports Contract SessionGuard
begin

text \<open>
  Requests to the server (\<open>frontend/src/api/client.ts\<close>): the CSRF cookie, the headers of a mutation, and the loop
  that tries a failed read again. A request's course is the list of what each attempt came back with; the host's
  \<open>decodeURIComponent\<close> is a parameter, and \<open>Headers\<close> is the set of names already given.

  The lemmas: the cookie is found by name wherever it stands and the prefixed one first; a write is sent once and
  a read at most twice; and only a 401 of the request's own session ends the session.
\<close>

section \<open>The CSRF cookie\<close>

definition CSRF_COOKIE_NAMES :: "string list" where
  "CSRF_COOKIE_NAMES = [''__Host-csrf_token'', ''csrf_token'']"

text \<open>
  \<open>(?:^|;\s*)name=([^;]*)\<close>: at the start, and after every semicolon and the white space behind it, the name with
  its equals sign, then everything up to the next semicolon. The names begin with no white space, so skipping all
  of it loses no match.
\<close>

definition cookie_here :: "string \<Rightarrow> string \<Rightarrow> string option" where
  "cookie_here name s =
     (let key = name @ ''='' in
      if take (length key) s = key then Some (takeWhile (\<lambda>c. c \<noteq> CHR '';'') (drop (length key) s)) else None)"

fun cookie_after :: "string \<Rightarrow> string \<Rightarrow> string option" where
  "cookie_after name [] = None"
| "cookie_after name (c # s) =
     (if c = CHR '';''
      then (case cookie_here name (dropWhile js_space s) of Some v \<Rightarrow> Some v | None \<Rightarrow> cookie_after name s)
      else cookie_after name s)"

definition match_cookie :: "string \<Rightarrow> string \<Rightarrow> string option" where
  "match_cookie name cookies =
     (case cookie_here name cookies of Some v \<Rightarrow> Some v | None \<Rightarrow> cookie_after name cookies)"

fun first_cookie :: "(string \<Rightarrow> string) \<Rightarrow> string \<Rightarrow> string list \<Rightarrow> string" where
  "first_cookie decode cookies [] = []"
| "first_cookie decode cookies (name # names) =
     (case match_cookie name cookies of Some v \<Rightarrow> decode v | None \<Rightarrow> first_cookie decode cookies names)"

definition getCsrfToken :: "(string \<Rightarrow> string) \<Rightarrow> string \<Rightarrow> string" where
  "getCsrfToken decode cookies = first_cookie decode cookies CSRF_COOKIE_NAMES"

section \<open>Headers\<close>

definition MUTATING :: "string list" where
  "MUTATING = [''POST'', ''PUT'', ''PATCH'', ''DELETE'']"

text \<open>The headers \<open>apiFetch\<close> adds, given the upper-cased method, the body and whether a content type was given.\<close>

definition added_headers :: "string \<Rightarrow> string option \<Rightarrow> bool \<Rightarrow> string \<Rightarrow> string \<Rightarrow> (string \<times> string) list" where
  "added_headers method body hasContentType csrf client =
     (if method \<in> set MUTATING \<and> truthy body \<and> \<not> hasContentType then [(''Content-Type'', ''application/json'')] else []) @
     (if method \<in> set MUTATING then [(''X-CSRF-Token'', csrf), (''X-Client-Id'', client)] else [])"

section \<open>The attempts\<close>

definition TRANSIENT_STATUS :: "int list" where
  "TRANSIENT_STATUS = [500, 502, 503, 504]"

definition MAX_ATTEMPTS :: nat where
  "MAX_ATTEMPTS = 2"

datatype fetch_outcome = NetworkFailed | Responded int

datatype fetch_result = Threw | Returned int

definition max_attempts :: "string \<Rightarrow> nat" where
  "max_attempts method = (if method \<in> set MUTATING then 1 else MAX_ATTEMPTS)"

text \<open>
  The loop from attempt \<open>attempt\<close>: what it ends with and how many requests it sent. \<open>outcome n\<close> is what attempt
  \<open>n\<close> comes back with. The 401 leaves the loop; the handler it calls is in \<open>apiFetch\<close> below.
\<close>

function fetch_loop :: "nat \<Rightarrow> (nat \<Rightarrow> fetch_outcome) \<Rightarrow> nat \<Rightarrow> fetch_result \<times> nat" where
  "fetch_loop maxAttempts outcome attempt =
     (let lastAttempt = maxAttempts \<le> attempt + 1 in
      case outcome attempt of
        NetworkFailed \<Rightarrow> if lastAttempt then (Threw, attempt + 1) else fetch_loop maxAttempts outcome (attempt + 1)
      | Responded status \<Rightarrow>
          if status = 401 then (Returned status, attempt + 1)
          else if status \<in> set TRANSIENT_STATUS \<and> \<not> lastAttempt then fetch_loop maxAttempts outcome (attempt + 1)
          else (Returned status, attempt + 1))"
  by pat_completeness auto
termination
  by (relation "measure (\<lambda>(m, _, k). m - k)") auto

declare fetch_loop.simps [simp del]

record api_outcome =
  ao_result :: fetch_result
  ao_sent :: nat
  ao_expires :: bool

text \<open>\<open>started\<close> is the session of the call, \<open>ended\<close> the one when its last answer comes.\<close>

definition apiFetch :: "string \<Rightarrow> (nat \<Rightarrow> fetch_outcome) \<Rightarrow> nat \<Rightarrow> nat \<Rightarrow> api_outcome" where
  "apiFetch method outcome started ended =
     (let (result, sent) = fetch_loop (max_attempts method) outcome 0 in
      \<lparr>ao_result = result, ao_sent = sent, ao_expires = (result = Returned 401 \<and> started = ended)\<rparr>)"

section \<open>What is sent\<close>

definition transient :: "fetch_outcome \<Rightarrow> bool" where
  "transient out \<longleftrightarrow> (case out of NetworkFailed \<Rightarrow> True | Responded s \<Rightarrow> s \<in> set TRANSIENT_STATUS)"

definition result_of :: "fetch_outcome \<Rightarrow> fetch_result" where
  "result_of out = (case out of NetworkFailed \<Rightarrow> Threw | Responded s \<Rightarrow> Returned s)"

lemma fetch_once: "fetch_loop 1 outcome 0 = (result_of (outcome 0), 1)"
  by (subst fetch_loop.simps) (auto simp: result_of_def split: fetch_outcome.split)

lemma fetch_twice:
  "fetch_loop 2 outcome 0 = (if transient (outcome 0) then (result_of (outcome 1), 2) else (result_of (outcome 0), 1))"
proof -
  have second: "fetch_loop 2 outcome (Suc 0) = (result_of (outcome 1), 2)"
    by (subst fetch_loop.simps) (auto simp: result_of_def split: fetch_outcome.split)
  show ?thesis
    by (subst fetch_loop.simps)
      (auto simp: second result_of_def transient_def TRANSIENT_STATUS_def Let_def split: fetch_outcome.split)
qed

text \<open>C21. 
  A write is sent exactly once, whatever comes back; anything else once, and a second time exactly when the
  first attempt failed in a way that says nothing about the session; the last answer is what the caller gets, and
  the session is given up exactly for a 401 whose call was made in it.
\<close>

theorem apiFetch_exact:
  "apiFetch method outcome started ended =
     (if method \<notin> set MUTATING \<and> transient (outcome 0)
      then \<lparr>ao_result = result_of (outcome 1), ao_sent = 2,
            ao_expires = (outcome 1 = Responded 401 \<and> started = ended)\<rparr>
      else \<lparr>ao_result = result_of (outcome 0), ao_sent = 1,
            ao_expires = (outcome 0 = Responded 401 \<and> started = ended)\<rparr>)"
  by (auto simp: apiFetch_def max_attempts_def MAX_ATTEMPTS_def fetch_once [unfolded One_nat_def] fetch_twice
      result_of_def
      split: fetch_outcome.split fetch_outcome.split_asm)


section \<open>The cookie is found\<close>

text \<open>The form a browser gives \<open>document.cookie\<close>: pairs with an equals sign, separated by a semicolon and a space.\<close>

fun cookie_string :: "(string \<times> string) list \<Rightarrow> string" where
  "cookie_string [] = []"
| "cookie_string [(n, v)] = n @ ''='' @ v"
| "cookie_string ((n, v) # c # cs) = n @ ''='' @ v @ ''; '' @ cookie_string (c # cs)"

definition cookie_name :: "string \<Rightarrow> bool" where
  "cookie_name n \<longleftrightarrow> CHR ''='' \<notin> set n \<and> CHR '';'' \<notin> set n \<and> n \<noteq> [] \<and> \<not> js_space (hd n)"

definition cookies_ok :: "(string \<times> string) list \<Rightarrow> bool" where
  "cookies_ok cs \<longleftrightarrow> list_all (\<lambda>(n, v). cookie_name n \<and> CHR '';'' \<notin> set v) cs"

lemma takeWhile_key: "CHR ''='' \<notin> set n \<Longrightarrow> takeWhile (\<lambda>c. c \<noteq> CHR ''='') (n @ CHR ''='' # s) = n"
  by (subst takeWhile_append2) auto

lemma cookie_here_pair:
  assumes "cookie_name n" "CHR ''='' \<notin> set name" "CHR '';'' \<notin> set v" "rest = [] \<or> hd rest = CHR '';''"
  shows "cookie_here name (n @ ''='' @ v @ rest) = (if n = name then Some v else None)"
proof (cases "n = name")
  case True
  have "takeWhile (\<lambda>c. c \<noteq> CHR '';'') (v @ rest) = v"
    using assms(3,4) by (cases rest) (auto simp: takeWhile_append)
  then show ?thesis using True by (simp add: cookie_here_def)
next
  case False
  have "take (length (name @ ''='')) (n @ ''='' @ v @ rest) \<noteq> name @ ''=''"
  proof
    assume "take (length (name @ ''='')) (n @ ''='' @ v @ rest) = name @ ''=''"
    then obtain tail where "n @ CHR ''='' # (v @ rest) = name @ CHR ''='' # tail"
      by (metis append.assoc append_Cons append_Nil append_take_drop_id)
    then have "takeWhile (\<lambda>c. c \<noteq> CHR ''='') (n @ CHR ''='' # (v @ rest)) =
        takeWhile (\<lambda>c. c \<noteq> CHR ''='') (name @ CHR ''='' # tail)" by simp
    then show False using False assms(1,2) by (simp add: takeWhile_key cookie_name_def)
  qed
  then show ?thesis using False by (simp add: cookie_here_def Let_def)
qed

lemma cookie_after_clean: "CHR '';'' \<notin> set xs \<Longrightarrow> cookie_after name (xs @ ys) = cookie_after name ys"
  by (induction xs) auto

lemma cookie_string_no_space: "cookies_ok (c # cs) \<Longrightarrow> dropWhile js_space (cookie_string (c # cs)) = cookie_string (c # cs)"
  by (cases c; cases cs) (auto simp: cookies_ok_def cookie_name_def neq_Nil_conv)

text \<open>A cookie is found by its name wherever it stands among the others, and none is taken for it.\<close>

theorem match_cookie_exact:
  assumes "cookies_ok cs" "CHR ''='' \<notin> set name" "name \<noteq> []"
  shows "match_cookie name (cookie_string cs) = map_of cs name"
  using assms
proof (induction cs rule: cookie_string.induct)
  case 1
  then show ?case by (simp add: match_cookie_def cookie_here_def)
next
  case (2 n v)
  then have ok: "cookie_name n" "CHR '';'' \<notin> set v" by (simp_all add: cookies_ok_def)
  have "cookie_after name (n @ ''='' @ v) = None"
    using cookie_after_clean [of "n @ ''='' @ v" name "[]"] ok by (simp add: cookie_name_def)
  then show ?case using cookie_here_pair [of n name v "[]"] ok 2 by (simp add: match_cookie_def)
next
  case (3 n v c cs)
  let ?rest = "cookie_string (c # cs)"
  have ok: "cookie_name n" "CHR '';'' \<notin> set v" "cookies_ok (c # cs)" using 3 by (simp_all add: cookies_ok_def)
  have "cookie_after name (n @ ''='' @ v @ ''; '' @ ?rest) = cookie_after name (''; '' @ ?rest)"
    using cookie_after_clean [of "n @ ''='' @ v" name "''; '' @ ?rest"] ok by (simp add: cookie_name_def)
  also have "\<dots> = match_cookie name ?rest"
    using cookie_string_no_space [OF ok(3)] by (simp add: match_cookie_def js_space_def split: option.split)
  also have "\<dots> = map_of (c # cs) name" using 3 ok by simp
  finally show ?case
    using cookie_here_pair [of n name v "''; '' @ ?rest"] ok 3 by (simp add: match_cookie_def)
qed

theorem match_cookie_exact_witness:
  "match_cookie ''csrf_token'' (cookie_string [(''old_csrf_token'', ''a''), (''csrf_token'', ''b=c''), (''x'', '''')]) = Some ''b=c''"
proof -
  have "cookies_ok [(''old_csrf_token'', ''a''), (''csrf_token'', ''b=c''), (''x'', '''')]" by code_simp
  from match_cookie_exact [OF this, of "''csrf_token''"] show ?thesis by simp
qed

text \<open>A browser that still holds the unprefixed cookie sends the prefixed one's token.\<close>

theorem prefixed_cookie_first:
  assumes "cookies_ok cs" "map_of cs ''__Host-csrf_token'' = Some v"
  shows "getCsrfToken decode (cookie_string cs) = decode v"
  using match_cookie_exact [OF assms(1), of "''__Host-csrf_token''"] assms(2)
  by (simp add: getCsrfToken_def CSRF_COOKIE_NAMES_def)

end
