(* ===== verification/AuthStore.thy ===== *)
theory AuthStore
  imports ApiClient
begin

text \<open>
  The signed-in account (\<open>frontend/src/stores/auth.ts\<close>). An action that waits for the server is a task with the
  session it started in; its answer is an event. A 401 anywhere is \<open>Unauthorized\<close> with the session of the request
  it answers, as \<open>ApiClient\<close> decides. \<open>resetSessionData\<close> clears every store and cache and moves the session's
  generation twice, once for the notifications and once for the dashboards; only the generation is kept here.

  The lemmas: an account is shown whenever the tab is signed in; answers of earlier sessions change nothing; and a
  generation belongs to one account, as long as no sign-in overlaps the first check and no other tab moves the cookie
  to another account. The traces show both.
\<close>

datatype auth_status = AuthLoading | SignedInStatus | SignedOut | Unreachable

datatype auth_task =
    InitTask
  | LoginTask
  | RegisterTask
  | VerifyTask
  | EndSessionTask
  | PreferencesTask
  | ProfileTask
  | PasswordTask
  | ConfirmEmailTask
  | RefreshMeTask
  | DeleteTask

text \<open>A toast, with the session its Retry belongs to if it offers one.\<close>

record auth_store =
  au_status :: auth_status
  au_user :: "user option"
  au_generation :: nat
  au_initPromise :: "nat option"
  au_toasts :: "(string \<times> nat option) list"
  au_tasks :: "(nat \<times> nat \<times> auth_task) list"
  au_next :: nat

definition initial_auth :: auth_store where
  "initial_auth = \<lparr>au_status = AuthLoading, au_user = None, au_generation = 0, au_initPromise = None,
     au_toasts = [], au_tasks = [], au_next = 0\<rparr>"

definition auth_park :: "nat \<Rightarrow> auth_task \<Rightarrow> auth_store \<Rightarrow> auth_store" where
  "auth_park g t st = st\<lparr>au_tasks := (au_next st, g, t) # au_tasks st, au_next := au_next st + 1\<rparr>"

definition auth_unpark :: "nat \<Rightarrow> auth_store \<Rightarrow> auth_store" where
  "auth_unpark n st = st\<lparr>au_tasks := AList.delete n (au_tasks st)\<rparr>"

definition auth_toast :: "string \<Rightarrow> nat option \<Rightarrow> auth_store \<Rightarrow> auth_store" where
  "auth_toast msg retry st = st\<lparr>au_toasts := au_toasts st @ [(msg, retry)]\<rparr>"

definition resetSessionData :: "auth_store \<Rightarrow> auth_store" where
  "resetSessionData st = st\<lparr>au_generation := bumpSessionGeneration (bumpSessionGeneration (au_generation st))\<rparr>"

definition set_signed_in :: "user \<Rightarrow> auth_store \<Rightarrow> auth_store" where
  "set_signed_in u st = st\<lparr>au_status := SignedInStatus, au_user := Some u\<rparr>"

definition set_signed_out :: "auth_store \<Rightarrow> auth_store" where
  "set_signed_out st = st\<lparr>au_status := SignedOut, au_user := None\<rparr>"

section \<open>Actions\<close>

definition init :: "auth_store \<Rightarrow> auth_store" where
  "init st =
     (if au_status st \<noteq> AuthLoading \<and> au_status st \<noteq> Unreachable then st
      else if au_initPromise st \<noteq> None then st
      else auth_park (au_generation st) InitTask (st\<lparr>au_initPromise := Some (au_next st)\<rparr>))"

definition initReply :: "user option reply \<Rightarrow> auth_store \<Rightarrow> auth_store" where
  "initReply reply st =
     (case reply of
        Inl err \<Rightarrow> st\<lparr>au_status := Unreachable, au_user := None\<rparr>
      | Inr (Some u) \<Rightarrow> set_signed_in u st
      | Inr None \<Rightarrow> set_signed_out (resetSessionData st))
     \<lparr>au_initPromise := None\<rparr>"

definition login :: "auth_store \<Rightarrow> auth_store" where
  "login st = auth_park (au_generation st) LoginTask st"

definition signInReply :: "user reply \<Rightarrow> auth_store \<Rightarrow> auth_store" where
  "signInReply reply st = (case reply of Inl err \<Rightarrow> st | Inr u \<Rightarrow> set_signed_in u (resetSessionData st))"

definition register :: "auth_store \<Rightarrow> auth_store" where
  "register st = auth_park (au_generation st) RegisterTask st"

definition registerReply :: "bool \<Rightarrow> auth_store \<Rightarrow> auth_store" where
  "registerReply succeeded st = (if succeeded then set_signed_out st else st)"

definition verifyEmail :: "auth_store \<Rightarrow> auth_store" where
  "verifyEmail st = auth_park (au_generation st) VerifyTask st"

definition endServerSession :: "auth_store \<Rightarrow> auth_store" where
  "endServerSession st = auth_park (au_generation st) EndSessionTask st"

definition endSessionReply :: "nat \<Rightarrow> bool \<Rightarrow> auth_store \<Rightarrow> auth_store" where
  "endSessionReply g succeeded st =
     (if succeeded then st
      else auth_toast ''Sign-out did not reach the server, so this session may still be active.'' (Some g) st)"

text \<open>The toast's Retry.\<close>

definition retryEndSession :: "nat \<Rightarrow> auth_store \<Rightarrow> auth_store" where
  "retryEndSession k st =
     (if k < length (au_toasts st)
      then (case snd (au_toasts st ! k) of
              Some g \<Rightarrow> if g = au_generation st then endServerSession st else st
            | None \<Rightarrow> st)
      else st)"

definition logout :: "auth_store \<Rightarrow> auth_store" where
  "logout st = endServerSession (resetSessionData (set_signed_out st))"

definition updatePreferences :: "auth_store \<Rightarrow> auth_store" where
  "updatePreferences st = auth_park (au_generation st) PreferencesTask st"

definition preferencesReply :: "nat \<Rightarrow> user reply \<Rightarrow> auth_store \<Rightarrow> auth_store" where
  "preferencesReply g reply st =
     (case reply of
        Inl err \<Rightarrow> auth_toast ''Failed to update preferences.'' None st
      | Inr updated \<Rightarrow> if g \<noteq> au_generation st then st else st\<lparr>au_user := Some updated\<rparr>)"

definition updateProfile :: "auth_store \<Rightarrow> auth_store" where
  "updateProfile st = auth_park (au_generation st) ProfileTask st"

definition profileReply :: "nat \<Rightarrow> user reply \<Rightarrow> auth_store \<Rightarrow> auth_store" where
  "profileReply g reply st =
     (case reply of
        Inl err \<Rightarrow> auth_toast (error_message err ''Failed to update profile.'') None st
      | Inr updated \<Rightarrow> if g \<noteq> au_generation st then st else st\<lparr>au_user := Some updated\<rparr>)"

definition changePassword :: "auth_store \<Rightarrow> auth_store" where
  "changePassword st = auth_park (au_generation st) PasswordTask st"

definition confirmEmailChange :: "auth_store \<Rightarrow> auth_store" where
  "confirmEmailChange st = auth_park (au_generation st) ConfirmEmailTask st"

definition confirmedReply :: "nat \<Rightarrow> bool \<Rightarrow> auth_store \<Rightarrow> auth_store" where
  "confirmedReply g succeeded st =
     (if \<not> succeeded then st
      else if au_status st \<noteq> SignedInStatus then st
      else auth_park g RefreshMeTask st)"

definition refreshedReply :: "nat \<Rightarrow> user option reply \<Rightarrow> auth_store \<Rightarrow> auth_store" where
  "refreshedReply g reply st =
     (case reply of
        Inr (Some me) \<Rightarrow> if g = au_generation st then st\<lparr>au_user := Some me\<rparr> else st
      | _ \<Rightarrow> st)"

definition deleteAccount :: "auth_store \<Rightarrow> auth_store" where
  "deleteAccount st = auth_park (au_generation st) DeleteTask st"

definition deletedReply :: "nat \<Rightarrow> bool \<Rightarrow> auth_store \<Rightarrow> auth_store" where
  "deletedReply g succeeded st =
     (if \<not> succeeded then st
      else if g \<noteq> au_generation st then st
      else resetSessionData (set_signed_out st))"

definition handleSessionExpired :: "auth_store \<Rightarrow> auth_store" where
  "handleSessionExpired st = (if au_status st = SignedOut then st else set_signed_out (resetSessionData st))"

section \<open>The store as a machine\<close>

datatype auth_answer = MeAnswer "user option reply" | UserAnswer "user reply" | DoneAnswer bool

datatype auth_event =
    Init | Login | Register | Verify | Logout | Preferences | Profile | Password | ConfirmEmail | DeleteAccount
  | RetryEnd nat | Unauthorized nat | AuthAnswer nat auth_answer

definition auth_reply :: "nat \<Rightarrow> auth_answer \<Rightarrow> auth_store \<Rightarrow> auth_store" where
  "auth_reply n answer st =
     (case map_of (au_tasks st) n of
        None \<Rightarrow> st
      | Some (g, t) \<Rightarrow>
          (case (t, answer) of
             (InitTask, MeAnswer r) \<Rightarrow> initReply r (auth_unpark n st)
           | (LoginTask, UserAnswer r) \<Rightarrow> signInReply r (auth_unpark n st)
           | (RegisterTask, DoneAnswer b) \<Rightarrow> registerReply b (auth_unpark n st)
           | (VerifyTask, UserAnswer r) \<Rightarrow> signInReply r (auth_unpark n st)
           | (EndSessionTask, DoneAnswer b) \<Rightarrow> endSessionReply g b (auth_unpark n st)
           | (PreferencesTask, UserAnswer r) \<Rightarrow> preferencesReply g r (auth_unpark n st)
           | (ProfileTask, UserAnswer r) \<Rightarrow> profileReply g r (auth_unpark n st)
           | (PasswordTask, DoneAnswer b) \<Rightarrow> auth_unpark n st
           | (ConfirmEmailTask, DoneAnswer b) \<Rightarrow> confirmedReply g b (auth_unpark n st)
           | (RefreshMeTask, MeAnswer r) \<Rightarrow> refreshedReply g r (auth_unpark n st)
           | (DeleteTask, DoneAnswer b) \<Rightarrow> deletedReply g b (auth_unpark n st)
           | _ \<Rightarrow> st))"

fun auth_step :: "auth_event \<Rightarrow> auth_store \<Rightarrow> auth_store" where
  "auth_step Init st = init st"
| "auth_step Login st = login st"
| "auth_step Register st = register st"
| "auth_step Verify st = verifyEmail st"
| "auth_step Logout st = logout st"
| "auth_step Preferences st = updatePreferences st"
| "auth_step Profile st = updateProfile st"
| "auth_step Password st = changePassword st"
| "auth_step ConfirmEmail st = confirmEmailChange st"
| "auth_step DeleteAccount st = deleteAccount st"
| "auth_step (RetryEnd k) st = retryEndSession k st"
| "auth_step (Unauthorized g) st = (if g = au_generation st then handleSessionExpired st else st)"
| "auth_step (AuthAnswer n a) st = auth_reply n a st"

section \<open>Signed in means there is an account\<close>

definition account_shown :: "auth_store \<Rightarrow> bool" where
  "account_shown st \<longleftrightarrow> (if au_status st = SignedInStatus then au_user st \<noteq> None else True)"

lemmas auth_defs = auth_park_def auth_unpark_def auth_toast_def resetSessionData_def set_signed_in_def
  set_signed_out_def bumpSessionGeneration_def

lemmas auth_actions = init_def login_def register_def verifyEmail_def endServerSession_def retryEndSession_def
  logout_def updatePreferences_def updateProfile_def changePassword_def confirmEmailChange_def deleteAccount_def
  handleSessionExpired_def

lemmas auth_replies = initReply_def signInReply_def registerReply_def endSessionReply_def preferencesReply_def
  profileReply_def confirmedReply_def refreshedReply_def deletedReply_def

lemma auth_step_shows: "account_shown st \<Longrightarrow> account_shown (auth_step e st)"
proof (cases e)
  case (AuthAnswer n a)
  assume "account_shown st"
  then show ?thesis unfolding AuthAnswer
    by (cases "map_of (au_tasks st) n"; cases "snd (the (map_of (au_tasks st) n))"; cases a)
      (auto simp: auth_reply_def auth_replies auth_defs account_shown_def split: sum.split option.split)
qed (auto simp: account_shown_def auth_actions auth_defs split: option.split)

interpretation auth_runs: event_machine auth_step account_shown
  by unfold_locales (rule auth_step_shows)

section \<open>Late answers of an earlier session\<close>

text \<open>The answers an action guards; a sign-in and the first check are not among them.\<close>

definition auth_origin :: "auth_event \<Rightarrow> auth_store \<Rightarrow> nat option" where
  "auth_origin e st =
     (case e of
        AuthAnswer n a \<Rightarrow>
          (case map_of (au_tasks st) n of
             Some (g, t) \<Rightarrow> if t \<in> {InitTask, LoginTask, RegisterTask, VerifyTask} then None else Some g
           | None \<Rightarrow> None)
      | Unauthorized g \<Rightarrow> Some g
      | _ \<Rightarrow> None)"

lemma stale_auth:
  assumes "auth_origin e st = Some g" "g \<noteq> au_generation st"
  shows "(au_status (auth_step e st), au_user (auth_step e st)) = (au_status st, au_user st)"
    "au_generation (auth_step e st) = au_generation st"
proof -
  have "(au_status (auth_step e st), au_user (auth_step e st)) = (au_status st, au_user st) \<and>
      au_generation (auth_step e st) = au_generation st"
  proof (cases e)
    case (AuthAnswer n a)
    then obtain t where t: "map_of (au_tasks st) n = Some (g, t)" "t \<notin> {InitTask, LoginTask, RegisterTask, VerifyTask}"
      using assms(1) by (auto simp: auth_origin_def split: option.splits if_splits)
    then show ?thesis using assms(2) AuthAnswer
      by (cases t; cases a) (auto simp: auth_reply_def auth_replies auth_defs split: sum.split option.split)
  qed (use assms in \<open>auto simp: auth_origin_def\<close>)
  then show "(au_status (auth_step e st), au_user (auth_step e st)) = (au_status st, au_user st)"
    "au_generation (auth_step e st) = au_generation st" by auto
qed

interpretation auth_session: guarded_store auth_step au_generation auth_origin "\<lambda>st. (au_status st, au_user st)"
  by unfold_locales (use stale_auth in blast)+


section \<open>A generation belongs to one account\<close>

text \<open>A run with the accounts it showed, each with the generation it was shown in.\<close>

definition note_account :: "auth_store \<Rightarrow> (nat \<times> string) list \<Rightarrow> (nat \<times> string) list" where
  "note_account st shown' =
     (if au_status st = SignedInStatus
      then (case au_user st of Some u \<Rightarrow> (au_generation st, u_id u) # shown' | None \<Rightarrow> shown') else shown')"

definition first_check :: "auth_store \<Rightarrow> bool" where
  "first_check st \<longleftrightarrow> list_ex (\<lambda>(n, g, t). t = InitTask) (au_tasks st)"

definition same_account :: "nat \<Rightarrow> user reply \<Rightarrow> (nat \<times> string) list \<Rightarrow> bool" where
  "same_account g r shown' \<longleftrightarrow> (case r of Inr u \<Rightarrow> list_all (\<lambda>(h, i). h = g \<longrightarrow> i = u_id u) shown' | Inl err \<Rightarrow> True)"

definition one_account_each :: "(nat \<times> string) list \<Rightarrow> bool" where
  "one_account_each shown' \<longleftrightarrow> list_all (\<lambda>(g, i). list_all (\<lambda>(h, j). g = h \<longrightarrow> i = j) shown') shown'"

definition fresh_generation :: "nat \<Rightarrow> (nat \<times> string) list \<Rightarrow> bool" where
  "fresh_generation g shown' \<longleftrightarrow> (\<forall>p \<in> set shown'. fst p \<noteq> g)"

definition init_unique :: "auth_store \<Rightarrow> bool" where
  "init_unique st \<longleftrightarrow> distinct (map fst (au_tasks st)) \<and> (\<forall>n \<in> set (map fst (au_tasks st)). n < au_next st) \<and>
     (\<forall>n g. (n, g, InitTask) \<in> set (au_tasks st) \<longrightarrow> au_initPromise st = Some n)"

definition session_ok :: "auth_store \<times> (nat \<times> string) list \<Rightarrow> bool" where
  "session_ok w \<longleftrightarrow>
     (let st = fst w; shown' = snd w in
      init_unique st \<and> one_account_each shown' \<and> (\<forall>p \<in> set shown'. fst p \<le> au_generation st) \<and>
      (au_status st = SignedInStatus \<longrightarrow> (\<exists>u. au_user st = Some u \<and> (au_generation st, u_id u) \<in> set shown')) \<and>
      (au_status st \<in> {AuthLoading, Unreachable} \<or> first_check st \<longrightarrow> fresh_generation (au_generation st) shown'))"

lemma shown_Cons: "one_account_each ((g, i) # shown') \<longleftrightarrow>
    one_account_each shown' \<and> (\<forall>p \<in> set shown'. fst p = g \<longrightarrow> snd p = i)"
  by (fastforce simp: one_account_each_def list_all_iff)

lemma park_unique: "init_unique st \<Longrightarrow> t \<noteq> InitTask \<Longrightarrow> init_unique (auth_park g t st)"
  by (fastforce simp: init_unique_def auth_park_def)

lemma unpark_unique: "init_unique st \<Longrightarrow> init_unique (auth_unpark n st)"
  by (auto simp: init_unique_def auth_unpark_def AList.delete_eq distinct_map_filter)

lemma check_frame [simp]:
  "first_check (auth_park g t st) \<longleftrightarrow> t = InitTask \<or> first_check st"
  "first_check (resetSessionData st) = first_check st" "first_check (set_signed_in u st) = first_check st"
  "first_check (set_signed_out st) = first_check st" "first_check (auth_toast m r st) = first_check st"
  "first_check (st\<lparr>au_user := x\<rparr>) = first_check st" "first_check (st\<lparr>au_status := s\<rparr>) = first_check st"
  "first_check (st\<lparr>au_initPromise := p\<rparr>) = first_check st"
  by (simp_all add: first_check_def auth_defs)

lemma unique_frame [simp]:
  "init_unique (resetSessionData st) = init_unique st" "init_unique (set_signed_in u st) = init_unique st"
  "init_unique (set_signed_out st) = init_unique st" "init_unique (auth_toast m r st) = init_unique st"
  "init_unique (st\<lparr>au_user := x\<rparr>) = init_unique st" "init_unique (st\<lparr>au_status := s\<rparr>) = init_unique st"
  by (simp_all add: init_unique_def auth_defs)

lemma check_unpark: "first_check (auth_unpark n st) \<Longrightarrow> first_check st"
  by (auto simp: first_check_def auth_unpark_def AList.delete_eq list_ex_iff)

lemma init_done:
  assumes "init_unique st" "map_of (au_tasks st) n = Some (g, InitTask)"
  shows "\<not> first_check (auth_unpark n st)"
proof
  assume "first_check (auth_unpark n st)"
  then obtain m h where m: "(m, h, InitTask) \<in> set (au_tasks st)" "m \<noteq> n"
    by (auto simp: first_check_def auth_unpark_def AList.delete_eq list_ex_iff)
  have "(n, g, InitTask) \<in> set (au_tasks st)" using assms(2) by (rule map_of_SomeD)
  then have "au_initPromise st = Some m" "au_initPromise st = Some n"
    using m(1) assms(1) unfolding init_unique_def by blast+
  with m(2) show False by simp
qed

lemma init_settled: "init_unique st \<Longrightarrow> \<not> first_check st \<Longrightarrow> init_unique (st\<lparr>au_initPromise := p\<rparr>)"
  by (fastforce simp: init_unique_def first_check_def list_ex_iff)

lemma reset_frame: "au_generation (resetSessionData st) = au_generation st + 2" "au_status (resetSessionData st) = au_status st"
  "au_user (resetSessionData st) = au_user st"
  by (simp_all add: resetSessionData_def bumpSessionGeneration_def)

lemma signed_in_frame: "au_status (set_signed_in u st) = SignedInStatus" "au_user (set_signed_in u st) = Some u"
  "au_generation (set_signed_in u st) = au_generation st" "au_status (set_signed_out st) = SignedOut"
  "au_user (set_signed_out st) = None" "au_generation (set_signed_out st) = au_generation st"
  by (simp_all add: set_signed_in_def set_signed_out_def)

lemma auth_toast_frame: "au_generation (auth_toast m r st) = au_generation st" "au_status (auth_toast m r st) = au_status st"
  "au_user (auth_toast m r st) = au_user st"
  by (simp_all add: auth_toast_def)

lemma park_frame: "au_generation (auth_park g t st) = au_generation st" "au_status (auth_park g t st) = au_status st"
  "au_user (auth_park g t st) = au_user st"
  by (simp_all add: auth_park_def)


lemma session_next:
  assumes w: "session_ok (st, h)" and u: "init_unique st'" and g: "au_generation st \<le> au_generation st'"
    and a: "au_status st' = SignedInStatus \<Longrightarrow>
      \<not> first_check st' \<and> (\<exists>x. au_user st' = Some x \<and> (\<forall>p \<in> set h. fst p = au_generation st' \<longrightarrow> snd p = u_id x))"
    and b: "au_status st' \<in> {AuthLoading, Unreachable} \<or> first_check st' \<Longrightarrow> fresh_generation (au_generation st') h"
  shows "session_ok (st', note_account st' h)"
proof (cases "au_status st' = SignedInStatus")
  case True
  then obtain x where x: "au_user st' = Some x" "\<forall>p \<in> set h. fst p = au_generation st' \<longrightarrow> snd p = u_id x" "\<not> first_check st'"
    using a by blast
  have n: "note_account st' h = (au_generation st', u_id x) # h" using True x by (simp add: note_account_def)
  show ?thesis using w u g x True unfolding n
    by (auto simp: session_ok_def shown_Cons Let_def intro: order_trans)
next
  case False
  then show ?thesis using w u g b
    by (auto simp: session_ok_def note_account_def Let_def intro: order_trans)
qed

text \<open>Nothing is left of a generation that has passed, and where the account stays nothing changes.\<close>

lemma fresh_later: "session_ok (st, h) \<Longrightarrow> au_generation st < g \<Longrightarrow> fresh_generation g h"
  by (fastforce simp: session_ok_def fresh_generation_def Let_def)

lemma fresh_unknown: "fresh_generation g h \<Longrightarrow> (g, i) \<notin> set h"
  by (auto simp: fresh_generation_def)

lemma session_knows:
  "session_ok (st, h) \<Longrightarrow> au_status st = SignedInStatus \<Longrightarrow>
     \<exists>x. au_user st = Some x \<and> (au_generation st, u_id x) \<in> set h \<and> one_account_each h"
  by (auto simp: session_ok_def Let_def)

lemma session_same:
  assumes w: "session_ok (st, h)" and u: "init_unique st'"
    and same: "au_generation st' = au_generation st" "au_status st' = au_status st" "au_user st' = au_user st"
    and c: "first_check st' \<Longrightarrow> first_check st \<or> fresh_generation (au_generation st) h"
  shows "session_ok (st', note_account st' h)"
proof (rule session_next [OF w u])
  show "au_generation st \<le> au_generation st'" using same by simp
  show b: "fresh_generation (au_generation st') h" if "au_status st' \<in> {AuthLoading, Unreachable} \<or> first_check st'"
    using that w same c by (auto simp: session_ok_def Let_def)
  assume s: "au_status st' = SignedInStatus"
  then obtain x where x: "au_user st = Some x" "(au_generation st, u_id x) \<in> set h" "one_account_each h"
    using session_knows [OF w] same by auto
  moreover have "\<not> first_check st'" using b fresh_unknown x(2) same by metis
  moreover have "\<forall>p \<in> set h. fst p = au_generation st' \<longrightarrow> snd p = u_id x"
    using x same by (fastforce simp: one_account_each_def list_all_iff)
  ultimately show "\<not> first_check st' \<and> (\<exists>x. au_user st' = Some x \<and> (\<forall>p \<in> set h. fst p = au_generation st' \<longrightarrow> snd p = u_id x))"
    using same by auto
qed

lemma session_left:
  assumes w: "session_ok (st, h)" and u: "init_unique st'" and g: "au_generation st < au_generation st'"
    and s: "au_status st' = SignedOut"
  shows "session_ok (st', note_account st' h)"
  using session_next [OF w u] fresh_later [OF w g] g s by simp

lemma session_entered:
  assumes w: "session_ok (st, h)" and u: "init_unique st'" and g: "fresh_generation (au_generation st') h"
    "au_generation st \<le> au_generation st'" and s: "au_user st' = Some x" "\<not> first_check st'" "au_status st' = SignedInStatus"
  shows "session_ok (st', note_account st' h)"
  using session_next [OF w u g(2)] g s by (auto simp: fresh_generation_def)

lemma session_updated:
  assumes w: "session_ok (st, h)" and u: "init_unique st'"
    and same: "au_generation st' = au_generation st" "au_status st' = au_status st" "au_user st' = Some x"
    and i: "list_all (\<lambda>(g, i). g = au_generation st \<longrightarrow> i = u_id x) h" and c: "first_check st' \<Longrightarrow> first_check st"
  shows "session_ok (st', note_account st' h)"
proof (rule session_next [OF w u])
  show b: "fresh_generation (au_generation st') h" if "au_status st' \<in> {AuthLoading, Unreachable} \<or> first_check st'"
    using that w same c by (auto simp: session_ok_def Let_def)
  assume s: "au_status st' = SignedInStatus"
  then obtain y :: user where "(au_generation st, u_id y) \<in> set h" using session_knows [OF w] same by metis
  then have "\<not> first_check st'" using b fresh_unknown same by metis
  then show "\<not> first_check st' \<and> (\<exists>x. au_user st' = Some x \<and> (\<forall>p \<in> set h. fst p = au_generation st' \<longrightarrow> snd p = u_id x))"
    using same i by (auto simp: list_all_iff)
qed (simp add: same)


text \<open>The store with an answered task taken off, and what each continuation makes of it.\<close>

definition settling :: "auth_store \<Rightarrow> auth_store \<Rightarrow> bool" where
  "settling st s \<longleftrightarrow> init_unique s \<and> au_generation s = au_generation st \<and> au_status s = au_status st \<and>
     au_user s = au_user st \<and> (first_check s \<longrightarrow> first_check st)"

abbreviation keeps :: "(nat \<times> string) list \<Rightarrow> auth_store \<Rightarrow> bool" where
  "keeps h s \<equiv> session_ok (s, note_account s h)"

lemma unpark_settling: "session_ok (st, h) \<Longrightarrow> settling st (auth_unpark n st)"
  using check_unpark [of n st] unpark_unique [of st n]
  by (auto simp: settling_def session_ok_def Let_def auth_unpark_def)

lemma settling_self: "session_ok (st, h) \<Longrightarrow> settling st st"
  by (simp add: settling_def session_ok_def Let_def)

lemma settling_frames:
  "settling st s \<Longrightarrow> settling st (auth_toast m r s)"
  "settling st s \<Longrightarrow> t \<noteq> InitTask \<Longrightarrow> settling st (auth_park g t s)"
  using park_unique by (simp_all add: settling_def auth_toast_frame park_frame)

lemma settling_keeps: "session_ok (st, h) \<Longrightarrow> settling st s \<Longrightarrow> keeps h s"
  using session_same by (simp add: settling_def)

lemma updated_keeps:
  assumes "session_ok (st, h)" "settling st s" "same_account (au_generation s) (Inr x) h"
  shows "keeps h (s\<lparr>au_user := Some x\<rparr>)"
  using assms session_updated [OF assms(1), of "s\<lparr>au_user := Some x\<rparr>" x] by (simp add: settling_def same_account_def)

lemma signed_in_keeps:
  assumes "session_ok (st, h)" "settling st s" "\<not> first_check st"
  shows "keeps h (signInReply r s)"
proof (cases r)
  case (Inl e)
  then show ?thesis using assms settling_keeps by (simp add: signInReply_def)
next
  case (Inr x)
  then show ?thesis using assms fresh_later [OF assms(1), of "au_generation st + 2"]
    by (intro session_entered [OF assms(1), where x = x])
      (auto simp: signInReply_def settling_def signed_in_frame reset_frame)
qed

lemma signed_out_keeps:
  assumes "session_ok (st, h)" "settling st s"
  shows "keeps h (set_signed_out s)" "keeps h (set_signed_out (resetSessionData s))"
    "keeps h (resetSessionData (set_signed_out s))"
proof -
  show "keeps h (set_signed_out s)"
    by (rule session_next [OF assms(1)])
      (use assms in \<open>auto simp: settling_def signed_in_frame session_ok_def Let_def\<close>)
  show "keeps h (set_signed_out (resetSessionData s))" "keeps h (resetSessionData (set_signed_out s))"
    by (rule session_left [OF assms(1)]; use assms in \<open>simp add: settling_def signed_in_frame reset_frame\<close>)+
qed

lemma checked_keeps:
  assumes w: "session_ok (st, h)" and s: "settling st s" "\<not> first_check s" and c: "first_check st"
  shows "keeps h (initReply r s)"
proof -
  have fresh: "fresh_generation (au_generation st) h" using w c by (simp add: session_ok_def Let_def)
  consider e where "r = Inl e" | "r = Inr None" | x where "r = Inr (Some x)"
    by (metis sum.exhaust option.exhaust)
  then show ?thesis
  proof cases
    case 1
    show ?thesis
      by (rule session_next [OF w]) (use 1 s fresh in \<open>simp_all add: initReply_def settling_def init_settled\<close>)
  next
    case 2
    show ?thesis
      by (rule session_left [OF w])
        (use 2 s in \<open>simp_all add: initReply_def settling_def init_settled reset_frame signed_in_frame\<close>)
  next
    case 3
    show ?thesis
      by (rule session_entered [OF w, where x = x])
        (use 3 s fresh in \<open>simp_all add: initReply_def settling_def init_settled signed_in_frame\<close>)
  qed
qed

text \<open>The other continuations leave the store settling, or update the account.\<close>

lemma answers_keep:
  assumes w: "session_ok (st, h)" and s: "settling st s"
  shows "keeps h (registerReply b s)" "keeps h (deletedReply g b s)" "keeps h (endSessionReply g b s)"
    "keeps h (confirmedReply g b s)" "(g = au_generation st \<Longrightarrow> same_account g r h) \<Longrightarrow> keeps h (preferencesReply g r s)"
    "(g = au_generation st \<Longrightarrow> same_account g r h) \<Longrightarrow> keeps h (profileReply g r s)"
    "(\<And>x. g = au_generation st \<Longrightarrow> q = Inr (Some x) \<Longrightarrow> same_account g (Inr x) h) \<Longrightarrow> keeps h (refreshedReply g q s)"
proof -
  note k = settling_keeps [OF w s] signed_out_keeps [OF w s] settling_keeps [OF w settling_frames(1) [OF s]]
    settling_keeps [OF w settling_frames(2) [OF s]] updated_keeps [OF w s]
  have gen: "au_generation s = au_generation st" using s by (simp add: settling_def)
  show "keeps h (registerReply b s)" using k by (simp add: registerReply_def)
  show "keeps h (deletedReply g b s)" using k by (simp add: deletedReply_def)
  show "keeps h (endSessionReply g b s)" using k by (simp add: endSessionReply_def)
  show "keeps h (confirmedReply g b s)" using k by (simp add: confirmedReply_def)
  show "keeps h (preferencesReply g r s)" if "g = au_generation st \<Longrightarrow> same_account g r h"
    using k gen that by (cases r) (auto simp: preferencesReply_def)
  show "keeps h (profileReply g r s)" if "g = au_generation st \<Longrightarrow> same_account g r h"
    using k gen that by (cases r) (auto simp: profileReply_def)
  show "keeps h (refreshedReply g q s)" if "\<And>x. g = au_generation st \<Longrightarrow> q = Inr (Some x) \<Longrightarrow> same_account g (Inr x) h"
    using k gen that by (auto simp: refreshedReply_def split: sum.split option.split)
qed

text \<open>What an answer must not do for a generation to stay with one account.\<close>

definition answer_fits :: "nat \<Rightarrow> auth_answer \<Rightarrow> auth_store \<Rightarrow> (nat \<times> string) list \<Rightarrow> bool" where
  "answer_fits n a st h \<longleftrightarrow>
     (\<forall>g t. map_of (au_tasks st) n = Some (g, t) \<longrightarrow>
        (t \<in> {LoginTask, VerifyTask} \<longrightarrow> (\<forall>u. a = UserAnswer (Inr u) \<longrightarrow> \<not> first_check st)) \<and>
        (t \<in> {PreferencesTask, ProfileTask} \<and> g = au_generation st \<longrightarrow>
           (\<forall>r. a = UserAnswer r \<longrightarrow> same_account g r h)) \<and>
        (t = RefreshMeTask \<and> g = au_generation st \<longrightarrow>
           (\<forall>u. a = MeAnswer (Inr (Some u)) \<longrightarrow> same_account g (Inr u) h)))"

lemma refused_sign_in: "session_ok (st, h) \<Longrightarrow> settling st s \<Longrightarrow> keeps h (signInReply (Inl e) s)"
  using settling_keeps by (simp add: signInReply_def)

lemma sign_in_keeps:
  assumes "session_ok (st, h)" "settling st s" "\<And>u. r = Inr u \<Longrightarrow> \<not> first_check st"
  shows "keeps h (signInReply r s)"
  using assms refused_sign_in signed_in_keeps by (cases r) auto

lemma answer_keeps_session:
  assumes w: "session_ok (st, h)" and o: "answer_fits n a st h"
  shows "keeps h (auth_reply n a st)"
proof (cases "map_of (au_tasks st) n")
  case None
  then show ?thesis using settling_keeps [OF w settling_self [OF w]] by (simp add: auth_reply_def)
next
  case (Some p)
  obtain g t where p: "map_of (au_tasks st) n = Some (g, t)" using Some by (cases p) simp
  let ?s = "auth_unpark n st"
  note s = unpark_settling [OF w, of n]
  have u: "init_unique st" using w by (simp add: session_ok_def Let_def)
  have init': "t = InitTask \<Longrightarrow> keeps h (initReply r ?s)" for r
    using checked_keeps [OF w s] init_done [OF u, of n g] map_of_SomeD [OF p] p
    by (force simp: first_check_def list_ex_iff)
  show ?thesis
    using o p init' settling_keeps [OF w settling_self [OF w]] settling_keeps [OF w s] sign_in_keeps [OF w s]
      answers_keep [OF w s]
    by (cases t; cases a) (simp_all add: auth_reply_def answer_fits_def)
qed


lemma park_first_check:
  assumes "init_unique st" "au_initPromise st = None"
  shows "init_unique (auth_park g InitTask (st\<lparr>au_initPromise := Some (au_next st)\<rparr>))"
proof -
  have no: "(n, k, InitTask) \<notin> set (au_tasks st)" for n k using assms by (auto simp: init_unique_def)
  have "n < au_next st" if "n \<in> set (map fst (au_tasks st))" for n using that assms(1) by (auto simp: init_unique_def)
  then show ?thesis using assms(1) no by (auto simp: init_unique_def auth_park_def less_Suc_eq)
qed

lemma auth_step_keeps_session:
  assumes ok: "session_ok (st, h)" and fits: "\<And>n a. e = AuthAnswer n a \<Longrightarrow> answer_fits n a st h"
  shows "keeps h (auth_step e st)"
proof -
  note s = settling_self [OF ok]
  note k = settling_keeps [OF ok s] signed_out_keeps [OF ok s] settling_keeps [OF ok settling_frames(2) [OF s]]
  have out: "keeps h (endServerSession (resetSessionData (set_signed_out st)))"
    by (rule session_left [OF ok])
      (use s in \<open>simp_all add: endServerSession_def park_unique settling_def park_frame reset_frame signed_in_frame\<close>)
  have first: "keeps h (init st)"
  proof (cases "(au_status st = AuthLoading \<or> au_status st = Unreachable) \<and> au_initPromise st = None")
    case True
    have "init_unique (auth_park (au_generation st) InitTask (st\<lparr>au_initPromise := Some (au_next st)\<rparr>))"
      using s True park_first_check by (simp add: settling_def)
    moreover have "fresh_generation (au_generation st) h" using ok True by (auto simp: session_ok_def Let_def)
    moreover have "init st = auth_park (au_generation st) InitTask (st\<lparr>au_initPromise := Some (au_next st)\<rparr>)"
      using True by (auto simp: init_def)
    ultimately show ?thesis
      using session_same [OF ok, of "auth_park (au_generation st) InitTask (st\<lparr>au_initPromise := Some (au_next st)\<rparr>)"]
      by (simp add: park_frame)
  next
    case False
    then have "init st = st" by (auto simp: init_def)
    then show ?thesis using k by simp
  qed
  show ?thesis
    using answer_keeps_session [OF ok] fits k out first ok
    by (cases e) (auto simp: logout_def handleSessionExpired_def auth_actions park_frame split: option.split)
qed

section \<open>The tab, its cookie and the server\<close>

text \<open>
  Who an answer names is the server's doing (\<open>_resolve_auth_context\<close>, \<open>backend/app/auth/dependencies.py\<close>): every
  request but a sign-in is answered for the account of the cookie it was sent with, and refused without one. The
  browser keeps one cookie: a successful login or verification sets it (\<open>_create_session\<close>,
  \<open>backend/app/routers/auth.py\<close>), a sign-out and a deleted account clear it. Anything else that moves it, another tab
  above all, is an event of its own. The tab notes the cookie each of its tasks was sent with; an answer and the cookie
  it sets are taken in one step.
\<close>

definition served :: "string option \<Rightarrow> auth_task \<Rightarrow> auth_answer \<Rightarrow> auth_answer" where
  "served account t a =
     (if t \<in> {LoginTask, VerifyTask} then a
      else case a of
          UserAnswer (Inr u) \<Rightarrow>
            (case account of Some i \<Rightarrow> UserAnswer (Inr (u\<lparr>u_id := i\<rparr>))
             | None \<Rightarrow> UserAnswer (Inl (ApiErr 401 ''Not authenticated'')))
        | MeAnswer (Inr (Some u)) \<Rightarrow>
            (case account of Some i \<Rightarrow> MeAnswer (Inr (Some (u\<lparr>u_id := i\<rparr>))) | None \<Rightarrow> MeAnswer (Inr None))
        | _ \<Rightarrow> a)"

definition session_cookie :: "auth_task \<Rightarrow> auth_answer \<Rightarrow> string option \<Rightarrow> string option" where
  "session_cookie t a cookie =
     (case a of
        UserAnswer (Inr u) \<Rightarrow> if t \<in> {LoginTask, VerifyTask} then Some (u_id u) else cookie
      | DoneAnswer True \<Rightarrow> if t \<in> {EndSessionTask, DeleteTask} then None else cookie
      | _ \<Rightarrow> cookie)"

record auth_tab =
  at_store :: auth_store
  at_cookie :: "string option"
  at_sent :: "(nat \<times> string option) list"
  at_shown :: "(nat \<times> string) list"

definition initial_tab :: "string option \<Rightarrow> auth_tab" where
  "initial_tab cookie = \<lparr>at_store = initial_auth, at_cookie = cookie, at_sent = [], at_shown = []\<rparr>"

definition sent_with :: "auth_tab \<Rightarrow> nat \<Rightarrow> string option" where
  "sent_with w n = Option.bind (map_of (at_sent w) n) id"

text \<open>The answer as the server gives it, and the cookie once it has arrived.\<close>

definition delivered :: "auth_tab \<Rightarrow> auth_event \<Rightarrow> auth_event \<times> string option" where
  "delivered w e =
     (case e of
        AuthAnswer n a \<Rightarrow>
          (case map_of (au_tasks (at_store w)) n of
             Some (g, t) \<Rightarrow> (let a' = served (sent_with w n) t a in (AuthAnswer n a', session_cookie t a' (at_cookie w)))
           | None \<Rightarrow> (e, at_cookie w))
      | _ \<Rightarrow> (e, at_cookie w))"

datatype tab_event = Acts auth_event | CookieMoved "string option"

fun tab_step :: "tab_event \<Rightarrow> auth_tab \<Rightarrow> auth_tab" where
  "tab_step (Acts e) w =
     (case delivered w e of (e', cookie) \<Rightarrow>
        let st = at_store w; st' = auth_step e' st in
        w\<lparr>at_store := st', at_cookie := cookie,
          at_sent := (if au_next st' = au_next st then at_sent w else (au_next st, at_cookie w) # at_sent w),
          at_shown := note_account st' (at_shown w)\<rparr>)"
| "tab_step (CookieMoved cookie) w = w\<lparr>at_cookie := cookie\<rparr>"

text \<open>
  Two things end the claim below, and both are events of the model. A cookie moved to another account by another tab is
  not noticed by this one, and a sign-in answered while the first check is out leaves that check's answer unguarded.
\<close>

definition signs_in :: "auth_event \<Rightarrow> auth_store \<Rightarrow> bool" where
  "signs_in e st \<longleftrightarrow>
     (case e of
        AuthAnswer n (UserAnswer (Inr u)) \<Rightarrow>
          (case map_of (au_tasks st) n of Some (g, t) \<Rightarrow> t \<in> {LoginTask, VerifyTask} | None \<Rightarrow> False)
      | _ \<Rightarrow> False)"

fun disturbs :: "tab_event \<Rightarrow> auth_tab \<Rightarrow> bool" where
  "disturbs (Acts e) w \<longleftrightarrow> signs_in e (at_store w) \<and> first_check (at_store w)"
| "disturbs (CookieMoved cookie) w \<longleftrightarrow> cookie \<noteq> None"

fun undisturbed :: "tab_event list \<Rightarrow> auth_tab \<Rightarrow> bool" where
  "undisturbed [] w \<longleftrightarrow> True"
| "undisturbed (e # es) w \<longleftrightarrow> \<not> disturbs e w \<and> undisturbed es (tab_step e w)"

text \<open>
  The accounts a generation could still come to show: those it has shown, that of the cookie, and those its updates
  and the first check were sent with. There is at most one.
\<close>

definition claims :: "auth_tab \<Rightarrow> string set" where
  "claims w =
     {i. (au_generation (at_store w), i) \<in> set (at_shown w)} \<union>
     {i. \<exists>n g t. (n, g, t) \<in> set (au_tasks (at_store w)) \<and> (g = au_generation (at_store w) \<or> t = InitTask) \<and>
        sent_with w n = Some i} \<union> set_option (at_cookie w)"

definition auth_tab_ok :: "auth_tab \<Rightarrow> bool" where
  "auth_tab_ok w \<longleftrightarrow> session_ok (at_store w, at_shown w) \<and>
     (\<forall>(n, g, t) \<in> set (au_tasks (at_store w)). g \<le> au_generation (at_store w)) \<and> (\<exists>i. claims w \<subseteq> {i})"

text \<open>What a step does to the tasks and the generation.\<close>

definition advances :: "auth_store \<Rightarrow> auth_store \<Rightarrow> bool" where
  "advances st st' \<longleftrightarrow> au_generation st \<le> au_generation st' \<and>
     (\<forall>(n, g, t) \<in> set (au_tasks st'). (n, g, t) \<in> set (au_tasks st) \<or>
        (n = au_next st \<and> au_next st' \<noteq> au_next st \<and> g \<le> au_generation st'))"

lemma advances_unpark: "advances st (auth_unpark n st)"
  by (auto simp: advances_def auth_unpark_def AList.delete_eq)

lemma advances_later:
  assumes "advances st s" "au_generation s \<le> au_generation s'" "au_tasks s' = au_tasks s" "au_next s' = au_next s"
  shows "advances st s'"
  using assms by (fastforce simp: advances_def)

lemma advances_park: "au_next s = au_next st \<Longrightarrow> g \<le> au_generation s \<Longrightarrow> advances st s \<Longrightarrow> advances st (auth_park g t s)"
  by (auto simp: advances_def auth_park_def)

lemma advances_self: "advances st st"
  by (auto simp: advances_def)

lemma answer_advances:
  assumes "\<forall>(n, g, t) \<in> set (au_tasks st). g \<le> au_generation st"
  shows "advances st (auth_reply n a st)"
proof (cases "map_of (au_tasks st) n")
  case (Some p)
  obtain g t where p: "p = (g, t)" by (cases p)
  have g: "g \<le> au_generation st" using assms map_of_SomeD [OF Some] p by auto
  let ?s = "auth_unpark n st"
  have s: "au_generation ?s = au_generation st" "au_next ?s = au_next st" by (simp_all add: auth_unpark_def)
  have later: "advances st s'"
    if "au_generation st \<le> au_generation s'" "au_tasks s' = au_tasks ?s" "au_next s' = au_next ?s" for s'
    using advances_later [OF advances_unpark, of n st s'] s that by simp
  have "advances st (initReply r ?s)" for r
    by (rule later) (auto simp: initReply_def auth_defs split: sum.split option.split)
  moreover have "advances st (signInReply r ?s)" for r
    by (rule later) (auto simp: signInReply_def auth_defs split: sum.split)
  moreover have "advances st (registerReply b ?s)" "advances st (endSessionReply g b ?s)" "advances st (deletedReply g b ?s)" for b
    by (rule later; simp add: auth_replies auth_defs)+
  moreover have "advances st (preferencesReply g r ?s)" "advances st (profileReply g r ?s)" for r
    by (rule later; auto simp: auth_replies auth_defs split: sum.split)+
  moreover have "advances st (refreshedReply g q ?s)" for q
    by (rule later; auto simp: auth_replies auth_defs split: sum.split option.split)
  moreover have "advances st (confirmedReply g b ?s)" for b
    using advances_park [OF s(2), of g] s(1) g advances_unpark [of st n] by (simp add: confirmedReply_def)
  ultimately show ?thesis using advances_self [of st] advances_unpark [of st n] Some p
    by (cases t; cases a) (simp_all add: auth_reply_def)
qed (simp add: auth_reply_def advances_self)

lemma step_advances:
  assumes "\<forall>(n, g, t) \<in> set (au_tasks st). g \<le> au_generation st"
  shows "advances st (auth_step e st)"
proof -
  have out: "advances st (endServerSession (resetSessionData (set_signed_out st)))"
    unfolding endServerSession_def
    by (rule advances_park) (simp_all add: auth_defs advances_def)
  show ?thesis
    using answer_advances [OF assms] out
    by (cases e) (auto simp: auth_actions auth_defs advances_def split: option.split)
qed

text \<open>Where the account shown after a step comes from.\<close>

lemma account_source:
  assumes "au_status (auth_step e st) = SignedInStatus" "au_user (auth_step e st) = Some x"
  shows "(au_status st = SignedInStatus \<and> au_user st = Some x \<and> au_generation (auth_step e st) = au_generation st) \<or>
    (\<exists>n a g t. e = AuthAnswer n a \<and> map_of (au_tasks st) n = Some (g, t) \<and>
      (t \<in> {LoginTask, VerifyTask} \<and> a = UserAnswer (Inr x) \<or>
       t = InitTask \<and> a = MeAnswer (Inr (Some x)) \<and> au_generation (auth_step e st) = au_generation st \<or>
       g = au_generation st \<and> au_generation (auth_step e st) = au_generation st \<and>
         (t \<in> {PreferencesTask, ProfileTask} \<and> a = UserAnswer (Inr x) \<or> t = RefreshMeTask \<and> a = MeAnswer (Inr (Some x)))))"
proof (cases e)
  case (AuthAnswer n a)
  show ?thesis
  proof (cases "map_of (au_tasks st) n")
    case None
    then show ?thesis using assms AuthAnswer by (simp add: auth_reply_def)
  next
    case (Some p)
    obtain g t where p: "p = (g, t)" by (cases p)
    show ?thesis using assms unfolding AuthAnswer
      by (cases t; cases a)
        (auto simp: Some p auth_reply_def auth_replies auth_defs split: sum.splits option.splits if_splits)
  qed
qed (use assms in \<open>auto simp: auth_actions auth_defs split: if_splits option.splits\<close>)

lemma sent_later:
  assumes "init_unique (at_store w)" "(n, g, t) \<in> set (au_tasks (at_store w))"
  shows "sent_with (w\<lparr>at_sent := (au_next (at_store w), c) # at_sent w\<rparr>) n = sent_with w n"
proof -
  have "n < au_next (at_store w)" using assms by (auto simp: init_unique_def)
  then show ?thesis by (simp add: sent_with_def)
qed

text \<open>An answer that is not a sign-in's shows nobody new: what it names was a claim already.\<close>

lemma tab_shows_claim:
  assumes w: "auth_tab_ok w" and e: "\<not> signs_in e (at_store w)"
    and st: "st' = auth_step (fst (delivered w e)) (at_store w)" "au_status st' = SignedInStatus" "au_user st' = Some x"
  shows "u_id x \<in> claims w"
proof -
  let ?st = "at_store w"
  note steps = account_source [of "fst (delivered w e)" ?st x]
  have known: "u_id x \<in> claims w" if "au_status ?st = SignedInStatus" "au_user ?st = Some x"
    using session_knows [of ?st "at_shown w"] w that by (auto simp: auth_tab_ok_def claims_def)
  have sent: "u_id x \<in> claims w"
    if t: "map_of (au_tasks ?st) n = Some (g, t)" "g = au_generation ?st \<or> t = InitTask"
      and i: "sent_with w n = Some (u_id x)" for n g t
    using map_of_SomeD [OF t(1)] t(2) i by (auto simp: claims_def)
  show ?thesis
  proof (cases "\<exists>n a g t. e = AuthAnswer n a \<and> map_of (au_tasks ?st) n = Some (g, t)")
    case False
    then have "fst (delivered w e) = e" by (auto simp: delivered_def split: auth_event.split option.split)
    then show ?thesis using steps st known False by auto
  next
    case True
    then obtain n a g t where t: "e = AuthAnswer n a" "map_of (au_tasks ?st) n = Some (g, t)" by blast
    let ?a = "served (sent_with w n) t a"
    have d: "fst (delivered w e) = AuthAnswer n ?a" using t by (simp add: delivered_def Let_def)
    have named: "sent_with w n = Some (u_id x)"
      if "t \<notin> {LoginTask, VerifyTask}" "?a = UserAnswer (Inr x) \<or> ?a = MeAnswer (Inr (Some x))"
      using that by (auto simp: served_def split: auth_answer.splits sum.splits option.splits)
    have no: "\<not> (t \<in> {LoginTask, VerifyTask} \<and> ?a = UserAnswer (Inr x))"
      using e t by (auto simp: signs_in_def served_def)
    show ?thesis
      using steps st known sent [OF t(2)] named no t(2) unfolding d by auto
  qed
qed

lemma cookie_kept:
  "\<not> signs_in e (at_store w) \<Longrightarrow> set_option (snd (delivered w e)) \<subseteq> set_option (at_cookie w)"
  by (auto simp: delivered_def signs_in_def served_def session_cookie_def Let_def
      split: auth_event.splits option.splits auth_answer.splits sum.splits bool.splits if_splits)

lemma claims_step:
  assumes w: "auth_tab_ok w" and e: "\<not> signs_in e (at_store w)"
  shows "claims (tab_step (Acts e) w) \<subseteq> claims w"
proof
  fix i assume i: "i \<in> claims (tab_step (Acts e) w)"
  obtain e' c where d: "delivered w e = (e', c)" by (cases "delivered w e")
  let ?st = "at_store w" and ?st' = "auth_step e' (at_store w)" and ?w' = "tab_step (Acts e) w"
  have store: "at_store ?w' = ?st'" "at_cookie ?w' = c" "at_shown ?w' = note_account ?st' (at_shown w)"
    by (simp_all add: d Let_def)
  have u: "init_unique ?st" and low: "\<forall>p \<in> set (at_shown w). fst p \<le> au_generation ?st"
    using w by (auto simp: auth_tab_ok_def session_ok_def Let_def)
  have bound: "\<forall>(n, g, t) \<in> set (au_tasks ?st). g \<le> au_generation ?st" using w by (simp add: auth_tab_ok_def)
  have adv: "advances ?st ?st'" by (rule step_advances [OF bound])
  consider (shown) "(au_generation ?st', i) \<in> set (note_account ?st' (at_shown w))"
    | (task) n g t where "(n, g, t) \<in> set (au_tasks ?st')" "g = au_generation ?st' \<or> t = InitTask" "sent_with ?w' n = Some i"
    | (cookie) "c = Some i"
    using i unfolding claims_def store by auto
  then show "i \<in> claims w"
  proof cases
    case shown
    then consider "(au_generation ?st', i) \<in> set (at_shown w)"
      | x where "au_status ?st' = SignedInStatus" "au_user ?st' = Some x" "i = u_id x"
      by (auto simp: note_account_def split: if_splits option.splits)
    then show ?thesis
    proof cases
      case 1
      then have "au_generation ?st' = au_generation ?st" using low adv by (force simp: advances_def)
      with 1 show ?thesis by (simp add: claims_def)
    next
      case (2 x)
      then show ?thesis using tab_shows_claim [OF w e, of ?st' x] d by simp
    qed
  next
    case (task n g t)
    have "(n, g, t) \<in> set (au_tasks ?st) \<or> n = au_next ?st \<and> au_next ?st' \<noteq> au_next ?st"
      using adv task(1) by (auto simp: advances_def)
    then show ?thesis
    proof
      assume old: "(n, g, t) \<in> set (au_tasks ?st)"
      then have "g = au_generation ?st \<or> t = InitTask" using task(2) bound adv by (force simp: advances_def)
      moreover have "sent_with ?w' n = sent_with w n"
        using sent_later [OF u old] by (simp add: d Let_def sent_with_def)
      ultimately show ?thesis using old task(3) by (auto simp: claims_def)
    next
      assume "n = au_next ?st \<and> au_next ?st' \<noteq> au_next ?st"
      then have "at_cookie w = Some i" using task(3) by (simp add: d Let_def sent_with_def)
      then show ?thesis by (simp add: claims_def)
    qed
  next
    case cookie
    then show ?thesis using cookie_kept [OF e] d by (auto simp: claims_def)
  qed
qed

text \<open>A sign-in answered with no first check out begins a generation that only its own account can claim.\<close>

lemma claims_sign_in:
  assumes w: "auth_tab_ok w" and e: "signs_in e (at_store w)" "\<not> first_check (at_store w)"
  shows "\<exists>i. claims (tab_step (Acts e) w) \<subseteq> {i}"
proof -
  obtain n g t x where e: "e = AuthAnswer n (UserAnswer (Inr x))" "map_of (au_tasks (at_store w)) n = Some (g, t)"
    "t = LoginTask \<or> t = VerifyTask" using e(1)
    by (auto simp: signs_in_def split: auth_event.splits auth_answer.splits sum.splits option.splits)
  let ?s = "auth_unpark n (at_store w)"
  have d: "delivered w e = (e, Some (u_id x))" using e by (auto simp: delivered_def served_def session_cookie_def)
  have st: "auth_step e (at_store w) = set_signed_in x (resetSessionData ?s)"
    using e by (auto simp: auth_reply_def signInReply_def)
  have tasks: "au_tasks (auth_step e (at_store w)) = AList.delete n (au_tasks (at_store w))"
    "au_next (auth_step e (at_store w)) = au_next (at_store w)"
    "au_generation (auth_step e (at_store w)) = au_generation (at_store w) + 2"
    unfolding st by (simp_all add: auth_defs)
  have low: "\<forall>p \<in> set (at_shown w). fst p \<le> au_generation (at_store w)"
    "\<forall>(n, g, t) \<in> set (au_tasks (at_store w)). g \<le> au_generation (at_store w)"
    using w by (auto simp: auth_tab_ok_def session_ok_def Let_def)
  have no_init: "(m, h, InitTask) \<notin> set (au_tasks (at_store w))" for m h
    using \<open>\<not> first_check (at_store w)\<close> by (auto simp: first_check_def list_ex_iff)
  let ?w' = "tab_step (Acts e) w"
  have after: "at_store ?w' = auth_step e (at_store w)" "at_cookie ?w' = Some (u_id x)"
    "at_shown ?w' = (au_generation (at_store w) + 2, u_id x) # at_shown w"
    by (simp_all add: d Let_def note_account_def tasks(3)) (simp_all add: st signed_in_frame auth_defs)
  have "i = u_id x" if "(au_generation (at_store w) + 2, i) \<in> set (at_shown ?w')" for i
    using that low(1) unfolding after by fastforce
  moreover have "\<not> (h = au_generation (at_store w) + 2 \<or> k = InitTask)"
    if "(m, h, k) \<in> set (au_tasks (auth_step e (at_store w)))" for m h k
    using that low(2) no_init unfolding tasks by (auto simp: AList.delete_eq)
  ultimately have "claims ?w' \<subseteq> {u_id x}" unfolding claims_def after(1,2) tasks(3) by auto
  then show ?thesis by blast
qed

lemma claimed_same_account:
  assumes "claims w \<subseteq> {i}" "u_id x \<in> claims w"
  shows "same_account (au_generation (at_store w)) (Inr x) (at_shown w)"
proof -
  have "j = u_id x" if "(au_generation (at_store w), j) \<in> set (at_shown w)" for j
    using that assms unfolding claims_def by blast
  then show ?thesis by (auto simp: same_account_def list_all_iff)
qed

lemma delivered_fits:
  assumes w: "auth_tab_ok w" and e: "\<not> disturbs (Acts e) w" and d: "fst (delivered w e) = AuthAnswer n a"
  shows "answer_fits n a (at_store w) (at_shown w)"
  unfolding answer_fits_def
proof (intro allI impI)
  fix g t assume t: "map_of (au_tasks (at_store w)) n = Some (g, t)"
  obtain b where b: "e = AuthAnswer n b" "a = served (sent_with w n) t b"
    using d t by (auto simp: delivered_def Let_def split: auth_event.splits option.splits)
  obtain i where i: "claims w \<subseteq> {i}" using w by (auto simp: auth_tab_ok_def)
  have named: "same_account g (Inr x) (at_shown w)"
    if "t \<notin> {LoginTask, VerifyTask}" "g = au_generation (at_store w)" "a = UserAnswer (Inr x) \<or> a = MeAnswer (Inr (Some x))" for x
  proof -
    have "sent_with w n = Some (u_id x)"
      using that(1,3) b(2) by (auto simp: served_def split: auth_answer.splits sum.splits option.splits)
    then have "u_id x \<in> claims w" using map_of_SomeD [OF t] that(2) by (auto simp: claims_def)
    from claimed_same_account [OF i this] show ?thesis using that(2) by simp
  qed
  have "\<not> first_check (at_store w)" if "t \<in> {LoginTask, VerifyTask}" "a = UserAnswer (Inr u)" for u
    using that e b t by (auto simp: signs_in_def served_def)
  moreover have "same_account g r (at_shown w)"
    if "t \<in> {PreferencesTask, ProfileTask}" "g = au_generation (at_store w)" "a = UserAnswer r" for r
    using that named by (cases r) (auto simp: same_account_def)
  ultimately show "(t \<in> {LoginTask, VerifyTask} \<longrightarrow> (\<forall>u. a = UserAnswer (Inr u) \<longrightarrow> \<not> first_check (at_store w))) \<and>
      (t \<in> {PreferencesTask, ProfileTask} \<and> g = au_generation (at_store w) \<longrightarrow>
        (\<forall>r. a = UserAnswer r \<longrightarrow> same_account g r (at_shown w))) \<and>
      (t = RefreshMeTask \<and> g = au_generation (at_store w) \<longrightarrow>
        (\<forall>u. a = MeAnswer (Inr (Some u)) \<longrightarrow> same_account g (Inr u) (at_shown w)))"
    using named by blast
qed

lemma auth_tab_step_ok:
  assumes w: "auth_tab_ok w" and e: "\<not> disturbs e w"
  shows "auth_tab_ok (tab_step e w)"
proof (cases e)
  case (CookieMoved c)
  with e have "c = None" by simp
  then have "claims (tab_step e w) \<subseteq> claims w" using CookieMoved by (auto simp: claims_def sent_with_def)
  then show ?thesis using w CookieMoved by (auto simp: auth_tab_ok_def)
next
  case (Acts ev)
  obtain e' c where d: "delivered w ev = (e', c)" by (cases "delivered w ev")
  let ?st = "at_store w" and ?w' = "tab_step (Acts ev) w"
  have store: "at_store ?w' = auth_step e' ?st" "at_shown ?w' = note_account (auth_step e' ?st) (at_shown w)"
    by (simp_all add: d Let_def)
  have ok: "session_ok (?st, at_shown w)" and bound: "\<forall>(n, g, t) \<in> set (au_tasks ?st). g \<le> au_generation ?st"
    using w by (simp_all add: auth_tab_ok_def)
  have "session_ok (at_store ?w', at_shown ?w')"
    unfolding store using delivered_fits [OF w] e Acts d by (intro auth_step_keeps_session [OF ok]) simp
  moreover have "\<forall>(n, g, t) \<in> set (au_tasks (at_store ?w')). g \<le> au_generation (at_store ?w')"
    unfolding store using step_advances [OF bound, of e'] bound by (fastforce simp: advances_def)
  moreover have "\<exists>i. claims ?w' \<subseteq> {i}"
  proof (cases "signs_in ev ?st")
    case True
    then show ?thesis using claims_sign_in [OF w True] e Acts by simp
  next
    case False
    then show ?thesis using claims_step [OF w False] w unfolding auth_tab_ok_def by blast
  qed
  ultimately show ?thesis unfolding Acts auth_tab_ok_def by blast
qed

lemma undisturbed_ok: "auth_tab_ok w \<Longrightarrow> undisturbed es w \<Longrightarrow> auth_tab_ok (fold tab_step es w)"
  by (induction es arbitrary: w) (auto simp: auth_tab_step_ok)

lemma initial_tab_ok: "auth_tab_ok (initial_tab cookie)"
proof -
  have "claims (initial_tab cookie) = set_option cookie"
    by (simp add: claims_def initial_tab_def initial_auth_def)
  then have "\<exists>i. claims (initial_tab cookie) \<subseteq> {i}" by (cases cookie) auto
  then show ?thesis
    by (simp add: auth_tab_ok_def initial_tab_def session_ok_def init_unique_def initial_auth_def one_account_each_def
        fresh_generation_def)
qed

text \<open>C15. C15.
  A generation shows one account only: whatever signs in, out or is refused, no two accounts are ever shown under one
  generation, so what a guarded store keeps for its generation is one account's. Who an answer names is the server's
  doing, by the cookie its request carried. The two things that would end this are premises on the run: no other tab
  moves the cookie to an account, and no sign-in is answered while the first check is out. Both are real (the traces
  below).
\<close>

theorem one_account_per_generation:
  assumes "undisturbed es (initial_tab cookie)"
  shows "one_account_each (at_shown (fold tab_step es (initial_tab cookie)))"
proof -
  have "auth_tab_ok (fold tab_step es (initial_tab cookie))" by (rule undisturbed_ok [OF initial_tab_ok assms])
  then show ?thesis by (simp add: auth_tab_ok_def session_ok_def Let_def)
qed

definition sample_user :: "string \<Rightarrow> user" where
  "sample_user i = \<lparr>u_id = i, u_email = i, u_display_name = i, u_email_verified_at = None, u_preferences = None\<rparr>"

text \<open>One tab: signed in as u by its cookie, renamed, signed out with the rename's answer still out, signed in as v.\<close>

definition two_accounts :: "tab_event list" where
  "two_accounts = map Acts [Init, AuthAnswer 0 (MeAnswer (Inr (Some (sample_user ''u'')))), Profile, Profile,
     AuthAnswer 1 (UserAnswer (Inr (sample_user ''u''))), Logout, Login, AuthAnswer 4 (UserAnswer (Inr (sample_user ''v''))),
     AuthAnswer 2 (UserAnswer (Inr (sample_user ''u''))), AuthAnswer 3 (DoneAnswer True)]"

theorem one_account_per_generation_witness:
  "one_account_each (at_shown (fold tab_step two_accounts (initial_tab (Some ''u'')))) \<and>
   remdups (at_shown (fold tab_step two_accounts (initial_tab (Some ''u'')))) = [(4, ''v''), (0, ''u'')]"
proof -
  have "undisturbed two_accounts (initial_tab (Some ''u''))" by code_simp
  from one_account_per_generation [OF this] show ?thesis by (intro conjI) (assumption, code_simp)
qed

text \<open>
  Another tab signs in as v. This tab goes on in its generation, sends an update with the new cookie and shows v,
  over the data it holds for u.
\<close>

theorem other_tab_changes_account:
  "let w = fold tab_step [Acts Init, Acts (AuthAnswer 0 (MeAnswer (Inr (Some (sample_user ''u''))))), CookieMoved (Some ''v''),
        Acts Preferences, Acts (AuthAnswer 1 (UserAnswer (Inr (sample_user ''u''))))] (initial_tab (Some ''u'')) in
   map_option u_id (au_user (at_store w)) = Some ''v'' \<and> \<not> one_account_each (at_shown w)"
  by code_simp

section \<open>The first check has no guard\<close>

text \<open>
  \<open>init\<close> does not compare sessions: an answer that says nobody is signed in, given before the sign-in that the
  public login page completed meanwhile, signs the tab out again.
\<close>

theorem late_check_undoes_sign_in:
  "let st = fold auth_step [Init, Login, AuthAnswer 1 (UserAnswer (Inr (sample_user ''u''))),
        AuthAnswer 0 (MeAnswer (Inr None))] initial_auth in
   au_status st = SignedOut \<and> au_user st = None"
  by code_simp

text \<open>With the cookie of an earlier account still valid it shows that account in the new one's session.\<close>

theorem late_check_shows_other_account:
  "let st = fold auth_step [Init, Login, AuthAnswer 1 (UserAnswer (Inr (sample_user ''new'')))] initial_auth;
       st' = auth_step (AuthAnswer 0 (MeAnswer (Inr (Some (sample_user ''old''))))) st in
   map_option u_id (au_user st) = Some ''new'' \<and> map_option u_id (au_user st') = Some ''old'' \<and>
   au_generation st' = au_generation st"
  by code_simp

text \<open>Answers to two updates are taken in the order they arrive, so the earlier update can be the one that stays.\<close>

theorem late_update_wins:
  "let save = (\<lambda>n name. AuthAnswer n (UserAnswer (Inr ((sample_user ''u'')\<lparr>u_display_name := name\<rparr>))));
       st = fold auth_step [Login, AuthAnswer 0 (UserAnswer (Inr (sample_user ''u''))), Profile, Profile,
         save 2 ''second'', save 1 ''first''] initial_auth in
   map_option u_display_name (au_user st) = Some ''first''"
  by code_simp

section \<open>Late answers\<close>

text \<open>However many answers of earlier sessions arrive, the account shown and the status stay.\<close>

theorem old_answers_keep_account:
  assumes "stale_run auth_step au_generation auth_origin es st"
  shows "(au_status (fold auth_step es st), au_user (fold auth_step es st)) = (au_status st, au_user st)"
  using auth_session.late_answers_unseen [OF assms] by simp

theorem old_answers_keep_account_witness:
  "let st = fold auth_step [Login, AuthAnswer 0 (UserAnswer (Inr (sample_user ''u''))), Profile, Logout] initial_auth;
       st' = fold auth_step [AuthAnswer 1 (UserAnswer (Inr (sample_user ''u''))), Unauthorized 2] st in
   (au_status st', au_user st') = (SignedOut, None)"
proof -
  let ?st = "fold auth_step [Login, AuthAnswer 0 (UserAnswer (Inr (sample_user ''u''))), Profile, Logout] initial_auth"
  have "stale_run auth_step au_generation auth_origin [AuthAnswer 1 (UserAnswer (Inr (sample_user ''u''))), Unauthorized 2] ?st"
    by code_simp
  from old_answers_keep_account [OF this] have
    "(au_status (fold auth_step [AuthAnswer 1 (UserAnswer (Inr (sample_user ''u''))), Unauthorized 2] ?st),
      au_user (fold auth_step [AuthAnswer 1 (UserAnswer (Inr (sample_user ''u''))), Unauthorized 2] ?st)) =
     (au_status ?st, au_user ?st)" .
  moreover have "(au_status ?st, au_user ?st) = (SignedOut, None)" by code_simp
  ultimately show ?thesis unfolding Let_def by (rule trans)
qed

end
