(* ===== verification/UiStores.thy ===== *)
theory UiStores
  imports Contract
begin

text \<open>
  The three stores behind the shell: the confirmation dialog (\<open>frontend/src/stores/confirm.ts\<close>), the toasts
  (\<open>stores/toast.ts\<close>) and the sidebar with its persisted half (\<open>stores/ui.ts\<close>). A promise the dialog gave out is
  its number, a resolved promise an entry of the answers; a timer is an entry with the moment it runs out.

  The lemmas: of the promises the dialog gave out every one but the open one is answered, each once; a toast is on
  screen exactly while its timer runs; and reading back what was stored keeps the sidebar and opens no overlay.
\<close>

section \<open>Confirmation\<close>

datatype tone = Danger | Neutral

record confirm_options =
  cf_confirmLabel :: "string option"
  cf_tone :: "tone option"

record confirm_state =
  cs_open :: bool
  cs_message :: string
  cs_confirmLabel :: string
  cs_tone :: tone
  cs_resolve :: "nat option"
  cs_answers :: "(nat \<times> bool) list"
  cs_asked :: nat

definition initial_confirm :: confirm_state where
  "initial_confirm = \<lparr>cs_open = False, cs_message = [], cs_confirmLabel = ''Delete'', cs_tone = Danger,
     cs_resolve = None, cs_answers = [], cs_asked = 0\<rparr>"

definition confirm_resolve :: "bool \<Rightarrow> confirm_state \<Rightarrow> confirm_state" where
  "confirm_resolve ok st = (case cs_resolve st of Some n \<Rightarrow> st\<lparr>cs_answers := cs_answers st @ [(n, ok)]\<rparr> | None \<Rightarrow> st)"

text \<open>A request gets the next number, whether it opens the dialog or is refused at once.\<close>

definition confirm :: "string \<Rightarrow> confirm_options option \<Rightarrow> confirm_state \<Rightarrow> confirm_state" where
  "confirm message options st =
     (let n = cs_asked st; st = st\<lparr>cs_asked := n + 1\<rparr> in
      if cs_resolve st \<noteq> None then st\<lparr>cs_answers := cs_answers st @ [(n, False)]\<rparr>
      else st\<lparr>cs_open := True, cs_message := message,
        cs_confirmLabel := (case Option.bind options cf_confirmLabel of Some l \<Rightarrow> l | None \<Rightarrow> ''Delete''),
        cs_tone := (case Option.bind options cf_tone of Some t \<Rightarrow> t | None \<Rightarrow> Danger), cs_resolve := Some n\<rparr>)"

definition accept_confirm :: "confirm_state \<Rightarrow> confirm_state" where
  "accept_confirm st = (confirm_resolve True st)\<lparr>cs_open := False, cs_resolve := None\<rparr>"

definition cancel_confirm :: "confirm_state \<Rightarrow> confirm_state" where
  "cancel_confirm st = (confirm_resolve False st)\<lparr>cs_open := False, cs_resolve := None\<rparr>"

definition reset_confirm :: "confirm_state \<Rightarrow> confirm_state" where
  "reset_confirm st = (confirm_resolve False st)\<lparr>cs_open := False, cs_message := [], cs_resolve := None\<rparr>"

datatype confirm_event = Ask string "confirm_options option" | Accept | Cancel | ResetConfirm

fun confirm_step :: "confirm_event \<Rightarrow> confirm_state \<Rightarrow> confirm_state" where
  "confirm_step (Ask m opts) st = confirm m opts st"
| "confirm_step Accept st = accept_confirm st"
| "confirm_step Cancel st = cancel_confirm st"
| "confirm_step ResetConfirm st = reset_confirm st"

definition confirm_ok :: "confirm_state \<Rightarrow> bool" where
  "confirm_ok st \<longleftrightarrow>
     distinct (map fst (cs_answers st) @ (case cs_resolve st of Some n \<Rightarrow> [n] | None \<Rightarrow> [])) \<and>
     set (map fst (cs_answers st) @ (case cs_resolve st of Some n \<Rightarrow> [n] | None \<Rightarrow> [])) = {..<cs_asked st} \<and>
     cs_open st = (cs_resolve st \<noteq> None)"

lemma confirm_step_ok: "confirm_ok st \<Longrightarrow> confirm_ok (confirm_step e st)"
  by (cases e; cases "cs_resolve st")
    (auto simp: confirm_ok_def confirm_def accept_confirm_def cancel_confirm_def reset_confirm_def confirm_resolve_def
      Let_def lessThan_Suc)

interpretation confirm_runs: event_machine confirm_step confirm_ok
  by unfold_locales (rule confirm_step_ok)

text \<open>C40. 
  No caller of \<open>confirm\<close> is left waiting and none is answered twice: in every run the requests are the answered
  ones and the one the open dialog is about.
\<close>

theorem every_question_is_answered_once:
  "let st = fold confirm_step es initial_confirm;
       waiting = (case cs_resolve st of Some n \<Rightarrow> [n] | None \<Rightarrow> []) in
   distinct (map fst (cs_answers st) @ waiting) \<and> set (map fst (cs_answers st) @ waiting) = {..<cs_asked st} \<and>
   cs_open st = (waiting \<noteq> [])"
proof -
  have "confirm_ok initial_confirm" by (simp add: confirm_ok_def initial_confirm_def)
  from confirm_runs.run_inv [OF this, of es] show ?thesis
    by (cases "cs_resolve (fold confirm_step es initial_confirm)") (simp_all add: confirm_ok_def Let_def)
qed

section \<open>Toasts\<close>

datatype toast_type = Success | Error | Info

record toast =
  to_id :: nat
  to_type :: toast_type
  to_message :: string
  to_action :: "string option"

record toast_state =
  ts_toasts :: "toast list"
  ts_nextId :: nat
  ts_timers :: "(nat \<times> int) list"
  ts_now :: int

definition AUTO_DISMISS_MS :: int where
  "AUTO_DISMISS_MS = 4000"

definition ACTION_DISMISS_MS :: int where
  "ACTION_DISMISS_MS = 8000"

definition initial_toasts :: toast_state where
  "initial_toasts = \<lparr>ts_toasts = [], ts_nextId = 0, ts_timers = [], ts_now = 0\<rparr>"

definition show_toast :: "string \<Rightarrow> toast_type \<Rightarrow> string option \<Rightarrow> toast_state \<Rightarrow> toast_state" where
  "show_toast message t action st =
     (let i = ts_nextId st + 1 in
      st\<lparr>ts_nextId := i,
         ts_toasts := ts_toasts st @ [\<lparr>to_id = i, to_type = t, to_message = message, to_action = action\<rparr>],
         ts_timers := AList.update i (ts_now st + (if action \<noteq> None then ACTION_DISMISS_MS else AUTO_DISMISS_MS)) (ts_timers st)\<rparr>)"

text \<open>What the timer's callback and \<open>dismiss\<close> do; clearing a timer and its having run out both take it off the map.\<close>

definition clearDismissTimer :: "nat \<Rightarrow> toast_state \<Rightarrow> toast_state" where
  "clearDismissTimer i st = st\<lparr>ts_timers := AList.delete i (ts_timers st)\<rparr>"

definition drop_toast :: "nat \<Rightarrow> toast_state \<Rightarrow> toast_state" where
  "drop_toast i st = st\<lparr>ts_toasts := filter (\<lambda>t. to_id t \<noteq> i) (ts_toasts st)\<rparr>"

definition dismiss :: "nat \<Rightarrow> toast_state \<Rightarrow> toast_state" where
  "dismiss i st = drop_toast i (clearDismissTimer i st)"

definition toast_timer_fires :: "nat \<Rightarrow> toast_state \<Rightarrow> toast_state" where
  "toast_timer_fires i st =
     drop_toast i (st\<lparr>ts_timers := AList.delete i (ts_timers st)\<rparr>)"

text \<open>Time passes: every timer whose moment has come runs, in the order they were set.\<close>

definition toast_wait :: "nat \<Rightarrow> toast_state \<Rightarrow> toast_state" where
  "toast_wait ms st =
     (let now = ts_now st + int ms in
      fold toast_timer_fires (map fst (filter (\<lambda>(i, due). due \<le> now) (ts_timers st))) (st\<lparr>ts_now := now\<rparr>))"

datatype toast_event = Toast string toast_type "string option" | Dismiss nat | Passes nat

fun toast_step :: "toast_event \<Rightarrow> toast_state \<Rightarrow> toast_state" where
  "toast_step (Toast m t a) st = show_toast m t a st"
| "toast_step (Dismiss i) st = dismiss i st"
| "toast_step (Passes ms) st = toast_wait ms st"

section \<open>Sidebar\<close>

record ui_state =
  ui_sidebarCollapsed :: bool
  ui_mobileSidebarOpen :: bool

definition initial_ui :: ui_state where
  "initial_ui = \<lparr>ui_sidebarCollapsed = False, ui_mobileSidebarOpen = False\<rparr>"

definition toggleSidebar :: "ui_state \<Rightarrow> ui_state" where
  "toggleSidebar s = s\<lparr>ui_sidebarCollapsed := \<not> ui_sidebarCollapsed s\<rparr>"

definition toggleMobileSidebar :: "ui_state \<Rightarrow> ui_state" where
  "toggleMobileSidebar s = s\<lparr>ui_mobileSidebarOpen := \<not> ui_mobileSidebarOpen s\<rparr>"

definition closeMobileSidebar :: "ui_state \<Rightarrow> ui_state" where
  "closeMobileSidebar s = s\<lparr>ui_mobileSidebarOpen := False\<rparr>"


text \<open>\<open>partialize\<close> and \<open>merge\<close>: what is stored, and what is made of a stored value of any shape.\<close>

definition ui_partialize :: "ui_state \<Rightarrow> json_obj" where
  "ui_partialize s = [(''sidebarCollapsed'', JBool (ui_sidebarCollapsed s))]"

definition ui_merge :: "json_obj option \<Rightarrow> ui_state \<Rightarrow> ui_state" where
  "ui_merge persistedState currentState =
     (case Option.bind persistedState (\<lambda>o'. map_of o' ''sidebarCollapsed'') of
        Some (JBool b) \<Rightarrow> currentState\<lparr>ui_sidebarCollapsed := b\<rparr>
      | _ \<Rightarrow> currentState)"

text \<open>Storing and reading back keeps the sidebar's width and never brings an overlay back, whatever else was stored.\<close>

theorem ui_persist_roundtrip:
  "ui_merge (Some (ui_partialize s)) initial_ui = s\<lparr>ui_mobileSidebarOpen := False\<rparr> \<and>
   ui_mobileSidebarOpen (ui_merge stored initial_ui) = False"
  by (cases s) (auto simp: ui_merge_def ui_partialize_def initial_ui_def split: option.split json.split)

section \<open>A toast lives as long as its timer\<close>

definition toasts_ok :: "toast_state \<Rightarrow> bool" where
  "toasts_ok st \<longleftrightarrow> map fst (ts_timers st) = map to_id (ts_toasts st) \<and> distinct (map to_id (ts_toasts st)) \<and>
     (\<forall>t \<in> set (ts_toasts st). to_id t \<le> ts_nextId st) \<and>
     (\<forall>(i, due) \<in> set (ts_timers st). ts_now st < due \<and> due \<le> ts_now st + ACTION_DISMISS_MS)"

lemma update_fresh: "k \<notin> fst ` set al \<Longrightarrow> AList.update k v al = al @ [(k, v)]"
  by (induction al) auto

lemma map_filter_keys: "map f xs = map g ys \<Longrightarrow> map f (filter (\<lambda>x. P (f x)) xs) = map g (filter (\<lambda>y. P (g y)) ys)"
  by (metis (mono_tags, lifting) comp_apply filter_cong filter_map)

lemma dropped_ok:
  assumes "toasts_ok st" "st' = st\<lparr>ts_timers := filter (\<lambda>p. P (fst p)) (ts_timers st),
    ts_toasts := filter (\<lambda>t. P (to_id t)) (ts_toasts st)\<rparr>"
  shows "toasts_ok st'"
  using assms map_filter_keys [of fst "ts_timers st" to_id "ts_toasts st" P]
  by (auto simp: toasts_ok_def distinct_map_filter)

lemma dismiss_eq: "dismiss i st = st\<lparr>ts_timers := filter (\<lambda>p. fst p \<noteq> i) (ts_timers st),
    ts_toasts := filter (\<lambda>t. to_id t \<noteq> i) (ts_toasts st)\<rparr>"
proof -
  have "AList.delete i (ts_timers st) = filter (\<lambda>p. fst p \<noteq> i) (ts_timers st)"
    by (auto simp: AList.delete_eq intro: filter_cong)
  then show ?thesis by (simp add: dismiss_def clearDismissTimer_def drop_toast_def)
qed

lemma fires_eq: "toast_timer_fires = dismiss"
  by (rule ext)+ (simp add: toast_timer_fires_def dismiss_def clearDismissTimer_def)

lemma fold_dismiss: "fold dismiss ids st = st\<lparr>ts_timers := filter (\<lambda>p. fst p \<notin> set ids) (ts_timers st),
    ts_toasts := filter (\<lambda>t. to_id t \<notin> set ids) (ts_toasts st)\<rparr>"
  by (induction ids arbitrary: st) (simp_all add: dismiss_eq conj_commute)

lemma toast_step_ok: "toasts_ok st \<Longrightarrow> toasts_ok (toast_step e st)"
proof (cases e)
  case (Toast m t a)
  assume st: "toasts_ok st"
  then have "ts_nextId st + 1 \<notin> fst ` set (ts_timers st)"
    unfolding toasts_ok_def set_map [symmetric] by force
  then show ?thesis using st Toast
    by (auto simp: toasts_ok_def show_toast_def update_fresh Let_def AUTO_DISMISS_MS_def ACTION_DISMISS_MS_def)
next
  case (Dismiss i)
  assume st: "toasts_ok st"
  show ?thesis using dropped_ok [OF st dismiss_eq] Dismiss by simp
next
  case (Passes ms)
  assume st: "toasts_ok st"
  let ?ids = "map fst (filter (\<lambda>(i, due). due \<le> ts_now st + int ms) (ts_timers st))"
  have step: "toast_step e st = (fold dismiss ?ids st)\<lparr>ts_now := ts_now st + int ms\<rparr>"
    by (simp add: Passes toast_wait_def Let_def fires_eq fold_dismiss)
  have ok: "toasts_ok (fold dismiss ?ids st)" by (rule dropped_ok [OF st fold_dismiss])
  have "ts_now st + int ms < due" if "(i, due) \<in> set (ts_timers (fold dismiss ?ids st))" for i due
    using that by (force simp: fold_dismiss)
  then show ?thesis using ok unfolding step by (fastforce simp: toasts_ok_def fold_dismiss)
qed

interpretation toast_runs: event_machine toast_step toasts_ok
  by unfold_locales (rule toast_step_ok)

text \<open>
  In every run the toasts on screen are the ones with a running timer, each once, and each is gone within
  eight seconds; dismissing one leaves no timer behind.
\<close>

theorem toast_lives_as_its_timer:
  "let st = fold toast_step es initial_toasts in
   map to_id (ts_toasts st) = map fst (ts_timers st) \<and> distinct (map to_id (ts_toasts st)) \<and>
   list_all (\<lambda>(i, due). ts_now st < due \<and> due \<le> ts_now st + 8000) (ts_timers st)"
proof -
  have "toasts_ok initial_toasts" by (simp add: toasts_ok_def initial_toasts_def)
  from toast_runs.run_inv [OF this, of es] show ?thesis
    by (simp add: toasts_ok_def Let_def list_all_iff ACTION_DISMISS_MS_def)
qed

end
