(* ===== verification/CheckedPile.thy ===== *)
theory CheckedPile
  imports ListData
begin

text \<open>
  The order of a list's rows on its page: the pile of checked rows (\<open>frontend/src/components/lists/checkedPile.ts\<close>),
  the drag (\<open>components/lists/SortableList.tsx\<close>) and what the page sends when a row is dropped
  (\<open>pages/ListDetailPage.tsx\<close>). Lower-casing is the host's and a parameter; the browser's storage is an
  association list that may refuse every access.

  The lemmas: filling the gaps between checked rows is exactly possible when the new order has as many ids as there
  are unchecked rows; a drop sends a permutation of the list's ids with every checked row where it was; and a
  preference reads back as it was set without touching another list's.
\<close>

section \<open>The two zones\<close>

definition matchesItemText :: "(string \<Rightarrow> string) \<Rightarrow> string \<Rightarrow> string \<Rightarrow> bool" where
  "matchesItemText lower a b \<longleftrightarrow> lower (js_trim a) = lower (js_trim b)"

definition partitionItems :: "list_item list \<Rightarrow> list_item list \<times> list_item list" where
  "partitionItems items =
     fold (\<lambda>item (active, pile). if it_checked item then (active, pile @ [item]) else (active @ [item], pile))
       items ([], [])"

definition findCheckedMatch :: "(string \<Rightarrow> string) \<Rightarrow> list_item list \<Rightarrow> string \<Rightarrow> list_item option" where
  "findCheckedMatch lower items text' = find (\<lambda>item. matchesItemText lower (it_text item) text') (snd (partitionItems items))"

text \<open>\<open>items.map\<close> with the queue it shifts from: an empty queue gives the empty id.\<close>

fun fill_gaps :: "list_item list \<Rightarrow> string list \<Rightarrow> string list \<times> string list" where
  "fill_gaps [] queue = ([], queue)"
| "fill_gaps (item # items) queue =
     (if it_checked item then (let (merged, rest) = fill_gaps items queue in (it_id item # merged, rest))
      else case queue of
          [] \<Rightarrow> (let (merged, rest) = fill_gaps items [] in ([] # merged, rest))
        | i # queue' \<Rightarrow> (let (merged, rest) = fill_gaps items queue' in (i # merged, rest)))"

definition mergeActiveOrder :: "list_item list \<Rightarrow> string list \<Rightarrow> string list option" where
  "mergeActiveOrder items activeIds =
     (let (merged, queue) = fill_gaps items activeIds in
      if queue \<noteq> [] \<or> [] \<in> set merged then None else Some merged)"

section \<open>The drag\<close>

fun indexOf :: "string list \<Rightarrow> string \<Rightarrow> nat option" where
  "indexOf [] x = None"
| "indexOf (y # ys) x = (if y = x then Some 0 else map_option Suc (indexOf ys x))"

text \<open>The inner \<open>splice\<close> takes the row out first, the outer puts it back at the index of the other row.\<close>

definition reorderIds :: "string list \<Rightarrow> string \<Rightarrow> string \<Rightarrow> string list option" where
  "reorderIds ids activeId overId =
     (if activeId = overId then None
      else case (indexOf ids activeId, indexOf ids overId) of
          (Some from', Some to') \<Rightarrow>
            (let rest = take from' ids @ drop (from' + 1) ids in
             Some (take to' rest @ ids ! from' # drop to' rest))
        | _ \<Rightarrow> None)"

datatype page_drop = KeepsOrder | RefetchOrder | SendOrder "string list"

definition handleReorder :: "bool \<Rightarrow> list_item list \<Rightarrow> string list \<Rightarrow> page_drop" where
  "handleReorder pileEnabled items orderedIds =
     (if \<not> pileEnabled then SendOrder orderedIds
      else case mergeActiveOrder items orderedIds of None \<Rightarrow> RefetchOrder | Some merged \<Rightarrow> SendOrder merged)"

definition handleDragEnd :: "(string list \<Rightarrow> page_drop) \<Rightarrow> string list \<Rightarrow> string \<Rightarrow> string option \<Rightarrow> page_drop" where
  "handleDragEnd onReorder ids active over =
     (case over of None \<Rightarrow> KeepsOrder
      | Some overId \<Rightarrow> (case reorderIds ids active overId of None \<Rightarrow> KeepsOrder | Some next' \<Rightarrow> onReorder next'))"

text \<open>The rows the page lets be dragged: the unchecked ones while the pile is shown apart, else all.\<close>

definition draggable_rows :: "bool \<Rightarrow> list_item list \<Rightarrow> list_item list" where
  "draggable_rows pileEnabled items = (if pileEnabled then fst (partitionItems items) else items)"

definition sorting_enabled :: "bool \<Rightarrow> list_item list \<Rightarrow> bool" where
  "sorting_enabled pileEnabled items \<longleftrightarrow> length (draggable_rows pileEnabled items) \<ge> 2"

definition page_drops :: "bool \<Rightarrow> list_item list \<Rightarrow> string \<Rightarrow> string option \<Rightarrow> page_drop" where
  "page_drops pileEnabled items active over =
     (if sorting_enabled pileEnabled items
      then handleDragEnd (handleReorder pileEnabled items) (map it_id (draggable_rows pileEnabled items)) active over
      else KeepsOrder)"

section \<open>Preferences of the device\<close>

record device_storage =
  ds_items :: "(string \<times> string) list"
  ds_refuses :: bool

definition storageGet :: "string \<Rightarrow> device_storage \<Rightarrow> string option" where
  "storageGet key ds = (if ds_refuses ds then None else map_of (ds_items ds) key)"

definition storageSet :: "string \<Rightarrow> string option \<Rightarrow> device_storage \<Rightarrow> device_storage" where
  "storageSet key value' ds =
     (if ds_refuses ds then ds
      else case value' of
          None \<Rightarrow> ds\<lparr>ds_items := AList.delete key (ds_items ds)\<rparr>
        | Some v \<Rightarrow> ds\<lparr>ds_items := AList.update key v (ds_items ds)\<rparr>)"

definition isPileEnabled :: "string \<Rightarrow> device_storage \<Rightarrow> bool" where
  "isPileEnabled listId ds \<longleftrightarrow> storageGet (''listPile:'' @ listId) ds \<noteq> Some ''0''"

definition setPileEnabled :: "string \<Rightarrow> bool \<Rightarrow> device_storage \<Rightarrow> device_storage" where
  "setPileEnabled listId enabled ds = storageSet (''listPile:'' @ listId) (if enabled then None else Some ''0'') ds"

definition isPileExpanded :: "string \<Rightarrow> device_storage \<Rightarrow> bool" where
  "isPileExpanded listId ds \<longleftrightarrow> storageGet (''listPileExpanded:'' @ listId) ds = Some ''1''"

definition setPileExpanded :: "string \<Rightarrow> bool \<Rightarrow> device_storage \<Rightarrow> device_storage" where
  "setPileExpanded listId expanded ds =
     storageSet (''listPileExpanded:'' @ listId) (if expanded then Some ''1'' else None) ds"

section \<open>Lemmas on the zones\<close>

lemma partition_fold: "fold (\<lambda>item (active, pile). if it_checked item then (active, pile @ [item]) else (active @ [item], pile))
    items (a, p) = (a @ filter (\<lambda>i. \<not> it_checked i) items, p @ filter it_checked items)"
  by (induction items arbitrary: a p) auto

lemma partitionItems_eq: "partitionItems items = (filter (\<lambda>i. \<not> it_checked i) items, filter it_checked items)"
  by (simp add: partitionItems_def partition_fold)

abbreviation active_of :: "list_item list \<Rightarrow> list_item list" where
  "active_of items \<equiv> filter (\<lambda>i. \<not> it_checked i) items"

text \<open>A merged order: as long as the rows, with every checked row at its place and the rest in the order given.\<close>

definition holds_checked :: "list_item list \<Rightarrow> string list \<Rightarrow> bool" where
  "holds_checked items merged \<longleftrightarrow> list_all2 (\<lambda>item i. \<not> it_checked item \<or> i = it_id item) items merged"

definition active_part :: "list_item list \<Rightarrow> string list \<Rightarrow> string list" where
  "active_part items merged = map snd (filter (\<lambda>(item, i). \<not> it_checked item) (zip items merged))"

lemma fill_rest: "snd (fill_gaps items queue) = drop (length (active_of items)) queue"
proof (induction items arbitrary: queue)
  case (Cons item items)
  then show ?case by (cases queue; cases "it_checked item") (simp_all add: split_beta Let_def)
qed simp

lemma fill_enough:
  "length queue = length (active_of items) \<Longrightarrow>
     holds_checked items (fst (fill_gaps items queue)) \<and> active_part items (fst (fill_gaps items queue)) = queue"
  by (induction items queue rule: fill_gaps.induct)
    (auto simp: holds_checked_def active_part_def split: prod.split list.split if_splits)

lemma fill_short:
  "length queue < length (active_of items) \<Longrightarrow> [] \<in> set (fst (fill_gaps items queue))"
  by (induction items queue rule: fill_gaps.induct) (auto split: prod.split list.split if_splits)

lemma fill_unique:
  "holds_checked items merged \<Longrightarrow> fill_gaps items (active_part items merged) = (merged, [])"
  unfolding holds_checked_def
  by (induction rule: list_all2_induct) (auto simp: active_part_def)

lemma fill_ids: "length queue = length (active_of items) \<Longrightarrow>
    mset (fst (fill_gaps items queue)) = mset (map it_id (filter it_checked items)) + mset queue"
  by (induction items queue rule: fill_gaps.induct) (auto split: prod.split list.split if_splits)

definition item_row :: "string \<Rightarrow> bool \<Rightarrow> list_item" where
  "item_row i checked = \<lparr>it_id = i, it_list_id = ''l'', it_text = i, it_checked = checked, it_due_date = None,
     it_priority = None, it_category = None, it_assigned_to = None, it_sort_order = 0, it_created_at = '''',
     it_created_by = '''', it_updated_at = ''''\<rparr>"

text \<open>
  Merging an order of the unchecked rows: it succeeds exactly when there are as many ids as unchecked rows, and
  then every checked row keeps its place and the unchecked places hold the new order; no other list does.
\<close>

theorem mergeActiveOrder_exact:
  assumes "[] \<notin> it_id ` set items" "[] \<notin> set activeIds"
  shows "(mergeActiveOrder items activeIds = None \<longleftrightarrow> length activeIds \<noteq> length (active_of items)) \<and>
    (mergeActiveOrder items activeIds = Some merged \<longleftrightarrow>
       holds_checked items merged \<and> active_part items merged = activeIds)"
proof -
  have set_eq: "set (fst (fill_gaps items activeIds)) = set (map it_id (filter it_checked items)) \<union> set activeIds"
    if "length activeIds = length (active_of items)"
    using arg_cong [where f = set_mset, OF fill_ids [OF that]] by simp
  have a: "mergeActiveOrder items activeIds = Some (fst (fill_gaps items activeIds))"
    if "length activeIds = length (active_of items)"
    using set_eq [OF that] assms fill_rest [of items activeIds] that
    by (auto simp: mergeActiveOrder_def split: prod.split)
  have b: "mergeActiveOrder items activeIds = None" if "length activeIds \<noteq> length (active_of items)"
    using that fill_short [of activeIds items] fill_rest [of items activeIds]
    by (auto simp: mergeActiveOrder_def split: prod.split)
  have c: "length (active_part items merged) = length (active_of items)" if "holds_checked items merged"
    using that unfolding holds_checked_def
    by (induction rule: list_all2_induct) (auto simp: active_part_def)
  show ?thesis
    using a b c fill_enough [of activeIds items] fill_unique [of items merged]
    by (cases "length activeIds = length (active_of items)") auto
qed

theorem mergeActiveOrder_exact_witness:
  "mergeActiveOrder [item_row ''a'' False, item_row ''b'' True, item_row ''c'' False] [''c'', ''a'']
     = Some [''c'', ''b'', ''a'']"
proof -
  let ?items = "[item_row ''a'' False, item_row ''b'' True, item_row ''c'' False]"
  have "[] \<notin> it_id ` set ?items" "[] \<notin> set [''c'', ''a'']" by (simp_all add: item_row_def)
  from mergeActiveOrder_exact [OF this, of "[''c'', ''b'', ''a'']"] show ?thesis
    by (simp add: holds_checked_def active_part_def item_row_def)
qed

section \<open>What a drop sends\<close>

lemma indexOf_spec: "indexOf ids x = Some i \<Longrightarrow> i < length ids \<and> ids ! i = x"
  by (induction ids arbitrary: i) (auto split: if_splits)

lemma indexOf_None: "indexOf ids x = None \<longleftrightarrow> x \<notin> set ids"
  by (induction ids) auto

lemma indexOf_nth: "distinct ids \<Longrightarrow> i < length ids \<Longrightarrow> indexOf ids (ids ! i) = Some i"
proof (induction ids arbitrary: i)
  case (Cons y ys)
  then show ?case by (cases i) auto
qed simp

lemma filter_out: "a \<notin> set xs \<Longrightarrow> filter (\<lambda>x. x \<noteq> a) xs = xs"
  by (auto simp: filter_id_conv)

lemma reorderIds_some:
  assumes "reorderIds ids a b = Some out" "distinct ids"
  shows "mset out = mset ids \<and> filter (\<lambda>x. x \<noteq> a) out = filter (\<lambda>x. x \<noteq> a) ids \<and> indexOf out a = indexOf ids b"
proof -
  obtain f t where f: "indexOf ids a = Some f" and t: "indexOf ids b = Some t" and "a \<noteq> b"
    and out: "out = take t (take f ids @ drop (f + 1) ids) @ ids ! f # drop t (take f ids @ drop (f + 1) ids)"
    using assms(1) by (auto simp: reorderIds_def Let_def split: if_splits option.splits)
  note F = indexOf_spec [OF f] and T = indexOf_spec [OF t]
  define rest where "rest = take f ids @ drop (f + 1) ids"
  have ids: "ids = take f ids @ a # drop (f + 1) ids" using F by (metis Suc_eq_plus1 id_take_nth_drop)
  have ms: "mset ids = add_mset a (mset rest)"
    by (subst ids) (simp add: rest_def)
  have rest: "filter (\<lambda>x. x \<noteq> a) ids = rest" "a \<notin> set rest"
  proof -
    show "a \<notin> set rest" using assms(2) ids unfolding rest_def by (metis distinct_append Un_iff
      disjoint_iff distinct.simps(2) list.set_intros(1) set_append)
    then show "filter (\<lambda>x. x \<noteq> a) ids = rest"
      by (subst ids) (simp add: rest_def filter_out)
  qed
  have outr: "out = take t rest @ a # drop t rest" using out F by (simp add: rest_def)
  have len: "length (take t rest) = t" using F T \<open>a \<noteq> b\<close> by (auto simp: rest_def)
  have "indexOf (take t rest @ a # drop t rest) a = Some (length (take t rest))"
  proof -
    have "indexOf (xs @ a # ys) a = Some (length xs)" if "a \<notin> set xs" for xs ys
      using that by (induction xs) auto
    then show ?thesis using rest(2) by (meson in_set_takeD)
  qed
  moreover have "filter (\<lambda>x. x \<noteq> a) out = rest"
  proof -
    have "a \<notin> set (take t rest)" "a \<notin> set (drop t rest)" using rest(2) by (auto dest: in_set_takeD in_set_dropD)
    then show ?thesis by (simp add: outr filter_out)
  qed
  moreover have "mset out = mset ids"
  proof -
    have "mset (take t rest) + mset (drop t rest) = mset rest" by (metis append_take_drop_id mset_append)
    then show ?thesis by (simp add: outr ms)
  qed
  ultimately show ?thesis using t len outr rest by simp
qed

text \<open>
  Whatever row is dropped on whatever other: the page sends every row of the list once, the dragged row at the place
  the other had among the rows shown and the rest of them in their order, every checked row at its place while the
  pile is apart; it never has to give the drop up.
\<close>

definition drop_is_reorder :: "bool \<Rightarrow> list_item list \<Rightarrow> string \<Rightarrow> string \<Rightarrow> string list \<Rightarrow> bool" where
  "drop_is_reorder pileEnabled items active over ids \<longleftrightarrow>
     (let rows = map it_id (draggable_rows pileEnabled items);
          shown = (if pileEnabled then active_part items ids else ids) in
      mset ids = mset (map it_id items) \<and> (pileEnabled \<longrightarrow> holds_checked items ids) \<and>
      filter (\<lambda>i. i \<noteq> active) shown = filter (\<lambda>i. i \<noteq> active) rows \<and> indexOf shown active = indexOf rows over)"

lemma merged_drop:
  assumes d: "distinct (map it_id items)" "[] \<notin> it_id ` set items"
    and out: "reorderIds (map it_id (active_of items)) active over = Some out"
  shows "\<exists>ids. mergeActiveOrder items out = Some ids \<and> mset ids = mset (map it_id items) \<and>
    holds_checked items ids \<and> active_part items ids = out"
proof -
  have act: "distinct (map it_id (active_of items))" using d(1) by (simp add: distinct_map_filter)
  note r = reorderIds_some [OF out act]
  have len: "length out = length (active_of items)" using r by (metis length_map mset_eq_length)
  let ?m = "fst (fill_gaps items out)"
  have m: "mset ?m = mset (map it_id items)"
  proof -
    have "mset ?m = mset (map it_id (filter it_checked items)) + mset (map it_id (active_of items))"
      using fill_ids [OF len] r by simp
    also have "\<dots> = mset (map it_id items)" by (induction items) auto
    finally show ?thesis .
  qed
  then have "[] \<notin> set ?m" using d(2) by (metis image_set set_mset_mset)
  then have "mergeActiveOrder items out = Some ?m"
    using fill_rest [of items out] len by (auto simp: mergeActiveOrder_def split: prod.split)
  then show ?thesis using m fill_enough [OF len] by blast
qed

theorem drop_sends_a_reorder:
  assumes "distinct (map it_id items)" "[] \<notin> it_id ` set items"
    and "page_drops pileEnabled items active over \<noteq> KeepsOrder"
  shows "\<exists>overId ids. over = Some overId \<and> page_drops pileEnabled items active over = SendOrder ids \<and>
    drop_is_reorder pileEnabled items active overId ids"
proof -
  let ?rows = "map it_id (draggable_rows pileEnabled items)"
  obtain overId out where o: "over = Some overId" "reorderIds ?rows active overId = Some out"
    and p: "page_drops pileEnabled items active over = handleReorder pileEnabled items out"
    using assms(3) by (auto simp: page_drops_def handleDragEnd_def split: if_splits option.splits)
  have "distinct ?rows" using assms(1) by (simp add: draggable_rows_def partitionItems_eq distinct_map_filter)
  note r = reorderIds_some [OF o(2) this]
  show ?thesis
  proof (cases pileEnabled)
    case True
    then have "reorderIds (map it_id (active_of items)) active overId = Some out"
      using o(2) by (simp add: draggable_rows_def partitionItems_eq)
    from merged_drop [OF assms(1,2) this] show ?thesis
      using True o p r by (auto simp: handleReorder_def drop_is_reorder_def draggable_rows_def partitionItems_eq)
  next
    case False
    then show ?thesis using o p r by (auto simp: handleReorder_def drop_is_reorder_def draggable_rows_def)
  qed
qed

theorem drop_sends_a_reorder_witness:
  "\<exists>ids. page_drops True [item_row ''a'' False, item_row ''b'' True, item_row ''c'' False] ''c'' (Some ''a'')
     = SendOrder ids"
proof -
  let ?items = "[item_row ''a'' False, item_row ''b'' True, item_row ''c'' False]"
  have "distinct (map it_id ?items)" "[] \<notin> it_id ` set ?items"
    "page_drops True ?items ''c'' (Some ''a'') \<noteq> KeepsOrder"
    by (simp_all add: item_row_def page_drops_def handleDragEnd_def handleReorder_def sorting_enabled_def
      draggable_rows_def partitionItems_eq reorderIds_def mergeActiveOrder_def)
  from drop_sends_a_reorder [OF this] show ?thesis by blast
qed

section \<open>Preferences read back\<close>

lemma preference_keys: "''listPile:'' @ l \<noteq> ''listPileExpanded:'' @ l'"
  by simp

text \<open>
  A preference reads back as it was set, on a device that stores anything; the other lists' preferences and the other
  preference of the same list stay, and where storage is refused every pile is shown and collapsed.
\<close>

theorem pile_preferences_read_back:
  "(let ds' = setPileEnabled l b ds in
     isPileEnabled l' ds' = (if l' = l \<and> \<not> ds_refuses ds then b else isPileEnabled l' ds) \<and>
     isPileExpanded l' ds' = isPileExpanded l' ds) \<and>
   (let ds' = setPileExpanded l b ds in
     isPileExpanded l' ds' = (if l' = l \<and> \<not> ds_refuses ds then b else isPileExpanded l' ds) \<and>
     isPileEnabled l' ds' = isPileEnabled l' ds) \<and>
   (if ds_refuses ds then isPileEnabled l ds \<and> \<not> isPileExpanded l ds else True)"
  by (auto simp: isPileEnabled_def setPileEnabled_def isPileExpanded_def setPileExpanded_def storageGet_def
      storageSet_def AList.update_conv' AList.delete_conv' Let_def)

end
