(* ===== verification/AddItem.thy ===== *)
theory AddItem
  imports CheckedPile
begin

text \<open>
  The add box of a list (\<open>frontend/src/components/lists/AddItemForm.tsx\<close>): a combobox that suggests rows of the
  checked pile and either adds what was typed or unchecks a row. Its three pieces of React state, the props that may
  change under it, and the two awaits as parked tasks; a call of a prop is an entry of \<open>af_calls\<close>.

  The lemmas: what is restored is a row the box shows, and an add is never a second copy of a row of the pile the
  user was not told of; the arrow keys walk the suggestions around; and, as a trace, what a late failure overwrites.
\<close>

section \<open>Suggestions\<close>

definition MAX_SUGGESTIONS :: nat where
  "MAX_SUGGESTIONS = 5"

definition MAX_SUGGESTIONS_COMPACT :: nat where
  "MAX_SUGGESTIONS_COMPACT = 3"

fun js_includes :: "string \<Rightarrow> string \<Rightarrow> bool" where
  "js_includes needle [] = (needle = [])"
| "js_includes needle (c # s) = (take (length needle) (c # s) = needle \<or> js_includes needle s)"

definition by_exactness :: "(string \<Rightarrow> string) \<Rightarrow> string \<Rightarrow> list_item \<Rightarrow> list_item \<Rightarrow> int" where
  "by_exactness lower query a b =
     (if matchesItemText lower (it_text a) query then 0 else 1) - (if matchesItemText lower (it_text b) query then 0 else 1)"

definition matchChecked :: "(string \<Rightarrow> string) \<Rightarrow> list_item list \<Rightarrow> string \<Rightarrow> nat \<Rightarrow> list_item list" where
  "matchChecked lower checkedItems query limit =
     (let needle = lower (js_trim query) in
      if needle = [] then []
      else take limit (js_sort (by_exactness lower query)
             (filter (\<lambda>item. js_includes needle (lower (js_trim (it_text item)))) checkedItems)))"

section \<open>The box\<close>

record add_props =
  ap_checkedItems :: "list_item list"
  ap_onRestore :: bool
  ap_compact :: bool

datatype add_call = OnAdd string | OnRestore string

record add_form =
  af_props :: add_props
  af_text :: string
  af_activeId :: "string option"
  af_dismissed :: bool
  af_calls :: "add_call list"
  af_tasks :: "(nat \<times> string) list"
  af_next :: nat

definition initial_add_form :: "add_props \<Rightarrow> add_form" where
  "initial_add_form props = \<lparr>af_props = props, af_text = [], af_activeId = None, af_dismissed = False,
     af_calls = [], af_tasks = [], af_next = 0\<rparr>"

definition suggestions :: "(string \<Rightarrow> string) \<Rightarrow> add_form \<Rightarrow> list_item list" where
  "suggestions lower st =
     (if ap_onRestore (af_props st) \<and> \<not> af_dismissed st
      then matchChecked lower (ap_checkedItems (af_props st)) (af_text st)
             (if ap_compact (af_props st) then MAX_SUGGESTIONS_COMPACT else MAX_SUGGESTIONS)
      else [])"

text \<open>\<open>findIndex\<close>: \<open>None\<close> is the source's -1.\<close>

definition activeIndex :: "(string \<Rightarrow> string) \<Rightarrow> add_form \<Rightarrow> nat option" where
  "activeIndex lower st =
     (case af_activeId st of
        None \<Rightarrow> None
      | Some a \<Rightarrow> if a = [] then None else indexOf (map it_id (suggestions lower st)) a)"

text \<open>A call that is awaited: the text is kept with the task, for a failure to put back.\<close>

definition park_call :: "add_call \<Rightarrow> add_form \<Rightarrow> add_form" where
  "park_call c st = st\<lparr>af_text := [], af_calls := af_calls st @ [c],
     af_tasks := af_tasks st @ [(af_next st, af_text st)], af_next := af_next st + 1\<rparr>"

definition restore :: "string \<Rightarrow> add_form \<Rightarrow> add_form" where
  "restore itemId st =
     (if ap_onRestore (af_props st) then (park_call (OnRestore itemId) st)\<lparr>af_activeId := None\<rparr> else st)"

definition exact_match :: "(string \<Rightarrow> string) \<Rightarrow> add_form \<Rightarrow> list_item option" where
  "exact_match lower st =
     (if ap_onRestore (af_props st) \<and> \<not> af_dismissed st
      then find (\<lambda>item. matchesItemText lower (it_text item) (js_trim (af_text st))) (ap_checkedItems (af_props st))
      else None)"

definition handleAddSubmit :: "(string \<Rightarrow> string) \<Rightarrow> add_form \<Rightarrow> add_form" where
  "handleAddSubmit lower st =
     (let trimmedText = js_trim (af_text st) in
      if trimmedText = [] then st
      else
        let highlighted = map_option (\<lambda>i. suggestions lower st ! i) (activeIndex lower st);
            target = (case highlighted of Some row \<Rightarrow> Some row | None \<Rightarrow> exact_match lower st) in
        case target of Some row \<Rightarrow> restore (it_id row) st | None \<Rightarrow> park_call (OnAdd trimmedText) st)"

definition settle_call :: "nat \<Rightarrow> bool \<Rightarrow> add_form \<Rightarrow> add_form" where
  "settle_call n ok st =
     (case map_of (af_tasks st) n of
        None \<Rightarrow> st
      | Some previousText \<Rightarrow>
          (let st = st\<lparr>af_tasks := AList.delete n (af_tasks st)\<rparr> in
           if ok then st else st\<lparr>af_text := previousText\<rparr>))"

datatype add_key = ArrowDown | ArrowUp | Escape | OtherKey

fun handleKeyDown :: "(string \<Rightarrow> string) \<Rightarrow> add_key \<Rightarrow> add_form \<Rightarrow> add_form" where
  "handleKeyDown lower k st =
     (let sugg = suggestions lower st; i = activeIndex lower st in
      if sugg = [] then st
      else case k of
          ArrowDown \<Rightarrow> st\<lparr>af_activeId :=
            Some (it_id (sugg ! (case i of None \<Rightarrow> 0 | Some n \<Rightarrow> (n + 1) mod length sugg)))\<rparr>
        | ArrowUp \<Rightarrow> st\<lparr>af_activeId :=
            Some (it_id (sugg ! (case i of None \<Rightarrow> length sugg - 1
                                 | Some n \<Rightarrow> if n = 0 then length sugg - 1 else n - 1)))\<rparr>
        | Escape \<Rightarrow> st\<lparr>af_dismissed := True, af_activeId := None\<rparr>
        | OtherKey \<Rightarrow> st)"

definition onChange :: "string \<Rightarrow> add_form \<Rightarrow> add_form" where
  "onChange value' st = st\<lparr>af_text := value', af_activeId := None, af_dismissed := False\<rparr>"

datatype add_event =
    Typed string | Pressed add_key | Submitted | Clicked string | Settled nat bool | PropsChange add_props

fun add_step :: "(string \<Rightarrow> string) \<Rightarrow> add_event \<Rightarrow> add_form \<Rightarrow> add_form" where
  "add_step lower (Typed v) st = onChange v st"
| "add_step lower (Pressed k) st = handleKeyDown lower k st"
| "add_step lower Submitted st = handleAddSubmit lower st"
| "add_step lower (Clicked i) st = restore i st"
| "add_step lower (Settled n ok) st = settle_call n ok st"
| "add_step lower (PropsChange p) st = st\<lparr>af_props := p\<rparr>"

section \<open>The exact match is shown first\<close>

lemma js_trim_ends: "js_trim s = [] \<or> (\<not> js_space (hd (js_trim s)) \<and> \<not> js_space (last (js_trim s)))"
proof -
  let ?t = "dropWhile js_space s"
  let ?r = "dropWhile js_space (rev ?t)"
  have r: "js_trim s = rev ?r" by (simp add: js_trim_def)
  have l: "?r = [] \<or> \<not> js_space (hd ?r)" using hd_dropWhile [of js_space "rev ?t"] by blast
  have h: "\<not> js_space (last ?r)" if "?r \<noteq> []"
  proof -
    have "?t \<noteq> []" using that by (cases ?t) auto
    then have "\<not> js_space (hd ?t)" using hd_dropWhile [of js_space s] by blast
    moreover have "last ?r = last (rev ?t)" using that by (metis last_appendR takeWhile_dropWhile_id)
    ultimately show ?thesis using \<open>?t \<noteq> []\<close> by (simp add: last_rev)
  qed
  show ?thesis using l h by (auto simp: r hd_rev last_rev)
qed

lemma js_trim_idem [simp]: "js_trim (js_trim s) = js_trim s"
proof (cases "js_trim s = []")
  case True
  show ?thesis unfolding True by (simp add: js_trim_def)
next
  case False
  have d: "dropWhile js_space xs = xs" if "xs \<noteq> []" "\<not> js_space (hd xs)" for xs
    using that by (cases xs) auto
  let ?s = "js_trim s"
  have "dropWhile js_space ?s = ?s" using js_trim_ends [of s] False by (auto intro: d)
  moreover have "dropWhile js_space (rev ?s) = rev ?s"
    using js_trim_ends [of s] False by (auto intro: d simp: hd_rev)
  ultimately show ?thesis by (simp add: js_trim_def [of ?s])
qed

lemma matches_trimmed [simp]: "matchesItemText lower a (js_trim b) = matchesItemText lower a b"
  by (simp add: matchesItemText_def)

lemma js_includes_self: "js_includes s s"
  by (cases s) auto

interpretation exactness: js_comparator "by_exactness lower query" for lower query
  by unfold_locales (auto simp: by_exactness_def split: if_splits)

lemma hd_js_sort:
  assumes "find (\<lambda>b. matchesItemText lower (it_text b) query) xs = Some x"
  shows "\<exists>ys. js_sort (by_exactness lower query) xs = x # ys"
proof -
  let ?c = "by_exactness lower query"
  let ?m = "\<lambda>b. matchesItemText lower (it_text b) query"
  have x: "?m x" "x \<in> set xs" using assms by (auto simp: find_Some_iff)
  have eq: "filter (\<lambda>b. ?c x b = 0) zs = filter ?m zs" for zs
    using x(1) by (auto simp: by_exactness_def intro!: filter_cong)
  have "filter ?m (js_sort ?c xs) = filter ?m xs"
    using exactness.js_sort_stable [of lower query x xs] by (simp add: eq)
  moreover have "\<exists>zs. filter ?m xs = x # zs"
    using assms by (induction xs) (auto split: if_splits)
  ultimately obtain zs where f: "filter ?m (js_sort ?c xs) = x # zs" by auto
  obtain y ys where s: "js_sort ?c xs = y # ys"
    using x(2) by (metis empty_iff empty_set list.exhaust set_js_sort)
  have "?m y"
  proof (rule ccontr)
    assume n: "\<not> ?m y"
    have "x \<in> set ys" using f s n x(2) by (metis filter.simps(2) filter_is_subset list.set_intros(1) subsetD)
    then have "?c y x \<le> 0" using exactness.js_sort_sorted [of lower query xs] by (simp add: s)
    then show False using n x(1) by (simp add: by_exactness_def)
  qed
  then show ?thesis using f s by simp
qed

section \<open>Enter\<close>

text \<open>
  What the box may call: a restore of a row it shows, the first one when none is highlighted, or an add of the text
  typed when no row of the pile has that text, unless the popup was dismissed or there is nothing to restore with.
\<close>

fun honest_call :: "(string \<Rightarrow> string) \<Rightarrow> add_form \<Rightarrow> add_call \<Rightarrow> bool" where
  "honest_call lower st (OnRestore i) \<longleftrightarrow>
     (case activeIndex lower st of
        Some n \<Rightarrow> n < length (suggestions lower st) \<and> i = it_id (suggestions lower st ! n) \<and> af_activeId st = Some i
      | None \<Rightarrow> suggestions lower st \<noteq> [] \<and> i = it_id (hd (suggestions lower st)))"
| "honest_call lower st (OnAdd t) \<longleftrightarrow>
     t = js_trim (af_text st) \<and> t \<noteq> [] \<and>
     (ap_onRestore (af_props st) \<and> \<not> af_dismissed st \<longrightarrow>
       \<not> list_ex (\<lambda>item. matchesItemText lower (it_text item) t) (ap_checkedItems (af_props st)))"

lemma find_in_filter: "find P xs = r \<Longrightarrow> (\<And>x. P x \<Longrightarrow> Q x) \<Longrightarrow> find P (filter Q xs) = r"
  by (induction xs) (auto split: if_splits)

lemma exact_is_first_suggestion:
  assumes "\<And>s. lower s = [] \<Longrightarrow> s = []" "js_trim (af_text st) \<noteq> []" "exact_match lower st = Some row"
  shows "\<exists>rest. suggestions lower st = row # rest"
proof -
  let ?q = "af_text st"
  let ?needle = "lower (js_trim ?q)"
  let ?xs = "filter (\<lambda>item. js_includes ?needle (lower (js_trim (it_text item)))) (ap_checkedItems (af_props st))"
  let ?limit = "if ap_compact (af_props st) then MAX_SUGGESTIONS_COMPACT else MAX_SUGGESTIONS"
  have f: "find (\<lambda>b. matchesItemText lower (it_text b) ?q) (ap_checkedItems (af_props st)) = Some row"
    and on: "ap_onRestore (af_props st)" "\<not> af_dismissed st"
    using assms(3) by (auto simp: exact_match_def split: if_splits)
  have "find (\<lambda>b. matchesItemText lower (it_text b) ?q) ?xs = Some row"
    using f find_in_filter [of "\<lambda>b. matchesItemText lower (it_text b) ?q"]
    by (metis js_includes_self matchesItemText_def)
  then obtain ys where "js_sort (by_exactness lower ?q) ?xs = row # ys" using hd_js_sort by blast
  moreover have "?needle \<noteq> []" using assms(1,2) by blast
  moreover have "?limit \<noteq> 0" by (simp add: MAX_SUGGESTIONS_def MAX_SUGGESTIONS_COMPACT_def)
  ultimately show ?thesis using on by (cases ?limit) (simp_all add: suggestions_def matchChecked_def Let_def)
qed

text \<open>
  Pressing Enter or the button makes no call for blank text and one call otherwise, and that call is honest: it
  restores only a row the popup shows, and adds only text no row of the pile has while the popup is in force.
\<close>

theorem enter_acts_on_what_is_shown:
  assumes "\<And>s. lower s = [] \<Longrightarrow> s = []"
  shows "if js_trim (af_text st) = [] then handleAddSubmit lower st = st
    else \<exists>c. af_calls (handleAddSubmit lower st) = af_calls st @ [c] \<and> honest_call lower st c \<and> af_text (handleAddSubmit lower st) = []"
proof (cases "js_trim (af_text st) = []")
  case True
  then show ?thesis by (simp add: handleAddSubmit_def)
next
  case False
  show ?thesis
  proof (cases "activeIndex lower st")
    case (Some n)
    then obtain a where a: "af_activeId st = Some a" "indexOf (map it_id (suggestions lower st)) a = Some n"
      by (auto simp: activeIndex_def split: option.splits if_splits)
    note i = indexOf_spec [OF a(2)]
    have "ap_onRestore (af_props st)" using i by (auto simp: suggestions_def split: if_splits)
    moreover have "a = it_id (suggestions lower st ! n)" using i by (auto simp: nth_map)
    ultimately show ?thesis using False Some a(1) i by (simp add: handleAddSubmit_def restore_def park_call_def Let_def)
  next
    case None
    show ?thesis
    proof (cases "exact_match lower st")
      case (Some row)
      then have "ap_onRestore (af_props st)" by (auto simp: exact_match_def split: if_splits)
      with exact_is_first_suggestion [OF assms False Some] show ?thesis
        using False None Some by (auto simp: handleAddSubmit_def restore_def park_call_def Let_def)
    next
      case none: None
      have "\<not> list_ex (\<lambda>item. matchesItemText lower (it_text item) (js_trim (af_text st))) (ap_checkedItems (af_props st))"
        if "ap_onRestore (af_props st)" "\<not> af_dismissed st"
        using none that by (auto simp: exact_match_def find_None_iff list_ex_iff)
      then show ?thesis using False None none by (simp add: handleAddSubmit_def park_call_def Let_def)
    qed
  qed
qed

definition sample_lower :: "string \<Rightarrow> string" where
  "sample_lower s = map js_lower_char s"

definition sample_box :: "string \<Rightarrow> add_form" where
  "sample_box typed = onChange typed (initial_add_form
     \<lparr>ap_checkedItems = [item_row ''oat milk'' True, item_row ''Milk'' True], ap_onRestore = True, ap_compact = False\<rparr>)"

theorem enter_acts_on_what_is_shown_witness:
  "\<exists>c. af_calls (handleAddSubmit sample_lower (sample_box '' milk'')) = [c] \<and>
     honest_call sample_lower (sample_box '' milk'') c"
proof -
  have "js_trim (af_text (sample_box '' milk'')) \<noteq> []" "af_calls (sample_box '' milk'') = []" by code_simp+
  with enter_acts_on_what_is_shown [of sample_lower "sample_box '' milk''"] show ?thesis
    by (auto simp: sample_lower_def)
qed

lemma typed_name_restores_the_exact_row:
  "af_calls (handleAddSubmit sample_lower (sample_box '' milk'')) = [OnRestore ''Milk'']"
  by code_simp

section \<open>The arrow keys\<close>

definition rows_named :: "add_form \<Rightarrow> bool" where
  "rows_named st \<longleftrightarrow> distinct (map it_id (ap_checkedItems (af_props st))) \<and>
     [] \<notin> it_id ` set (ap_checkedItems (af_props st))"

lemma suggestions_named:
  assumes "rows_named st"
  shows "distinct (map it_id (suggestions lower st)) \<and> [] \<notin> it_id ` set (suggestions lower st)"
proof -
  have "distinct (map it_id (take l (js_sort c (filter P (ap_checkedItems (af_props st)))))) \<and>
    [] \<notin> it_id ` set (take l (js_sort c (filter P (ap_checkedItems (af_props st)))))" for l c P
  proof -
    have "distinct (map it_id (js_sort c (filter P (ap_checkedItems (af_props st)))))"
      using assms by (simp add: sort_facts rows_named_def distinct_map_filter)
    then show ?thesis using assms by (auto simp: rows_named_def take_map [symmetric] distinct_take dest: in_set_takeD)
  qed
  moreover have "distinct (map it_id xs) \<and> [] \<notin> it_id ` set xs" if "xs = []" for xs :: "list_item list"
    using that by simp
  ultimately show ?thesis by (cases "ap_onRestore (af_props st) \<and> \<not> af_dismissed st")
    (simp_all only: suggestions_def matchChecked_def Let_def if_True if_False split: if_splits, auto)
qed

lemma suggestions_moved [simp]: "suggestions lower (st\<lparr>af_activeId := a\<rparr>) = suggestions lower st"
  by (simp add: suggestions_def)

lemma highlighted_index:
  assumes "rows_named st" "n < length (suggestions lower st)"
  shows "activeIndex lower (st\<lparr>af_activeId := Some (it_id (suggestions lower st ! n))\<rparr>) = Some n"
proof -
  have "it_id (suggestions lower st ! n) \<noteq> []"
    using suggestions_named [OF assms(1), of lower] assms(2) by (metis image_eqI nth_mem)
  moreover have "indexOf (map it_id (suggestions lower st)) (it_id (suggestions lower st ! n)) = Some n"
    using indexOf_nth [of "map it_id (suggestions lower st)" n] suggestions_named [OF assms(1), of lower] assms(2) by simp
  ultimately show ?thesis by (simp add: activeIndex_def)
qed

lemma down_once:
  assumes "rows_named st" "suggestions lower st \<noteq> []"
  shows "activeIndex lower (handleKeyDown lower ArrowDown st) =
    Some (case activeIndex lower st of None \<Rightarrow> 0 | Some i \<Rightarrow> (i + 1) mod length (suggestions lower st))"
  using assms highlighted_index [OF assms(1), of "case activeIndex lower st of None \<Rightarrow> 0
      | Some i \<Rightarrow> (i + 1) mod length (suggestions lower st)" lower]
  by (simp add: Let_def split: option.split)

lemma pressed_same [simp]: "k \<noteq> Escape \<Longrightarrow> suggestions lower (handleKeyDown lower k st) = suggestions lower st"
  by (cases k) (simp_all add: Let_def)

lemma pressed_named: "rows_named (handleKeyDown lower k st) = rows_named st"
  by (cases k) (simp_all add: Let_def rows_named_def)

text \<open>
  The arrow down key goes through the suggestions in the order shown and starts over after the last: after n + 1
  presses the highlight is on the n-th modulo their number, and arrow up takes the last press back.
\<close>

theorem arrows_walk_round:
  assumes "rows_named st" "suggestions lower st \<noteq> []" "activeIndex lower st = None"
  shows "activeIndex lower ((handleKeyDown lower ArrowDown ^^ Suc n) st) = Some (n mod length (suggestions lower st)) \<and>
    activeIndex lower (handleKeyDown lower ArrowUp ((handleKeyDown lower ArrowDown ^^ Suc (Suc n)) st)) =
      Some (n mod length (suggestions lower st))"
proof -
  let ?down = "handleKeyDown lower ArrowDown"
  let ?len = "length (suggestions lower st)"
  have same: "suggestions lower ((?down ^^ k) st) = suggestions lower st \<and> rows_named ((?down ^^ k) st)" for k
    using assms(1) by (induction k) (simp_all add: pressed_named del: handleKeyDown.simps)
  have walk: "activeIndex lower ((?down ^^ Suc k) st) = Some (k mod ?len)" for k
  proof (induction k)
    case 0
    then show ?case using down_once [OF assms(1,2)] assms(3) by simp
  next
    case (Suc k)
    have "activeIndex lower (?down ((?down ^^ Suc k) st)) = Some ((k mod ?len + 1) mod ?len)"
      using down_once [of "(?down ^^ Suc k) st" lower] same [of "Suc k"] assms(2) Suc
      by (simp del: handleKeyDown.simps funpow.simps)
    then show ?case by (simp add: mod_Suc_eq del: handleKeyDown.simps)
  qed
  have up: "activeIndex lower (handleKeyDown lower ArrowUp st') = Some (n mod ?len)"
    if i: "activeIndex lower st' = Some (Suc n mod ?len)" and s: "suggestions lower st' = suggestions lower st"
      and r: "rows_named st'" for st'
  proof -
    define j where "j = (if Suc n mod ?len = 0 then ?len - 1 else Suc n mod ?len - 1)"
    have j: "j = n mod ?len" unfolding j_def using assms(2) by (auto simp: mod_Suc)
    have l: "n mod ?len < ?len" using assms(2) by simp
    have "handleKeyDown lower ArrowUp st' = st'\<lparr>af_activeId := Some (it_id (suggestions lower st' ! (n mod ?len)))\<rparr>"
      using i assms(2) j by (simp add: s Let_def j_def)
    then show ?thesis using highlighted_index [OF r] l s by metis
  qed
  show ?thesis using walk [of n] up [OF walk [of "Suc n"]] same by blast
qed

theorem arrows_walk_round_witness:
  "activeIndex sample_lower ((handleKeyDown sample_lower ArrowDown ^^ Suc 2) (sample_box ''milk'')) = Some (2 mod 2)"
proof -
  have "rows_named (sample_box ''milk'')" "suggestions sample_lower (sample_box ''milk'') \<noteq> []"
    "activeIndex sample_lower (sample_box ''milk'') = None" "length (suggestions sample_lower (sample_box ''milk'')) = 2"
    by code_simp+
  with arrows_walk_round [of "sample_box ''milk''" sample_lower 2] show ?thesis by simp
qed

section \<open>A late failure\<close>

text \<open>
  The text a failed call puts back replaces whatever is in the box by then: what was typed while the call was out is
  lost, and the box goes back to the older text.
\<close>

theorem late_failure_overwrites_typing:
  "af_text (fold (add_step sample_lower) [Typed ''bread'', Submitted, Typed ''eggs'', Settled 0 False] (sample_box '''')) = ''bread''"
  by code_simp

end
