(* ===== verification/ListPage.thy ===== *)
theory ListPage
  imports AddItem
begin

text \<open>
  The rest of a list's page: the name edited in place (\<open>frontend/src/components/lists/EditableListName.tsx\<close>), a row
  with its text editor, date picker and delete button (\<open>components/lists/ListItemRow.tsx\<close>), and the handlers the page
  gives them (\<open>pages/ListDetailPage.tsx\<close>). A component is its React state and the handlers that change it; a call of
  a prop is an entry of its calls, an awaited call a number until its answer comes. A control acts only while it is
  drawn.

  The lemmas: no blank name is sent and a message is shown only for a blank draft; a row is deleted once per press of
  the delete button at most; the page sends only trimmed texts that change something. The traces show what a late
  answer does to an editor opened after it was asked.
\<close>

section \<open>The name edited in place\<close>

record name_editor =
  ne_name :: string
  ne_editing :: bool
  ne_draft :: string
  ne_error :: "string option"
  ne_calls :: "string list"
  ne_tasks :: "nat list"

definition initial_name_editor :: "string \<Rightarrow> name_editor" where
  "initial_name_editor name = \<lparr>ne_name = name, ne_editing = False, ne_draft = name, ne_error = None,
     ne_calls = [], ne_tasks = []\<rparr>"

definition startEditing :: "name_editor \<Rightarrow> name_editor" where
  "startEditing st = st\<lparr>ne_draft := ne_name st, ne_error := None, ne_editing := True\<rparr>"

definition cancelEditing :: "name_editor \<Rightarrow> name_editor" where
  "cancelEditing st = st\<lparr>ne_draft := ne_name st, ne_error := None, ne_editing := False\<rparr>"

text \<open>A call's number is its place among the calls.\<close>

definition submitEdit :: "name_editor \<Rightarrow> name_editor" where
  "submitEdit st =
     (if js_trim (ne_draft st) = [] then st\<lparr>ne_error := Some ''List name cannot be empty.''\<rparr>
      else st\<lparr>ne_error := None, ne_calls := ne_calls st @ [ne_draft st],
              ne_tasks := ne_tasks st @ [length (ne_calls st)]\<rparr>)"

definition renameAnswer :: "nat \<Rightarrow> bool \<Rightarrow> name_editor \<Rightarrow> name_editor" where
  "renameAnswer n ok st =
     (if n \<in> set (ne_tasks st)
      then (let st = st\<lparr>ne_tasks := removeAll n (ne_tasks st)\<rparr> in if ok then st\<lparr>ne_editing := False\<rparr> else st)
      else st)"

definition changeDraft :: "string \<Rightarrow> name_editor \<Rightarrow> name_editor" where
  "changeDraft v st = st\<lparr>ne_draft := v, ne_error := None\<rparr>"

datatype name_event =
    NameStart | NameCancel | NameTyped string | NameSubmit | NameAnswer nat bool | NameProp string

fun name_step :: "name_event \<Rightarrow> name_editor \<Rightarrow> name_editor" where
  "name_step NameStart st = (if ne_editing st then st else startEditing st)"
| "name_step NameCancel st = (if ne_editing st then cancelEditing st else st)"
| "name_step (NameTyped v) st = (if ne_editing st then changeDraft v st else st)"
| "name_step NameSubmit st = (if ne_editing st then submitEdit st else st)"
| "name_step (NameAnswer n ok) st = renameAnswer n ok st"
| "name_step (NameProp v) st = st\<lparr>ne_name := v\<rparr>"

definition name_ok :: "name_editor \<Rightarrow> bool" where
  "name_ok st \<longleftrightarrow> list_all (\<lambda>c. js_trim c \<noteq> []) (ne_calls st) \<and>
     (if ne_error st \<noteq> None then js_trim (ne_draft st) = [] else True) \<and>
     list_all (\<lambda>n. n < length (ne_calls st)) (ne_tasks st)"

lemma name_step_ok: "name_ok st \<Longrightarrow> name_ok (name_step e st)"
  by (cases e) (auto simp: name_ok_def startEditing_def cancelEditing_def changeDraft_def submitEdit_def
      renameAnswer_def Let_def list_all_iff less_Suc_eq)

interpretation name_runs: event_machine name_step name_ok
  by unfold_locales (rule name_step_ok)

text \<open>Whatever the user does: no blank name is handed to the page, and the message is there only for a blank draft.\<close>

theorem no_blank_name_is_sent:
  "name_ok (fold name_step es (initial_name_editor name))"
proof -
  have "name_ok (initial_name_editor name)" by (simp add: name_ok_def initial_name_editor_def)
  then show ?thesis by (rule name_runs.run_inv)
qed

text \<open>The answer to a rename closes the editor that is open, also one opened after the renamed one was cancelled.\<close>

theorem late_rename_closes_next_edit:
  "let st = fold name_step [NameStart, NameTyped ''Food'', NameSubmit, NameCancel, NameStart, NameTyped ''Dri'', NameAnswer 0 True]
       (initial_name_editor ''List'') in \<not> ne_editing st \<and> ne_draft st = ''Dri''"
  by code_simp

section \<open>A row\<close>

datatype row_call = OnToggle string bool | OnRename string string | OnSetDueDate string "string option" | OnDelete string

datatype row_wait = WaitRename | WaitDueDate

record row_editor =
  re_item :: list_item
  re_editing :: bool
  re_draft :: string
  re_confirmingDelete :: bool
  re_pickingDate :: bool
  re_calls :: "row_call list"
  re_tasks :: "(nat \<times> row_wait) list"

definition initial_row :: "list_item \<Rightarrow> row_editor" where
  "initial_row item = \<lparr>re_item = item, re_editing = False, re_draft = it_text item, re_confirmingDelete = False,
     re_pickingDate = False, re_calls = [], re_tasks = []\<rparr>"

definition row_startEditing :: "row_editor \<Rightarrow> row_editor" where
  "row_startEditing st = st\<lparr>re_confirmingDelete := False, re_draft := it_text (re_item st), re_editing := True\<rparr>"

definition row_cancelEditing :: "row_editor \<Rightarrow> row_editor" where
  "row_cancelEditing st = st\<lparr>re_draft := it_text (re_item st), re_editing := False\<rparr>"

definition row_awaits :: "row_wait \<Rightarrow> row_call \<Rightarrow> row_editor \<Rightarrow> row_editor" where
  "row_awaits k c st = st\<lparr>re_calls := re_calls st @ [c], re_tasks := re_tasks st @ [(length (re_calls st), k)]\<rparr>"

definition row_submitEdit :: "row_editor \<Rightarrow> row_editor" where
  "row_submitEdit st = row_awaits WaitRename (OnRename (it_id (re_item st)) (re_draft st)) st"

definition commitDueDate :: "string \<Rightarrow> row_editor \<Rightarrow> row_editor" where
  "commitDueDate value' st =
     row_awaits WaitDueDate (OnSetDueDate (it_id (re_item st)) (if value' = [] then None else Some value')) st"

definition rowAnswer :: "nat \<Rightarrow> bool \<Rightarrow> row_editor \<Rightarrow> row_editor" where
  "rowAnswer n ok st =
     (case map_of (re_tasks st) n of
        None \<Rightarrow> st
      | Some k \<Rightarrow>
          (let st = st\<lparr>re_tasks := AList.delete n (re_tasks st)\<rparr> in
           if ok then (case k of WaitRename \<Rightarrow> st\<lparr>re_editing := False\<rparr> | WaitDueDate \<Rightarrow> st\<lparr>re_pickingDate := False\<rparr>)
           else st))"

definition row_toggle :: "row_editor \<Rightarrow> row_editor" where
  "row_toggle st = st\<lparr>re_calls := re_calls st @ [OnToggle (it_id (re_item st)) (\<not> it_checked (re_item st))]\<rparr>"

definition row_confirmDelete :: "row_editor \<Rightarrow> row_editor" where
  "row_confirmDelete st = st\<lparr>re_confirmingDelete := False, re_calls := re_calls st @ [OnDelete (it_id (re_item st))]\<rparr>"

text \<open>Enter and losing the focus both submit the text; Escape and losing the focus both close the picker.\<close>

datatype row_event =
    RowToggle | RowEdit | RowTyped string | RowEnter | RowBlur | RowEscape
  | RowPick | RowPicked string | RowPickerLeft
  | RowDelete | RowConfirmDelete | RowCancelDelete | RowAnswer nat bool | RowProp list_item

fun row_step :: "row_event \<Rightarrow> row_editor \<Rightarrow> row_editor" where
  "row_step RowToggle st = row_toggle st"
| "row_step RowEdit st = (if re_confirmingDelete st then st else row_startEditing st)"
| "row_step (RowTyped v) st = (if re_editing st then st\<lparr>re_draft := v\<rparr> else st)"
| "row_step RowEnter st = (if re_editing st then row_submitEdit st else st)"
| "row_step RowBlur st = (if re_editing st then row_submitEdit st else st)"
| "row_step RowEscape st = (if re_editing st then row_cancelEditing st else st)"
| "row_step RowPick st = st\<lparr>re_pickingDate := True\<rparr>"
| "row_step (RowPicked v) st = (if re_pickingDate st then commitDueDate v st else st)"
| "row_step RowPickerLeft st = st\<lparr>re_pickingDate := False\<rparr>"
| "row_step RowDelete st = (if re_confirmingDelete st then st else st\<lparr>re_confirmingDelete := True\<rparr>)"
| "row_step RowConfirmDelete st = (if re_confirmingDelete st then row_confirmDelete st else st)"
| "row_step RowCancelDelete st = st\<lparr>re_confirmingDelete := False\<rparr>"
| "row_step (RowAnswer n ok) st = rowAnswer n ok st"
| "row_step (RowProp item) st = st\<lparr>re_item := item\<rparr>"

text \<open>Overdue is asked of outstanding items only; days are compared as the texts they are.\<close>

definition due_is_overdue :: "list_item \<Rightarrow> string \<Rightarrow> bool" where
  "due_is_overdue item today \<longleftrightarrow>
     (case it_due_date item of Some due \<Rightarrow> due \<noteq> [] \<and> \<not> it_checked item \<and> str_less due today | None \<Rightarrow> False)"

definition deletes :: "row_call list \<Rightarrow> nat" where
  "deletes cs = length (filter (\<lambda>c. case c of OnDelete i \<Rightarrow> True | _ \<Rightarrow> False) cs)"

definition presses :: "row_event list \<Rightarrow> nat" where
  "presses es = length (filter (\<lambda>e. e = RowDelete) es)"

lemma row_step_deletes:
  "deletes (re_calls (row_step e st)) + of_bool (re_confirmingDelete (row_step e st)) \<le>
     deletes (re_calls st) + of_bool (re_confirmingDelete st) + presses [e]"
  by (cases e) (auto simp: deletes_def presses_def row_toggle_def row_startEditing_def row_submitEdit_def
      row_cancelEditing_def commitDueDate_def row_confirmDelete_def rowAnswer_def row_awaits_def Let_def
      split: option.split row_wait.split)

text \<open>A row is deleted at most once per press of its delete button, whatever else happens in between.\<close>

theorem delete_asks_first:
  "deletes (re_calls (fold row_step es (initial_row item))) \<le> presses es"
proof -
  have "deletes (re_calls (fold row_step es st)) \<le> deletes (re_calls st) + of_bool (re_confirmingDelete st) + presses es" for st
  proof (induction es arbitrary: st)
    case (Cons e es)
    from Cons [of "row_step e st"] row_step_deletes [of e st] show ?case
      by (auto simp: presses_def)
  qed (simp add: presses_def)
  from this [of "initial_row item"] show ?thesis by (simp add: initial_row_def deletes_def)
qed

text \<open>Leaving the field after Enter, before the answer, submits the same text once more.\<close>

theorem enter_then_blur_renames_twice:
  "re_calls (fold row_step [RowEdit, RowTyped ''tea'', RowEnter, RowBlur] (initial_row (item_row ''x'' False))) =
     [OnRename ''x'' ''tea'', OnRename ''x'' ''tea'']"
  by code_simp

section \<open>The page's handlers\<close>

datatype page_call =
    SendAdd string | SendItemUpdate string "(string \<times> json) list" | SendName string | SendDelete string | PageToast string

definition page_addItem :: "string \<Rightarrow> page_call list" where
  "page_addItem text' = (let trimmedText = js_trim text' in if trimmedText = [] then [] else [SendAdd trimmedText])"

definition page_restoreItem :: "string \<Rightarrow> page_call list" where
  "page_restoreItem itemId = [SendItemUpdate itemId [(''checked'', JBool False)]]"

definition submitListNameEdit :: "list_detail option \<Rightarrow> string \<Rightarrow> page_call list" where
  "submitListNameEdit detail name =
     (case detail of None \<Rightarrow> []
      | Some d \<Rightarrow>
          (let trimmedName = js_trim name in
           if trimmedName = [] \<or> trimmedName = l_name d then [] else [SendName trimmedName]))"

definition handleRenameItem :: "list_detail option \<Rightarrow> string \<Rightarrow> string \<Rightarrow> page_call list" where
  "handleRenameItem detail itemId text' =
     (let trimmedText = js_trim text';
          currentText = Option.bind detail (\<lambda>d. map_option it_text (find (\<lambda>item. it_id item = itemId) (l_items d))) in
      if trimmedText = [] then [PageToast ''Item name cannot be empty.'']
      else case currentText of
          None \<Rightarrow> []
        | Some c \<Rightarrow> if c = [] \<or> trimmedText = c then [] else [SendItemUpdate itemId [(''text'', JStr trimmedText)]])"

definition handleToggleItem :: "string \<Rightarrow> bool \<Rightarrow> page_call list" where
  "handleToggleItem itemId checked = [SendItemUpdate itemId [(''checked'', JBool checked)]]"

definition handleSetDueDate :: "string \<Rightarrow> string option \<Rightarrow> page_call list" where
  "handleSetDueDate itemId dueDate =
     [SendItemUpdate itemId [(''due_date'', case dueDate of None \<Rightarrow> JNull | Some v \<Rightarrow> JStr v)]]"

text \<open>What the page makes of a row's call.\<close>

fun page_handles :: "list_detail option \<Rightarrow> row_call \<Rightarrow> page_call list" where
  "page_handles detail (OnToggle i b) = handleToggleItem i b"
| "page_handles detail (OnRename i t) = handleRenameItem detail i t"
| "page_handles detail (OnSetDueDate i d) = handleSetDueDate i d"
| "page_handles detail (OnDelete i) = [SendDelete i]"

text \<open>Fields the server takes: a text that is not blank and differs from the row's.\<close>

fun page_call_ok :: "list_detail \<Rightarrow> page_call \<Rightarrow> bool" where
  "page_call_ok d (SendAdd t) \<longleftrightarrow> t \<noteq> [] \<and> js_trim t = t"
| "page_call_ok d (SendName t) \<longleftrightarrow> t \<noteq> [] \<and> js_trim t = t \<and> t \<noteq> l_name d"
| "page_call_ok d (SendItemUpdate i patch) \<longleftrightarrow>
     (case map_of patch ''text'' of
        Some (JStr t) \<Rightarrow> t \<noteq> [] \<and> js_trim t = t \<and> list_ex (\<lambda>item. it_id item = i \<and> it_text item \<noteq> t) (l_items d)
      | _ \<Rightarrow> True)"
| "page_call_ok d _ \<longleftrightarrow> True"

text \<open>
  Every request a text field of the page leads to carries a trimmed, nonblank text that changes what it is for, and
  a name, an add or a row's call leads to at most one request.
\<close>

theorem page_sends_real_changes:
  "list_all (page_call_ok d) (page_addItem t @ submitListNameEdit (Some d) t @ page_handles (Some d) c) \<and>
   length (page_addItem t) \<le> 1 \<and> length (submitListNameEdit (Some d) t) \<le> 1 \<and> length (page_handles (Some d) c) \<le> 1"
  by (cases c) (auto simp: page_addItem_def submitListNameEdit_def handleRenameItem_def handleToggleItem_def
      handleSetDueDate_def Let_def find_Some_iff list_ex_iff split: option.splits)

end
