(* ===== verification/ApiCalls.thy ===== *)
theory ApiCalls
  imports Contract
begin

text \<open>
  What each wrapper of the client sends and what it makes of the answer (\<open>frontend/src/api/http.ts\<close>, \<open>lists.ts\<close>,
  \<open>calendar.ts\<close>, \<open>dashboards.ts\<close>, \<open>invites.ts\<close>, \<open>notifications.ts\<close>, \<open>auth.ts\<close>). A wrapper is a pair: the request and
  the reading of the answer; the generated schemas are parameters, and so are the two encoders of the browser and
  the text of the error it throws for a property of \<open>null\<close>. Headers and cookies are those of the transport.

  The lemmas classify the readings: a refusal never becomes data and its status reaches the caller, a body that does
  not parse never does either, and what an endpoint needs beyond that (the conflict of a layout save, the two 401s
  that are answers) is stated wrapper by wrapper.
\<close>

section \<open>Answers\<close>

record http_answer =
  ans_status :: int
  ans_body :: "json option"

text \<open>\<open>ApiError\<close> with its detail, or the \<open>TypeError\<close> of reading a property of \<open>null\<close>.\<close>

record api_error =
  ae_message :: string
  ae_status :: int
  ae_detail :: "string option"

datatype api_failure = ApiFailure api_error | NullRead string

type_synonym 'a api_reply = "api_failure + 'a"

type_synonym 'a schema = "json option \<Rightarrow> 'a option"

record api_host =
  ah_encode :: "string \<Rightarrow> string"
  ah_query :: "(string \<times> string) list \<Rightarrow> string"
  ah_null_read :: string

definition res_ok :: "http_answer \<Rightarrow> bool" where
  "res_ok ans \<longleftrightarrow> 200 \<le> ans_status ans \<and> ans_status ans \<le> 299"

text \<open>\<open>data.detail\<close> of the parsed body, an empty object when it does not parse; \<open>None\<close> outside is the throw.\<close>

definition error_detail :: "http_answer \<Rightarrow> json option option" where
  "error_detail ans =
     (case ans_body ans of
        Some JNull \<Rightarrow> None
      | Some (JObj fs) \<Rightarrow> Some (map_of fs ''detail'')
      | _ \<Rightarrow> Some None)"

definition readError :: "api_host \<Rightarrow> http_answer \<Rightarrow> string \<Rightarrow> api_failure" where
  "readError h ans fallback =
     (case error_detail ans of
        None \<Rightarrow> NullRead (ah_null_read h)
      | Some d \<Rightarrow>
          (let detail = (case d of Some (JStr s) \<Rightarrow> Some s | _ \<Rightarrow> None) in
           ApiFailure \<lparr>ae_message = (case detail of Some s \<Rightarrow> s | None \<Rightarrow> fallback),
             ae_status = ans_status ans, ae_detail = detail\<rparr>))"

definition parseJson :: "http_answer \<Rightarrow> 'a schema \<Rightarrow> 'a api_reply" where
  "parseJson ans schema =
     (case schema (ans_body ans) of
        None \<Rightarrow> Inl (ApiFailure \<lparr>ae_message = ''Received an unexpected response from the server.'',
          ae_status = ans_status ans, ae_detail = None\<rparr>)
      | Some v \<Rightarrow> Inr v)"

section \<open>Requests\<close>

record api_request =
  rq_method :: string
  rq_url :: string
  rq_body :: "json option"

record 'a api_fn =
  fn_request :: api_request
  fn_answer :: "http_answer \<Rightarrow> 'a api_reply"

definition fetch_get :: "string \<Rightarrow> api_request" where
  "fetch_get url = \<lparr>rq_method = ''GET'', rq_url = url, rq_body = None\<rparr>"

definition fetch_send :: "string \<Rightarrow> string \<Rightarrow> json option \<Rightarrow> api_request" where
  "fetch_send method url body = \<lparr>rq_method = method, rq_url = url, rq_body = body\<rparr>"

text \<open>The two endings of nearly every wrapper: \<open>parseJson\<close>, or nothing, behind the test of \<open>res.ok\<close>.\<close>

definition answers_json :: "api_host \<Rightarrow> string \<Rightarrow> 'a schema \<Rightarrow> http_answer \<Rightarrow> 'a api_reply" where
  "answers_json h fallback schema ans = (if \<not> res_ok ans then Inl (readError h ans fallback) else parseJson ans schema)"

definition answers_void :: "api_host \<Rightarrow> string \<Rightarrow> http_answer \<Rightarrow> unit api_reply" where
  "answers_void h fallback ans = (if \<not> res_ok ans then Inl (readError h ans fallback) else Inr ())"

definition requestVoid :: "api_host \<Rightarrow> string \<Rightarrow> string \<Rightarrow> json option \<Rightarrow> string \<Rightarrow> unit api_fn" where
  "requestVoid h path method body fallback =
     \<lparr>fn_request = fetch_send method path body, fn_answer = answers_void h fallback\<rparr>"

definition query_suffix :: "api_host \<Rightarrow> (string \<times> string) list \<Rightarrow> string" where
  "query_suffix h ps = (if ps = [] then [] else ''?'' @ ah_query h ps)"

abbreviation optional_param :: "string \<Rightarrow> string option \<Rightarrow> (string \<times> string) list" where
  "optional_param k v \<equiv> (case v of Some s \<Rightarrow> if s = [] then [] else [(k, s)] | None \<Rightarrow> [])"

text \<open>A field that is \<open>undefined\<close> is not part of \<open>JSON.stringify\<close>.\<close>

abbreviation optional_field :: "string \<Rightarrow> json option \<Rightarrow> json_obj" where
  "optional_field k v \<equiv> (case v of Some j \<Rightarrow> [(k, j)] | None \<Rightarrow> [])"

section \<open>Lists\<close>

definition apiGetLists :: "api_host \<Rightarrow> 'a schema \<Rightarrow> string option \<Rightarrow> 'a api_fn" where
  "apiGetLists h schema dashboardId =
     \<lparr>fn_request = fetch_get (''/api/lists'' @ query_suffix h (optional_param ''dashboard_id'' dashboardId)),
      fn_answer = answers_json h ''Failed to load lists'' schema\<rparr>"

definition apiGetListDetails :: "api_host \<Rightarrow> 'a schema \<Rightarrow> string \<Rightarrow> 'a api_fn" where
  "apiGetListDetails h schema dashboardId =
     \<lparr>fn_request = fetch_get (''/api/lists/details?dashboard_id='' @ dashboardId),
      fn_answer = answers_json h ''Failed to load lists'' schema\<rparr>"

definition apiGetList :: "api_host \<Rightarrow> 'a schema \<Rightarrow> string \<Rightarrow> 'a api_fn" where
  "apiGetList h schema i =
     \<lparr>fn_request = fetch_get (''/api/lists/'' @ i), fn_answer = answers_json h ''List not found'' schema\<rparr>"

definition apiCreateList :: "api_host \<Rightarrow> 'a schema \<Rightarrow> string \<Rightarrow> string \<Rightarrow> string \<Rightarrow> 'a api_fn" where
  "apiCreateList h schema name list_type dashboard_id =
     \<lparr>fn_request = fetch_send ''POST'' ''/api/lists''
        (Some (JObj [(''name'', JStr name), (''list_type'', JStr list_type), (''dashboard_id'', JStr dashboard_id)])),
      fn_answer = answers_json h ''Failed to create list'' schema\<rparr>"

definition apiUpdateList :: "api_host \<Rightarrow> 'a schema \<Rightarrow> string \<Rightarrow> string option \<Rightarrow> 'a api_fn" where
  "apiUpdateList h schema i name =
     \<lparr>fn_request = fetch_send ''PATCH'' (''/api/lists/'' @ i) (Some (JObj (optional_field ''name'' (map_option JStr name)))),
      fn_answer = answers_json h ''Failed to update list'' schema\<rparr>"

definition apiDeleteList :: "api_host \<Rightarrow> string \<Rightarrow> unit api_fn" where
  "apiDeleteList h i = requestVoid h (''/api/lists/'' @ i) ''DELETE'' None ''Failed to delete list''"

definition apiGetListTrash :: "api_host \<Rightarrow> 'a schema \<Rightarrow> string \<Rightarrow> 'a api_fn" where
  "apiGetListTrash h schema dashboardId =
     \<lparr>fn_request = fetch_get (''/api/lists/trash?dashboard_id='' @ dashboardId),
      fn_answer = answers_json h ''Failed to load trashed lists'' schema\<rparr>"

definition apiRestoreList :: "api_host \<Rightarrow> 'a schema \<Rightarrow> string \<Rightarrow> 'a api_fn" where
  "apiRestoreList h schema i =
     \<lparr>fn_request = fetch_send ''POST'' (''/api/lists/'' @ i @ ''/restore'') None,
      fn_answer = answers_json h ''Failed to restore list'' schema\<rparr>"

definition apiPurgeList :: "api_host \<Rightarrow> string \<Rightarrow> unit api_fn" where
  "apiPurgeList h i =
     \<lparr>fn_request = fetch_send ''DELETE'' (''/api/lists/'' @ i @ ''/trash'') None,
      fn_answer = answers_void h ''Failed to permanently delete list''\<rparr>"

definition apiCreateItem :: "api_host \<Rightarrow> 'a schema \<Rightarrow> string \<Rightarrow> string \<Rightarrow> 'a api_fn" where
  "apiCreateItem h schema listId text' =
     \<lparr>fn_request = fetch_send ''POST'' (''/api/lists/'' @ listId @ ''/items'') (Some (JObj [(''text'', JStr text')])),
      fn_answer = answers_json h ''Failed to add item'' schema\<rparr>"

definition apiUpdateItem :: "api_host \<Rightarrow> 'a schema \<Rightarrow> string \<Rightarrow> string \<Rightarrow> json_obj \<Rightarrow> 'a api_fn" where
  "apiUpdateItem h schema listId itemId body =
     \<lparr>fn_request = fetch_send ''PATCH'' (''/api/lists/'' @ listId @ ''/items/'' @ itemId) (Some (JObj body)),
      fn_answer = answers_json h ''Failed to update item'' schema\<rparr>"

definition apiDeleteItem :: "api_host \<Rightarrow> string \<Rightarrow> string \<Rightarrow> unit api_fn" where
  "apiDeleteItem h listId itemId =
     requestVoid h (''/api/lists/'' @ listId @ ''/items/'' @ itemId) ''DELETE'' None ''Failed to delete item''"

definition apiReorderItems :: "api_host \<Rightarrow> string \<Rightarrow> string list \<Rightarrow> unit api_fn" where
  "apiReorderItems h listId itemIds =
     requestVoid h (''/api/lists/'' @ listId @ ''/items/order'') ''PUT''
       (Some (JObj [(''item_ids'', JArr (map JStr itemIds))])) ''Failed to reorder items''"

definition apiReorderLists :: "api_host \<Rightarrow> string \<Rightarrow> string list \<Rightarrow> unit api_fn" where
  "apiReorderLists h dashboardId listIds =
     requestVoid h ''/api/lists/order'' ''PUT''
       (Some (JObj [(''dashboard_id'', JStr dashboardId), (''list_ids'', JArr (map JStr listIds))]))
       ''Failed to reorder lists''"

definition apiGetListShares :: "api_host \<Rightarrow> 'a schema \<Rightarrow> string \<Rightarrow> 'a api_fn" where
  "apiGetListShares h schema listId =
     \<lparr>fn_request = fetch_get (''/api/lists/'' @ listId @ ''/shares''),
      fn_answer = answers_json h ''Failed to load list shares'' schema\<rparr>"

definition apiAddListShare :: "api_host \<Rightarrow> 'a schema \<Rightarrow> string \<Rightarrow> json \<Rightarrow> 'a api_fn" where
  "apiAddListShare h schema listId body =
     \<lparr>fn_request = fetch_send ''POST'' (''/api/lists/'' @ listId @ ''/shares'') (Some body),
      fn_answer = answers_json h ''Failed to add list share'' schema\<rparr>"

definition apiUpdateListShare :: "api_host \<Rightarrow> 'a schema \<Rightarrow> string \<Rightarrow> string \<Rightarrow> json \<Rightarrow> 'a api_fn" where
  "apiUpdateListShare h schema listId shareId body =
     \<lparr>fn_request = fetch_send ''PATCH'' (''/api/lists/'' @ listId @ ''/shares/'' @ shareId) (Some body),
      fn_answer = answers_json h ''Failed to update list share'' schema\<rparr>"

definition apiRemoveListShare :: "api_host \<Rightarrow> string \<Rightarrow> string \<Rightarrow> unit api_fn" where
  "apiRemoveListShare h listId shareId =
     \<lparr>fn_request = fetch_send ''DELETE'' (''/api/lists/'' @ listId @ ''/shares/'' @ shareId) None,
      fn_answer = answers_void h ''Failed to remove list share''\<rparr>"

section \<open>Calendar\<close>

definition occurrence_query :: "string \<Rightarrow> string \<Rightarrow> string option \<Rightarrow> (string \<times> string) list" where
  "occurrence_query windowStart windowEnd dashboardId =
     [(''window_start'', windowStart), (''window_end'', windowEnd)] @ optional_param ''dashboard_id'' dashboardId"

definition apiGetOccurrences :: "api_host \<Rightarrow> 'a schema \<Rightarrow> string \<Rightarrow> string \<Rightarrow> string option \<Rightarrow> 'a api_fn" where
  "apiGetOccurrences h schema windowStart windowEnd dashboardId =
     \<lparr>fn_request = fetch_get (''/api/calendar/events?'' @ ah_query h (occurrence_query windowStart windowEnd dashboardId)),
      fn_answer = answers_json h ''Failed to load calendar events'' schema\<rparr>"

definition apiCreateEvent :: "api_host \<Rightarrow> 'a schema \<Rightarrow> json \<Rightarrow> 'a api_fn" where
  "apiCreateEvent h schema input' =
     \<lparr>fn_request = fetch_send ''POST'' ''/api/calendar/events'' (Some input'),
      fn_answer = answers_json h ''Failed to create event'' schema\<rparr>"

definition apiGetEvent :: "api_host \<Rightarrow> 'a schema \<Rightarrow> string \<Rightarrow> 'a api_fn" where
  "apiGetEvent h schema eventId =
     \<lparr>fn_request = fetch_get (''/api/calendar/events/'' @ eventId),
      fn_answer = answers_json h ''Failed to load event'' schema\<rparr>"

definition apiUpdateEvent :: "api_host \<Rightarrow> 'a schema \<Rightarrow> string \<Rightarrow> json \<Rightarrow> 'a api_fn" where
  "apiUpdateEvent h schema eventId input' =
     \<lparr>fn_request = fetch_send ''PATCH'' (''/api/calendar/events/'' @ eventId) (Some input'),
      fn_answer = answers_json h ''Failed to update event'' schema\<rparr>"

definition apiDeleteEvent :: "api_host \<Rightarrow> string \<Rightarrow> unit api_fn" where
  "apiDeleteEvent h eventId =
     \<lparr>fn_request = fetch_send ''DELETE'' (''/api/calendar/events/'' @ eventId) None,
      fn_answer = answers_void h ''Failed to delete event''\<rparr>"

definition apiGetEventTrash :: "api_host \<Rightarrow> 'a schema \<Rightarrow> string option \<Rightarrow> (string \<times> string) option \<Rightarrow> 'a api_fn" where
  "apiGetEventTrash h schema dashboardId cursor =
     (let params = optional_param ''dashboard_id'' dashboardId @
        (case cursor of Some (deleted_at, i) \<Rightarrow> [(''before'', deleted_at), (''before_id'', i)] | None \<Rightarrow> []) in
      \<lparr>fn_request = fetch_get (''/api/calendar/events/trash'' @ query_suffix h params),
       fn_answer = answers_json h ''Failed to load trashed events'' schema\<rparr>)"

definition apiPurgeEvent :: "api_host \<Rightarrow> string \<Rightarrow> unit api_fn" where
  "apiPurgeEvent h eventId =
     \<lparr>fn_request = fetch_send ''DELETE'' (''/api/calendar/events/'' @ eventId @ ''/trash'') None,
      fn_answer = answers_void h ''Failed to permanently delete event''\<rparr>"

definition apiRestoreEvent :: "api_host \<Rightarrow> 'a schema \<Rightarrow> string \<Rightarrow> 'a api_fn" where
  "apiRestoreEvent h schema eventId =
     \<lparr>fn_request = fetch_send ''POST'' (''/api/calendar/events/'' @ eventId @ ''/restore'') None,
      fn_answer = answers_json h ''Failed to restore event'' schema\<rparr>"

definition apiGetEventShares :: "api_host \<Rightarrow> 'a schema \<Rightarrow> string \<Rightarrow> 'a api_fn" where
  "apiGetEventShares h schema eventId =
     \<lparr>fn_request = fetch_get (''/api/calendar/events/'' @ eventId @ ''/shares''),
      fn_answer = answers_json h ''Failed to load event shares'' schema\<rparr>"

definition apiAddEventShare :: "api_host \<Rightarrow> 'a schema \<Rightarrow> string \<Rightarrow> json \<Rightarrow> 'a api_fn" where
  "apiAddEventShare h schema eventId body =
     \<lparr>fn_request = fetch_send ''POST'' (''/api/calendar/events/'' @ eventId @ ''/shares'') (Some body),
      fn_answer = answers_json h ''Failed to add event share'' schema\<rparr>"

definition apiUpdateEventShare :: "api_host \<Rightarrow> 'a schema \<Rightarrow> string \<Rightarrow> string \<Rightarrow> json \<Rightarrow> 'a api_fn" where
  "apiUpdateEventShare h schema eventId shareId body =
     \<lparr>fn_request = fetch_send ''PATCH'' (''/api/calendar/events/'' @ eventId @ ''/shares/'' @ shareId) (Some body),
      fn_answer = answers_json h ''Failed to update event share'' schema\<rparr>"

definition apiRemoveEventShare :: "api_host \<Rightarrow> string \<Rightarrow> string \<Rightarrow> unit api_fn" where
  "apiRemoveEventShare h eventId shareId =
     \<lparr>fn_request = fetch_send ''DELETE'' (''/api/calendar/events/'' @ eventId @ ''/shares/'' @ shareId) None,
      fn_answer = answers_void h ''Failed to remove event share''\<rparr>"

section \<open>Dashboards\<close>

definition apiListDashboards :: "api_host \<Rightarrow> 'a schema \<Rightarrow> 'a api_fn" where
  "apiListDashboards h schema =
     \<lparr>fn_request = fetch_get ''/api/dashboards'', fn_answer = answers_json h ''Failed to load dashboards'' schema\<rparr>"

definition apiListDashboardMembers :: "api_host \<Rightarrow> 'a schema \<Rightarrow> string \<Rightarrow> 'a api_fn" where
  "apiListDashboardMembers h schema dashboardId =
     \<lparr>fn_request = fetch_get (''/api/dashboards/'' @ dashboardId @ ''/members''),
      fn_answer = answers_json h ''Failed to load members'' schema\<rparr>"

definition apiGetDashboard :: "api_host \<Rightarrow> 'a schema \<Rightarrow> string \<Rightarrow> 'a api_fn" where
  "apiGetDashboard h schema i =
     \<lparr>fn_request = fetch_get (''/api/dashboards/'' @ i), fn_answer = answers_json h ''Failed to load dashboard'' schema\<rparr>"

definition apiCreateDashboard :: "api_host \<Rightarrow> 'a schema \<Rightarrow> string \<Rightarrow> 'a api_fn" where
  "apiCreateDashboard h schema name =
     \<lparr>fn_request = fetch_send ''POST'' ''/api/dashboards'' (Some (JObj [(''name'', JStr name)])),
      fn_answer = answers_json h ''Failed to create dashboard'' schema\<rparr>"

definition apiUpdateDashboardMeta :: "api_host \<Rightarrow> 'a schema \<Rightarrow> string \<Rightarrow> string option \<Rightarrow> 'a api_fn" where
  "apiUpdateDashboardMeta h schema i name =
     \<lparr>fn_request = fetch_send ''PATCH'' (''/api/dashboards/'' @ i) (Some (JObj (optional_field ''name'' (map_option JStr name)))),
      fn_answer = answers_json h ''Failed to update dashboard'' schema\<rparr>"

definition apiDeleteDashboard :: "api_host \<Rightarrow> string \<Rightarrow> unit api_fn" where
  "apiDeleteDashboard h i =
     \<lparr>fn_request = fetch_send ''DELETE'' (''/api/dashboards/'' @ i) None,
      fn_answer = answers_void h ''Failed to delete dashboard''\<rparr>"

definition apiLeaveDashboard :: "api_host \<Rightarrow> string \<Rightarrow> unit api_fn" where
  "apiLeaveDashboard h i =
     \<lparr>fn_request = fetch_send ''DELETE'' (''/api/dashboards/'' @ i @ ''/membership'') None,
      fn_answer = answers_void h ''Failed to leave dashboard''\<rparr>"

definition apiGetTrash :: "api_host \<Rightarrow> 'a schema \<Rightarrow> 'a api_fn" where
  "apiGetTrash h schema =
     \<lparr>fn_request = fetch_get ''/api/dashboards/trash'', fn_answer = answers_json h ''Failed to load trash'' schema\<rparr>"

definition apiRestoreDashboard :: "api_host \<Rightarrow> 'a schema \<Rightarrow> string \<Rightarrow> 'a api_fn" where
  "apiRestoreDashboard h schema i =
     \<lparr>fn_request = fetch_send ''POST'' (''/api/dashboards/'' @ i @ ''/restore'') None,
      fn_answer = answers_json h ''Failed to restore dashboard'' schema\<rparr>"

definition apiPurgeDashboard :: "api_host \<Rightarrow> string \<Rightarrow> unit api_fn" where
  "apiPurgeDashboard h i =
     \<lparr>fn_request = fetch_send ''DELETE'' (''/api/dashboards/'' @ i @ ''/trash'') None,
      fn_answer = answers_void h ''Failed to permanently delete dashboard''\<rparr>"

text \<open>A 409 is an answer of its own, with whatever its body holds as the detail.\<close>

datatype 'a layout_result = SavedLayout 'a | LayoutConflict "json option"

definition layout_json :: "layout_item list \<Rightarrow> json" where
  "layout_json layout = JArr (map (\<lambda>it. JObj [(''i'', JStr (li_i it)), (''x'', JNum (li_x it)), (''y'', JNum (li_y it)),
     (''w'', JNum (li_w it)), (''h'', JNum (li_h it))]) layout)"

definition gesture_json :: "layout_gesture \<Rightarrow> json" where
  "gesture_json g = JObj [(''action'', JStr (case g_action g of Moved \<Rightarrow> ''moved'' | Resized \<Rightarrow> ''resized'')),
     (''widget_id'', JStr (g_widget_id g))]"

definition apiUpdateLayout ::
  "api_host \<Rightarrow> 'a schema \<Rightarrow> string \<Rightarrow> layout_item list \<Rightarrow> int \<Rightarrow> layout_gesture option \<Rightarrow> 'a layout_result api_fn" where
  "apiUpdateLayout h schema dashboardId layout version gesture =
     \<lparr>fn_request = fetch_send ''PUT'' (''/api/dashboards/'' @ dashboardId @ ''/layout'')
        (Some (JObj ([(''layout'', layout_json layout), (''version'', JNum version)] @
          optional_field ''gesture'' (map_option gesture_json gesture)))),
      fn_answer = (\<lambda>ans.
        if ans_status ans = 409 then
          (case error_detail ans of None \<Rightarrow> Inl (NullRead (ah_null_read h)) | Some d \<Rightarrow> Inr (LayoutConflict d))
        else map_sum id SavedLayout (answers_json h ''Failed to save layout'' schema ans))\<rparr>"

definition apiAddWidget :: "api_host \<Rightarrow> 'a schema \<Rightarrow> string \<Rightarrow> json \<Rightarrow> 'a api_fn" where
  "apiAddWidget h schema dashboardId widget =
     \<lparr>fn_request = fetch_send ''POST'' (''/api/dashboards/'' @ dashboardId @ ''/widgets'') (Some widget),
      fn_answer = answers_json h ''Failed to add widget'' schema\<rparr>"

definition apiUpdateWidget :: "api_host \<Rightarrow> 'a schema \<Rightarrow> string \<Rightarrow> string \<Rightarrow> json_obj \<Rightarrow> 'a api_fn" where
  "apiUpdateWidget h schema dashboardId widgetId config =
     \<lparr>fn_request = fetch_send ''PATCH'' (''/api/dashboards/'' @ dashboardId @ ''/widgets/'' @ widgetId)
        (Some (JObj [(''config'', JObj config)])),
      fn_answer = answers_json h ''Failed to update widget'' schema\<rparr>"

definition apiRemoveWidget :: "api_host \<Rightarrow> 'a schema \<Rightarrow> string \<Rightarrow> string \<Rightarrow> 'a api_fn" where
  "apiRemoveWidget h schema dashboardId widgetId =
     \<lparr>fn_request = fetch_send ''DELETE'' (''/api/dashboards/'' @ dashboardId @ ''/widgets/'' @ widgetId) None,
      fn_answer = answers_json h ''Failed to remove widget'' schema\<rparr>"

definition apiGetDashboardShares :: "api_host \<Rightarrow> 'a schema \<Rightarrow> string \<Rightarrow> 'a api_fn" where
  "apiGetDashboardShares h schema dashboardId =
     \<lparr>fn_request = fetch_get (''/api/dashboards/'' @ dashboardId @ ''/shares''),
      fn_answer = answers_json h ''Failed to load dashboard shares'' schema\<rparr>"

definition apiUpdateDashboardShare :: "api_host \<Rightarrow> 'a schema \<Rightarrow> string \<Rightarrow> string \<Rightarrow> json \<Rightarrow> 'a api_fn" where
  "apiUpdateDashboardShare h schema dashboardId shareId body =
     \<lparr>fn_request = fetch_send ''PATCH'' (''/api/dashboards/'' @ dashboardId @ ''/shares/'' @ shareId) (Some body),
      fn_answer = answers_json h ''Failed to update dashboard share'' schema\<rparr>"

definition apiTransferDashboardOwnership :: "api_host \<Rightarrow> 'a schema \<Rightarrow> string \<Rightarrow> string \<Rightarrow> 'a api_fn" where
  "apiTransferDashboardOwnership h schema dashboardId userId =
     \<lparr>fn_request = fetch_send ''POST'' (''/api/dashboards/'' @ dashboardId @ ''/owner'') (Some (JObj [(''user_id'', JStr userId)])),
      fn_answer = answers_json h ''Failed to transfer ownership'' schema\<rparr>"

definition apiRemoveDashboardShare :: "api_host \<Rightarrow> string \<Rightarrow> string \<Rightarrow> unit api_fn" where
  "apiRemoveDashboardShare h dashboardId shareId =
     \<lparr>fn_request = fetch_send ''DELETE'' (''/api/dashboards/'' @ dashboardId @ ''/shares/'' @ shareId) None,
      fn_answer = answers_void h ''Failed to remove dashboard share''\<rparr>"

section \<open>Invites\<close>

definition apiCreateInvite :: "api_host \<Rightarrow> 'a schema \<Rightarrow> string \<Rightarrow> string \<Rightarrow> 'a api_fn" where
  "apiCreateInvite h schema dashboardId role =
     \<lparr>fn_request = fetch_send ''POST'' (''/api/dashboards/'' @ dashboardId @ ''/invites'') (Some (JObj [(''role'', JStr role)])),
      fn_answer = answers_json h ''Failed to create an invite link.'' schema\<rparr>"

definition apiGetInvites :: "api_host \<Rightarrow> 'a schema \<Rightarrow> string \<Rightarrow> 'a api_fn" where
  "apiGetInvites h schema dashboardId =
     \<lparr>fn_request = fetch_get (''/api/dashboards/'' @ dashboardId @ ''/invites''),
      fn_answer = answers_json h ''Failed to load invite links.'' schema\<rparr>"

definition apiRevokeInvite :: "api_host \<Rightarrow> string \<Rightarrow> string \<Rightarrow> unit api_fn" where
  "apiRevokeInvite h dashboardId inviteId =
     requestVoid h (''/api/dashboards/'' @ dashboardId @ ''/invites/'' @ inviteId) ''DELETE'' None
       ''Failed to revoke the invite link.''"

definition apiPreviewInvite :: "api_host \<Rightarrow> 'a schema \<Rightarrow> string \<Rightarrow> 'a api_fn" where
  "apiPreviewInvite h schema code =
     \<lparr>fn_request = fetch_get (''/api/invites/'' @ ah_encode h code),
      fn_answer = answers_json h ''This invite link is no longer valid.'' schema\<rparr>"

definition apiAcceptInvite :: "api_host \<Rightarrow> 'a schema \<Rightarrow> string \<Rightarrow> 'a api_fn" where
  "apiAcceptInvite h schema code =
     \<lparr>fn_request = fetch_send ''POST'' (''/api/invites/'' @ ah_encode h code @ ''/accept'') None,
      fn_answer = answers_json h ''This invite link is no longer valid.'' schema\<rparr>"

section \<open>Notifications\<close>

definition apiGetNotifications :: "api_host \<Rightarrow> 'a schema \<Rightarrow> string option \<Rightarrow> 'a api_fn" where
  "apiGetNotifications h schema cursor =
     \<lparr>fn_request = fetch_get (''/api/notifications'' @
        (case cursor of Some c \<Rightarrow> if c = [] then [] else ''?cursor='' @ ah_encode h c | None \<Rightarrow> [])),
      fn_answer = answers_json h ''Failed to load notifications'' schema\<rparr>"

text \<open>The one wrapper that makes a value of a refusal.\<close>

definition apiGetUnreadCount :: "api_host \<Rightarrow> int schema \<Rightarrow> int api_fn" where
  "apiGetUnreadCount h schema =
     \<lparr>fn_request = fetch_get ''/api/notifications/unread-count'',
      fn_answer = (\<lambda>ans. if \<not> res_ok ans then Inr 0 else parseJson ans schema)\<rparr>"

definition apiMarkRead :: "api_host \<Rightarrow> 'a schema \<Rightarrow> string \<Rightarrow> 'a api_fn" where
  "apiMarkRead h schema i =
     \<lparr>fn_request = fetch_send ''PATCH'' (''/api/notifications/'' @ i @ ''/read'') None,
      fn_answer = answers_json h ''Failed to mark notification read'' schema\<rparr>"

definition apiMarkAllRead :: "api_host \<Rightarrow> unit api_fn" where
  "apiMarkAllRead h =
     \<lparr>fn_request = fetch_send ''PATCH'' ''/api/notifications/read-all'' None,
      fn_answer = answers_void h ''Failed to mark all read''\<rparr>"

definition apiGetActivity :: "api_host \<Rightarrow> 'a schema \<Rightarrow> string list \<Rightarrow> string option \<Rightarrow> 'a api_fn" where
  "apiGetActivity h schema eventTypes before_event_id =
     (let params = map (\<lambda>t. (''event_type'', t)) eventTypes @
        (case before_event_id of Some b \<Rightarrow> [(''before_event_id'', b)] | None \<Rightarrow> []) in
      \<lparr>fn_request = fetch_get (''/api/activity'' @ query_suffix h params),
       fn_answer = answers_json h ''Failed to load activity'' schema\<rparr>)"

section \<open>Accounts\<close>

text \<open>Not signed in is an answer of the check, not a failure.\<close>

definition apiGetMe :: "api_host \<Rightarrow> 'a schema \<Rightarrow> 'a option api_fn" where
  "apiGetMe h schema =
     \<lparr>fn_request = fetch_get ''/api/auth/me'',
      fn_answer = (\<lambda>ans. if ans_status ans = 401 then Inr None
        else map_sum id Some (answers_json h ''Could not load your account'' schema ans))\<rparr>"

definition apiLogin :: "api_host \<Rightarrow> 'a schema \<Rightarrow> string \<Rightarrow> string \<Rightarrow> 'a api_fn" where
  "apiLogin h schema email password =
     \<lparr>fn_request = fetch_send ''POST'' ''/api/auth/login'' (Some (JObj [(''email'', JStr email), (''password'', JStr password)])),
      fn_answer = answers_json h ''Login failed'' schema\<rparr>"

definition apiRegister :: "api_host \<Rightarrow> 'a schema \<Rightarrow> string \<Rightarrow> string \<Rightarrow> string \<Rightarrow> 'a api_fn" where
  "apiRegister h schema email password display_name =
     \<lparr>fn_request = fetch_send ''POST'' ''/api/auth/register''
        (Some (JObj [(''email'', JStr email), (''password'', JStr password), (''display_name'', JStr display_name)])),
      fn_answer = answers_json h ''Registration failed'' schema\<rparr>"

definition apiVerifyEmail :: "api_host \<Rightarrow> 'a schema \<Rightarrow> string \<Rightarrow> 'a api_fn" where
  "apiVerifyEmail h schema token =
     \<lparr>fn_request = fetch_send ''POST'' ''/api/auth/verify-email'' (Some (JObj [(''token'', JStr token)])),
      fn_answer = answers_json h ''Email verification failed'' schema\<rparr>"

definition apiResendVerification :: "api_host \<Rightarrow> string \<Rightarrow> unit api_fn" where
  "apiResendVerification h email =
     \<lparr>fn_request = fetch_send ''POST'' ''/api/auth/resend-verification'' (Some (JObj [(''email'', JStr email)])),
      fn_answer = answers_void h ''Failed to resend verification email''\<rparr>"

definition apiRequestPasswordReset :: "api_host \<Rightarrow> string \<Rightarrow> unit api_fn" where
  "apiRequestPasswordReset h email =
     \<lparr>fn_request = fetch_send ''POST'' ''/api/auth/password-reset/request'' (Some (JObj [(''email'', JStr email)])),
      fn_answer = answers_void h ''Failed to send password reset email''\<rparr>"

definition apiCheckPasswordResetToken :: "api_host \<Rightarrow> bool schema \<Rightarrow> string \<Rightarrow> bool api_fn" where
  "apiCheckPasswordResetToken h schema token =
     \<lparr>fn_request = fetch_send ''POST'' ''/api/auth/password-reset/check'' (Some (JObj [(''token'', JStr token)])),
      fn_answer = answers_json h ''Failed to check reset link'' schema\<rparr>"

definition apiConfirmPasswordReset :: "api_host \<Rightarrow> string \<Rightarrow> string \<Rightarrow> unit api_fn" where
  "apiConfirmPasswordReset h token new_password =
     \<lparr>fn_request = fetch_send ''POST'' ''/api/auth/password-reset/confirm''
        (Some (JObj [(''token'', JStr token), (''new_password'', JStr new_password)])),
      fn_answer = answers_void h ''Failed to reset password''\<rparr>"

text \<open>A 401 means there was no session left to end.\<close>

definition apiLogout :: "api_host \<Rightarrow> unit api_fn" where
  "apiLogout h =
     \<lparr>fn_request = fetch_send ''POST'' ''/api/auth/logout'' None,
      fn_answer = (\<lambda>ans. if \<not> res_ok ans \<and> ans_status ans \<noteq> 401
        then Inl (readError h ans ''Sign-out did not reach the server'') else Inr ())\<rparr>"

definition apiUpdatePreferences :: "api_host \<Rightarrow> 'a schema \<Rightarrow> json \<Rightarrow> 'a api_fn" where
  "apiUpdatePreferences h schema prefs =
     \<lparr>fn_request = fetch_send ''PATCH'' ''/api/auth/preferences'' (Some prefs),
      fn_answer = answers_json h ''Failed to update preferences'' schema\<rparr>"

definition apiUpdateProfile :: "api_host \<Rightarrow> 'a schema \<Rightarrow> string option \<Rightarrow> 'a api_fn" where
  "apiUpdateProfile h schema display_name =
     \<lparr>fn_request = fetch_send ''PATCH'' ''/api/auth/profile''
        (Some (JObj (optional_field ''display_name'' (map_option JStr display_name)))),
      fn_answer = answers_json h ''Failed to update profile'' schema\<rparr>"

definition apiChangePassword :: "api_host \<Rightarrow> string \<Rightarrow> string \<Rightarrow> unit api_fn" where
  "apiChangePassword h current_password new_password =
     \<lparr>fn_request = fetch_send ''PATCH'' ''/api/auth/password''
        (Some (JObj [(''current_password'', JStr current_password), (''new_password'', JStr new_password)])),
      fn_answer = answers_void h ''Failed to update password''\<rparr>"

definition apiRequestEmailChange :: "api_host \<Rightarrow> string \<Rightarrow> string \<Rightarrow> unit api_fn" where
  "apiRequestEmailChange h new_email password =
     \<lparr>fn_request = fetch_send ''POST'' ''/api/auth/email-change''
        (Some (JObj [(''new_email'', JStr new_email), (''password'', JStr password)])),
      fn_answer = answers_void h ''Failed to request the change''\<rparr>"

definition apiConfirmEmailChange :: "api_host \<Rightarrow> string \<Rightarrow> unit api_fn" where
  "apiConfirmEmailChange h token =
     \<lparr>fn_request = fetch_send ''POST'' ''/api/auth/email-change/confirm'' (Some (JObj [(''token'', JStr token)])),
      fn_answer = answers_void h ''Failed to confirm the new email''\<rparr>"

definition apiDeleteAccount :: "api_host \<Rightarrow> string \<Rightarrow> unit api_fn" where
  "apiDeleteAccount h password =
     \<lparr>fn_request = fetch_send ''DELETE'' ''/api/auth/account'' (Some (JObj [(''password'', JStr password)])),
      fn_answer = answers_void h ''Failed to delete account''\<rparr>"

definition apiListSessions :: "api_host \<Rightarrow> 'a schema \<Rightarrow> (string \<times> string) option \<Rightarrow> 'a api_fn" where
  "apiListSessions h schema cursor =
     \<lparr>fn_request = fetch_get (''/api/auth/sessions'' @
        (case cursor of Some (created_at, i) \<Rightarrow> ''?'' @ ah_query h [(''before'', created_at), (''before_id'', i)] | None \<Rightarrow> [])),
      fn_answer = answers_json h ''Failed to load sessions'' schema\<rparr>"

definition apiRevokeSession :: "api_host \<Rightarrow> string \<Rightarrow> unit api_fn" where
  "apiRevokeSession h i =
     \<lparr>fn_request = fetch_send ''DELETE'' (''/api/auth/sessions/'' @ ah_encode h i) None,
      fn_answer = answers_void h ''Failed to revoke session''\<rparr>"

section \<open>What an answer becomes\<close>

text \<open>
  A refusal never becomes data, and what reaches the caller carries the status the server gave, unless the body is
  the word null; an answer the schema does not take never becomes data either.
\<close>

definition failure_of :: "http_answer \<Rightarrow> api_failure \<Rightarrow> bool" where
  "failure_of ans f \<longleftrightarrow>
     (case f of ApiFailure e \<Rightarrow> ae_status e = ans_status ans | NullRead m \<Rightarrow> ans_body ans = Some JNull)"

lemma readError_status: "failure_of ans (readError h ans fallback)"
  by (auto simp: failure_of_def readError_def error_detail_def Let_def split: option.splits json.splits)

lemma answers_json_cases:
  "answers_json h fallback schema ans =
     (if \<not> res_ok ans then Inl (readError h ans fallback)
      else case schema (ans_body ans) of Some v \<Rightarrow> Inr v
         | None \<Rightarrow> Inl (ApiFailure \<lparr>ae_message = ''Received an unexpected response from the server.'',
             ae_status = ans_status ans, ae_detail = None\<rparr>))"
  by (simp add: answers_json_def parseJson_def split: option.split)

definition reply_law :: "http_answer \<Rightarrow> 'a schema \<Rightarrow> 'a api_reply \<Rightarrow> bool" where
  "reply_law ans schema r \<longleftrightarrow>
     (case r of Inr v \<Rightarrow> res_ok ans \<and> schema (ans_body ans) = Some v
      | Inl f \<Rightarrow> failure_of ans f \<and> \<not> (res_ok ans \<and> schema (ans_body ans) \<noteq> None))"

lemma answers_json_law: "reply_law ans schema (answers_json h fallback schema ans)"
  using readError_status [of ans h fallback]
  by (auto simp: reply_law_def answers_json_cases failure_of_def split: option.split)

lemma failure_of_null: "error_detail ans = None \<longleftrightarrow> ans_body ans = Some JNull"
  by (auto simp: error_detail_def split: option.splits json.splits)

lemma save_answer_cases:
  "fn_answer (apiUpdateLayout h schema d layout v g) ans =
     (if ans_status ans = 409 then
        (case error_detail ans of None \<Rightarrow> Inl (NullRead (ah_null_read h)) | Some detail \<Rightarrow> Inr (LayoutConflict detail))
      else map_sum id SavedLayout (answers_json h ''Failed to save layout'' schema ans))"
  by (simp add: apiUpdateLayout_def)

lemma answers_json_Inr: "answers_json h fallback schema ans = Inr v \<longleftrightarrow> res_ok ans \<and> schema (ans_body ans) = Some v"
  by (simp add: answers_json_cases split: option.split)

lemma answers_json_Inl: "answers_json h fallback schema ans = Inl f \<Longrightarrow> failure_of ans f"
  using answers_json_law [of ans schema h fallback] by (simp add: reply_law_def)

lemma conflict_detail:
  "error_detail ans = Some detail \<longleftrightarrow> ans_body ans \<noteq> Some JNull \<and>
     detail = (case ans_body ans of Some (JObj fs) \<Rightarrow> map_of fs ''detail'' | _ \<Rightarrow> None)"
  by (auto simp: error_detail_def split: option.split json.split)

lemma save_conflict:
  "fn_answer (apiUpdateLayout h schema d layout v g) ans = Inr (LayoutConflict detail) \<longleftrightarrow>
     ans_status ans = 409 \<and> ans_body ans \<noteq> Some JNull \<and>
     detail = (case ans_body ans of Some (JObj fs) \<Rightarrow> map_of fs ''detail'' | _ \<Rightarrow> None)"
  unfolding save_answer_cases conflict_detail [symmetric]
  by (cases "answers_json h ''Failed to save layout'' schema ans") (auto split: option.split)

lemma save_saved:
  "fn_answer (apiUpdateLayout h schema d layout v g) ans = Inr (SavedLayout b) \<longleftrightarrow>
     res_ok ans \<and> schema (ans_body ans) = Some b"
proof -
  have "res_ok ans \<Longrightarrow> ans_status ans \<noteq> 409" by (simp add: res_ok_def)
  then show ?thesis
    unfolding save_answer_cases answers_json_Inr [of h "''Failed to save layout''", symmetric]
    using answers_json_Inr [of h "''Failed to save layout''" schema ans b]
    by (cases "answers_json h ''Failed to save layout'' schema ans") (auto split: option.split)
qed

lemma save_failure:
  "fn_answer (apiUpdateLayout h schema d layout v g) ans = Inl f \<Longrightarrow> failure_of ans f"
  unfolding save_answer_cases
  using answers_json_Inl [of h "''Failed to save layout''" schema ans]
  by (cases "answers_json h ''Failed to save layout'' schema ans")
    (auto simp: failure_of_null failure_of_def split: if_splits option.splits)

lemma me_answer:
  "fn_answer (apiGetMe h schema) ans = Inr None \<longleftrightarrow> ans_status ans = 401"
  "fn_answer (apiGetMe h schema) ans = Inr (Some u) \<longleftrightarrow> res_ok ans \<and> schema (ans_body ans) = Some u"
  "fn_answer (apiGetMe h schema) ans = Inl f \<Longrightarrow> failure_of ans f"
proof -
  let ?r = "answers_json h ''Could not load your account'' schema ans"
  have signed_in: "res_ok ans \<Longrightarrow> ans_status ans \<noteq> 401" by (simp add: res_ok_def)
  show "fn_answer (apiGetMe h schema) ans = Inr None \<longleftrightarrow> ans_status ans = 401"
    by (cases ?r) (simp_all add: apiGetMe_def)
  show "fn_answer (apiGetMe h schema) ans = Inr (Some u) \<longleftrightarrow> res_ok ans \<and> schema (ans_body ans) = Some u"
    using answers_json_Inr [of h "''Could not load your account''" schema ans u] signed_in
    by (cases ?r) (auto simp: apiGetMe_def)
  show "fn_answer (apiGetMe h schema) ans = Inl f \<Longrightarrow> failure_of ans f"
    using answers_json_Inl [of h "''Could not load your account''" schema ans]
    by (cases ?r) (auto simp: apiGetMe_def split: if_splits)
qed

lemma logout_failure: "fn_answer (apiLogout h) ans = Inl f \<Longrightarrow> failure_of ans f"
  using readError_status [of ans h] by (auto simp: apiLogout_def split: if_splits)

lemma unread_failure: "fn_answer (apiGetUnreadCount h counts) ans = Inl f \<Longrightarrow> failure_of ans f \<and> res_ok ans"
  by (auto simp: apiGetUnreadCount_def parseJson_def failure_of_def split: if_splits option.splits)


section \<open>Sharing a read\<close>

text \<open>
  Five wrappers keep the promises of the reads under way by key (\<open>lists.ts\<close>, \<open>calendar.ts\<close>, \<open>dashboards.ts\<close>,
  \<open>invites.ts\<close>): a call finds the promise for its key or starts a read, and a settled read takes its key out. A
  promise is its number; the module-level map belongs to no session, and nothing empties it at a sign-out.
\<close>

record shared_reads =
  sr_out :: "(string \<times> nat) list"
  sr_next :: nat

definition shared_read :: "string \<Rightarrow> shared_reads \<Rightarrow> nat \<times> shared_reads" where
  "shared_read key st =
     (case map_of (sr_out st) key of
        Some p \<Rightarrow> (p, st)
      | None \<Rightarrow> (sr_next st, st\<lparr>sr_out := AList.update key (sr_next st) (sr_out st), sr_next := sr_next st + 1\<rparr>))"

definition read_settled :: "nat \<Rightarrow> shared_reads \<Rightarrow> shared_reads" where
  "read_settled p st =
     (case find (\<lambda>(k, q). q = p) (sr_out st) of
        Some (k, q) \<Rightarrow> st\<lparr>sr_out := AList.delete k (sr_out st)\<rparr> | None \<Rightarrow> st)"

datatype read_event = CallsRead string | ReadSettles nat

fun read_step :: "read_event \<Rightarrow> shared_reads \<Rightarrow> shared_reads" where
  "read_step (CallsRead key) st = snd (shared_read key st)"
| "read_step (ReadSettles p) st = read_settled p st"

definition reads_ok :: "shared_reads \<Rightarrow> bool" where
  "reads_ok st \<longleftrightarrow> distinct (map fst (sr_out st)) \<and> distinct (map snd (sr_out st)) \<and>
     list_all (\<lambda>(k, p). p < sr_next st) (sr_out st)"

lemma update_new: "k \<notin> fst ` set al \<Longrightarrow> AList.update k v al = al @ [(k, v)]"
  by (induction al) auto

lemma read_step_ok: "reads_ok st \<Longrightarrow> reads_ok (read_step e st)"
proof (cases e)
  case (CallsRead key)
  assume ok: "reads_ok st"
  show ?thesis
  proof (cases "map_of (sr_out st) key")
    case None
    then have "key \<notin> fst ` set (sr_out st)" by (simp add: map_of_eq_None_iff)
    then show ?thesis using ok None CallsRead
      by (auto simp: reads_ok_def shared_read_def update_new list_all_iff)
  qed (use ok CallsRead in \<open>simp add: shared_read_def\<close>)
next
  case (ReadSettles p)
  assume ok: "reads_ok st"
  have d: "AList.delete k al = filter (\<lambda>x. fst x \<noteq> k) al" for k and al :: "(string \<times> nat) list"
    by (auto simp: AList.delete_eq intro: filter_cong)
  show ?thesis using ok ReadSettles
    by (auto simp: reads_ok_def read_settled_def d distinct_map_filter list_all_iff split: option.split)
qed

interpretation shared_runs: event_machine read_step reads_ok
  by unfold_locales (rule read_step_ok)

text \<open>In every run a key has one read under way at most, and a call while it is joins it and sends nothing.\<close>

theorem reads_are_shared:
  "let st = fold read_step es \<lparr>sr_out = [], sr_next = 0\<rparr> in
   distinct (map fst (sr_out st)) \<and> distinct (map snd (sr_out st)) \<and>
   list_all (\<lambda>(k, p). shared_read k st = (p, st)) (sr_out st)"
proof -
  have "reads_ok \<lparr>sr_out = [], sr_next = 0\<rparr>" by (simp add: reads_ok_def)
  from shared_runs.run_inv [OF this, of es] show ?thesis
    by (auto simp: reads_ok_def Let_def list_all_iff shared_read_def)
qed

end
