(* ===== verification/ApiRoutes.thy ===== *)
theory ApiRoutes
  imports ApiCalls
begin

text \<open>
  Where the client's requests arrive. The server's routes (\<open>backend/app/api.py\<close> and the decorators of
  \<open>backend/app/routers/*.py\<close>, in the order they are registered) and the router's rule, the first route whose method
  and path match, on one side; every wrapper of the client's API modules with the handler it is written for on the
  other. A path parameter matches one nonempty segment, so an earlier \<open>{id}\<close> route could shadow a literal one.

  The lemmas take a path apart at its slashes; the property is that no call is shadowed or lost.
\<close>

section \<open>The router\<close>

type_synonym route = "string \<times> string option list \<times> string"

fun split_segments :: "char \<Rightarrow> string \<Rightarrow> string list" where
  "split_segments c [] = [[]]"
| "split_segments c (x # xs) =
     (if x = c then [] # split_segments c xs
      else case split_segments c xs of [] \<Rightarrow> [[x]] | y # ys \<Rightarrow> (x # y) # ys)"

text \<open>A template's segments: \<open>None\<close> for a parameter in braces.\<close>

definition template :: "string \<Rightarrow> string option list" where
  "template path = map (\<lambda>seg. case seg of c # cs \<Rightarrow> if c = CHR 0x7B then None else Some seg | [] \<Rightarrow> Some [])
     (split_segments CHR 0x2F path)"

definition API_PREFIX :: string where
  "API_PREFIX = ''/api''"

definition router :: "string \<Rightarrow> (string \<times> string \<times> string) list \<Rightarrow> route list" where
  "router prefix rows = map (\<lambda>(method, path, handler). (method, template (API_PREFIX @ prefix @ path), handler)) rows"

fun seg_matches :: "string option list \<Rightarrow> string list \<Rightarrow> bool" where
  "seg_matches [] [] = True"
| "seg_matches (Some s # ts) (p # ps) = (s = p \<and> seg_matches ts ps)"
| "seg_matches (None # ts) (p # ps) = (p \<noteq> [] \<and> seg_matches ts ps)"
| "seg_matches _ _ = False"

definition path_of :: "string \<Rightarrow> string" where
  "path_of url = takeWhile (\<lambda>c. c \<noteq> CHR 0x3F) url"

section \<open>The server's routes\<close>

definition auth_routes :: "route list" where
  "auth_routes = router ''/auth''
     [(''POST'', ''/register'', ''auth.register''),
      (''POST'', ''/verify-email'', ''auth.verify_email''),
      (''POST'', ''/resend-verification'', ''auth.resend_verification''),
      (''POST'', ''/password-reset/request'', ''auth.request_password_reset''),
      (''POST'', ''/password-reset/check'', ''auth.check_password_reset_token''),
      (''POST'', ''/password-reset/confirm'', ''auth.confirm_password_reset''),
      (''POST'', ''/login'', ''auth.login''),
      (''POST'', ''/logout'', ''auth.logout''),
      (''GET'', ''/me'', ''auth.me''),
      (''GET'', ''/sessions'', ''auth.list_sessions''),
      (''DELETE'', ''/sessions/{session_id}'', ''auth.revoke_other_session''),
      (''PATCH'', ''/profile'', ''auth.update_profile''),
      (''PATCH'', ''/password'', ''auth.change_password''),
      (''POST'', ''/email-change'', ''auth.request_email_change''),
      (''POST'', ''/email-change/confirm'', ''auth.confirm_own_email_change''),
      (''DELETE'', ''/account'', ''auth.delete_own_account''),
      (''PATCH'', ''/preferences'', ''auth.update_preferences'')]"

definition calendar_routes :: "route list" where
  "calendar_routes = router ''/calendar''
     [(''POST'', ''/events'', ''calendar.create_event''),
      (''GET'', ''/events'', ''calendar.list_occurrences''),
      (''GET'', ''/events/trash'', ''calendar.event_trash''),
      (''GET'', ''/events/{event_id}'', ''calendar.get_event''),
      (''PATCH'', ''/events/{event_id}'', ''calendar.update_event''),
      (''PATCH'', ''/events/{event_id}/occurrences'', ''calendar.update_occurrence''),
      (''DELETE'', ''/events/{event_id}'', ''calendar.delete_event''),
      (''POST'', ''/events/{event_id}/restore'', ''calendar.restore_event''),
      (''DELETE'', ''/events/{event_id}/trash'', ''calendar.purge_trashed_event''),
      (''GET'', ''/events/{event_id}/shares'', ''calendar.list_event_shares''),
      (''POST'', ''/events/{event_id}/shares'', ''calendar.add_event_share''),
      (''PATCH'', ''/events/{event_id}/shares/{share_id}'', ''calendar.update_event_share''),
      (''DELETE'', ''/events/{event_id}/shares/{share_id}'', ''calendar.delete_event_share'')]"

definition dashboards_routes :: "route list" where
  "dashboards_routes = router ''/dashboards''
     [(''GET'', '''', ''dashboards.list_dashboards''),
      (''POST'', '''', ''dashboards.create_dashboard''),
      (''PATCH'', ''/{dashboard_id}'', ''dashboards.update_dashboard_meta''),
      (''DELETE'', ''/{dashboard_id}'', ''dashboards.delete_dashboard''),
      (''GET'', ''/trash'', ''dashboards.list_trash''),
      (''POST'', ''/{dashboard_id}/restore'', ''dashboards.restore_dashboard''),
      (''DELETE'', ''/{dashboard_id}/trash'', ''dashboards.purge_trashed_dashboard''),
      (''GET'', ''/{dashboard_id}'', ''dashboards.get_dashboard''),
      (''PUT'', ''/{dashboard_id}/layout'', ''dashboards.update_layout''),
      (''POST'', ''/{dashboard_id}/widgets'', ''dashboards.add_widget''),
      (''PATCH'', ''/{dashboard_id}/widgets/{widget_id}'', ''dashboards.update_widget''),
      (''DELETE'', ''/{dashboard_id}/widgets/{widget_id}'', ''dashboards.delete_widget''),
      (''GET'', ''/{dashboard_id}/members'', ''dashboards.list_dashboard_members''),
      (''GET'', ''/{dashboard_id}/shares'', ''dashboards.list_dashboard_shares''),
      (''PATCH'', ''/{dashboard_id}/shares/{share_id}'', ''dashboards.update_dashboard_share''),
      (''DELETE'', ''/{dashboard_id}/shares/{share_id}'', ''dashboards.delete_dashboard_share''),
      (''POST'', ''/{dashboard_id}/owner'', ''dashboards.transfer_dashboard_ownership''),
      (''DELETE'', ''/{dashboard_id}/membership'', ''dashboards.leave_dashboard'')]"

definition health_routes :: "route list" where
  "health_routes = router ''/health''
     [(''GET'', '''', ''health.health''),
      (''GET'', ''/ready'', ''health.ready'')]"

definition invites_routes :: "route list" where
  "invites_routes = router ''''
     [(''POST'', ''/dashboards/{dashboard_id}/invites'', ''invites.create_invite''),
      (''GET'', ''/dashboards/{dashboard_id}/invites'', ''invites.list_invites''),
      (''DELETE'', ''/dashboards/{dashboard_id}/invites/{invite_id}'', ''invites.delete_invite''),
      (''GET'', ''/invites/{code}'', ''invites.preview_invite''),
      (''POST'', ''/invites/{code}/accept'', ''invites.accept_invite'')]"

definition lists_routes :: "route list" where
  "lists_routes = router ''/lists''
     [(''POST'', '''', ''lists.create_list''),
      (''GET'', '''', ''lists.list_lists''),
      (''PUT'', ''/order'', ''lists.reorder_lists''),
      (''GET'', ''/details'', ''lists.list_list_details''),
      (''GET'', ''/trash'', ''lists.list_trash''),
      (''POST'', ''/{list_id}/restore'', ''lists.restore_list''),
      (''DELETE'', ''/{list_id}/trash'', ''lists.purge_trashed_list''),
      (''GET'', ''/{list_id}'', ''lists.get_list''),
      (''PATCH'', ''/{list_id}'', ''lists.update_list''),
      (''DELETE'', ''/{list_id}'', ''lists.delete_list''),
      (''POST'', ''/{list_id}/items'', ''lists.create_item''),
      (''PATCH'', ''/{list_id}/items/{item_id}'', ''lists.update_item''),
      (''DELETE'', ''/{list_id}/items/{item_id}'', ''lists.delete_item''),
      (''PUT'', ''/{list_id}/items/order'', ''lists.reorder_items''),
      (''GET'', ''/{list_id}/shares'', ''lists.list_list_shares''),
      (''POST'', ''/{list_id}/shares'', ''lists.add_list_share''),
      (''PATCH'', ''/{list_id}/shares/{share_id}'', ''lists.update_list_share''),
      (''DELETE'', ''/{list_id}/shares/{share_id}'', ''lists.delete_list_share'')]"

definition notifications_routes :: "route list" where
  "notifications_routes = router ''/notifications''
     [(''GET'', '''', ''notifications.list_notifications''),
      (''GET'', ''/unread-count'', ''notifications.unread_count''),
      (''PATCH'', ''/{notification_id}/read'', ''notifications.mark_read''),
      (''PATCH'', ''/read-all'', ''notifications.mark_all_read'')]"

definition activity_routes :: "route list" where
  "activity_routes = router ''/activity''
     [(''GET'', '''', ''activity.list_activity'')]"

definition sse_routes :: "route list" where
  "sse_routes = router ''/sse''
     [(''GET'', '''', ''sse.sse_stream'')]"

definition api_router :: "route list" where
  "api_router = auth_routes @ calendar_routes @ dashboards_routes @ health_routes @ invites_routes @ lists_routes @
     notifications_routes @ activity_routes @ sse_routes"

definition handler_of :: "api_request \<Rightarrow> string option" where
  "handler_of rq =
     map_option (\<lambda>(m, t, handler). handler)
       (find (\<lambda>(m, t, handler). m = rq_method rq \<and> seg_matches t (split_segments CHR 0x2F (path_of (rq_url rq)))) api_router)"

section \<open>The client's calls\<close>

text \<open>
  Every wrapper, with its arguments free: a board, a list, an item, an event, a share, a widget, a user, an invite, a
  notification, a session, the code of an invite, and the optional parts of the queries.
\<close>

record call_args =
  k_d :: string
  k_l :: string
  k_i :: string
  k_e :: string
  k_s :: string
  k_w :: string
  k_v :: string
  k_n :: string
  k_session :: string
  k_code :: string
  k_opt :: "string option"
  k_cursor :: "(string \<times> string) option"
  k_text :: string
  k_json :: json
  k_ids :: "string list"
  k_layout :: "layout_item list"
  k_gesture :: "layout_gesture option"

definition list_calls :: "api_host \<Rightarrow> call_args \<Rightarrow> (api_request \<times> string) list" where
  "list_calls h k =
     (let u = (\<lambda>_. None :: unit option) in
      [(fn_request (apiGetLists h u (k_opt k)), ''lists.list_lists''),
       (fn_request (apiGetListDetails h u (k_d k)), ''lists.list_list_details''),
       (fn_request (apiGetList h u (k_l k)), ''lists.get_list''),
       (fn_request (apiCreateList h u (k_text k) (k_text k) (k_d k)), ''lists.create_list''),
       (fn_request (apiUpdateList h u (k_l k) (k_opt k)), ''lists.update_list''),
       (fn_request (apiDeleteList h (k_l k)), ''lists.delete_list''),
       (fn_request (apiGetListTrash h u (k_d k)), ''lists.list_trash''),
       (fn_request (apiRestoreList h u (k_l k)), ''lists.restore_list''),
       (fn_request (apiPurgeList h (k_l k)), ''lists.purge_trashed_list''),
       (fn_request (apiCreateItem h u (k_l k) (k_text k)), ''lists.create_item''),
       (fn_request (apiUpdateItem h u (k_l k) (k_i k) []), ''lists.update_item''),
       (fn_request (apiDeleteItem h (k_l k) (k_i k)), ''lists.delete_item''),
       (fn_request (apiReorderItems h (k_l k) (k_ids k)), ''lists.reorder_items''),
       (fn_request (apiReorderLists h (k_d k) (k_ids k)), ''lists.reorder_lists''),
       (fn_request (apiGetListShares h u (k_l k)), ''lists.list_list_shares''),
       (fn_request (apiAddListShare h u (k_l k) (k_json k)), ''lists.add_list_share''),
       (fn_request (apiUpdateListShare h u (k_l k) (k_s k) (k_json k)), ''lists.update_list_share''),
       (fn_request (apiRemoveListShare h (k_l k) (k_s k)), ''lists.delete_list_share'')])"

definition calendar_calls :: "api_host \<Rightarrow> call_args \<Rightarrow> (api_request \<times> string) list" where
  "calendar_calls h k =
     (let u = (\<lambda>_. None :: unit option) in
      [(fn_request (apiGetOccurrences h u (k_text k) (k_text k) (k_opt k)), ''calendar.list_occurrences''),
       (fn_request (apiCreateEvent h u (k_json k)), ''calendar.create_event''),
       (fn_request (apiGetEvent h u (k_e k)), ''calendar.get_event''),
       (fn_request (apiUpdateEvent h u (k_e k) (k_json k)), ''calendar.update_event''),
       (fn_request (apiDeleteEvent h (k_e k)), ''calendar.delete_event''),
       (fn_request (apiGetEventTrash h u (k_opt k) (k_cursor k)), ''calendar.event_trash''),
       (fn_request (apiPurgeEvent h (k_e k)), ''calendar.purge_trashed_event''),
       (fn_request (apiRestoreEvent h u (k_e k)), ''calendar.restore_event''),
       (fn_request (apiGetEventShares h u (k_e k)), ''calendar.list_event_shares''),
       (fn_request (apiAddEventShare h u (k_e k) (k_json k)), ''calendar.add_event_share''),
       (fn_request (apiUpdateEventShare h u (k_e k) (k_s k) (k_json k)), ''calendar.update_event_share''),
       (fn_request (apiRemoveEventShare h (k_e k) (k_s k)), ''calendar.delete_event_share'')])"

definition dashboard_calls :: "api_host \<Rightarrow> call_args \<Rightarrow> (api_request \<times> string) list" where
  "dashboard_calls h k =
     (let u = (\<lambda>_. None :: unit option) in
      [(fn_request (apiListDashboards h u), ''dashboards.list_dashboards''),
       (fn_request (apiListDashboardMembers h u (k_d k)), ''dashboards.list_dashboard_members''),
       (fn_request (apiGetDashboard h u (k_d k)), ''dashboards.get_dashboard''),
       (fn_request (apiCreateDashboard h u (k_text k)), ''dashboards.create_dashboard''),
       (fn_request (apiUpdateDashboardMeta h u (k_d k) (k_opt k)), ''dashboards.update_dashboard_meta''),
       (fn_request (apiDeleteDashboard h (k_d k)), ''dashboards.delete_dashboard''),
       (fn_request (apiLeaveDashboard h (k_d k)), ''dashboards.leave_dashboard''),
       (fn_request (apiGetTrash h u), ''dashboards.list_trash''),
       (fn_request (apiRestoreDashboard h u (k_d k)), ''dashboards.restore_dashboard''),
       (fn_request (apiPurgeDashboard h (k_d k)), ''dashboards.purge_trashed_dashboard''),
       (fn_request (apiUpdateLayout h u (k_d k) (k_layout k) 1 (k_gesture k)), ''dashboards.update_layout''),
       (fn_request (apiAddWidget h u (k_d k) (k_json k)), ''dashboards.add_widget''),
       (fn_request (apiUpdateWidget h u (k_d k) (k_w k) []), ''dashboards.update_widget''),
       (fn_request (apiRemoveWidget h u (k_d k) (k_w k)), ''dashboards.delete_widget''),
       (fn_request (apiGetDashboardShares h u (k_d k)), ''dashboards.list_dashboard_shares''),
       (fn_request (apiUpdateDashboardShare h u (k_d k) (k_s k) (k_json k)), ''dashboards.update_dashboard_share''),
       (fn_request (apiTransferDashboardOwnership h u (k_d k) (k_text k)), ''dashboards.transfer_dashboard_ownership''),
       (fn_request (apiRemoveDashboardShare h (k_d k) (k_s k)), ''dashboards.delete_dashboard_share''),
       (fn_request (apiCreateInvite h u (k_d k) (k_text k)), ''invites.create_invite''),
       (fn_request (apiGetInvites h u (k_d k)), ''invites.list_invites''),
       (fn_request (apiRevokeInvite h (k_d k) (k_v k)), ''invites.delete_invite''),
       (fn_request (apiPreviewInvite h u (k_code k)), ''invites.preview_invite''),
       (fn_request (apiAcceptInvite h u (k_code k)), ''invites.accept_invite'')])"

definition account_calls :: "api_host \<Rightarrow> call_args \<Rightarrow> (api_request \<times> string) list" where
  "account_calls h k =
     (let u = (\<lambda>_. None :: unit option) in
      [(fn_request (apiGetNotifications h u (k_opt k)), ''notifications.list_notifications''),
       (fn_request (apiGetUnreadCount h (\<lambda>_. None)), ''notifications.unread_count''),
       (fn_request (apiMarkRead h u (k_n k)), ''notifications.mark_read''),
       (fn_request (apiMarkAllRead h), ''notifications.mark_all_read''),
       (fn_request (apiGetActivity h u (k_ids k) (k_opt k)), ''activity.list_activity''),
       (fn_request (apiGetMe h u), ''auth.me''),
       (fn_request (apiLogin h u (k_text k) (k_text k)), ''auth.login''),
       (fn_request (apiRegister h u (k_text k) (k_text k) (k_text k)), ''auth.register''),
       (fn_request (apiVerifyEmail h u (k_text k)), ''auth.verify_email''),
       (fn_request (apiResendVerification h (k_text k)), ''auth.resend_verification''),
       (fn_request (apiRequestPasswordReset h (k_text k)), ''auth.request_password_reset''),
       (fn_request (apiCheckPasswordResetToken h (\<lambda>_. None) (k_text k)), ''auth.check_password_reset_token''),
       (fn_request (apiConfirmPasswordReset h (k_text k) (k_text k)), ''auth.confirm_password_reset''),
       (fn_request (apiLogout h), ''auth.logout''),
       (fn_request (apiUpdatePreferences h u (k_json k)), ''auth.update_preferences''),
       (fn_request (apiUpdateProfile h u (k_opt k)), ''auth.update_profile''),
       (fn_request (apiChangePassword h (k_text k) (k_text k)), ''auth.change_password''),
       (fn_request (apiRequestEmailChange h (k_text k) (k_text k)), ''auth.request_email_change''),
       (fn_request (apiConfirmEmailChange h (k_text k)), ''auth.confirm_own_email_change''),
       (fn_request (apiDeleteAccount h (k_text k)), ''auth.delete_own_account''),
       (fn_request (apiListSessions h u (k_cursor k)), ''auth.list_sessions''),
       (fn_request (apiRevokeSession h (k_session k)), ''auth.revoke_other_session'')])"

text \<open>An id is one segment and not a word the routes use; the encoder's output is one segment.\<close>

definition id_ok :: "string \<Rightarrow> bool" where
  "id_ok i \<longleftrightarrow> i \<noteq> [] \<and> CHR 0x2F \<notin> set i \<and> CHR 0x3F \<notin> set i \<and> i \<notin> {''trash'', ''details'', ''order''}"

definition args_ok :: "api_host \<Rightarrow> call_args \<Rightarrow> bool" where
  "args_ok h k \<longleftrightarrow> id_ok (k_d k) \<and> id_ok (k_l k) \<and> id_ok (k_i k) \<and> id_ok (k_e k) \<and> id_ok (k_s k) \<and> id_ok (k_w k) \<and>
     id_ok (k_v k) \<and> id_ok (k_n k) \<and> id_ok (ah_encode h (k_session k)) \<and> id_ok (ah_encode h (k_code k))"

section \<open>Taking a path apart\<close>

lemma path_of_plain [simp]: "CHR 0x3F \<notin> set a \<Longrightarrow> path_of (a @ b) = a @ path_of b"
  unfolding path_of_def by (induction a) auto

lemma path_of_all [simp]: "CHR 0x3F \<notin> set a \<Longrightarrow> path_of a = a"
  using path_of_plain [of a "[]"] by (simp add: path_of_def)

lemma path_of_Cons [simp]: "path_of (c # s) = (if c = CHR 0x3F then [] else c # path_of s)"
  by (simp add: path_of_def)

lemma path_of_Nil [simp]: "path_of [] = []"
  by (simp add: path_of_def)

lemma split_id_last: "c \<notin> set i \<Longrightarrow> split_segments c i = [i]"
  by (induction i) auto

lemma split_id: "c \<notin> set i \<Longrightarrow> split_segments c (i @ c # rest) = i # split_segments c rest"
  by (induction i) auto

lemma path_query [simp]: "path_of (query_suffix h ps) = []"
  by (simp add: query_suffix_def)

lemma id_segment [simp]:
  "id_ok i \<Longrightarrow> CHR 0x2F \<notin> set i" "id_ok i \<Longrightarrow> CHR 0x3F \<notin> set i" "id_ok i \<Longrightarrow> i \<noteq> []"
  "id_ok i \<Longrightarrow> i \<noteq> ''trash''" "id_ok i \<Longrightarrow> i \<noteq> ''details''" "id_ok i \<Longrightarrow> i \<noteq> ''order''"
  "id_ok i \<Longrightarrow> ''trash'' \<noteq> i" "id_ok i \<Longrightarrow> ''details'' \<noteq> i" "id_ok i \<Longrightarrow> ''order'' \<noteq> i"
  by (auto simp: id_ok_def)

lemmas routing = fetch_get_def fetch_send_def requestVoid_def split_id split_id_last

text \<open>The tables with their templates taken apart, computed once.\<close>

lemma auth_routes_table: "auth_routes =
    [(''POST'', [Some '''', Some ''api'', Some ''auth'', Some ''register''], ''auth.register''),
     (''POST'', [Some '''', Some ''api'', Some ''auth'', Some ''verify-email''], ''auth.verify_email''),
     (''POST'', [Some '''', Some ''api'', Some ''auth'', Some ''resend-verification''], ''auth.resend_verification''),
     (''POST'', [Some '''', Some ''api'', Some ''auth'', Some ''password-reset'', Some ''request''], ''auth.request_password_reset''),
     (''POST'', [Some '''', Some ''api'', Some ''auth'', Some ''password-reset'', Some ''check''], ''auth.check_password_reset_token''),
     (''POST'', [Some '''', Some ''api'', Some ''auth'', Some ''password-reset'', Some ''confirm''], ''auth.confirm_password_reset''),
     (''POST'', [Some '''', Some ''api'', Some ''auth'', Some ''login''], ''auth.login''),
     (''POST'', [Some '''', Some ''api'', Some ''auth'', Some ''logout''], ''auth.logout''),
     (''GET'', [Some '''', Some ''api'', Some ''auth'', Some ''me''], ''auth.me''),
     (''GET'', [Some '''', Some ''api'', Some ''auth'', Some ''sessions''], ''auth.list_sessions''),
     (''DELETE'', [Some '''', Some ''api'', Some ''auth'', Some ''sessions'', None], ''auth.revoke_other_session''),
     (''PATCH'', [Some '''', Some ''api'', Some ''auth'', Some ''profile''], ''auth.update_profile''),
     (''PATCH'', [Some '''', Some ''api'', Some ''auth'', Some ''password''], ''auth.change_password''),
     (''POST'', [Some '''', Some ''api'', Some ''auth'', Some ''email-change''], ''auth.request_email_change''),
     (''POST'', [Some '''', Some ''api'', Some ''auth'', Some ''email-change'', Some ''confirm''], ''auth.confirm_own_email_change''),
     (''DELETE'', [Some '''', Some ''api'', Some ''auth'', Some ''account''], ''auth.delete_own_account''),
     (''PATCH'', [Some '''', Some ''api'', Some ''auth'', Some ''preferences''], ''auth.update_preferences'')]"
  by code_simp

lemma calendar_routes_table: "calendar_routes =
    [(''POST'', [Some '''', Some ''api'', Some ''calendar'', Some ''events''], ''calendar.create_event''),
     (''GET'', [Some '''', Some ''api'', Some ''calendar'', Some ''events''], ''calendar.list_occurrences''),
     (''GET'', [Some '''', Some ''api'', Some ''calendar'', Some ''events'', Some ''trash''], ''calendar.event_trash''),
     (''GET'', [Some '''', Some ''api'', Some ''calendar'', Some ''events'', None], ''calendar.get_event''),
     (''PATCH'', [Some '''', Some ''api'', Some ''calendar'', Some ''events'', None], ''calendar.update_event''),
     (''PATCH'', [Some '''', Some ''api'', Some ''calendar'', Some ''events'', None, Some ''occurrences''], ''calendar.update_occurrence''),
     (''DELETE'', [Some '''', Some ''api'', Some ''calendar'', Some ''events'', None], ''calendar.delete_event''),
     (''POST'', [Some '''', Some ''api'', Some ''calendar'', Some ''events'', None, Some ''restore''], ''calendar.restore_event''),
     (''DELETE'', [Some '''', Some ''api'', Some ''calendar'', Some ''events'', None, Some ''trash''], ''calendar.purge_trashed_event''),
     (''GET'', [Some '''', Some ''api'', Some ''calendar'', Some ''events'', None, Some ''shares''], ''calendar.list_event_shares''),
     (''POST'', [Some '''', Some ''api'', Some ''calendar'', Some ''events'', None, Some ''shares''], ''calendar.add_event_share''),
     (''PATCH'', [Some '''', Some ''api'', Some ''calendar'', Some ''events'', None, Some ''shares'', None], ''calendar.update_event_share''),
     (''DELETE'', [Some '''', Some ''api'', Some ''calendar'', Some ''events'', None, Some ''shares'', None], ''calendar.delete_event_share'')]"
  by code_simp

lemma dashboards_routes_table: "dashboards_routes =
    [(''GET'', [Some '''', Some ''api'', Some ''dashboards''], ''dashboards.list_dashboards''),
     (''POST'', [Some '''', Some ''api'', Some ''dashboards''], ''dashboards.create_dashboard''),
     (''PATCH'', [Some '''', Some ''api'', Some ''dashboards'', None], ''dashboards.update_dashboard_meta''),
     (''DELETE'', [Some '''', Some ''api'', Some ''dashboards'', None], ''dashboards.delete_dashboard''),
     (''GET'', [Some '''', Some ''api'', Some ''dashboards'', Some ''trash''], ''dashboards.list_trash''),
     (''POST'', [Some '''', Some ''api'', Some ''dashboards'', None, Some ''restore''], ''dashboards.restore_dashboard''),
     (''DELETE'', [Some '''', Some ''api'', Some ''dashboards'', None, Some ''trash''], ''dashboards.purge_trashed_dashboard''),
     (''GET'', [Some '''', Some ''api'', Some ''dashboards'', None], ''dashboards.get_dashboard''),
     (''PUT'', [Some '''', Some ''api'', Some ''dashboards'', None, Some ''layout''], ''dashboards.update_layout''),
     (''POST'', [Some '''', Some ''api'', Some ''dashboards'', None, Some ''widgets''], ''dashboards.add_widget''),
     (''PATCH'', [Some '''', Some ''api'', Some ''dashboards'', None, Some ''widgets'', None], ''dashboards.update_widget''),
     (''DELETE'', [Some '''', Some ''api'', Some ''dashboards'', None, Some ''widgets'', None], ''dashboards.delete_widget''),
     (''GET'', [Some '''', Some ''api'', Some ''dashboards'', None, Some ''members''], ''dashboards.list_dashboard_members''),
     (''GET'', [Some '''', Some ''api'', Some ''dashboards'', None, Some ''shares''], ''dashboards.list_dashboard_shares''),
     (''PATCH'', [Some '''', Some ''api'', Some ''dashboards'', None, Some ''shares'', None], ''dashboards.update_dashboard_share''),
     (''DELETE'', [Some '''', Some ''api'', Some ''dashboards'', None, Some ''shares'', None], ''dashboards.delete_dashboard_share''),
     (''POST'', [Some '''', Some ''api'', Some ''dashboards'', None, Some ''owner''], ''dashboards.transfer_dashboard_ownership''),
     (''DELETE'', [Some '''', Some ''api'', Some ''dashboards'', None, Some ''membership''], ''dashboards.leave_dashboard'')]"
  by code_simp

lemma health_routes_table: "health_routes =
    [(''GET'', [Some '''', Some ''api'', Some ''health''], ''health.health''),
     (''GET'', [Some '''', Some ''api'', Some ''health'', Some ''ready''], ''health.ready'')]"
  by code_simp

lemma invites_routes_table: "invites_routes =
    [(''POST'', [Some '''', Some ''api'', Some ''dashboards'', None, Some ''invites''], ''invites.create_invite''),
     (''GET'', [Some '''', Some ''api'', Some ''dashboards'', None, Some ''invites''], ''invites.list_invites''),
     (''DELETE'', [Some '''', Some ''api'', Some ''dashboards'', None, Some ''invites'', None], ''invites.delete_invite''),
     (''GET'', [Some '''', Some ''api'', Some ''invites'', None], ''invites.preview_invite''),
     (''POST'', [Some '''', Some ''api'', Some ''invites'', None, Some ''accept''], ''invites.accept_invite'')]"
  by code_simp

lemma lists_routes_table: "lists_routes =
    [(''POST'', [Some '''', Some ''api'', Some ''lists''], ''lists.create_list''),
     (''GET'', [Some '''', Some ''api'', Some ''lists''], ''lists.list_lists''),
     (''PUT'', [Some '''', Some ''api'', Some ''lists'', Some ''order''], ''lists.reorder_lists''),
     (''GET'', [Some '''', Some ''api'', Some ''lists'', Some ''details''], ''lists.list_list_details''),
     (''GET'', [Some '''', Some ''api'', Some ''lists'', Some ''trash''], ''lists.list_trash''),
     (''POST'', [Some '''', Some ''api'', Some ''lists'', None, Some ''restore''], ''lists.restore_list''),
     (''DELETE'', [Some '''', Some ''api'', Some ''lists'', None, Some ''trash''], ''lists.purge_trashed_list''),
     (''GET'', [Some '''', Some ''api'', Some ''lists'', None], ''lists.get_list''),
     (''PATCH'', [Some '''', Some ''api'', Some ''lists'', None], ''lists.update_list''),
     (''DELETE'', [Some '''', Some ''api'', Some ''lists'', None], ''lists.delete_list''),
     (''POST'', [Some '''', Some ''api'', Some ''lists'', None, Some ''items''], ''lists.create_item''),
     (''PATCH'', [Some '''', Some ''api'', Some ''lists'', None, Some ''items'', None], ''lists.update_item''),
     (''DELETE'', [Some '''', Some ''api'', Some ''lists'', None, Some ''items'', None], ''lists.delete_item''),
     (''PUT'', [Some '''', Some ''api'', Some ''lists'', None, Some ''items'', Some ''order''], ''lists.reorder_items''),
     (''GET'', [Some '''', Some ''api'', Some ''lists'', None, Some ''shares''], ''lists.list_list_shares''),
     (''POST'', [Some '''', Some ''api'', Some ''lists'', None, Some ''shares''], ''lists.add_list_share''),
     (''PATCH'', [Some '''', Some ''api'', Some ''lists'', None, Some ''shares'', None], ''lists.update_list_share''),
     (''DELETE'', [Some '''', Some ''api'', Some ''lists'', None, Some ''shares'', None], ''lists.delete_list_share'')]"
  by code_simp

lemma notifications_routes_table: "notifications_routes =
    [(''GET'', [Some '''', Some ''api'', Some ''notifications''], ''notifications.list_notifications''),
     (''GET'', [Some '''', Some ''api'', Some ''notifications'', Some ''unread-count''], ''notifications.unread_count''),
     (''PATCH'', [Some '''', Some ''api'', Some ''notifications'', None, Some ''read''], ''notifications.mark_read''),
     (''PATCH'', [Some '''', Some ''api'', Some ''notifications'', Some ''read-all''], ''notifications.mark_all_read'')]"
  by code_simp

lemma activity_routes_table: "activity_routes =
    [(''GET'', [Some '''', Some ''api'', Some ''activity''], ''activity.list_activity'')]"
  by code_simp

lemma sse_routes_table: "sse_routes =
    [(''GET'', [Some '''', Some ''api'', Some ''sse''], ''sse.sse_stream'')]"
  by code_simp

declare auth_routes_table [code] calendar_routes_table [code] dashboards_routes_table [code] health_routes_table [code]
  invites_routes_table [code] lists_routes_table [code] notifications_routes_table [code] activity_routes_table [code]
  sse_routes_table [code]

section \<open>No route shadows another\<close>

text \<open>What an id may stand for; and whether an earlier template can match an instance of a later one.\<close>

fun seg_instance :: "string option list \<Rightarrow> string list \<Rightarrow> bool" where
  "seg_instance [] [] = True"
| "seg_instance (Some s # ts) (p # ps) = (s = p \<and> seg_instance ts ps)"
| "seg_instance (None # ts) (p # ps) = (id_ok p \<and> seg_instance ts ps)"
| "seg_instance _ _ = False"

fun clash :: "string option list \<Rightarrow> string option list \<Rightarrow> bool" where
  "clash [] [] = True"
| "clash (Some a # ts) (Some b # us) = (a = b \<and> clash ts us)"
| "clash (Some a # ts) (None # us) = (id_ok a \<and> clash ts us)"
| "clash (None # ts) (u # us) = clash ts us"
| "clash _ _ = False"

fun unshadowed :: "route list \<Rightarrow> bool" where
  "unshadowed [] = True"
| "unshadowed ((m, t, h) # rs) = (list_all (\<lambda>(m', t', h'). m' = m \<longrightarrow> \<not> clash t t') rs \<and> unshadowed rs)"

lemma instance_matches: "seg_instance t ps \<Longrightarrow> seg_matches t ps"
  by (induction t ps rule: seg_instance.induct) auto

lemma matches_clash: "seg_instance u ps \<Longrightarrow> seg_matches t ps \<Longrightarrow> clash t u"
proof (induction u ps arbitrary: t rule: seg_instance.induct)
  case 1
  then show ?case by (cases t rule: list.exhaust) auto
next
  case (2 s ts p ps)
  then show ?case by (cases t; cases "hd t") auto
next
  case (3 ts p ps)
  then show ?case by (cases t; cases "hd t") auto
qed auto

lemma find_unshadowed:
  "unshadowed rs \<Longrightarrow> (m, u, h) \<in> set rs \<Longrightarrow> seg_instance u ps \<Longrightarrow>
     find (\<lambda>(m', t, h'). m' = m \<and> seg_matches t ps) rs = Some (m, u, h)"
proof (induction rs)
  case (Cons r rs)
  obtain m' t h' where r: "r = (m', t, h')" by (cases r) auto
  show ?case
  proof (cases "r = (m, u, h)")
    case True
    then show ?thesis using Cons.prems(3) instance_matches by simp
  next
    case False
    then have "(m, u, h) \<in> set rs" using Cons.prems(2) by auto
    moreover from this have "\<not> (m' = m \<and> seg_matches t ps)"
      using Cons.prems(1,3) matches_clash by (fastforce simp: r list_all_iff)
    ultimately show ?thesis using Cons.IH Cons.prems(1,3) by (auto simp: r)
  qed
qed simp

lemma api_router_unshadowed: "unshadowed api_router"
  by code_simp

section \<open>Every call arrives\<close>

text \<open>A call fits when a row names its handler and takes its method and path.\<close>

definition fits :: "api_request \<times> string \<Rightarrow> bool" where
  "fits c \<longleftrightarrow> list_ex (\<lambda>(m, t, h). h = snd c \<and> m = rq_method (fst c) \<and>
     seg_instance t (split_segments CHR 0x2F (path_of (rq_url (fst c))))) api_router"

lemma fits_row:
  "(m, t, h) \<in> set api_router \<Longrightarrow> rq_method rq = m \<Longrightarrow>
     seg_instance t (split_segments CHR 0x2F (path_of (rq_url rq))) \<Longrightarrow> fits (rq, h)"
  by (auto simp: fits_def list_ex_iff)

lemma fits_arrives: "fits c \<Longrightarrow> handler_of (fst c) = Some (snd c)"
  using find_unshadowed [OF api_router_unshadowed]
  by (auto simp: fits_def handler_of_def list_ex_iff)

lemma auth_rows:
  "(''POST'', [Some '''', Some ''api'', Some ''auth'', Some ''register''], ''auth.register'') \<in> set api_router"
  "(''POST'', [Some '''', Some ''api'', Some ''auth'', Some ''verify-email''], ''auth.verify_email'') \<in> set api_router"
  "(''POST'', [Some '''', Some ''api'', Some ''auth'', Some ''resend-verification''], ''auth.resend_verification'') \<in> set api_router"
  "(''POST'', [Some '''', Some ''api'', Some ''auth'', Some ''password-reset'', Some ''request''], ''auth.request_password_reset'') \<in> set api_router"
  "(''POST'', [Some '''', Some ''api'', Some ''auth'', Some ''password-reset'', Some ''check''], ''auth.check_password_reset_token'') \<in> set api_router"
  "(''POST'', [Some '''', Some ''api'', Some ''auth'', Some ''password-reset'', Some ''confirm''], ''auth.confirm_password_reset'') \<in> set api_router"
  "(''POST'', [Some '''', Some ''api'', Some ''auth'', Some ''login''], ''auth.login'') \<in> set api_router"
  "(''POST'', [Some '''', Some ''api'', Some ''auth'', Some ''logout''], ''auth.logout'') \<in> set api_router"
  "(''GET'', [Some '''', Some ''api'', Some ''auth'', Some ''me''], ''auth.me'') \<in> set api_router"
  "(''GET'', [Some '''', Some ''api'', Some ''auth'', Some ''sessions''], ''auth.list_sessions'') \<in> set api_router"
  "(''DELETE'', [Some '''', Some ''api'', Some ''auth'', Some ''sessions'', None], ''auth.revoke_other_session'') \<in> set api_router"
  "(''PATCH'', [Some '''', Some ''api'', Some ''auth'', Some ''profile''], ''auth.update_profile'') \<in> set api_router"
  "(''PATCH'', [Some '''', Some ''api'', Some ''auth'', Some ''password''], ''auth.change_password'') \<in> set api_router"
  "(''POST'', [Some '''', Some ''api'', Some ''auth'', Some ''email-change''], ''auth.request_email_change'') \<in> set api_router"
  "(''POST'', [Some '''', Some ''api'', Some ''auth'', Some ''email-change'', Some ''confirm''], ''auth.confirm_own_email_change'') \<in> set api_router"
  "(''DELETE'', [Some '''', Some ''api'', Some ''auth'', Some ''account''], ''auth.delete_own_account'') \<in> set api_router"
  "(''PATCH'', [Some '''', Some ''api'', Some ''auth'', Some ''preferences''], ''auth.update_preferences'') \<in> set api_router"
  by (simp_all add: api_router_def auth_routes_table)

lemma calendar_rows:
  "(''POST'', [Some '''', Some ''api'', Some ''calendar'', Some ''events''], ''calendar.create_event'') \<in> set api_router"
  "(''GET'', [Some '''', Some ''api'', Some ''calendar'', Some ''events''], ''calendar.list_occurrences'') \<in> set api_router"
  "(''GET'', [Some '''', Some ''api'', Some ''calendar'', Some ''events'', Some ''trash''], ''calendar.event_trash'') \<in> set api_router"
  "(''GET'', [Some '''', Some ''api'', Some ''calendar'', Some ''events'', None], ''calendar.get_event'') \<in> set api_router"
  "(''PATCH'', [Some '''', Some ''api'', Some ''calendar'', Some ''events'', None], ''calendar.update_event'') \<in> set api_router"
  "(''PATCH'', [Some '''', Some ''api'', Some ''calendar'', Some ''events'', None, Some ''occurrences''], ''calendar.update_occurrence'') \<in> set api_router"
  "(''DELETE'', [Some '''', Some ''api'', Some ''calendar'', Some ''events'', None], ''calendar.delete_event'') \<in> set api_router"
  "(''POST'', [Some '''', Some ''api'', Some ''calendar'', Some ''events'', None, Some ''restore''], ''calendar.restore_event'') \<in> set api_router"
  "(''DELETE'', [Some '''', Some ''api'', Some ''calendar'', Some ''events'', None, Some ''trash''], ''calendar.purge_trashed_event'') \<in> set api_router"
  "(''GET'', [Some '''', Some ''api'', Some ''calendar'', Some ''events'', None, Some ''shares''], ''calendar.list_event_shares'') \<in> set api_router"
  "(''POST'', [Some '''', Some ''api'', Some ''calendar'', Some ''events'', None, Some ''shares''], ''calendar.add_event_share'') \<in> set api_router"
  "(''PATCH'', [Some '''', Some ''api'', Some ''calendar'', Some ''events'', None, Some ''shares'', None], ''calendar.update_event_share'') \<in> set api_router"
  "(''DELETE'', [Some '''', Some ''api'', Some ''calendar'', Some ''events'', None, Some ''shares'', None], ''calendar.delete_event_share'') \<in> set api_router"
  by (simp_all add: api_router_def calendar_routes_table)

lemma dashboards_rows:
  "(''GET'', [Some '''', Some ''api'', Some ''dashboards''], ''dashboards.list_dashboards'') \<in> set api_router"
  "(''POST'', [Some '''', Some ''api'', Some ''dashboards''], ''dashboards.create_dashboard'') \<in> set api_router"
  "(''PATCH'', [Some '''', Some ''api'', Some ''dashboards'', None], ''dashboards.update_dashboard_meta'') \<in> set api_router"
  "(''DELETE'', [Some '''', Some ''api'', Some ''dashboards'', None], ''dashboards.delete_dashboard'') \<in> set api_router"
  "(''GET'', [Some '''', Some ''api'', Some ''dashboards'', Some ''trash''], ''dashboards.list_trash'') \<in> set api_router"
  "(''POST'', [Some '''', Some ''api'', Some ''dashboards'', None, Some ''restore''], ''dashboards.restore_dashboard'') \<in> set api_router"
  "(''DELETE'', [Some '''', Some ''api'', Some ''dashboards'', None, Some ''trash''], ''dashboards.purge_trashed_dashboard'') \<in> set api_router"
  "(''GET'', [Some '''', Some ''api'', Some ''dashboards'', None], ''dashboards.get_dashboard'') \<in> set api_router"
  "(''PUT'', [Some '''', Some ''api'', Some ''dashboards'', None, Some ''layout''], ''dashboards.update_layout'') \<in> set api_router"
  "(''POST'', [Some '''', Some ''api'', Some ''dashboards'', None, Some ''widgets''], ''dashboards.add_widget'') \<in> set api_router"
  "(''PATCH'', [Some '''', Some ''api'', Some ''dashboards'', None, Some ''widgets'', None], ''dashboards.update_widget'') \<in> set api_router"
  "(''DELETE'', [Some '''', Some ''api'', Some ''dashboards'', None, Some ''widgets'', None], ''dashboards.delete_widget'') \<in> set api_router"
  "(''GET'', [Some '''', Some ''api'', Some ''dashboards'', None, Some ''members''], ''dashboards.list_dashboard_members'') \<in> set api_router"
  "(''GET'', [Some '''', Some ''api'', Some ''dashboards'', None, Some ''shares''], ''dashboards.list_dashboard_shares'') \<in> set api_router"
  "(''PATCH'', [Some '''', Some ''api'', Some ''dashboards'', None, Some ''shares'', None], ''dashboards.update_dashboard_share'') \<in> set api_router"
  "(''DELETE'', [Some '''', Some ''api'', Some ''dashboards'', None, Some ''shares'', None], ''dashboards.delete_dashboard_share'') \<in> set api_router"
  "(''POST'', [Some '''', Some ''api'', Some ''dashboards'', None, Some ''owner''], ''dashboards.transfer_dashboard_ownership'') \<in> set api_router"
  "(''DELETE'', [Some '''', Some ''api'', Some ''dashboards'', None, Some ''membership''], ''dashboards.leave_dashboard'') \<in> set api_router"
  by (simp_all add: api_router_def dashboards_routes_table)

lemma invites_rows:
  "(''POST'', [Some '''', Some ''api'', Some ''dashboards'', None, Some ''invites''], ''invites.create_invite'') \<in> set api_router"
  "(''GET'', [Some '''', Some ''api'', Some ''dashboards'', None, Some ''invites''], ''invites.list_invites'') \<in> set api_router"
  "(''DELETE'', [Some '''', Some ''api'', Some ''dashboards'', None, Some ''invites'', None], ''invites.delete_invite'') \<in> set api_router"
  "(''GET'', [Some '''', Some ''api'', Some ''invites'', None], ''invites.preview_invite'') \<in> set api_router"
  "(''POST'', [Some '''', Some ''api'', Some ''invites'', None, Some ''accept''], ''invites.accept_invite'') \<in> set api_router"
  by (simp_all add: api_router_def invites_routes_table)

lemma lists_rows:
  "(''POST'', [Some '''', Some ''api'', Some ''lists''], ''lists.create_list'') \<in> set api_router"
  "(''GET'', [Some '''', Some ''api'', Some ''lists''], ''lists.list_lists'') \<in> set api_router"
  "(''PUT'', [Some '''', Some ''api'', Some ''lists'', Some ''order''], ''lists.reorder_lists'') \<in> set api_router"
  "(''GET'', [Some '''', Some ''api'', Some ''lists'', Some ''details''], ''lists.list_list_details'') \<in> set api_router"
  "(''GET'', [Some '''', Some ''api'', Some ''lists'', Some ''trash''], ''lists.list_trash'') \<in> set api_router"
  "(''POST'', [Some '''', Some ''api'', Some ''lists'', None, Some ''restore''], ''lists.restore_list'') \<in> set api_router"
  "(''DELETE'', [Some '''', Some ''api'', Some ''lists'', None, Some ''trash''], ''lists.purge_trashed_list'') \<in> set api_router"
  "(''GET'', [Some '''', Some ''api'', Some ''lists'', None], ''lists.get_list'') \<in> set api_router"
  "(''PATCH'', [Some '''', Some ''api'', Some ''lists'', None], ''lists.update_list'') \<in> set api_router"
  "(''DELETE'', [Some '''', Some ''api'', Some ''lists'', None], ''lists.delete_list'') \<in> set api_router"
  "(''POST'', [Some '''', Some ''api'', Some ''lists'', None, Some ''items''], ''lists.create_item'') \<in> set api_router"
  "(''PATCH'', [Some '''', Some ''api'', Some ''lists'', None, Some ''items'', None], ''lists.update_item'') \<in> set api_router"
  "(''DELETE'', [Some '''', Some ''api'', Some ''lists'', None, Some ''items'', None], ''lists.delete_item'') \<in> set api_router"
  "(''PUT'', [Some '''', Some ''api'', Some ''lists'', None, Some ''items'', Some ''order''], ''lists.reorder_items'') \<in> set api_router"
  "(''GET'', [Some '''', Some ''api'', Some ''lists'', None, Some ''shares''], ''lists.list_list_shares'') \<in> set api_router"
  "(''POST'', [Some '''', Some ''api'', Some ''lists'', None, Some ''shares''], ''lists.add_list_share'') \<in> set api_router"
  "(''PATCH'', [Some '''', Some ''api'', Some ''lists'', None, Some ''shares'', None], ''lists.update_list_share'') \<in> set api_router"
  "(''DELETE'', [Some '''', Some ''api'', Some ''lists'', None, Some ''shares'', None], ''lists.delete_list_share'') \<in> set api_router"
  by (simp_all add: api_router_def lists_routes_table)

lemma notifications_rows:
  "(''GET'', [Some '''', Some ''api'', Some ''notifications''], ''notifications.list_notifications'') \<in> set api_router"
  "(''GET'', [Some '''', Some ''api'', Some ''notifications'', Some ''unread-count''], ''notifications.unread_count'') \<in> set api_router"
  "(''PATCH'', [Some '''', Some ''api'', Some ''notifications'', None, Some ''read''], ''notifications.mark_read'') \<in> set api_router"
  "(''PATCH'', [Some '''', Some ''api'', Some ''notifications'', Some ''read-all''], ''notifications.mark_all_read'') \<in> set api_router"
  by (simp_all add: api_router_def notifications_routes_table)

lemma activity_rows:
  "(''GET'', [Some '''', Some ''api'', Some ''activity''], ''activity.list_activity'') \<in> set api_router"
  by (simp_all add: api_router_def activity_routes_table)

lemmas fitting = auth_rows [THEN fits_row] calendar_rows [THEN fits_row] dashboards_rows [THEN fits_row]
  invites_rows [THEN fits_row] lists_rows [THEN fits_row] notifications_rows [THEN fits_row] activity_rows [THEN fits_row]

lemma list_calls_fit: "args_ok h k \<Longrightarrow> list_all fits (list_calls h k)"
  unfolding list_calls_def Let_def args_ok_def
  by (simp add: fitting routing apiGetLists_def apiGetListDetails_def apiGetList_def apiCreateList_def
    apiUpdateList_def apiDeleteList_def apiGetListTrash_def apiRestoreList_def apiPurgeList_def apiCreateItem_def
    apiUpdateItem_def apiDeleteItem_def apiReorderItems_def apiReorderLists_def apiGetListShares_def apiAddListShare_def
    apiUpdateListShare_def apiRemoveListShare_def)

lemma calendar_calls_fit: "args_ok h k \<Longrightarrow> list_all fits (calendar_calls h k)"
  unfolding calendar_calls_def Let_def args_ok_def
  by (simp add: fitting routing apiGetOccurrences_def apiCreateEvent_def apiGetEvent_def
    apiUpdateEvent_def apiDeleteEvent_def apiGetEventTrash_def apiPurgeEvent_def apiRestoreEvent_def
    apiGetEventShares_def apiAddEventShare_def apiUpdateEventShare_def apiRemoveEventShare_def Let_def)

lemma dashboard_calls_fit: "args_ok h k \<Longrightarrow> list_all fits (dashboard_calls h k)"
  unfolding dashboard_calls_def Let_def args_ok_def
  by (simp add: fitting routing apiListDashboards_def apiListDashboardMembers_def apiGetDashboard_def
    apiCreateDashboard_def apiUpdateDashboardMeta_def apiDeleteDashboard_def apiLeaveDashboard_def apiGetTrash_def
    apiRestoreDashboard_def apiPurgeDashboard_def apiUpdateLayout_def apiAddWidget_def apiUpdateWidget_def
    apiRemoveWidget_def apiGetDashboardShares_def apiUpdateDashboardShare_def apiTransferDashboardOwnership_def
    apiRemoveDashboardShare_def apiCreateInvite_def apiGetInvites_def apiRevokeInvite_def apiPreviewInvite_def
    apiAcceptInvite_def)

lemma account_calls_fit: "args_ok h k \<Longrightarrow> list_all fits (account_calls h k)"
  unfolding account_calls_def Let_def args_ok_def
  by (simp add: fitting routing apiGetNotifications_def apiGetUnreadCount_def apiMarkRead_def
    apiMarkAllRead_def apiGetActivity_def apiGetMe_def apiLogin_def apiRegister_def apiVerifyEmail_def
    apiResendVerification_def apiRequestPasswordReset_def apiCheckPasswordResetToken_def apiConfirmPasswordReset_def
    apiLogout_def apiUpdatePreferences_def apiUpdateProfile_def apiChangePassword_def apiRequestEmailChange_def
    apiConfirmEmailChange_def apiDeleteAccount_def apiListSessions_def apiRevokeSession_def Let_def split: option.split)

text \<open>C5. 
  Every call of the client, with any ids, texts, queries and bodies, arrives at the handler it is written for: no
  route shadows another and no method or path is misspelt on either side.
\<close>

theorem calls_reach_their_handlers:
  assumes "args_ok h k"
  shows "list_all (\<lambda>(rq, handler). handler_of rq = Some handler)
    (list_calls h k @ calendar_calls h k @ dashboard_calls h k @ account_calls h k)"
  using list_calls_fit [OF assms] calendar_calls_fit [OF assms] dashboard_calls_fit [OF assms] account_calls_fit [OF assms]
    fits_arrives
  by (auto simp: list_all_iff)

definition sample_args :: call_args where
  "sample_args = \<lparr>k_d = ''d1'', k_l = ''l1'', k_i = ''i1'', k_e = ''e1'', k_s = ''s1'', k_w = ''w1'', k_v = ''v1'', k_n = ''n1'',
     k_session = ''x1'', k_code = ''code'', k_opt = Some ''d1'', k_cursor = None, k_text = ''t'', k_json = JNull, k_ids = [],
     k_layout = [], k_gesture = None\<rparr>"

definition sample_api_host :: api_host where
  "sample_api_host = \<lparr>ah_encode = (\<lambda>s. s), ah_query = (\<lambda>ps. concat (map (\<lambda>(a, b). a @ ''='' @ b) ps)), ah_null_read = ''TypeError''\<rparr>"

theorem calls_reach_their_handlers_witness:
  "handler_of (fn_request (apiReorderItems sample_api_host ''l1'' [])) = Some ''lists.reorder_items''"
proof -
  have "args_ok sample_api_host sample_args" by code_simp
  from calls_reach_their_handlers [OF this] show ?thesis
    by (simp add: list_calls_def sample_args_def Let_def)
qed

end
