(* ===== verification/SessionsData.thy ===== *)
theory SessionsData
  imports AgendaData
begin

text \<open>
  Two small resources on the scoped cache: the account's live sessions (\<open>frontend/src/resources/sessionsData.ts\<close>) and
  a dashboard's roster (\<open>resources/membersData.ts\<close>). The pages of sessions are not refetched after a revocation but
  patched, and a page that was on its way meanwhile is filtered as it arrives.

  The lemmas: the cache keeps or drops an entry's data in every step but an answer, a patch and a seed, so what is
  filtered at the two doors stays out; in every run no revoked session is shown until the sign-out.
\<close>

section \<open>Sessions\<close>

record session_cursor =
  sk_created_at :: string
  sk_id :: string

record session_summary =
  ss_id :: string
  ss_created_at :: string
  ss_device_name :: "string option"
  ss_is_current :: bool
  ss_last_used_at :: string

record session_page =
  sp_items :: "session_summary list"
  sp_next_cursor :: "session_cursor option"

definition sessions_key :: "session_cursor option \<Rightarrow> string" where
  "sessions_key cursor = (case cursor of Some c \<Rightarrow> sk_created_at c @ '':'' @ sk_id c | None \<Rightarrow> ''newest'')"

definition SESSIONS_FALLBACK :: string where
  "SESSIONS_FALLBACK = ''Failed to load sessions.''"

type_synonym sessions_cache = "(session_cursor option, session_page) cache"

record sessions_store =
  sd_cache :: sessions_cache
  sd_revoked :: "string list"
  sd_generation :: nat
  sd_tasks :: "(nat \<times> nat \<times> string) list"
  sd_next :: nat

definition initial_sessions :: sessions_store where
  "initial_sessions = \<lparr>sd_cache = empty_cache, sd_revoked = [], sd_generation = 0, sd_tasks = [], sd_next = 0\<rparr>"

definition without :: "(string \<Rightarrow> bool) \<Rightarrow> session_page \<Rightarrow> session_page" where
  "without gone page = page\<lparr>sp_items := filter (\<lambda>s. \<not> gone (ss_id s)) (sp_items page)\<rparr>"

text \<open>The fetcher's answer, filtered as it arrives.\<close>

definition sessionsAnswer :: "nat \<Rightarrow> session_page reply \<Rightarrow> sessions_store \<Rightarrow> sessions_store" where
  "sessionsAnswer r reply st =
     st\<lparr>sd_cache := answer SESSIONS_FALLBACK r (map_sum id (without (\<lambda>i. i \<in> set (sd_revoked st))) reply) (sd_cache st)\<rparr>"

definition revokeOtherSession :: "string \<Rightarrow> sessions_store \<Rightarrow> sessions_store" where
  "revokeOtherSession i st =
     st\<lparr>sd_tasks := sd_tasks st @ [(sd_next st, sd_generation st, i)], sd_next := sd_next st + 1\<rparr>"

text \<open>What follows a revocation that holds: every page on the cache loses the row, unless the session is another.\<close>

definition revoke_holds :: "nat \<Rightarrow> string \<Rightarrow> sessions_store \<Rightarrow> sessions_store" where
  "revoke_holds generation i st =
     (if generation \<noteq> sd_generation st then st
      else st\<lparr>sd_revoked := List.insert i (sd_revoked st),
              sd_cache := updateWhere (\<lambda>_. True) (\<lambda>_ (d, l, e). (map_option (without (\<lambda>j. j = i)) d, l, e)) (sd_cache st)\<rparr>)"

text \<open>A refusal that says the session is gone counts as done; the store gets whether the call threw.\<close>

definition revokeReply :: "nat \<Rightarrow> unit reply \<Rightarrow> sessions_store \<Rightarrow> sessions_store \<times> thrown option" where
  "revokeReply n reply st =
     (case map_of (sd_tasks st) n of
        None \<Rightarrow> (st, None)
      | Some (generation, i) \<Rightarrow>
          (let st = st\<lparr>sd_tasks := AList.delete n (sd_tasks st)\<rparr> in
           case reply of
             Inl err \<Rightarrow> if error_status err \<noteq> Some 404 then (st, Some err) else (revoke_holds generation i st, None)
           | Inr u \<Rightarrow> (revoke_holds generation i st, None)))"

definition resetSessionsData :: "sessions_store \<Rightarrow> sessions_store" where
  "resetSessionsData st = st\<lparr>sd_cache := reset (sd_cache st), sd_revoked := []\<rparr>"

text \<open>A sign-out: the generation moves and the resources are reset.\<close>

definition sessions_sign_out :: "sessions_store \<Rightarrow> sessions_store" where
  "sessions_sign_out st = resetSessionsData (st\<lparr>sd_generation := sd_generation st + 1\<rparr>)"

text \<open>What readers do to the cache: every event of it but answers, patches, seeds and resets.\<close>

definition reader_event :: "('s, 'd) cache_event \<Rightarrow> bool" where
  "reader_event e \<longleftrightarrow> (case e of Answer r reply \<Rightarrow> False | Seed s d \<Rightarrow> False | ResetCache \<Rightarrow> False | Update P f \<Rightarrow> False | _ \<Rightarrow> True)"

datatype sessions_event =
    SessionsReader "(session_cursor option, session_page) cache_event"
  | SessionsAnswer nat "session_page reply"
  | Revoke string
  | RevokeAnswer nat "unit reply"
  | SessionsSignOut

fun sessions_step :: "nat \<Rightarrow> sessions_event \<Rightarrow> sessions_store \<Rightarrow> sessions_store" where
  "sessions_step cap (SessionsReader e) st =
     (if reader_event e then st\<lparr>sd_cache := cache_step sessions_key cap SESSIONS_FALLBACK e (sd_cache st)\<rparr> else st)"
| "sessions_step cap (SessionsAnswer r reply) st = sessionsAnswer r reply st"
| "sessions_step cap (Revoke i) st = revokeOtherSession i st"
| "sessions_step cap (RevokeAnswer n reply) st = fst (revokeReply n reply st)"
| "sessions_step cap SessionsSignOut st = sessions_sign_out st"

section \<open>What a reader does to the data\<close>

text \<open>Every object's data is what it was or nothing.\<close>

definition keeps_data :: "('s, 'd) cache \<Rightarrow> ('s, 'd) cache \<Rightarrow> bool" where
  "keeps_data ca ca' \<longleftrightarrow> (\<forall>ob en'. ca_heap ca' ob = Some en' \<longrightarrow>
     en_data en' = None \<or> (\<exists>en. ca_heap ca ob = Some en \<and> en_data en' = en_data en))"

lemma keeps_refl [simp]: "keeps_data ca ca"
  by (simp add: keeps_data_def)

lemma keeps_trans: "keeps_data a b \<Longrightarrow> keeps_data b c \<Longrightarrow> keeps_data a c"
  unfolding keeps_data_def by metis

lemma keeps_put:
  "en_data en' = None \<or> (\<exists>en. ca_heap ca ob = Some en \<and> en_data en' = en_data en) \<Longrightarrow> keeps_data ca (put ob en' ca)"
  by (auto simp: keeps_data_def)

lemma keeps_heap: "ca_heap ca' = ca_heap ca \<Longrightarrow> keeps_data ca ca'"
  by (auto simp: keeps_data_def)

lemma keeps_evict: "keeps_data ca (evictColdEntries cap ca)"
  by (rule keeps_heap) simp

lemma keeps_touch: "keeps_data ca (touch ob ca)"
  by (rule keeps_heap) (simp add: touch_def split: option.split)

lemma keeps_ensure: "ensureEntry getKey cap scope ca = (ob, ca') \<Longrightarrow> keeps_data ca ca'"
  by (auto simp: ensureEntry_def Let_def fresh_entry_def keeps_data_def split: option.splits if_splits)

lemma keeps_fetch: "keeps_data ca (fetch getKey cap scope bg ca)"
proof -
  obtain ob ca1 where e: "ensureEntry getKey cap scope ca = (ob, ca1)" by force
  define ca2 where "ca2 = touch ob ca1"
  have 12: "keeps_data ca ca2" using keeps_trans [OF keeps_ensure [OF e] keeps_touch] by (simp add: ca2_def)
  have "keeps_data ca ((put ob (begin_fetch bg r en) ca2)\<lparr>ca_next := n, ca_requests := rs\<rparr>)"
    if "ca_heap ca1 ob = Some en" for en r n rs
  proof (rule keeps_trans [OF 12])
    have "ca_heap ca2 ob = Some en" using that by (simp add: ca2_def)
    then show "keeps_data ca2 ((put ob (begin_fetch bg r en) ca2)\<lparr>ca_next := n, ca_requests := rs\<rparr>)"
      by (auto simp: keeps_data_def begin_fetch_def Let_def)
  qed
  then show ?thesis using 12 e by (auto simp: fetch_def Let_def ca2_def [symmetric] split: option.split)
qed

lemma keeps_fold:
  "(\<And>ob ca. keeps_data ca (f ob ca)) \<Longrightarrow> keeps_data ca (fold f obs ca)"
  by (induction obs arbitrary: ca) (auto intro: keeps_trans)

lemma keeps_invalidate_one: "keeps_data ca (invalidate_one getKey cap P bg a ob ca)"
  by (auto simp: invalidate_one_def Let_def intro!: keeps_trans [OF keeps_put keeps_fetch] keeps_put split: option.split)

lemma keeps_on_entry:
  assumes "\<And>en. en_data (f en) = en_data en"
  shows "keeps_data ca (on_entry getKey cap scope f ca)"
proof -
  obtain ob ca1 where e: "ensureEntry getKey cap scope ca = (ob, ca1)" by force
  show ?thesis using keeps_ensure [OF e] e assms
    by (auto simp: on_entry_def intro: keeps_trans [OF _ keeps_put] split: option.split)
qed

lemma keeps_reader:
  assumes "reader_event e"
  shows "keeps_data ca (cache_step getKey cap fb e ca)"
proof (cases e)
  case (FetchIfStale scope)
  obtain ob ca1 where "ensureEntry getKey cap scope ca = (ob, ca1)" by force
  then show ?thesis using FetchIfStale keeps_ensure [of getKey cap scope ca]
    by (auto simp: fetchIfStale_def intro: keeps_trans [OF _ keeps_fetch] split: option.split)
next
  case (Read scope)
  obtain ob ca1 where "ensureEntry getKey cap scope ca = (ob, ca1)" by force
  then show ?thesis using Read keeps_ensure [of getKey cap scope ca] by (simp add: getState_def)
next
  case (MountEffect scope)
  obtain ob ca1 where "ensureEntry getKey cap scope ca = (ob, ca1)" by force
  then show ?thesis using MountEffect keeps_ensure [of getKey cap scope ca]
    by (auto simp: mount_effect_def intro: keeps_trans [OF _ keeps_fetch] split: option.split)
next
  case (Unsubscribe ob l)
  then show ?thesis by (auto simp: unsubscribe_def intro: keeps_put split: option.split)
qed (use assms in \<open>auto simp: reader_event_def invalidateWhere_def subscribe_def
    intro: keeps_fetch keeps_fold keeps_invalidate_one keeps_on_entry\<close>)

section \<open>A revoked session stays out\<close>

definition shown_sessions :: "sessions_store \<Rightarrow> string list" where
  "shown_sessions st = concat (map (\<lambda>(k, ob). case Option.bind (ca_heap (sd_cache st) ob) en_data of
     Some page \<Rightarrow> map ss_id (sp_items page) | None \<Rightarrow> []) (ca_entries (sd_cache st)))"

text \<open>The objects on the cache hold pages without the ids in question.\<close>

definition pages_clean :: "string set \<Rightarrow> sessions_cache \<Rightarrow> bool" where
  "pages_clean gone ca \<longleftrightarrow> (\<forall>p \<in> set (ca_entries ca). \<forall>en page. ca_heap ca (snd p) = Some en \<longrightarrow> en_data en = Some page \<longrightarrow>
     (\<forall>s \<in> set (sp_items page). ss_id s \<notin> gone))"

definition sessions_ok :: "sessions_store \<Rightarrow> bool" where
  "sessions_ok st \<longleftrightarrow> cache_inv sessions_key (sd_cache st) \<and> pages_clean (set (sd_revoked st)) (sd_cache st)"

lemma clean_reader:
  assumes inv: "cache_inv getKey ca" and "reader_event e" and clean: "pages_clean gone ca"
  shows "pages_clean gone (cache_step getKey cap fb e ca)"
proof -
  have "\<And>r reply. e \<noteq> Answer r reply" "\<And>s d. e \<noteq> Seed s d" "e \<noteq> ResetCache"
    using assms(2) by (auto simp: reader_event_def)
  from moves_step [OF inv this, of cap fb] have entries:
    "\<forall>p \<in> set (ca_entries (cache_step getKey cap fb e ca)). snd p \<in> snd ` set (ca_entries ca) \<or> ca_next ca \<le> snd p"
    by (simp add: moves_def)
  have heap: "ca_heap ca ob = None" if "ca_next ca \<le> ob" for ob
    using inv that by (auto simp: cache_inv_def heap_ok_def not_less)
  show ?thesis unfolding pages_clean_def
  proof (intro ballI allI impI)
    fix p en' page s
    assume p: "p \<in> set (ca_entries (cache_step getKey cap fb e ca))"
      and en': "ca_heap (cache_step getKey cap fb e ca) (snd p) = Some en'" "en_data en' = Some page" "s \<in> set (sp_items page)"
    from keeps_reader [OF assms(2)] en' obtain en where en: "ca_heap ca (snd p) = Some en" "en_data en = Some page"
      unfolding keeps_data_def by (metis option.distinct(1))
    then have "\<not> ca_next ca \<le> snd p" using heap by auto
    then obtain q where "q \<in> set (ca_entries ca)" "snd q = snd p" using entries p by force
    then show "ss_id s \<notin> gone" using clean en en'(3) unfolding pages_clean_def by metis
  qed
qed

lemma clean_answer:
  assumes "pages_clean (set gone) ca"
  shows "pages_clean (set gone) (answer fb r (map_sum id (without (\<lambda>i. i \<in> set gone)) reply) ca)"
  using assms
  by (cases reply) (fastforce simp: pages_clean_def answer_def settle_entry_def without_def Let_def split: option.splits if_splits)+

lemma clean_revoke:
  assumes "cache_inv getKey ca" "pages_clean gone ca"
  shows "pages_clean (insert i gone) (updateWhere (\<lambda>_. True) (\<lambda>_ (d, l, e). (map_option (without (\<lambda>j. j = i)) d, l, e)) ca)"
  using assms(2) distinct_objects [OF assms(1)]
  by (force simp: pages_clean_def updateWhere_def fold_update_heap patched_def patch_entry_def without_def)

lemma revoke_holds_ok: "sessions_ok st \<Longrightarrow> sessions_ok (revoke_holds g i st)"
proof -
  assume ok: "sessions_ok st"
  let ?u = "\<lambda>_ (d, l, e). (map_option (without (\<lambda>j. j = i)) d, l, e)"
  have u: "?u = (\<lambda>_. data_patch (\<lambda>(d, e). (map_option (without (\<lambda>j. j = i)) d, e, True)))"
    by (auto simp: data_patch_def fun_eq_iff)
  have inv: "cache_inv sessions_key (sd_cache st)" using ok by (simp add: sessions_ok_def)
  have "cache_inv sessions_key (updateWhere (\<lambda>_. True) ?u (sd_cache st))"
    unfolding u by (rule updateWhere_inv [OF inv])
  then show ?thesis using ok clean_revoke [of sessions_key "sd_cache st" "set (sd_revoked st)" i]
    by (simp add: sessions_ok_def revoke_holds_def)
qed

lemma sessions_step_ok: "sessions_ok st \<Longrightarrow> sessions_ok (sessions_step cap e st)"
proof (cases e)
  case (SessionsReader ev)
  assume "sessions_ok st"
  then show ?thesis using SessionsReader clean_reader cache_step_inv by (auto simp: sessions_ok_def)
next
  case (SessionsAnswer r reply)
  assume "sessions_ok st"
  then show ?thesis using SessionsAnswer clean_answer cache_step_inv [of sessions_key "sd_cache st" cap SESSIONS_FALLBACK
      "Answer r (map_sum id (without (\<lambda>i. i \<in> set (sd_revoked st))) reply)"]
    by (simp add: sessions_ok_def sessionsAnswer_def)
next
  case (RevokeAnswer n reply)
  assume ok: "sessions_ok st"
  have "sessions_ok (st\<lparr>sd_tasks := ts\<rparr>)" for ts using ok by (simp add: sessions_ok_def)
  then show ?thesis using ok RevokeAnswer revoke_holds_ok
    by (auto simp: revokeReply_def Let_def split: option.split sum.split)
next
  case SessionsSignOut
  assume "sessions_ok st"
  then show ?thesis using SessionsSignOut reset_inv
    by (auto simp: sessions_ok_def sessions_sign_out_def resetSessionsData_def pages_clean_def reset_def)
qed (simp add: sessions_ok_def revokeOtherSession_def)

lemma clean_shown: "sessions_ok st \<Longrightarrow> set (shown_sessions st) \<inter> set (sd_revoked st) = {}"
  by (force simp: sessions_ok_def pages_clean_def shown_sessions_def split: option.splits bind_split)

interpretation sessions_runs: event_machine "sessions_step cap" sessions_ok for cap
  by unfold_locales (rule sessions_step_ok)

text \<open>
  In every run, whatever pages are refetched, paged through, answered late or evicted: no page on the cache shows a
  session that was revoked in this tab since the last sign-out.
\<close>

theorem revoked_session_stays_out:
  "let st = fold (sessions_step cap) es initial_sessions in set (shown_sessions st) \<inter> set (sd_revoked st) = {}"
proof -
  have "sessions_ok initial_sessions"
    using empty_inv by (simp add: sessions_ok_def initial_sessions_def pages_clean_def) (simp add: empty_cache_def)
  from sessions_runs.run_inv [OF this, of cap es] show ?thesis
    unfolding Let_def by (rule clean_shown)
qed

section \<open>The roster of a dashboard\<close>

record member =
  mb_user_id :: string
  mb_display_name :: string

type_synonym members_cache = "(string, member list) cache"

text \<open>A share change is never told apart from the tab's own: no mutation patches this cache.\<close>

definition handleMembersResourceEvent :: "nat \<Rightarrow> resource_event \<Rightarrow> members_cache \<Rightarrow> members_cache" where
  "handleMembersResourceEvent cap event ca =
     (case event of
        Resync \<Rightarrow> invalidateWhere id cap (\<lambda>_. True) None None ca
      | Frame e \<Rightarrow>
          if \<not> starts_with ''dashboard.share_'' (event_type_str (e_event_type e)) then ca
          else invalidateWhere id cap (\<lambda>scope. scope = e_entity_id e) None None ca)"

definition resetMembersData :: "members_cache \<Rightarrow> members_cache" where
  "resetMembersData ca = reset ca"

lemma only_share_frames_reload_rosters:
  "e_event_type e \<notin> {DashboardShareAdded, DashboardShareUpdated, DashboardShareRemoved} \<Longrightarrow>
     handleMembersResourceEvent cap (Frame e) ca = ca"
  by (cases "e_event_type e") (simp_all add: handleMembersResourceEvent_def starts_with_def)

end
