(* ===== verification/AccountForms.thy ===== *)
theory AccountForms
  imports AuthStore
begin

text \<open>
  The forms around an account: the verification page (\<open>frontend/src/pages/VerifyEmailPage.tsx\<close>), the change of the
  address (\<open>components/auth/EmailChangeRow.tsx\<close>, \<open>pages/ConfirmEmailChangePage.tsx\<close>), signing in, up and resetting a
  password (\<open>pages/LoginPage.tsx\<close>, \<open>RegisterPage.tsx\<close>, \<open>ForgotPasswordPage.tsx\<close>, \<open>ResetPasswordPage.tsx\<close>) and the three
  forms of the profile (\<open>pages/ProfilePage.tsx\<close>). A form is what it refuses, what it sends and what it says of the
  answer; lower-casing is the host's.

  The lemmas: following a verification link never switches accounts unasked while the tab knows who is signed in, and
  a link is not sent more often than once a minute; a form sends exactly what passes all its checks and names every
  field that does not; the password forms send what the server's schema takes.
\<close>

section \<open>The verification page\<close>

definition RESEND_COOLDOWN_SECONDS :: nat where
  "RESEND_COOLDOWN_SECONDS = 60"

text \<open>The dash of the first sentence is outside Latin-1.\<close>

definition getVerificationErrorMessage :: "thrown \<Rightarrow> string" where
  "getVerificationErrorMessage err =
     (if error_status err = Some 409 then ''Your email is already verified - please sign in below.''
      else if error_status err = Some 400 then ''That verification link is invalid or expired. Request a new link below.''
      else error_message err ''Email verification failed'')"

datatype switch_step = SwitchPending | SwitchAsk | SwitchGo

definition settleSwitch :: "auth_status \<Rightarrow> string option \<Rightarrow> string option \<Rightarrow> switch_step" where
  "settleSwitch authStatus token signedInAs =
     (if authStatus = AuthLoading then SwitchPending
      else if truthy token \<and> truthy signedInAs then SwitchAsk else SwitchGo)"

datatype verify_status = VIdle | Verifying | Verified | Resending

record verify_page =
  vp_token :: "string option"
  vp_auth :: auth_status
  vp_signedInAs :: "string option"
  vp_email :: string
  vp_status :: verify_status
  vp_message :: "string option"
  vp_error :: "string option"
  vp_alreadyVerified :: bool
  vp_cooldown :: nat
  vp_switch :: switch_step
  vp_verifies :: nat
  vp_resends :: "string list"

text \<open>The effect runs on mount and when the step becomes \<open>go\<close>, which happens once.\<close>

definition verify_effect :: "verify_page \<Rightarrow> verify_page" where
  "verify_effect st =
     (if truthy (vp_token st) \<and> vp_switch st = SwitchGo
      then st\<lparr>vp_status := Verifying, vp_error := None, vp_verifies := vp_verifies st + 1\<rparr> else st)"

definition mount_verify :: "string option \<Rightarrow> string option \<Rightarrow> auth_status \<Rightarrow> string option \<Rightarrow> verify_page" where
  "mount_verify token email authStatus signedInAs =
     verify_effect \<lparr>vp_token = token, vp_auth = authStatus, vp_signedInAs = signedInAs,
       vp_email = (case email of Some e \<Rightarrow> e | None \<Rightarrow> []),
       vp_status = (if truthy token then Verifying else VIdle), vp_message = None, vp_error = None,
       vp_alreadyVerified = False, vp_cooldown = 0, vp_switch = settleSwitch authStatus token signedInAs,
       vp_verifies = 0, vp_resends = []\<rparr>"

definition settle_effect :: "verify_page \<Rightarrow> verify_page" where
  "settle_effect st =
     (if vp_switch st = SwitchPending
      then verify_effect (st\<lparr>vp_switch := settleSwitch (vp_auth st) (vp_token st) (vp_signedInAs st)\<rparr>) else st)"

definition continue_switch :: "verify_page \<Rightarrow> verify_page" where
  "continue_switch st = (if vp_switch st = SwitchAsk then verify_effect (st\<lparr>vp_switch := SwitchGo\<rparr>) else st)"

definition verifyAnswer :: "unit reply \<Rightarrow> verify_page \<Rightarrow> verify_page" where
  "verifyAnswer reply st =
     (case reply of
        Inr u \<Rightarrow> st\<lparr>vp_status := Verified\<rparr>
      | Inl err \<Rightarrow> st\<lparr>vp_status := VIdle, vp_alreadyVerified := (error_status err = Some 409),
          vp_error := Some (getVerificationErrorMessage err)\<rparr>)"

definition resend_disabled :: "verify_page \<Rightarrow> bool" where
  "resend_disabled st \<longleftrightarrow> vp_status st = Resending \<or> vp_status st = Verifying \<or> vp_cooldown st > 0"

definition handleResend :: "verify_page \<Rightarrow> verify_page" where
  "handleResend st =
     (if resend_disabled st then st
      else st\<lparr>vp_error := None, vp_message := None, vp_status := Resending, vp_resends := vp_resends st @ [vp_email st]\<rparr>)"

definition resendAnswer :: "unit reply \<Rightarrow> verify_page \<Rightarrow> verify_page" where
  "resendAnswer reply st =
     (case reply of
        Inr u \<Rightarrow> st\<lparr>vp_message := Some ''If that address needs verifying, a link is on its way. Check spam too.'',
          vp_cooldown := RESEND_COOLDOWN_SECONDS, vp_status := VIdle\<rparr>
      | Inl err \<Rightarrow> st\<lparr>vp_error := Some (if error_status err = Some 429 then ''Too many requests. Try again in a minute.''
            else error_message err ''Failed to resend verification email''), vp_status := VIdle\<rparr>)"

text \<open>The timer's callback; there is a timer only while seconds are left.\<close>

definition cooldown_tick :: "verify_page \<Rightarrow> verify_page" where
  "cooldown_tick st = st\<lparr>vp_cooldown := vp_cooldown st - 1\<rparr>"

datatype verify_event =
    AuthMoves auth_status "string option" | ContinueSwitch | VerifyAnswered "unit reply"
  | EmailTyped string | ResendPressed | ResendAnswered "unit reply" | SecondPasses

fun verify_step :: "verify_event \<Rightarrow> verify_page \<Rightarrow> verify_page" where
  "verify_step (AuthMoves s e) st = settle_effect (st\<lparr>vp_auth := s, vp_signedInAs := e\<rparr>)"
| "verify_step ContinueSwitch st = continue_switch st"
| "verify_step (VerifyAnswered r) st = (if vp_status st = Verifying \<and> vp_verifies st > 0 then verifyAnswer r st else st)"
| "verify_step (EmailTyped v) st = st\<lparr>vp_email := v\<rparr>"
| "verify_step ResendPressed st = handleResend st"
| "verify_step (ResendAnswered r) st = (if vp_status st = Resending then resendAnswer r st else st)"
| "verify_step SecondPasses st = (if vp_cooldown st > 0 then cooldown_tick st else st)"

lemmas verify_ops = verify_effect_def settle_effect_def continue_switch_def verifyAnswer_def handleResend_def
  resendAnswer_def cooldown_tick_def settleSwitch_def

text \<open>The account the first settled answer of the store names, if any.\<close>

fun settled_after :: "verify_event list \<Rightarrow> string option" where
  "settled_after [] = None"
| "settled_after (ev # es) =
     (case ev of AuthMoves s e \<Rightarrow> if s \<noteq> AuthLoading then e else settled_after es | _ \<Rightarrow> settled_after es)"

definition settled_as :: "auth_status \<Rightarrow> string option \<Rightarrow> verify_event list \<Rightarrow> string option" where
  "settled_as s e es = (if s \<noteq> AuthLoading then e else settled_after es)"

definition asks_first :: "verify_event list \<Rightarrow> verify_page \<Rightarrow> bool" where
  "asks_first es st \<longleftrightarrow> vp_verifies st = 0 \<and> truthy (vp_token st) \<and>
     (vp_switch st = SwitchAsk \<or> vp_switch st = SwitchPending \<and> truthy (settled_after es))"

lemma asks_first_step:
  "asks_first (ev # es) st \<Longrightarrow> ev \<noteq> ContinueSwitch \<Longrightarrow> asks_first es (verify_step ev st)"
  by (cases ev) (auto simp: asks_first_def verify_ops split: sum.split if_splits)

lemma asks_first_run:
  "asks_first es st \<Longrightarrow> ContinueSwitch \<notin> set es \<Longrightarrow> vp_verifies (fold verify_step es st) = 0"
  by (induction es arbitrary: st) (auto simp: asks_first_step, simp add: asks_first_def)

text \<open>C14. 
  Following a link never swaps accounts unasked: when the store's first settled answer is that somebody is signed in,
  the link is not used before Continue is pressed, whatever happens meanwhile.
\<close>

theorem no_switch_without_asking:
  assumes "truthy token" "truthy (settled_as s e es)" "ContinueSwitch \<notin> set es"
  shows "vp_verifies (fold verify_step es (mount_verify token email s e)) = 0"
proof -
  have "asks_first es (mount_verify token email s e)"
    using assms(1,2) by (auto simp: asks_first_def mount_verify_def verify_ops settled_as_def split: if_splits)
  then show ?thesis using assms(3) by (rule asks_first_run)
qed

theorem no_switch_without_asking_witness:
  "vp_verifies (fold verify_step [AuthMoves SignedInStatus (Some ''me''), SecondPasses]
     (mount_verify (Some ''t'') None AuthLoading None)) = 0"
  by (rule no_switch_without_asking) (simp_all add: settled_as_def)

text \<open>When the first check could not reach the server, nobody is known to be signed in and the link is used at once.\<close>

theorem unreachable_session_is_switched:
  "vp_verifies (fold verify_step [AuthMoves Unreachable None] (mount_verify (Some ''t'') None AuthLoading None)) = 1"
  by code_simp

section \<open>Sending a link again\<close>

definition good_send :: "verify_event \<Rightarrow> bool" where
  "good_send e \<longleftrightarrow> (case e of ResendAnswered r \<Rightarrow> \<not> isl r | _ \<Rightarrow> False)"

text \<open>The sends that were answered well, and the seconds that passed while one was not to be sent again.\<close>

fun verify_counts :: "verify_event list \<Rightarrow> verify_page \<Rightarrow> nat \<times> nat" where
  "verify_counts [] st = (0, 0)"
| "verify_counts (e # es) st =
     (case verify_counts es (verify_step e st) of (sent, secs) \<Rightarrow>
        (sent + of_bool (good_send e \<and> vp_status st = Resending),
         secs + of_bool (e = SecondPasses \<and> vp_cooldown st > 0)))"

definition cooldown_ok :: "verify_page \<Rightarrow> bool" where
  "cooldown_ok st \<longleftrightarrow> vp_cooldown st \<le> RESEND_COOLDOWN_SECONDS \<and> (vp_status st = Resending \<longrightarrow> vp_cooldown st = 0)"

lemma cooldown_step: "cooldown_ok st \<Longrightarrow> cooldown_ok (verify_step e st)"
  by (cases e) (auto simp: cooldown_ok_def verify_ops resend_disabled_def split: sum.split)

lemma cooldown_sent:
  assumes "cooldown_ok st" "good_send e" "vp_status st = Resending"
  shows "vp_cooldown st = 0 \<and> vp_cooldown (verify_step e st) = RESEND_COOLDOWN_SECONDS"
  using assms by (auto simp: good_send_def cooldown_ok_def resendAnswer_def split: verify_event.splits sum.splits)

lemma cooldown_other:
  assumes "\<not> (good_send e \<and> vp_status st = Resending)"
  shows "vp_cooldown (verify_step e st) = vp_cooldown st - of_bool (e = SecondPasses)"
  using assms by (cases e) (auto simp: good_send_def verify_ops split: sum.splits)

lemma sends_take_time:
  "cooldown_ok st \<Longrightarrow>
     60 * fst (verify_counts es st) + vp_cooldown st \<le> snd (verify_counts es st) + 60"
proof (induction es arbitrary: st)
  case Nil
  then show ?case by (simp add: cooldown_ok_def RESEND_COOLDOWN_SECONDS_def)
next
  case (Cons e es)
  obtain sent secs where c: "verify_counts es (verify_step e st) = (sent, secs)" by force
  have ih: "60 * sent + vp_cooldown (verify_step e st) \<le> secs + 60"
    using Cons.IH [OF cooldown_step [OF Cons.prems], of e] c by simp
  show ?case
  proof (cases "good_send e \<and> vp_status st = Resending")
    case True
    then have "e \<noteq> SecondPasses" by (auto simp: good_send_def)
    then show ?thesis using ih c cooldown_sent [OF Cons.prems, of e] True by (simp add: RESEND_COOLDOWN_SECONDS_def)
  next
    case False
    then show ?thesis using ih c cooldown_other [OF False] by (auto simp: of_bool_def split: if_splits)
  qed
qed

text \<open>
  Links are not sent faster than one a minute: n sends that the server took leave at least 60 (n - 1) seconds of
  waiting behind them.
\<close>

theorem one_link_per_minute:
  "60 * fst (verify_counts es (mount_verify token email s e)) \<le> snd (verify_counts es (mount_verify token email s e)) + 60"
proof -
  have "cooldown_ok (mount_verify token email s e)" by (auto simp: cooldown_ok_def mount_verify_def verify_effect_def)
  from sends_take_time [OF this, of es] show ?thesis by simp
qed

section \<open>Changing the address\<close>

record email_errors =
  ee_email :: "string option"
  ee_password :: "string option"
  ee_form :: "string option"

definition no_email_errors :: email_errors where
  "no_email_errors = \<lparr>ee_email = None, ee_password = None, ee_form = None\<rparr>"

record email_row =
  er_open :: bool
  er_busy :: bool
  er_sentTo :: "string option"
  er_errors :: email_errors
  er_sent :: "(string \<times> string) list"

definition pending_address :: "(string \<Rightarrow> string) \<Rightarrow> string \<Rightarrow> email_row \<Rightarrow> string option" where
  "pending_address lower email st =
     (case er_sentTo st of Some a \<Rightarrow> if a \<noteq> [] \<and> lower a \<noteq> lower email then Some a else None | None \<Rightarrow> None)"

definition email_problems :: "(string \<Rightarrow> string) \<Rightarrow> string \<Rightarrow> string \<Rightarrow> string \<Rightarrow> email_errors" where
  "email_problems lower email newEmail password =
     \<lparr>ee_email = (if newEmail = [] then Some ''Enter the new email address.''
        else if lower newEmail = lower email then Some ''This is already your email.'' else None),
      ee_password = (if password = [] then Some ''Enter your password.'' else None), ee_form = None\<rparr>"

definition email_handleSubmit :: "(string \<Rightarrow> string) \<Rightarrow> string \<Rightarrow> string \<Rightarrow> string \<Rightarrow> email_row \<Rightarrow> email_row" where
  "email_handleSubmit lower email typed password st =
     (let newEmail = js_trim typed; problems = email_problems lower email newEmail password;
          st = st\<lparr>er_errors := problems\<rparr> in
      if problems \<noteq> no_email_errors then st
      else st\<lparr>er_busy := True, er_sent := er_sent st @ [(newEmail, password)]\<rparr>)"

text \<open>The refusal's status decides which field is told; the detail is the server's own sentence, if it sent one.\<close>

definition email_failure :: "thrown \<Rightarrow> string option \<Rightarrow> email_errors" where
  "email_failure err detail =
     (case error_status err of
        None \<Rightarrow> no_email_errors\<lparr>ee_form := Some ''Could not send the link. Check your connection and try again.''\<rparr>
      | Some status \<Rightarrow>
          if status = 403 then no_email_errors\<lparr>ee_password := Some (error_message err [])\<rparr>
          else if status = 422 then
            no_email_errors\<lparr>ee_email := Some (case detail of Some d \<Rightarrow> d | None \<Rightarrow> ''Enter a valid email address.'')\<rparr>
          else if status = 429 then no_email_errors\<lparr>ee_form := Some ''Too many attempts. Try again in a minute.''\<rparr>
          else no_email_errors\<lparr>ee_form := Some ''Could not send the link. Try again in a moment.''\<rparr>)"

definition emailAnswer :: "string \<Rightarrow> unit reply \<Rightarrow> string option \<Rightarrow> email_row \<Rightarrow> email_row" where
  "emailAnswer newEmail reply detail st =
     (case reply of
        Inr u \<Rightarrow> st\<lparr>er_sentTo := Some newEmail, er_open := False, er_busy := False\<rparr>
      | Inl err \<Rightarrow> st\<lparr>er_errors := email_failure err detail, er_busy := False\<rparr>)"

text \<open>\<open>handleConfirm\<close> of the page the link leads to: what it says of a refusal.\<close>

definition confirm_failure :: "thrown \<Rightarrow> string" where
  "confirm_failure err =
     (case error_status err of
        None \<Rightarrow> ''Could not confirm. Check your connection and try again.''
      | Some status \<Rightarrow>
          if status = 400 then ''That link is invalid or expired. Ask for a new one from your profile.''
          else if status = 429 then ''Too many attempts. Try again in a minute.''
          else ''Could not confirm. Try again in a moment.'')"

section \<open>Passwords and names\<close>

record password_errors =
  pe_current :: "string option"
  pe_next :: "string option"
  pe_confirm :: "string option"

definition no_password_errors :: password_errors where
  "no_password_errors = \<lparr>pe_current = None, pe_next = None, pe_confirm = None\<rparr>"

definition password_problems :: "string \<Rightarrow> string \<Rightarrow> string \<Rightarrow> password_errors" where
  "password_problems currentPassword newPassword confirmPassword =
     \<lparr>pe_current = (if currentPassword = [] then Some ''Enter your current password.'' else None),
      pe_next = (if newPassword = [] then Some ''Enter a new password.''
        else if length newPassword < 8 then Some ''Use at least 8 characters.'' else None),
      pe_confirm = (if confirmPassword = [] then Some ''Re-enter the new password.''
        else if newPassword \<noteq> [] \<and> newPassword \<noteq> confirmPassword then Some ''This does not match the new password.''
        else None)\<rparr>"

text \<open>What a submitted form does: the errors it shows, or the request it sends.\<close>

definition handlePasswordSubmit :: "string \<Rightarrow> string \<Rightarrow> string \<Rightarrow> password_errors + (string \<times> string)" where
  "handlePasswordSubmit currentPassword newPassword confirmPassword =
     (let errors = password_problems currentPassword newPassword confirmPassword in
      if errors \<noteq> no_password_errors then Inl errors else Inr (currentPassword, newPassword))"

definition password_failure :: "thrown \<Rightarrow> password_errors" where
  "password_failure err =
     (let message = error_message err ''Failed to update password.'' in
      if error_status err = Some 403 then no_password_errors\<lparr>pe_current := Some message\<rparr>
      else no_password_errors\<lparr>pe_next := Some message\<rparr>)"

definition handleProfileSubmit :: "user \<Rightarrow> string \<Rightarrow> string + string" where
  "handleProfileSubmit currentUser typed =
     (let trimmedName = js_trim typed in
      if trimmedName = [] then Inl ''Display name is required.''
      else if trimmedName = u_display_name currentUser then Inl ''This is already your display name.''
      else Inr trimmedName)"

definition handleDeleteSubmit :: "string \<Rightarrow> string + string" where
  "handleDeleteSubmit password = (if password = [] then Inl ''Enter your password.'' else Inr password)"

definition reset_handleSubmit :: "string \<Rightarrow> string \<Rightarrow> string \<Rightarrow> string + (string \<times> string)" where
  "reset_handleSubmit token password confirmPassword =
     (if password \<noteq> confirmPassword then Inl ''Passwords do not match.'' else Inr (token, password))"

text \<open>The reset link is checked before its form is offered; an answer that never came is no verdict.\<close>

datatype token_state = TokenChecking | TokenValid | TokenInvalid

definition initial_token_state :: "string \<Rightarrow> token_state" where
  "initial_token_state token = (if token \<noteq> [] then TokenChecking else TokenInvalid)"

definition tokenChecked :: "bool reply \<Rightarrow> token_state" where
  "tokenChecked reply = (case reply of Inr valid \<Rightarrow> if valid then TokenValid else TokenInvalid | Inl err \<Rightarrow> TokenValid)"

text \<open>Where signing in leads: home, the verification page for an unverified account, or a message.\<close>

datatype login_end = GoHome | GoVerify string | LoginError string

definition loginAnswer :: "string \<Rightarrow> user reply \<Rightarrow> login_end" where
  "loginAnswer email reply =
     (case reply of
        Inr u \<Rightarrow> GoHome
      | Inl err \<Rightarrow> if error_status err = Some 403 then GoVerify email else LoginError (error_message err ''Login failed''))"

section \<open>What the forms send\<close>

text \<open>The server's \<open>PasswordChange\<close> schema on the new password, less its upper bound of 128.\<close>

definition schema_takes_password :: "string \<Rightarrow> bool" where
  "schema_takes_password p \<longleftrightarrow> 8 \<le> length p"

text \<open>
  A form of the account sends exactly when every field passes, says so at every field that does not at once, and
  what it sends the server's schema takes: a password of eight characters that was typed twice, a trimmed name and
  an address that are not the ones in use.
\<close>

theorem account_forms_send_what_passes:
  "(case handlePasswordSubmit cur new again of
      Inr (c, n) \<Rightarrow> c = cur \<and> n = new \<and> cur \<noteq> [] \<and> again = new \<and> schema_takes_password new
    | Inl errors \<Rightarrow> (pe_current errors = None) = (cur \<noteq> []) \<and> (pe_next errors = None) = schema_takes_password new \<and>
        (pe_confirm errors = None) = (again \<noteq> [] \<and> (new = [] \<or> again = new))) \<and>
   (case handleProfileSubmit u name of
      Inr n \<Rightarrow> n = js_trim name \<and> n \<noteq> [] \<and> n \<noteq> u_display_name u
    | Inl m \<Rightarrow> js_trim name \<in> {[], u_display_name u}) \<and>
   (let st' = email_handleSubmit lower email typed pw st in
    if js_trim typed \<noteq> [] \<and> lower (js_trim typed) \<noteq> lower email \<and> pw \<noteq> []
    then er_sent st' = er_sent st @ [(js_trim typed, pw)] \<and> er_errors st' = no_email_errors
    else er_sent st' = er_sent st \<and> (ee_email (er_errors st') = None) = (js_trim typed \<noteq> [] \<and> lower (js_trim typed) \<noteq> lower email) \<and>
      (ee_password (er_errors st') = None) = (pw \<noteq> []))"
proof -
  have new: "8 \<le> length new \<Longrightarrow> new \<noteq> []" by auto
  show ?thesis
  proof (intro conjI)
    show "case handlePasswordSubmit cur new again of
      Inr (c, n) \<Rightarrow> c = cur \<and> n = new \<and> cur \<noteq> [] \<and> again = new \<and> schema_takes_password new
    | Inl errors \<Rightarrow> (pe_current errors = None) = (cur \<noteq> []) \<and> (pe_next errors = None) = schema_takes_password new \<and>
        (pe_confirm errors = None) = (again \<noteq> [] \<and> (new = [] \<or> again = new))"
      using new by (auto simp: handlePasswordSubmit_def password_problems_def no_password_errors_def schema_takes_password_def Let_def)
  qed (auto simp: handleProfileSubmit_def email_handleSubmit_def email_problems_def no_email_errors_def Let_def)
qed

end
