(* ===== verification/WidgetLayout.thy ===== *)
theory WidgetLayout
  imports Complex_Main CalendarGrid AgendaData
begin

text \<open>
  What the calendar's cells and the two time widgets show: how many occurrences fit in a day's cell and how the month
  folds (\<open>frontend/src/components/calendar/CalendarDayOccurrences.tsx\<close>, \<open>CalendarDayNumber.tsx\<close>,
  \<open>dashboard/widgets/CalendarWidgetViews.tsx\<close>), which days a calendar widget shows and which window it loads
  (\<open>widgets/CalendarWidget.tsx\<close>), how the agenda is split (\<open>widgets/AgendaWidget.tsx\<close>) and the measurements all this
  starts from (\<open>hooks/useContainerSize.ts\<close>). A measured size is a fraction and a double is exact.

  The lemmas: a cell shows as many pills as its body holds and hides only what does not fit, nothing of a month cell
  is cut off unless even one pill under the smallest date would be, a widget has loaded every occurrence of every day
  it shows, and the agenda never leaves out anything of today.
\<close>

section \<open>Measurements\<close>

type_synonym container_size = "rat \<times> rat"

definition MIN_MEASURED_HEIGHT :: rat where
  "MIN_MEASURED_HEIGHT = 320"

text \<open>The ancestors of an element from the inside out: whether each scrolls, its padding and its bottom edge.\<close>

fun scrollableContentBottom :: "(bool \<times> rat \<times> rat) list \<Rightarrow> rat \<Rightarrow> rat" where
  "scrollableContentBottom [] innerHeight = innerHeight"
| "scrollableContentBottom ((scrolls, padding, bottom) # rest) innerHeight =
     (if scrolls then min (bottom - padding) innerHeight else scrollableContentBottom rest innerHeight)"

definition measured_height :: "(bool \<times> rat \<times> rat) list \<Rightarrow> rat \<Rightarrow> rat \<Rightarrow> rat" where
  "measured_height ancestors innerHeight elementTop =
     (let room = scrollableContentBottom ancestors innerHeight - elementTop in max MIN_MEASURED_HEIGHT room)"

text \<open>The observer's callback; the flag says that the state is the object it was, so nothing renders.\<close>

definition observed_size :: "container_size \<Rightarrow> container_size \<Rightarrow> container_size \<times> bool" where
  "observed_size previous entry =
     (if fst previous = fst entry \<and> snd previous = snd entry then (previous, True) else (entry, False))"

section \<open>The cell of a day\<close>

definition ROW_GAP :: rat where
  "ROW_GAP = 2"

datatype day_density = WeekCell | MonthCell

fun pill_height :: "day_density \<Rightarrow> rat" where
  "pill_height WeekCell = 21"
| "pill_height MonthCell = 16"

definition MONTH_PILL_HEIGHT :: rat where
  "MONTH_PILL_HEIGHT = pill_height MonthCell"

definition DAY_HEADING_GAP :: rat where
  "DAY_HEADING_GAP = 4"

definition day_number_height :: "bool \<Rightarrow> rat" where
  "day_number_height small = (if small then 9 else 19)"

definition FULL_DAY_NUMBER_MIN_WIDTH :: rat where
  "FULL_DAY_NUMBER_MIN_WIDTH = 40"

definition occurrenceTint :: "occurrence \<Rightarrow> string" where
  "occurrenceTint oc = (if o_recurring oc then ''bg-emerald-500/12 text-emerald-300'' else ''bg-sky-500/12 text-sky-300'')"

definition occurrenceDot :: "occurrence \<Rightarrow> string" where
  "occurrenceDot oc = (if o_recurring oc then ''bg-emerald-300'' else ''bg-sky-300'')"

definition fitOccurrenceRows :: "rat \<Rightarrow> rat \<Rightarrow> nat \<Rightarrow> nat \<times> nat" where
  "fitOccurrenceRows height rowHeight amount =
     (let rows = max 1 \<lfloor>(height + ROW_GAP) / (rowHeight + ROW_GAP)\<rfloor>; visible = min amount (nat rows)
      in (visible, amount - visible))"

fun join_lines :: "string list \<Rightarrow> string" where
  "join_lines [] = []"
| "join_lines [l] = l"
| "join_lines (l # ls) = l @ CHR 0x0A # join_lines ls"

definition hiddenOccurrencesTitle ::
    "host \<Rightarrow> formats \<Rightarrow> (string \<Rightarrow> int) \<Rightarrow> occurrence list \<Rightarrow> int \<Rightarrow> string" where
  "hiddenOccurrencesTitle h f parse hidden day =
     join_lines (map (\<lambda>oc. formatCalendarOccurrenceCellLabel h f parse oc day CompactLabel) hidden)"

record pill =
  pl_key :: string
  pl_tooltip :: string
  pl_tint :: string
  pl_prefix :: string
  pl_title :: string

text \<open>The pills of a cell and, when it hides some, how many and their tooltip.\<close>

definition CalendarDayOccurrences ::
    "host \<Rightarrow> formats \<Rightarrow> (string \<Rightarrow> int) \<Rightarrow> occurrence list \<Rightarrow> int \<Rightarrow> rat \<Rightarrow> day_density \<Rightarrow> pill list \<times> (nat \<times> string) option" where
  "CalendarDayOccurrences h f parse occurrences day height density =
     (case fitOccurrenceRows height (pill_height density) (length occurrences) of (visible, hidden) \<Rightarrow>
        (map (\<lambda>oc. \<lparr>pl_key = o_event_id oc @ '':'' @ o_original_start oc,
                    pl_tooltip = formatCalendarOccurrenceCellTitle h f parse oc day, pl_tint = occurrenceTint oc,
                    pl_prefix = calendarOccurrenceCellPrefix h f parse oc day CompactLabel, pl_title = o_title oc\<rparr>)
           (take visible occurrences),
         if hidden > 0 then Some (hidden, hiddenOccurrencesTitle h f parse (drop visible occurrences) day) else None))"

section \<open>The cells of a month\<close>

definition month_grid_gap :: "bool \<Rightarrow> rat" where
  "month_grid_gap tight = (if tight then 2 else 4)"

definition MONTH_CELL_FRAME :: rat where
  "MONTH_CELL_FRAME = 2 + 8"

definition MONTH_CELL_CHROME :: rat where
  "MONTH_CELL_CHROME = MONTH_CELL_FRAME + DAY_HEADING_GAP"

datatype month_cell_layout = FullDate | CompactDate | OneLine

definition monthCellLayout :: "rat \<Rightarrow> month_cell_layout" where
  "monthCellLayout cellHeight =
     (let room = cellHeight - MONTH_CELL_CHROME - MONTH_PILL_HEIGHT in
      if room \<ge> day_number_height False then FullDate
      else if room \<ge> day_number_height True then CompactDate else OneLine)"

record month_geometry =
  mg_rows :: nat
  mg_cellHeight :: rat
  mg_layout :: month_cell_layout
  mg_compactDate :: bool
  mg_bodyHeight :: rat

definition MonthCalendarWidget :: "bool \<Rightarrow> container_size \<Rightarrow> nat \<Rightarrow> month_geometry" where
  "MonthCalendarWidget tight grid days =
     (let rows = nat \<lceil>of_nat days / (7 :: rat)\<rceil>; gap = month_grid_gap tight;
          cellHeight = (snd grid - gap * (of_nat rows - 1)) / of_nat rows; layout = monthCellLayout cellHeight;
          bodyWidth = max 0 ((fst grid - gap * 6) / 7 - MONTH_CELL_FRAME);
          compactDate = (layout = CompactDate \<or> bodyWidth < FULL_DAY_NUMBER_MIN_WIDTH);
          bodyHeight = cellHeight - MONTH_CELL_CHROME - day_number_height compactDate
      in \<lparr>mg_rows = rows, mg_cellHeight = cellHeight, mg_layout = layout, mg_compactDate = compactDate,
          mg_bodyHeight = bodyHeight\<rparr>)"

text \<open>What a cell of one line shows: the first title, its tint and dot, and how many more there are.\<close>

definition one_line_cell ::
    "host \<Rightarrow> formats \<Rightarrow> (string \<Rightarrow> int) \<Rightarrow> occurrence list \<Rightarrow> int \<Rightarrow> (string \<times> string \<times> string) option \<times> (nat \<times> string) option" where
  "one_line_cell h f parse occurrences day =
     (case occurrences of
        [] \<Rightarrow> (None, None)
      | oc # rest \<Rightarrow> (Some (o_title oc, occurrenceTint oc, occurrenceDot oc),
          if length occurrences > 1 then Some (length occurrences - 1, hiddenOccurrencesTitle h f parse rest day) else None))"

section \<open>What fits\<close>

lemma fit_rows:
  assumes "rowHeight > 0" "fitOccurrenceRows height rowHeight amount = (v, hid)"
  shows "v + hid = amount" "amount > 0 \<Longrightarrow> v > 0"
    "rowHeight \<le> height \<Longrightarrow> v > 0 \<Longrightarrow> of_nat v * rowHeight + (of_nat v - 1) * ROW_GAP \<le> height"
    "hid > 0 \<Longrightarrow> height < of_nat (Suc v) * rowHeight + of_nat v * ROW_GAP"
proof -
  let ?q = "(height + ROW_GAP) / (rowHeight + ROW_GAP)"
  define rows where "rows = max 1 \<lfloor>?q\<rfloor>"
  have v: "v = min amount (nat rows)" and hid: "hid = amount - v"
    using assms(2) by (auto simp: fitOccurrenceRows_def rows_def Let_def)
  have pos: "rowHeight + ROW_GAP > 0" using assms(1) by (simp add: ROW_GAP_def)
  show "v + hid = amount" "amount > 0 \<Longrightarrow> v > 0" using v hid by (auto simp: rows_def)
  show "of_nat v * rowHeight + (of_nat v - 1) * ROW_GAP \<le> height" if "rowHeight \<le> height" "v > 0"
  proof -
    have "1 \<le> ?q" using that(1) pos by (simp add: field_simps)
    then have "rows = \<lfloor>?q\<rfloor>" by (simp add: rows_def)
    then have "int v \<le> \<lfloor>?q\<rfloor>" using v that(2) by linarith
    then have "of_nat v \<le> ?q" by (metis le_floor_iff of_int_of_nat_eq)
    then have "of_nat v * (rowHeight + ROW_GAP) \<le> height + ROW_GAP" using pos by (simp add: pos_le_divide_eq)
    then show ?thesis by (simp add: algebra_simps)
  qed
  show "height < of_nat (Suc v) * rowHeight + of_nat v * ROW_GAP" if "hid > 0"
  proof -
    have "1 \<le> rows" by (simp add: rows_def)
    then have "int v = rows" using v hid that by (simp add: min_def split: if_splits)
    then have "\<lfloor>?q\<rfloor> < int v + 1" by (simp add: rows_def)
    then have "?q < of_nat v + 1" by (metis floor_less_iff of_int_1 of_int_add of_int_of_nat_eq)
    then have "height + ROW_GAP < (of_nat v + 1) * (rowHeight + ROW_GAP)" using pos by (simp add: pos_divide_less_eq)
    then show ?thesis by (simp add: algebra_simps)
  qed
qed

lemma pill_height_pos [simp]: "pill_height d > 0"
  by (cases d) simp_all

definition cell_needs :: "bool \<Rightarrow> nat \<Rightarrow> rat" where
  "cell_needs small v = MONTH_CELL_FRAME + day_number_height small + DAY_HEADING_GAP +
     of_nat v * MONTH_PILL_HEIGHT + (of_nat v - 1) * ROW_GAP"

lemma month_body:
  "mg_bodyHeight (MonthCalendarWidget tight grid days) = mg_cellHeight (MonthCalendarWidget tight grid days) -
     MONTH_CELL_CHROME - day_number_height (mg_compactDate (MonthCalendarWidget tight grid days))"
  by (simp add: MonthCalendarWidget_def Let_def)

lemma month_layout:
  "mg_layout (MonthCalendarWidget tight grid days) = monthCellLayout (mg_cellHeight (MonthCalendarWidget tight grid days))"
  "mg_layout (MonthCalendarWidget tight grid days) = CompactDate \<Longrightarrow> mg_compactDate (MonthCalendarWidget tight grid days)"
  by (simp_all add: MonthCalendarWidget_def Let_def)

lemmas cell_sizes = MONTH_CELL_CHROME_def MONTH_CELL_FRAME_def DAY_HEADING_GAP_def MONTH_PILL_HEIGHT_def
  day_number_height_def ROW_GAP_def

lemma month_room:
  assumes "mg_layout (MonthCalendarWidget tight grid days) \<noteq> OneLine"
  shows "MONTH_PILL_HEIGHT \<le> mg_bodyHeight (MonthCalendarWidget tight grid days)"
proof -
  let ?g = "MonthCalendarWidget tight grid days"
  have "mg_cellHeight ?g - MONTH_CELL_CHROME - MONTH_PILL_HEIGHT \<ge> day_number_height (mg_compactDate ?g)"
    using assms month_layout(2) [of tight grid days] unfolding month_layout(1)
    by (cases "mg_compactDate ?g") (auto simp: monthCellLayout_def cell_sizes Let_def split: if_splits)
  then show ?thesis unfolding month_body by simp
qed

text \<open>C19. C19.
  A month folds to one line exactly when a pill under the smaller date would not fit; in every other layout the frame,
  the date, the gap under it and the pills shown fit in the cell, at least one of them, and "+N" stands only for what
  one more pill would have cut off. The rows and their gaps take exactly the grid's height.
\<close>

theorem month_cells_fit:
  assumes "days > 0"
  shows "let g = MonthCalendarWidget tight grid days; (v, hid) = fitOccurrenceRows (mg_bodyHeight g) MONTH_PILL_HEIGHT n in
    (mg_layout g = OneLine) = (mg_cellHeight g < cell_needs True 1) \<and>
    (mg_layout g \<noteq> OneLine \<and> n > 0 \<longrightarrow> v > 0 \<and> cell_needs (mg_compactDate g) v \<le> mg_cellHeight g) \<and>
    (hid > 0 \<longrightarrow> mg_cellHeight g < cell_needs (mg_compactDate g) (v + 1)) \<and> v + hid = n \<and> days \<le> 7 * mg_rows g \<and>
    of_nat (mg_rows g) * mg_cellHeight g + month_grid_gap tight * (of_nat (mg_rows g) - 1) = snd grid"
proof -
  let ?g = "MonthCalendarWidget tight grid days"
  obtain v hid where f: "fitOccurrenceRows (mg_bodyHeight ?g) MONTH_PILL_HEIGHT n = (v, hid)" by force
  have pos: "MONTH_PILL_HEIGHT > 0" by (simp add: MONTH_PILL_HEIGHT_def)
  note fit = fit_rows [OF pos f]
  have "(mg_layout ?g = OneLine) = (mg_cellHeight ?g < cell_needs True 1)"
    by (auto simp: month_layout(1) monthCellLayout_def cell_needs_def cell_sizes Let_def)
  moreover have "cell_needs (mg_compactDate ?g) v \<le> mg_cellHeight ?g" if "mg_layout ?g \<noteq> OneLine" "v > 0"
    using fit(3) [OF month_room [OF that(1)] that(2)] unfolding month_body by (simp add: cell_needs_def MONTH_CELL_CHROME_def)
  moreover have "mg_cellHeight ?g < cell_needs (mg_compactDate ?g) (v + 1)" if "hid > 0"
    using fit(4) [OF that] unfolding month_body by (simp add: cell_needs_def MONTH_CELL_CHROME_def algebra_simps)
  moreover have rows: "days \<le> 7 * mg_rows ?g"
  proof -
    have "of_nat days / (7 :: rat) \<le> of_int \<lceil>of_nat days / (7 :: rat)\<rceil>" by (rule le_of_int_ceiling)
    then have "of_nat days \<le> 7 * rat_of_int \<lceil>of_nat days / (7 :: rat)\<rceil>" by linarith
    then have "(of_int (int days) :: rat) \<le> of_int (7 * \<lceil>of_nat days / (7 :: rat)\<rceil>)" by simp
    then have "int days \<le> 7 * \<lceil>of_nat days / (7 :: rat)\<rceil>" by (simp only: of_int_le_iff)
    then show ?thesis by (simp add: MonthCalendarWidget_def Let_def)
  qed
  moreover have "of_nat (mg_rows ?g) * mg_cellHeight ?g + month_grid_gap tight * (of_nat (mg_rows ?g) - 1) = snd grid"
  proof -
    have "(of_nat (mg_rows ?g) :: rat) \<noteq> 0" using rows assms by auto
    then show ?thesis by (simp add: MonthCalendarWidget_def Let_def)
  qed
  ultimately show ?thesis using f fit(1,2) by (simp add: Let_def)
qed

text \<open>A month of 35 days on 250 by 300 pixels shows one of three pills, under the compact date for want of width.\<close>

theorem month_cells_fit_witness:
  "let g = MonthCalendarWidget False (250, 300) 35 in
     mg_layout g = FullDate \<and> mg_compactDate g \<and> mg_cellHeight g = 284 / 5 \<and> fitOccurrenceRows (mg_bodyHeight g) MONTH_PILL_HEIGHT 3 = (1, 2) \<and>
     cell_needs True 1 \<le> mg_cellHeight g"
  using month_cells_fit [of 35 False "(250, 300)" 3] by code_simp

section \<open>The calendar widget\<close>

datatype widget_view = DayView | WeekView | MonthView

fun view_string :: "widget_view \<Rightarrow> string" where
  "view_string DayView = ''day''"
| "view_string WeekView = ''week''"
| "view_string MonthView = ''month''"

text \<open>A stored view that is none of the three is the month.\<close>

definition widget_view_of :: "string option \<Rightarrow> widget_view" where
  "widget_view_of requested =
     (if requested = Some ''day'' then DayView else if requested = Some ''week'' then WeekView else MonthView)"

definition getWidgetWindow :: "host \<Rightarrow> (string \<Rightarrow> int) \<Rightarrow> widget_view \<Rightarrow> int \<Rightarrow> int \<times> int" where
  "getWidgetWindow h parse view today =
     (case view of
        DayView \<Rightarrow> (today, addDays h today 1)
      | WeekView \<Rightarrow> (let weekStart = startOfWeek h today in (weekStart, addDays h weekStart 7))
      | MonthView \<Rightarrow> (case calendarWindow h today of (start, end') \<Rightarrow> (parse start, parse end')))"

definition week_days :: "host \<Rightarrow> int \<Rightarrow> int list" where
  "week_days h today = (let start = startOfWeek h today in map (\<lambda>i. addDays h start (int i)) [0..<7])"

definition visible_days :: "host \<Rightarrow> widget_view \<Rightarrow> int \<Rightarrow> int list" where
  "visible_days h view today =
     (case view of DayView \<Rightarrow> [today] | WeekView \<Rightarrow> week_days h today | MonthView \<Rightarrow> monthWeeksInView h today)"

definition visibleOccurrencesByDate ::
    "host \<Rightarrow> (string \<Rightarrow> int) \<Rightarrow> occurrence list \<Rightarrow> widget_view \<Rightarrow> int \<Rightarrow> (string \<times> occurrence list) list" where
  "visibleOccurrencesByDate h parse occurrences view today =
     map (\<lambda>day. (dateKey h day, occurrencesForDate h parse occurrences day)) (visible_days h view today)"

text \<open>The view written back to the widget's configuration, if it changes.\<close>

definition handleViewChange :: "widget_view \<Rightarrow> widget_view \<Rightarrow> string option" where
  "handleViewChange view nextView = (if nextView = view then None else Some (view_string nextView))"

lemma stored_view_is_read_back: "handleViewChange v w = Some s \<Longrightarrow> widget_view_of (Some s) = w"
  by (cases w) (auto simp: handleViewChange_def widget_view_of_def split: if_splits)

lemma week_days_day:
  "zone_ok h \<Longrightarrow> map (local_day h) (week_days h today) = map (\<lambda>i. local_day h (startOfWeek h today) + int i) [0..<7]"
  by (simp add: week_days_def Let_def del: upt_rec_numeral)

lemma addDays_midnight:
  assumes "local_ms h t = 0"
  shows "addDays h t n = local_midnight h (local_day h t + n)"
  using assms date_fields(2) [of h t] make_day_add [of "getFullYear h t" "getMonth h t" "getDate h t" n]
  by (simp add: addDays_def setDate_def local_midnight_at)

lemma addDays_not_before:
  assumes "zone_ok h" shows "local_midnight h (local_day h t + n) \<le> addDays h t n"
  using before_midnight [OF assms, of "addDays h t n" "local_day h t + n"] assms by simp

lemma drawn_overlaps_days:
  assumes z: "zone_ok h" and mid: "local_ms h (startOfDay h day) = 0"
    and oc: "occursOnDate h parse oc day" and day: "a \<le> local_day h day" "local_day h day < b"
  shows "parse (o_occurrence_start oc) < local_midnight h b \<and> local_midnight h a < parse (o_occurrence_end oc)"
proof -
  from occursOnDate_exact [OF z mid, of parse oc] oc
  have "local_day h (parse (o_occurrence_start oc)) \<le> local_day h day"
    "local_day h day \<le> local_day h (parse (o_occurrence_end oc) - 1)" by (simp_all add: lastCoveredDay_def)
  then show ?thesis
    using before_midnight [OF z, of "parse (o_occurrence_start oc)" b] before_midnight [OF z, of "parse (o_occurrence_end oc) - 1" a] day
    by linarith
qed

text \<open>The window of a view in local days: its first day and the day after its last.\<close>

definition window_days :: "host \<Rightarrow> widget_view \<Rightarrow> int \<Rightarrow> int \<times> int" where
  "window_days h view today =
     (case view of
        DayView \<Rightarrow> (local_day h today, local_day h today + 1)
      | WeekView \<Rightarrow> (local_day h (startOfWeek h today), local_day h (startOfWeek h today) + 7)
      | MonthView \<Rightarrow> (grid_first h today, grid_first h today + 42))"

text \<open>A week begins at a midnight when the day it is asked for does; the midnight of its Sunday may be skipped.\<close>

lemma startOfWeek_midnight:
  assumes "zone_ok h" "local_ms h (startOfDay h t) = 0"
  shows "startOfWeek h t = local_midnight h (local_day h (startOfWeek h t))"
proof -
  have "startOfWeek h t = local_midnight h (local_day h (startOfDay h t) - getDay h (startOfDay h t))"
    using addDays_midnight [OF assms(2), of "- getDay h (startOfDay h t)"] by (simp add: startOfWeek_def Let_def)
  then show ?thesis using assms(1) by (simp add: local_midnight_day)
qed

text \<open>A window from the midnight of one of its days up to a date some days on holds those days in full.\<close>

lemma window_holds_days:
  assumes "zone_ok h" "w = local_midnight h a" "local_ms h (startOfDay h day) = 0" "occursOnDate h parse oc day"
    and "a \<le> local_day h day" "local_day h day < a + n"
  shows "parse (o_occurrence_start oc) < addDays h w n \<and> w < parse (o_occurrence_end oc)"
proof -
  have "local_midnight h (a + n) \<le> addDays h w n"
    using addDays_not_before [OF assms(1), of w n] assms(1,2) by (simp add: local_midnight_day)
  then show ?thesis using drawn_overlaps_days [OF assms(1,3,4,5,6)] assms(2) by linarith
qed

lemma visible_day_in_window:
  assumes "zone_ok h" "view = MonthView \<Longrightarrow> 100 \<le> getFullYear h today" "day \<in> set (visible_days h view today)"
  shows "fst (window_days h view today) \<le> local_day h day \<and> local_day h day < snd (window_days h view today)"
proof (cases view)
  case WeekView
  then have "local_day h day \<in> set (map (local_day h) (week_days h today))" using assms(3) by (simp add: visible_days_def)
  then show ?thesis unfolding week_days_day [OF assms(1)] using WeekView by (auto simp: window_days_def)
next
  case MonthView
  then have "local_day h day \<in> set (map (local_day h) (monthWeeksInView h today))" using assms(3) by (simp add: visible_days_def)
  moreover have "weeks_shown h today \<le> 6"
    using weekday_range [of "month_first h today"] month_days_range [of h today] by (simp add: weeks_shown_def)
  ultimately show ?thesis using monthWeeksInView_exact [OF assms(1) assms(2) [OF MonthView]] MonthView
    by (auto simp: window_days_def)
qed (use assms(3) in \<open>simp add: visible_days_def window_days_def\<close>)

text \<open>C17. C17.
  A calendar widget has asked for everything it shows: an occurrence drawn on one of the days of its view overlaps the
  window it loads. The day view needs nothing for this. The week view starts from today and the month view from the
  first of the month, and a day with no midnight (a clock change that skips it) hands its one o'clock on to the Sunday
  counted back from it: so the week view is only claimed where today begins at midnight, the month view where the first
  of the month does (and from the year 100 on), and both for the drawn days that do.
\<close>

theorem widget_loads_what_it_shows:
  assumes "zone_ok h" "today = startOfDay h now"
    and "day \<in> set (visible_days h view today)" "occursOnDate h parse oc day"
    and "view \<noteq> DayView \<Longrightarrow> local_ms h (startOfDay h day) = 0"
    and "view = WeekView \<Longrightarrow> local_ms h today = 0"
    and "view = MonthView \<Longrightarrow> local_ms h (startOfMonth h today) = 0 \<and> 100 \<le> getFullYear h today"
    and "view = MonthView \<Longrightarrow> parse (fst (calendarWindow h today)) = startOfWeek h (startOfMonth h today) \<and>
      parse (snd (calendarWindow h today)) = addDays h (startOfWeek h (startOfMonth h today)) 42"
  shows "parse (o_occurrence_start oc) < snd (getWidgetWindow h parse view today) \<and>
     fst (getWidgetWindow h parse view today) < parse (o_occurrence_end oc)"
proof (cases view)
  case DayView
  have "startOfDay h today = today" using assms(1,2) by (simp add: startOfDay_midnight local_midnight_day)
  then show ?thesis using assms(3,4) DayView
    by (simp add: visible_days_def getWidgetWindow_def occursOnDate_def Let_def)
next
  case WeekView
  have "startOfDay h today = today" using assms(1,2) by (simp add: startOfDay_midnight local_midnight_day)
  then have "startOfWeek h today = local_midnight h (local_day h (startOfWeek h today))"
    using assms(6) WeekView by (intro startOfWeek_midnight [OF assms(1)]) simp
  from window_holds_days [OF assms(1) this _ assms(4), of 7] visible_day_in_window [OF assms(1) _ assms(3)] assms(5) WeekView
  show ?thesis by (simp add: getWidgetWindow_def window_days_def Let_def)
next
  case MonthView
  let ?m = "startOfMonth h today"
  have "startOfDay h ?m = ?m"
    using assms(1,7) MonthView
    by (simp add: startOfDay_midnight startOfMonth_def Date_new_def local_midnight_at local_midnight_day)
  then have "startOfWeek h ?m = local_midnight h (grid_first h today)"
    using startOfWeek_midnight [OF assms(1), of ?m] gridStart_day [OF assms(1), of today] assms(7) MonthView by simp
  from window_holds_days [OF assms(1) this _ assms(4), of 42] visible_day_in_window [OF assms(1) _ assms(3)]
    assms(5,7,8) MonthView
  show ?thesis by (auto simp: getWidgetWindow_def window_days_def split: prod.split)
qed

definition january_parse :: "string \<Rightarrow> int" where
  "january_parse s = (if s = ''a'' then 79200000 else if s = ''b'' then 97200000
     else if s = ''1969-12-28T00:00:00.000Z'' then - 345600000 else 3283200000)"

theorem widget_loads_what_it_shows_witness:
  "january_parse ''a'' < snd (getWidgetWindow utc_zone january_parse WeekView 86400000) \<and>
   fst (getWidgetWindow utc_zone january_parse WeekView 86400000) < january_parse ''b''"
proof -
  have facts: "86400000 = startOfDay utc_zone 90000000" "86400000 \<in> set (visible_days utc_zone WeekView 86400000)"
    "occursOnDate utc_zone january_parse (sample_occurrence ''a'' ''b'') 86400000"
    "local_ms utc_zone (startOfDay utc_zone 86400000) = 0" "local_ms utc_zone 86400000 = 0"
    "local_ms utc_zone (startOfMonth utc_zone 86400000) = 0 \<and> 100 \<le> getFullYear utc_zone 86400000"
    "january_parse (fst (calendarWindow utc_zone 86400000)) = startOfWeek utc_zone (startOfMonth utc_zone 86400000) \<and>
     january_parse (snd (calendarWindow utc_zone 86400000)) = addDays utc_zone (startOfWeek utc_zone (startOfMonth utc_zone 86400000)) 42"
    by code_simp+
  from widget_loads_what_it_shows [OF zone_ok_utc facts] show ?thesis by (simp add: sample_occurrence_def)
qed

text \<open>
  The exception is real. Cairo skips the midnight of Friday 25 April 2025 (day 20203): on that day the week view loads
  from one in the morning of Sunday the 20th, so an occurrence of that Sunday from 00:00 to 01:00, which belongs to the
  first day drawn, is outside the window.
\<close>

definition cairo_spring :: host where
  "cairo_spring = two_offsets (20202 * 86400000 + 79200000) 7200000 10800000"

lemma zone_ok_cairo: "zone_ok cairo_spring"
proof -
  have "t < local_midnight cairo_spring n \<longleftrightarrow> local_day cairo_spring t < n" for n t
    unfolding cairo_spring_def two_offsets_def local_day_def local_midnight_def div_less_iff MS_DAY_def
    by (cases "n \<le> 20203") auto
  moreover have "local_day cairo_spring (h_utc cairo_spring l) = l div MS_DAY" for l
  proof (cases "20203 * 86400000 \<le> l \<and> l < 20203 * 86400000 + 3600000")
    case True
    then have "l div MS_DAY = 20203" "(l + 3600000) div MS_DAY = 20203"
      using div_day [of 20203 l] div_day [of 20203 "l + 3600000"] by auto
    with True show ?thesis by (auto simp: cairo_spring_def two_offsets_def local_day_def add.commute)
  next
    case False
    then show ?thesis by (auto simp: cairo_spring_def two_offsets_def local_day_def)
  qed
  ultimately show ?thesis by (simp add: zone_ok_def)
qed

definition april_parse :: "string \<Rightarrow> int" where
  "april_parse s = (if s = ''a'' then 20197 * 86400000 + 79200000 else 20197 * 86400000 + 82800000)"

theorem skipped_midnight_is_not_loaded:
  "let today = startOfDay cairo_spring (20203 * 86400000 + 36000000); oc = sample_occurrence ''a'' ''b'' in
   zone_ok cairo_spring \<and> dateKey cairo_spring today = ''2025-04-25'' \<and>
   dateKey cairo_spring (hd (visible_days cairo_spring WeekView today)) = ''2025-04-20'' \<and>
   occursOnDate cairo_spring april_parse oc (hd (visible_days cairo_spring WeekView today)) \<and>
   april_parse (o_occurrence_end oc) \<le> fst (getWidgetWindow cairo_spring april_parse WeekView today)"
  unfolding Let_def by (intro conjI zone_ok_cairo; code_simp)

section \<open>The agenda widget\<close>

definition MAX_ITEMS :: nat where
  "MAX_ITEMS = 10"

definition isToday :: "host \<Rightarrow> (string \<Rightarrow> int) \<Rightarrow> int \<Rightarrow> agenda_item \<Rightarrow> bool" where
  "isToday h parse now item =
     (let todayKey = dateKey h now in
      case item of
        AgendaReminder _ _ dueDate _ _ _ _ \<Rightarrow> str_cmp dueDate todayKey \<le> 0
      | AgendaEvent _ _ startsAt _ _ _ _ \<Rightarrow> dateKey h (parse startsAt) = todayKey)"

text \<open>Today's items and the upcoming ones of the widget.\<close>

definition AgendaWidget ::
    "host \<Rightarrow> (string \<Rightarrow> int) \<Rightarrow> int \<Rightarrow> agenda_item list option \<Rightarrow> agenda_item list \<times> agenda_item list" where
  "AgendaWidget h parse now data =
     (let all = (case data of Some d \<Rightarrow> d | None \<Rightarrow> []); todayItems = filter (isToday h parse now) all;
          upcomingBudget = nat (max 0 (int MAX_ITEMS - int (length todayItems)));
          upcomingItems = take upcomingBudget (filter (\<lambda>i. \<not> isToday h parse now i) all)
      in (todayItems, upcomingItems))"

record agenda_formats =
  af_formats :: formats
  af_weekday :: "int \<Rightarrow> string"
  af_day_label :: "int \<Rightarrow> string"

definition formatAgendaMeta :: "host \<Rightarrow> agenda_formats \<Rightarrow> (string \<Rightarrow> int) \<Rightarrow> int \<Rightarrow> agenda_item \<Rightarrow> string" where
  "formatAgendaMeta h f parse now item =
     (case item of
        AgendaReminder _ _ _ _ listName _ status \<Rightarrow>
          (if status = Overdue then ''Overdue'' else ''Due today'') @ [CHR '' '', CHR 0xB7, CHR '' ''] @ listName
      | AgendaEvent _ _ startsAt endsAt allDay _ _ \<Rightarrow>
          (let todayKey = dateKey h now; startsKey = dateKey h (parse startsAt);
               span = formatOccurrenceSpan h (af_formats f) parse startsAt endsAt allDay in
           if spansDays h parse startsAt endsAt then
             (let onToday = str_cmp startsKey todayKey \<le> 0 \<and> str_cmp todayKey (dateKey h (lastCoveredDay parse endsAt)) \<le> 0
              in (if onToday then ''Today'' else af_weekday f (parse startsAt)) @ [CHR '' '', CHR 0xB7, CHR '' ''] @ span)
           else (if startsKey = todayKey then ''Today'' else af_day_label f (parse startsAt)) @ [CHR '' '', CHR 0xB7, CHR '' ''] @ span))"

text \<open>
  The agenda never leaves out an item of today, shows at most ten items unless today alone has more, and the upcoming
  ones are the first of the others, none left out while there is room.
\<close>

theorem agenda_shows_all_of_today:
  "case AgendaWidget h parse now (Some items) of (today, upcoming) \<Rightarrow>
     today = filter (isToday h parse now) items \<and> length (today @ upcoming) \<le> max MAX_ITEMS (length today) \<and>
     (\<exists>rest. filter (\<lambda>i. \<not> isToday h parse now i) items = upcoming @ rest \<and>
        (rest = [] \<or> length (today @ upcoming) = max MAX_ITEMS (length today)))"
proof -
  define t u where "t = filter (isToday h parse now) items" and "u = filter (\<lambda>i. \<not> isToday h parse now i) items"
  let ?n = "nat (max 0 (int MAX_ITEMS - int (length t)))"
  have n: "length t + ?n = max MAX_ITEMS (length t)" unfolding max_def by (split if_split, arith)
  have w: "AgendaWidget h parse now (Some items) = (t, take ?n u)" by (simp add: AgendaWidget_def t_def u_def Let_def)
  have "u = take ?n u @ drop ?n u" "drop ?n u = [] \<or> length (take ?n u) = ?n" "length (take ?n u) \<le> ?n" by auto
  then show ?thesis unfolding w using n by (auto simp only: t_def u_def prod.case length_append)
qed

definition night_parse :: "string \<Rightarrow> int" where
  "night_parse s = (if s = ''a'' then 79200000 else 97200000)"

definition night_shift :: agenda_item where
  "night_shift = AgendaEvent ''e'' ''Night shift'' ''a'' ''b'' False False []"

definition due_today :: "nat \<Rightarrow> agenda_item" where
  "due_today i = AgendaReminder (dec i) ''x'' ''1970-01-02'' ''l'' ''L'' None DueToday"

lemma night_keys:
  "dateKey utc_zone 90000000 = ''1970-01-02''" "dateKey utc_zone 79200000 = ''1970-01-01''" "str_cmp ''1970-01-02'' ''1970-01-02'' = 0"
  by code_simp+

lemma night_today: "isToday utc_zone night_parse 90000000 (due_today i)" "\<not> isToday utc_zone night_parse 90000000 night_shift"
  by (simp_all add: isToday_def due_today_def night_shift_def night_parse_def night_keys)

text \<open>
  An event of the night that began yesterday and covers the morning of today is not one of today's, though its own
  label says "Today"; on a day with ten items it is not shown at all.
\<close>

theorem event_of_last_night_is_upcoming:
  "occursOnDate utc_zone night_parse (sample_occurrence ''a'' ''b'') 90000000 \<and>
   take 5 (formatAgendaMeta utc_zone f night_parse 90000000 night_shift) = ''Today'' \<and>
   AgendaWidget utc_zone night_parse 90000000 (Some [night_shift]) = ([], [night_shift]) \<and>
   snd (AgendaWidget utc_zone night_parse 90000000 (Some (map due_today [0..<10] @ [night_shift]))) = []"
proof -
  have "spansDays utc_zone night_parse ''a'' ''b''" "dateKey utc_zone (lastCoveredDay night_parse ''b'') = ''1970-01-02''"
    "str_cmp ''1970-01-01'' ''1970-01-02'' \<le> 0" "occursOnDate utc_zone night_parse (sample_occurrence ''a'' ''b'') 90000000"
    by code_simp+
  moreover have "night_parse ''a'' = 79200000" by (simp add: night_parse_def)
  ultimately show ?thesis
    by (simp add: formatAgendaMeta_def night_shift_def [symmetric] AgendaWidget_def night_today night_keys MAX_ITEMS_def Let_def
      filter_empty_conv del: upt_rec_numeral) (simp add: night_shift_def night_keys)
qed

end
