(* ===== verification/Palette.thy ===== *)
theory Palette
  imports Contract "HOL-Library.Word"
begin

unbundle bit_operations_syntax

text \<open>
  The colours and initials of the people of an event (\<open>frontend/src/utils/participantPalette.ts\<close>,
  \<open>components/calendar/ParticipantDots.tsx\<close>). The hash is kept at its 32 bits: \<open>| 0\<close> wraps, \<open><<\<close> drops what leaves
  the word, and \<open>Math.abs\<close> and \<open>%\<close> are taken on the number, where the smallest word has an absolute value.

  The lemmas: the wrapped hash is the unbounded one taken modulo \<open>2^32\<close> into the signed range, and the index it gives
  is always one of the palette's.
\<close>

definition PALETTE :: "string list" where
  "PALETTE = [''#f87171'', ''#fb923c'', ''#fbbf24'', ''#a3e635'', ''#34d399'', ''#22d3ee'', ''#60a5fa'', ''#a78bfa'',
     ''#f472b6'', ''#fb7185'']"

text \<open>One turn of the loop, and the loop.\<close>

definition hash_char :: "char \<Rightarrow> 32 word \<Rightarrow> 32 word" where
  "hash_char c hash = push_bit 5 hash + hash + of_nat (of_char c)"

definition participant_hash :: "string \<Rightarrow> 32 word" where
  "participant_hash userId = fold hash_char userId 5381"

definition participantColor :: "string \<Rightarrow> string" where
  "participantColor userId = PALETTE ! nat (\<bar>sint (participant_hash userId)\<bar> mod int (length PALETTE))"

definition participantInitial :: "(string \<Rightarrow> string) \<Rightarrow> string \<Rightarrow> string" where
  "participantInitial upper displayName = (case js_trim displayName of [] \<Rightarrow> ''?'' | first # rest \<Rightarrow> upper [first])"

definition MAX_DOTS :: nat where
  "MAX_DOTS = 3"

fun join_with :: "string \<Rightarrow> string list \<Rightarrow> string" where
  "join_with sep [] = []"
| "join_with sep [x] = x"
| "join_with sep (x # xs) = x @ sep @ join_with sep xs"

record dots =
  dt_label :: string
  dt_shown :: "(string \<times> string) list"
  dt_overflow :: "nat option"

definition ParticipantDots :: "(string \<Rightarrow> string) \<Rightarrow> participant list \<Rightarrow> dots option" where
  "ParticipantDots upper participants =
     (if participants = [] then None
      else let shown = take MAX_DOTS participants; overflow = length participants - length shown in
        Some \<lparr>dt_label = ''For '' @ join_with '', '' (map pt_display_name participants),
              dt_shown = map (\<lambda>p. (participantColor (pt_user_id p), participantInitial upper (pt_display_name p))) shown,
              dt_overflow = (if overflow > 0 then Some overflow else None)\<rparr>)"

definition ParticipantMicroDots :: "participant list \<Rightarrow> string list option" where
  "ParticipantMicroDots participants =
     (if participants = [] then None else Some (map (\<lambda>p. participantColor (pt_user_id p)) (take MAX_DOTS participants)))"

section \<open>The hash without a width\<close>

definition djb2 :: "string \<Rightarrow> int" where
  "djb2 s = fold (\<lambda>c h. 33 * h + of_char c) s 5381"

lemma hash_char_times: "hash_char c h = 33 * h + of_nat (of_char c)"
  by (simp add: hash_char_def push_bit_eq_mult)

lemma hash_fold: "fold hash_char s (word_of_int a) = word_of_int (fold (\<lambda>c h. 33 * h + of_char c) s a)"
proof (induction s arbitrary: a)
  case (Cons c s)
  have "hash_char c (word_of_int a) = word_of_int (33 * a + of_char c)"
    by (simp add: hash_char_times of_char_def)
  then show ?case by (simp only: fold_simps Cons.IH)
qed simp

text \<open>
  A person's colour is the same whether the hash is wrapped at every turn, as the code does, or computed exactly and
  wrapped once at the end; the index is within the palette, the smallest 32-bit value included.
\<close>

theorem colour_of_unbounded_hash:
  "participantColor userId = PALETTE ! nat (\<bar>signed_take_bit 31 (djb2 userId)\<bar> mod 10) \<and>
   nat (\<bar>signed_take_bit 31 (djb2 userId)\<bar> mod 10) < length PALETTE"
proof -
  have "participant_hash userId = word_of_int (djb2 userId)"
    using hash_fold [of userId 5381] by (simp add: participant_hash_def djb2_def)
  then have "sint (participant_hash userId) = signed_take_bit 31 (djb2 userId)"
    by (simp add: signed_of_int)
  then show ?thesis by (simp add: participantColor_def PALETTE_def)
qed

lemma dots_account_for_everyone:
  "ParticipantDots upper ps = Some d \<Longrightarrow>
     length (dt_shown d) + (case dt_overflow d of Some n \<Rightarrow> n | None \<Rightarrow> 0) = length ps \<and> length (dt_shown d) \<le> 3"
  by (auto simp: ParticipantDots_def MAX_DOTS_def Let_def split: if_splits)

end
