(* ===== verification/Widgets.thy ===== *)
theory Widgets
  imports Complex_Main DashboardActions CheckedPile CalendarGrid Palette
begin

text \<open>
  A board's tiles and adding one: \<open>frontend/src/components/dashboard/WidgetContainer.tsx\<close>, \<open>WidgetRenderer.tsx\<close>,
  \<open>widgets/ListWidget.tsx\<close>, \<open>widgets/ClockWidget.tsx\<close>, the wizard (\<open>AddWidgetModal.tsx\<close>, \<open>widgets/AddWidgetTypeStep.tsx\<close>,
  \<open>AddWidgetListStep.tsx\<close>, \<open>AddWidgetCalendarStep.tsx\<close>) and the editor's page (\<open>pages/DashboardEditorPage.tsx\<close>). A
  configuration is an open object; upper-casing is the host's.

  The lemmas: the wizard offers exactly the lists that are not on the board and never places one twice, and a list
  tile that brings its stored name in line does so once. The trace shows what that does to someone who may only look.
\<close>

section \<open>Tiles\<close>

definition config_string :: "string \<Rightarrow> json_obj \<Rightarrow> string option" where
  "config_string key config = (case map_of config key of Some (JStr s) \<Rightarrow> Some s | _ \<Rightarrow> None)"

definition capitalize :: "(string \<Rightarrow> string) \<Rightarrow> string \<Rightarrow> string" where
  "capitalize upper value = (case value of [] \<Rightarrow> value | c # rest \<Rightarrow> upper [c] @ rest)"

definition or_else :: "string option \<Rightarrow> string \<Rightarrow> string" where
  "or_else v d = (if truthy v then the v else d)"

definition dot :: string where
  "dot = [CHR '' '', CHR 0xB7, CHR '' '']"

definition tile_widgetLabel :: "(string \<Rightarrow> string) \<Rightarrow> dashboard_widget \<Rightarrow> string" where
  "tile_widgetLabel upper w =
     (case w_widget_type w of
        ListW \<Rightarrow>
          (let label = or_else (config_string ''list_name'' (w_config w)) ''List''; type = config_string ''list_type'' (w_config w)
           in if truthy type then label @ dot @ capitalize upper (the type) else label)
      | CalendarW \<Rightarrow> ''Calendar'' @ dot @ capitalize upper (or_else (config_string ''view'' (w_config w)) ''month'')
      | AgendaW \<Rightarrow> ''Agenda''
      | ClockW \<Rightarrow> ''Clock'')"

text \<open>The link of a tile's header and what it is called.\<close>

definition widget_link :: "string \<Rightarrow> dashboard_widget \<Rightarrow> (string \<times> string) option" where
  "widget_link dashboardId w =
     (case w_widget_type w of
        ListW \<Rightarrow> if truthy (w_resource_id w)
          then Some (''/lists/'' @ the (w_resource_id w) @ ''?dashboard_id='' @ dashboardId, ''Open full list'') else None
      | CalendarW \<Rightarrow> Some (''/calendar?dashboard_id='' @ dashboardId, ''Open calendar'')
      | AgendaW \<Rightarrow> Some (''/calendar?dashboard_id='' @ dashboardId, ''Open calendar'')
      | ClockW \<Rightarrow> None)"

datatype widget_body = ListBody string json_obj | BrokenBody string | ClockBody json_obj | CalendarBody json_obj | AgendaBody

definition WidgetBody :: "dashboard_widget \<Rightarrow> widget_body" where
  "WidgetBody w =
     (case w_widget_type w of
        ListW \<Rightarrow> if truthy (w_resource_id w) then ListBody (the (w_resource_id w)) (w_config w) else BrokenBody ''No list bound.''
      | ClockW \<Rightarrow> ClockBody (w_config w)
      | CalendarW \<Rightarrow> CalendarBody (w_config w)
      | AgendaW \<Rightarrow> AgendaBody)"

text \<open>The zone and the locale of a clock; those of the host where there is none.\<close>

definition clock_settings :: "json_obj \<Rightarrow> bool \<Rightarrow> string option \<times> string option" where
  "clock_settings config isSharedDashboard =
     (let configuredTimezone = (if truthy (config_string ''timezone'' config) then config_string ''timezone'' config else None) in
      if isSharedDashboard then (Some (case configuredTimezone of Some z \<Rightarrow> z | None \<Rightarrow> ''UTC''), Some ''en-US'') else (None, None))"

section \<open>A list's tile\<close>

fun list_type_string :: "list_type \<Rightarrow> string" where
  "list_type_string Checklist = ''checklist''"
| "list_type_string Grocery = ''grocery''"
| "list_type_string Todo = ''todo''"

text \<open>The effect that brings the stored name in line: the configuration it sends, if any.\<close>

definition sync_config :: "json_obj \<Rightarrow> list_detail option \<Rightarrow> json_obj option" where
  "sync_config config detail =
     (case detail of
        None \<Rightarrow> None
      | Some d \<Rightarrow>
          if config_string ''list_name'' config = Some (l_name d) \<and> config_string ''list_type'' config = Some (list_type_string (l_list_type d))
          then None
          else Some (AList.update ''list_type'' (JStr (list_type_string (l_list_type d)))
                 (AList.update ''list_name'' (JStr (l_name d)) config)))"

datatype list_tile = ListGone | ListFailed | ListLoading | ListTile rat nat nat

definition ListWidget :: "thrown option \<Rightarrow> list_detail option \<Rightarrow> list_tile" where
  "ListWidget error detail =
     (case error of
        Some err \<Rightarrow> if error_status err \<in> {Some 404, Some 403} then ListGone else ListFailed
      | None \<Rightarrow>
          (case detail of
             None \<Rightarrow> ListLoading
           | Some d \<Rightarrow>
               (let checkedCount = length (snd (partitionItems (l_items d))); n = length (l_items d);
                    progress = (if n > 0 then of_nat checkedCount / of_nat n * 100 else 0)
                in ListTile progress checkedCount n)))"

definition tile_overdue :: "host \<Rightarrow> int \<Rightarrow> list_item \<Rightarrow> bool" where
  "tile_overdue h now item \<longleftrightarrow>
     (case it_due_date item of
        Some d \<Rightarrow> d \<noteq> [] \<and> \<not> it_checked item \<and> str_less d (dateKey h (startOfDay h now))
      | None \<Rightarrow> False)"

lemma config_after_update:
  "config_string k (AList.update k (JStr v) config) = Some v"
  "k \<noteq> k' \<Longrightarrow> config_string k (AList.update k' j config) = config_string k config"
  by (simp_all add: config_string_def update_conv')

text \<open>One call settles it, and it leaves the rest of the configuration alone.\<close>

lemma sync_settles:
  "sync_config config (Some d) = Some config' \<Longrightarrow> sync_config config' (Some d) = None"
  "sync_config config (Some d) = Some config' \<Longrightarrow> k \<notin> {''list_name'', ''list_type''} \<Longrightarrow> map_of config' k = map_of config k"
  by (auto simp: sync_config_def config_after_update update_conv' split: if_splits)

text \<open>
  Nothing asks whether the tile's viewer may edit the board: with a stored name that is out of date, opening the board
  sends the change, which the server refuses to a viewer, and shows an error for something they did not do.
\<close>

lemma viewer_is_told_of_a_failed_update:
  assumes "l_name d \<noteq> old"
  shows "sync_config [(''list_name'', JStr old)] (Some d) \<noteq> None \<and>
    snd (updateWidgetReply g w (Inl refusal) st) = toast_error ''Failed to update widget.'' st"
  using assms by (simp add: sync_config_def config_string_def updateWidgetReply_def)

section \<open>Adding a tile\<close>

record widget_create =
  wc_widget_type :: widget_type
  wc_resource_type :: "string option"
  wc_resource_id :: "string option"
  wc_config :: "json_obj option"

definition existingListIds :: "dashboard_widget list \<Rightarrow> string list" where
  "existingListIds widgets =
     map (\<lambda>w. the (w_resource_id w)) (filter (\<lambda>w. w_resource_type w = Some ''list'' \<and> truthy (w_resource_id w)) widgets)"

text \<open>The ids are joined into the memo's key and split again.\<close>

definition availableLists :: "string list \<Rightarrow> list_summary list option \<Rightarrow> list_summary list" where
  "availableLists existing lists' =
     (let existingListIdKey = join_with '':'' existing;
          existingIdSet = (if existingListIdKey \<noteq> [] then split_on (CHR '':'') existingListIdKey else [])
      in filter (\<lambda>l. l_id l \<notin> set existingIdSet) (case lists' of Some ls \<Rightarrow> ls | None \<Rightarrow> []))"

definition place_list :: "list_summary \<Rightarrow> widget_create" where
  "place_list l = \<lparr>wc_widget_type = ListW, wc_resource_type = Some ''list'', wc_resource_id = Some (l_id l),
     wc_config = Some [(''list_name'', JStr (l_name l)), (''list_type'', JStr (list_type_string (l_list_type l)))]\<rparr>"

definition handleCreateList :: "string \<Rightarrow> string \<Rightarrow> widget_create" where
  "handleCreateList typed listType =
     (let name = js_trim typed in
      \<lparr>wc_widget_type = ListW, wc_resource_type = Some ''list'', wc_resource_id = None,
       wc_config = Some [(''name'', JStr (if name \<noteq> [] then name else ''Untitled List'')), (''list_type'', JStr listType)]\<rparr>)"

definition add_calendar :: "string \<Rightarrow> widget_create" where
  "add_calendar view = \<lparr>wc_widget_type = CalendarW, wc_resource_type = None, wc_resource_id = None, wc_config = Some [(''view'', JStr view)]\<rparr>"

datatype wizard_step = PickType | PickList | PickCalendar

text \<open>A press in the first step: the next step, or the tile to add at once.\<close>

definition pick_type :: "string \<Rightarrow> bool \<Rightarrow> widget_type \<Rightarrow> wizard_step + widget_create" where
  "pick_type zone isSharedDashboard type =
     (case type of
        ListW \<Rightarrow> Inl PickList
      | CalendarW \<Rightarrow> Inl PickCalendar
      | ClockW \<Rightarrow> Inr \<lparr>wc_widget_type = ClockW, wc_resource_type = None, wc_resource_id = None,
          wc_config = Some (if isSharedDashboard then [(''timezone'', JStr zone)] else [])\<rparr>
      | AgendaW \<Rightarrow> Inr \<lparr>wc_widget_type = AgendaW, wc_resource_type = None, wc_resource_id = None, wc_config = None\<rparr>)"

definition handleEscape :: "wizard_step \<Rightarrow> wizard_step option" where
  "handleEscape step = (if step \<noteq> PickType then Some PickType else None)"

lemma split_join:
  "\<forall>w \<in> set ws. CHR '':'' \<notin> set w \<Longrightarrow> ws \<noteq> [] \<Longrightarrow> split_on (CHR '':'') (join_with '':'' ws) = ws"
proof (induction ws)
  case (Cons w ws)
  have c: "list_all (\<lambda>x. x \<noteq> CHR '':'') w" using Cons.prems by (auto simp: list_all_iff)
  show ?case
  proof (cases ws)
    case Nil
    then show ?thesis using split_on_clean [OF c] by simp
  next
    case (Cons v vs)
    then show ?thesis using Cons.IH Cons.prems split_on_sep [OF c, of "join_with '':'' ws"] by simp
  qed
qed simp

lemma join_empty: "\<forall>w \<in> set ws. w \<noteq> [] \<Longrightarrow> join_with '':'' ws = [] \<longleftrightarrow> ws = []"
  by (cases ws; cases "tl ws") auto

definition plain_id :: "string \<Rightarrow> bool" where
  "plain_id i \<longleftrightarrow> i \<noteq> [] \<and> CHR '':'' \<notin> set i"

text \<open>
  The wizard offers exactly the lists that are not on the board yet, the joining and splitting of the ids
  notwithstanding; once a list is placed it is not offered again.
\<close>

theorem wizard_offers_unplaced_lists:
  assumes "\<And>w i. w \<in> set widgets \<Longrightarrow> w_resource_id w = Some i \<Longrightarrow> i \<noteq> [] \<Longrightarrow> plain_id i"
  shows "availableLists (existingListIds widgets) (Some ls) =
     filter (\<lambda>l. \<not> (\<exists>w \<in> set widgets. w_resource_type w = Some ''list'' \<and> w_resource_id w = Some (l_id l) \<and> l_id l \<noteq> [])) ls"
proof -
  let ?ids = "existingListIds widgets"
  have p: "\<forall>i \<in> set ?ids. plain_id i"
    using assms by (auto simp: existingListIds_def truthy_def split: option.splits)
  have "(if join_with '':'' ?ids \<noteq> [] then split_on (CHR '':'') (join_with '':'' ?ids) else []) = ?ids"
    using p split_join [of ?ids] join_empty [of ?ids] by (auto simp: plain_id_def)
  then have "availableLists ?ids (Some ls) = filter (\<lambda>l. l_id l \<notin> set ?ids) ls"
    by (cases "join_with '':'' ?ids = []") (simp_all add: availableLists_def Let_def)
  moreover have "l_id l \<in> set ?ids \<longleftrightarrow> (\<exists>w \<in> set widgets. w_resource_type w = Some ''list'' \<and> w_resource_id w = Some (l_id l) \<and> l_id l \<noteq> [])" for l :: list_summary
    by (force simp: existingListIds_def truthy_def split: option.splits)
  ultimately show ?thesis by simp
qed

definition tile_of_list :: "string \<Rightarrow> dashboard_widget" where
  "tile_of_list i = \<lparr>w_id = ''w'', w_dashboard_id = ''b'', w_widget_type = ListW, w_resource_type = Some ''list'',
     w_resource_id = Some i, w_config = [], w_widget_version = 1, w_created_at = [], w_updated_at = []\<rparr>"

definition summary_of_list :: "string \<Rightarrow> list_summary" where
  "summary_of_list i = \<lparr>l_id = i, l_dashboard_id = ''b'', l_name = i, l_list_type = Grocery, l_item_count = 0,
     l_sort_order = 0, l_created_at = [], l_created_by = ''me'', l_updated_at = []\<rparr>"

lemma wizard_offers_unplaced_lists_witness:
  "availableLists (existingListIds [tile_of_list ''a'', tile_of_list ''b'']) (Some [summary_of_list ''a'', summary_of_list ''c'']) =
     [summary_of_list ''c'']"
  by (subst wizard_offers_unplaced_lists) (auto simp: tile_of_list_def summary_of_list_def plain_id_def)

section \<open>The editor's page\<close>

datatype editor_page = EditorLoading | EditorFailed | EditorNothing | EditorBoard dashboard

definition DashboardEditorPage :: "bool \<Rightarrow> bool \<Rightarrow> dashboard option \<Rightarrow> editor_page" where
  "DashboardEditorPage loading loadError d =
     (if loading \<and> d = None then EditorLoading
      else if loadError then EditorFailed
      else case d of None \<Rightarrow> EditorNothing | Some d \<Rightarrow> EditorBoard d)"

definition document_title :: "dashboard option \<Rightarrow> string" where
  "document_title d = or_else (map_option d_name d) ''FrontDashboard''"

text \<open>The dialogs that are open, closed when the board cannot be edited; the wizard closes on a confirmed add.\<close>

definition restrict_modals :: "dashboard option \<Rightarrow> bool \<times> bool \<Rightarrow> bool \<times> bool" where
  "restrict_modals d open' = (case d of Some b \<Rightarrow> if d_can_edit b then open' else (False, False) | None \<Rightarrow> (False, False))"

definition wizard_added :: "bool \<Rightarrow> bool \<times> bool \<Rightarrow> bool \<times> bool" where
  "wizard_added ok open' = (if ok then (False, snd open') else open')"

end
