(* ===== verification/Chrome.thy ===== *)
theory Chrome
  imports ActivityFeed UiStores CalendarEditor SessionsData SseStream
begin

text \<open>
  What stands around the pages: the feed's rows and which are open (\<open>frontend/src/components/notifications/ActivityFeed.tsx\<close>),
  the notifications' page and panel (\<open>pages/NotificationsPage.tsx\<close>, \<open>components/notifications/NotificationPanel.tsx\<close>), the
  sidebar and its account menu (\<open>components/layout/Sidebar.tsx\<close>, \<open>AppShell.tsx\<close>), a board's card
  (\<open>components/dashboard/DashboardCard.tsx\<close>), and the picker of an event's participants
  (\<open>components/calendar/CalendarEditorParticipantsSection.tsx\<close>) with the rule the server writes them by
  (\<open>_replace_participants\<close> of \<open>backend/app/routers/calendar.py\<close>).

  The lemmas: a press opens or closes one row of the feed and an open row stays open however the feed grows; the bell's
  panel and the account menu are never open together; whoever picks from a roster that is current sends nothing the
  server refuses, and a former member who was let go cannot be picked again.
\<close>

section \<open>Open rows of the feed\<close>

text \<open>The ids of the opened events; a row is open when it holds one.\<close>

definition group_open :: "int set \<Rightarrow> activity_group \<Rightarrow> bool" where
  "group_open openedIds g = list_ex (\<lambda>m. a_event_id m \<in> openedIds) (ag_members g)"

definition toggle_group :: "activity_group \<Rightarrow> int set \<Rightarrow> int set" where
  "toggle_group g previous =
     (let wasOpen = list_ex (\<lambda>m. a_event_id m \<in> previous) (ag_members g);
          next' = fold (\<lambda>m s. s - {a_event_id m}) (ag_members g) previous
      in if \<not> wasOpen then insert (a_event_id (ag_event g)) next' else next')"

datatype feed_view = FeedSpinner | FeedEmpty string | FeedRows "(activity_group \<times> bool) list"

definition ActivityFeed_view :: "feed_host \<Rightarrow> activity_event list \<Rightarrow> bool \<Rightarrow> string \<Rightarrow> int set \<Rightarrow> feed_view" where
  "ActivityFeed_view fh activity loading emptyMessage openedIds =
     (if loading then FeedSpinner
      else if activity = [] then FeedEmpty emptyMessage
      else FeedRows (map (\<lambda>g. (g, group_open openedIds g)) (groupActivityEvents fh activity)))"

definition event_ids :: "activity_event list \<Rightarrow> int set" where
  "event_ids es = a_event_id ` set es"

lemma group_open_iff: "group_open opened g \<longleftrightarrow> event_ids (ag_members g) \<inter> opened \<noteq> {}"
  by (auto simp: group_open_def list_ex_iff event_ids_def)

lemma fold_remove: "fold (\<lambda>m s. s - {a_event_id m}) ms s = s - event_ids ms"
  by (induction ms arbitrary: s) (auto simp: event_ids_def)

lemma toggle_group_set:
  "toggle_group g opened =
     (if group_open opened g then opened - event_ids (ag_members g)
      else insert (a_event_id (ag_event g)) (opened - event_ids (ag_members g)))"
  by (simp add: toggle_group_def group_open_def fold_remove)

lemma feed_groups:
  "concat (map ag_members (groupActivityEvents fh es)) = es"
  "g \<in> set (groupActivityEvents fh es) \<Longrightarrow> run_group fh g"
  "successively (runs_apart fh) (groupActivityEvents fh es)"
  using group_loop_runs [of fh "[]" None "Some 0" "[]" es]
  by (simp_all add: groupActivityEvents_def loop_ok_def list_all_iff)

text \<open>With distinct ids, different rows share none.\<close>

lemma rows_share_no_id:
  assumes "distinct (map a_event_id (concat (map ag_members gs)))" "g \<in> set gs" "g' \<in> set gs" "g \<noteq> g'"
  shows "event_ids (ag_members g) \<inter> event_ids (ag_members g') = {}"
  using assms by (induction gs) (auto simp: event_ids_def)

lemma toggle_only_its_row:
  assumes d: "distinct (map a_event_id es)" and g: "g \<in> set (groupActivityEvents fh es)"
    and g': "g' \<in> set (groupActivityEvents fh es)"
  shows "group_open (toggle_group g opened) g' \<longleftrightarrow> (if g' = g then \<not> group_open opened g else group_open opened g')"
proof -
  have h: "a_event_id (ag_event g) \<in> event_ids (ag_members g)"
    using feed_groups(2) [OF g] by (auto simp: run_group_def event_ids_def)
  have "event_ids (ag_members g) \<inter> event_ids (ag_members g') = {}" if "g' \<noteq> g"
    using rows_share_no_id [of "groupActivityEvents fh es" g g'] d g g' that by (auto simp: feed_groups(1))
  then show ?thesis using h by (auto simp: group_open_iff toggle_group_set)
qed

lemma append_cases:
  assumes "xs @ ys = zs @ ts"
  obtains us where "zs = xs @ us" "ys = us @ ts" | us where "xs = zs @ us" "us @ ys = ts" "us \<noteq> []"
proof -
  obtain us where "xs = zs @ us \<and> us @ ys = ts \<or> xs @ us = zs \<and> ys = us @ ts"
    using assms by (auto simp: append_eq_append_conv2)
  then show thesis using that by (cases "us = []") auto
qed

text \<open>A stretch without a break lies within one of the parts a list is broken into.\<close>

lemma run_within_one:
  assumes "concat ms = pre @ r @ post" "r \<noteq> []" "successively J r" "\<forall>m \<in> set ms. m \<noteq> []"
    "successively (\<lambda>a b. \<not> J (last a) (hd b)) ms"
  shows "\<exists>m \<in> set ms. set r \<subseteq> set m"
  using assms
proof (induction ms arbitrary: pre)
  case (Cons m ms)
  have "m @ concat ms = pre @ (r @ post)" using Cons.prems(1) by simp
  then consider us where "pre = m @ us" "concat ms = us @ r @ post"
    | us where "m = pre @ us" "us @ concat ms = r @ post" "us \<noteq> []"
    by (rule append_cases)
  then show ?case
  proof cases
    case 1
    then show ?thesis using Cons.IH [of us] Cons.prems by (auto simp: successively_Cons)
  next
    case 2
    from 2(2) consider vs where "r = us @ vs" "concat ms = vs @ post" "vs \<noteq> []" | vs where "us = r @ vs"
      using append_cases [of r post us "concat ms" thesis] by metis
    then show ?thesis
    proof cases
      case 2
      then show ?thesis using \<open>m = pre @ us\<close> by auto
    next
      case v: 1
      then obtain m' ms' where ms: "ms = m' # ms'" by (cases ms) auto
      have m': "m' \<noteq> []" using Cons.prems(4) ms by simp
      have "hd vs = hd m'" using v(2,3) ms m' by (metis concat.simps(2) hd_append2)
      moreover have "J (last us) (hd vs)" using Cons.prems(3) v(1,3) 2(3) by (simp add: successively_append_iff)
      moreover have "last m = last us" using 2(1,3) by simp
      ultimately show ?thesis using Cons.prems(5) ms by simp
    qed
  qed
qed simp

lemma row_grows_into_one:
  assumes "g \<in> set (groupActivityEvents fh es)"
  shows "\<exists>g' \<in> set (groupActivityEvents fh (newer @ es @ older)). set (ag_members g) \<subseteq> set (ag_members g')"
proof -
  let ?gs = "groupActivityEvents fh es" and ?gs' = "groupActivityEvents fh (newer @ es @ older)"
  obtain as bs where "?gs = as @ g # bs" using assms by (meson split_list)
  then have "es = concat (map ag_members as) @ ag_members g @ concat (map ag_members bs)"
    using feed_groups(1) [of fh es] by simp
  then have "concat (map ag_members ?gs') =
      (newer @ concat (map ag_members as)) @ ag_members g @ (concat (map ag_members bs) @ older)"
    using feed_groups(1) [of fh "newer @ es @ older"] by simp
  moreover have "ag_members g \<noteq> []" "successively (joins fh) (ag_members g)"
    using feed_groups(2) [OF assms] by (simp_all add: run_group_def)
  moreover have "\<forall>m \<in> set (map ag_members ?gs'). m \<noteq> []"
    using feed_groups(2) [of _ fh "newer @ es @ older"] by (auto simp: run_group_def)
  moreover have "successively (\<lambda>a b. \<not> joins fh (last a) (hd b)) (map ag_members ?gs')"
    using feed_groups(3) [of fh "newer @ es @ older"] by (simp add: successively_map runs_apart_def [abs_def])
  ultimately have "\<exists>m \<in> set (map ag_members ?gs'). set (ag_members g) \<subseteq> set m" by (rule run_within_one)
  then show ?thesis by auto
qed

lemma event_in_a_row: "e \<in> set es \<longleftrightarrow> (\<exists>g \<in> set (groupActivityEvents fh es). e \<in> set (ag_members g))"
proof -
  have "e \<in> set es \<longleftrightarrow> e \<in> set (concat (map ag_members (groupActivityEvents fh es)))" by (simp only: feed_groups(1))
  then show ?thesis by simp
qed

text \<open>C32. C32.
  A press opens a closed row or closes an open one and moves no other; however live events arrive before the feed and
  pages after it, every row ends up within one row, open if it was, and a row is open then only because it holds one
  that was. Opened are rows of the feed as it was, so no event that arrives later carries an opened id.
\<close>

theorem open_rows_survive_growth:
  assumes "distinct (map a_event_id (newer @ es @ older))"
    and "g \<in> set (groupActivityEvents fh es)" and "opened \<inter> event_ids (newer @ older) = {}"
  shows "(\<forall>g' \<in> set (groupActivityEvents fh es).
       group_open (toggle_group g opened) g' = (if g' = g then \<not> group_open opened g else group_open opened g')) \<and>
     (\<exists>g' \<in> set (groupActivityEvents fh (newer @ es @ older)).
       set (ag_members g) \<subseteq> set (ag_members g') \<and> (group_open opened g \<longrightarrow> group_open opened g')) \<and>
     (\<forall>g' \<in> set (groupActivityEvents fh (newer @ es @ older)). group_open opened g' \<longrightarrow>
       (\<exists>g \<in> set (groupActivityEvents fh es). group_open opened g \<and> set (ag_members g) \<inter> set (ag_members g') \<noteq> {}))"
proof (intro conjI ballI impI)
  show "group_open (toggle_group g opened) g' = (if g' = g then \<not> group_open opened g else group_open opened g')"
    if "g' \<in> set (groupActivityEvents fh es)" for g'
    using toggle_only_its_row [of es g fh g' opened] assms(1,2) that by simp
  obtain g' where "g' \<in> set (groupActivityEvents fh (newer @ es @ older))" "set (ag_members g) \<subseteq> set (ag_members g')"
    using row_grows_into_one [OF assms(2)] by blast
  then show "\<exists>g' \<in> set (groupActivityEvents fh (newer @ es @ older)).
       set (ag_members g) \<subseteq> set (ag_members g') \<and> (group_open opened g \<longrightarrow> group_open opened g')"
    by (auto simp: group_open_def list_ex_iff)
  fix g' assume g': "g' \<in> set (groupActivityEvents fh (newer @ es @ older))" "group_open opened g'"
  then obtain m where m: "m \<in> set (ag_members g')" "a_event_id m \<in> opened" by (auto simp: group_open_def list_ex_iff)
  have "m \<in> set (newer @ es @ older)" using m(1) g'(1) event_in_a_row [of m "newer @ es @ older" fh] by blast
  then have "m \<in> set es" using m(2) assms(3) by (auto simp: event_ids_def)
  then obtain g where "g \<in> set (groupActivityEvents fh es)" "m \<in> set (ag_members g)" using event_in_a_row [of m es fh] by blast
  then show "\<exists>g \<in> set (groupActivityEvents fh es). group_open opened g \<and> set (ag_members g) \<inter> set (ag_members g') \<noteq> {}"
    using m by (auto simp: group_open_def list_ex_iff)
qed

definition list_change :: "int \<Rightarrow> string \<Rightarrow> activity_event" where
  "list_change i l = \<lparr>a_event_id = i, a_event_type = ''list.updated'', a_entity_type = ''list'', a_entity_id = l,
     a_actor_id = ''me'', a_actor_display_name = ''Me'', a_created_at = ''now'', a_payload = []\<rparr>"

definition still_host :: feed_host where
  "still_host = \<lparr>fh_parse = (\<lambda>_. Some 0), fh_month_day = (\<lambda>_. ''Jan 1'')\<rparr>"

definition one_row :: "activity_event list \<Rightarrow> activity_group" where
  "one_row es = \<lparr>ag_event = hd es, ag_members = es, ag_entities = 1\<rparr>"

lemma open_rows_survive_growth_witness:
  "groupActivityEvents still_host [list_change 2 ''a''] = [one_row [list_change 2 ''a'']] \<and>
   groupActivityEvents still_host [list_change 3 ''a'', list_change 2 ''a'', list_change 1 ''b''] =
     [one_row [list_change 3 ''a'', list_change 2 ''a''], one_row [list_change 1 ''b'']] \<and>
   group_open {2} (one_row [list_change 3 ''a'', list_change 2 ''a'']) \<and>
   \<not> group_open (toggle_group (one_row [list_change 2 ''a'']) {2}) (one_row [list_change 2 ''a''])"
proof -
  let ?e = "list_change 2 ''a''"
  have g: "groupActivityEvents still_host [?e] = [one_row [?e]]"
    "groupActivityEvents still_host [list_change 3 ''a'', ?e, list_change 1 ''b''] =
       [one_row [list_change 3 ''a'', ?e], one_row [list_change 1 ''b'']]" by code_simp+
  have ids: "distinct (map a_event_id ([list_change 3 ''a''] @ [?e] @ [list_change 1 ''b'']))"
    "{2} \<inter> event_ids ([list_change 3 ''a''] @ [list_change 1 ''b'']) = {}" "one_row [?e] \<in> set (groupActivityEvents still_host [?e])"
    by (simp_all add: list_change_def event_ids_def) (simp add: g [unfolded list_change_def])
  have o: "group_open {2} (one_row [?e])" by (simp add: group_open_def one_row_def list_change_def)
  have o': "group_open {2} (one_row [list_change 3 ''a'', ?e])" by (simp add: group_open_def one_row_def list_change_def)
  note grown = open_rows_survive_growth [OF ids(1,3,2)]
  have "\<not> group_open (toggle_group (one_row [?e]) {2}) (one_row [?e])"
    using grown [THEN conjunct1, THEN bspec, OF ids(3)] o by (simp only: refl if_True not_True_eq_False not_False_eq_True)
  then show ?thesis using g o' by blast
qed

section \<open>Notifications\<close>

datatype tab_body =
    LoadFailed string
  | NoneYet string
  | Notices "notification list" "bool option"

text \<open>The tab of the notifications, with \<open>Some\<close> of a spinning button where there is more to load; the panel's has none.\<close>

definition notifications_tab :: "string \<Rightarrow> bool \<Rightarrow> notification list \<Rightarrow> bool \<Rightarrow> bool \<Rightarrow> tab_body" where
  "notifications_tab emptyMessage loadFailed notifications hasMore loadingMore =
     (if loadFailed \<and> notifications = [] then LoadFailed ''Couldn't load notifications.''
      else if notifications = [] then NoneYet emptyMessage
      else Notices notifications (if hasMore then Some loadingMore else None))"

datatype activity_body = ActivityFailed string | ActivityShown feed_view "bool option"

definition activity_tab ::
    "feed_host \<Rightarrow> string \<Rightarrow> bool \<Rightarrow> bool \<Rightarrow> activity_event list \<Rightarrow> bool \<Rightarrow> bool \<Rightarrow> int set \<Rightarrow> activity_body" where
  "activity_tab fh activityFilter activityFailed activityLoading activity activityHasMore activityLoadingMore opened =
     (if activityFailed \<and> \<not> activityLoading then ActivityFailed ''Couldn't load activity.''
      else ActivityShown
        (ActivityFeed_view fh activity activityLoading
           (if activityFilter = ACTIVITY_FILTER_ALL then ''No activity yet.'' else ''No activity of this kind yet.'') opened)
        (if activityHasMore \<and> \<not> activityLoading then Some activityLoadingMore else None))"

text \<open>
  Before the first answer nothing is cached and nothing has failed: the page says the inbox is empty, where the feed of
  the activity beside it shows a spinner.
\<close>

lemma unread_inbox_looks_empty:
  "notifications_tab ''No notifications yet.'' False [] False False = NoneYet ''No notifications yet.'' \<and>
   activity_tab fh filter' False True [] False False {} = ActivityShown FeedSpinner None"
  by (simp add: notifications_tab_def activity_tab_def ActivityFeed_view_def)

definition unread_badge :: "(int \<Rightarrow> string) \<Rightarrow> int \<Rightarrow> string option" where
  "unread_badge str unreadCount = (if unreadCount > 0 then Some (if unreadCount > 99 then ''99+'' else str unreadCount) else None)"

section \<open>The sidebar, its panel and its menu\<close>

text \<open>The bell's panel is the notifications store's, the menu the sidebar's own state; with them what was sent and where it went.\<close>

record chrome =
  ch_panelOpen :: bool
  ch_userMenuOpen :: bool
  ch_ui :: ui_state
  ch_marked :: "string list"
  ch_logouts :: nat
  ch_visited :: "string list"

definition mount_chrome :: chrome where
  "mount_chrome = \<lparr>ch_panelOpen = False, ch_userMenuOpen = False, ch_ui = initial_ui, ch_marked = [], ch_logouts = 0, ch_visited = []\<rparr>"

definition handleUserMenuOpenChange :: "bool \<Rightarrow> chrome \<Rightarrow> chrome" where
  "handleUserMenuOpenChange next' st = (if next' then st\<lparr>ch_panelOpen := False\<rparr> else st)\<lparr>ch_userMenuOpen := next'\<rparr>"

definition panel_openChange :: "bool \<Rightarrow> chrome \<Rightarrow> chrome" where
  "panel_openChange open' st = (if open' then st\<lparr>ch_userMenuOpen := False\<rparr> else st)\<lparr>ch_panelOpen := open'\<rparr>"

definition navigate :: "string \<Rightarrow> chrome \<Rightarrow> chrome" where
  "navigate to' st = st\<lparr>ch_visited := ch_visited st @ [to']\<rparr>"

definition ch_closeMobile :: "chrome \<Rightarrow> chrome" where
  "ch_closeMobile st = st\<lparr>ch_ui := closeMobileSidebar (ch_ui st)\<rparr>"

definition mark_if_unread :: "notification \<Rightarrow> chrome \<Rightarrow> chrome" where
  "mark_if_unread n st = (if n_read_at n = None then st\<lparr>ch_marked := ch_marked st @ [n_id n]\<rparr> else st)"

definition panel_click :: "notification \<Rightarrow> chrome \<Rightarrow> chrome" where
  "panel_click n st =
     (let st = (mark_if_unread n st)\<lparr>ch_panelOpen := False\<rparr> in
      case getNotificationDestination n of
        Some destination \<Rightarrow> navigate destination (ch_closeMobile st)
      | None \<Rightarrow> st)"

definition page_click :: "notification \<Rightarrow> chrome \<Rightarrow> chrome" where
  "page_click n st =
     (let st = mark_if_unread n st in
      case getNotificationDestination n of Some destination \<Rightarrow> navigate destination st | None \<Rightarrow> st)"

definition view_all :: "chrome \<Rightarrow> chrome" where
  "view_all st = navigate ''/notifications'' (ch_closeMobile (st\<lparr>ch_panelOpen := False\<rparr>))"

definition nav_click :: "string \<Rightarrow> chrome \<Rightarrow> chrome" where
  "nav_click to' st = navigate to' (ch_closeMobile st)"

definition profile_click :: "chrome \<Rightarrow> chrome" where
  "profile_click st = navigate ''/profile'' (ch_closeMobile (handleUserMenuOpenChange False st))"

text \<open>Signing out, up to its await and after it.\<close>

definition handleSignOut :: "chrome \<Rightarrow> chrome" where
  "handleSignOut st = (ch_closeMobile (handleUserMenuOpenChange False st))\<lparr>ch_logouts := Suc (ch_logouts st)\<rparr>"

definition signed_out :: "chrome \<Rightarrow> chrome" where
  "signed_out st = navigate ''/login'' (st\<lparr>ch_panelOpen := False\<rparr>)"

definition menu_mouseDown :: "bool \<Rightarrow> chrome \<Rightarrow> chrome" where
  "menu_mouseDown inside st = (if ch_userMenuOpen st \<and> \<not> inside then handleUserMenuOpenChange False st else st)"

datatype chrome_event =
    BellChange bool
  | MenuPressed
  | MouseDown bool
  | PanelNotice notification
  | PageNotice notification
  | ViewAll
  | ClosePanel
  | NavClick string
  | ProfileClick
  | SignOut
  | SignedOut
  | ToggleSidebar
  | Hamburger

fun chrome_step :: "chrome_event \<Rightarrow> chrome \<Rightarrow> chrome" where
  "chrome_step (BellChange b) st = panel_openChange b st"
| "chrome_step MenuPressed st = handleUserMenuOpenChange (\<not> ch_userMenuOpen st) st"
| "chrome_step (MouseDown inside) st = menu_mouseDown inside st"
| "chrome_step (PanelNotice n) st = panel_click n st"
| "chrome_step (PageNotice n) st = page_click n st"
| "chrome_step ViewAll st = view_all st"
| "chrome_step ClosePanel st = st\<lparr>ch_panelOpen := False\<rparr>"
| "chrome_step (NavClick to') st = nav_click to' st"
| "chrome_step ProfileClick st = profile_click st"
| "chrome_step SignOut st = handleSignOut st"
| "chrome_step SignedOut st = signed_out st"
| "chrome_step ToggleSidebar st =
     st\<lparr>ch_ui := (if ui_mobileSidebarOpen (ch_ui st) then closeMobileSidebar (ch_ui st) else toggleSidebar (ch_ui st))\<rparr>"
| "chrome_step Hamburger st = st\<lparr>ch_ui := toggleMobileSidebar (ch_ui st)\<rparr>"

lemmas chrome_defs = panel_openChange_def handleUserMenuOpenChange_def menu_mouseDown_def panel_click_def page_click_def
  view_all_def nav_click_def profile_click_def handleSignOut_def signed_out_def navigate_def ch_closeMobile_def
  mark_if_unread_def

definition popups_apart :: "chrome \<Rightarrow> bool" where
  "popups_apart st \<longleftrightarrow> \<not> (ch_panelOpen st \<and> ch_userMenuOpen st)"

lemma popups_apart_step: "popups_apart st \<Longrightarrow> popups_apart (chrome_step e st)"
  by (cases e) (auto simp: popups_apart_def chrome_defs Let_def split: option.split)

text \<open>The panel and the menu are never open at once, and a press that leaves by the sidebar closes it over the page it leads to.\<close>

theorem one_popup_at_a_time: "popups_apart (fold chrome_step es mount_chrome)"
proof -
  have "popups_apart st \<Longrightarrow> popups_apart (fold chrome_step es st)" for st
    by (induction es arbitrary: st) (simp_all add: popups_apart_step)
  then show ?thesis by (simp add: popups_apart_def mount_chrome_def)
qed

lemma leaving_closes_the_sidebar:
  assumes "e \<in> {ViewAll, ProfileClick, NavClick to', PanelNotice n}" and "ch_visited (chrome_step e st) \<noteq> ch_visited st"
  shows "\<not> ui_mobileSidebarOpen (ch_ui (chrome_step e st))"
  using assms by (auto simp: chrome_defs closeMobileSidebar_def Let_def split: option.splits if_splits)

section \<open>What the navigation marks\<close>

definition NAV :: "(string \<times> string) list" where
  "NAV = [(''Dashboards'', ''/dashboards''), (''Calendar'', ''/calendar''), (''Lists'', ''/lists'')]"

definition nav_active :: "string \<Rightarrow> string \<Rightarrow> bool" where
  "nav_active pathname to' =
     (if to' = ''/dashboards'' then pathname = ''/'' \<or> take 10 pathname = ''/dashboard'' else pathname = to')"

text \<open>One entry at most is marked; on a list's own page none is, as \<open>Lists\<close> only answers to its exact path.\<close>

lemma nav_marks_one_at_most:
  "length (filter (\<lambda>(label, to'). nav_active p to') NAV) \<le> 1"
  by (auto simp: NAV_def nav_active_def)

lemma list_page_marks_nothing:
  "i \<noteq> [] \<Longrightarrow> filter (\<lambda>(label, to'). nav_active (''/lists/'' @ i) to') NAV = []"
  by (simp add: NAV_def nav_active_def)

text \<open>The hover text of the account's button: the name with the warning, the name alone, or nothing.\<close>

datatype account_title = Reconnecting_title string | Name_title string | No_title

definition accountTitle :: "connection_status \<Rightarrow> bool \<Rightarrow> string option \<Rightarrow> account_title" where
  "accountTitle connectionStatus collapsed name =
     (let displayName = (case name of Some n \<Rightarrow> n | None \<Rightarrow> ''Account'') in
      if isConnectionDegraded connectionStatus then Reconnecting_title displayName
      else if collapsed then Name_title displayName else No_title)"

section \<open>A board's card\<close>

datatype card_action = SetHome | EditBoard | ToggleFavorite | MoveToTrash | LeaveBoard

record menu_item =
  mi_label :: string
  mi_select :: card_action
  mi_disabled :: bool
  mi_danger :: bool

definition plain_item :: "string \<Rightarrow> card_action \<Rightarrow> menu_item" where
  "plain_item l a = \<lparr>mi_label = l, mi_select = a, mi_disabled = False, mi_danger = False\<rparr>"

definition isOwned :: "string option \<Rightarrow> dashboard_summary \<Rightarrow> bool" where
  "isOwned currentUserId d = (currentUserId \<noteq> None \<and> Some (s_user_id d) = currentUserId)"

definition card_subtitle :: "string option \<Rightarrow> dashboard_summary \<Rightarrow> string" where
  "card_subtitle currentUserId d =
     (case s_access_description d of
        Some t \<Rightarrow> t
      | None \<Rightarrow> if isOwned currentUserId d then ''Owned by you'' else ''Shared with you'')"

definition card_menu :: "string option \<Rightarrow> bool \<Rightarrow> dashboard_summary \<Rightarrow> menu_item list" where
  "card_menu currentUserId isHome d =
     [(plain_item (if isHome then ''Home dashboard'' else ''Set as home'') SetHome)\<lparr>mi_disabled := isHome\<rparr>] @
     (if s_can_edit d then [plain_item ''Edit dashboard'' EditBoard] else []) @
     [plain_item (if s_is_favorite d then ''Remove from favorites'' else ''Add to favorites'') ToggleFavorite] @
     (if isOwned currentUserId d then [(plain_item ''Move to trash'' MoveToTrash)\<lparr>mi_danger := True\<rparr>]
      else [(plain_item ''Leave dashboard'' LeaveBoard)\<lparr>mi_danger := True\<rparr>])"

text \<open>The labels, which key the menu's rows, differ; a board is trashed by its owner and left by everyone else.\<close>

lemma card_menu_rows:
  "distinct (map mi_label (card_menu me isHome d)) \<and>
   (MoveToTrash \<in> mi_select ` set (card_menu me isHome d) \<longleftrightarrow> isOwned me d) \<and>
   (LeaveBoard \<in> mi_select ` set (card_menu me isHome d) \<longleftrightarrow> \<not> isOwned me d)"
  by (auto simp: card_menu_def plain_item_def)

section \<open>Picking participants\<close>

definition formerSelected :: "member list \<Rightarrow> string list \<Rightarrow> participant list \<Rightarrow> participant list" where
  "formerSelected members selected initialParticipants =
     filter (\<lambda>p. pt_user_id p \<in> set selected \<and> pt_user_id p \<notin> set (map mb_user_id members)) initialParticipants"

text \<open>The chips, each with its user, whether it is pressed and whether it is a former member's; none where the section is hidden.\<close>

definition participant_chips :: "member list option \<Rightarrow> string list \<Rightarrow> participant list \<Rightarrow> (string \<times> bool \<times> bool) list option" where
  "participant_chips data selected initialParticipants =
     (case data of
        None \<Rightarrow> None
      | Some members \<Rightarrow>
          (let former = formerSelected members selected initialParticipants in
           if length members \<le> 1 \<and> former = [] then None
           else Some (map (\<lambda>m. (mb_user_id m, mb_user_id m \<in> set selected, False)) members @
             map (\<lambda>p. (pt_user_id p, True, True)) former)))"

definition chip_ids :: "member list option \<Rightarrow> string list \<Rightarrow> participant list \<Rightarrow> string list" where
  "chip_ids data selected initial = (case participant_chips data selected initial of Some cs \<Rightarrow> map fst cs | None \<Rightarrow> [])"

text \<open>A press on a chip that is there, by the editor's toggle.\<close>

definition press_chip :: "member list option \<Rightarrow> participant list \<Rightarrow> string \<Rightarrow> editor_state \<Rightarrow> editor_state" where
  "press_chip data initial i st =
     (if i \<in> set (chip_ids data (dr_participants (ed_draft st)) initial) then toggleParticipant i st else st)"

text \<open>The server's rule: who is named, was not on the event and is not in the board's audience.\<close>

definition outsiders :: "string list \<Rightarrow> string list \<Rightarrow> string list \<Rightarrow> string list" where
  "outsiders user_ids existing_ids audience = filter (\<lambda>i. i \<notin> set existing_ids \<and> i \<notin> set audience) user_ids"

lemma participants_after_toggle:
  "dr_participants (ed_draft (toggleParticipant i st)) =
     (if i \<in> set (dr_participants (ed_draft st)) then filter (\<lambda>j. j \<noteq> i) (dr_participants (ed_draft st))
      else dr_participants (ed_draft st) @ [i])"
  by (simp add: toggleParticipant_def ed_map_def)

lemma chip_is_member_or_picked:
  "i \<in> set (chip_ids (Some members) selected initial) \<Longrightarrow> i \<in> set (map mb_user_id members) \<or> i \<in> set selected"
  by (auto simp: chip_ids_def participant_chips_def formerSelected_def Let_def split: if_splits)

lemma press_adds_only_members:
  "set (dr_participants (ed_draft (press_chip (Some members) initial i st))) \<subseteq>
     set (dr_participants (ed_draft st)) \<union> set (map mb_user_id members)"
  using chip_is_member_or_picked [of i members "dr_participants (ed_draft st)" initial]
  by (auto simp: press_chip_def participants_after_toggle split: if_splits)

definition chip_presses :: "member list option \<Rightarrow> participant list \<Rightarrow> string list \<Rightarrow> editor_state \<Rightarrow> editor_state" where
  "chip_presses data initial is' st = fold (press_chip data initial) is' st"

lemma presses_add_only_members:
  "set (dr_participants (ed_draft (chip_presses (Some members) initial is' st))) \<subseteq>
     set (dr_participants (ed_draft st)) \<union> set (map mb_user_id members)"
proof (induction is' arbitrary: st)
  case (Cons i is')
  show ?case using Cons.IH [of "press_chip (Some members) initial i st"] press_adds_only_members [of members initial i st]
    by (auto simp: chip_presses_def)
qed (simp add: chip_presses_def)

text \<open>C12. 
  With a current roster, whatever chips are pressed in an editor opened on an event, the server accepts the participants
  it sends; and from any point on, somebody who is no member is only ever let go.
\<close>

theorem chips_mirror_write_rule:
  "outsiders (dr_participants (ed_draft (chip_presses (Some members) initial is' (editor_init h d))))
     (dr_participants d) (map mb_user_id members) = [] \<and>
   set (dr_participants (ed_draft (chip_presses (Some members) initial is' st))) - set (map mb_user_id members)
     \<subseteq> set (dr_participants (ed_draft st))"
proof -
  have "dr_participants (ed_draft (editor_init h d)) = dr_participants d" by (simp add: editor_init_def)
  with presses_add_only_members [of members initial is' "editor_init h d"] presses_add_only_members [of members initial is' st]
  show ?thesis by (auto simp: outsiders_def filter_empty_conv)
qed

text \<open>
  The roster is kept current under an open editor, the picks are not: somebody picked here who loses access before the
  event is saved has no chip left to let them go by, and stays in what is sent, which the server refuses.
\<close>

lemma pick_that_lost_access:
  fixes st :: editor_state and m :: member and o' :: member and o'' :: member
  assumes "i \<notin> set (dr_participants (ed_draft st))" and "mb_user_id m = i"
    and "i \<notin> {mb_user_id o', mb_user_id o''}" and "i \<notin> set existing" and "i \<notin> set (map pt_user_id initial)"
  defines "st' \<equiv> press_chip (Some [o', o'', m]) initial i st"
  shows "i \<notin> set (chip_ids (Some [o', o'']) (dr_participants (ed_draft st')) initial) \<and>
    dr_participants (ed_draft (chip_presses (Some [o', o'']) initial [i, i] st')) = dr_participants (ed_draft st') \<and>
    i \<in> set (outsiders (dr_participants (ed_draft st')) existing (map mb_user_id [o', o'']))"
proof -
  have p: "dr_participants (ed_draft st') = dr_participants (ed_draft st) @ [i]"
    using assms(1,2) by (simp add: st'_def press_chip_def participants_after_toggle chip_ids_def participant_chips_def Let_def)
  have c: "i \<notin> set (chip_ids (Some [o', o'']) (dr_participants (ed_draft st')) initial)"
    using assms(3,5) by (auto simp: chip_ids_def participant_chips_def formerSelected_def Let_def)
  then have "press_chip (Some [o', o'']) initial i st' = st'" by (simp add: press_chip_def)
  with c p assms(3,4) show ?thesis by (simp add: chip_presses_def outsiders_def)
qed

end
