(* ===== verification/PageTasks.thy ===== *)
theory PageTasks
  imports Contract
begin

text \<open>
  What the pages share: a handler that awaits is parked under a number with what it will do next, and the answer takes
  it out again. \<open>ask_first\<close> is the contract of a page whose calls that cannot be undone follow a question: what it
  sends in a step is what the step's answer agreed to.
\<close>

section \<open>Parked handlers\<close>

type_synonym 'k parked = "(nat \<times> 'k) list \<times> nat"

definition park :: "'k \<Rightarrow> 'k parked \<Rightarrow> 'k parked" where
  "park k p = (fst p @ [(snd p, k)], snd p + 1)"

definition unpark :: "nat \<Rightarrow> 'k parked \<Rightarrow> 'k parked" where
  "unpark n p = (AList.delete n (fst p), snd p)"

definition parked :: "'k parked \<Rightarrow> 'k set" where
  "parked p = snd ` set (fst p)"

definition waiting_at :: "nat \<Rightarrow> 'k parked \<Rightarrow> 'k option" where
  "waiting_at n p = map_of (fst p) n"

text \<open>Numbers are used once.\<close>

definition parked_ok :: "'k parked \<Rightarrow> bool" where
  "parked_ok p \<longleftrightarrow> distinct (map fst (fst p)) \<and> (\<forall>q \<in> set (fst p). fst q < snd p)"

lemma parked_ok_empty [simp]: "parked_ok ([], n)"
  by (simp add: parked_ok_def)

lemma parked_ok_park [simp]: "parked_ok p \<Longrightarrow> parked_ok (park k p)"
  by (force simp: parked_ok_def park_def less_Suc_eq)

lemma parked_ok_unpark [simp]: "parked_ok p \<Longrightarrow> parked_ok (unpark n p)"
  by (auto simp: parked_ok_def unpark_def AList.delete_eq distinct_map_filter)

lemma parked_park [simp]: "parked (park k p) = insert k (parked p)"
  by (simp add: parked_def park_def)

lemma parked_empty [simp]: "parked ([], n) = {}"
  by (simp add: parked_def)

lemma parked_unpark_subset: "parked (unpark n p) \<subseteq> parked p"
  by (auto simp: parked_def unpark_def AList.delete_eq)

lemma parked_unpark_other:
  assumes "parked_ok p" "waiting_at n p = Some k" "j \<in> parked p" "j \<noteq> k"
  shows "j \<in> parked (unpark n p)"
proof -
  obtain m where m: "(m, j) \<in> set (fst p)" using assms(3) by (auto simp: parked_def)
  then have "map_of (fst p) m = Some j" using assms(1) by (auto simp: parked_ok_def)
  then have "m \<noteq> n" using assms(2,4) by (auto simp: waiting_at_def)
  then show ?thesis using m by (force simp: parked_def unpark_def AList.delete_eq)
qed

lemma waiting_parked: "waiting_at n p = Some k \<Longrightarrow> k \<in> parked p"
  by (force simp: waiting_at_def parked_def dest: map_of_SomeD)

section \<open>Asking first\<close>

fun agreements :: "('e \<Rightarrow> 's \<Rightarrow> 's) \<Rightarrow> ('e \<Rightarrow> 's \<Rightarrow> 'k list) \<Rightarrow> 'e list \<Rightarrow> 's \<Rightarrow> 'k list" where
  "agreements step agreed [] s = []"
| "agreements step agreed (e # es) s = agreed e s @ agreements step agreed es (step e s)"

locale ask_first =
  fixes step :: "'e \<Rightarrow> 's \<Rightarrow> 's"
    and sent :: "'s \<Rightarrow> 'k list"
    and agreed :: "'e \<Rightarrow> 's \<Rightarrow> 'k list"
  assumes step_sends: "sent (step e s) = sent s @ agreed e s"
begin

lemma run_sends: "sent (fold step es s) = sent s @ agreements step agreed es s"
  by (induction es arbitrary: s) (simp_all add: step_sends)

lemma sent_was_agreed:
  "k \<in> set (sent (fold step es s)) \<Longrightarrow> k \<notin> set (sent s) \<Longrightarrow>
     \<exists>pre e post. es = pre @ e # post \<and> k \<in> set (agreed e (fold step pre s))"
proof (induction es arbitrary: s)
  case (Cons e es)
  show ?case
  proof (cases "k \<in> set (agreed e s)")
    case True
    then show ?thesis by (intro exI [of _ "[]"]) auto
  next
    case False
    then have "k \<notin> set (sent (step e s))" using Cons.prems(2) by (simp add: step_sends)
    with Cons.IH [of "step e s"] Cons.prems(1) obtain pre e' post
      where "es = pre @ e' # post" "k \<in> set (agreed e' (fold step pre (step e s)))" by auto
    then show ?thesis by (intro exI [of _ "e # pre"]) auto
  qed
qed simp

end

end
