(* ===== verification/BoardPages.thy ===== *)
theory BoardPages
  imports PageTasks
begin

text \<open>
  Choosing a board and managing boards: \<open>frontend/src/hooks/useInitialDashboardSelection.ts\<close>, the board a page works
  on (\<open>pages/ListsLayout.tsx\<close>, \<open>pages/CalendarPage.tsx\<close>), \<open>pages/DashboardsPage.tsx\<close> and
  \<open>components/dashboard/DashboardSettingsModal.tsx\<close>. The calls of the store that a page awaits are parked and answered
  with what they return; a toast is its text and whether it offers an undo.

  The lemmas: a page always works on a board that can be seen, its address settles after one rewrite, nothing is
  deleted, left, purged or handed over that was not asked about and agreed to, and no row stays busy.
\<close>

section \<open>The board a page works on\<close>

definition visible_boards :: "dashboard_summary list \<Rightarrow> string set" where
  "visible_boards dashboards = set (map s_id dashboards)"

definition first_board :: "dashboard_summary list \<Rightarrow> string option" where
  "first_board dashboards = (case dashboards of [] \<Rightarrow> None | d # rest \<Rightarrow> Some (s_id d))"

definition pickInitialDashboardId :: "dashboard_summary list \<Rightarrow> string option \<Rightarrow> string option" where
  "pickInitialDashboardId dashboards requested =
     (let requestedDashboard = (if truthy requested then find (\<lambda>d. Some (s_id d) = requested) dashboards else None) in
      case requestedDashboard of
        Some d \<Rightarrow> Some (s_id d)
      | None \<Rightarrow>
          (case find s_is_favorite dashboards of Some d \<Rightarrow> Some (s_id d) | None \<Rightarrow> first_board dashboards))"

text \<open>The hook: one run of the effect at a time counts, and a run of an earlier address is cancelled.\<close>

record selection =
  sl_requested :: "string option"
  sl_summaries :: "dashboard_summary list"
  sl_dashboardId :: "string option"
  sl_ready :: bool
  sl_effect :: nat
  sl_loads :: "nat list"
  sl_toasts :: nat

definition mount_selection :: "string option \<Rightarrow> dashboard_summary list \<Rightarrow> selection" where
  "mount_selection requested summaries =
     \<lparr>sl_requested = requested, sl_summaries = summaries, sl_dashboardId = None, sl_ready = False, sl_effect = 0,
      sl_loads = [0], sl_toasts = 0\<rparr>"

definition address_changes :: "string option \<Rightarrow> selection \<Rightarrow> selection" where
  "address_changes requested st =
     (if requested = sl_requested st then st
      else st\<lparr>sl_requested := requested, sl_effect := sl_effect st + 1, sl_loads := sl_loads st @ [sl_effect st + 1]\<rparr>)"

definition selection_loaded :: "nat \<Rightarrow> bool \<Rightarrow> selection \<Rightarrow> selection" where
  "selection_loaded n ok st =
     (if n \<notin> set (sl_loads st) then st
      else let st = st\<lparr>sl_loads := remove1 n (sl_loads st)\<rparr> in
        if n \<noteq> sl_effect st then st
        else if ok then st\<lparr>sl_dashboardId := pickInitialDashboardId (sl_summaries st) (sl_requested st), sl_ready := True\<rparr>
        else st\<lparr>sl_toasts := sl_toasts st + 1\<rparr>)"

definition setDashboardId :: "string option \<Rightarrow> selection \<Rightarrow> selection" where
  "setDashboardId i st = st\<lparr>sl_dashboardId := i\<rparr>"

definition summaries_change :: "dashboard_summary list \<Rightarrow> selection \<Rightarrow> selection" where
  "summaries_change summaries st = st\<lparr>sl_summaries := summaries\<rparr>"

text \<open>The board of the lists' page; the calendar's has none before the summaries were loaded.\<close>

definition effectiveDashboardId :: "selection \<Rightarrow> string option" where
  "effectiveDashboardId st =
     (if truthy (sl_dashboardId st) \<and> list_ex (\<lambda>d. Some (s_id d) = sl_dashboardId st) (sl_summaries st)
      then sl_dashboardId st else first_board (sl_summaries st))"

definition effectiveActiveDashboardId :: "selection \<Rightarrow> string option" where
  "effectiveActiveDashboardId st = (if \<not> sl_ready st then None else effectiveDashboardId st)"

text \<open>The effects that bring the address in line.\<close>

definition lists_address_effect :: "selection \<Rightarrow> selection" where
  "lists_address_effect st =
     (if \<not> sl_ready st then st
      else if effectiveDashboardId st = sl_requested st then st
      else address_changes (effectiveDashboardId st) st)"

definition calendar_address_effect :: "selection \<Rightarrow> selection" where
  "calendar_address_effect st =
     (if \<not> sl_ready st then st
      else if effectiveActiveDashboardId st \<noteq> sl_dashboardId st
        then address_changes (effectiveActiveDashboardId st) st else st)"

lemma find_board: "i \<in> visible_boards ds \<Longrightarrow> \<exists>d. find (\<lambda>d. Some (s_id d) = Some i) ds = Some d \<and> s_id d = i"
  by (induction ds) (auto simp: visible_boards_def)

lemma pick_visible: "i \<in> visible_boards ds \<Longrightarrow> i \<noteq> [] \<Longrightarrow> pickInitialDashboardId ds (Some i) = Some i"
  using find_board [of i ds] by (auto simp: pickInitialDashboardId_def Let_def)

lemma first_visible: "first_board ds = Some i \<Longrightarrow> i \<in> visible_boards ds" "(first_board ds = None) = (ds = [])"
  by (auto simp: first_board_def visible_boards_def split: list.splits)

lemma find_in: "find P xs = Some x \<Longrightarrow> x \<in> set xs \<and> P x"
  by (induction xs) (auto split: if_splits)

lemma pick_in: "pickInitialDashboardId ds r = Some i \<Longrightarrow> i \<in> visible_boards ds"
  using first_visible(1) by (auto simp: pickInitialDashboardId_def visible_boards_def Let_def dest!: find_in split: option.splits if_splits)

lemma pick_none: "pickInitialDashboardId ds r = None \<longleftrightarrow> ds = []"
  by (auto simp: pickInitialDashboardId_def Let_def first_board_def split: option.splits list.splits if_splits)

lemma effective_visible:
  "(case effectiveDashboardId st of Some i \<Rightarrow> i \<in> visible_boards (sl_summaries st) | None \<Rightarrow> sl_summaries st = [])"
  by (auto simp: effectiveDashboardId_def list_ex_iff visible_boards_def first_board_def split: option.splits list.splits if_splits)

definition boards_named :: "dashboard_summary list \<Rightarrow> bool" where
  "boards_named ds \<longleftrightarrow> [] \<notin> visible_boards ds"

text \<open>C18. C18.
  The lists' page works on a board the user can see whenever there is one, and its address settles: once the address
  is brought in line and the summaries are re-read, it names the board shown, which is the one shown before, and
  nothing is rewritten again. The re-read is one that succeeds and brings the summaries that were there.
\<close>

theorem address_settles:
  assumes "sl_ready st" "boards_named (sl_summaries st)" "sl_effect st \<notin> set (sl_loads st)"
  shows "let st1 = lists_address_effect st; st2 = selection_loaded (sl_effect st1) True st1 in
    effectiveDashboardId st2 = effectiveDashboardId st \<and> sl_requested st2 = effectiveDashboardId st2 \<and>
    lists_address_effect st2 = st2 \<and>
    (case effectiveDashboardId st of Some i \<Rightarrow> i \<in> visible_boards (sl_summaries st) | None \<Rightarrow> sl_summaries st = [])"
proof (cases "effectiveDashboardId st = sl_requested st")
  case True
  then show ?thesis using assms effective_visible [of st] by (simp add: lists_address_effect_def selection_loaded_def Let_def)
next
  case False
  let ?e = "effectiveDashboardId st" and ?st1 = "lists_address_effect st"
  let ?st2 = "selection_loaded (sl_effect ?st1) True ?st1"
  have st1: "?st1 = st\<lparr>sl_requested := ?e, sl_effect := sl_effect st + 1, sl_loads := sl_loads st @ [sl_effect st + 1]\<rparr>"
    using assms(1) False by (simp add: lists_address_effect_def address_changes_def)
  have st2: "sl_dashboardId ?st2 = pickInitialDashboardId (sl_summaries st) ?e" "sl_summaries ?st2 = sl_summaries st"
    "sl_requested ?st2 = ?e" "sl_ready ?st2"
    by (simp_all add: st1 selection_loaded_def Let_def)
  have e: "effectiveDashboardId ?st2 = ?e"
  proof (cases ?e)
    case None
    then have "sl_summaries st = []" using effective_visible [of st] by simp
    then show ?thesis using None by (simp add: effectiveDashboardId_def [of ?st2] st2 first_board_def)
  next
    case (Some i)
    then have i: "i \<in> visible_boards (sl_summaries st)" "i \<noteq> []"
      using effective_visible [of st] assms(2) by (auto simp: boards_named_def)
    then have "pickInitialDashboardId (sl_summaries st) ?e = Some i" using Some pick_visible by simp
    then show ?thesis using i Some
      by (auto simp: effectiveDashboardId_def [of ?st2] st2 list_ex_iff visible_boards_def)
  qed
  then have "lists_address_effect ?st2 = ?st2" using st2 by (simp add: lists_address_effect_def)
  then show ?thesis using e st2 effective_visible [of st] by (simp add: Let_def)
qed

definition sample_board :: "string \<Rightarrow> bool \<Rightarrow> dashboard_summary" where
  "sample_board i fav = \<lparr>s_id = i, s_name = i, s_user_id = ''u'', s_version = 1, s_is_favorite = fav, s_is_shared = False,
     s_can_edit = True, s_can_manage_shares = True, s_access_description = None, s_created_at = [], s_updated_at = []\<rparr>"

text \<open>An address that names a board one cannot see, and a favourite that takes its place.\<close>

theorem address_settles_witness:
  "let st = selection_loaded 0 True (mount_selection (Some ''gone'') [sample_board ''a'' False, sample_board ''b'' True]);
       st2 = selection_loaded 1 True (lists_address_effect st) in
   effectiveDashboardId st = Some ''b'' \<and> sl_requested st2 = Some ''b'' \<and> lists_address_effect st2 = st2"
  using address_settles [of "selection_loaded 0 True (mount_selection (Some ''gone'') [sample_board ''a'' False, sample_board ''b'' True])"]
  by code_simp

section \<open>The page of the boards\<close>

datatype board_call = CallDelete string | CallLeave string | CallRestore string | CallPurge string

datatype board_wait =
    AskDelete dashboard_summary | AskLeave dashboard_summary | AskPurge trashed_dashboard
  | AwaitDelete dashboard_summary | AwaitUndo dashboard_summary | AwaitLeave dashboard_summary
  | AwaitRestore trashed_dashboard | AwaitPurge trashed_dashboard

record boards_page =
  bp_waits :: "board_wait parked"
  bp_calls :: "board_call list"
  bp_questions :: "string list"
  bp_toasts :: "(string \<times> bool) list"
  bp_restoringId :: "string option"
  bp_purgingId :: "string option"
  bp_showTrash :: bool
  bp_trashLoads :: nat
  bp_editing :: "string option"

definition initial_boards_page :: boards_page where
  "initial_boards_page = \<lparr>bp_waits = ([], 0), bp_calls = [], bp_questions = [], bp_toasts = [], bp_restoringId = None,
     bp_purgingId = None, bp_showTrash = False, bp_trashLoads = 0, bp_editing = None\<rparr>"

definition in_quotes :: "string \<Rightarrow> string" where
  "in_quotes s = CHR 0x22 # s @ [CHR 0x22]"

definition bp_await :: "board_wait \<Rightarrow> boards_page \<Rightarrow> boards_page" where
  "bp_await w st = st\<lparr>bp_waits := park w (bp_waits st)\<rparr>"

definition bp_call :: "board_call \<Rightarrow> board_wait \<Rightarrow> boards_page \<Rightarrow> boards_page" where
  "bp_call c w st = bp_await w (st\<lparr>bp_calls := bp_calls st @ [c]\<rparr>)"

definition bp_confirm :: "string \<Rightarrow> board_wait \<Rightarrow> boards_page \<Rightarrow> boards_page" where
  "bp_confirm message w st = bp_await w (st\<lparr>bp_questions := bp_questions st @ [message]\<rparr>)"

definition bp_success :: "string \<Rightarrow> bool \<Rightarrow> boards_page \<Rightarrow> boards_page" where
  "bp_success message undo st = st\<lparr>bp_toasts := bp_toasts st @ [(message, undo)]\<rparr>"

definition boards_handleDelete :: "dashboard_summary \<Rightarrow> boards_page \<Rightarrow> boards_page" where
  "boards_handleDelete d =
     bp_confirm (''Move '' @ in_quotes (s_name d) @ '' to the trash? Its lists and calendar events go with it. '' @
       ''You can restore it from the trash for 30 days.'') (AskDelete d)"

definition boards_handleUndoDelete :: "dashboard_summary \<Rightarrow> boards_page \<Rightarrow> boards_page" where
  "boards_handleUndoDelete d = bp_call (CallRestore (s_id d)) (AwaitUndo d)"

definition boards_handleLeave :: "dashboard_summary \<Rightarrow> boards_page \<Rightarrow> boards_page" where
  "boards_handleLeave d =
     bp_confirm (''Leave '' @ in_quotes (s_name d) @ ''? You will lose access until someone shares it with you again.'') (AskLeave d)"

definition boards_handleRestore :: "trashed_dashboard \<Rightarrow> boards_page \<Rightarrow> boards_page" where
  "boards_handleRestore t st = bp_call (CallRestore (td_id t)) (AwaitRestore t) (st\<lparr>bp_restoringId := Some (td_id t)\<rparr>)"

definition boards_handlePurge :: "trashed_dashboard \<Rightarrow> boards_page \<Rightarrow> boards_page" where
  "boards_handlePurge t =
     bp_confirm (''Permanently delete '' @ in_quotes (td_name t) @ ''? Its lists and calendar events go with it. '' @
       ''This cannot be undone.'') (AskPurge t)"

text \<open>What a handler does next, on the boolean that the dialog or the store answered.\<close>

fun boards_resume :: "board_wait \<Rightarrow> bool \<Rightarrow> boards_page \<Rightarrow> boards_page" where
  "boards_resume (AskDelete d) ok st = (if ok then bp_call (CallDelete (s_id d)) (AwaitDelete d) st else st)"
| "boards_resume (AwaitDelete d) ok st =
     (if ok then bp_success (''Moved '' @ in_quotes (s_name d) @ '' to the trash.'') True st else st)"
| "boards_resume (AwaitUndo d) ok st = (if ok then bp_success (''Restored '' @ in_quotes (s_name d) @ ''.'') False st else st)"
| "boards_resume (AskLeave d) ok st = (if ok then bp_call (CallLeave (s_id d)) (AwaitLeave d) st else st)"
| "boards_resume (AwaitLeave d) ok st = (if ok then bp_success (''Left '' @ in_quotes (s_name d) @ ''.'') False st else st)"
| "boards_resume (AwaitRestore t) ok st =
     (if ok then bp_success (''Restored '' @ in_quotes (td_name t) @ ''.'') False st else st)\<lparr>bp_restoringId := None\<rparr>"
| "boards_resume (AskPurge t) ok st =
     (if ok then bp_call (CallPurge (td_id t)) (AwaitPurge t) (st\<lparr>bp_purgingId := Some (td_id t)\<rparr>) else st)"
| "boards_resume (AwaitPurge t) ok st =
     (if ok then bp_success (''Permanently deleted '' @ in_quotes (td_name t) @ ''.'') False st else st)\<lparr>bp_purgingId := None\<rparr>"

definition boards_answered :: "nat \<Rightarrow> bool \<Rightarrow> boards_page \<Rightarrow> boards_page" where
  "boards_answered n ok st =
     (case waiting_at n (bp_waits st) of
        None \<Rightarrow> st | Some w \<Rightarrow> boards_resume w ok (st\<lparr>bp_waits := unpark n (bp_waits st)\<rparr>))"

text \<open>The trash is asked for when it is opened; the open settings close when their board cannot be edited.\<close>

definition toggle_boards_trash :: "boards_page \<Rightarrow> boards_page" where
  "toggle_boards_trash st =
     st\<lparr>bp_showTrash := \<not> bp_showTrash st, bp_trashLoads := bp_trashLoads st + (if bp_showTrash st then 0 else 1)\<rparr>"

definition editingDashboard :: "dashboard_summary list \<Rightarrow> boards_page \<Rightarrow> dashboard_summary option" where
  "editingDashboard summaries st =
     (case bp_editing st of
        Some i \<Rightarrow> if i \<noteq> [] then find (\<lambda>d. s_id d = i) summaries else None | None \<Rightarrow> None)"

definition close_uneditable :: "dashboard_summary list \<Rightarrow> boards_page \<Rightarrow> boards_page" where
  "close_uneditable summaries st =
     (case editingDashboard summaries st of
        Some d \<Rightarrow> if s_can_edit d then st else st\<lparr>bp_editing := None\<rparr>
      | None \<Rightarrow> if truthy (bp_editing st) then st\<lparr>bp_editing := None\<rparr> else st)"

definition boards_sections :: "dashboard_summary list \<Rightarrow> dashboard_summary list \<times> dashboard_summary list" where
  "boards_sections summaries = (filter s_is_favorite summaries, filter (\<lambda>d. \<not> s_is_favorite d) summaries)"

text \<open>The clicks take a row that is shown: a restore or purge of one that is busy has no button to press.\<close>

datatype boards_event =
    DeleteClicked dashboard_summary | UndoClicked dashboard_summary | LeaveClicked dashboard_summary
  | RestoreClicked trashed_dashboard | PurgeClicked trashed_dashboard | BoardsAnswered nat bool
  | TrashToggled | RenameClicked dashboard_summary | BoardsRender "dashboard_summary list"

definition row_busy :: "string \<Rightarrow> boards_page \<Rightarrow> bool" where
  "row_busy i st \<longleftrightarrow> bp_restoringId st = Some i \<or> bp_purgingId st = Some i"

fun boards_step :: "boards_event \<Rightarrow> boards_page \<Rightarrow> boards_page" where
  "boards_step (DeleteClicked d) st = boards_handleDelete d st"
| "boards_step (UndoClicked d) st = boards_handleUndoDelete d st"
| "boards_step (LeaveClicked d) st = boards_handleLeave d st"
| "boards_step (RestoreClicked t) st = (if row_busy (td_id t) st then st else boards_handleRestore t st)"
| "boards_step (PurgeClicked t) st = (if row_busy (td_id t) st then st else boards_handlePurge t st)"
| "boards_step (BoardsAnswered n ok) st = boards_answered n ok st"
| "boards_step TrashToggled st = toggle_boards_trash st"
| "boards_step (RenameClicked d) st = st\<lparr>bp_editing := Some (s_id d)\<rparr>"
| "boards_step (BoardsRender summaries) st = close_uneditable summaries st"

lemmas boards_ops = bp_await_def bp_call_def bp_confirm_def bp_success_def boards_handleDelete_def boards_handleUndoDelete_def
  boards_handleLeave_def boards_handleRestore_def boards_handlePurge_def boards_answered_def toggle_boards_trash_def close_uneditable_def

definition asked_for :: "board_call \<Rightarrow> bool" where
  "asked_for c = (case c of CallRestore i \<Rightarrow> False | _ \<Rightarrow> True)"

fun question_for :: "board_wait \<Rightarrow> board_call option" where
  "question_for (AskDelete d) = Some (CallDelete (s_id d))"
| "question_for (AskLeave d) = Some (CallLeave (s_id d))"
| "question_for (AskPurge t) = Some (CallPurge (td_id t))"
| "question_for _ = None"

text \<open>What an event agrees to: the answer yes to a question that is out.\<close>

definition boards_agreed :: "boards_event \<Rightarrow> boards_page \<Rightarrow> board_call list" where
  "boards_agreed e st =
     (case e of
        BoardsAnswered n True \<Rightarrow> (case Option.bind (waiting_at n (bp_waits st)) question_for of Some c \<Rightarrow> [c] | None \<Rightarrow> [])
      | _ \<Rightarrow> [])"

interpretation boards_asking: ask_first boards_step "\<lambda>st. filter asked_for (bp_calls st)" boards_agreed
proof
  fix e st
  show "filter asked_for (bp_calls (boards_step e st)) = filter asked_for (bp_calls st) @ boards_agreed e st"
  proof (cases e)
    case (BoardsAnswered n ok)
    show ?thesis
    proof (cases "waiting_at n (bp_waits st)")
      case (Some w)
      then show ?thesis using BoardsAnswered by (cases w; cases ok) (simp_all add: boards_ops boards_agreed_def asked_for_def)
    qed (use BoardsAnswered in \<open>simp add: boards_ops boards_agreed_def split: bool.split\<close>)
  qed (simp_all add: boards_ops boards_agreed_def asked_for_def split: option.split)
qed

text \<open>
  No board is moved to the trash, left or purged unasked: for every such call the user was asked about this very board
  and said yes, whatever else was clicked and answered meanwhile.
\<close>

theorem boards_page_asks_first:
  assumes "c \<in> set (bp_calls (fold boards_step es initial_boards_page))" "asked_for c"
  shows "\<exists>pre n post w. es = pre @ BoardsAnswered n True # post \<and>
    waiting_at n (bp_waits (fold boards_step pre initial_boards_page)) = Some w \<and> question_for w = Some c"
proof -
  have "c \<in> set (filter asked_for (bp_calls (fold boards_step es initial_boards_page)))" using assms by simp
  from boards_asking.sent_was_agreed [OF this] obtain pre e post where
    e: "es = pre @ e # post" "c \<in> set (boards_agreed e (fold boards_step pre initial_boards_page))"
    by (auto simp: initial_boards_page_def)
  then obtain n where n: "e = BoardsAnswered n True"
    by (cases e) (auto simp: boards_agreed_def split: bool.splits)
  have "Option.bind (waiting_at n (bp_waits (fold boards_step pre initial_boards_page))) question_for = Some c"
    using e(2) n by (auto simp: boards_agreed_def split: option.splits)
  then show ?thesis using e(1) n by (auto simp: bind_eq_Some_conv)
qed

theorem boards_page_asks_first_witness:
  "\<exists>pre n post w. [DeleteClicked (sample_board ''a'' False), TrashToggled, BoardsAnswered 0 True] = pre @ BoardsAnswered n True # post \<and>
    waiting_at n (bp_waits (fold boards_step pre initial_boards_page)) = Some w \<and> question_for w = Some (CallDelete ''a'')"
  by (rule boards_page_asks_first) code_simp+

section \<open>No row stays busy\<close>

definition busy_ok :: "boards_page \<Rightarrow> bool" where
  "busy_ok st \<longleftrightarrow> parked_ok (bp_waits st) \<and>
     (\<forall>i. bp_restoringId st = Some i \<longrightarrow> (\<exists>t. td_id t = i \<and> AwaitRestore t \<in> parked (bp_waits st))) \<and>
     (\<forall>i. bp_purgingId st = Some i \<longrightarrow> (\<exists>t. td_id t = i \<and> AwaitPurge t \<in> parked (bp_waits st)))"

lemma busy_answered:
  assumes "busy_ok st" shows "busy_ok (boards_answered n ok st)"
proof (cases "waiting_at n (bp_waits st)")
  case None
  then show ?thesis using assms by (simp add: boards_answered_def)
next
  case (Some w)
  have ok: "parked_ok (bp_waits st)" using assms by (simp add: busy_ok_def)
  note other = parked_unpark_other [OF ok Some]
  have "\<exists>t. td_id t = i \<and> AwaitRestore t \<in> parked (unpark n (bp_waits st))"
    if "bp_restoringId st = Some i" "\<And>t. w \<noteq> AwaitRestore t" for i
    using assms that other unfolding busy_ok_def by metis
  moreover have "\<exists>t. td_id t = i \<and> AwaitPurge t \<in> parked (unpark n (bp_waits st))"
    if "bp_purgingId st = Some i" "\<And>t. w \<noteq> AwaitPurge t" for i
    using assms that other unfolding busy_ok_def by metis
  ultimately show ?thesis using ok Some
    by (cases w) (auto simp: busy_ok_def boards_answered_def bp_call_def bp_await_def bp_success_def)
qed

lemma busy_step: "busy_ok st \<Longrightarrow> busy_ok (boards_step e st)"
  by (cases e) (auto simp: busy_answered, auto simp: busy_ok_def boards_ops split: option.split)

interpretation boards_busy: event_machine boards_step busy_ok
  by unfold_locales (rule busy_step)

text \<open>A row is marked busy only while the answer for it is out: with nothing awaited, no row is.\<close>

lemma rows_are_freed:
  "fst (bp_waits (fold boards_step es initial_boards_page)) = [] \<Longrightarrow> \<not> row_busy i (fold boards_step es initial_boards_page)"
proof -
  have "busy_ok (fold boards_step es initial_boards_page)"
    by (rule boards_busy.run_inv) (simp add: busy_ok_def initial_boards_page_def)
  then show "fst (bp_waits (fold boards_step es initial_boards_page)) = [] \<Longrightarrow> \<not> row_busy i (fold boards_step es initial_boards_page)"
    by (auto simp: busy_ok_def row_busy_def parked_def)
qed

section \<open>The settings of a board\<close>

datatype share_role = Viewer | Editor

record share =
  sh_id :: string
  sh_type :: string
  sh_principal :: string
  sh_name :: string
  sh_role :: share_role

record share_item =
  si_key :: string
  si_type :: string
  si_principal :: string
  si_name :: string
  si_role :: share_role

datatype settings_call = RenameBoard string string | UpdateShare string share_role | RemoveShare string | TransferTo string

datatype settings_wait =
    LoadShares nat | AwaitRename | AwaitUpdate string | AskTransfer share_item | AwaitTransfer | AwaitRemove string

record settings_modal =
  sm_board :: string
  sm_name :: string
  sm_canManageShares :: bool
  sm_shares :: "share list"
  sm_sharesLoading :: bool
  sm_effect :: nat
  sm_submitting :: bool
  sm_closed :: bool
  sm_waits :: "settings_wait parked"
  sm_calls :: "settings_call list"
  sm_toasts :: "string list"

definition sm_await :: "settings_wait \<Rightarrow> settings_modal \<Rightarrow> settings_modal" where
  "sm_await w st = st\<lparr>sm_waits := park w (sm_waits st)\<rparr>"

definition sm_call :: "settings_call \<Rightarrow> settings_wait \<Rightarrow> settings_modal \<Rightarrow> settings_modal" where
  "sm_call c w st = sm_await w (st\<lparr>sm_calls := sm_calls st @ [c]\<rparr>)"

definition load_shares :: "settings_modal \<Rightarrow> settings_modal" where
  "load_shares st =
     (if \<not> sm_canManageShares st then st\<lparr>sm_shares := [], sm_sharesLoading := False\<rparr>
      else sm_await (LoadShares (sm_effect st)) (st\<lparr>sm_sharesLoading := True\<rparr>))"

definition open_settings :: "dashboard_summary \<Rightarrow> settings_modal" where
  "open_settings d =
     load_shares \<lparr>sm_board = s_id d, sm_name = s_name d, sm_canManageShares = s_can_manage_shares d, sm_shares = [],
       sm_sharesLoading = True, sm_effect = 0, sm_submitting = False, sm_closed = False, sm_waits = ([], 0), sm_calls = [],
       sm_toasts = []\<rparr>"

definition shareItems :: "settings_modal \<Rightarrow> share_item list" where
  "shareItems st =
     map (\<lambda>s. \<lparr>si_key = sh_type s @ '':'' @ sh_principal s, si_type = sh_type s, si_principal = sh_principal s,
        si_name = sh_name s, si_role = sh_role s\<rparr>) (sm_shares st)"

definition findShare :: "share_item \<Rightarrow> settings_modal \<Rightarrow> share option" where
  "findShare item st = find (\<lambda>s. sh_type s = si_type item \<and> sh_principal s = si_principal item) (sm_shares st)"

definition settings_handleSubmit :: "string \<Rightarrow> settings_modal \<Rightarrow> settings_modal" where
  "settings_handleSubmit typed st =
     (let trimmed = js_trim typed in
      if trimmed = [] \<or> trimmed = sm_name st then st\<lparr>sm_closed := True\<rparr>
      else sm_call (RenameBoard (sm_board st) trimmed) AwaitRename (st\<lparr>sm_submitting := True\<rparr>))"

definition handleRoleChange :: "share_item \<Rightarrow> share_role \<Rightarrow> settings_modal \<Rightarrow> settings_modal" where
  "handleRoleChange item role st =
     (case findShare item st of
        None \<Rightarrow> st
      | Some s \<Rightarrow> if sh_role s = role then st else sm_call (UpdateShare (sh_id s) role) (AwaitUpdate (sh_id s)) st)"

definition handleTransfer :: "share_item \<Rightarrow> settings_modal \<Rightarrow> settings_modal" where
  "handleTransfer item = sm_await (AskTransfer item)"

definition handleRemoveShare :: "share_item \<Rightarrow> settings_modal \<Rightarrow> settings_modal" where
  "handleRemoveShare item st =
     (case findShare item st of None \<Rightarrow> st | Some s \<Rightarrow> sm_call (RemoveShare (sh_id s)) (AwaitRemove (sh_id s)) st)"

text \<open>What an awaited call returned: rows, a row, a boolean, nothing, or that it threw.\<close>

datatype settings_answer = SharesCame "share list" | ShareCame share | Told bool | Threw

fun settings_resume :: "settings_wait \<Rightarrow> settings_answer \<Rightarrow> settings_modal \<Rightarrow> settings_modal" where
  "settings_resume (LoadShares effect) a st =
     (if effect \<noteq> sm_effect st then st
      else case a of
        SharesCame rows \<Rightarrow> st\<lparr>sm_shares := rows, sm_sharesLoading := False\<rparr>
      | _ \<Rightarrow> st\<lparr>sm_toasts := sm_toasts st @ [''Failed to load dashboard permissions.''], sm_sharesLoading := False\<rparr>)"
| "settings_resume AwaitRename a st = (if a = Told True then st\<lparr>sm_closed := True\<rparr> else st)\<lparr>sm_submitting := False\<rparr>"
| "settings_resume (AwaitUpdate i) a st =
     (case a of
        ShareCame updated \<Rightarrow> st\<lparr>sm_shares := map (\<lambda>s. if sh_id s = i then updated else s) (sm_shares st)\<rparr>
      | _ \<Rightarrow> st\<lparr>sm_toasts := sm_toasts st @ [''Failed to update permission.'']\<rparr>)"
| "settings_resume (AskTransfer item) a st =
     (if a = Told True then sm_call (TransferTo (si_principal item)) AwaitTransfer st else st)"
| "settings_resume AwaitTransfer a st = (if a = Told True then st\<lparr>sm_closed := True\<rparr> else st)"
| "settings_resume (AwaitRemove i) a st =
     (if a = Threw then st\<lparr>sm_toasts := sm_toasts st @ [''Failed to remove permission.'']\<rparr>
      else st\<lparr>sm_shares := filter (\<lambda>s. sh_id s \<noteq> i) (sm_shares st)\<rparr>)"

definition settings_answered :: "nat \<Rightarrow> settings_answer \<Rightarrow> settings_modal \<Rightarrow> settings_modal" where
  "settings_answered n a st =
     (case waiting_at n (sm_waits st) of
        None \<Rightarrow> st | Some w \<Rightarrow> settings_resume w a (st\<lparr>sm_waits := unpark n (sm_waits st)\<rparr>))"

text \<open>The props move with the summaries: the name a rename is compared with, or the board and with it the effect.\<close>

definition settings_props :: "string \<Rightarrow> string \<Rightarrow> settings_modal \<Rightarrow> settings_modal" where
  "settings_props i name st =
     (let st' = st\<lparr>sm_board := i, sm_name := name\<rparr> in
      if i = sm_board st then st' else load_shares (st'\<lparr>sm_effect := sm_effect st + 1\<rparr>))"

datatype settings_event =
    NameSubmitted string | RoleChosen share_item share_role | TransferClicked share_item | RemoveClicked share_item
  | SettingsAnswered nat settings_answer | SettingsProps string string

fun settings_step :: "settings_event \<Rightarrow> settings_modal \<Rightarrow> settings_modal" where
  "settings_step (NameSubmitted s) st = settings_handleSubmit s st"
| "settings_step (RoleChosen i r) st = handleRoleChange i r st"
| "settings_step (TransferClicked i) st = handleTransfer i st"
| "settings_step (RemoveClicked i) st = handleRemoveShare i st"
| "settings_step (SettingsAnswered n a) st = settings_answered n a st"
| "settings_step (SettingsProps b m) st = settings_props b m st"

lemmas settings_ops = sm_await_def sm_call_def load_shares_def settings_handleSubmit_def handleRoleChange_def handleTransfer_def
  handleRemoveShare_def settings_answered_def settings_props_def

definition transfers :: "settings_modal \<Rightarrow> settings_call list" where
  "transfers st = filter (\<lambda>c. case c of TransferTo u \<Rightarrow> True | _ \<Rightarrow> False) (sm_calls st)"

definition settings_agreed :: "settings_event \<Rightarrow> settings_modal \<Rightarrow> settings_call list" where
  "settings_agreed e st =
     (case e of
        SettingsAnswered n (Told True) \<Rightarrow>
          (case waiting_at n (sm_waits st) of Some (AskTransfer item) \<Rightarrow> [TransferTo (si_principal item)] | _ \<Rightarrow> [])
      | _ \<Rightarrow> [])"

lemma settings_agreed_none: "\<forall>n. e \<noteq> SettingsAnswered n (Told True) \<Longrightarrow> settings_agreed e st = []"
  by (auto simp: settings_agreed_def split: settings_event.split settings_answer.split bool.split)

lemma settings_resume_sends:
  "transfers (settings_resume w a st) =
     transfers st @ (case w of AskTransfer item \<Rightarrow> if a = Told True then [TransferTo (si_principal item)] else [] | _ \<Rightarrow> [])"
  by (cases w; cases a) (auto simp: transfers_def settings_ops)

interpretation transfer_asking: ask_first settings_step transfers settings_agreed
proof
  fix e st
  show "transfers (settings_step e st) = transfers st @ settings_agreed e st"
  proof (cases e)
    case (SettingsAnswered n a)
    have idle: "transfers (st\<lparr>sm_waits := ws\<rparr>) = transfers st" for ws by (simp add: transfers_def)
    show ?thesis
    proof (cases "waiting_at n (sm_waits st)")
      case None
      then show ?thesis using SettingsAnswered by (simp add: settings_answered_def settings_agreed_def split: settings_answer.split bool.split)
    next
      case (Some w)
      then show ?thesis using SettingsAnswered settings_agreed_none [of e st]
        by (cases "a = Told True") (auto simp: settings_answered_def settings_resume_sends idle settings_agreed_def split: settings_wait.split)
    qed
  qed (auto simp: settings_ops transfers_def settings_agreed_def Let_def split: option.split)
qed

text \<open>A board changes hands only when its owner was asked about this person and said yes.\<close>

lemma transfer_asks_first:
  assumes "TransferTo u \<in> set (sm_calls (fold settings_step es (open_settings d)))"
  shows "\<exists>pre n post item. es = pre @ SettingsAnswered n (Told True) # post \<and>
    waiting_at n (sm_waits (fold settings_step pre (open_settings d))) = Some (AskTransfer item) \<and> si_principal item = u"
proof -
  have "TransferTo u \<in> set (transfers (fold settings_step es (open_settings d)))" "transfers (open_settings d) = []"
    using assms by (simp_all add: transfers_def open_settings_def load_shares_def sm_await_def)
  from transfer_asking.sent_was_agreed [OF this(1)] this(2) obtain pre e post where
    e: "es = pre @ e # post" "TransferTo u \<in> set (settings_agreed e (fold settings_step pre (open_settings d)))" by auto
  then obtain n where n: "e = SettingsAnswered n (Told True)" using settings_agreed_none by fastforce
  let ?w = "waiting_at n (sm_waits (fold settings_step pre (open_settings d)))"
  obtain w where w: "?w = Some w" using e(2) n by (cases ?w) (auto simp: settings_agreed_def)
  then obtain item where "w = AskTransfer item" "si_principal item = u" using e(2) n by (cases w) (auto simp: settings_agreed_def)
  with w have "?w = Some (AskTransfer item) \<and> si_principal item = u" by simp
  then show ?thesis using e(1) n by blast
qed

end
