(* ===== verification/Routes.thy ===== *)
theory Routes
  imports Contract CalendarTime AuthStore
begin

text \<open>
  The client's routes and how the first screen is loaded (\<open>frontend/src/routes.ts\<close>, \<open>App.tsx\<close>,
  \<open>routePreload.tsx\<close>, \<open>components/auth/RequireAuth.tsx\<close>). The router is a library: of it the code relies on one thing,
  that a route shows for the instances of its pattern, a parameter standing for one segment that is not empty.

  The lemmas: the chunks fetched while the session is checked are exactly the ones the route's screen renders, for
  the home page every one its redirect can lead to, and waiting for them ends with the last of them or the cap.
\<close>

section \<open>The table of routes\<close>

definition ROUTE_dashboard :: "string \<Rightarrow> string" where
  "ROUTE_dashboard i = ''/dashboard/'' @ i"

definition ROUTE_listDetail :: "string \<Rightarrow> string" where
  "ROUTE_listDetail i = ''/lists/'' @ i"

definition ROUTE_invite :: "string \<Rightarrow> string" where
  "ROUTE_invite code = ''/invite/'' @ code"

datatype page_chunk =
    CalendarChunk | DashboardEditorChunk | DashboardsChunk | ListDetailChunk | ListsLayoutChunk | NotificationsChunk | ProfileChunk

datatype screen = PublicPage | HomeRedirect | LazyPages "page_chunk list"

text \<open>The routes of \<open>App\<close> in the order written: pattern, screen, and whether it is behind \<open>RequireAuth\<close>.\<close>

definition app_routes :: "(string \<times> screen \<times> bool) list" where
  "app_routes =
    [(''/login'', PublicPage, False), (''/register'', PublicPage, False), (''/forgot-password'', PublicPage, False),
     (''/reset-password'', PublicPage, False), (''/verify-email'', PublicPage, False),
     (''/confirm-email-change'', PublicPage, False), (''/invite/:code'', PublicPage, False),
     (''/'', HomeRedirect, True), (''/dashboards'', LazyPages [DashboardsChunk], True),
     (''/dashboard/:id'', LazyPages [DashboardEditorChunk], True), (''/calendar'', LazyPages [CalendarChunk], True),
     (''/lists'', LazyPages [ListsLayoutChunk], True), (''/lists/:listId'', LazyPages [ListsLayoutChunk, ListDetailChunk], True),
     (''/notifications'', LazyPages [NotificationsChunk], True), (''/profile'', LazyPages [ProfileChunk], True)]"

fun segment_matches :: "string \<Rightarrow> string \<Rightarrow> bool" where
  "segment_matches (c # cs) s = (if c = CHR '':'' then s \<noteq> [] else s = c # cs)"
| "segment_matches [] s = (s = [])"

definition path_matches :: "string \<Rightarrow> string \<Rightarrow> bool" where
  "path_matches pattern path \<longleftrightarrow> list_all2 segment_matches (split_on (CHR ''/'') pattern) (split_on (CHR ''/'') path)"

definition screen_at :: "string \<Rightarrow> (screen \<times> bool) option" where
  "screen_at path = map_option snd (find (\<lambda>(pattern, sc). path_matches pattern path) app_routes)"

text \<open>\<open>DefaultDashboardRedirect\<close>: the home dashboard of the preferences, or the list of dashboards.\<close>

definition default_redirect :: "user option \<Rightarrow> string" where
  "default_redirect u =
     (let homeId = Option.bind (Option.bind u u_preferences) up_home_dashboard_id in
      if truthy homeId then ROUTE_dashboard (the homeId) else ''/dashboards'')"

datatype auth_screen = BootScreen | UnreachableScreen | ToLogin | Inside

definition RequireAuth :: "auth_status \<Rightarrow> auth_screen" where
  "RequireAuth status =
     (if status = AuthLoading then BootScreen else if status = Unreachable then UnreachableScreen
      else if status = SignedOut then ToLogin else Inside)"

section \<open>Preloading\<close>

definition chunksForPath :: "string \<Rightarrow> page_chunk list" where
  "chunksForPath pathname =
     (if pathname = ''/'' then [DashboardEditorChunk, DashboardsChunk]
      else if pathname = ''/dashboards'' then [DashboardsChunk]
      else if starts_with ''/dashboard/'' pathname then [DashboardEditorChunk]
      else if pathname = ''/calendar'' then [CalendarChunk]
      else if pathname = ''/lists'' then [ListsLayoutChunk]
      else if starts_with ''/lists/'' pathname then [ListsLayoutChunk, ListDetailChunk]
      else if pathname = ''/notifications'' then [NotificationsChunk]
      else if pathname = ''/profile'' then [ProfileChunk]
      else [])"

definition PRELOAD_CAP_MS :: nat where
  "PRELOAD_CAP_MS = 3000"

text \<open>The promise: the fetches not settled yet, what is left on the timer (none once cleared), and whether it resolved.\<close>

record preload =
  pr_pending :: "page_chunk list"
  pr_cap :: "nat option"
  pr_resolved :: bool

definition preloadRouteChunks :: "string \<Rightarrow> preload" where
  "preloadRouteChunks pathname =
     (let names = chunksForPath pathname in
      if names = [] then \<lparr>pr_pending = [], pr_cap = None, pr_resolved = True\<rparr>
      else \<lparr>pr_pending = names, pr_cap = Some PRELOAD_CAP_MS, pr_resolved = False\<rparr>)"

text \<open>A fetch settles, loaded or failed alike; the last one clears the timer.\<close>

definition chunk_settles :: "page_chunk \<Rightarrow> preload \<Rightarrow> preload" where
  "chunk_settles c st =
     (if c \<notin> set (pr_pending st) then st
      else let rest = remove1 c (pr_pending st) in
        if rest = [] then \<lparr>pr_pending = [], pr_cap = None, pr_resolved = True\<rparr> else st\<lparr>pr_pending := rest\<rparr>)"

definition ms_passes :: "preload \<Rightarrow> preload" where
  "ms_passes st =
     (case pr_cap st of
        None \<Rightarrow> st
      | Some n \<Rightarrow> if n \<le> 1 then st\<lparr>pr_cap := None, pr_resolved := True\<rparr> else st\<lparr>pr_cap := Some (n - 1)\<rparr>)"

datatype preload_event = ChunkSettles page_chunk | MsPasses

fun preload_step :: "preload_event \<Rightarrow> preload \<Rightarrow> preload" where
  "preload_step (ChunkSettles c) st = chunk_settles c st"
| "preload_step MsPasses st = ms_passes st"

section \<open>The first screen is loaded\<close>

fun join_on :: "char \<Rightarrow> string list \<Rightarrow> string" where
  "join_on c [] = []"
| "join_on c [w] = w"
| "join_on c (w # ws) = w @ c # join_on c ws"

lemma join_split: "join_on c (split_on c s) = s" and split_not_Nil: "split_on c s \<noteq> []"
proof (induction s)
  case (Cons x xs)
  { case 1
    obtain w ws where "split_on c xs = w # ws" using Cons(2) by (cases "split_on c xs") auto
    then show ?case using Cons(1) by (cases ws) auto
  next
    case 2
    then show ?case by (auto split: list.split)
  }
qed simp_all

definition screen_chunks :: "screen \<Rightarrow> page_chunk list" where
  "screen_chunks sc = (case sc of PublicPage \<Rightarrow> [] | HomeRedirect \<Rightarrow> [DashboardEditorChunk, DashboardsChunk] | LazyPages cs \<Rightarrow> cs)"

lemma segment_literal: "segment_matches p s \<Longrightarrow> CHR '':'' \<notin> set p \<Longrightarrow> s = p"
  by (cases p) auto

lemma literal_segments: "list_all2 segment_matches ps ss \<Longrightarrow> \<forall>p \<in> set ps. CHR '':'' \<notin> set p \<Longrightarrow> ss = ps"
  by (induction rule: list_all2_induct) (auto dest: segment_literal)

lemma set_split: "p \<in> set (split_on c s) \<Longrightarrow> set p \<subseteq> set s"
  by (induction s arbitrary: p) (force split: list.splits if_splits)+

lemma literal_route: "path_matches pattern path \<Longrightarrow> CHR '':'' \<notin> set pattern \<Longrightarrow> path = pattern"
  using literal_segments [of "split_on (CHR ''/'') pattern" "split_on (CHR ''/'') path"] set_split
  unfolding path_matches_def by (metis join_split subsetD)

lemma parameter_route:
  assumes "path_matches pattern path" "split_on (CHR ''/'') pattern = [[], a, CHR '':'' # x]" "CHR '':'' \<notin> set a"
  shows "\<exists>i. path = CHR ''/'' # a @ CHR ''/'' # i"
proof -
  obtain i where "split_on (CHR ''/'') path = [[], a, i]"
    using assms by (auto simp: path_matches_def list_all2_Cons1 dest: segment_literal)
  then show ?thesis using join_split [of "CHR ''/''" path] by auto
qed

lemma literal_chunks:
  "list_all (\<lambda>(pattern, sc, auth). CHR '':'' \<in> set pattern \<or> chunksForPath pattern = screen_chunks sc) app_routes"
  by code_simp

lemma parameter_chunks:
  "chunksForPath (''/dashboard/'' @ i) = [DashboardEditorChunk]" "chunksForPath (''/lists/'' @ i) = [ListsLayoutChunk, ListDetailChunk]"
  "chunksForPath (''/invite/'' @ i) = []"
  by (simp_all add: chunksForPath_def starts_with_def)

lemma parameter_routes:
  "list_all (\<lambda>(pattern, sc, auth). CHR '':'' \<notin> set pattern \<or> pattern = ''/invite/:code'' \<and> sc = PublicPage \<or>
     pattern = ''/dashboard/:id'' \<and> sc = LazyPages [DashboardEditorChunk] \<or>
     pattern = ''/lists/:listId'' \<and> sc = LazyPages [ListsLayoutChunk, ListDetailChunk]) app_routes"
  by code_simp

lemma parameter_paths:
  "path_matches ''/invite/:code'' path \<Longrightarrow> \<exists>i. path = ''/invite/'' @ i"
  "path_matches ''/dashboard/:id'' path \<Longrightarrow> \<exists>i. path = ''/dashboard/'' @ i"
  "path_matches ''/lists/:listId'' path \<Longrightarrow> \<exists>i. path = ''/lists/'' @ i"
  using parameter_route [of "''/invite/:code''" path "''invite''" "''code''"]
    parameter_route [of "''/dashboard/:id''" path "''dashboard''" "''id''"]
    parameter_route [of "''/lists/:listId''" path "''lists''" "''listId''"] by simp_all

lemma matched_chunks:
  assumes "path_matches pattern path" "(pattern, sc, auth) \<in> set app_routes"
  shows "chunksForPath path = screen_chunks sc"
proof (cases "CHR '':'' \<in> set pattern")
  case False
  have "chunksForPath pattern = screen_chunks sc" using literal_chunks assms(2) False unfolding list_all_iff by blast
  then show ?thesis using literal_route [OF assms(1) False] by (simp only:)
next
  case True
  then consider "pattern = ''/invite/:code''" "sc = PublicPage" | "pattern = ''/dashboard/:id''" "sc = LazyPages [DashboardEditorChunk]"
    | "pattern = ''/lists/:listId''" "sc = LazyPages [ListsLayoutChunk, ListDetailChunk]"
    using parameter_routes assms(2) unfolding list_all_iff by blast
  then show ?thesis
  proof cases
    case 1
    with parameter_paths(1) assms(1) obtain i where "path = ''/invite/'' @ i" by blast
    then show ?thesis using 1(2) by (simp only: parameter_chunks screen_chunks_def screen.case)
  next
    case 2
    with parameter_paths(2) assms(1) obtain i where "path = ''/dashboard/'' @ i" by blast
    then show ?thesis using 2(2) by (simp only: parameter_chunks screen_chunks_def screen.case)
  next
    case 3
    with parameter_paths(3) assms(1) obtain i where "path = ''/lists/'' @ i" by blast
    then show ?thesis using 3(2) by (simp only: parameter_chunks screen_chunks_def screen.case)
  qed
qed

lemma screen_in_table:
  assumes "screen_at path = Some (sc, auth)"
  shows "\<exists>pattern. path_matches pattern path \<and> (pattern, sc, auth) \<in> set app_routes"
proof -
  obtain r where "find (\<lambda>(pattern, sc). path_matches pattern path) app_routes = Some r" "snd r = (sc, auth)"
    using assms by (auto simp: screen_at_def)
  then show ?thesis unfolding find_Some_iff by (cases r) (auto intro!: exI [of _ "fst r"] dest: nth_mem)
qed

lemma redirect_chunks: "set (chunksForPath (default_redirect u)) \<subseteq> {DashboardEditorChunk, DashboardsChunk}"
proof -
  have "default_redirect u = ''/dashboards'' \<or> (\<exists>i. default_redirect u = ''/dashboard/'' @ i)"
    by (auto simp: default_redirect_def ROUTE_dashboard_def Let_def)
  then show ?thesis by (auto simp: chunksForPath_def starts_with_def)
qed

lemma redirect_shown:
  assumes "list_all (\<lambda>c. c \<noteq> CHR ''/'') i" "i \<noteq> []"
  shows "path_matches ''/dashboard/:id'' (ROUTE_dashboard i)"
  using assms split_on_clean [of "CHR ''/''" i] by (simp add: path_matches_def ROUTE_dashboard_def)

text \<open>
  The first screen never waits for a chunk that was not asked for while the session was checked: what a path preloads
  is what its route renders, and at the home page what either redirect renders, whoever signs in.
\<close>

theorem boot_preloads_first_screen:
  assumes "screen_at path = Some (sc, auth)"
  shows "chunksForPath path = screen_chunks sc \<and>
    (sc = HomeRedirect \<longrightarrow> (\<forall>u. set (chunksForPath (default_redirect u)) \<subseteq> set (chunksForPath path)))"
proof -
  from screen_in_table [OF assms] matched_chunks have c: "chunksForPath path = screen_chunks sc" by blast
  then show ?thesis using redirect_chunks by (auto simp: screen_chunks_def)
qed

theorem boot_preloads_first_screen_witness:
  "chunksForPath ''/lists/abc'' = [ListsLayoutChunk, ListDetailChunk] \<and> chunksForPath ''/'' = [DashboardEditorChunk, DashboardsChunk]"
proof -
  have "screen_at ''/lists/abc'' = Some (LazyPages [ListsLayoutChunk, ListDetailChunk], True)" "screen_at ''/'' = Some (HomeRedirect, True)"
    by code_simp+
  from this [THEN boot_preloads_first_screen] show ?thesis by (simp add: screen_chunks_def)
qed

section \<open>The boot is not held up\<close>

definition preload_ok :: "preload \<Rightarrow> bool" where
  "preload_ok st \<longleftrightarrow> (case pr_cap st of
     Some n \<Rightarrow> 0 < n \<and> n \<le> PRELOAD_CAP_MS \<and> \<not> pr_resolved st \<and> pr_pending st \<noteq> [] | None \<Rightarrow> pr_resolved st)"

lemma preload_step_ok: "preload_ok st \<Longrightarrow> preload_ok (preload_step e st)"
  by (cases e) (auto simp: preload_ok_def chunk_settles_def ms_passes_def Let_def split: option.splits)

interpretation preload_runs: event_machine preload_step preload_ok
  by unfold_locales (rule preload_step_ok)

lemma preload_ok_init: "preload_ok (preloadRouteChunks path)"
  by (simp add: preload_ok_def preloadRouteChunks_def PRELOAD_CAP_MS_def Let_def)

definition passed_ms :: "preload_event list \<Rightarrow> nat" where
  "passed_ms es = length (filter (\<lambda>e. e = MsPasses) es)"

lemma cap_step: "pr_cap (preload_step e st) = Some m \<Longrightarrow> pr_cap st = Some (m + of_bool (e = MsPasses))"
  by (cases e) (auto simp: chunk_settles_def ms_passes_def Let_def split: option.splits if_splits)

lemma cap_left: "pr_cap (fold preload_step es st) = Some n \<Longrightarrow> pr_cap st = Some (n + passed_ms es)"
proof (induction es arbitrary: st)
  case (Cons e es)
  then show ?case using cap_step [of e st "n + passed_ms es"] by (simp add: passed_ms_def of_bool_def split: if_splits)
qed (simp add: passed_ms_def)

lemma pending_step: "pr_cap (preload_step e st) \<noteq> None \<Longrightarrow> pr_cap st \<noteq> None \<and> pr_pending (preload_step e st) =
    (case e of ChunkSettles c \<Rightarrow> remove1 c (pr_pending st) | MsPasses \<Rightarrow> pr_pending st)"
  by (cases e) (auto simp: chunk_settles_def ms_passes_def Let_def remove1_idem split: option.splits if_splits)

lemma pending_distinct: "distinct (pr_pending st) \<Longrightarrow> distinct (pr_pending (fold preload_step es st))"
proof (induction es arbitrary: st)
  case (Cons e es)
  have "distinct (pr_pending (preload_step e st))"
    using Cons.prems by (cases e) (auto simp: chunk_settles_def ms_passes_def Let_def split: option.split)
  then show ?case using Cons.IH by simp
qed simp

lemma pending_left:
  "pr_cap (fold preload_step es st) \<noteq> None \<Longrightarrow> distinct (pr_pending st) \<Longrightarrow>
     set (pr_pending (fold preload_step es st)) = set (pr_pending st) - {c. ChunkSettles c \<in> set es}"
proof (induction es rule: rev_induct)
  case (snoc e es)
  show ?case using snoc pending_step [of e "fold preload_step es st"] pending_distinct [OF snoc.prems(2), of es]
    by (auto split: preload_event.splits)
qed simp

lemma distinct_chunks: "distinct (chunksForPath path)"
  by (simp add: chunksForPath_def)

lemma resolved_has_reason:
  "pr_resolved (fold preload_step es (preloadRouteChunks path)) \<Longrightarrow>
     (\<forall>c \<in> set (chunksForPath path). ChunkSettles c \<in> set es) \<or> PRELOAD_CAP_MS \<le> passed_ms es"
proof (induction es rule: rev_induct)
  case Nil
  then show ?case by (simp add: preloadRouteChunks_def Let_def split: if_splits)
next
  case (snoc e es)
  let ?st = "fold preload_step es (preloadRouteChunks path)"
  show ?case
  proof (cases "pr_resolved ?st")
    case True
    then show ?thesis using snoc.IH by (auto simp: passed_ms_def)
  next
    case False
    have ok: "preload_ok ?st" by (rule preload_runs.run_inv [OF preload_ok_init])
    then obtain n where n: "pr_cap ?st = Some n" using False by (auto simp: preload_ok_def split: option.splits)
    have start: "pr_cap (preloadRouteChunks path) = Some PRELOAD_CAP_MS" "pr_pending (preloadRouteChunks path) = chunksForPath path"
      using cap_left [OF n] by (auto simp: preloadRouteChunks_def Let_def split: if_splits)
    have left: "n + passed_ms es = PRELOAD_CAP_MS" using cap_left [OF n] start(1) by simp
    have pending: "set (pr_pending ?st) = set (chunksForPath path) - {c. ChunkSettles c \<in> set es}" "distinct (pr_pending ?st)"
      using pending_left [of es "preloadRouteChunks path"] pending_distinct [of "preloadRouteChunks path" es] n start(2) distinct_chunks
      by simp_all
    show ?thesis
    proof (cases e)
      case (ChunkSettles c)
      then have "set (remove1 c (pr_pending ?st)) = {}" using snoc.prems False by (auto simp: chunk_settles_def Let_def split: if_splits)
      then have "set (pr_pending ?st) \<subseteq> {c}" using pending(2) by (simp add: set_remove1_eq)
      then show ?thesis using pending(1) ChunkSettles by auto
    next
      case MsPasses
      then show ?thesis using snoc.prems False n left by (auto simp: ms_passes_def passed_ms_def split: if_splits)
    qed
  qed
qed

text \<open>C23. 
  The boot waits for the chunks and no longer than the cap: in every run the promise is resolved exactly when all of
  them have settled, well or badly, or three seconds have passed.
\<close>

theorem preload_never_holds_the_boot:
  "pr_resolved (fold preload_step es (preloadRouteChunks path)) =
     (set (map ChunkSettles (chunksForPath path)) \<subseteq> set es \<or> PRELOAD_CAP_MS \<le> passed_ms es)"
proof
  let ?st = "fold preload_step es (preloadRouteChunks path)"
  show "pr_resolved ?st \<Longrightarrow> set (map ChunkSettles (chunksForPath path)) \<subseteq> set es \<or> PRELOAD_CAP_MS \<le> passed_ms es"
    using resolved_has_reason by auto
  show "pr_resolved ?st" if r: "set (map ChunkSettles (chunksForPath path)) \<subseteq> set es \<or> PRELOAD_CAP_MS \<le> passed_ms es"
  proof (rule ccontr)
    assume u: "\<not> pr_resolved ?st"
    have "preload_ok ?st" by (rule preload_runs.run_inv [OF preload_ok_init])
    then obtain n where n: "pr_cap ?st = Some n" "0 < n" "pr_pending ?st \<noteq> []"
      using u by (auto simp: preload_ok_def split: option.splits)
    have start: "pr_cap (preloadRouteChunks path) = Some PRELOAD_CAP_MS" "pr_pending (preloadRouteChunks path) = chunksForPath path"
      using cap_left [OF n(1)] by (auto simp: preloadRouteChunks_def Let_def split: if_splits)
    have "set (pr_pending ?st) = set (chunksForPath path) - {c. ChunkSettles c \<in> set es}"
      using pending_left [of es "preloadRouteChunks path"] n(1) start(2) distinct_chunks by simp
    moreover have "set (pr_pending ?st) \<noteq> {}" using n(3) by simp
    ultimately show False using n(2) r cap_left [OF n(1)] start(1) by auto
  qed
qed

end
