(* ===== verification/ListsPage.thy ===== *)
theory ListsPage
  imports BoardPages ListPage Routes
begin

text \<open>
  The page of a board's lists (\<open>frontend/src/pages/ListsLayout.tsx\<close>, \<open>components/lists/ListSidebarRow.tsx\<close>,
  \<open>components/lists/CreateListModal.tsx\<close>): its filters, its trash and its handlers, over the calls of \<open>resources/listData.ts\<close>. A handler keeps what its closure read
  when it was called: the board, and whether the trash had been looked at. \<open>None\<close> as the trash is the constant
  \<open>EMPTY_TRASH\<close>, compared by identity.

  The lemmas: a list is purged only after a yes about this very list, a new list is created on the board shown under a
  name that is not blank, and an undo brings a list back to the board it was deleted from. The trace shows that the
  trash of a board left behind can come up under the next one.
\<close>

section \<open>The page\<close>

record trashed_list =
  tl_id :: string
  tl_dashboard_id :: string
  tl_name :: string
  tl_list_type :: list_type

datatype lists_call =
    GetTrash string | CreateList string list_type string | RenameList string string | DeleteList string
  | RestoreList string string | PurgeList string

record delete_closure =
  dc_list :: string
  dc_name :: "string option"
  dc_board :: "string option"
  dc_looked :: bool
  dc_selected :: bool

datatype lists_wait =
    AwaitTrash | AwaitCreate "string option" | AwaitRename | AwaitListDelete delete_closure | AwaitListUndo delete_closure
  | AwaitListRestore trashed_list | AskListPurge trashed_list | AwaitListPurge trashed_list

record lists_page =
  lp_board :: "string option"
  lp_listId :: "string option"
  lp_typeFilter :: "list_type option"
  lp_showTrash :: bool
  lp_showCreate :: bool
  lp_trash :: "trashed_list list option"
  lp_trashLoading :: bool
  lp_restoringId :: "string option"
  lp_purgingId :: "string option"
  lp_waits :: "lists_wait parked"
  lp_calls :: "lists_call list"
  lp_toasts :: "(string \<times> delete_closure option) list"
  lp_errors :: "string list"
  lp_visited :: "string list"

definition initial_lists_page :: "string option \<Rightarrow> lists_page" where
  "initial_lists_page i = \<lparr>lp_board = i, lp_listId = None, lp_typeFilter = None, lp_showTrash = False, lp_showCreate = False,
     lp_trash = None, lp_trashLoading = False, lp_restoringId = None, lp_purgingId = None, lp_waits = ([], 0), lp_calls = [],
     lp_toasts = [], lp_errors = [], lp_visited = []\<rparr>"

definition lp_call :: "lists_call \<Rightarrow> lists_wait \<Rightarrow> lists_page \<Rightarrow> lists_page" where
  "lp_call c w st = st\<lparr>lp_calls := lp_calls st @ [c], lp_waits := park w (lp_waits st)\<rparr>"

definition lp_success :: "string \<Rightarrow> delete_closure option \<Rightarrow> lists_page \<Rightarrow> lists_page" where
  "lp_success message undo st = st\<lparr>lp_toasts := lp_toasts st @ [(message, undo)]\<rparr>"

definition filteredLists :: "lists_page \<Rightarrow> list_summary list \<Rightarrow> list_summary list" where
  "filteredLists st ls = (case lp_typeFilter st of None \<Rightarrow> ls | Some t \<Rightarrow> filter (\<lambda>l. l_list_type l = t) ls)"

definition filteredTrash :: "lists_page \<Rightarrow> trashed_list list" where
  "filteredTrash st =
     (let trash = (case lp_trash st of Some rows \<Rightarrow> rows | None \<Rightarrow> []) in
      case lp_typeFilter st of None \<Rightarrow> trash | Some t \<Rightarrow> filter (\<lambda>l. tl_list_type l = t) trash)"

definition canReorderLists :: "lists_page \<Rightarrow> list_summary list \<Rightarrow> bool" where
  "canReorderLists st ls \<longleftrightarrow> lp_typeFilter st = None \<and> \<not> lp_showTrash st \<and> lp_board st \<noteq> None \<and> length (filteredLists st ls) \<ge> 2"

definition listUrl :: "string option \<Rightarrow> string \<Rightarrow> string" where
  "listUrl board_id i = ROUTE_listDetail i @ (if truthy board_id then ''?dashboard_id='' @ the board_id else [])"

definition indexUrl :: "string option \<Rightarrow> string" where
  "indexUrl board_id = ''/lists'' @ (if truthy board_id then ''?dashboard_id='' @ the board_id else [])"

definition lists_loadTrash :: "string option \<Rightarrow> lists_page \<Rightarrow> lists_page" where
  "lists_loadTrash board_id st =
     (if truthy board_id then lp_call (GetTrash (the board_id)) AwaitTrash (st\<lparr>lp_trashLoading := True\<rparr>) else st)"

text \<open>The effect on \<open>[showTrash, loadTrash]\<close>: it runs when the view is opened and, while it is, when the board moves.\<close>

definition lists_setShowTrash :: "bool \<Rightarrow> lists_page \<Rightarrow> lists_page" where
  "lists_setShowTrash v st =
     (let st' = st\<lparr>lp_showTrash := v\<rparr> in if v \<and> \<not> lp_showTrash st then lists_loadTrash (lp_board st) st' else st')"

definition board_moves :: "string option \<Rightarrow> lists_page \<Rightarrow> lists_page" where
  "board_moves i st =
     (let st' = st\<lparr>lp_board := i\<rparr> in if lp_showTrash st \<and> i \<noteq> lp_board st then lists_loadTrash i st' else st')"

definition choose_board :: "string option \<Rightarrow> lists_page \<Rightarrow> lists_page" where
  "choose_board i st = board_moves i (st\<lparr>lp_showCreate := False, lp_visited := lp_visited st @ [indexUrl i]\<rparr>)"

definition handleCreate :: "string \<Rightarrow> list_type \<Rightarrow> lists_page \<Rightarrow> lists_page" where
  "handleCreate name listType st =
     (let trimmedName = js_trim name in
      if trimmedName = [] \<or> \<not> truthy (lp_board st) then st
      else lp_call (CreateList trimmedName listType (the (lp_board st))) (AwaitCreate (lp_board st)) st)"

definition handleRenameList :: "list_summary list \<Rightarrow> string \<Rightarrow> string \<Rightarrow> lists_page \<Rightarrow> lists_page" where
  "handleRenameList ls i name st =
     (let trimmedName = js_trim name; currentName = map_option l_name (find (\<lambda>l. l_id l = i) ls) in
      if trimmedName = [] \<or> \<not> truthy currentName \<or> Some trimmedName = currentName then st
      else lp_call (RenameList i trimmedName) AwaitRename st)"

definition handleDeleteList :: "list_summary list \<Rightarrow> string \<Rightarrow> lists_page \<Rightarrow> lists_page" where
  "handleDeleteList ls i st =
     lp_call (DeleteList i) (AwaitListDelete \<lparr>dc_list = i, dc_name = map_option l_name (find (\<lambda>l. l_id l = i) ls),
       dc_board = lp_board st, dc_looked = (lp_trash st \<noteq> None), dc_selected = (lp_listId st = Some i)\<rparr>) st"

definition handleUndoDeleteList :: "delete_closure \<Rightarrow> lists_page \<Rightarrow> lists_page" where
  "handleUndoDeleteList c = lp_call (RestoreList (dc_list c) (the (dc_board c))) (AwaitListUndo c)"

definition handleRestoreList :: "trashed_list \<Rightarrow> lists_page \<Rightarrow> lists_page" where
  "handleRestoreList t st =
     (if \<not> truthy (lp_board st) then st
      else lp_call (RestoreList (tl_id t) (the (lp_board st))) (AwaitListRestore t) (st\<lparr>lp_restoringId := Some (tl_id t)\<rparr>))"

definition handlePurgeList :: "trashed_list \<Rightarrow> lists_page \<Rightarrow> lists_page" where
  "handlePurgeList t st = st\<lparr>lp_waits := park (AskListPurge t) (lp_waits st)\<rparr>"

text \<open>What an awaited call returned: the rows of the trash, the list created, a truth value, nothing, or that it threw.\<close>

datatype lists_answer = TrashRows "trashed_list list" | ListMade string | Says bool | Finished | ThrewMessage string

definition drop_trashed :: "string \<Rightarrow> lists_page \<Rightarrow> lists_page" where
  "drop_trashed i st = st\<lparr>lp_trash := Some (filter (\<lambda>l. tl_id l \<noteq> i) (case lp_trash st of Some rows \<Rightarrow> rows | None \<Rightarrow> []))\<rparr>"

fun lists_resume :: "lists_wait \<Rightarrow> lists_answer \<Rightarrow> lists_page \<Rightarrow> lists_page" where
  "lists_resume AwaitTrash a st =
     st\<lparr>lp_trash := (case a of TrashRows rows \<Rightarrow> Some rows | _ \<Rightarrow> None), lp_trashLoading := False\<rparr>"
| "lists_resume (AwaitCreate board_id) a st =
     (case a of
        ListMade i \<Rightarrow> st\<lparr>lp_showCreate := False, lp_visited := lp_visited st @ [listUrl board_id i]\<rparr>
      | ThrewMessage m \<Rightarrow> st\<lparr>lp_errors := lp_errors st @ [m]\<rparr>
      | _ \<Rightarrow> st)"
| "lists_resume AwaitRename a st = st"
| "lists_resume (AwaitListDelete c) a st =
     (if a \<noteq> Finished then st
      else let st = (if dc_looked c then lists_loadTrash (dc_board c) st else st);
               st = (if dc_selected c then st\<lparr>lp_visited := lp_visited st @ [indexUrl (dc_board c)]\<rparr> else st)
           in lp_success (if truthy (dc_name c) then ''Moved '' @ in_quotes (the (dc_name c)) @ '' to the trash.'' else ''Moved to the trash.'')
                (if truthy (dc_board c) then Some c else None) st)"
| "lists_resume (AwaitListUndo c) a st =
     (if a \<noteq> Says True then st
      else lp_success (if truthy (dc_name c) then ''Restored '' @ in_quotes (the (dc_name c)) @ ''.'' else ''Restored.'') None
             (if dc_looked c then lists_loadTrash (dc_board c) st else st))"
| "lists_resume (AwaitListRestore t) a st =
     (if a = Says True then lp_success (''Restored '' @ in_quotes (tl_name t) @ ''.'') None (drop_trashed (tl_id t) st) else st)
     \<lparr>lp_restoringId := None\<rparr>"
| "lists_resume (AskListPurge t) a st =
     (if a = Says True then lp_call (PurgeList (tl_id t)) (AwaitListPurge t) (st\<lparr>lp_purgingId := Some (tl_id t)\<rparr>) else st)"
| "lists_resume (AwaitListPurge t) a st =
     (case a of
        ThrewMessage m \<Rightarrow> st\<lparr>lp_errors := lp_errors st @ [m]\<rparr>
      | _ \<Rightarrow> lp_success (''Permanently deleted '' @ in_quotes (tl_name t) @ ''.'') None (drop_trashed (tl_id t) st))\<lparr>lp_purgingId := None\<rparr>"

definition lists_answered :: "nat \<Rightarrow> lists_answer \<Rightarrow> lists_page \<Rightarrow> lists_page" where
  "lists_answered n a st =
     (case waiting_at n (lp_waits st) of
        None \<Rightarrow> st | Some w \<Rightarrow> lists_resume w a (st\<lparr>lp_waits := unpark n (lp_waits st)\<rparr>))"

text \<open>The lists are those of the cache when the handler's render was drawn.\<close>

datatype lists_event =
    ViewChosen bool | FilterChosen "list_type option" | BoardChosen "string option" | BoardMoves "string option"
  | ListOpened "string option" | CreateToggled | CreateSubmitted string list_type
  | ListRenamed "list_summary list" string string | ListDeleted "list_summary list" string | ListUndo delete_closure
  | TrashRestored trashed_list | TrashPurged trashed_list | ListsAnswered nat lists_answer

fun lists_step :: "lists_event \<Rightarrow> lists_page \<Rightarrow> lists_page" where
  "lists_step (ViewChosen v) st = lists_setShowTrash v st"
| "lists_step (FilterChosen t) st = st\<lparr>lp_typeFilter := t\<rparr>"
| "lists_step (BoardChosen i) st = choose_board i st"
| "lists_step (BoardMoves i) st = board_moves i st"
| "lists_step (ListOpened i) st = st\<lparr>lp_listId := i\<rparr>"
| "lists_step CreateToggled st = (if truthy (lp_board st) then st\<lparr>lp_showCreate := \<not> lp_showCreate st\<rparr> else st)"
| "lists_step (CreateSubmitted name t) st = (if lp_showCreate st \<and> truthy (lp_board st) then handleCreate name t st else st)"
| "lists_step (ListRenamed ls i name) st = handleRenameList ls i name st"
| "lists_step (ListDeleted ls i) st = handleDeleteList ls i st"
| "lists_step (ListUndo c) st = (if Some c \<in> set (map snd (lp_toasts st)) then handleUndoDeleteList c st else st)"
| "lists_step (TrashRestored t) st = handleRestoreList t st"
| "lists_step (TrashPurged t) st = handlePurgeList t st"
| "lists_step (ListsAnswered n a) st = lists_answered n a st"

lemmas lists_ops = lp_call_def lp_success_def lists_loadTrash_def lists_setShowTrash_def board_moves_def choose_board_def
  handleCreate_def handleRenameList_def handleDeleteList_def handleUndoDeleteList_def handleRestoreList_def handlePurgeList_def
  drop_trashed_def lists_answered_def

section \<open>Purging is asked about\<close>

definition list_purges :: "lists_page \<Rightarrow> lists_call list" where
  "list_purges st = filter (\<lambda>c. case c of PurgeList i \<Rightarrow> True | _ \<Rightarrow> False) (lp_calls st)"

definition lists_agreed :: "lists_event \<Rightarrow> lists_page \<Rightarrow> lists_call list" where
  "lists_agreed e st =
     (case e of
        ListsAnswered n (Says True) \<Rightarrow> (case waiting_at n (lp_waits st) of Some (AskListPurge t) \<Rightarrow> [PurgeList (tl_id t)] | _ \<Rightarrow> [])
      | _ \<Rightarrow> [])"

lemma lists_agreed_none: "\<forall>n. e \<noteq> ListsAnswered n (Says True) \<Longrightarrow> lists_agreed e st = []"
  by (auto simp: lists_agreed_def split: lists_event.split lists_answer.split bool.split)

lemma lists_resume_purges:
  "list_purges (lists_resume w a st) =
     list_purges st @ (case w of AskListPurge t \<Rightarrow> if a = Says True then [PurgeList (tl_id t)] else [] | _ \<Rightarrow> [])"
  by (cases w; cases a) (auto simp: list_purges_def lists_ops Let_def)

interpretation purge_asking: ask_first lists_step list_purges lists_agreed
proof
  fix e st
  show "list_purges (lists_step e st) = list_purges st @ lists_agreed e st"
  proof (cases e)
    case (ListsAnswered n a)
    have idle: "list_purges (st\<lparr>lp_waits := ws\<rparr>) = list_purges st" for ws by (simp add: list_purges_def)
    show ?thesis
    proof (cases "waiting_at n (lp_waits st)")
      case None
      then show ?thesis using ListsAnswered by (simp add: lists_answered_def lists_agreed_def split: lists_answer.split bool.split)
    next
      case (Some w)
      then show ?thesis using ListsAnswered lists_agreed_none [of e st]
        by (cases "a = Says True") (auto simp: lists_answered_def lists_resume_purges idle lists_agreed_def split: lists_wait.split)
    qed
  qed (auto simp: lists_ops list_purges_def lists_agreed_def Let_def)
qed

lemma list_purge_asks_first:
  assumes "PurgeList i \<in> set (lp_calls (fold lists_step es (initial_lists_page b)))"
  shows "\<exists>pre n post t. es = pre @ ListsAnswered n (Says True) # post \<and>
    waiting_at n (lp_waits (fold lists_step pre (initial_lists_page b))) = Some (AskListPurge t) \<and> tl_id t = i"
proof -
  have "PurgeList i \<in> set (list_purges (fold lists_step es (initial_lists_page b)))" "list_purges (initial_lists_page b) = []"
    using assms by (simp_all add: list_purges_def initial_lists_page_def)
  from purge_asking.sent_was_agreed [OF this(1)] this(2) obtain pre e post where
    e: "es = pre @ e # post" "PurgeList i \<in> set (lists_agreed e (fold lists_step pre (initial_lists_page b)))" by auto
  then obtain n where n: "e = ListsAnswered n (Says True)" using lists_agreed_none by fastforce
  let ?w = "waiting_at n (lp_waits (fold lists_step pre (initial_lists_page b)))"
  obtain w where w: "?w = Some w" using e(2) n by (cases ?w) (auto simp: lists_agreed_def)
  then obtain t where "w = AskListPurge t" "tl_id t = i" using e(2) n by (cases w) (auto simp: lists_agreed_def)
  with w have "?w = Some (AskListPurge t) \<and> tl_id t = i" by simp
  then show ?thesis using e(1) n by blast
qed

section \<open>An undo goes back to where the list was\<close>

definition deleted_on :: "string option \<Rightarrow> lists_event list \<Rightarrow> delete_closure \<Rightarrow> bool" where
  "deleted_on b es c \<longleftrightarrow> (\<exists>pre ls post. es = pre @ ListDeleted ls (dc_list c) # post \<and>
     lp_board (fold lists_step pre (initial_lists_page b)) = dc_board c)"

lemma deleted_on_later: "deleted_on b es c \<Longrightarrow> deleted_on b (es @ fs) c"
  unfolding deleted_on_def by (metis append_Cons append_assoc)

text \<open>The closures a page holds: of a delete that is out, of a toast that offers an undo, of an undo that is out.\<close>

definition closures :: "lists_page \<Rightarrow> delete_closure set" where
  "closures st = {c. AwaitListDelete c \<in> parked (lp_waits st) \<or> AwaitListUndo c \<in> parked (lp_waits st) \<or>
     Some c \<in> set (map snd (lp_toasts st))}"

lemma closures_loadTrash [simp]: "closures (lists_loadTrash i st) = closures st"
  by (auto simp: closures_def lists_loadTrash_def lp_call_def)

lemma closures_success [simp]: "closures (lp_success m u st) = closures st \<union> set_option u"
  by (auto simp: closures_def lp_success_def)

lemma closures_drop [simp]: "closures (drop_trashed i st) = closures st"
  by (simp add: closures_def drop_trashed_def)

lemma closures_call [simp]:
  "closures (lp_call c w st) = closures st \<union> (case w of AwaitListDelete d \<Rightarrow> {d} | AwaitListUndo d \<Rightarrow> {d} | _ \<Rightarrow> {})"
  by (auto simp: closures_def lp_call_def split: lists_wait.split)

lemma closures_fields [simp]:
  "closures (st\<lparr>lp_trash := t\<rparr>) = closures st" "closures (st\<lparr>lp_trashLoading := l\<rparr>) = closures st"
  "closures (st\<lparr>lp_showCreate := v\<rparr>) = closures st" "closures (st\<lparr>lp_visited := vs\<rparr>) = closures st"
  "closures (st\<lparr>lp_errors := ers\<rparr>) = closures st" "closures (st\<lparr>lp_restoringId := r\<rparr>) = closures st"
  "closures (st\<lparr>lp_purgingId := r\<rparr>) = closures st" "closures (st\<lparr>lp_showTrash := v\<rparr>) = closures st"
  "closures (st\<lparr>lp_board := r\<rparr>) = closures st" "closures (st\<lparr>lp_listId := r\<rparr>) = closures st"
  "closures (st\<lparr>lp_typeFilter := f\<rparr>) = closures st"
  by (simp_all add: closures_def)

lemma closures_resume:
  "closures (lists_resume w a st) \<subseteq> closures st \<union> (case w of AwaitListDelete c \<Rightarrow> {c} | AwaitListUndo c \<Rightarrow> {c} | _ \<Rightarrow> {})"
  by (cases w) (auto simp: Let_def split: lists_answer.split)

lemma closures_answered: "closures (lists_answered n a st) \<subseteq> closures st"
proof (cases "waiting_at n (lp_waits st)")
  case (Some w)
  have "closures (st\<lparr>lp_waits := unpark n (lp_waits st)\<rparr>) \<subseteq> closures st"
    using parked_unpark_subset [of n "lp_waits st"] by (auto simp: closures_def)
  moreover have "(case w of AwaitListDelete c \<Rightarrow> {c} | AwaitListUndo c \<Rightarrow> {c} | _ \<Rightarrow> {}) \<subseteq> closures st"
    using waiting_parked [OF Some] by (auto simp: closures_def split: lists_wait.split)
  ultimately show ?thesis
    using closures_resume [of w a "st\<lparr>lp_waits := unpark n (lp_waits st)\<rparr>"] Some by (simp add: lists_answered_def) blast
qed (simp add: lists_answered_def)

lemma closures_step:
  "closures (lists_step e st) \<subseteq> closures st \<union>
     (case e of ListDeleted ls i \<Rightarrow> {c. dc_list c = i \<and> dc_board c = lp_board st} | _ \<Rightarrow> {})"
proof (cases e)
  case (ListsAnswered n a)
  then show ?thesis using closures_answered by simp
next
  case (ListUndo c)
  then show ?thesis by (auto simp: handleUndoDeleteList_def closures_def [of st])
qed (auto simp: lists_setShowTrash_def board_moves_def choose_board_def handleCreate_def handleRenameList_def
    handleDeleteList_def handleRestoreList_def handlePurgeList_def Let_def, auto simp: closures_def)

lemma closures_run: "c \<in> closures (fold lists_step es (initial_lists_page b)) \<Longrightarrow> deleted_on b es c"
proof (induction es rule: rev_induct)
  case Nil
  then show ?case by (simp add: closures_def initial_lists_page_def)
next
  case (snoc e es)
  let ?st = "fold lists_step es (initial_lists_page b)"
  show ?case
  proof (cases "c \<in> closures ?st")
    case True
    then show ?thesis using snoc.IH deleted_on_later by blast
  next
    case False
    then obtain ls where "e = ListDeleted ls (dc_list c)" "dc_board c = lp_board ?st"
      using snoc.prems closures_step [of e ?st] by (auto split: lists_event.splits)
    then show ?thesis unfolding deleted_on_def by (intro exI [of _ es] exI [of _ ls] exI [of _ "[]"]) simp
  qed
qed

text \<open>A toast offers an undo only where the delete was made on a board.\<close>

definition offers_ok :: "lists_page \<Rightarrow> bool" where
  "offers_ok st \<longleftrightarrow> (\<forall>c. Some c \<in> set (map snd (lp_toasts st)) \<longrightarrow> truthy (dc_board c))"

lemma toasts_loadTrash [simp]: "lp_toasts (lists_loadTrash i st) = lp_toasts st"
  by (simp add: lists_loadTrash_def lp_call_def)

lemma offers_resume: "offers_ok st \<Longrightarrow> offers_ok (lists_resume w a st)"
  by (cases w)
    (auto simp: Let_def offers_ok_def lp_success_def lp_call_def drop_trashed_def split: lists_answer.split)

lemma offers_step:
  assumes "offers_ok st"
  shows "offers_ok (lists_step e st)"
proof (cases e)
  case (ListsAnswered n a)
  have "offers_ok (st\<lparr>lp_waits := ws\<rparr>)" for ws using assms by (simp add: offers_ok_def)
  then show ?thesis
    using assms ListsAnswered by (simp add: lists_answered_def offers_resume split: option.split)
qed (use assms in \<open>auto simp: lists_setShowTrash_def board_moves_def choose_board_def handleCreate_def
    handleRenameList_def handleDeleteList_def handleUndoDeleteList_def handleRestoreList_def handlePurgeList_def
    lp_call_def Let_def offers_ok_def\<close>)

interpretation offers_runs: event_machine lists_step offers_ok
  by unfold_locales (rule offers_step)

lemma offers_run: "offers_ok (fold lists_step es (initial_lists_page b))"
  by (rule offers_runs.run_inv) (simp add: offers_ok_def initial_lists_page_def)

text \<open>C13. C13.
  Pressing the undo of a toast sends one call, which restores the list to the board it was deleted from, whatever
  board is shown by then: at every moment of every run, a toast that offers an undo stems from a delete of that list
  made while some board was shown, and the call its undo makes names that list and that board.
\<close>

theorem undo_goes_back_to_its_board:
  assumes "(message, Some c) \<in> set (lp_toasts (fold lists_step es (initial_lists_page b)))"
  shows "\<exists>pre ls post board. es = pre @ ListDeleted ls (dc_list c) # post \<and>
      lp_board (fold lists_step pre (initial_lists_page b)) = Some board \<and>
      lp_calls (lists_step (ListUndo c) (fold lists_step es (initial_lists_page b))) =
        lp_calls (fold lists_step es (initial_lists_page b)) @ [RestoreList (dc_list c) board]"
proof -
  let ?st = "fold lists_step es (initial_lists_page b)"
  have offered: "Some c \<in> set (map snd (lp_toasts ?st))" using assms by force
  then obtain board where board: "dc_board c = Some board"
    using offers_run [of es b] by (cases "dc_board c") (auto simp: offers_ok_def)
  have "deleted_on b es c" using offered by (intro closures_run) (simp add: closures_def)
  moreover have "lp_calls (lists_step (ListUndo c) ?st) = lp_calls ?st @ [RestoreList (dc_list c) board]"
    using offered board by (simp add: handleUndoDeleteList_def lp_call_def)
  ultimately show ?thesis using board by (auto simp: deleted_on_def)
qed

definition groceries :: list_summary where
  "groceries = \<lparr>l_id = ''l'', l_dashboard_id = ''a'', l_name = ''Groceries'', l_list_type = Grocery, l_item_count = 2, l_sort_order = 1,
     l_created_at = [], l_created_by = [], l_updated_at = []\<rparr>"

text \<open>The list is deleted on board a, board b is chosen, the delete is answered; the undo names board a.\<close>

definition undo_trace :: "lists_event list" where
  "undo_trace = [ListDeleted [groceries] ''l'', BoardChosen (Some ''b''), ListsAnswered 0 Finished]"

definition undo_closure :: delete_closure where
  "undo_closure = \<lparr>dc_list = ''l'', dc_name = Some ''Groceries'', dc_board = Some ''a'', dc_looked = False, dc_selected = False\<rparr>"

theorem undo_goes_back_to_its_board_witness:
  "\<exists>pre ls post board. undo_trace = pre @ ListDeleted ls ''l'' # post \<and>
      lp_board (fold lists_step pre (initial_lists_page (Some ''a''))) = Some board \<and>
      lp_calls (lists_step (ListUndo undo_closure) (fold lists_step undo_trace (initial_lists_page (Some ''a'')))) =
        lp_calls (fold lists_step undo_trace (initial_lists_page (Some ''a''))) @ [RestoreList ''l'' board]"
proof -
  have "(''Moved '' @ in_quotes ''Groceries'' @ '' to the trash.'', Some undo_closure)
    \<in> set (lp_toasts (fold lists_step undo_trace (initial_lists_page (Some ''a''))))"
    by code_simp
  from undo_goes_back_to_its_board [OF this] show ?thesis by (simp add: undo_closure_def)
qed

lemma undo_names_the_first_board:
  "let st = fold lists_step undo_trace (initial_lists_page (Some ''a'')) in
     lp_board st = Some ''b'' \<and> last (lp_calls (lists_step (ListUndo undo_closure) st)) = RestoreList ''l'' ''a''"
  by code_simp

section \<open>The trash of another board\<close>

text \<open>
  The fetch of the trash is not cancelled when the board moves: answers in the other order leave the rows of the board
  left behind under the new one, and restoring such a row names the new board, to whose lists the client then adds it.
\<close>

theorem trash_of_board_left_behind:
  "let t = \<lparr>tl_id = ''l'', tl_dashboard_id = ''a'', tl_name = ''Groceries'', tl_list_type = Grocery\<rparr>;
       st = fold lists_step [ViewChosen True, BoardChosen (Some ''b''), ListsAnswered 1 (TrashRows []), ListsAnswered 0 (TrashRows [t])]
         (initial_lists_page (Some ''a'')) in
   lp_board st = Some ''b'' \<and> filteredTrash st = [t] \<and> \<not> lp_trashLoading st \<and>
   last (lp_calls (lists_step (TrashRestored t) st)) = RestoreList ''l'' ''b''"
  by code_simp

section \<open>A row of the sidebar\<close>

text \<open>Its name editor is the one of the list's own page; a click on the row opens the list unless it is edited.\<close>

record sidebar_row =
  sr_id :: string
  sr_editor :: name_editor
  sr_confirmingDelete :: bool
  sr_selects :: "string list"
  sr_deletes :: "string list"

definition initial_sidebar_row :: "string \<Rightarrow> string \<Rightarrow> sidebar_row" where
  "initial_sidebar_row i name = \<lparr>sr_id = i, sr_editor = initial_name_editor name, sr_confirmingDelete = False, sr_selects = [], sr_deletes = []\<rparr>"

definition sidebar_startEditing :: "sidebar_row \<Rightarrow> sidebar_row" where
  "sidebar_startEditing st = st\<lparr>sr_confirmingDelete := False, sr_editor := startEditing (sr_editor st)\<rparr>"

definition sidebar_select :: "sidebar_row \<Rightarrow> sidebar_row" where
  "sidebar_select st = (if ne_editing (sr_editor st) then st else st\<lparr>sr_selects := sr_selects st @ [sr_id st]\<rparr>)"

definition sidebar_confirmDelete :: "sidebar_row \<Rightarrow> sidebar_row" where
  "sidebar_confirmDelete st = st\<lparr>sr_confirmingDelete := False, sr_deletes := sr_deletes st @ [sr_id st]\<rparr>"

datatype sidebar_event =
    RowClicked | EditPressed | TrashPressed | TrashConfirmed | TrashCancelled | EditorEvent name_event

fun sidebar_step :: "sidebar_event \<Rightarrow> sidebar_row \<Rightarrow> sidebar_row" where
  "sidebar_step RowClicked st = sidebar_select st"
| "sidebar_step EditPressed st = (if sr_confirmingDelete st \<or> ne_editing (sr_editor st) then st else sidebar_startEditing st)"
| "sidebar_step TrashPressed st =
     (if sr_confirmingDelete st \<or> ne_editing (sr_editor st) then st else st\<lparr>sr_confirmingDelete := True\<rparr>)"
| "sidebar_step TrashConfirmed st = (if sr_confirmingDelete st then sidebar_confirmDelete st else st)"
| "sidebar_step TrashCancelled st = (if sr_confirmingDelete st then st\<lparr>sr_confirmingDelete := False\<rparr> else st)"
| "sidebar_step (EditorEvent e) st = (if e = NameStart then st else st\<lparr>sr_editor := name_step e (sr_editor st)\<rparr>)"

definition sidebar_ok :: "sidebar_row \<Rightarrow> bool" where
  "sidebar_ok st \<longleftrightarrow> name_ok (sr_editor st) \<and> \<not> (sr_confirmingDelete st \<and> ne_editing (sr_editor st))"

lemma sidebar_editor_closed: "e \<noteq> NameStart \<Longrightarrow> \<not> ne_editing ed \<Longrightarrow> \<not> ne_editing (name_step e ed)"
  by (cases e) (auto simp: renameAnswer_def Let_def)

lemma sidebar_step_ok: "sidebar_ok st \<Longrightarrow> sidebar_ok (sidebar_step e st)"
proof (cases e)
  case EditPressed
  assume "sidebar_ok st"
  then show ?thesis using EditPressed name_step_ok [of "sr_editor st" NameStart]
    by (auto simp: sidebar_ok_def sidebar_startEditing_def split: if_splits)
next
  case (EditorEvent ev)
  assume "sidebar_ok st"
  then show ?thesis using EditorEvent name_step_ok [of "sr_editor st" ev] sidebar_editor_closed [of ev "sr_editor st"]
    by (auto simp: sidebar_ok_def)
qed (auto simp: sidebar_ok_def sidebar_select_def sidebar_confirmDelete_def)

interpretation sidebar_runs: event_machine sidebar_step sidebar_ok
  by unfold_locales (rule sidebar_step_ok)

lemma sidebar_deletes_were_confirmed:
  "length (sr_deletes (fold sidebar_step es st)) \<le> length (sr_deletes st) + length (filter (\<lambda>e. e = TrashConfirmed) es)"
proof (induction es arbitrary: st)
  case (Cons e es)
  have "length (sr_deletes (sidebar_step e st)) \<le> length (sr_deletes st) + (if e = TrashConfirmed then 1 else 0)"
    by (cases e) (auto simp: sidebar_select_def sidebar_confirmDelete_def sidebar_startEditing_def)
  then show ?case using Cons.IH [of "sidebar_step e st"] by auto
qed simp

section \<open>The dialog for a new list\<close>

record create_list_modal =
  cl_name :: string
  cl_listType :: list_type
  cl_submitting :: bool
  cl_calls :: "(string \<times> list_type) list"

definition initial_create_list :: create_list_modal where
  "initial_create_list = \<lparr>cl_name = [], cl_listType = Checklist, cl_submitting = False, cl_calls = []\<rparr>"

definition create_list_submit :: "create_list_modal \<Rightarrow> create_list_modal" where
  "create_list_submit st =
     (if js_trim (cl_name st) = [] \<or> cl_submitting st then st
      else st\<lparr>cl_submitting := True, cl_calls := cl_calls st @ [(cl_name st, cl_listType st)]\<rparr>)"

definition create_list_settled :: "create_list_modal \<Rightarrow> create_list_modal" where
  "create_list_settled st = st\<lparr>cl_submitting := False\<rparr>"

lemma one_create_at_a_time:
  "length (cl_calls (create_list_submit (create_list_submit st))) = length (cl_calls (create_list_submit st))"
  by (auto simp: create_list_submit_def)

end
