(* ===== verification/Panels.thy ===== *)
theory Panels
  imports PageTasks SessionsData Routes
begin

text \<open>
  Panels with a request of their own: the calendar's trash (\<open>frontend/src/components/calendar/CalendarTrashPanel.tsx\<close>),
  the invite links of a board (\<open>components/ui/share-panel/SharePanelInvite.tsx\<close>), the page an invite leads to
  (\<open>pages/InvitePage.tsx\<close>), the list of sessions (\<open>components/auth/SessionsPanel.tsx\<close>) and the time left that a row
  of a trash names (\<open>components/ui/TrashRow.tsx\<close>).

  The lemmas: an event is purged only after a yes about it, a load that failed shows as failed until the next one is
  started, an invite is redeemed only by pressing Accept, and one session at a time is revoked. The traces: a page of
  another board's trash, an empty trash claimed while older pages remain, and a new invite that its list forgets.
\<close>

section \<open>The calendar's trash\<close>

record trashed_event =
  te_id :: string
  te_title :: string

type_synonym trash_cursor = "string \<times> string"

datatype trash_call =
    GetEventTrash "string option" "trash_cursor option" | RestoreEvent string "string option" | PurgeEvent string

datatype trash_wait = AwaitFirstPage | AwaitOlderPage | AwaitEventRestore string | AskEventPurge trashed_event | AwaitEventPurge trashed_event

record trash_panel =
  tp_board :: "string option"
  tp_entries :: "trashed_event list option"
  tp_failed :: bool
  tp_busyId :: "string option"
  tp_nextCursor :: "trash_cursor option"
  tp_loadingMore :: bool
  tp_waits :: "trash_wait parked"
  tp_calls :: "trash_call list"
  tp_toasts :: "string list"

definition tp_call :: "trash_call \<Rightarrow> trash_wait \<Rightarrow> trash_panel \<Rightarrow> trash_panel" where
  "tp_call c w st = st\<lparr>tp_calls := tp_calls st @ [c], tp_waits := park w (tp_waits st)\<rparr>"

definition trash_load :: "trash_panel \<Rightarrow> trash_panel" where
  "trash_load st =
     (if \<not> truthy (tp_board st) then st\<lparr>tp_entries := Some []\<rparr>
      else tp_call (GetEventTrash (tp_board st) None) AwaitFirstPage (st\<lparr>tp_failed := False\<rparr>))"

definition mount_trash :: "string option \<Rightarrow> trash_panel" where
  "mount_trash i = trash_load \<lparr>tp_board = i, tp_entries = None, tp_failed = False, tp_busyId = None, tp_nextCursor = None,
     tp_loadingMore = False, tp_waits = ([], 0), tp_calls = [], tp_toasts = []\<rparr>"

definition trash_board :: "string option \<Rightarrow> trash_panel \<Rightarrow> trash_panel" where
  "trash_board i st = (if i = tp_board st then st else trash_load (st\<lparr>tp_board := i\<rparr>))"

definition trash_handleLoadMore :: "trash_panel \<Rightarrow> trash_panel" where
  "trash_handleLoadMore st =
     (case tp_nextCursor st of
        None \<Rightarrow> st
      | Some c \<Rightarrow> tp_call (GetEventTrash (tp_board st) (Some c)) AwaitOlderPage (st\<lparr>tp_loadingMore := True\<rparr>))"

definition trash_handleRestore :: "trashed_event \<Rightarrow> trash_panel \<Rightarrow> trash_panel" where
  "trash_handleRestore e st =
     tp_call (RestoreEvent (te_id e) (tp_board st)) (AwaitEventRestore (te_id e)) (st\<lparr>tp_busyId := Some (te_id e)\<rparr>)"

definition trash_handlePurge :: "trashed_event \<Rightarrow> trash_panel \<Rightarrow> trash_panel" where
  "trash_handlePurge e st = st\<lparr>tp_waits := park (AskEventPurge e) (tp_waits st)\<rparr>"

datatype trash_answer = PageCame "trashed_event list" "trash_cursor option" | Reports bool | FailsWith string

definition rows_of :: "trash_panel \<Rightarrow> trashed_event list" where
  "rows_of st = (case tp_entries st of Some rows \<Rightarrow> rows | None \<Rightarrow> [])"

definition drop_entry :: "string \<Rightarrow> trash_panel \<Rightarrow> trash_panel" where
  "drop_entry i st = st\<lparr>tp_entries := Some (filter (\<lambda>e. te_id e \<noteq> i) (rows_of st))\<rparr>"

fun trash_resume :: "trash_wait \<Rightarrow> trash_answer \<Rightarrow> trash_panel \<Rightarrow> trash_panel" where
  "trash_resume AwaitFirstPage a st =
     (case a of
        PageCame items cursor \<Rightarrow> st\<lparr>tp_entries := Some items, tp_nextCursor := cursor\<rparr>
      | FailsWith m \<Rightarrow> st\<lparr>tp_failed := True, tp_entries := Some [], tp_nextCursor := None, tp_toasts := tp_toasts st @ [m]\<rparr>
      | Reports b \<Rightarrow> st)"
| "trash_resume AwaitOlderPage a st =
     (case a of
        PageCame items cursor \<Rightarrow> st\<lparr>tp_entries := Some (rows_of st @ items), tp_nextCursor := cursor\<rparr>
      | FailsWith m \<Rightarrow> st\<lparr>tp_toasts := tp_toasts st @ [m]\<rparr>
      | Reports b \<Rightarrow> st)\<lparr>tp_loadingMore := False\<rparr>"
| "trash_resume (AwaitEventRestore i) a st = (if a = Reports True then drop_entry i st else st)\<lparr>tp_busyId := None\<rparr>"
| "trash_resume (AskEventPurge e) a st =
     (if a = Reports True then tp_call (PurgeEvent (te_id e)) (AwaitEventPurge e) (st\<lparr>tp_busyId := Some (te_id e)\<rparr>) else st)"
| "trash_resume (AwaitEventPurge e) a st =
     (if a = Reports True then
        (drop_entry (te_id e) st)\<lparr>tp_toasts := tp_toasts st @ [''Permanently deleted '' @ (CHR 0x22 # te_title e @ [CHR 0x22]) @ ''.'']\<rparr>
      else st)\<lparr>tp_busyId := None\<rparr>"

definition trash_answered :: "nat \<Rightarrow> trash_answer \<Rightarrow> trash_panel \<Rightarrow> trash_panel" where
  "trash_answered n a st =
     (case waiting_at n (tp_waits st) of
        None \<Rightarrow> st | Some w \<Rightarrow> trash_resume w a (st\<lparr>tp_waits := unpark n (tp_waits st)\<rparr>))"

text \<open>What is drawn: the button for older rows only under rows.\<close>

datatype trash_view = TrashLoading | TrashFailed | TrashEmpty | TrashShows "trashed_event list" bool

definition trash_panel_view :: "trash_panel \<Rightarrow> trash_view" where
  "trash_panel_view st =
     (case tp_entries st of
        None \<Rightarrow> TrashLoading
      | Some rows \<Rightarrow>
          if tp_failed st then TrashFailed else if rows = [] then TrashEmpty else TrashShows rows (tp_nextCursor st \<noteq> None))"

datatype trash_event =
    TrashBoard "string option" | TryAgain | LoadOlder | EntryRestored trashed_event | EntryPurged trashed_event
  | TrashAnswered nat trash_answer

fun trash_step :: "trash_event \<Rightarrow> trash_panel \<Rightarrow> trash_panel" where
  "trash_step (TrashBoard i) st = trash_board i st"
| "trash_step TryAgain st = (if trash_panel_view st = TrashFailed then trash_load st else st)"
| "trash_step LoadOlder st = (if tp_loadingMore st then st else trash_handleLoadMore st)"
| "trash_step (EntryRestored e) st = (if tp_busyId st = Some (te_id e) then st else trash_handleRestore e st)"
| "trash_step (EntryPurged e) st = (if tp_busyId st = Some (te_id e) then st else trash_handlePurge e st)"
| "trash_step (TrashAnswered n a) st = trash_answered n a st"

lemmas trash_ops = tp_call_def trash_load_def trash_board_def trash_handleLoadMore_def trash_handleRestore_def trash_handlePurge_def
  drop_entry_def

definition event_purges :: "trash_panel \<Rightarrow> trash_call list" where
  "event_purges st = filter (\<lambda>c. case c of PurgeEvent i \<Rightarrow> True | _ \<Rightarrow> False) (tp_calls st)"

definition trash_agreed :: "trash_event \<Rightarrow> trash_panel \<Rightarrow> trash_call list" where
  "trash_agreed e st =
     (case e of
        TrashAnswered n (Reports True) \<Rightarrow> (case waiting_at n (tp_waits st) of Some (AskEventPurge e) \<Rightarrow> [PurgeEvent (te_id e)] | _ \<Rightarrow> [])
      | _ \<Rightarrow> [])"

lemma trash_agreed_none: "\<forall>n. e \<noteq> TrashAnswered n (Reports True) \<Longrightarrow> trash_agreed e st = []"
  by (auto simp: trash_agreed_def split: trash_event.split trash_answer.split bool.split)

lemma trash_resume_purges:
  "event_purges (trash_resume w a st) =
     event_purges st @ (case w of AskEventPurge e \<Rightarrow> if a = Reports True then [PurgeEvent (te_id e)] else [] | _ \<Rightarrow> [])"
  by (cases w; cases a) (auto simp: event_purges_def trash_ops)

interpretation event_purge_asking: ask_first trash_step event_purges trash_agreed
proof
  fix e st
  show "event_purges (trash_step e st) = event_purges st @ trash_agreed e st"
  proof (cases e)
    case (TrashAnswered n a)
    have idle: "event_purges (st\<lparr>tp_waits := ws\<rparr>) = event_purges st" for ws by (simp add: event_purges_def)
    show ?thesis
    proof (cases "waiting_at n (tp_waits st)")
      case None
      then show ?thesis using TrashAnswered by (simp add: trash_answered_def trash_agreed_def split: trash_answer.split bool.split)
    next
      case (Some w)
      then show ?thesis using TrashAnswered trash_agreed_none [of e st]
        by (cases "a = Reports True") (auto simp: trash_answered_def trash_resume_purges idle trash_agreed_def split: trash_wait.split)
    qed
  qed (auto simp: trash_ops event_purges_def trash_agreed_def split: option.split)
qed

lemma event_purge_agreed:
  "PurgeEvent i \<in> set (tp_calls (fold trash_step es (mount_trash b))) \<Longrightarrow>
     PurgeEvent i \<in> set (agreements trash_step trash_agreed es (mount_trash b))"
proof -
  assume "PurgeEvent i \<in> set (tp_calls (fold trash_step es (mount_trash b)))"
  then have "PurgeEvent i \<in> set (event_purges (fold trash_step es (mount_trash b)))" by (simp add: event_purges_def)
  moreover have "event_purges (mount_trash b) = []" by (simp add: event_purges_def mount_trash_def trash_ops)
  ultimately show ?thesis by (simp add: event_purge_asking.run_sends)
qed

text \<open>A failed load shows as failed.\<close>

lemma failed_load_shows_failed:
  "waiting_at n (tp_waits st) = Some AwaitFirstPage \<Longrightarrow> trash_panel_view (trash_answered n (FailsWith m) st) = TrashFailed"
  by (simp add: trash_answered_def trash_panel_view_def)

text \<open>
  Three things the panel says of the trash that are not so: while a retry is out it claims the trash is empty, with the
  rows of the failed load; once every row of the first page is restored it claims so too and takes the button for the
  older ones away; and an older page that was asked for on one board is added to the next one's rows, with its cursor.
\<close>

theorem trash_panel_misreports:
  "let e = (\<lambda>i. \<lparr>te_id = i, te_title = i\<rparr>);
       retry = fold trash_step [TrashAnswered 0 (FailsWith ''Failed''), TryAgain] (mount_trash (Some ''a''));
       emptied = fold trash_step [TrashAnswered 0 (PageCame [e ''1''] (Some (''t'', ''1''))), EntryRestored (e ''1''), TrashAnswered 1 (Reports True)]
         (mount_trash (Some ''a''));
       mixed = fold trash_step [TrashAnswered 0 (PageCame [e ''1''] (Some (''t'', ''1''))), LoadOlder, TrashBoard (Some ''b''),
         TrashAnswered 2 (PageCame [e ''2''] None), TrashAnswered 1 (PageCame [e ''3''] (Some (''u'', ''3'')))] (mount_trash (Some ''a'')) in
   trash_panel_view retry = TrashEmpty \<and> tp_waits retry = ([(1, AwaitFirstPage)], 2) \<and>
   trash_panel_view emptied = TrashEmpty \<and> tp_nextCursor emptied = Some (''t'', ''1'') \<and>
   tp_board mixed = Some ''b'' \<and> trash_panel_view mixed = TrashShows [e ''2'', e ''3''] True \<and> tp_nextCursor mixed = Some (''u'', ''3'')"
  by code_simp

section \<open>The time left\<close>

text \<open>\<open>Math.ceil\<close> of the days to the purge, \<open>Math.round\<close> (halves up) of the days to an invite's end.\<close>

definition days_to_purge :: "int \<Rightarrow> int \<Rightarrow> int" where
  "days_to_purge purgeAt now = max 0 (- ((now - purgeAt) div 86400000))"

definition purge_label :: "int \<Rightarrow> int \<Rightarrow> string" where
  "purge_label purgeAt now =
     (let days = days_to_purge purgeAt now in
      if days = 0 then ''Will be permanently deleted soon''
      else ''Permanently deleted in '' @ show_int days @ '' day'' @ (if days = 1 then [] else ''s''))"

definition expiryLabel :: "int \<Rightarrow> int \<Rightarrow> string" where
  "expiryLabel expiresAt now =
     (let days = max 0 ((expiresAt - now + 43200000) div 86400000) in
      if days = 0 then ''expires today'' else ''expires in '' @ show_int days @ '' day'' @ (if days = 1 then [] else ''s''))"

text \<open>A row never promises more than a day too much, and "soon" only once its time is up.\<close>

lemma purge_days_exact:
  "now < purgeAt \<Longrightarrow> 86400000 * (days_to_purge purgeAt now - 1) < purgeAt - now \<and> purgeAt - now \<le> 86400000 * days_to_purge purgeAt now"
  "purgeAt \<le> now \<longleftrightarrow> days_to_purge purgeAt now = 0"
  by (auto simp: days_to_purge_def max_def)
section \<open>Invite links\<close>

record invite_row =
  iv_id :: string
  iv_role :: string
  iv_expires_at :: string
  iv_created_at :: string

datatype invite_wait = AwaitInvites | AwaitInvite | AwaitRevoke string

record invite_panel =
  ip_origin :: string
  ip_role :: string
  ip_invites :: "invite_row list"
  ip_loading :: bool
  ip_creating :: bool
  ip_busyId :: "string option"
  ip_freshLink :: "string option"
  ip_copied :: bool
  ip_waits :: "invite_wait parked"
  ip_toasts :: "string list"

definition inviteUrl :: "string \<Rightarrow> string \<Rightarrow> string" where
  "inviteUrl origin code = origin @ ''/invite/'' @ code"

definition invites_reload :: "invite_panel \<Rightarrow> invite_panel" where
  "invites_reload st = st\<lparr>ip_waits := park AwaitInvites (ip_waits st)\<rparr>"

definition mount_invites :: "string \<Rightarrow> invite_panel" where
  "mount_invites origin = invites_reload \<lparr>ip_origin = origin, ip_role = ''viewer'', ip_invites = [], ip_loading = True,
     ip_creating = False, ip_busyId = None, ip_freshLink = None, ip_copied = False, ip_waits = ([], 0), ip_toasts = []\<rparr>"

definition invite_handleCreate :: "invite_panel \<Rightarrow> invite_panel" where
  "invite_handleCreate st = st\<lparr>ip_creating := True, ip_waits := park AwaitInvite (ip_waits st)\<rparr>"

definition invite_handleRevoke :: "invite_row \<Rightarrow> invite_panel \<Rightarrow> invite_panel" where
  "invite_handleRevoke i st = st\<lparr>ip_busyId := Some (iv_id i), ip_waits := park (AwaitRevoke (iv_id i)) (ip_waits st)\<rparr>"

definition invite_copied :: "bool \<Rightarrow> invite_panel \<Rightarrow> invite_panel" where
  "invite_copied ok st =
     (if ok then st\<lparr>ip_copied := True\<rparr>
      else st\<lparr>ip_toasts := ip_toasts st @ [''Copy the link manually - clipboard access was blocked.'']\<rparr>)"

text \<open>The rows of a reload, a created row with its code, a plain success, or a failure.\<close>

datatype invite_answer = InviteRows "invite_row list" | InviteMade invite_row string | InviteDone | InviteFails

fun invite_resume :: "invite_wait \<Rightarrow> invite_answer \<Rightarrow> invite_panel \<Rightarrow> invite_panel" where
  "invite_resume AwaitInvites a st = (case a of InviteRows rows \<Rightarrow> st\<lparr>ip_invites := rows\<rparr> | _ \<Rightarrow> st)\<lparr>ip_loading := False\<rparr>"
| "invite_resume AwaitInvite a st =
     (case a of
        InviteMade i code \<Rightarrow>
          st\<lparr>ip_freshLink := Some (inviteUrl (ip_origin st) code), ip_copied := False, ip_invites := i # ip_invites st\<rparr>
      | _ \<Rightarrow> st\<lparr>ip_toasts := ip_toasts st @ [''Failed to create an invite link.'']\<rparr>)\<lparr>ip_creating := False\<rparr>"
| "invite_resume (AwaitRevoke i) a st =
     (if a = InviteFails then st\<lparr>ip_toasts := ip_toasts st @ [''Failed to revoke the invite link.'']\<rparr>
      else st\<lparr>ip_invites := filter (\<lambda>r. iv_id r \<noteq> i) (ip_invites st)\<rparr>)\<lparr>ip_busyId := None\<rparr>"

definition invite_answered :: "nat \<Rightarrow> invite_answer \<Rightarrow> invite_panel \<Rightarrow> invite_panel" where
  "invite_answered n a st =
     (case waiting_at n (ip_waits st) of
        None \<Rightarrow> st | Some w \<Rightarrow> invite_resume w a (st\<lparr>ip_waits := unpark n (ip_waits st)\<rparr>))"

text \<open>
  The first reading of the links may have left before a link was made: coming back after it, it overwrites the list
  and the new link's row is gone, though its address is still on screen.
\<close>

theorem late_reading_forgets_new_invite:
  "let i = \<lparr>iv_id = ''1'', iv_role = ''viewer'', iv_expires_at = [], iv_created_at = []\<rparr>;
       made = invite_answered 1 (InviteMade i ''c'') (invite_handleCreate (mount_invites ''o''));
       st = invite_answered 0 (InviteRows []) made in
   ip_invites made = [i] \<and> ip_invites st = [] \<and> ip_freshLink st = Some ''o/invite/c''"
  by code_simp

section \<open>Accepting an invite\<close>

datatype accept_wait = AwaitPreview | AwaitAccept | AwaitSummaries string

record invite_page =
  vi_code :: string
  vi_preview :: "string option"
  vi_error :: "string option"
  vi_accepting :: bool
  vi_stored :: "string option"
  vi_redeemed :: nat
  vi_waits :: "accept_wait parked"
  vi_visited :: "string list"

definition remember_invite :: "bool \<Rightarrow> invite_page \<Rightarrow> invite_page" where
  "remember_invite signedIn st = (if vi_code st \<noteq> [] \<and> \<not> signedIn then st\<lparr>vi_stored := Some (vi_code st)\<rparr> else st)"

definition mount_invite_page :: "string \<Rightarrow> bool \<Rightarrow> invite_page" where
  "mount_invite_page code signedIn =
     (let st = \<lparr>vi_code = code, vi_preview = None, vi_error = None, vi_accepting = False, vi_stored = None, vi_redeemed = 0,
         vi_waits = ([], 0), vi_visited = []\<rparr>;
          st = (if code = [] then st else st\<lparr>vi_waits := park AwaitPreview (vi_waits st)\<rparr>)
      in remember_invite signedIn st)"

definition handleAccept :: "invite_page \<Rightarrow> invite_page" where
  "handleAccept st = st\<lparr>vi_accepting := True, vi_error := None, vi_redeemed := vi_redeemed st + 1,
     vi_waits := park AwaitAccept (vi_waits st)\<rparr>"

text \<open>The preview's board, the board joined, the summaries read, or the message of a failure.\<close>

datatype accept_answer = PreviewCame string | Joined string | SummariesRead | InviteThrew string

fun accept_resume :: "accept_wait \<Rightarrow> accept_answer \<Rightarrow> invite_page \<Rightarrow> invite_page" where
  "accept_resume AwaitPreview a st =
     (case a of PreviewCame p \<Rightarrow> st\<lparr>vi_preview := Some p\<rparr> | InviteThrew m \<Rightarrow> st\<lparr>vi_error := Some m\<rparr> | _ \<Rightarrow> st)"
| "accept_resume AwaitAccept a st =
     (case a of
        Joined i \<Rightarrow> st\<lparr>vi_stored := None, vi_waits := park (AwaitSummaries i) (vi_waits st)\<rparr>
      | InviteThrew m \<Rightarrow> st\<lparr>vi_error := Some m, vi_accepting := False\<rparr>
      | _ \<Rightarrow> st)"
| "accept_resume (AwaitSummaries i) a st =
     (case a of
        InviteThrew m \<Rightarrow> st\<lparr>vi_error := Some m, vi_accepting := False\<rparr>
      | _ \<Rightarrow> st\<lparr>vi_visited := vi_visited st @ [ROUTE_dashboard i]\<rparr>)"

definition accept_answered :: "nat \<Rightarrow> accept_answer \<Rightarrow> invite_page \<Rightarrow> invite_page" where
  "accept_answered n a st =
     (case waiting_at n (vi_waits st) of
        None \<Rightarrow> st | Some w \<Rightarrow> accept_resume w a (st\<lparr>vi_waits := unpark n (vi_waits st)\<rparr>))"

datatype invite_event = AcceptPressed bool | InviteAnswered nat accept_answer | InviteAuth bool

text \<open>The button is drawn for a signed-in user under a preview.\<close>

fun invite_step :: "invite_event \<Rightarrow> invite_page \<Rightarrow> invite_page" where
  "invite_step (AcceptPressed signedIn) st =
     (if signedIn \<and> vi_preview st \<noteq> None \<and> vi_error st = None \<and> \<not> vi_accepting st then handleAccept st else st)"
| "invite_step (InviteAnswered n a) st = accept_answered n a st"
| "invite_step (InviteAuth signedIn) st = remember_invite signedIn st"

lemma redeemed_resume: "vi_redeemed (accept_resume w a st) = vi_redeemed st"
  by (cases w) (auto split: accept_answer.split)

text \<open>Opening the link redeems nothing: it takes a press of Accept by a signed-in user for each.\<close>

lemma only_accept_redeems:
  "vi_redeemed (fold invite_step es st) \<le> vi_redeemed st + length (filter (\<lambda>e. e = AcceptPressed True) es)"
proof (induction es arbitrary: st)
  case (Cons e es)
  have "vi_redeemed (invite_step e st) \<le> vi_redeemed st + (if e = AcceptPressed True then 1 else 0)"
    by (cases e) (auto simp: handleAccept_def accept_answered_def redeemed_resume remember_invite_def split: option.split)
  then show ?case using Cons.IH [of "invite_step e st"] by auto
qed simp

section \<open>The list of sessions\<close>

record sessions_panel =
  sn_cursor :: "session_cursor option"
  sn_revoking :: "string option"
  sn_revokeError :: "string option"
  sn_generation :: nat
  sn_waits :: "nat parked"
  sn_revokes :: "string list"

definition initial_sessions_panel :: sessions_panel where
  "initial_sessions_panel = \<lparr>sn_cursor = None, sn_revoking = None, sn_revokeError = None, sn_generation = 0, sn_waits = ([], 0), sn_revokes = []\<rparr>"

definition revoke_disabled :: "bool \<Rightarrow> sessions_panel \<Rightarrow> bool" where
  "revoke_disabled loading st \<longleftrightarrow> loading \<or> sn_revoking st \<noteq> None"

definition revoke_session :: "string \<Rightarrow> sessions_panel \<Rightarrow> sessions_panel" where
  "revoke_session i st = st\<lparr>sn_revoking := Some i, sn_revokeError := None, sn_revokes := sn_revokes st @ [i],
     sn_waits := park (sn_generation st) (sn_waits st)\<rparr>"

definition revoke_settled :: "nat \<Rightarrow> string option \<Rightarrow> sessions_panel \<Rightarrow> sessions_panel" where
  "revoke_settled n failure st =
     (case waiting_at n (sn_waits st) of
        None \<Rightarrow> st
      | Some generation \<Rightarrow>
          (let st = st\<lparr>sn_waits := unpark n (sn_waits st)\<rparr> in
           if generation \<noteq> sn_generation st then st
           else (case failure of Some m \<Rightarrow> st\<lparr>sn_revokeError := Some m\<rparr> | None \<Rightarrow> st)\<lparr>sn_revoking := None\<rparr>))"

datatype panel_event = RevokePressed string bool | RevokeSettled nat "string option" | PanelPage "session_cursor option" bool | NextGeneration

fun panel_step :: "panel_event \<Rightarrow> sessions_panel \<Rightarrow> sessions_panel" where
  "panel_step (RevokePressed i loading) st = (if revoke_disabled loading st then st else revoke_session i st)"
| "panel_step (RevokeSettled n failure) st = revoke_settled n failure st"
| "panel_step (PanelPage c loading) st = (if revoke_disabled loading st then st else st\<lparr>sn_cursor := c\<rparr>)"
| "panel_step NextGeneration st = st\<lparr>sn_generation := sn_generation st + 1\<rparr>"

definition one_revoke :: "sessions_panel \<Rightarrow> bool" where
  "one_revoke st \<longleftrightarrow> length (fst (sn_waits st)) \<le> 1 \<and> (fst (sn_waits st) \<noteq> [] \<longrightarrow> sn_revoking st \<noteq> None)"

lemma one_revoke_step: "one_revoke st \<Longrightarrow> one_revoke (panel_step e st)"
proof (cases e)
  case (RevokeSettled n failure)
  assume "one_revoke st"
  then consider "fst (sn_waits st) = []" | m g where "fst (sn_waits st) = [(m, g)]" "sn_revoking st \<noteq> None"
    by (cases "fst (sn_waits st)") (auto simp: one_revoke_def)
  then show ?thesis using RevokeSettled
    by cases (auto simp: one_revoke_def revoke_settled_def waiting_at_def unpark_def Let_def split: option.split)
qed (auto simp: one_revoke_def revoke_disabled_def revoke_session_def park_def)

interpretation panel_runs: event_machine panel_step one_revoke
  by unfold_locales (rule one_revoke_step)

lemma one_session_at_a_time: "length (fst (sn_waits (fold panel_step es initial_sessions_panel))) \<le> 1"
  using panel_runs.run_inv [of initial_sessions_panel es] by (simp add: one_revoke_def initial_sessions_panel_def)

end
