(* ===== verification/CalendarMonth.thy ===== *)
theory CalendarMonth
  imports CalendarGrid BoardPages
begin

text \<open>
  Moving about the calendar's page (\<open>frontend/src/pages/CalendarPage.tsx\<close>): the month and the day it shows, which
  follow the date of the address, the cells it draws and deleting an event from a day.

  The lemmas: the arrows move the month by exactly one, across years and whatever day the address named, so any
  presses lead to the month their count says, with every day of it drawn.
\<close>

section \<open>The month and the day\<close>

record calendar_nav =
  cn_dateBase :: "string option"
  cn_monthCursor :: int
  cn_selectedDate :: int
  cn_showTrash :: bool

definition mount_calendar :: "host \<Rightarrow> int \<Rightarrow> string option \<Rightarrow> calendar_nav" where
  "mount_calendar h now requestedDate =
     \<lparr>cn_dateBase = requestedDate, cn_monthCursor = parseCalendarDate h now requestedDate,
      cn_selectedDate = parseCalendarDate h now requestedDate, cn_showTrash = False\<rparr>"

text \<open>The part of a render that follows the address.\<close>

definition calendar_render :: "host \<Rightarrow> int \<Rightarrow> string option \<Rightarrow> calendar_nav \<Rightarrow> calendar_nav" where
  "calendar_render h now requestedDate st =
     (if cn_dateBase st \<noteq> requestedDate
      then st\<lparr>cn_dateBase := requestedDate, cn_monthCursor := parseCalendarDate h now requestedDate,
              cn_selectedDate := parseCalendarDate h now requestedDate\<rparr>
      else st)"

definition previousMonth :: "host \<Rightarrow> calendar_nav \<Rightarrow> calendar_nav" where
  "previousMonth h st =
     st\<lparr>cn_monthCursor := Date_new h (getFullYear h (cn_monthCursor st)) (getMonth h (cn_monthCursor st) - 1) 1\<rparr>"

definition nextMonth :: "host \<Rightarrow> calendar_nav \<Rightarrow> calendar_nav" where
  "nextMonth h st =
     st\<lparr>cn_monthCursor := Date_new h (getFullYear h (cn_monthCursor st)) (getMonth h (cn_monthCursor st) + 1) 1\<rparr>"

definition goToday :: "int \<Rightarrow> calendar_nav \<Rightarrow> calendar_nav" where
  "goToday today st = st\<lparr>cn_monthCursor := today, cn_selectedDate := today\<rparr>"

definition selectDay :: "host \<Rightarrow> int \<Rightarrow> calendar_nav \<Rightarrow> calendar_nav" where
  "selectDay h day st = st\<lparr>cn_selectedDate := startOfDay h day\<rparr>"

definition toggleCalendarTrash :: "calendar_nav \<Rightarrow> calendar_nav" where
  "toggleCalendarTrash st = st\<lparr>cn_showTrash := \<not> cn_showTrash st\<rparr>"

definition occurrenceWindow :: "host \<Rightarrow> string option \<Rightarrow> calendar_nav \<Rightarrow> (string \<times> string) option" where
  "occurrenceWindow h dashboardId st = (if truthy dashboardId then Some (calendarWindow h (cn_monthCursor st)) else None)"

record day_cell =
  dc_day :: int
  dc_occurrences :: "occurrence list"
  dc_inMonth :: bool
  dc_isSelected :: bool
  dc_isToday :: bool

definition month_cells :: "host \<Rightarrow> (string \<Rightarrow> int) \<Rightarrow> int \<Rightarrow> occurrence list \<Rightarrow> calendar_nav \<Rightarrow> day_cell list" where
  "month_cells h parse today occurrences st =
     map (\<lambda>day. \<lparr>dc_day = day, dc_occurrences = occurrencesForDate h parse occurrences day,
            dc_inMonth = (getMonth h day = getMonth h (cn_monthCursor st)),
            dc_isSelected = (dateKey h day = dateKey h (cn_selectedDate st)), dc_isToday = (dateKey h day = dateKey h today)\<rparr>)
       (monthWeeksInView h (cn_monthCursor st))"

definition selectedOccurrences :: "host \<Rightarrow> (string \<Rightarrow> int) \<Rightarrow> occurrence list \<Rightarrow> calendar_nav \<Rightarrow> occurrence list" where
  "selectedOccurrences h parse occurrences st = occurrencesForDate h parse occurrences (cn_selectedDate st)"

section \<open>The arrows\<close>

definition month_index :: "host \<Rightarrow> int \<Rightarrow> int" where
  "month_index h t = 12 * getFullYear h t + getMonth h t"

lemma make_day_carry: "make_day y m d = make_day (y + m div 12) (m mod 12) d"
  by (simp add: make_day_def Let_def)

lemma first_of_month:
  assumes "zone_ok h" "y < 0 \<or> 99 < y"
  shows "month_index h (Date_new h y m 1) = 12 * y + m" "getFullYear h (Date_new h y m 1) = y + m div 12"
proof -
  let ?y = "y + m div 12" and ?m = "m mod 12"
  have "local_day h (Date_new h y m 1) = make_day y m 1"
    using assms at_local_day [OF assms(1), of 0] by (auto simp: Date_new_def MS_DAY_def)
  then have d: "local_day h (Date_new h y m 1) = make_day ?y ?m 1" by (simp add: make_day_carry [of y m])
  have "real_date ?y ?m 1"
    using days_in_month_range(1) [of ?m ?y] by (simp add: real_date_def)
  from civil_make_day [OF this] show "getFullYear h (Date_new h y m 1) = ?y" "month_index h (Date_new h y m 1) = 12 * y + m"
    by (simp_all add: civil_def getFullYear_def getMonth_def month_index_def d)
qed

datatype arrow = Back | Forth

fun press_arrow :: "host \<Rightarrow> arrow \<Rightarrow> calendar_nav \<Rightarrow> calendar_nav" where
  "press_arrow h Back st = previousMonth h st"
| "press_arrow h Forth st = nextMonth h st"

definition months_moved :: "arrow list \<Rightarrow> int" where
  "months_moved as = int (length (filter (\<lambda>a. a = Forth) as)) - int (length (filter (\<lambda>a. a = Back) as))"

lemma arrow_moves:
  assumes "zone_ok h" "100 \<le> getFullYear h (cn_monthCursor st)"
  shows "month_index h (cn_monthCursor (press_arrow h a st)) = month_index h (cn_monthCursor st) + months_moved [a]"
  using assms first_of_month(1) [OF assms(1), of "getFullYear h (cn_monthCursor st)"]
  by (cases a) (simp_all add: previousMonth_def nextMonth_def months_moved_def, simp_all add: month_index_def)

lemma year_of_index: "getFullYear h t = month_index h t div 12" "getMonth h t = month_index h t mod 12"
  using date_fields(1) [of h t] by (simp_all add: month_index_def real_date_def)

text \<open>
  The arrows count months: after any presses the month shown is as many months on as Next was pressed more often than
  Previous, whatever its days, the ends of years included, and every day of that month is drawn.
\<close>

theorem arrows_count_months:
  assumes "zone_ok h" "1200 + int (length as) \<le> month_index h (cn_monthCursor st)"
  shows "let t = cn_monthCursor (fold (press_arrow h) as st) in
    month_index h t = month_index h (cn_monthCursor st) + months_moved as \<and>
    set [month_first h t..month_first h t + month_days h t - 1] \<subseteq> local_day h ` set (map dc_day (month_cells h parse today ocs (fold (press_arrow h) as st)))"
proof -
  have run: "month_index h (cn_monthCursor (fold (press_arrow h) as st)) = month_index h (cn_monthCursor st) + months_moved as"
    using assms(2)
  proof (induction as arbitrary: st)
    case (Cons a as)
    have y: "100 \<le> getFullYear h (cn_monthCursor st)" using Cons.prems by (simp add: year_of_index(1))
    note m = arrow_moves [OF assms(1) y, of a]
    have "1200 + int (length as) \<le> month_index h (cn_monthCursor (press_arrow h a st))"
      using Cons.prems m by (cases a) (simp_all add: months_moved_def)
    from Cons.IH [OF this] m show ?case by (cases a) (simp_all add: months_moved_def)
  qed (simp add: months_moved_def)
  let ?t = "cn_monthCursor (fold (press_arrow h) as st)"
  have "int (length as) \<ge> - months_moved as"
    using length_filter_le [of "\<lambda>a. a = Back" as] unfolding months_moved_def by linarith
  then have "100 \<le> getFullYear h ?t" using assms(2) run by (simp add: year_of_index(1))
  note weeks = monthWeeksInView_exact [OF assms(1) this]
  have "local_day h ` set (map dc_day (month_cells h parse today ocs (fold (press_arrow h) as st))) = set (map (local_day h) (monthWeeksInView h ?t))"
    by (auto simp: month_cells_def)
  moreover have "set [month_first h ?t..month_first h ?t + month_days h ?t - 1] \<subseteq> set (map (local_day h) (monthWeeksInView h ?t))"
    using weeks weekday_range [of "month_first h ?t"] by (auto simp: grid_first_def)
  ultimately show ?thesis using run by (simp add: Let_def)
qed

text \<open>From 31 January, Next shows February, and five Previous more the September before.\<close>

theorem arrows_count_months_witness:
  "let st = mount_calendar utc_zone 0 (Some ''2025-01-31'') in
   month_index utc_zone (cn_monthCursor st) = 24300 \<and>
   month_index utc_zone (cn_monthCursor (fold (press_arrow utc_zone) [Forth, Back, Back, Back, Back, Back] st)) = 24296"
proof -
  have m: "month_index utc_zone (cn_monthCursor (mount_calendar utc_zone 0 (Some ''2025-01-31''))) = 24300" by code_simp
  then show ?thesis
    using arrows_count_months [OF zone_ok_utc, of "[Forth, Back, Back, Back, Back, Back]" "mount_calendar utc_zone 0 (Some ''2025-01-31'')"]
    by (simp add: Let_def months_moved_def)
qed

section \<open>Deleting from a day\<close>

text \<open>The question a card's button asks, and what follows its answer: the event and the board shown at the click.\<close>

definition delete_question :: "occurrence \<Rightarrow> string" where
  "delete_question oc = (if o_recurring oc then ''Delete this entire series?'' else ''Delete this event?'')"

definition occurrence_delete :: "occurrence \<Rightarrow> string option \<Rightarrow> bool \<Rightarrow> (string \<times> string option) option" where
  "occurrence_delete oc dashboardId confirmed = (if confirmed then Some (o_event_id oc, dashboardId) else None)"

text \<open>The button beside the date: it closes an open new event, and otherwise leaves the trash and opens one.\<close>

definition add_event_pressed :: "bool \<Rightarrow> calendar_nav \<Rightarrow> calendar_nav \<times> bool" where
  "add_event_pressed creating st = (if creating then (st, False) else (st\<lparr>cn_showTrash := False\<rparr>, True))"

end
