(* ===== verification/Profile.thy ===== *)
theory Profile
  imports AccountForms PageTasks
begin

text \<open>
  The page of the account (\<open>frontend/src/pages/ProfilePage.tsx\<close>): its three forms as one state machine, and the line about
  the home board. What a form refuses and sends is in \<open>AccountForms\<close>. A button that is disabled also keeps Enter from
  submitting its form. The button of the password form does not look at what was typed once a request is out, so an
  answer finds the page as it is by then.

  The lemmas: the two editors are never open together, a spinner turns exactly while a request of its form is out, and one
  request of a form is out at a time. The traces show what an editor says when it is opened again.
\<close>

section \<open>State\<close>

datatype profile_wait = AwaitProfile | AwaitPassword | AwaitDelete

datatype profile_call = UpdateProfile string | ChangePassword string string | DeleteAccount string | ClearHome

record profile_page =
  pf_user :: user
  pf_editingProfile :: bool
  pf_editingPassword :: bool
  pf_deleting :: bool
  pf_deleteBusy :: bool
  pf_deleteError :: "string option"
  pf_savingProfile :: bool
  pf_savingPassword :: bool
  pf_profileError :: "string option"
  pf_passwordErrors :: password_errors
  pf_waits :: "profile_wait parked"
  pf_calls :: "profile_call list"
  pf_toasts :: "string list"

definition mount_profile :: "user \<Rightarrow> profile_page" where
  "mount_profile u =
     \<lparr>pf_user = u, pf_editingProfile = False, pf_editingPassword = False, pf_deleting = False, pf_deleteBusy = False,
      pf_deleteError = None, pf_savingProfile = False, pf_savingPassword = False, pf_profileError = None,
      pf_passwordErrors = no_password_errors, pf_waits = ([], 0), pf_calls = [], pf_toasts = []\<rparr>"

section \<open>The home board\<close>

datatype home_label = HomeNamed string | HomeLine string

definition home_dashboard :: "string option \<Rightarrow> dashboard_summary list \<Rightarrow> dashboard_summary option" where
  "home_dashboard homeDashboardId summaries =
     (if truthy homeDashboardId then find (\<lambda>d. Some (s_id d) = homeDashboardId) summaries else None)"

definition homeDashboardLabel :: "string option \<Rightarrow> dashboard_summary list \<Rightarrow> bool \<Rightarrow> bool \<Rightarrow> home_label" where
  "homeDashboardLabel homeDashboardId summaries summariesLoading summariesLoaded =
     (case home_dashboard homeDashboardId summaries of
        Some d \<Rightarrow> HomeNamed (s_name d)
      | None \<Rightarrow>
          if truthy homeDashboardId \<and> (summariesLoading \<or> \<not> summariesLoaded) then HomeLine ''Loading home dashboard...''
          else if truthy homeDashboardId then HomeLine ''Current dashboard unavailable''
          else HomeLine ''Not set - opening the app shows the dashboards listing.'')"

text \<open>The address its link opens, and whether there is something to clear.\<close>

definition home_link :: "string option \<Rightarrow> dashboard_summary list \<Rightarrow> string option" where
  "home_link homeDashboardId summaries = map_option (\<lambda>d. ''/dashboard/'' @ s_id d) (home_dashboard homeDashboardId summaries)"

section \<open>Handlers\<close>

definition cancelProfileEdit :: "profile_page \<Rightarrow> profile_page" where
  "cancelProfileEdit st = st\<lparr>pf_profileError := None, pf_editingProfile := False\<rparr>"

definition cancelPasswordEdit :: "profile_page \<Rightarrow> profile_page" where
  "cancelPasswordEdit st = st\<lparr>pf_passwordErrors := no_password_errors, pf_editingPassword := False\<rparr>"

definition toggle_profile :: "profile_page \<Rightarrow> profile_page" where
  "toggle_profile st = st\<lparr>pf_editingPassword := False, pf_editingProfile := \<not> pf_editingProfile st\<rparr>"

definition toggle_password :: "profile_page \<Rightarrow> profile_page" where
  "toggle_password st =
     (let st' = st\<lparr>pf_editingProfile := False, pf_editingPassword := \<not> pf_editingPassword st\<rparr>
      in if pf_editingPassword st then cancelPasswordEdit st' else st')"

definition toggle_delete :: "profile_page \<Rightarrow> profile_page" where
  "toggle_delete st = st\<lparr>pf_deleteError := None, pf_deleting := \<not> pf_deleting st\<rparr>"

definition profile_send :: "profile_call \<Rightarrow> profile_wait \<Rightarrow> profile_page \<Rightarrow> profile_page" where
  "profile_send c k st = st\<lparr>pf_calls := pf_calls st @ [c], pf_waits := park k (pf_waits st)\<rparr>"

definition submit_profile :: "string \<Rightarrow> profile_page \<Rightarrow> profile_page" where
  "submit_profile typed st =
     (if \<not> pf_editingProfile st \<or> pf_savingProfile st then st
      else case handleProfileSubmit (pf_user st) typed of
        Inl message \<Rightarrow> st\<lparr>pf_profileError := Some message\<rparr>
      | Inr name \<Rightarrow> profile_send (UpdateProfile name) AwaitProfile (st\<lparr>pf_profileError := None, pf_savingProfile := True\<rparr>))"

definition submit_password :: "string \<Rightarrow> string \<Rightarrow> string \<Rightarrow> profile_page \<Rightarrow> profile_page" where
  "submit_password cur new again st =
     (if \<not> pf_editingPassword st \<or> pf_savingPassword st then st
      else case handlePasswordSubmit cur new again of
        Inl errors \<Rightarrow> st\<lparr>pf_passwordErrors := errors\<rparr>
      | Inr (c, n) \<Rightarrow> profile_send (ChangePassword c n) AwaitPassword
          (st\<lparr>pf_passwordErrors := no_password_errors, pf_savingPassword := True\<rparr>))"

definition submit_delete :: "string \<Rightarrow> profile_page \<Rightarrow> profile_page" where
  "submit_delete password st =
     (if \<not> pf_deleting st \<or> pf_deleteBusy st then st
      else case handleDeleteSubmit password of
        Inl message \<Rightarrow> st\<lparr>pf_deleteError := Some message\<rparr>
      | Inr p \<Rightarrow> profile_send (DeleteAccount p) AwaitDelete (st\<lparr>pf_deleteBusy := True, pf_deleteError := None\<rparr>))"

text \<open>The store has shown its own error for a refused name; the page passes it on.\<close>

definition profile_answer :: "profile_wait \<Rightarrow> unit reply \<Rightarrow> profile_page \<Rightarrow> profile_page" where
  "profile_answer k reply st =
     (case k of
        AwaitProfile \<Rightarrow>
          (case reply of
             Inr _ \<Rightarrow> st\<lparr>pf_editingProfile := False, pf_toasts := pf_toasts st @ [''Profile updated.''], pf_savingProfile := False\<rparr>
           | Inl _ \<Rightarrow> st\<lparr>pf_savingProfile := False\<rparr>)
      | AwaitPassword \<Rightarrow>
          (case reply of
             Inr _ \<Rightarrow> (cancelPasswordEdit st)\<lparr>pf_toasts := pf_toasts st @ [''Password updated.''], pf_savingPassword := False\<rparr>
           | Inl err \<Rightarrow> st\<lparr>pf_passwordErrors := password_failure err, pf_savingPassword := False\<rparr>)
      | AwaitDelete \<Rightarrow>
          (case reply of
             Inr _ \<Rightarrow> st
           | Inl err \<Rightarrow> st\<lparr>pf_deleteError := Some (error_message err ''Failed to delete account.''), pf_deleteBusy := False\<rparr>))"

definition profile_resume :: "nat \<Rightarrow> unit reply \<Rightarrow> profile_page \<Rightarrow> profile_page" where
  "profile_resume n reply st =
     (case waiting_at n (pf_waits st) of
        None \<Rightarrow> st
      | Some k \<Rightarrow> profile_answer k reply (st\<lparr>pf_waits := unpark n (pf_waits st)\<rparr>))"

datatype profile_event =
    EditPressed
  | ProfileTyped
  | ProfileCancelled
  | ProfileSubmitted string
  | ChangePressed
  | PasswordCancelled
  | PasswordSubmitted string string string
  | DeletePressed
  | DeleteSubmitted string
  | ClearPressed
  | ProfileAnswered nat "unit reply"

fun profile_step :: "profile_event \<Rightarrow> profile_page \<Rightarrow> profile_page" where
  "profile_step EditPressed st = toggle_profile st"
| "profile_step ProfileTyped st = (if pf_editingProfile st then st\<lparr>pf_profileError := None\<rparr> else st)"
| "profile_step ProfileCancelled st = (if pf_editingProfile st then cancelProfileEdit st else st)"
| "profile_step (ProfileSubmitted typed) st = submit_profile typed st"
| "profile_step ChangePressed st = toggle_password st"
| "profile_step PasswordCancelled st = (if pf_editingPassword st then cancelPasswordEdit st else st)"
| "profile_step (PasswordSubmitted cur new again) st = submit_password cur new again st"
| "profile_step DeletePressed st = toggle_delete st"
| "profile_step (DeleteSubmitted p) st = submit_delete p st"
| "profile_step ClearPressed st = st\<lparr>pf_calls := pf_calls st @ [ClearHome]\<rparr>"
| "profile_step (ProfileAnswered n reply) st = profile_resume n reply st"

lemmas profile_ops = cancelProfileEdit_def cancelPasswordEdit_def toggle_profile_def toggle_password_def toggle_delete_def
  profile_send_def submit_profile_def submit_password_def submit_delete_def profile_answer_def

section \<open>Editors and spinners\<close>

text \<open>How many requests of a kind are out.\<close>

definition requests_out :: "'k \<Rightarrow> 'k parked \<Rightarrow> nat" where
  "requests_out k p = length (filter (\<lambda>(n, j). j = k) (fst p))"

definition profile_ok :: "profile_page \<Rightarrow> bool" where
  "profile_ok st \<longleftrightarrow> parked_ok (pf_waits st) \<and> \<not> (pf_editingProfile st \<and> pf_editingPassword st) \<and>
     requests_out AwaitProfile (pf_waits st) = (if pf_savingProfile st then 1 else 0) \<and>
     requests_out AwaitPassword (pf_waits st) = (if pf_savingPassword st then 1 else 0) \<and>
     requests_out AwaitDelete (pf_waits st) \<le> (if pf_deleteBusy st then 1 else 0)"

lemma requests_park: "requests_out k (park k' p) = (if k' = k then 1 else 0) + requests_out k p"
  by (simp add: requests_out_def park_def)

lemma requests_unpark:
  assumes "parked_ok p" "waiting_at n p = Some k'"
  shows "requests_out k p = (if k' = k then 1 else 0) + requests_out k (unpark n p)"
proof -
  obtain xs ys where s: "fst p = xs @ (n, k') # ys"
    using assms(2) by (auto simp: waiting_at_def dest!: map_of_SomeD split_list)
  then have "n \<notin> fst ` set xs" "n \<notin> fst ` set ys" using assms(1) by (auto simp: parked_ok_def)
  then have "filter (\<lambda>q. n \<noteq> fst q) xs = xs" "filter (\<lambda>q. n \<noteq> fst q) ys = ys" by (force simp: filter_id_conv)+
  then have "fst (unpark n p) = xs @ ys" by (simp add: s unpark_def AList.delete_eq case_prod_unfold)
  then show ?thesis by (simp add: requests_out_def s)
qed

lemma profile_step_ok: "profile_ok st \<Longrightarrow> profile_ok (profile_step e st)"
proof (cases e)
  case (ProfileAnswered n reply)
  assume ok: "profile_ok st"
  show ?thesis
  proof (cases "waiting_at n (pf_waits st)")
    case (Some k)
    have "requests_out j (pf_waits st) = (if k = j then 1 else 0) + requests_out j (unpark n (pf_waits st))" for j
      using requests_unpark [OF _ Some, of j] ok by (simp add: profile_ok_def)
    from this [of AwaitProfile] this [of AwaitPassword] this [of AwaitDelete] ok show ?thesis
      by (cases k; cases reply) (auto simp: ProfileAnswered profile_resume_def Some profile_ok_def profile_ops split: if_splits)
  qed (use ok in \<open>simp add: ProfileAnswered profile_resume_def\<close>)
qed (auto simp: profile_ok_def profile_ops requests_park Let_def split: sum.split prod.split if_splits)

interpretation profile_runs: event_machine profile_step profile_ok
  by unfold_locales (rule profile_step_ok)

text \<open>
  In every run the two editors are never open together, a form's spinner turns exactly while its one request is out, and
  no request to delete the account is out that the form does not show.
\<close>

theorem profile_forms_take_turns:
  "let st = fold profile_step es (mount_profile u) in
   \<not> (pf_editingProfile st \<and> pf_editingPassword st) \<and>
   requests_out AwaitProfile (pf_waits st) = (if pf_savingProfile st then 1 else 0) \<and>
   requests_out AwaitPassword (pf_waits st) = (if pf_savingPassword st then 1 else 0) \<and>
   requests_out AwaitDelete (pf_waits st) \<le> (if pf_deleteBusy st then 1 else 0)"
proof -
  have "profile_ok (mount_profile u)" by (simp add: profile_ok_def mount_profile_def requests_out_def)
  from profile_runs.run_inv [OF this, of es] show ?thesis by (simp add: profile_ok_def Let_def)
qed

section \<open>What an editor says when it is opened again\<close>

text \<open>
  Cancel and the form's own button clear its errors; the other form's button closes it and leaves them, and so does an
  answer that finds it closed: an empty form opens with the errors of the last one. A success closes the form that is open by
  then, with what was typed into it since.
\<close>

theorem errors_outlive_their_form:
  "let old = fold profile_step [ChangePressed, PasswordSubmitted [] [] [], EditPressed, ChangePressed] (mount_profile u);
       late = fold profile_step [ChangePressed, PasswordSubmitted ''right'' ''new-password'' ''new-password'', ChangePressed,
         ProfileAnswered 0 (Inl refusal), ChangePressed] (mount_profile u);
       other = fold profile_step [EditPressed, ProfileSubmitted [], ChangePressed, EditPressed] (mount_profile u);
       closed' = fold profile_step [ChangePressed, PasswordSubmitted ''right'' ''new-password'' ''new-password'', ChangePressed,
         ChangePressed, ProfileAnswered 0 (Inr ())] (mount_profile u) in
   pf_editingPassword old \<and> pf_passwordErrors old = password_problems [] [] [] \<and>
   pf_editingPassword late \<and> pf_passwordErrors late = password_failure refusal \<and>
   pf_editingProfile other \<and> pf_profileError other = Some ''Display name is required.'' \<and>
   \<not> pf_editingPassword closed'"
  by (simp add: mount_profile_def profile_ops profile_resume_def handlePasswordSubmit_def password_problems_def
    no_password_errors_def handleProfileSubmit_def park_def waiting_at_def Let_def js_trim_def)

end
