(* ===== verification/SmallForms.thy ===== *)
theory SmallForms
  imports PageTasks
begin

text \<open>
  The small forms and guards: registering (\<open>frontend/src/pages/RegisterPage.tsx\<close>), asking for a reset link
  (\<open>ForgotPasswordPage.tsx\<close>), the dialog for a new board (\<open>components/dashboard/CreateDashboardModal.tsx\<close>), the rows of a share
  panel (\<open>components/ui/SharePanel.tsx\<close>, \<open>share-panel/ShareAccessRow.tsx\<close>), the boundary around a tile
  (\<open>components/ui/ErrorBoundary.tsx\<close>, \<open>WidgetRenderer.tsx\<close>) and the registry of what a sign-out clears
  (\<open>resources/resetRegistry.ts\<close>). A disabled button also keeps Enter from submitting its form.

  The lemmas: the forms send one request at a time, a tile shows its fallback only after a crash of its own that nothing
  has put right, and a sign-out runs every registered reset once. The trace shows two changes to one person's access
  under way at once.
\<close>

section \<open>Forms of one request\<close>

record request_form =
  rf_error :: "string option"
  rf_message :: "string option"
  rf_loading :: bool
  rf_sent :: "string list list"
  rf_visited :: "string list"

definition empty_form :: request_form where
  "empty_form = \<lparr>rf_error = None, rf_message = None, rf_loading = False, rf_sent = [], rf_visited = []\<rparr>"

definition form_sends :: "string list \<Rightarrow> request_form \<Rightarrow> request_form" where
  "form_sends arguments st =
     (if rf_loading st then st
      else st\<lparr>rf_error := None, rf_message := None, rf_loading := True, rf_sent := rf_sent st @ [arguments]\<rparr>)"

definition register_submit :: "string \<Rightarrow> string \<Rightarrow> string \<Rightarrow> request_form \<Rightarrow> request_form" where
  "register_submit displayName email password = form_sends [email, password, displayName]"

text \<open>The answer names the address the link was sent to; \<open>encode\<close> is \<open>encodeURIComponent\<close>.\<close>

definition registerAnswer :: "(string \<Rightarrow> string) \<Rightarrow> string reply \<Rightarrow> request_form \<Rightarrow> request_form" where
  "registerAnswer encode reply st =
     (if \<not> rf_loading st then st
      else case reply of
        Inr email \<Rightarrow> st\<lparr>rf_visited := rf_visited st @ [''/verify-email?email='' @ encode email], rf_loading := False\<rparr>
      | Inl err \<Rightarrow> st\<lparr>rf_error := Some (error_message err ''Registration failed''), rf_loading := False\<rparr>)"

definition forgot_submit :: "string \<Rightarrow> request_form \<Rightarrow> request_form" where
  "forgot_submit email = form_sends [email]"

definition forgotAnswer :: "unit reply \<Rightarrow> request_form \<Rightarrow> request_form" where
  "forgotAnswer reply st =
     (if \<not> rf_loading st then st
      else case reply of
        Inr _ \<Rightarrow> st\<lparr>rf_message := Some ''If that email exists, a password reset link has been sent.'', rf_loading := False\<rparr>
      | Inl err \<Rightarrow> st\<lparr>rf_error := Some (error_message err ''Failed to send password reset email''), rf_loading := False\<rparr>)"

datatype form_event = Register string string string | Registered "string reply" | Forgot string | ForgotAnswered "unit reply"

fun form_step :: "(string \<Rightarrow> string) \<Rightarrow> form_event \<Rightarrow> request_form \<Rightarrow> request_form" where
  "form_step encode (Register n e p) st = register_submit n e p st"
| "form_step encode (Registered reply) st = registerAnswer encode reply st"
| "form_step encode (Forgot e) st = forgot_submit e st"
| "form_step encode (ForgotAnswered reply) st = forgotAnswer reply st"

text \<open>An error and a confirmation are never shown together, and neither while a request is out.\<close>

definition form_ok :: "request_form \<Rightarrow> bool" where
  "form_ok st \<longleftrightarrow> (rf_loading st \<longrightarrow> rf_error st = None \<and> rf_message st = None) \<and> (rf_error st = None \<or> rf_message st = None)"

interpretation form_runs: event_machine "form_step encode" form_ok for encode
proof
  show "form_ok s \<Longrightarrow> form_ok (form_step encode e s)" for e s
    by (cases e) (auto simp: form_ok_def form_sends_def register_submit_def registerAnswer_def forgot_submit_def forgotAnswer_def
      split: sum.split)
qed

lemma form_says_one_thing: "form_ok (fold (form_step encode) es empty_form)"
  by (rule form_runs.run_inv) (simp add: form_ok_def empty_form_def)

section \<open>The dialog for a new board\<close>

record create_board_modal =
  cb_open :: bool
  cb_submitting :: bool
  cb_calls :: "string list"
  cb_visited :: "string list"

definition create_board_submit :: "string \<Rightarrow> create_board_modal \<Rightarrow> create_board_modal" where
  "create_board_submit typed st =
     (let name = js_trim typed in
      if cb_submitting st \<or> name = [] then st else st\<lparr>cb_submitting := True, cb_calls := cb_calls st @ [name]\<rparr>)"

text \<open>The store's answer: the new board, or nothing where it has shown an error; the page closes the dialog and goes there.\<close>

definition create_board_answer :: "dashboard_summary option \<Rightarrow> create_board_modal \<Rightarrow> create_board_modal" where
  "create_board_answer summary st =
     (if \<not> cb_submitting st then st
      else (case summary of
          Some s \<Rightarrow> st\<lparr>cb_open := False, cb_visited := cb_visited st @ [''/dashboard/'' @ s_id s]\<rparr>
        | None \<Rightarrow> st)\<lparr>cb_submitting := False\<rparr>)"

text \<open>A board that could not be made leaves the dialog open to be sent again; one that was is named trimmed and opened.\<close>

lemma create_board_round:
  assumes "\<not> cb_submitting st"
  shows "create_board_answer None (create_board_submit typed st) =
      (if js_trim typed = [] then st else st\<lparr>cb_calls := cb_calls st @ [js_trim typed]\<rparr>) \<and>
    create_board_submit again (create_board_submit typed st) =
      (if js_trim typed = [] then create_board_submit again st else create_board_submit typed st)"
  using assms by (simp add: create_board_submit_def create_board_answer_def Let_def)

section \<open>The rows of a share panel\<close>

datatype panel_role = AsViewer | AsEditor

record access_row =
  ar_key :: string
  ar_role :: panel_role

datatype access_call = ChangeRole string panel_role | RemoveAccess string

record access_panel =
  ap_busyKey :: "string option"
  ap_waits :: "string parked"
  ap_calls :: "access_call list"

definition initial_access :: access_panel where
  "initial_access = \<lparr>ap_busyKey = None, ap_waits = ([], 0), ap_calls = []\<rparr>"

definition access_send :: "access_call \<Rightarrow> string \<Rightarrow> access_panel \<Rightarrow> access_panel" where
  "access_send c key st = st\<lparr>ap_busyKey := Some key, ap_waits := park key (ap_waits st), ap_calls := ap_calls st @ [c]\<rparr>"

definition row_disabled :: "access_row \<Rightarrow> access_panel \<Rightarrow> bool" where
  "row_disabled item st = (ap_busyKey st = Some (ar_key item))"

definition handleUpdate :: "access_row \<Rightarrow> panel_role \<Rightarrow> access_panel \<Rightarrow> access_panel" where
  "handleUpdate item role st = (if ar_role item = role then st else access_send (ChangeRole (ar_key item) role) (ar_key item) st)"

definition handleRemove :: "access_row \<Rightarrow> access_panel \<Rightarrow> access_panel" where
  "handleRemove item st = access_send (RemoveAccess (ar_key item)) (ar_key item) st"

definition access_settled :: "nat \<Rightarrow> access_panel \<Rightarrow> access_panel" where
  "access_settled n st =
     (case waiting_at n (ap_waits st) of
        None \<Rightarrow> st
      | Some key \<Rightarrow> st\<lparr>ap_waits := unpark n (ap_waits st), ap_busyKey := None\<rparr>)"

datatype access_event = RoleChosen access_row panel_role | RemovePressed access_row | AccessSettles nat

fun access_step :: "access_event \<Rightarrow> access_panel \<Rightarrow> access_panel" where
  "access_step (RoleChosen item role) st = (if row_disabled item st then st else handleUpdate item role st)"
| "access_step (RemovePressed item) st = (if row_disabled item st then st else handleRemove item st)"
| "access_step (AccessSettles n) st = access_settled n st"

text \<open>A row is disabled only while a request for it is out.\<close>

definition access_ok :: "access_panel \<Rightarrow> bool" where
  "access_ok st \<longleftrightarrow> (case ap_busyKey st of Some key \<Rightarrow> key \<in> parked (ap_waits st) | None \<Rightarrow> True)"

interpretation access_runs: event_machine access_step access_ok
proof
  show "access_ok s \<Longrightarrow> access_ok (access_step e s)" for e s
    by (cases e) (auto simp: access_ok_def handleUpdate_def handleRemove_def access_send_def access_settled_def split: option.split)
qed

lemma disabled_row_has_a_request:
  "access_ok (fold access_step es initial_access)"
  by (rule access_runs.run_inv) (simp add: access_ok_def initial_access_def)

text \<open>
  The panel remembers one row: the answer for another person frees a row whose own request is still out, and a second
  change to the same person's access goes out beside the first.
\<close>

theorem busy_row_is_forgotten:
  "let a = \<lparr>ar_key = ''a'', ar_role = AsViewer\<rparr>; b = \<lparr>ar_key = ''b'', ar_role = AsViewer\<rparr>;
       st = fold access_step [RoleChosen a AsEditor, RoleChosen b AsEditor, AccessSettles 0] initial_access in
   \<not> row_disabled b st \<and> parked (ap_waits st) = {''b''} \<and>
   ap_calls (access_step (RemovePressed b) st) = [ChangeRole ''a'' AsEditor, ChangeRole ''b'' AsEditor, RemoveAccess ''b''] \<and>
   fst (ap_waits (access_step (RemovePressed b) st)) = [(1, ''b''), (2, ''b'')]"
  by code_simp

section \<open>The boundary around a tile\<close>

text \<open>The boundaries on the board, by the widget that keys them, with whether each has caught an error.\<close>

type_synonym boundaries = "(string \<times> bool) list"

definition boundary_fallback :: "string \<Rightarrow> boundaries \<Rightarrow> bool" where
  "boundary_fallback i bs = (map_of bs i = Some True)"

definition getDerivedStateFromError :: "string \<Rightarrow> boundaries \<Rightarrow> boundaries" where
  "getDerivedStateFromError i bs = map (\<lambda>(j, e). (j, if j = i then True else e)) bs"

definition boundary_reset :: "string \<Rightarrow> boundaries \<Rightarrow> boundaries" where
  "boundary_reset i bs = map (\<lambda>(j, e). (j, if j = i then False else e)) bs"

text \<open>A render of the board keeps the boundaries of the widgets that stay and mounts new ones.\<close>

definition render_board :: "string list \<Rightarrow> boundaries \<Rightarrow> boundaries" where
  "render_board widgets bs = map (\<lambda>i. (i, boundary_fallback i bs)) widgets"

datatype boundary_event = Crashes string | Retries string | Renders "string list"

fun boundary_step :: "boundary_event \<Rightarrow> boundaries \<Rightarrow> boundaries" where
  "boundary_step (Crashes i) bs = getDerivedStateFromError i bs"
| "boundary_step (Retries i) bs = boundary_reset i bs"
| "boundary_step (Renders ws) bs = render_board ws bs"

lemma map_of_keyed: "map_of (map (\<lambda>(j, e). (j, f j e)) bs) i = map_option (f i) (map_of bs i)"
  by (induction bs) auto

lemma map_of_render: "map_of (render_board ws bs) i = (if i \<in> set ws then Some (boundary_fallback i bs) else None)"
  by (induction ws) (auto simp: render_board_def)

fun put_right :: "string \<Rightarrow> boundary_event \<Rightarrow> bool" where
  "put_right i (Crashes j) = False"
| "put_right i (Retries j) = (j = i)"
| "put_right i (Renders ws) = (i \<notin> set ws)"

lemma fallback_step:
  "boundary_fallback i (boundary_step e bs) \<Longrightarrow> \<not> put_right i e \<and> (e = Crashes i \<or> boundary_fallback i bs)"
  by (cases e) (auto simp: boundary_fallback_def getDerivedStateFromError_def boundary_reset_def map_of_keyed map_of_render split: if_splits)

text \<open>
  A crash costs its own tile and no other: a tile shows its fallback only after a crash of its own since which it
  was neither retried nor taken off the board.
\<close>

lemma crash_costs_one_tile:
  "boundary_fallback i (fold boundary_step es []) \<Longrightarrow>
     \<exists>pre post. es = pre @ Crashes i # post \<and> list_all (\<lambda>e. \<not> put_right i e) post"
proof (induction es rule: rev_induct)
  case Nil
  then show ?case by (simp add: boundary_fallback_def)
next
  case (snoc e es)
  then have s: "\<not> put_right i e" "e = Crashes i \<or> boundary_fallback i (fold boundary_step es [])"
    using fallback_step [of i e "fold boundary_step es []"] by auto
  show ?case
  proof (cases "e = Crashes i")
    case True
    then show ?thesis by (intro exI [of _ es] exI [of _ "[]"]) simp
  next
    case False
    with s snoc.IH obtain pre post where "es = pre @ Crashes i # post" "list_all (\<lambda>e. \<not> put_right i e) post" by auto
    with s(1) show ?thesis by (intro exI [of _ pre] exI [of _ "post @ [e]"]) simp
  qed
qed

section \<open>What a sign-out clears\<close>

text \<open>The set of resets keeps the order of the first registration; a reset is named by the cache it clears.\<close>

definition registerResourceReset :: "string \<Rightarrow> string list \<Rightarrow> string list" where
  "registerResourceReset reset resets = (if reset \<in> set resets then resets else resets @ [reset])"

definition resetAllResourceData :: "string list \<Rightarrow> ('s \<Rightarrow> string \<Rightarrow> 's) \<Rightarrow> 's \<Rightarrow> 's" where
  "resetAllResourceData resets run s = foldl run s resets"

text \<open>Whatever the order the modules load in, and however often, a sign-out runs each registered reset once.\<close>

lemma every_reset_runs_once:
  "let ran = resetAllResourceData (fold registerResourceReset rs []) (\<lambda>log r. log @ [r]) [] in
   set ran = set rs \<and> distinct ran"
proof -
  have "set (fold registerResourceReset rs xs) = set rs \<union> set xs \<and> (distinct xs \<longrightarrow> distinct (fold registerResourceReset rs xs))" for xs
    by (induction rs arbitrary: xs) (auto simp: registerResourceReset_def)
  from this [of "[]"] have "set (fold registerResourceReset rs []) = set rs" "distinct (fold registerResourceReset rs [])" by auto
  moreover have "foldl (\<lambda>log r. log @ [r]) ys xs = ys @ xs" for xs ys :: "string list"
    by (induction xs arbitrary: ys) auto
  ultimately show ?thesis by (simp add: resetAllResourceData_def Let_def)
qed

end
