(* ===== verification/Spec2Isabelle.thy ===== *)
theory Spec2Isabelle
  imports LayoutServer DashboardMachine GridGesture ListSteps CalendarData CalendarEditor LocalDay NotificationsStore
    SseWorld Backoff AuthStore UiStores ListPage ApiRoutes SessionsData AccountForms
    WidgetLayout Widgets Chrome Palette ListsPage Panels CalendarMonth Profile SmallForms
begin

text \<open>
  A verification development of FrontDashboard, a dashboard shared by a household: boards with tiles, lists, a calendar,
  notifications. Modelled is the web client (TypeScript, \<open>frontend/src\<close>) and, where the client's correctness rests on
  it, the part of the server (Python, \<open>backend/app\<close>) that answers.

  \<^bold>\<open>How the program works.\<close> A page renders what a store or a resource holds. A store (\<open>stores/*.ts\<close>) is one record with
  actions; a resource (\<open>resources/*.ts\<close>) is a cache of queries keyed by scope. An action sends a request
  (\<open>api/*.ts\<close>), awaits it and writes the answer back, unless the session it belongs to is over (\<open>stores/sessionGeneration.ts\<close>)
  or a newer request has superseded it. The server writes every change to an activity log and sends it as a frame over
  one event stream (\<open>hooks/useSSE.ts\<close>, \<open>routers/sse.py\<close>); a frame patches or invalidates what it concerns, and after a
  loss the stream names the scopes to refetch. The hard part of the client is therefore ordering: answers and frames
  come in any order, a user acts in between, and what is shown must still be right.

  \<^bold>\<open>How it is modelled.\<close> The state of a component is a record; every synchronous stretch of its code, from a call,
  an answer, a frame or a timer up to the next await, is one function on it; what follows an await is a parked task
  that an event with the answer resumes. A component is the step function over all its events, and its theorems speak
  of every sequence of events from its initial state. An answer is an error or a value; an exception is a value too.
  An object the code compares by identity is its number. A map that JavaScript keeps in insertion order is an
  association list.

  \<^bold>\<open>The theories.\<close>
  \<^item> \<open>Prelude\<close>, \<open>Contract\<close>: the built-ins of JavaScript used, the wire data of \<open>api/generated/contract.ts\<close>, and two of
    the interfaces: \<open>js_comparator\<close> (a comparison that sorts), \<open>event_machine\<close> (a step that keeps an invariant, so every
    run does); with them \<open>SessionGuard\<close> (\<open>guarded_store\<close>: what a sign-out leaves is not touched by earlier answers),
    \<open>SingleFlight\<close> (\<open>single_flight\<close>: one load at a time) and \<open>PageTasks\<close> (\<open>ask_first\<close>: no irreversible call without a question
    answered). Each is interpreted on the components that provide it.
  \<^item> The board store (\<open>stores/dashboard.ts\<close>, \<open>utils/dashboard\<close>): \<open>ChangedFields\<close>, \<open>DashboardEvents\<close>, \<open>LoadOptions\<close>, \<open>Debounce\<close>
    below it, \<open>DashboardState\<close>, \<open>DashboardLoads\<close>, \<open>DashboardActions\<close>, \<open>DashboardFrames\<close>, \<open>LayoutSave\<close> its parts, and
    \<open>DashboardMachine\<close> the store as a whole with its invariant and its sign-out. \<open>LayoutServer\<close> is the write path behind
    \<open>PUT /layout\<close> (\<open>schemas/dashboards.py\<close>, \<open>routers/dashboards.py\<close>), and client and server run together there.
  \<^item> The board's geometry (\<open>components/dashboard/DashboardGrid.tsx\<close>): \<open>Grid\<close>, which also holds the server's own search for a
    free slot (\<open>_first_free_slot\<close> in \<open>routers/dashboards.py\<close>), and \<open>GridGesture\<close>.
  \<^item> Resources: \<open>ScopedQuery\<close> is the cache, with its heap of entries, eviction, invalidation and reset; \<open>ListData\<close>,
    \<open>AgendaData\<close>, \<open>SessionsData\<close> are on it. \<open>ListSteps\<close> runs them beside the server's lists (\<open>routers/lists.py\<close>). \<open>Intervals\<close>
    and \<open>OccurrenceStore\<close> are the cache of the calendar, \<open>CalendarData\<close> the rest of the calendar resource.
  \<^item> Time and the calendar: \<open>CivilDate\<close> and \<open>CalendarTime\<close> (\<open>Date\<close> as ECMAScript defines it, over any zone), \<open>CalendarGrid\<close>,
    \<open>CalendarDraft\<close>, \<open>CalendarEditor\<close>, \<open>CalendarMonth\<close>, \<open>LocalDay\<close>, \<open>WidgetLayout\<close>, \<open>Palette\<close>.
  \<^item> The stream: \<open>SseStream\<close> (the hook), \<open>SseWorld\<close> (hook and server together), \<open>Backoff\<close>.
  \<^item> Account, requests, notifications: \<open>ApiClient\<close> (\<open>api/client.ts\<close>), \<open>ApiCalls\<close> (every wrapper), \<open>ApiRoutes\<close> (the server's
    routing table), \<open>AuthStore\<close> (\<open>stores/auth.ts\<close>, run with the browser's cookie and the server that answers by it,
    \<open>auth/dependencies.py\<close>), \<open>AccountForms\<close>, \<open>NotificationsStore\<close>, \<open>ActivityFeed\<close>.
  \<^item> Pages and shell: \<open>Routes\<close>, \<open>BoardPages\<close>, \<open>ListsPage\<close>, \<open>ListPage\<close>, \<open>AddItem\<close>, \<open>CheckedPile\<close>, \<open>Profile\<close>, \<open>SmallForms\<close>, \<open>Widgets\<close>, \<open>Panels\<close>,
    \<open>UiStores\<close>, \<open>Chrome\<close>.

  \<^bold>\<open>What is shown.\<close>
  \<^item> Sessions: after a sign-out no earlier answer reaches a field a page reads (board store, account, notifications,
    caches), and a revoked session is shown on no page again; one generation shows one account, as long as no other tab
    moves the cookie to an account and no sign-in is answered while the first check is out.
  \<^item> Saving layouts: the store's invariant in every run, a drain that ends, and with the server's write path that a client
    whose drags are the only writes never meets a conflict, whichever saves fail, as long as its re-reads arrive, and that
    the last layout dragged is stored where nothing fails and every layout dragged fits the grid at full minimum sizes; a
    gesture the client saves passes the server's validator, and both sides' searches find the same free slot.
  \<^item> Caches: entries stay consistent and stale ones stay marked until refetched; a covered window of the
    calendar holds exactly the server's occurrences; lists and agendas patched after six of the own mutations (not a
    restore, not a reorder) equal what a refetch would bring.
  \<^item> The stream: however it drops outside its handshake or overflows, once idle every event has reached the caches it
    concerns, but for the reorders of lists, which the server labels as their dashboard, and what belongs to a dashboard
    whose access was lost; a dead stream is reopened.
  \<^item> The calendar: days, drafts and the editor over zones with transitions; the widgets ask for all they draw, where the
    day they count from has a midnight, and draw no more than fits; an untouched draft keeps its event's instants outside
    the second pass of a repeated hour.
  \<^item> The interface of client and server: every call arrives at its handler, every kind of answer is read as what it is,
    participants picked in the editor pass the server's rule.
  \<^item> Pages: nothing is purged, left or transferred without a question; an undo goes to the board it came from; addresses
    settle; rows of the feed stay open as it grows.
  The lemmas on single functions (sorting, merging, labels, bounds) stand in the theory of the function. Theorems that
  end in traces show behaviour of the code that its own comments or its purpose speak against.

  \<^bold>\<open>Bounds.\<close> No definition stands on fuel that could run out. The loop of \<open>apiFetch\<close> recurses on the attempts left, two for a
  read and one for a write; a search for a week's or month's rows recurses on a count the dates bound; caches
  hold as many entries as the code's cap says, which is a parameter of the machine where the code passes it. Machine
  integers appear once, in the 32-bit hash of \<open>Palette\<close>, as words; the client's other numbers are whole and far below
  \<open>2^53\<close>, and stand as integers.

  \<^bold>\<open>What is taken as given.\<close> React commits an effect after the render that asked for it (a step of its own);
  \<open>react-grid-layout\<close>'s compaction, \<open>Intl\<close> formats, \<open>localeCompare\<close>, the time zone, \<open>Date.parse\<close>, \<open>encodeURIComponent\<close> and the
  generated schemas are parameters, with what the code relies on as named hypotheses (\<open>zone_ok\<close>, \<open>reads_first\<close>, \<open>args_ok\<close> and the like), each
  shown to be satisfiable by a witness. Strings are Latin-1 code units. Quotients of measured pixels and numbers typed by
  hand are exact rationals where the browser rounds to doubles. Where one step of the model is several microtasks of the
  code with no other code of the client in between that the model has, the theory says so: in \<open>ScopedQuery\<close> the \<open>then\<close>,
  \<open>catch\<close> and \<open>finally\<close> of a request are one step, and the patches are those that never turn the spinner on, as all
  callers' are; in \<open>AuthStore\<close> an answer and the cookie it sets are one. In \<open>SseWorld\<close> appending to the log and broadcasting is one
  step, and so is reading the head and registering the queue; what the code's separate steps lose in between is stated
  with the theory.

  \<^bold>\<open>Not modelled.\<close> Markup, class names, focus, scrolling, animation and drag sensors: they are rendering. The inside of
  third-party packages (React, zustand, Radix, zod, react-grid-layout, dnd-kit). Of the generated contract only the fields some
  modelled code reads. Of the server what the client's theorems do not rest on: authentication and mail, recurrence expansion,
  quotas, retention, migrations and the database, whose language is not the client's. Tests, build files and
  observability.
\<close>

end
